(* ===== verification/Gateway_Prelude.thy ===== *)
theory Gateway_Prelude
  imports Complex_Main "HOL-Library.Char_ord" "HOL-Library.List_Lexorder"
    "HOL-Library.Product_Lexorder" "HOL-Library.Sublist"
begin

text \<open>
  What the component theories share: the result and state-passing types with their
  combinators, JSON values as the TypeScript code sees them after \<open>JSON.parse\<close>, the
  string operations of the ECMAScript library the code calls, numerals in a radix,
  and the generic list lemmas.

  Strings are lists of 8-bit characters: a model string stands for an ECMAScript string
  whose UTF-16 code units are all below 256.  Comparison with \<open><\<close> is by code unit, as
  in the source.
\<close>

named_theorems op_simps \<open>unfolding a state-passing operation step by step\<close>
named_theorems keeps_intros \<open>an operation keeps an invariant of its state\<close>

section \<open>Results and state-passing operations\<close>

text \<open>
  A fallible pure function returns \<open>'e + 'a\<close> (\<open>Inl\<close> is a throw).  A method that reads
  and writes its object's state is a function from the state to the outcome and the
  state after it: a throw keeps what was written before it, as in the source.
\<close>

type_synonym ('s, 'e, 'a) op = "'s \<Rightarrow> ('e + 'a) \<times> 's"

definition returnE :: "'a \<Rightarrow> ('s, 'e, 'a) op" where
  "returnE x = (\<lambda>s. (Inr x, s))"

definition throwE :: "'e \<Rightarrow> ('s, 'e, 'a) op" where
  "throwE e = (\<lambda>s. (Inl e, s))"

definition bindE :: "('s, 'e, 'a) op \<Rightarrow> ('a \<Rightarrow> ('s, 'e, 'b) op) \<Rightarrow> ('s, 'e, 'b) op" where
  "bindE m k = (\<lambda>s. case m s of (Inl e, t) \<Rightarrow> (Inl e, t) | (Inr x, t) \<Rightarrow> k x t)"

definition thenE :: "('s, 'e, 'a) op \<Rightarrow> ('s, 'e, 'b) op \<Rightarrow> ('s, 'e, 'b) op" where
  "thenE m k = bindE m (\<lambda>_. k)"

definition getsE :: "('s \<Rightarrow> 'a) \<Rightarrow> ('s, 'e, 'a) op" where
  "getsE f = (\<lambda>s. (Inr (f s), s))"

definition modifyE :: "('s \<Rightarrow> 's) \<Rightarrow> ('s, 'e, unit) op" where
  "modifyE f = (\<lambda>s. (Inr (), f s))"

text \<open>\<open>assertE b e\<close> is the source's \<open>if (!b) throw e\<close>.\<close>

definition assertE :: "bool \<Rightarrow> 'e \<Rightarrow> ('s, 'e, unit) op" where
  "assertE b e = (if b then returnE () else throwE e)"

definition liftE :: "('e + 'a) \<Rightarrow> ('s, 'e, 'a) op" where
  "liftE r = (\<lambda>s. (r, s))"

fun mapE :: "('a \<Rightarrow> ('s, 'e, unit) op) \<Rightarrow> 'a list \<Rightarrow> ('s, 'e, unit) op" where
  "mapE f [] = returnE ()"
| "mapE f (x # xs) = thenE (f x) (mapE f xs)"

lemma bind_apply [op_simps]:
  "bindE m k s = (case m s of (Inl e, t) \<Rightarrow> (Inl e, t) | (Inr x, t) \<Rightarrow> k x t)"
  by (simp add: bindE_def)

lemma then_apply [op_simps]:
  "thenE m k s = (case m s of (Inl e, t) \<Rightarrow> (Inl e, t) | (Inr x, t) \<Rightarrow> k t)"
  by (simp add: thenE_def bindE_def)

lemma return_apply [op_simps]: "returnE x s = (Inr x, s)"
  by (simp add: returnE_def)

lemma throw_apply [op_simps]: "throwE e s = (Inl e, s)"
  by (simp add: throwE_def)

lemma gets_apply [op_simps]: "getsE f s = (Inr (f s), s)"
  by (simp add: getsE_def)

lemma modify_apply [op_simps]: "modifyE f s = (Inr (), f s)"
  by (simp add: modifyE_def)

lemma assert_apply [op_simps]: "assertE b e s = (if b then (Inr (), s) else (Inl e, s))"
  by (simp add: assertE_def op_simps)

lemma lift_apply [op_simps]: "liftE r s = (r, s)"
  by (simp add: liftE_def)

text \<open>The pure counterpart, for validators that only return or throw.\<close>

definition check :: "bool \<Rightarrow> 'e \<Rightarrow> 'e + unit" where
  "check b e = (if b then Inr () else Inl e)"

definition andThen :: "('e + 'a) \<Rightarrow> ('a \<Rightarrow> 'e + 'b) \<Rightarrow> 'e + 'b" where
  "andThen r k = (case r of Inl e \<Rightarrow> Inl e | Inr x \<Rightarrow> k x)"

fun first_error :: "('a \<Rightarrow> 'e + unit) \<Rightarrow> 'a list \<Rightarrow> 'e + unit" where
  "first_error f [] = Inr ()"
| "first_error f (x # xs) = (case f x of Inl e \<Rightarrow> Inl e | Inr _ \<Rightarrow> first_error f xs)"

lemma check_Inr [simp]: "check b e = Inr u \<longleftrightarrow> b"
  by (simp add: check_def)

lemma check_Inl [simp]: "check b e = Inl d \<longleftrightarrow> \<not> b \<and> d = e"
  by (auto simp: check_def)

lemma andThen_Inr [simp]: "andThen r k = Inr y \<longleftrightarrow> (\<exists>x. r = Inr x \<and> k x = Inr y)"
  by (simp add: andThen_def split: sum.split)

lemma andThen_Inl: "andThen r k = Inl e \<longleftrightarrow> r = Inl e \<or> (\<exists>x. r = Inr x \<and> k x = Inl e)"
  by (auto simp: andThen_def split: sum.splits)

lemma first_error_Inr [simp]: "first_error f xs = Inr u \<longleftrightarrow> (\<forall>x\<in>set xs. f x = Inr ())"
  by (induction xs) (auto split: sum.splits)

declare first_error.simps [simp del]

lemma first_error_Inl: "first_error f xs = Inl e \<Longrightarrow> \<exists>x\<in>set xs. f x = Inl e"
  by (induction xs) (auto simp: first_error.simps split: sum.splits)

subsection \<open>Invariants of operations\<close>

text \<open>
  \<open>keeps I m\<close>: whatever the operation answers, an error included, the state after it
  satisfies \<open>I\<close> when the state before it did.
\<close>

definition keeps :: "('s \<Rightarrow> bool) \<Rightarrow> ('s, 'e, 'a) op \<Rightarrow> bool" where
  "keeps I m \<longleftrightarrow> (\<forall>s. I s \<longrightarrow> I (snd (m s)))"

lemma keepsD: "keeps I m \<Longrightarrow> I s \<Longrightarrow> I (snd (m s))"
  by (simp add: keeps_def)

lemma keeps_return [keeps_intros]: "keeps I (returnE x)"
  by (simp add: keeps_def op_simps)

lemma keeps_throw [keeps_intros]: "keeps I (throwE e)"
  by (simp add: keeps_def op_simps)

lemma keeps_gets [keeps_intros]: "keeps I (getsE f)"
  by (simp add: keeps_def op_simps)

lemma keeps_assert [keeps_intros]: "keeps I (assertE b e)"
  by (simp add: keeps_def op_simps)

lemma keeps_lift [keeps_intros]: "keeps I (liftE r)"
  by (simp add: keeps_def op_simps)

lemma keeps_bind [keeps_intros]: "keeps I m \<Longrightarrow> (\<And>x. keeps I (k x)) \<Longrightarrow> keeps I (bindE m k)"
  by (fastforce simp: keeps_def op_simps split: prod.splits sum.splits)

lemma keeps_then [keeps_intros]: "keeps I m \<Longrightarrow> keeps I k \<Longrightarrow> keeps I (thenE m k)"
  unfolding thenE_def by (rule keeps_bind)

lemma keeps_modify: "(\<And>s. I s \<Longrightarrow> I (f s)) \<Longrightarrow> keeps I (modifyE f)"
  by (simp add: keeps_def op_simps)

lemma keeps_if [keeps_intros]: "keeps I a \<Longrightarrow> keeps I b \<Longrightarrow> keeps I (if c then a else b)"
  by simp

lemma keeps_mapE [keeps_intros]: "(\<And>x. keeps I (f x)) \<Longrightarrow> keeps I (mapE f xs)"
  by (induction xs) (auto intro: keeps_intros)

section \<open>JSON values\<close>

text \<open>
  A parsed JSON value.  A number is an exact integer or \<open>JNumOther\<close>, any other double
  (a fraction, or a value that overflowed); an object is its own keys in order.  A key
  that is absent reads as \<open>None\<close>, which is the source's \<open>undefined\<close>.
\<close>

datatype json = JNull | JBool bool | JNum int | JNumOther | JStr string
  | JArr "json list" | JObj "(string \<times> json) list"

type_synonym jobj = "(string \<times> json) list"

definition jget :: "jobj \<Rightarrow> string \<Rightarrow> json option" where
  "jget ob k = map_of ob k"

definition MAX_SAFE :: int where
  "MAX_SAFE = 9007199254740991"

text \<open>\<open>Number.isSafeInteger\<close>\<close>

fun is_safe_integer :: "json option \<Rightarrow> bool" where
  "is_safe_integer (Some (JNum i)) \<longleftrightarrow> - MAX_SAFE \<le> i \<and> i \<le> MAX_SAFE"
| "is_safe_integer _ \<longleftrightarrow> False"

section \<open>Strings\<close>

definition is_digit :: "char \<Rightarrow> bool" where
  "is_digit c \<longleftrightarrow> c \<in> set ''0123456789''"

definition is_alpha :: "char \<Rightarrow> bool" where
  "is_alpha c \<longleftrightarrow> c \<in> set ''abcdefghijklmnopqrstuvwxyzABCDEFGHIJKLMNOPQRSTUVWXYZ''"

definition is_lower :: "char \<Rightarrow> bool" where
  "is_lower c \<longleftrightarrow> c \<in> set ''abcdefghijklmnopqrstuvwxyz''"

definition is_hex :: "char \<Rightarrow> bool" where
  "is_hex c \<longleftrightarrow> c \<in> set ''0123456789abcdef''"

text \<open>The white space of \<open>\s\<close> and \<open>trim\<close> below code unit 256.\<close>

definition is_space :: "char \<Rightarrow> bool" where
  "is_space c \<longleftrightarrow> (of_char c :: nat) \<in> {9, 10, 11, 12, 13, 32, 160}"

definition js_trim :: "string \<Rightarrow> string" where
  "js_trim s = rev (dropWhile is_space (rev (dropWhile is_space s)))"

text \<open>\<open>Buffer.byteLength(s, "utf8")\<close>: two bytes for a code unit from 128 to 255.\<close>

definition utf8_bytes :: "string \<Rightarrow> nat" where
  "utf8_bytes s = sum_list (map (\<lambda>c. if (of_char c :: nat) < 128 then 1 else 2) s)"

text \<open>\<open>toLowerCase\<close> below code unit 256.\<close>

definition lower_char :: "char \<Rightarrow> char" where
  "lower_char c = (let n = (of_char c :: nat) in
     if 65 \<le> n \<and> n \<le> 90 \<or> 192 \<le> n \<and> n \<le> 222 \<and> n \<noteq> 215 then char_of (n + 32) else c)"

definition js_lower :: "string \<Rightarrow> string" where
  "js_lower s = map lower_char s"

text \<open>\<open>s.split(c)\<close> for a one-character separator, and \<open>join\<close>.\<close>

fun split_on :: "'a \<Rightarrow> 'a list \<Rightarrow> 'a list list" where
  "split_on c [] = [[]]"
| "split_on c (x # xs) =
     (if x = c then [] # split_on c xs
      else (case split_on c xs of [] \<Rightarrow> [[x]] | y # ys \<Rightarrow> (x # y) # ys))"

fun join_with :: "'a list \<Rightarrow> 'a list list \<Rightarrow> 'a list" where
  "join_with sep [] = []"
| "join_with sep [x] = x"
| "join_with sep (x # y # ys) = x @ sep @ join_with sep (y # ys)"

lemma split_on_nonempty [simp]: "split_on c xs \<noteq> []"
  by (induction xs) (auto split: list.splits)

lemma join_split_on: "join_with [c] (split_on c xs) = xs"
proof (induction xs)
  case (Cons x xs)
  obtain y ys where y: "split_on c xs = y # ys"
    by (cases "split_on c xs") auto
  with Cons show ?case by (cases ys) auto
qed simp

lemma split_on_no_sep: "c \<notin> set xs \<Longrightarrow> split_on c xs = [xs]"
  by (induction xs) auto

lemma split_on_append: "c \<notin> set xs \<Longrightarrow> split_on c (xs @ c # ys) = xs # split_on c ys"
  by (induction xs) auto

lemma split_on_parts: "p \<in> set (split_on c xs) \<Longrightarrow> c \<notin> set p"
proof (induction xs arbitrary: p)
  case (Cons x xs)
  obtain y ys where y: "split_on c xs = y # ys"
    by (cases "split_on c xs") auto
  with Cons show ?case by (auto split: if_splits)
qed simp

lemma split_on_join: "xss \<noteq> [] \<Longrightarrow> \<forall>x\<in>set xss. c \<notin> set x \<Longrightarrow> split_on c (join_with [c] xss) = xss"
  by (induction "[c]" xss rule: join_with.induct) (auto simp: split_on_no_sep split_on_append)

text \<open>\<open>s.split(sep)\<close> for a string separator.\<close>

fun find_sub :: "string \<Rightarrow> string \<Rightarrow> (string \<times> string) option" where
  "find_sub sep [] = (if sep = [] then Some ([], []) else None)"
| "find_sub sep (c # cs) =
     (if prefix sep (c # cs) then Some ([], drop (length sep) (c # cs))
      else map_option (\<lambda>(a, b). (c # a, b)) (find_sub sep cs))"

lemma find_sub_append: "find_sub sep s = Some (a, b) \<Longrightarrow> s = a @ sep @ b"
  by (induction s arbitrary: a b) (auto split: if_splits elim!: prefixE)

lemma find_sub_shorter: "find_sub sep s = Some (a, b) \<Longrightarrow> sep \<noteq> [] \<Longrightarrow> length b < length s"
  by (drule find_sub_append) (cases sep, auto)

function js_split :: "string \<Rightarrow> string \<Rightarrow> string list" where
  "js_split sep s =
     (if sep = [] then map (\<lambda>c. [c]) s
      else (case find_sub sep s of None \<Rightarrow> [s] | Some (a, b) \<Rightarrow> a # js_split sep b))"
  by pat_completeness auto
termination
  by (relation "measure (\<lambda>(sep, s). length s)") (auto dest: find_sub_shorter)

declare js_split.simps [simp del]

text \<open>\<open>s.includes(t)\<close>\<close>

definition js_includes :: "string \<Rightarrow> string \<Rightarrow> bool" where
  "js_includes s t \<longleftrightarrow> find_sub t s \<noteq> None"

text \<open>\<open>s.split(/[p]+/).filter(t => t.length > 0)\<close>: the maximal runs outside a class.\<close>

fun js_tokens_aux :: "(char \<Rightarrow> bool) \<Rightarrow> string \<Rightarrow> string \<Rightarrow> string list" where
  "js_tokens_aux p acc [] = (if acc = [] then [] else [rev acc])"
| "js_tokens_aux p acc (c # cs) =
     (if p c then (if acc = [] then js_tokens_aux p [] cs else rev acc # js_tokens_aux p [] cs)
      else js_tokens_aux p (c # acc) cs)"

definition js_tokens :: "(char \<Rightarrow> bool) \<Rightarrow> string \<Rightarrow> string list" where
  "js_tokens p s = js_tokens_aux p [] s"

lemma js_tokens_aux_no_sep:
  "\<forall>c\<in>set s. \<not> p c \<Longrightarrow> js_tokens_aux p acc s = (if rev acc @ s = [] then [] else [rev acc @ s])"
  by (induction s arbitrary: acc) auto

lemma js_tokens_single: "s \<noteq> [] \<Longrightarrow> \<forall>c\<in>set s. \<not> p c \<Longrightarrow> js_tokens p s = [s]"
  by (simp add: js_tokens_def js_tokens_aux_no_sep)

lemma dropWhile_none: "\<forall>c\<in>set s. \<not> p c \<Longrightarrow> dropWhile p s = s"
  by (cases s) auto

lemma js_trim_no_space: "\<forall>c\<in>set s. \<not> is_space c \<Longrightarrow> js_trim s = s"
  by (simp add: js_trim_def dropWhile_none)

section \<open>Three-way comparison\<close>

definition cmp3 :: "'k::linorder \<Rightarrow> 'k \<Rightarrow> int" where
  "cmp3 x y = (if x < y then -1 else if x = y then 0 else 1)"

text \<open>
  The contract of a comparator \<open>(a, b) => number\<close>: on the values that are \<open>ok\<close> it is the
  three-way comparison of a key in a linear order.
\<close>

locale three_way =
  fixes compare :: "'a \<Rightarrow> 'a \<Rightarrow> int"
    and ok :: "'a \<Rightarrow> bool"
    and key :: "'a \<Rightarrow> 'k::linorder"
  assumes compare_key: "ok a \<Longrightarrow> ok b \<Longrightarrow> compare a b = cmp3 (key a) (key b)"
begin

lemma antisym: "ok a \<Longrightarrow> ok b \<Longrightarrow> compare a b = - compare b a"
  by (auto simp: compare_key cmp3_def)

lemma refl: "ok a \<Longrightarrow> compare a a = 0"
  by (simp add: compare_key cmp3_def)

lemma le_iff: "ok a \<Longrightarrow> ok b \<Longrightarrow> compare a b \<le> 0 \<longleftrightarrow> key a \<le> key b"
  by (auto simp: compare_key cmp3_def)

lemma less_iff: "ok a \<Longrightarrow> ok b \<Longrightarrow> compare a b < 0 \<longleftrightarrow> key a < key b"
  by (auto simp: compare_key cmp3_def)

lemma ge_iff: "ok a \<Longrightarrow> ok b \<Longrightarrow> 0 \<le> compare a b \<longleftrightarrow> key b \<le> key a"
  by (auto simp: compare_key cmp3_def)

lemma gr_iff: "ok a \<Longrightarrow> ok b \<Longrightarrow> 0 < compare a b \<longleftrightarrow> key b < key a"
  by (auto simp: compare_key cmp3_def)

lemma trans: "ok a \<Longrightarrow> ok b \<Longrightarrow> ok c \<Longrightarrow> compare a b \<le> 0 \<Longrightarrow> compare b c \<le> 0 \<Longrightarrow> compare a c \<le> 0"
  using le_iff by (meson order_trans)

lemmas compare_iffs = le_iff less_iff ge_iff gr_iff

end

end
