(* ===== verification/Gateway_Text.thy ===== *)
theory Gateway_Text
  imports Gateway_Prelude
begin

text \<open>
  Regular expressions and numerals.  A pattern of the source (\<open>/^...$/\<close>) is a term of
  \<open>rx\<close>; \<open>rx_test\<close> decides it by derivatives and is proved equal to membership in the
  pattern's language.  Numerals are \<open>BigInt(n).toString(b)\<close> and its inverse.
\<close>

section \<open>Regular expressions\<close>

datatype rx = RNone | REps | RCls "char \<Rightarrow> bool" | RSeq rx rx | RAlt rx rx | RStar rx

inductive_set star_lang :: "string set \<Rightarrow> string set" for A where
  star_empty: "[] \<in> star_lang A"
| star_app: "x \<in> A \<Longrightarrow> y \<in> star_lang A \<Longrightarrow> x @ y \<in> star_lang A"

fun rx_lang :: "rx \<Rightarrow> string set" where
  "rx_lang RNone = {}"
| "rx_lang REps = {[]}"
| "rx_lang (RCls p) = {[c] | c. p c}"
| "rx_lang (RSeq r q) = {x @ y | x y. x \<in> rx_lang r \<and> y \<in> rx_lang q}"
| "rx_lang (RAlt r q) = rx_lang r \<union> rx_lang q"
| "rx_lang (RStar r) = star_lang (rx_lang r)"

fun rx_nullable :: "rx \<Rightarrow> bool" where
  "rx_nullable RNone = False"
| "rx_nullable REps = True"
| "rx_nullable (RCls p) = False"
| "rx_nullable (RSeq r q) = (rx_nullable r \<and> rx_nullable q)"
| "rx_nullable (RAlt r q) = (rx_nullable r \<or> rx_nullable q)"
| "rx_nullable (RStar r) = True"

text \<open>Smart constructors keep the derivatives of a long pattern small.\<close>

fun mk_seq :: "rx \<Rightarrow> rx \<Rightarrow> rx" where
  "mk_seq RNone q = RNone"
| "mk_seq REps q = q"
| "mk_seq r q = RSeq r q"

fun mk_alt :: "rx \<Rightarrow> rx \<Rightarrow> rx" where
  "mk_alt RNone q = q"
| "mk_alt r RNone = r"
| "mk_alt r q = RAlt r q"

fun rx_deriv :: "char \<Rightarrow> rx \<Rightarrow> rx" where
  "rx_deriv c RNone = RNone"
| "rx_deriv c REps = RNone"
| "rx_deriv c (RCls p) = (if p c then REps else RNone)"
| "rx_deriv c (RSeq r q) =
     (if rx_nullable r then mk_alt (mk_seq (rx_deriv c r) q) (rx_deriv c q)
      else mk_seq (rx_deriv c r) q)"
| "rx_deriv c (RAlt r q) = mk_alt (rx_deriv c r) (rx_deriv c q)"
| "rx_deriv c (RStar r) = mk_seq (rx_deriv c r) (RStar r)"

fun rx_test :: "rx \<Rightarrow> string \<Rightarrow> bool" where
  "rx_test r [] = rx_nullable r"
| "rx_test r (c # cs) = rx_test (rx_deriv c r) cs"

lemma mk_seq_lang [simp]: "rx_lang (mk_seq r q) = rx_lang (RSeq r q)"
  by (induction r q rule: mk_seq.induct) auto

lemma mk_alt_lang [simp]: "rx_lang (mk_alt r q) = rx_lang (RAlt r q)"
  by (induction r q rule: mk_alt.induct) auto

lemma rx_nullable_lang: "rx_nullable r \<longleftrightarrow> [] \<in> rx_lang r"
  by (induction r) (auto intro: star_empty)

lemma star_lang_Cons:
  "c # cs \<in> star_lang A \<longleftrightarrow> (\<exists>x y. cs = x @ y \<and> c # x \<in> A \<and> y \<in> star_lang A)"
proof
  show "c # cs \<in> star_lang A \<Longrightarrow> \<exists>x y. cs = x @ y \<and> c # x \<in> A \<and> y \<in> star_lang A"
  proof (induction "c # cs" rule: star_lang.induct)
    case (star_app x y)
    then show ?case by (cases x) auto
  qed
next
  assume "\<exists>x y. cs = x @ y \<and> c # x \<in> A \<and> y \<in> star_lang A"
  then obtain x y where xy: "cs = x @ y" "c # x \<in> A" "y \<in> star_lang A" by blast
  then have "(c # x) @ y \<in> star_lang A" by (intro star_app)
  with xy show "c # cs \<in> star_lang A" by simp
qed

lemma seq_lang_Cons:
  "c # cs \<in> {x @ y | x y. x \<in> A \<and> y \<in> B} \<longleftrightarrow>
     ([] \<in> A \<and> c # cs \<in> B) \<or> (\<exists>x y. cs = x @ y \<and> c # x \<in> A \<and> y \<in> B)"
proof -
  have "(\<exists>x y. c # cs = x @ y \<and> x \<in> A \<and> y \<in> B) \<longleftrightarrow>
     ([] \<in> A \<and> c # cs \<in> B) \<or> (\<exists>x y. cs = x @ y \<and> c # x \<in> A \<and> y \<in> B)"
    by (auto simp: Cons_eq_append_conv)
  then show ?thesis by simp
qed

lemma rx_deriv_lang: "cs \<in> rx_lang (rx_deriv c r) \<longleftrightarrow> c # cs \<in> rx_lang r"
proof (induction r arbitrary: cs)
  case (RSeq r q)
  then show ?case
    by (cases "rx_nullable r")
      (simp_all add: seq_lang_Cons rx_nullable_lang del: mem_Collect_eq, auto)
next
  case (RStar r)
  then show ?case by (auto simp: star_lang_Cons)
qed auto

theorem rx_test_correct: "rx_test r s \<longleftrightarrow> s \<in> rx_lang r"
  by (induction s arbitrary: r) (auto simp: rx_nullable_lang rx_deriv_lang)

text \<open>The pattern syntax of the source.\<close>

definition RChr :: "char \<Rightarrow> rx" where "RChr c = RCls (\<lambda>d. d = c)"

definition ROpt :: "rx \<Rightarrow> rx" where "ROpt r = RAlt r REps"

definition RPlus :: "rx \<Rightarrow> rx" where "RPlus r = RSeq r (RStar r)"

fun RTimes :: "nat \<Rightarrow> rx \<Rightarrow> rx" where
  "RTimes 0 r = REps"
| "RTimes (Suc n) r = RSeq r (RTimes n r)"

fun RUpTo :: "nat \<Rightarrow> rx \<Rightarrow> rx" where
  "RUpTo 0 r = REps"
| "RUpTo (Suc n) r = ROpt (RSeq r (RUpTo n r))"

fun RStr :: "string \<Rightarrow> rx" where
  "RStr [] = REps"
| "RStr (c # cs) = RSeq (RChr c) (RStr cs)"

fun RAny :: "rx list \<Rightarrow> rx" where
  "RAny [] = RNone"
| "RAny (r # rs) = RAlt r (RAny rs)"

fun RCat :: "rx list \<Rightarrow> rx" where
  "RCat [] = REps"
| "RCat (r # rs) = RSeq r (RCat rs)"

lemma rx_lang_Chr [simp]: "rx_lang (RChr c) = {[c]}"
  by (auto simp: RChr_def)

lemma rx_lang_Opt [simp]: "rx_lang (ROpt r) = insert [] (rx_lang r)"
  by (auto simp: ROpt_def)

lemma rx_lang_star_cls: "s \<in> rx_lang (RStar (RCls p)) \<longleftrightarrow> (\<forall>c\<in>set s. p c)"
  by (induction s) (auto intro: star_empty simp: star_lang_Cons)

lemma rx_lang_seq_cls:
  "s \<in> rx_lang (RSeq (RCls p) q) \<longleftrightarrow> s \<noteq> [] \<and> p (hd s) \<and> tl s \<in> rx_lang q"
proof (cases s)
  case (Cons c cs)
  have "c # cs = x @ y \<and> (\<exists>d. x = [d] \<and> p d) \<longleftrightarrow> x = [c] \<and> y = cs \<and> p c" for x y
    by auto
  then show ?thesis unfolding Cons by auto
qed auto

lemma rx_lang_plus_cls: "s \<in> rx_lang (RPlus (RCls p)) \<longleftrightarrow> s \<noteq> [] \<and> (\<forall>c\<in>set s. p c)"
  unfolding RPlus_def rx_lang_seq_cls rx_lang_star_cls by (cases s) auto

lemma rx_lang_times_cls: "s \<in> rx_lang (RTimes n (RCls p)) \<longleftrightarrow> length s = n \<and> (\<forall>c\<in>set s. p c)"
proof (induction n arbitrary: s)
  case (Suc n)
  then show ?case
    unfolding RTimes.simps rx_lang_seq_cls by (cases s) auto
qed auto

lemma rx_lang_upto_cls: "s \<in> rx_lang (RUpTo n (RCls p)) \<longleftrightarrow> length s \<le> n \<and> (\<forall>c\<in>set s. p c)"
proof (induction n arbitrary: s)
  case (Suc n)
  then show ?case
    unfolding RUpTo.simps rx_lang_Opt insert_iff rx_lang_seq_cls by (cases s) auto
qed auto

text \<open>\<open>(0|[1-9][0-9]*)\<close>, the canonical decimal numeral of many patterns.\<close>

definition RX_COUNT :: rx where
  "RX_COUNT = RAlt (RChr CHR ''0'')
     (RSeq (RCls (\<lambda>c. is_digit c \<and> c \<noteq> CHR ''0'')) (RStar (RCls is_digit)))"

definition is_count :: "string \<Rightarrow> bool" where
  "is_count s \<longleftrightarrow> s \<noteq> [] \<and> (\<forall>c\<in>set s. is_digit c) \<and> (hd s = CHR ''0'' \<longrightarrow> s = ''0'')"

lemma rx_count: "rx_test RX_COUNT s \<longleftrightarrow> is_count s"
proof -
  have "is_digit CHR ''0''" by (simp add: is_digit_def)
  then show ?thesis
    unfolding rx_test_correct RX_COUNT_def rx_lang.simps(5) is_count_def Un_iff
      rx_lang_seq_cls rx_lang_star_cls
    by (cases s) auto
qed

section \<open>Numerals\<close>

definition digit_char :: "nat \<Rightarrow> char" where
  "digit_char d = (if d < 10 then char_of (48 + d) else char_of (87 + d))"

definition char_digit :: "char \<Rightarrow> nat" where
  "char_digit c = (let n = (of_char c :: nat) in if n < 58 then n - 48 else n - 87)"

text \<open>\<open>BigInt(n).toString(b)\<close>, for a radix from 2 to 16.\<close>

function radix_str :: "nat \<Rightarrow> nat \<Rightarrow> string" where
  "radix_str b n =
     (if n < b \<or> b < 2 then [digit_char n] else radix_str b (n div b) @ [digit_char (n mod b)])"
  by pat_completeness auto
termination
  by (relation "measure snd") (auto intro!: div_less_dividend)

declare radix_str.simps [simp del]

definition radix_val :: "nat \<Rightarrow> string \<Rightarrow> nat" where
  "radix_val b s = foldl (\<lambda>a c. a * b + char_digit c) 0 s"

abbreviation dec_str :: "nat \<Rightarrow> string" where "dec_str \<equiv> radix_str 10"
abbreviation dec_val :: "string \<Rightarrow> nat" where "dec_val \<equiv> radix_val 10"

lemma char_digit_char: "d < 16 \<Longrightarrow> char_digit (digit_char d) = d"
  by (simp add: char_digit_def digit_char_def of_char_of Let_def)

lemma radix_val_snoc: "radix_val b (s @ [c]) = radix_val b s * b + char_digit c"
  by (simp add: radix_val_def)

lemma radix_val_str:
  assumes "2 \<le> b" "b \<le> 16"
  shows "radix_val b (radix_str b n) = n"
proof (induction n rule: less_induct)
  case (less n)
  show ?case
  proof (cases "n < b")
    case True
    with assms show ?thesis
      by (simp add: radix_str.simps [of b n] radix_val_def char_digit_char)
  next
    case False
    with assms have "n div b < n" by (intro div_less_dividend) auto
    moreover have "n mod b < 16"
      using assms mod_less_divisor [of b n] by linarith
    ultimately show ?thesis using assms False less
      by (simp add: radix_str.simps [of b n] radix_val_snoc char_digit_char)
  qed
qed

lemma dec_val_str [simp]: "dec_val (dec_str n) = n"
  by (rule radix_val_str) auto

lemma dec_str_inject [simp]: "dec_str m = dec_str n \<longleftrightarrow> m = n"
  by (metis dec_val_str)

lemma digit_chars: "\<forall>d\<in>set [0..<10]. is_digit (digit_char d)"
  by code_simp

lemma digit_char_digit: "d < 10 \<Longrightarrow> is_digit (digit_char d)"
  using digit_chars by simp

lemma digit_char_0: "digit_char 0 = CHR ''0''" and digit_char_1: "digit_char 1 = CHR ''1''"
  by code_simp+

lemma digit_char_zero: "d < 10 \<Longrightarrow> digit_char d = CHR ''0'' \<Longrightarrow> d = 0"
  using char_digit_char [of d] char_digit_char [of 0] by (simp add: digit_char_0)

lemma dec_str_digits: "c \<in> set (dec_str n) \<Longrightarrow> is_digit c"
proof (induction n rule: less_induct)
  case (less n)
  show ?case
  proof (cases "n < 10")
    case True
    with less show ?thesis by (simp add: radix_str.simps [of 10 n] digit_char_digit)
  next
    case False
    with less.prems have "c \<in> set (dec_str (n div 10)) \<or> c = digit_char (n mod 10)"
      by (auto simp: radix_str.simps [of 10 n])
    with less.IH [of "n div 10"] False show ?thesis by (auto simp: digit_char_digit)
  qed
qed

lemma dec_str_nonempty [simp]: "dec_str n \<noteq> []"
  by (simp add: radix_str.simps [of 10 n])

lemma dec_str_hd: "0 < n \<Longrightarrow> hd (dec_str n) \<noteq> CHR ''0''"
proof (induction n rule: less_induct)
  case (less n)
  show ?case
  proof (cases "n < 10")
    case True
    with less show ?thesis by (auto simp: radix_str.simps [of 10 n] dest: digit_char_zero)
  next
    case False
    with less.IH [of "n div 10"] show ?thesis by (simp add: radix_str.simps [of 10 n])
  qed
qed

lemma dec_str_zero: "dec_str 0 = ''0''"
  by (simp add: radix_str.simps [of 10 0] digit_char_0)

lemma dec_str_count: "is_count (dec_str n)"
  using dec_str_hd [of n] dec_str_digits [of _ n]
  by (cases "n = 0") (auto simp: is_count_def dec_str_zero)

lemma dec_str_one: "dec_str 1 = ''1''"
  using digit_char_1 by (simp add: radix_str.simps [of 10 "Suc 0"])

lemma digit_char_of_digits: "\<forall>c\<in>set ''0123456789''. digit_char (char_digit c) = c \<and> char_digit c < 10"
  by code_simp

lemma digit_char_of_digit: "is_digit c \<Longrightarrow> digit_char (char_digit c) = c \<and> char_digit c < 10"
  using digit_char_of_digits unfolding is_digit_def by blast

lemma char_digit_pos: "is_digit c \<Longrightarrow> c \<noteq> CHR ''0'' \<Longrightarrow> 0 < char_digit c"
  using digit_char_of_digit [of c] digit_char_0 by (metis gr0I)

lemma dec_str_val_aux:
  "s \<noteq> [] \<Longrightarrow> \<forall>c\<in>set s. is_digit c \<Longrightarrow> hd s \<noteq> CHR ''0'' \<Longrightarrow> 0 < dec_val s \<and> dec_str (dec_val s) = s"
proof (induction s rule: rev_induct)
  case (snoc c s)
  have c: "digit_char (char_digit c) = c" "char_digit c < 10"
    using snoc.prems digit_char_of_digit [of c] by auto
  show ?case
  proof (cases "s = []")
    case True
    with snoc.prems c char_digit_pos [of c] show ?thesis
      by (simp add: radix_val_def radix_str.simps [of 10 "char_digit c"])
  next
    case False
    with snoc have s: "0 < dec_val s" "dec_str (dec_val s) = s" by auto
    from c have d: "(dec_val s * 10 + char_digit c) div 10 = dec_val s"
      "(dec_val s * 10 + char_digit c) mod 10 = char_digit c" by auto
    from s c d show ?thesis
      by (simp add: radix_val_snoc radix_str.simps [of 10 "dec_val s * 10 + char_digit c"])
  qed
qed simp

lemma dec_str_val [simp]: "is_count s \<Longrightarrow> dec_str (dec_val s) = s"
  using dec_str_val_aux [of s] dec_str_zero
  by (cases "s = ''0''") (auto simp: is_count_def radix_val_def char_digit_def)

lemma dec_val_inject: "is_count s \<Longrightarrow> is_count t \<Longrightarrow> dec_val s = dec_val t \<longleftrightarrow> s = t"
  by (metis dec_str_val)

end
