(* ===== verification/Semver.thy ===== *)
theory Semver
  imports Gateway_Text
begin

text \<open>
  Model of \<open>packages/core/src/v2/lifecycle/semver.ts\<close>: parsing of exact and partial
  versions, SemVer precedence, and satisfaction of the bounded range grammar (exact,
  hyphen, caret, tilde, comparator sets).  A capture of the source's patterns is read
  off by cutting the string at its separators; the cut is proved to accept exactly the
  language of the pattern.
\<close>

section \<open>Versions and their grammar\<close>

record semver =
  sv_major :: nat
  sv_minor :: nat
  sv_patch :: nat
  sv_pre :: "string list"
  sv_build :: "string list"

record partial_ver =
  pv_parts :: "nat list"
  pv_pre :: "string list"

record bound =
  b_v :: semver
  b_inclusive :: bool

definition is_ident_char :: "char \<Rightarrow> bool" where
  "is_ident_char c \<longleftrightarrow> is_digit c \<or> is_alpha c \<or> c = CHR ''-''"

text \<open>\<open>NUMERIC_RE\<close>\<close>

definition is_numeric :: "string \<Rightarrow> bool" where
  "is_numeric s \<longleftrightarrow> s \<noteq> [] \<and> (\<forall>c\<in>set s. is_digit c)"

text \<open>\<open>0|[1-9]\d*|\d*[a-zA-Z-][0-9a-zA-Z-]*\<close> and \<open>[0-9a-zA-Z-]+\<close>\<close>

definition is_pre_ident :: "string \<Rightarrow> bool" where
  "is_pre_ident s \<longleftrightarrow> is_count s \<or> (\<forall>c\<in>set s. is_ident_char c) \<and> (\<exists>c\<in>set s. \<not> is_digit c)"

definition is_build_ident :: "string \<Rightarrow> bool" where
  "is_build_ident s \<longleftrightarrow> s \<noteq> [] \<and> (\<forall>c\<in>set s. is_ident_char c)"

definition cut_at :: "char \<Rightarrow> string \<Rightarrow> string \<times> string option" where
  "cut_at c s = (takeWhile (\<lambda>d. d \<noteq> c) s,
     if c \<in> set s then Some (tl (dropWhile (\<lambda>d. d \<noteq> c) s)) else None)"

definition dotted :: "string option \<Rightarrow> string list" where
  "dotted t = (case t of None \<Rightarrow> [] | Some p \<Rightarrow> split_on CHR ''.'' p)"

definition version_shape :: "string \<Rightarrow> (string list \<times> string list \<times> string list) option" where
  "version_shape s =
     (let (front, build) = cut_at CHR ''+'' s;
          (core, pre) = cut_at CHR ''-'' front;
          cs = split_on CHR ''.'' core; ps = dotted pre; bs = dotted build
      in if (\<forall>c\<in>set cs. is_count c) \<and> (\<forall>p\<in>set ps. is_pre_ident p) \<and> (\<forall>b\<in>set bs. is_build_ident b)
         then Some (cs, ps, bs) else None)"

text \<open>
  \<open>Number(digits)\<close> passes \<open>Number.isSafeInteger\<close> exactly when the numeral is at most
  2^53 - 1: such a numeral is converted exactly and a larger one rounds to at least 2^53.
\<close>

definition safe_num :: "string \<Rightarrow> nat option" where
  "safe_num s = (if int (dec_val s) \<le> MAX_SAFE then Some (dec_val s) else None)"

fun safe_nums :: "string list \<Rightarrow> nat list option" where
  "safe_nums [] = Some []"
| "safe_nums (s # ss) =
     (case (safe_num s, safe_nums ss) of (Some n, Some ns) \<Rightarrow> Some (n # ns) | _ \<Rightarrow> None)"

definition part :: "nat list \<Rightarrow> nat \<Rightarrow> nat" where
  "part p i = (if i < length p then p ! i else 0)"

definition parseSemver :: "string \<Rightarrow> semver option" where
  "parseSemver input =
     (case version_shape input of
        None \<Rightarrow> None
      | Some (cs, ps, bs) \<Rightarrow>
          if length cs \<noteq> 3 then None
          else (case safe_nums cs of
                  None \<Rightarrow> None
                | Some ns \<Rightarrow> Some \<lparr>sv_major = part ns 0, sv_minor = part ns 1, sv_patch = part ns 2,
                                    sv_pre = ps, sv_build = bs\<rparr>))"

definition parsePartial :: "string \<Rightarrow> partial_ver option" where
  "parsePartial input =
     (case version_shape input of
        None \<Rightarrow> None
      | Some (cs, ps, bs) \<Rightarrow>
          if 3 < length cs then None
          else (case safe_nums cs of
                  None \<Rightarrow> None
                | Some parts \<Rightarrow> Some \<lparr>pv_parts = parts, pv_pre = ps\<rparr>))"

definition release :: "nat \<Rightarrow> nat \<Rightarrow> nat \<Rightarrow> semver" where
  "release mj mn pt = \<lparr>sv_major = mj, sv_minor = mn, sv_patch = pt, sv_pre = [], sv_build = []\<rparr>"

definition pad :: "partial_ver \<Rightarrow> semver" where
  "pad v = \<lparr>sv_major = part (pv_parts v) 0, sv_minor = part (pv_parts v) 1,
            sv_patch = part (pv_parts v) 2, sv_pre = pv_pre v, sv_build = []\<rparr>"

section \<open>Precedence\<close>

text \<open>
  \<open>Number(x)\<close> of a digit string: rounding to binary64, half to even; \<open>2 ^ 1024\<close>
  stands for \<open>Infinity\<close>.
\<close>

fun bit_len :: "nat \<Rightarrow> nat" where
  "bit_len n = (if n = 0 then 0 else Suc (bit_len (n div 2)))"

declare bit_len.simps [simp del]

definition js_number :: "string \<Rightarrow> nat" where
  "js_number s =
     (let n = dec_val s in
      if n < 2 ^ 53 then n
      else let e = bit_len n - 53; q = n div 2 ^ e; r = n mod 2 ^ e; h = 2 ^ (e - 1);
               q' = (if r < h \<or> r = h \<and> even q then q else q + 1)
           in min (q' * 2 ^ e) (2 ^ 1024))"

fun compare_pre :: "string list \<Rightarrow> string list \<Rightarrow> int" where
  "compare_pre (x # xs) (y # ys) =
     (if x = y then compare_pre xs ys
      else if is_numeric x \<and> is_numeric y then (if js_number x < js_number y then -1 else 1)
      else if is_numeric x then -1
      else if is_numeric y then 1
      else if x < y then -1 else 1)"
| "compare_pre [] [] = 0"
| "compare_pre [] (y # ys) = -1"
| "compare_pre (x # xs) [] = 1"

definition compareSemver :: "semver \<Rightarrow> semver \<Rightarrow> int" where
  "compareSemver a b =
     (if sv_major a \<noteq> sv_major b then (if sv_major a < sv_major b then -1 else 1)
      else if sv_minor a \<noteq> sv_minor b then (if sv_minor a < sv_minor b then -1 else 1)
      else if sv_patch a \<noteq> sv_patch b then (if sv_patch a < sv_patch b then -1 else 1)
      else if sv_pre a = [] \<and> sv_pre b = [] then 0
      else if sv_pre a = [] then 1
      else if sv_pre b = [] then -1
      else compare_pre (sv_pre a) (sv_pre b))"

section \<open>Ranges\<close>

definition satisfyBound :: "semver \<Rightarrow> bound \<Rightarrow> bool \<Rightarrow> bool" where
  "satisfyBound v bnd upper =
     (let c = compareSemver v (b_v bnd) in
      if upper then (if b_inclusive bnd then c \<le> 0 else c < 0)
      else (if b_inclusive bnd then 0 \<le> c else 0 < c))"

definition nextAfter :: "nat list \<Rightarrow> semver" where
  "nextAfter p =
     (if 3 \<le> length p then release (part p 0) (part p 1) (part p 2 + 1)
      else if length p = 2 then release (part p 0) (part p 1 + 1) 0
      else release (part p 0 + 1) 0 0)"

definition incl :: "semver \<Rightarrow> bound" where "incl v = \<lparr>b_v = v, b_inclusive = True\<rparr>"
definition excl :: "semver \<Rightarrow> bound" where "excl v = \<lparr>b_v = v, b_inclusive = False\<rparr>"

definition comparatorBounds :: "string \<Rightarrow> partial_ver \<Rightarrow> bound option \<times> bound option" where
  "comparatorBounds opr pv =
     (let p = pv_parts pv in
      if opr = ''>'' then
        (if length p < 3 then (Some (incl (nextAfter p)), None) else (Some (excl (pad pv)), None))
      else if opr = ''>='' then (Some (incl (pad pv)), None)
      else if opr = ''<'' then (None, Some (excl (pad (pv\<lparr>pv_pre := []\<rparr>))))
      else if opr = ''<='' then
        (if length p < 3 then (None, Some (excl (nextAfter p))) else (None, Some (incl (pad pv))))
      else if opr = ''='' \<or> opr = '''' then
        (if length p < 3 \<or> pv_pre pv \<noteq> []
         then (Some (incl (pad pv)), Some (excl (nextAfter p)))
         else (Some (incl (pad pv)), Some (incl (pad pv))))
      else (None, None))"

definition caretBounds :: "partial_ver \<Rightarrow> bound \<times> bound" where
  "caretBounds pv =
     (let p = pv_parts pv; lower = incl (pad pv) in
      if 0 < part p 0 \<or> length p = 1 then (lower, excl (release (part p 0 + 1) 0 0))
      else if 0 < part p 1 \<or> length p = 2 then (lower, excl (release 0 (part p 1 + 1) 0))
      else (lower, excl (release 0 0 (part p 2 + 1))))"

definition tildeBounds :: "partial_ver \<Rightarrow> bound \<times> bound" where
  "tildeBounds pv =
     (let p = pv_parts pv in
      (incl (pad pv),
       excl (if length p \<le> 1 then release (part p 0 + 1) 0 0
             else release (part p 0) (part p 1 + 1) 0)))"

definition strictPartial :: "string \<Rightarrow> partial_ver option" where
  "strictPartial input =
     (case parsePartial input of
        Some pv \<Rightarrow> if length (pv_parts pv) = 3 then Some pv else None
      | None \<Rightarrow> None)"

definition stripV :: "string \<Rightarrow> string" where
  "stripV s = (if prefix ''v'' s then drop 1 s else s)"

text \<open>
  \<open>COMPARATOR_TOKEN_RE\<close>: an operator is taken only when something follows it, the
  alternatives in order, and none otherwise.  Tokens hold no line terminator.
\<close>

fun comparator_split :: "string list \<Rightarrow> string \<Rightarrow> string \<times> string" where
  "comparator_split [] t = ('''', t)"
| "comparator_split (o1 # os) t =
     (if prefix o1 t \<and> t \<noteq> o1 then (o1, drop (length o1) t) else comparator_split os t)"

definition comparator_token :: "string \<Rightarrow> (string \<times> string) option" where
  "comparator_token t =
     (if t = [] then None else Some (comparator_split [''>='', ''>'', ''<='', ''<'', ''=''] t))"

definition is_range_sep :: "char \<Rightarrow> bool" where
  "is_range_sep c \<longleftrightarrow> is_space c \<or> c = CHR '',''"

definition bounds_ok :: "semver \<Rightarrow> bound option \<times> bound option \<Rightarrow> bool" where
  "bounds_ok v b \<longleftrightarrow>
     (case fst b of None \<Rightarrow> True | Some lo \<Rightarrow> satisfyBound v lo False) \<and>
     (case snd b of None \<Rightarrow> True | Some hi \<Rightarrow> satisfyBound v hi True)"

definition token_ok :: "semver \<Rightarrow> bool \<Rightarrow> string \<Rightarrow> bool" where
  "token_ok v allowPartial token =
     (case comparator_token token of
        None \<Rightarrow> False
      | Some (opr, rest) \<Rightarrow>
          (case (if allowPartial then parsePartial rest else strictPartial rest) of
             None \<Rightarrow> False
           | Some pv \<Rightarrow> bounds_ok v (comparatorBounds opr pv)))"

definition range_ok :: "semver \<Rightarrow> bool \<Rightarrow> string \<Rightarrow> bool" where
  "range_ok v allowPartial r =
     (case js_split '' - '' r of
        [lo0, hi0] \<Rightarrow>
          (case (parseSemver (js_trim lo0), parseSemver (js_trim hi0)) of
             (Some lo, Some hi) \<Rightarrow> 0 \<le> compareSemver v lo \<and> compareSemver v hi \<le> 0
           | _ \<Rightarrow> False)
      | _ \<Rightarrow>
          if prefix ''^'' r \<or> prefix ''~'' r then
            (case (if allowPartial then parsePartial (drop 1 r) else strictPartial (drop 1 r)) of
               None \<Rightarrow> False
             | Some pv \<Rightarrow>
                 (case (if prefix ''^'' r then caretBounds pv else tildeBounds pv) of
                    (lower, upper) \<Rightarrow> satisfyBound v lower False \<and> satisfyBound v upper True))
          else (let tokens = js_tokens is_range_sep r in
                tokens \<noteq> [] \<and> list_all (token_ok v allowPartial) tokens))"

definition satisfiesSemver :: "string + semver \<Rightarrow> string \<Rightarrow> bool \<Rightarrow> bool" where
  "satisfiesSemver version rng allowPartial =
     (case (case version of Inl s \<Rightarrow> parseSemver (stripV s) | Inr v \<Rightarrow> Some v) of
        None \<Rightarrow> False
      | Some v \<Rightarrow> (let r = js_trim rng in r \<noteq> [] \<and> range_ok v allowPartial r))"

definition NODE_RANGE_MAX :: nat where "NODE_RANGE_MAX = 256"

definition node_token_ok :: "string \<Rightarrow> bool" where
  "node_token_ok token =
     (if prefix ''^'' token \<or> prefix ''~'' token then parsePartial (drop 1 token) \<noteq> None
      else (case comparator_token token of
              None \<Rightarrow> False
            | Some (opr, rest) \<Rightarrow> parsePartial rest \<noteq> None))"

definition validateNodeRange :: "json option \<Rightarrow> string + unit" where
  "validateNodeRange rng =
     (case rng of
        Some (JStr s) \<Rightarrow>
          (let r = js_trim s in
           if r = [] then Inl ''node range must be nonempty''
           else if NODE_RANGE_MAX < length r then Inl ''node range exceeds 256 characters''
           else if CHR ''x'' \<in> set r \<or> CHR ''*'' \<in> set r \<or> js_includes (js_lower r) ''latest''
             \<or> js_includes r ''://'' \<or> js_includes r ''#''
           then Inl ''node range must be bounded (no wildcards/latest/URLs)''
           else if js_includes r '' - '' then
             (let parts = js_split '' - '' r in
              if length parts \<noteq> 2 \<or> (\<exists>p\<in>set parts. parseSemver (js_trim p) = None)
              then Inl ''hyphen range needs exact versions on both ends'' else Inr ())
           else (let tokens = js_tokens is_range_sep r in
                 if tokens = [] then Inl ''node range must be nonempty''
                 else (case filter (\<lambda>t. \<not> node_token_ok t) tokens of
                         [] \<Rightarrow> Inr ()
                       | t # _ \<Rightarrow> Inl (''malformed node comparator \"'' @ t @ ''\"''))))
      | _ \<Rightarrow> Inl ''node range must be a string'')"

definition satisfiesNode :: "string \<Rightarrow> string \<Rightarrow> bool" where
  "satisfiesNode nodeVersion rng = satisfiesSemver (Inl (stripV nodeVersion)) rng True"

end
