(* ===== verification/Semver_Grammar.thy ===== *)
theory Semver_Grammar
  imports Semver
begin

text \<open>
  The version patterns of \<open>semver.ts\<close> as regular expressions, and the proof that cutting
  at the separators accepts exactly their language, so \<open>parseSemver\<close> and
  \<open>parsePartial\<close> read the captures the pattern would give.
\<close>

definition RX_PRE_IDENT :: rx where
  "RX_PRE_IDENT = RAlt RX_COUNT
     (RSeq (RStar (RCls is_digit))
       (RSeq (RCls (\<lambda>c. is_alpha c \<or> c = CHR ''-'')) (RStar (RCls is_ident_char))))"

definition RX_BUILD_IDENT :: rx where
  "RX_BUILD_IDENT = RPlus (RCls is_ident_char)"

definition rx_dotted :: "rx \<Rightarrow> rx" where
  "rx_dotted r = RSeq r (RStar (RSeq (RChr CHR ''.'') r))"

definition rx_tail :: "char \<Rightarrow> rx \<Rightarrow> rx" where
  "rx_tail c r = ROpt (RSeq (RChr c) r)"

definition rx_version :: "rx \<Rightarrow> rx" where
  "rx_version core =
     RSeq (RSeq core (rx_tail CHR ''-'' (rx_dotted RX_PRE_IDENT)))
       (rx_tail CHR ''+'' (rx_dotted RX_BUILD_IDENT))"

definition FULL_VERSION_RE :: rx where
  "FULL_VERSION_RE = rx_version
     (RSeq (RSeq RX_COUNT (RSeq (RChr CHR ''.'') RX_COUNT)) (RSeq (RChr CHR ''.'') RX_COUNT))"

definition PARTIAL_RE :: rx where
  "PARTIAL_RE = rx_version
     (RSeq (RSeq RX_COUNT (rx_tail CHR ''.'' RX_COUNT)) (rx_tail CHR ''.'' RX_COUNT))"

lemma count_lang: "s \<in> rx_lang RX_COUNT \<longleftrightarrow> is_count s"
  by (simp only: rx_test_correct [symmetric] rx_count)

lemma is_count_chars: "is_count s \<Longrightarrow> c \<in> set s \<Longrightarrow> is_digit c"
  by (simp add: is_count_def)

lemma digit_ident: "is_digit c \<Longrightarrow> is_ident_char c"
  by (simp add: is_ident_char_def)

lemma not_ident_chars [simp]:
  "\<not> is_digit CHR ''.''" "\<not> is_digit CHR ''-''" "\<not> is_digit CHR ''+''"
  "\<not> is_ident_char CHR ''.''" "\<not> is_ident_char CHR ''+''"
  by (simp_all add: is_ident_char_def is_digit_def is_alpha_def)

lemma pre_ident_lang: "s \<in> rx_lang RX_PRE_IDENT \<longleftrightarrow> is_pre_ident s"
proof -
  have "s \<in> rx_lang (RSeq (RStar (RCls is_digit))
          (RSeq (RCls (\<lambda>c. is_alpha c \<or> c = CHR ''-'')) (RStar (RCls is_ident_char))))
      \<longleftrightarrow> (\<forall>c\<in>set s. is_ident_char c) \<and> (\<exists>c\<in>set s. \<not> is_digit c)" (is "?L \<longleftrightarrow> ?R")
  proof
    have dig: "\<not> is_digit c" if "is_alpha c \<or> c = CHR ''-''" for c
      using that by (auto simp: is_alpha_def is_digit_def)
    assume ?L
    then obtain x y where s: "s = x @ y" and x: "\<forall>c\<in>set x. is_digit c" and y: "y \<noteq> []"
        "is_alpha (hd y) \<or> hd y = CHR ''-''" "\<forall>c\<in>set (tl y). is_ident_char c"
      unfolding rx_lang.simps(4) [of "RStar _"] mem_Collect_eq rx_lang_seq_cls rx_lang_star_cls
      by blast
    then show ?R using dig [of "hd y"]
      by (cases y) (auto simp: digit_ident is_ident_char_def)
  next
    assume r: ?R
    let ?y = "dropWhile is_digit s"
    have "?y \<noteq> []" using r by auto
    moreover have "\<not> is_digit (hd ?y)" using calculation by (rule hd_dropWhile)
    moreover have "\<forall>c\<in>set ?y. is_ident_char c" using r set_dropWhileD by fast
    ultimately have "?y \<in> rx_lang (RSeq (RCls (\<lambda>c. is_alpha c \<or> c = CHR ''-'')) (RStar (RCls is_ident_char)))"
      unfolding rx_lang_seq_cls rx_lang_star_cls
      by (cases ?y) (auto simp: is_ident_char_def)
    moreover have "takeWhile is_digit s \<in> rx_lang (RStar (RCls is_digit))"
      unfolding rx_lang_star_cls using set_takeWhileD by fast
    moreover have "s = takeWhile is_digit s @ ?y" by simp
    ultimately show ?L unfolding rx_lang.simps(4) [of "RStar _"] by blast
  qed
  then show ?thesis
    unfolding RX_PRE_IDENT_def rx_lang.simps(5) Un_iff count_lang is_pre_ident_def by blast
qed

lemma build_ident_lang: "s \<in> rx_lang RX_BUILD_IDENT \<longleftrightarrow> is_build_ident s"
  unfolding RX_BUILD_IDENT_def rx_lang_plus_cls is_build_ident_def by simp

lemma pre_ident_chars: "is_pre_ident s \<Longrightarrow> c \<in> set s \<Longrightarrow> is_ident_char c"
  by (auto simp: is_pre_ident_def is_count_chars digit_ident)

lemma build_ident_chars: "is_build_ident s \<Longrightarrow> c \<in> set s \<Longrightarrow> is_ident_char c"
  by (simp add: is_build_ident_def)

section \<open>Separators\<close>

lemma star_dotted_split:
  "y \<in> star_lang {CHR ''.'' # w | w. w \<in> L} \<Longrightarrow> \<forall>w\<in>L. CHR ''.'' \<notin> set w \<Longrightarrow>
   x \<in> L \<Longrightarrow> \<forall>p\<in>set (split_on CHR ''.'' (x @ y)). p \<in> L"
proof (induction y arbitrary: x rule: star_lang.induct)
  case star_empty
  then show ?case by (simp add: split_on_no_sep)
next
  case (star_app v y)
  from star_app.hyps(1) obtain w where w: "v = CHR ''.'' # w" "w \<in> L" by blast
  have "\<forall>p\<in>set (split_on CHR ''.'' (w @ y)). p \<in> L"
    using star_app.prems(1) w(2) by (rule star_app.IH)
  with star_app.prems w(1) show ?case by (simp add: split_on_append)
qed

lemma join_dotted_lang:
  "xs \<noteq> [] \<Longrightarrow> \<forall>p\<in>set xs. p \<in> L \<Longrightarrow>
   \<exists>x y. join_with ''.'' xs = x @ y \<and> x \<in> L \<and> y \<in> star_lang {CHR ''.'' # w | w. w \<in> L}"
proof (induction "''.''" xs rule: join_with.induct)
  case (2 x)
  then show ?case by (auto intro: star_empty)
next
  case (3 x y ys)
  then obtain u v where uv: "join_with ''.'' (y # ys) = u @ v" "u \<in> L"
      "v \<in> star_lang {CHR ''.'' # w | w. w \<in> L}"
    by auto
  then have "(CHR ''.'' # u) @ v \<in> star_lang {CHR ''.'' # w | w. w \<in> L}"
    by (intro star_lang.star_app) auto
  moreover have "join_with ''.'' (x # y # ys) = x @ (CHR ''.'' # u) @ v" using uv by simp
  moreover have "x \<in> L" using 3 by simp
  ultimately show ?case by blast
qed simp

lemma dotted_lang:
  assumes "\<forall>w\<in>rx_lang r. CHR ''.'' \<notin> set w"
  shows "s \<in> rx_lang (rx_dotted r) \<longleftrightarrow> (\<forall>p\<in>set (split_on CHR ''.'' s). p \<in> rx_lang r)"
proof -
  have "rx_lang (RSeq (RChr CHR ''.'') r) = {CHR ''.'' # w | w. w \<in> rx_lang r}" by auto
  then have "s \<in> rx_lang (rx_dotted r) \<longleftrightarrow>
      (\<exists>x y. s = x @ y \<and> x \<in> rx_lang r \<and> y \<in> star_lang {CHR ''.'' # w | w. w \<in> rx_lang r})"
    unfolding rx_dotted_def by simp
  then show ?thesis
    using star_dotted_split [OF _ assms] join_dotted_lang [of "split_on CHR ''.'' s" "rx_lang r"]
    by (auto simp: join_split_on)
qed

lemma cut_at_none: "c \<notin> set s \<Longrightarrow> cut_at c s = (s, None)"
  by (auto simp: cut_at_def takeWhile_eq_all_conv)

lemma cut_at_app: "c \<notin> set a \<Longrightarrow> cut_at c (a @ c # t) = (a, Some t)"
  by (auto simp: cut_at_def takeWhile_append dropWhile_append)

lemma cut_at_cases:
  obtains (none) "c \<notin> set s" "cut_at c s = (s, None)"
  | (some) a t where "s = a @ c # t" "c \<notin> set a" "cut_at c s = (a, Some t)"
proof (cases "c \<in> set s")
  case True
  then obtain a t where at: "s = a @ c # t" "c \<notin> set a" using split_list_first by fast
  then have "cut_at c s = (a, Some t)" by (simp add: cut_at_app)
  with at show ?thesis by (rule that(2))
qed (simp add: cut_at_none that(1))

lemma tail_lang:
  assumes "\<forall>w\<in>rx_lang r. c \<notin> set w"
  shows "s \<in> rx_lang (RSeq r (rx_tail c t)) \<longleftrightarrow>
    (case cut_at c s of (a, b) \<Rightarrow> a \<in> rx_lang r \<and> (case b of None \<Rightarrow> True | Some u \<Rightarrow> u \<in> rx_lang t))"
proof -
  have *: "s \<in> rx_lang (RSeq r (rx_tail c t)) \<longleftrightarrow>
      s \<in> rx_lang r \<or> (\<exists>x u. s = x @ c # u \<and> x \<in> rx_lang r \<and> u \<in> rx_lang t)"
    unfolding rx_tail_def by auto
  show ?thesis
  proof (cases rule: cut_at_cases [of c s])
    case none
    then show ?thesis unfolding * by auto
  next
    case (some a u)
    have "x = a \<and> v = u" if "s = x @ c # v" "x \<in> rx_lang r" for x v
      using that some(3) assms cut_at_app [of c x v] by simp
    moreover have "s \<notin> rx_lang r" using some(1) assms by auto
    ultimately show ?thesis unfolding * some(3) using some(1) by auto
  qed
qed

lemma dotted_ident_lang:
  "s \<in> rx_lang (rx_dotted RX_PRE_IDENT) \<longleftrightarrow> (\<forall>p\<in>set (split_on CHR ''.'' s). is_pre_ident p)"
  "s \<in> rx_lang (rx_dotted RX_BUILD_IDENT) \<longleftrightarrow> (\<forall>p\<in>set (split_on CHR ''.'' s). is_build_ident p)"
  by (subst dotted_lang; use pre_ident_chars build_ident_chars in
      \<open>fastforce simp: pre_ident_lang build_ident_lang\<close>)+

lemma pre_ident_no_plus: "is_pre_ident p \<Longrightarrow> CHR ''+'' \<notin> set p"
  using pre_ident_chars by force

lemma split_on_mem: "c \<in> set s \<Longrightarrow> c \<noteq> d \<Longrightarrow> \<exists>p\<in>set (split_on d s). c \<in> set p"
proof (induction s)
  case (Cons x xs)
  obtain y ys where "split_on d xs = y # ys" by (cases "split_on d xs") auto
  with Cons show ?case by auto
qed simp

lemma version_lang:
  assumes core: "\<And>s. s \<in> rx_lang core \<Longrightarrow> \<forall>p\<in>set (split_on CHR ''.'' s). is_count p"
  shows "s \<in> rx_lang (rx_version core) \<longleftrightarrow>
    (\<exists>cs ps bs. version_shape s = Some (cs, ps, bs) \<and> join_with ''.'' cs \<in> rx_lang core)"
proof -
  have digits: "is_digit c \<or> c = CHR ''.''" if "w \<in> rx_lang core" "c \<in> set w" for c w
    using split_on_mem [OF that(2), of "CHR ''.''"] core [OF that(1)] is_count_chars by blast
  have nodash: "\<forall>w\<in>rx_lang core. CHR ''-'' \<notin> set w" using digits by force
  have "CHR ''+'' \<notin> set w" if w: "w \<in> rx_lang (RSeq core (rx_tail CHR ''-'' (rx_dotted RX_PRE_IDENT)))" for w
  proof (cases rule: cut_at_cases [of "CHR ''-''" w])
    case none
    with w nodash have "w \<in> rx_lang core" by (simp add: tail_lang del: rx_lang.simps)
    with digits show ?thesis by force
  next
    case (some a t)
    with w nodash have "a \<in> rx_lang core" "\<forall>p\<in>set (split_on CHR ''.'' t). is_pre_ident p"
      by (simp_all add: tail_lang dotted_ident_lang del: rx_lang.simps)
    with digits some split_on_mem [of "CHR ''+''" t "CHR ''.''"] pre_ident_no_plus show ?thesis
      by force
  qed
  then show ?thesis
    unfolding rx_version_def using core
    by (subst tail_lang; (subst tail_lang)?)
      (auto simp: nodash version_shape_def dotted_def dotted_ident_lang join_split_on Let_def
        split: prod.splits option.splits if_splits simp del: rx_lang.simps)
qed

section \<open>The patterns and the parsers\<close>

lemma count_no_dot: "is_count p \<Longrightarrow> CHR ''.'' \<notin> set p"
  using is_count_chars by force

lemma version_shape_counts: "version_shape s = Some (cs, ps, bs) \<Longrightarrow> \<forall>c\<in>set cs. is_count c"
  by (auto simp: version_shape_def Let_def split: prod.splits if_splits)

lemma split_join_counts:
  "cs \<noteq> [] \<Longrightarrow> \<forall>c\<in>set cs. is_count c \<Longrightarrow> split_on CHR ''.'' (join_with ''.'' cs) = cs"
  by (rule split_on_join) (auto dest: count_no_dot)

lemma version_shape_nonempty: "version_shape s = Some (cs, ps, bs) \<Longrightarrow> cs \<noteq> []"
  by (auto simp: version_shape_def Let_def split: prod.splits if_splits)

lemma seq_dot_lang:
  "s \<in> rx_lang (RSeq r (RSeq (RChr c) t)) \<longleftrightarrow>
    (\<exists>x y. s = x @ c # y \<and> x \<in> rx_lang r \<and> y \<in> rx_lang t)"
  by auto

lemma seq_tail_lang:
  "s \<in> rx_lang (RSeq r (rx_tail c t)) \<longleftrightarrow>
    s \<in> rx_lang r \<or> (\<exists>x y. s = x @ c # y \<and> x \<in> rx_lang r \<and> y \<in> rx_lang t)"
  unfolding rx_tail_def by auto

lemma joined_counts:
  "(\<exists>cs. s = join_with ''.'' cs \<and> length cs = 1 \<and> (\<forall>c\<in>set cs. is_count c)) \<longleftrightarrow> is_count s"
  "(\<exists>cs. s = join_with ''.'' cs \<and> length cs = 2 \<and> (\<forall>c\<in>set cs. is_count c)) \<longleftrightarrow>
    (\<exists>x y. s = x @ CHR ''.'' # y \<and> is_count x \<and> is_count y)"
  "(\<exists>cs. s = join_with ''.'' cs \<and> length cs = 3 \<and> (\<forall>c\<in>set cs. is_count c)) \<longleftrightarrow>
    (\<exists>u z. s = u @ CHR ''.'' # z \<and> (\<exists>x y. u = x @ CHR ''.'' # y \<and> is_count x \<and> is_count y) \<and> is_count z)"
proof -
  show "(\<exists>cs. s = join_with ''.'' cs \<and> length cs = 1 \<and> (\<forall>c\<in>set cs. is_count c)) \<longleftrightarrow> is_count s"
    by (auto simp: length_Suc_conv intro!: exI [of _ "[s]"])
  have "(\<exists>cs. s = join_with ''.'' cs \<and> length cs = 2 \<and> (\<forall>c\<in>set cs. is_count c)) \<longleftrightarrow>
      (\<exists>x y. s = join_with ''.'' [x, y] \<and> (\<forall>c\<in>set [x, y]. is_count c))"
    unfolding numeral_2_eq_2 length_Suc_conv length_0_conv by blast
  then show "(\<exists>cs. s = join_with ''.'' cs \<and> length cs = 2 \<and> (\<forall>c\<in>set cs. is_count c)) \<longleftrightarrow>
    (\<exists>x y. s = x @ CHR ''.'' # y \<and> is_count x \<and> is_count y)" by simp
  have "(\<exists>cs. s = join_with ''.'' cs \<and> length cs = 3 \<and> (\<forall>c\<in>set cs. is_count c)) \<longleftrightarrow>
      (\<exists>x y z. s = join_with ''.'' [x, y, z] \<and> (\<forall>c\<in>set [x, y, z]. is_count c))"
    unfolding numeral_3_eq_3 length_Suc_conv length_0_conv by blast
  also have "\<dots> \<longleftrightarrow> (\<exists>x y z. s = (x @ CHR ''.'' # y) @ CHR ''.'' # z \<and> is_count x \<and> is_count y \<and> is_count z)"
    by simp
  finally show "(\<exists>cs. s = join_with ''.'' cs \<and> length cs = 3 \<and> (\<forall>c\<in>set cs. is_count c)) \<longleftrightarrow>
    (\<exists>u z. s = u @ CHR ''.'' # z \<and> (\<exists>x y. u = x @ CHR ''.'' # y \<and> is_count x \<and> is_count y) \<and> is_count z)"
    by blast
qed

lemma core3_lang:
  "s \<in> rx_lang (RSeq (RSeq RX_COUNT (RSeq (RChr CHR ''.'') RX_COUNT)) (RSeq (RChr CHR ''.'') RX_COUNT))
   \<longleftrightarrow> (\<exists>cs. s = join_with ''.'' cs \<and> length cs = 3 \<and> (\<forall>c\<in>set cs. is_count c))"
  unfolding seq_dot_lang count_lang joined_counts ..

lemma core13_lang:
  "s \<in> rx_lang (RSeq (RSeq RX_COUNT (rx_tail CHR ''.'' RX_COUNT)) (rx_tail CHR ''.'' RX_COUNT))
   \<longleftrightarrow> (\<exists>cs. s = join_with ''.'' cs \<and> (length cs = 1 \<or> length cs = 2 \<or> length cs = 3)
      \<and> (\<forall>c\<in>set cs. is_count c))"
proof -
  have "(\<exists>cs. s = join_with ''.'' cs \<and> (length cs = 1 \<or> length cs = 2 \<or> length cs = 3)
      \<and> (\<forall>c\<in>set cs. is_count c)) \<longleftrightarrow>
      (\<exists>cs. s = join_with ''.'' cs \<and> length cs = 1 \<and> (\<forall>c\<in>set cs. is_count c)) \<or>
      (\<exists>cs. s = join_with ''.'' cs \<and> length cs = 2 \<and> (\<forall>c\<in>set cs. is_count c)) \<or>
      (\<exists>cs. s = join_with ''.'' cs \<and> length cs = 3 \<and> (\<forall>c\<in>set cs. is_count c))" by blast
  then show ?thesis unfolding seq_tail_lang count_lang joined_counts by blast
qed

lemma version_re_shape:
  assumes core: "\<And>s. s \<in> rx_lang core \<longleftrightarrow>
      (\<exists>cs. s = join_with ''.'' cs \<and> P (length cs) \<and> (\<forall>c\<in>set cs. is_count c))" and "\<not> P 0"
  shows "rx_test (rx_version core) s \<longleftrightarrow> (\<exists>cs ps bs. version_shape s = Some (cs, ps, bs) \<and> P (length cs))"
proof -
  have ne: "cs \<noteq> []" if "P (length cs)" for cs :: "string list" using that \<open>\<not> P 0\<close> by auto
  have "rx_test (rx_version core) s \<longleftrightarrow>
      (\<exists>cs ps bs. version_shape s = Some (cs, ps, bs) \<and> join_with ''.'' cs \<in> rx_lang core)"
    unfolding rx_test_correct by (rule version_lang) (auto simp: core split_join_counts ne)
  also have "\<dots> \<longleftrightarrow> (\<exists>cs ps bs. version_shape s = Some (cs, ps, bs) \<and> P (length cs))"
  proof -
    have "join_with ''.'' cs \<in> rx_lang core \<longleftrightarrow> P (length cs)"
      if v: "version_shape s = Some (cs, ps, bs)" for cs ps bs
    proof -
      have cs: "split_on CHR ''.'' (join_with ''.'' cs) = cs" "\<forall>c\<in>set cs. is_count c"
        using version_shape_counts [OF v] version_shape_nonempty [OF v] by (simp_all add: split_join_counts)
      have "ds = cs" if "join_with ''.'' cs = join_with ''.'' ds" "P (length ds)" "\<forall>c\<in>set ds. is_count c" for ds
        using split_join_counts [OF ne [OF that(2)] that(3)] cs(1) unfolding that(1) by (rule trans [OF sym])
      with cs(2) show ?thesis unfolding core by blast
    qed
    then show ?thesis by auto
  qed
  finally show ?thesis .
qed

lemma full_version_shape:
  "rx_test FULL_VERSION_RE s \<longleftrightarrow> (\<exists>cs ps bs. version_shape s = Some (cs, ps, bs) \<and> length cs = 3)"
  unfolding FULL_VERSION_RE_def by (rule version_re_shape [OF core3_lang]) simp

lemma partial_shape:
  "rx_test PARTIAL_RE s \<longleftrightarrow> (\<exists>cs ps bs. version_shape s = Some (cs, ps, bs) \<and> length cs \<le> 3)"
proof -
  have "length cs \<le> 3 \<longleftrightarrow> length cs = 1 \<or> length cs = 2 \<or> length cs = 3"
    if "version_shape s = Some (cs, ps, bs)" for cs ps bs
  proof -
    from version_shape_nonempty [OF that] have "0 < length cs" by simp
    then show ?thesis by arith
  qed
  then have "version_shape s = Some (cs, ps, bs) \<and> length cs \<le> 3 \<longleftrightarrow> version_shape s = Some (cs, ps, bs)
      \<and> (length cs = 1 \<or> length cs = 2 \<or> length cs = 3)" for cs ps bs by blast
  moreover have "rx_test PARTIAL_RE s \<longleftrightarrow> (\<exists>cs ps bs. version_shape s = Some (cs, ps, bs) \<and>
      (length cs = 1 \<or> length cs = 2 \<or> length cs = 3))"
    unfolding PARTIAL_RE_def by (rule version_re_shape [OF core13_lang]) simp
  ultimately show ?thesis by simp
qed

definition version_core :: "string \<Rightarrow> string list" where
  "version_core s = split_on CHR ''.'' (fst (cut_at CHR ''-'' (fst (cut_at CHR ''+'' s))))"

lemma version_shape_core: "version_shape s = Some (cs, ps, bs) \<Longrightarrow> cs = version_core s"
  by (auto simp: version_shape_def version_core_def Let_def split: prod.splits if_splits)

lemma safe_nums_iff:
  "(\<exists>ns. safe_nums cs = Some ns) \<longleftrightarrow> (\<forall>c\<in>set cs. int (dec_val c) \<le> MAX_SAFE)"
  by (induction cs) (auto simp: safe_num_def split: option.splits)

lemma safe_nums_map: "safe_nums cs = Some ns \<Longrightarrow> ns = map dec_val cs"
  by (induction cs arbitrary: ns) (auto simp: safe_num_def split: option.splits if_splits)

lemma safe_nums_Some:
  "safe_nums cs = Some ns \<longleftrightarrow> ns = map dec_val cs \<and> (\<forall>c\<in>set cs. int (dec_val c) \<le> MAX_SAFE)"
  using safe_nums_iff [of cs] safe_nums_map [of cs] by auto

lemma parseSemver_Some:
  "parseSemver s = Some v \<longleftrightarrow>
    (\<exists>cs. version_shape s = Some (cs, sv_pre v, sv_build v) \<and> length cs = 3 \<and>
      (\<forall>c\<in>set cs. int (dec_val c) \<le> MAX_SAFE) \<and>
      sv_major v = dec_val (cs ! 0) \<and> sv_minor v = dec_val (cs ! 1) \<and> sv_patch v = dec_val (cs ! 2))"
proof (cases "version_shape s")
  case (Some t)
  obtain cs ps bs where t: "t = (cs, ps, bs)" by (cases t)
  show ?thesis
  proof (cases "safe_nums cs")
    case None
    then have "\<not> (\<forall>c\<in>set cs. int (dec_val c) \<le> MAX_SAFE)" using safe_nums_iff [of cs] by auto
    with None show ?thesis unfolding parseSemver_def Some t by auto
  next
    case (Some ns)
    then show ?thesis unfolding parseSemver_def \<open>version_shape s = Some t\<close> t safe_nums_Some
      by (cases v) (auto simp: part_def Some)
  qed
qed (simp add: parseSemver_def)

text \<open>The text of a version, for the round trip.\<close>

definition core_str :: "nat \<Rightarrow> nat \<Rightarrow> nat \<Rightarrow> string" where
  "core_str mj mn pt = join_with ''.'' (map dec_str [mj, mn, pt])"

definition version_str :: "semver \<Rightarrow> string" where
  "version_str v = core_str (sv_major v) (sv_minor v) (sv_patch v)
     @ (if sv_pre v = [] then [] else ''-'' @ join_with ''.'' (sv_pre v))
     @ (if sv_build v = [] then [] else ''+'' @ join_with ''.'' (sv_build v))"

definition valid_version :: "semver \<Rightarrow> bool" where
  "valid_version v \<longleftrightarrow>
     int (sv_major v) \<le> MAX_SAFE \<and> int (sv_minor v) \<le> MAX_SAFE \<and> int (sv_patch v) \<le> MAX_SAFE \<and>
     list_all is_pre_ident (sv_pre v) \<and> list_all is_build_ident (sv_build v)"

lemma set_join_with: "set (join_with [c] xs) \<subseteq> insert c (\<Union> (set ` set xs))"
  by (induction "[c]" xs rule: join_with.induct) auto

lemma core_str_chars: "c \<in> set (core_str mj mn pt) \<Longrightarrow> is_digit c \<or> c = CHR ''.''"
  unfolding core_str_def using set_join_with [of "CHR ''.''" "map dec_str [mj, mn, pt]"] dec_str_digits
  by auto

lemma core_str_split: "split_on CHR ''.'' (core_str mj mn pt) = map dec_str [mj, mn, pt]"
  unfolding core_str_def by (rule split_join_counts) (auto simp: dec_str_count)

lemma version_shape_str:
  assumes "list_all is_pre_ident ps" "list_all is_build_ident bs"
    and core: "\<And>c. c \<in> set core \<Longrightarrow> is_digit c \<or> c = CHR ''.''"
    and cs: "split_on CHR ''.'' core = cs" "\<forall>c\<in>set cs. is_count c"
  shows "version_shape (core @ (if ps = [] then [] else ''-'' @ join_with ''.'' ps)
     @ (if bs = [] then [] else ''+'' @ join_with ''.'' bs)) = Some (cs, ps, bs)"
proof -
  have pre_chars: "is_ident_char c \<or> c = CHR ''.''" if "c \<in> set (join_with ''.'' ps)" for c
    using that set_join_with [of "CHR ''.''" ps] assms(1) pre_ident_chars by (fastforce simp: list_all_iff)
  let ?front = "core @ (if ps = [] then [] else ''-'' @ join_with ''.'' ps)"
  have "CHR ''+'' \<notin> set ?front" using core pre_chars by (force split: if_splits)
  then have 1: "cut_at CHR ''+'' (?front @ (if bs = [] then [] else ''+'' @ join_with ''.'' bs)) =
      (?front, if bs = [] then None else Some (join_with ''.'' bs))"
    by (cases "bs = []") (simp_all add: cut_at_none cut_at_app del: append_assoc)
  have "CHR ''-'' \<notin> set core" using core by force
  then have 2: "cut_at CHR ''-'' ?front = (core, if ps = [] then None else Some (join_with ''.'' ps))"
    by (cases "ps = []") (simp_all add: cut_at_none cut_at_app)
  have dots: "ps \<noteq> [] \<Longrightarrow> split_on CHR ''.'' (join_with ''.'' ps) = ps"
    "bs \<noteq> [] \<Longrightarrow> split_on CHR ''.'' (join_with ''.'' bs) = bs"
    using assms(1,2) pre_ident_chars build_ident_chars
    by (intro split_on_join; force simp: list_all_iff)+
  then have 3: "dotted (if ps = [] then None else Some (join_with ''.'' ps)) = ps"
    "dotted (if bs = [] then None else Some (join_with ''.'' bs)) = bs"
    by (simp_all add: dotted_def)
  show ?thesis
    unfolding version_shape_def append_assoc [symmetric] 1 Let_def prod.case 2 3 cs(1)
    using assms by (simp add: list_all_iff)
qed

end
