(* ===== verification/Semver_Facts.thy ===== *)
theory Semver_Facts
  imports Semver_Grammar
begin

text \<open>
  Precedence is the three-way comparison of a key in a linear order, and the ranges of
  the release versions are intervals of that order.
\<close>

section \<open>Prerelease identifiers as a linear order\<close>

datatype ident = INum nat | IStr string

instantiation ident :: linorder
begin

fun less_eq_ident :: "ident \<Rightarrow> ident \<Rightarrow> bool" where
  "less_eq_ident (INum m) (INum n) = (m \<le> n)"
| "less_eq_ident (INum m) (IStr t) = True"
| "less_eq_ident (IStr s) (INum n) = False"
| "less_eq_ident (IStr s) (IStr t) = (s \<le> t)"

definition less_ident :: "ident \<Rightarrow> ident \<Rightarrow> bool" where
  "less_ident a b \<longleftrightarrow> a \<le> b \<and> \<not> b \<le> a"

instance
proof
  fix x y z :: ident
  show "(x < y) = (x \<le> y \<and> \<not> y \<le> x)" by (rule less_ident_def)
  show "x \<le> x" by (cases x) auto
  show "x \<le> y \<Longrightarrow> y \<le> z \<Longrightarrow> x \<le> z" by (cases x; cases y; cases z) auto
  show "x \<le> y \<Longrightarrow> y \<le> x \<Longrightarrow> x = y" by (cases x; cases y) auto
  show "x \<le> y \<or> y \<le> x" by (cases x; cases y) auto
qed

end

lemma ident_less [simp]:
  "INum m < INum n \<longleftrightarrow> m < n" "INum m < IStr t" "\<not> IStr s < INum n" "IStr s < IStr t \<longleftrightarrow> s < t"
  by (auto simp: less_ident_def)

definition ident_of :: "string \<Rightarrow> ident" where
  "ident_of s = (if is_numeric s then INum (dec_val s) else IStr s)"

text \<open>The identifiers of a parsed version whose numeric ones are exact as doubles.\<close>

definition ok_ident :: "string \<Rightarrow> bool" where
  "ok_ident s \<longleftrightarrow> is_pre_ident s \<and> (is_numeric s \<longrightarrow> dec_val s < 2 ^ 53)"

definition ok_version :: "semver \<Rightarrow> bool" where
  "ok_version v \<longleftrightarrow> (\<forall>p\<in>set (sv_pre v). ok_ident p)"

definition semver_key :: "semver \<Rightarrow> nat \<times> nat \<times> nat \<times> bool \<times> ident list" where
  "semver_key v = (sv_major v, sv_minor v, sv_patch v, sv_pre v = [], map ident_of (sv_pre v))"

lemma numeric_ident_count: "ok_ident s \<Longrightarrow> is_numeric s \<Longrightarrow> is_count s"
  by (auto simp: ok_ident_def is_pre_ident_def is_numeric_def)

lemma ident_of_inject: "ok_ident s \<Longrightarrow> ok_ident t \<Longrightarrow> ident_of s = ident_of t \<longleftrightarrow> s = t"
  by (auto simp: ident_of_def dec_val_inject numeric_ident_count split: if_splits)

lemma js_number_exact: "dec_val s < 2 ^ 53 \<Longrightarrow> js_number s = dec_val s"
  by (simp add: js_number_def)

lemma compare_pre_key:
  "\<forall>p\<in>set xs. ok_ident p \<Longrightarrow> \<forall>p\<in>set ys. ok_ident p \<Longrightarrow>
   compare_pre xs ys = cmp3 (map ident_of xs) (map ident_of ys)"
proof (induction xs ys rule: compare_pre.induct)
  case (1 x xs y ys)
  show ?case
  proof (cases "x = y")
    case True
    with 1 show ?thesis by (simp add: cmp3_def)
  next
    case False
    then have "ident_of x \<noteq> ident_of y" using 1 by (simp add: ident_of_inject)
    moreover have "is_numeric z \<longrightarrow> js_number z = dec_val z" if "ok_ident z" for z
      using that by (simp add: js_number_exact ok_ident_def)
    ultimately show ?thesis using 1(2,3) False
      by (auto simp: cmp3_def ident_of_def)
  qed
qed (auto simp: cmp3_def)

lemma compareSemver_key:
  "ok_version a \<Longrightarrow> ok_version b \<Longrightarrow> compareSemver a b = cmp3 (semver_key a) (semver_key b)"
  using compare_pre_key [of "sv_pre a" "sv_pre b"]
  by (auto simp: compareSemver_def semver_key_def ok_version_def cmp3_def)

interpretation semver_order: three_way compareSemver ok_version semver_key
  by unfold_locales (rule compareSemver_key)

section \<open>Parsing\<close>

lemma version_shape_version_str:
  assumes "valid_version v"
  shows "version_shape (version_str v) =
    Some (map dec_str [sv_major v, sv_minor v, sv_patch v], sv_pre v, sv_build v)"
  unfolding version_str_def
  by (rule version_shape_str [OF _ _ core_str_chars core_str_split])
    (use assms in \<open>auto simp: valid_version_def dec_str_count\<close>)

lemma parse_version_str: "valid_version v \<Longrightarrow> parseSemver (version_str v) = Some v"
  unfolding parseSemver_Some
  by (rule exI [of _ "map dec_str [sv_major v, sv_minor v, sv_patch v]"])
    (auto simp: version_shape_version_str valid_version_def)

lemma parse_core_str:
  assumes "int mj \<le> MAX_SAFE" "int mn \<le> MAX_SAFE" "int pt \<le> MAX_SAFE"
  shows "parsePartial (core_str mj mn pt) = Some \<lparr>pv_parts = [mj, mn, pt], pv_pre = []\<rparr>"
proof -
  have "version_shape (core_str mj mn pt) = Some (map dec_str [mj, mn, pt], [], [])"
    using version_shape_str [of "[]" "[]" "core_str mj mn pt", OF _ _ core_str_chars core_str_split]
    by (simp add: dec_str_count)
  moreover have "safe_nums (map dec_str [mj, mn, pt]) = Some [mj, mn, pt]"
    using assms unfolding safe_nums_Some by simp
  ultimately show ?thesis unfolding parsePartial_def by simp
qed

section \<open>Ranges as intervals\<close>

lemma ok_release [simp]: "ok_version (release a b c)"
  by (simp add: ok_version_def release_def)

lemma key_release: "semver_key (release a b c) = (a, b, c, True, [])"
  by (simp add: semver_key_def release_def)

lemma satisfyBound_key:
  "ok_version v \<Longrightarrow> ok_version w \<Longrightarrow> satisfyBound v (incl w) False \<longleftrightarrow> semver_key w \<le> semver_key v"
  "ok_version v \<Longrightarrow> ok_version w \<Longrightarrow> satisfyBound v (excl w) False \<longleftrightarrow> semver_key w < semver_key v"
  "ok_version v \<Longrightarrow> ok_version w \<Longrightarrow> satisfyBound v (incl w) True \<longleftrightarrow> semver_key v \<le> semver_key w"
  "ok_version v \<Longrightarrow> ok_version w \<Longrightarrow> satisfyBound v (excl w) True \<longleftrightarrow> semver_key v < semver_key w"
  by (simp_all add: satisfyBound_def incl_def excl_def semver_order.compare_iffs)

lemma plain_core_str:
  "c \<in> set (core_str mj mn pt) \<Longrightarrow> \<not> is_space c \<and> c \<noteq> CHR '','' \<and> c \<noteq> CHR '' ''"
  by (drule core_str_chars) (auto simp: is_digit_def is_space_def)

lemma js_split_absent: "sep \<noteq> [] \<Longrightarrow> hd sep \<notin> set s \<Longrightarrow> js_split sep s = [s]"
proof -
  assume a: "sep \<noteq> []" "hd sep \<notin> set s"
  have "find_sub sep s = None"
    using a(2) by (induction s) (use a(1) in \<open>auto elim!: prefixE simp: neq_Nil_conv\<close>)
  with a(1) show ?thesis by (simp add: js_split.simps)
qed

lemma part_simps [simp]:
  "part [] i = 0" "part (n # ns) 0 = n" "part (n # ns) (Suc i) = part ns i"
  "part (n # ns) 1 = part ns 0" "part (n # ns) 2 = part ns 1"
  by (simp_all add: part_def nth_Cons')

text \<open>The upper bound of a caret range: the next release at the leftmost nonzero part.\<close>

definition caret_next :: "nat \<Rightarrow> nat \<Rightarrow> nat \<Rightarrow> nat \<times> nat \<times> nat" where
  "caret_next mj mn pt =
     (if 0 < mj then (mj + 1, 0, 0) else if 0 < mn then (0, mn + 1, 0) else (0, 0, pt + 1))"

lemma range_ok_caret:
  assumes ok: "ok_version v" and safe: "int mj \<le> MAX_SAFE" "int mn \<le> MAX_SAFE" "int pt \<le> MAX_SAFE"
  shows "range_ok v False (''^'' @ core_str mj mn pt) \<longleftrightarrow>
    semver_key (release mj mn pt) \<le> semver_key v \<and>
    (case caret_next mj mn pt of (a, b, c) \<Rightarrow> semver_key v < semver_key (release a b c))"
proof -
  have "js_split '' - '' (''^'' @ core_str mj mn pt) = [''^'' @ core_str mj mn pt]"
    using plain_core_str by (intro js_split_absent) auto
  moreover have "strictPartial (core_str mj mn pt) = Some \<lparr>pv_parts = [mj, mn, pt], pv_pre = []\<rparr>"
    by (simp add: strictPartial_def parse_core_str safe)
  moreover have "pad \<lparr>pv_parts = [mj, mn, pt], pv_pre = []\<rparr> = release mj mn pt"
    by (simp add: pad_def release_def)
  ultimately show ?thesis
    by (simp add: range_ok_def caretBounds_def caret_next_def satisfyBound_key ok)
qed

lemma pad_prerelease:
  "pad \<lparr>pv_parts = [mj, mn, pt], pv_pre = ps\<rparr> = (release mj mn pt)\<lparr>sv_pre := ps\<rparr>"
  by (simp add: pad_def release_def)

lemmas ok_ident_eval = ok_version_def release_def ok_ident_def is_pre_ident_def is_count_def
  is_numeric_def is_digit_def is_ident_char_def is_alpha_def radix_val_def char_digit_def

section \<open>Properties\<close>

text \<open>
  \<open>compareSemver\<close> is SemVer precedence: on versions whose numeric prerelease
  identifiers are below 2^53 it is the three-way comparison of the lexicographic key
  (major, minor, patch, release after prerelease, identifiers with numbers before
  words); hence it is antisymmetric and transitive.
\<close>

theorem semver_precedence:
  assumes "ok_version a" "ok_version b" "ok_version c"
  shows "compareSemver a b = cmp3 (semver_key a) (semver_key b) \<and>
    compareSemver a b = - compareSemver b a \<and>
    (compareSemver a b \<le> 0 \<and> compareSemver b c \<le> 0 \<longrightarrow> compareSemver a c \<le> 0)"
  using assms semver_order.compare_key semver_order.antisym semver_order.trans by blast

theorem semver_precedence_witness:
  "compareSemver ((release 1 0 0)\<lparr>sv_pre := [''rc'', ''2'']\<rparr>) ((release 1 0 0)\<lparr>sv_pre := [''rc'', ''10'']\<rparr>) = -1 \<and>
   compareSemver ((release 1 0 0)\<lparr>sv_pre := [''rc'', ''2'']\<rparr>) (release 1 0 0) \<le> 0"
proof -
  let ?a = "(release 1 0 0)\<lparr>sv_pre := [''rc'', ''2'']\<rparr>" and ?b = "(release 1 0 0)\<lparr>sv_pre := [''rc'', ''10'']\<rparr>"
  have ok: "ok_version ?a" "ok_version ?b" "ok_version (release 1 0 0)"
    by (simp_all add: ok_ident_eval)
  have "semver_key ?a < semver_key ?b" "semver_key ?b < semver_key (release 1 0 0)"
    by (simp_all add: semver_key_def ident_of_def ok_ident_eval)
  with semver_precedence [OF ok(1,2,3)] semver_precedence [OF ok(2,3,3)] show ?thesis
    by (simp add: cmp3_def)
qed

text \<open>
  C40.  \<open>parseSemver\<close> accepts exactly the strings that match \<open>FULL_VERSION_RE\<close> and whose
  three core numbers are safe integers.
\<close>

theorem parseSemver_grammar:
  "parseSemver s \<noteq> None \<longleftrightarrow>
    rx_test FULL_VERSION_RE s \<and> list_all (\<lambda>n. int (dec_val n) \<le> MAX_SAFE) (version_core s)"
proof (cases "version_shape s")
  case None
  then show ?thesis by (simp add: full_version_shape parseSemver_def)
next
  case (Some t)
  obtain cs ps bs where t: "t = (cs, ps, bs)" by (cases t)
  have cs: "version_core s = cs" using version_shape_core Some t by blast
  show ?thesis
    unfolding full_version_shape list_all_iff cs using safe_nums_iff [of cs]
    by (auto simp: parseSemver_def Some t split: option.splits)
qed

text \<open>
  Printing a version in its canonical text and parsing it gives the version back,
  prerelease and build identifiers included.
\<close>

theorem semver_round_trip: "valid_version v \<Longrightarrow> parseSemver (version_str v) = Some v"
  by (rule parse_version_str)

theorem semver_round_trip_witness:
  "parseSemver ''1.22.3-rc.1+b7'' = Some ((release 1 22 3)\<lparr>sv_pre := [''rc'', ''1''], sv_build := [''b7'']\<rparr>)"
proof -
  let ?v = "(release 1 22 3)\<lparr>sv_pre := [''rc'', ''1''], sv_build := [''b7'']\<rparr>"
  have "valid_version ?v" by (simp add: valid_version_def is_build_ident_def ok_ident_eval MAX_SAFE_def)
  moreover have "version_str ?v = ''1.22.3-rc.1+b7''" by code_simp
  ultimately show ?thesis using semver_round_trip [of ?v] by simp
qed

text \<open>
  A caret range on a full release version is the half-open interval of precedence
  from that version to the next release at its leftmost nonzero part.
\<close>

theorem caret_range_interval:
  assumes "ok_version v" "int mj \<le> MAX_SAFE" "int mn \<le> MAX_SAFE" "int pt \<le> MAX_SAFE"
  shows "satisfiesSemver (Inr v) (''^'' @ core_str mj mn pt) False \<longleftrightarrow>
    semver_key (release mj mn pt) \<le> semver_key v \<and>
    (case caret_next mj mn pt of (a, b, c) \<Rightarrow> semver_key v < semver_key (release a b c))"
proof -
  have "js_trim (''^'' @ core_str mj mn pt) = ''^'' @ core_str mj mn pt"
    using plain_core_str by (intro js_trim_no_space) (auto simp: is_space_def)
  then show ?thesis using range_ok_caret [OF assms] by (simp add: satisfiesSemver_def)
qed

theorem caret_range_interval_witness:
  "satisfiesSemver (Inr (release 0 2 9)) ''^0.2.3'' False \<and>
   \<not> satisfiesSemver (Inr (release 0 3 0)) ''^0.2.3'' False"
proof -
  have "core_str 0 2 3 = ''0.2.3''" by code_simp
  with caret_range_interval [of "release 0 2 9" 0 2 3] caret_range_interval [of "release 0 3 0" 0 2 3]
  show ?thesis by (simp add: key_release caret_next_def MAX_SAFE_def)
qed

text \<open>The comparator \<open><x.y.z-pre\<close> drops the prerelease of its bound, so it is satisfied
  by the very version it names (which is not below itself), and by every later
  prerelease of the same release.
\<close>

theorem less_than_prerelease_admits_it:
  assumes "ok_version v" "sv_pre v \<noteq> []" "pv_parts pv = [sv_major v, sv_minor v, sv_patch v]"
  shows "bounds_ok v (comparatorBounds ''<'' pv)"
proof -
  have "pad (pv\<lparr>pv_pre := []\<rparr>) = release (sv_major v) (sv_minor v) (sv_patch v)"
    using assms(3) by (simp add: pad_def release_def)
  moreover have "semver_key v < semver_key (release (sv_major v) (sv_minor v) (sv_patch v))"
    using assms(2) by (simp add: semver_key_def release_def)
  ultimately show ?thesis
    by (simp add: bounds_ok_def comparatorBounds_def satisfyBound_key assms(1))
qed

theorem less_than_prerelease_admits_it_witness:
  "parsePartial ''1.2.3-rc.1'' = Some \<lparr>pv_parts = [1, 2, 3], pv_pre = [''rc'', ''1'']\<rparr> \<and>
   bounds_ok ((release 1 2 3)\<lparr>sv_pre := [''rc'', ''1'']\<rparr>)
     (comparatorBounds ''<'' \<lparr>pv_parts = [1, 2, 3], pv_pre = [''rc'', ''1'']\<rparr>)"
proof -
  let ?v = "(release 1 2 3)\<lparr>sv_pre := [''rc'', ''1'']\<rparr>" and ?p = "\<lparr>pv_parts = [1, 2, 3], pv_pre = [''rc'', ''1'']\<rparr>"
  have "bounds_ok ?v (comparatorBounds ''<'' ?p)"
    using less_than_prerelease_admits_it [of ?v ?p] by (simp add: ok_ident_eval)
  moreover have "parsePartial ''1.2.3-rc.1'' = Some ?p" by code_simp
  ultimately show ?thesis by simp
qed

text \<open>An exact range with a prerelease, which the range grammar documents as an exact
  version, is an interval: \<open>x.y.z-pre\<close> is satisfied by the release \<open>x.y.z\<close> itself, although
  the two versions differ in precedence.
\<close>

theorem exact_prerelease_range_admits_release:
  assumes "\<forall>p\<in>set ps. ok_ident p" "ps \<noteq> []" "opr \<in> {'''', ''=''}"
  shows "bounds_ok (release mj mn pt) (comparatorBounds opr \<lparr>pv_parts = [mj, mn, pt], pv_pre = ps\<rparr>) \<and>
    compareSemver (release mj mn pt) (pad \<lparr>pv_parts = [mj, mn, pt], pv_pre = ps\<rparr>) = 1"
proof -
  let ?w = "(release mj mn pt)\<lparr>sv_pre := ps\<rparr>"
  have ok: "ok_version ?w" using assms(1) by (simp add: ok_version_def release_def)
  have less: "semver_key ?w < semver_key (release mj mn pt)"
    using assms(2) by (simp add: semver_key_def release_def)
  then have "compareSemver (release mj mn pt) ?w = 1"
    using semver_order.compare_key [OF ok_release ok, of mj mn pt] by (auto simp: cmp3_def)
  moreover have "semver_key (release mj mn pt) < semver_key (release mj mn (pt + 1))"
    by (simp add: key_release)
  ultimately show ?thesis
    using assms(2,3) ok less
    by (auto simp: bounds_ok_def comparatorBounds_def satisfyBound_key pad_prerelease nextAfter_def)
qed

theorem exact_prerelease_range_admits_release_witness:
  "bounds_ok (release 1 2 3) (comparatorBounds '''' \<lparr>pv_parts = [1, 2, 3], pv_pre = [''rc'']\<rparr>) \<and>
   parsePartial ''1.2.3-rc'' = Some \<lparr>pv_parts = [1, 2, 3], pv_pre = [''rc'']\<rparr>"
proof -
  have "\<forall>p\<in>set [''rc'']. ok_ident p" by (simp add: ok_ident_eval)
  then have "bounds_ok (release 1 2 3) (comparatorBounds '''' \<lparr>pv_parts = [1, 2, 3], pv_pre = [''rc'']\<rparr>)"
    using exact_prerelease_range_admits_release [of "[''rc'']" "''''" 1 2 3] by simp
  moreover have "parsePartial ''1.2.3-rc'' = Some \<lparr>pv_parts = [1, 2, 3], pv_pre = [''rc'']\<rparr>" by code_simp
  ultimately show ?thesis by simp
qed

end
