(* ===== verification/Protocol.thy ===== *)
theory Protocol
  imports Gateway_Text
begin

text \<open>
  Model of \<open>packages/core/src/v2/protocol/\<close>: the closed error registry
  (\<open>errors.ts\<close>), the topic registry (\<open>topics.ts\<close>), the RPC method table
  (\<open>rpc-registry.ts\<close>), and peer scopes with their validation and admission
  (\<open>peers.ts\<close>).  An error keeps its code and field; the human-readable message of an
  \<open>RpcError\<close> carries no behaviour and is left out.
\<close>

section \<open>Errors\<close>

datatype error_code =
    JSON_INVALID | SCHEMA_INVALID | SCHEMA_UNSUPPORTED | METHOD_UNKNOWN | AUTH_REQUIRED
    | TOKEN_EXPIRED | TOKEN_REVOKED | FORBIDDEN | NOT_FOUND | REVISION_CONFLICT
    | IDEMPOTENCY_CONFLICT | BUSY | BACKPRESSURE | STORAGE_UNAVAILABLE | CURSOR_GONE
    | OBJECT_LIMIT | OBJECT_CONFLICT | SIGNATURE_INVALID | PROVENANCE_INVALID | TRUST_EXPIRED
    | DEPENDENCY_CONFLICT | DEPENDENTS_PRESENT | UNSUPPORTED_COMPOSITION
    | CAP_ADAPTER_UNAVAILABLE | MINT_EXCLUSIVE_HOLD_UNAVAILABLE | HEALTH_FAILED
    | SANDBOX_UNAVAILABLE | PLAN_STALE | CANCEL_UNSAFE | OUTCOME_UNKNOWN | PORT_IN_USE
    | RUNTIME_UNSUPPORTED | SERVICE_MANAGER_UNAVAILABLE | NETWORK_DENIED | NETWORK_UNAVAILABLE
    | SYNC_BLOCKED | ENTITLEMENT_REQUIRED | PAIRING_EXPIRED | PAIRING_LOCKED
    | APPROVAL_EXPIRED | POLICY_DENIED | CATALOG_ROLLBACK | STATE_TRANSITION
    | ARTIFACT_MISMATCH | BODY_LIMIT | READ_ONLY

text \<open>\<open>RpcError code field\<close>; \<open>JsTypeError\<close> is the engine's own exception.\<close>

datatype thrown = RpcError error_code "string option" | JsTypeError | JsCryptoError

primrec HTTP_STATUS :: "error_code \<Rightarrow> nat option" where
  "HTTP_STATUS JSON_INVALID = Some 400"
| "HTTP_STATUS SCHEMA_INVALID = Some 400"
| "HTTP_STATUS SCHEMA_UNSUPPORTED = Some 400"
| "HTTP_STATUS METHOD_UNKNOWN = Some 400"
| "HTTP_STATUS AUTH_REQUIRED = Some 401"
| "HTTP_STATUS TOKEN_EXPIRED = Some 401"
| "HTTP_STATUS TOKEN_REVOKED = Some 401"
| "HTTP_STATUS FORBIDDEN = Some 403"
| "HTTP_STATUS NOT_FOUND = Some 404"
| "HTTP_STATUS REVISION_CONFLICT = Some 409"
| "HTTP_STATUS IDEMPOTENCY_CONFLICT = Some 409"
| "HTTP_STATUS BUSY = Some 429"
| "HTTP_STATUS BACKPRESSURE = Some 429"
| "HTTP_STATUS STORAGE_UNAVAILABLE = Some 503"
| "HTTP_STATUS CURSOR_GONE = Some 410"
| "HTTP_STATUS OBJECT_LIMIT = Some 413"
| "HTTP_STATUS OBJECT_CONFLICT = Some 409"
| "HTTP_STATUS SIGNATURE_INVALID = Some 422"
| "HTTP_STATUS PROVENANCE_INVALID = Some 422"
| "HTTP_STATUS TRUST_EXPIRED = Some 410"
| "HTTP_STATUS DEPENDENCY_CONFLICT = Some 409"
| "HTTP_STATUS DEPENDENTS_PRESENT = Some 409"
| "HTTP_STATUS UNSUPPORTED_COMPOSITION = Some 501"
| "HTTP_STATUS CAP_ADAPTER_UNAVAILABLE = Some 501"
| "HTTP_STATUS MINT_EXCLUSIVE_HOLD_UNAVAILABLE = Some 501"
| "HTTP_STATUS HEALTH_FAILED = Some 503"
| "HTTP_STATUS SANDBOX_UNAVAILABLE = Some 501"
| "HTTP_STATUS PLAN_STALE = Some 409"
| "HTTP_STATUS CANCEL_UNSAFE = Some 409"
| "HTTP_STATUS OUTCOME_UNKNOWN = Some 409"
| "HTTP_STATUS PORT_IN_USE = Some 409"
| "HTTP_STATUS RUNTIME_UNSUPPORTED = Some 501"
| "HTTP_STATUS SERVICE_MANAGER_UNAVAILABLE = Some 501"
| "HTTP_STATUS NETWORK_DENIED = Some 403"
| "HTTP_STATUS NETWORK_UNAVAILABLE = Some 503"
| "HTTP_STATUS SYNC_BLOCKED = Some 503"
| "HTTP_STATUS ENTITLEMENT_REQUIRED = Some 403"
| "HTTP_STATUS PAIRING_EXPIRED = Some 410"
| "HTTP_STATUS PAIRING_LOCKED = Some 403"
| "HTTP_STATUS APPROVAL_EXPIRED = Some 410"
| "HTTP_STATUS POLICY_DENIED = Some 403"
| "HTTP_STATUS CATALOG_ROLLBACK = Some 409"
| "HTTP_STATUS STATE_TRANSITION = Some 409"
| "HTTP_STATUS ARTIFACT_MISMATCH = Some 422"
| "HTTP_STATUS BODY_LIMIT = Some 413"
| "HTTP_STATUS READ_ONLY = None"

definition RETRYABLE :: "error_code list" where
  "RETRYABLE = [BUSY, BACKPRESSURE, NETWORK_UNAVAILABLE, STORAGE_UNAVAILABLE, SYNC_BLOCKED]"

text \<open>The \<open>retryable\<close> flag of an \<open>RpcError\<close> built without an explicit one.\<close>

definition default_retryable :: "error_code \<Rightarrow> bool" where
  "default_retryable c \<longleftrightarrow> c \<in> set RETRYABLE"

section \<open>Topics\<close>

definition TOPICS :: "string list" where
  "TOPICS = [
     ''telemetry'', ''belief'', ''tool.observation'', ''verdict'', ''approval.request'',
     ''approval.decision'', ''receipt'', ''lineage'', ''watch.alert'', ''gateway.action'',
     ''mesh.opaque'']"

definition isTopic :: "string \<Rightarrow> bool" where
  "isTopic name \<longleftrightarrow> name \<in> set TOPICS"

datatype gating = Collection | Consumer | Admission | Never

record topic_policy =
  tp_failOpen :: bool
  tp_gating :: gating

definition TOPIC_POLICY :: "(string \<times> topic_policy) list" where
  "TOPIC_POLICY = [
     (''telemetry'', \<lparr>tp_failOpen = True, tp_gating = Never\<rparr>),
     (''belief'', \<lparr>tp_failOpen = True, tp_gating = Consumer\<rparr>),
     (''tool.observation'', \<lparr>tp_failOpen = True, tp_gating = Never\<rparr>),
     (''verdict'', \<lparr>tp_failOpen = False, tp_gating = Consumer\<rparr>),
     (''approval.request'', \<lparr>tp_failOpen = False, tp_gating = Admission\<rparr>),
     (''approval.decision'', \<lparr>tp_failOpen = False, tp_gating = Admission\<rparr>),
     (''receipt'', \<lparr>tp_failOpen = False, tp_gating = Admission\<rparr>),
     (''lineage'', \<lparr>tp_failOpen = True, tp_gating = Never\<rparr>),
     (''watch.alert'', \<lparr>tp_failOpen = True, tp_gating = Admission\<rparr>),
     (''gateway.action'', \<lparr>tp_failOpen = False, tp_gating = Admission\<rparr>),
     (''mesh.opaque'', \<lparr>tp_failOpen = False, tp_gating = Admission\<rparr>)]"

section \<open>RPC methods\<close>

datatype role = RoleV | RoleA | RoleO | RoleR | RoleL | RoleP

record method_spec =
  m_roles :: "role list"
  m_mutating :: bool
  m_receipt :: bool

definition spec :: "role list \<Rightarrow> bool \<Rightarrow> method_spec" where
  "spec roles mutating = \<lparr>m_roles = roles, m_mutating = mutating, m_receipt = True\<rparr>"

definition conn :: "role list \<Rightarrow> bool \<Rightarrow> method_spec" where
  "conn roles mutating = \<lparr>m_roles = roles, m_mutating = mutating, m_receipt = False\<rparr>"

definition RPC_METHODS :: "(string \<times> method_spec) list" where
  "RPC_METHODS = [
     (''daemon.hello'', conn [RoleV, RoleA, RoleO] False),
     (''daemon.status'', spec [RoleV, RoleO] False),
     (''daemon.stop'', spec [RoleL] True),
     (''config.get'', spec [RoleO] False),
     (''config.validate'', spec [RoleO] False),
     (''config.apply'', spec [RoleO] True),
     (''run.register'', spec [RoleA, RoleO] True),
     (''run.heartbeat'', conn [RoleA, RoleO] True),
     (''run.finish'', spec [RoleA, RoleO] True),
     (''events.publish'', spec [RoleA, RoleO] True),
     (''events.query'', spec [RoleV, RoleA, RoleO] False),
     (''events.subscribe'', spec [RoleV, RoleA, RoleO] True),
     (''events.ack'', conn [RoleV, RoleA, RoleO] True),
     (''objects.put'', spec [RoleA, RoleO] True),
     (''objects.get'', spec [RoleV, RoleA, RoleO] False),
     (''receipt.get'', spec [RoleV, RoleA, RoleO] False),
     (''lineage.query'', spec [RoleV, RoleA, RoleO] False),
     (''operation.get'', spec [RoleV, RoleO] False),
     (''operation.cancel'', spec [RoleO] True),
     (''product.plan'', spec [RoleO] True),
     (''product.install'', spec [RoleO] True),
     (''product.uninstall'', spec [RoleO] True),
     (''product.update'', spec [RoleO] True),
     (''product.rollback'', spec [RoleO] True),
     (''product.list'', spec [RoleV, RoleO] False),
     (''product.health'', spec [RoleV, RoleO] False),
     (''agent.pair.create'', spec [RoleL] True),
     (''agent.pair.propose'', spec [RoleP] True),
     (''agent.pair.get'', spec [RoleP, RoleL] False),
     (''agent.pair.approve'', spec [RoleL] True),
     (''agent.pair.cancel'', spec [RoleL] True),
     (''agent.challenge'', conn [RoleP, RoleA] True),
     (''agent.register'', spec [RoleP] True),
     (''agent.renew'', conn [RoleA] True),
     (''agent.list'', spec [RoleV, RoleA, RoleO] False),
     (''agent.revoke'', spec [RoleO] True),
     (''agent.disconnect'', spec [RoleA, RoleO] True),
     (''approval.request'', spec [RoleA, RoleO] True),
     (''approval.list'', spec [RoleV, RoleR, RoleO] False),
     (''approval.get'', spec [RoleV, RoleR, RoleO] False),
     (''approval.decide'', spec [RoleR, RoleO] True),
     (''approval.cancel'', spec [RoleA, RoleO] True),
     (''ui.session.create'', spec [RoleL] True),
     (''ui.session.exchange'', conn [RoleP] True),
     (''ui.session.revoke'', spec [RoleV, RoleO] True),
     (''sync.status'', spec [RoleV, RoleO] False),
     (''sync.pause'', spec [RoleO] True),
     (''sync.resume'', spec [RoleO] True),
     (''sync.configure'', spec [RoleO] True),
     (''sync.flush'', spec [RoleO] True),
     (''cloud.pair.begin'', spec [RoleL] True),
     (''cloud.pair.complete'', spec [RoleL] True),
     (''cloud.pair.revoke'', spec [RoleL] True),
     (''catalog.refresh'', spec [RoleO] True),
     (''catalog.search'', spec [RoleV, RoleO] False),
     (''catalog.show'', spec [RoleV, RoleO] False),
     (''catalog.pin'', spec [RoleO] True),
     (''catalog.unpin'', spec [RoleO] True)]"

definition isRpcMethod :: "string \<Rightarrow> bool" where
  "isRpcMethod name \<longleftrightarrow> name \<in> set (map fst RPC_METHODS)"

text \<open>
  \<open>RPC_METHODS[method]\<close> on an arbitrary string: an own entry, else a property that
  every object inherits (a value without a \<open>roles\<close> array), else \<open>undefined\<close>.
\<close>

definition OBJECT_PROTO_KEYS :: "string list" where
  "OBJECT_PROTO_KEYS = [''constructor'', ''__defineGetter__'', ''__defineSetter__'',
     ''hasOwnProperty'', ''__lookupGetter__'', ''__lookupSetter__'', ''isPrototypeOf'',
     ''propertyIsEnumerable'', ''toString'', ''valueOf'', ''__proto__'', ''toLocaleString'']"

definition roles_of :: "string \<Rightarrow> thrown + role list" where
  "roles_of name =
     (case map_of RPC_METHODS name of
        Some sp \<Rightarrow> Inr (m_roles sp)
      | None \<Rightarrow> if name \<in> set OBJECT_PROTO_KEYS then Inl JsTypeError
                else Inl (RpcError METHOD_UNKNOWN (Some ''method'')))"

section \<open>Peers, capabilities and scopes\<close>

datatype permission = EventsEmit | EventsConsume | ApprovalsRequest | LineageRead | ProductsManage

definition SCOPE_PERMISSIONS :: "(string \<times> permission) list" where
  "SCOPE_PERMISSIONS = [(''events.emit'', EventsEmit), (''events.consume'', EventsConsume),
     (''approvals.request'', ApprovalsRequest), (''lineage.read'', LineageRead),
     (''products.manage'', ProductsManage)]"

record scope =
  sc_permission :: permission
  sc_topics :: "string list"
  sc_runs :: "string list"
  sc_products :: "string list"

datatype lineage_grant = LineageNone | LineageOwn

record capability =
  cap_name :: string
  cap_profiles :: "string list"
  cap_emit :: "string list"
  cap_consume :: "string list"
  cap_request_approvals :: bool
  cap_lineage :: lineage_grant

datatype peer_role = AgentRole | OperatorRole

datatype peer_state = REGISTERED | CONNECTED | DISCONNECTED | REVOKED

record peer =
  p_id :: string
  p_source :: string
  p_key :: string
  p_role :: peer_role
  p_scopes :: "scope list"
  p_capabilities :: "capability list"
  p_state :: peer_state
  p_grant_revision :: string

text \<open>\<open>PEER_LIMITS\<close>\<close>

definition maxCapabilities :: nat where "maxCapabilities = 32"
definition maxScopes :: nat where "maxScopes = 64"
definition maxSetEntries :: nat where "maxSetEntries = 64"
definition maxNameBytes :: nat where "maxNameBytes = 64"
definition maxPendingInvitations :: nat where "maxPendingInvitations = 128"
definition invitationTtlMs :: int where "invitationTtlMs = 300000"
definition maxCodeAttempts :: nat where "maxCodeAttempts = 5"
definition challengeTtlMs :: int where "challengeTtlMs = 60000"
definition accessTtlS :: int where "accessTtlS = 900"
definition refreshTtlS :: int where "refreshTtlS = 2592000"

section \<open>The pairing state machine\<close>

datatype pair_state = CREATED | AWAITING_OPERATOR | APPROVED | CONSUMED | CANCELLED | EXPIRED | LOCKED

fun PAIR_TRANSITIONS :: "pair_state \<Rightarrow> pair_state list" where
  "PAIR_TRANSITIONS CREATED = [AWAITING_OPERATOR, CANCELLED, EXPIRED, LOCKED]"
| "PAIR_TRANSITIONS AWAITING_OPERATOR = [APPROVED, CANCELLED, EXPIRED, LOCKED]"
| "PAIR_TRANSITIONS APPROVED = [CONSUMED, AWAITING_OPERATOR, CANCELLED, EXPIRED, LOCKED]"
| "PAIR_TRANSITIONS CONSUMED = []"
| "PAIR_TRANSITIONS CANCELLED = []"
| "PAIR_TRANSITIONS EXPIRED = []"
| "PAIR_TRANSITIONS LOCKED = []"

definition canPairTransition :: "pair_state \<Rightarrow> pair_state \<Rightarrow> bool" where
  "canPairTransition src dst \<longleftrightarrow> dst \<in> set (PAIR_TRANSITIONS src)"

section \<open>Scope validation\<close>

record dimensions =
  d_topics :: bool
  d_runs :: bool
  d_products :: bool

fun SCOPE_DIMENSIONS :: "permission \<Rightarrow> dimensions" where
  "SCOPE_DIMENSIONS EventsEmit = \<lparr>d_topics = True, d_runs = True, d_products = False\<rparr>"
| "SCOPE_DIMENSIONS EventsConsume = \<lparr>d_topics = True, d_runs = True, d_products = False\<rparr>"
| "SCOPE_DIMENSIONS ApprovalsRequest = \<lparr>d_topics = False, d_runs = True, d_products = False\<rparr>"
| "SCOPE_DIMENSIONS LineageRead = \<lparr>d_topics = False, d_runs = True, d_products = False\<rparr>"
| "SCOPE_DIMENSIONS ProductsManage = \<lparr>d_topics = False, d_runs = False, d_products = True\<rparr>"

text \<open>A \<open>ScopeValidation\<close>: the code and field of the first failure.\<close>

type_synonym scope_validation = "(error_code \<times> string) + unit"

definition scopeFail :: "string \<Rightarrow> error_code \<times> string" where
  "scopeFail fld = (SCHEMA_INVALID, fld)"

definition SLUG_RE :: rx where
  "SLUG_RE = RSeq (RCls is_lower)
     (RUpTo 63 (RCls (\<lambda>c. is_lower c \<or> is_digit c \<or> c = CHR ''-'')))"

text \<open>The loop of \<open>checkSet\<close>: nonempty strings, none seen before.\<close>

fun check_entries :: "string list \<Rightarrow> json list \<Rightarrow> string \<Rightarrow> scope_validation" where
  "check_entries seen [] fld = Inr ()"
| "check_entries seen (e # es) fld =
     (case e of
        JStr t \<Rightarrow>
          if t = [] then Inl (scopeFail fld)
          else if t \<in> set seen then Inl (scopeFail fld)
          else check_entries (t # seen) es fld
      | _ \<Rightarrow> Inl (scopeFail fld))"

definition checkSet :: "json option \<Rightarrow> string \<Rightarrow> scope_validation" where
  "checkSet values fld =
     (case values of
        Some (JArr es) \<Rightarrow>
          if maxSetEntries < length es then Inl (scopeFail fld) else check_entries [] es fld
      | _ \<Rightarrow> Inl (scopeFail fld))"

fun str_entries :: "json option \<Rightarrow> string list" where
  "str_entries (Some (JArr es)) = concat (map (\<lambda>e. case e of JStr t \<Rightarrow> [t] | _ \<Rightarrow> []) es)"
| "str_entries _ = []"

definition SCOPE_FIELDS :: "string list" where
  "SCOPE_FIELDS = [''permission'', ''topics'', ''runs'', ''products'']"

definition check_topic :: "string \<Rightarrow> scope_validation" where
  "check_topic t = check (CHR ''*'' \<notin> set t \<and> t \<in> set TOPICS) (scopeFail ''topics'')"

definition check_run :: "string \<Rightarrow> scope_validation" where
  "check_run r = check (CHR ''*'' \<notin> set r) (scopeFail ''runs'')"

definition check_product :: "string \<Rightarrow> scope_validation" where
  "check_product p = check (CHR ''*'' \<notin> set p \<and> rx_test SLUG_RE p) (scopeFail ''products'')"

definition validateScope :: "json \<Rightarrow> scope_validation" where
  "validateScope sc =
     (case sc of
        JObj s \<Rightarrow>
          (case find (\<lambda>k. k \<notin> set SCOPE_FIELDS) (map fst s) of
             Some k \<Rightarrow> Inl (scopeFail k)
           | None \<Rightarrow>
               (case (case jget s ''permission'' of
                        Some (JStr p) \<Rightarrow> map_of SCOPE_PERMISSIONS p | _ \<Rightarrow> None) of
                  None \<Rightarrow> Inl (scopeFail ''permission'')
                | Some perm \<Rightarrow>
                    andThen (first_error (\<lambda>d. checkSet (jget s d) d) [''topics'', ''runs'', ''products''])
                    (\<lambda>_. let topics = str_entries (jget s ''topics''); runs = str_entries (jget s ''runs'');
                            products = str_entries (jget s ''products''); dims = SCOPE_DIMENSIONS perm in
                     andThen (check (d_topics dims \<or> topics = []) (scopeFail ''topics'')) (\<lambda>_.
                     andThen (check (d_runs dims \<or> runs = []) (scopeFail ''runs'')) (\<lambda>_.
                     andThen (check (d_products dims \<or> products = []) (scopeFail ''products'')) (\<lambda>_.
                     andThen (first_error check_topic topics) (\<lambda>_.
                     andThen (first_error check_run runs) (\<lambda>_.
                     first_error check_product products))))))))
      | _ \<Rightarrow> Inl (scopeFail ''scope''))"

text \<open>
  \<open>validateScopes\<close> remembers \<open>JSON.stringify\<close> of each entry.  A validated entry holds only
  strings and arrays of strings, on which the text determines the value with its key
  order, so the value itself is remembered.
\<close>

fun validate_entries :: "json list \<Rightarrow> json list \<Rightarrow> scope_validation" where
  "validate_entries seen [] = Inr ()"
| "validate_entries seen (s # ss) =
     (case validateScope s of
        Inl e \<Rightarrow> Inl e
      | Inr _ \<Rightarrow> if s \<in> set seen then Inl (scopeFail ''scopes'') else validate_entries (s # seen) ss)"

definition validateScopes :: "json \<Rightarrow> scope_validation" where
  "validateScopes scopes =
     (case scopes of
        JArr ss \<Rightarrow> if maxScopes < length ss then Inl (scopeFail ''scopes'') else validate_entries [] ss
      | _ \<Rightarrow> Inl (scopeFail ''scopes''))"

text \<open>The typed scope that the source gets by casting a validated value.\<close>

definition scope_of_json :: "json \<Rightarrow> scope option" where
  "scope_of_json sc =
     (case sc of
        JObj s \<Rightarrow>
          (case jget s ''permission'' of
             Some (JStr p) \<Rightarrow>
               map_option (\<lambda>perm. \<lparr>sc_permission = perm, sc_topics = str_entries (jget s ''topics''),
                 sc_runs = str_entries (jget s ''runs''), sc_products = str_entries (jget s ''products'')\<rparr>)
               (map_of SCOPE_PERMISSIONS p)
           | _ \<Rightarrow> None)
      | _ \<Rightarrow> None)"

section \<open>Scope admission\<close>

record admission_ctx =
  ac_role :: peer_role
  ac_allowOperator :: bool
  ac_localOperatorConfirmation :: bool

definition checkScopeAdmission :: "scope \<Rightarrow> admission_ctx \<Rightarrow> scope_validation" where
  "checkScopeAdmission s ctx =
     (if sc_permission s = ProductsManage \<and>
         (ac_role ctx \<noteq> OperatorRole \<or> \<not> ac_allowOperator ctx \<or>
          \<not> ac_localOperatorConfirmation ctx \<or> sc_products s = [])
      then Inl (FORBIDDEN, ''permission'') else Inr ())"

definition scopeGrantsTopic :: "scope \<Rightarrow> string \<Rightarrow> bool" where
  "scopeGrantsTopic s topic \<longleftrightarrow>
     sc_permission s \<in> {EventsEmit, EventsConsume} \<and> topic \<in> set (sc_topics s)"

section \<open>Well-formed scopes\<close>

text \<open>What \<open>validateScope\<close> promises of the typed scope.\<close>

definition wf_scope :: "scope \<Rightarrow> bool" where
  "wf_scope s \<longleftrightarrow>
     (let d = SCOPE_DIMENSIONS (sc_permission s) in
      (d_topics d \<or> sc_topics s = []) \<and> (d_runs d \<or> sc_runs s = []) \<and> (d_products d \<or> sc_products s = []) \<and>
      set (sc_topics s) \<subseteq> set TOPICS \<and> list_all (\<lambda>r. r \<noteq> [] \<and> CHR ''*'' \<notin> set r) (sc_runs s) \<and>
      list_all (rx_test SLUG_RE) (sc_products s) \<and>
      distinct (sc_topics s) \<and> distinct (sc_runs s) \<and> distinct (sc_products s) \<and>
      length (sc_topics s) \<le> maxSetEntries \<and> length (sc_runs s) \<le> maxSetEntries \<and>
      length (sc_products s) \<le> maxSetEntries)"

lemma check_entries_ok:
  "check_entries seen es fld = Inr u \<Longrightarrow>
    distinct (str_entries (Some (JArr es))) \<and> set (str_entries (Some (JArr es))) \<inter> set seen = {} \<and>
    length (str_entries (Some (JArr es))) = length es \<and> [] \<notin> set (str_entries (Some (JArr es)))"
  by (induction es arbitrary: seen) (fastforce split: json.splits if_splits)+

lemma checkSet_ok:
  assumes "checkSet v fld = Inr u"
  shows "distinct (str_entries v)" "length (str_entries v) \<le> maxSetEntries" "[] \<notin> set (str_entries v)"
proof -
  from assms obtain es where "v = Some (JArr es)" "length es \<le> maxSetEntries" "check_entries [] es fld = Inr u"
    by (auto simp: checkSet_def not_less split: option.splits json.splits if_splits)
  with check_entries_ok [of "[]" es fld u]
  show "distinct (str_entries v)" "length (str_entries v) \<le> maxSetEntries" "[] \<notin> set (str_entries v)"
    by auto
qed

lemma validateScope_wf:
  assumes "validateScope sc = Inr u"
  shows "\<exists>s. scope_of_json sc = Some s \<and> wf_scope s"
proof -
  from assms obtain s where sc: "sc = JObj s" by (auto simp: validateScope_def split: json.splits)
  from assms obtain p perm where p: "jget s ''permission'' = Some (JStr p)" "map_of SCOPE_PERMISSIONS p = Some perm"
    unfolding sc validateScope_def by (auto split: option.splits json.splits)
  from assms p have *: "checkSet (jget s ''topics'') ''topics'' = Inr ()" "checkSet (jget s ''runs'') ''runs'' = Inr ()"
      "checkSet (jget s ''products'') ''products'' = Inr ()"
      "d_topics (SCOPE_DIMENSIONS perm) \<or> str_entries (jget s ''topics'') = []"
      "d_runs (SCOPE_DIMENSIONS perm) \<or> str_entries (jget s ''runs'') = []"
      "d_products (SCOPE_DIMENSIONS perm) \<or> str_entries (jget s ''products'') = []"
      "\<forall>t\<in>set (str_entries (jget s ''topics'')). t \<in> set TOPICS"
      "\<forall>t\<in>set (str_entries (jget s ''runs'')). CHR ''*'' \<notin> set t"
      "\<forall>t\<in>set (str_entries (jget s ''products'')). rx_test SLUG_RE t"
    unfolding sc validateScope_def check_topic_def check_run_def check_product_def
    by (simp_all add: Let_def split: option.splits)
  define ts rs ps where "ts = str_entries (jget s ''topics'')" and "rs = str_entries (jget s ''runs'')"
    and "ps = str_entries (jget s ''products'')"
  note defs = ts_def [symmetric] rs_def [symmetric] ps_def [symmetric]
  have "wf_scope \<lparr>sc_permission = perm, sc_topics = ts, sc_runs = rs, sc_products = ps\<rparr>"
    using *(4-9) checkSet_ok [OF *(1)] checkSet_ok [OF *(2)] checkSet_ok [OF *(3)]
    unfolding wf_scope_def defs by (auto simp: list_all_iff Let_def)
  then show ?thesis unfolding sc scope_of_json_def by (simp add: p defs)
qed

end
