(* ===== verification/Crypto_Text.thy ===== *)
theory Crypto_Text
  imports Gateway_Text
begin

text \<open>
  Model of the text codecs of \<open>packages/core/src/v2/crypto\<close>: canonical base64url
  (\<open>ed25519.ts\<close>), hashes (\<open>hash.ts\<close>), identifiers and delivery cursors (\<open>ids.ts\<close>),
  canonical JSON (\<open>canonical.ts\<close>) and the signed pairing bodies (\<open>pairing.ts\<close>).

  A \<open>Buffer\<close> is a string of bytes.  SHA-256 and Ed25519 are those of \<open>node:crypto\<close>: the
  functions of the record \<open>node_crypto\<close>, which every definition that reaches them takes.
\<close>

section \<open>Bytes\<close>

text \<open>\<open>Buffer.from(s, "utf8")\<close> below code unit 256.\<close>

definition utf8_char :: "char \<Rightarrow> string" where
  "utf8_char c = (let n = (of_char c :: nat) in
     if n < 128 then [c] else [char_of (192 + n div 64), char_of (128 + n mod 64)])"

definition utf8 :: "string \<Rightarrow> string" where
  "utf8 s = concat (map utf8_char s)"

definition hex_byte :: "char \<Rightarrow> string" where
  "hex_byte c = (let n = (of_char c :: nat) in [digit_char (n div 16), digit_char (n mod 16)])"

definition hex_encode :: "string \<Rightarrow> string" where
  "hex_encode bs = concat (map hex_byte bs)"

section \<open>Base64url\<close>

fun bits_of :: "nat \<Rightarrow> nat \<Rightarrow> bool list" where
  "bits_of 0 n = []"
| "bits_of (Suc w) n = bits_of w (n div 2) @ [odd n]"

definition bits_val :: "bool list \<Rightarrow> nat" where
  "bits_val bs = foldl (\<lambda>a b. 2 * a + of_bool b) 0 bs"

function chunks :: "nat \<Rightarrow> 'a list \<Rightarrow> 'a list list" where
  "chunks n xs = (if n = 0 \<or> length xs < n then [] else take n xs # chunks n (drop n xs))"
  by pat_completeness auto
termination by (relation "measure (\<lambda>(n, xs). length xs)") auto

declare chunks.simps [simp del]

definition B64U :: string where
  "B64U = ''ABCDEFGHIJKLMNOPQRSTUVWXYZabcdefghijklmnopqrstuvwxyz0123456789-_''"

fun index_of :: "'a \<Rightarrow> 'a list \<Rightarrow> nat" where
  "index_of x [] = 0"
| "index_of x (y # ys) = (if x = y then 0 else Suc (index_of x ys))"

text \<open>\<open>toString("base64url")\<close> and \<open>Buffer.from(s, "base64url")\<close> on the alphabet.\<close>

definition b64u_encode :: "string \<Rightarrow> string" where
  "b64u_encode bs =
     (let bits = concat (map (\<lambda>c. bits_of 8 (of_char c)) bs) in
      map (\<lambda>g. B64U ! bits_val g)
        (chunks 6 (bits @ replicate ((6 - length bits mod 6) mod 6) False)))"

definition b64u_decode :: "string \<Rightarrow> string" where
  "b64u_decode s = map (\<lambda>g. char_of (bits_val g)) (chunks 8 (concat (map (\<lambda>c. bits_of 6 (index_of c B64U)) s)))"

definition B64U_RE :: rx where
  "B64U_RE = RPlus (RCls (\<lambda>c. c \<in> set B64U))"

definition isB64uCanonical :: "string \<Rightarrow> bool" where
  "isB64uCanonical s \<longleftrightarrow> rx_test B64U_RE s \<and> b64u_encode (b64u_decode s) = s"

subsection \<open>Lemmas\<close>

lemma bits_of_length [simp]: "length (bits_of w n) = w"
  by (induction w arbitrary: n) auto

lemma bits_val_snoc [simp]: "bits_val (bs @ [b]) = 2 * bits_val bs + of_bool b"
  by (simp add: bits_val_def)

lemma bits_val_nil [simp]: "bits_val [] = 0"
  by (simp add: bits_val_def)

lemma bits_val_of: "bits_val (bits_of w n) = n mod 2 ^ w"
proof (induction w arbitrary: n)
  case (Suc w)
  have "2 * (n div 2 mod 2 ^ w) + n mod 2 = n mod (2 * 2 ^ w)"
    by (metis mod_mult2_eq add.commute)
  then show ?case by (simp add: Suc odd_iff_mod_2_eq_one mod2_eq_if split: if_splits)
qed simp

lemma bits_of_val: "bits_of (length bs) (bits_val bs) = bs"
  by (induction bs rule: rev_induct) auto

lemma bits_val_less: "bits_val bs < 2 ^ length bs"
  by (induction bs rule: rev_induct) auto

lemma concat_chunks: "0 < n \<Longrightarrow> n dvd length xs \<Longrightarrow> concat (chunks n xs) = xs"
proof (induction n xs rule: chunks.induct)
  case (1 n xs)
  show ?case
  proof (cases "length xs < n")
    case True
    with 1 have "xs = []" by (auto dest: dvd_imp_le)
    then show ?thesis by (simp add: chunks.simps)
  next
    case False
    with 1 show ?thesis by (simp add: chunks.simps [of n xs] dvd_minus_self)
  qed
qed

lemma chunks_length: "g \<in> set (chunks n xs) \<Longrightarrow> length g = n"
proof (induction n xs rule: chunks.induct)
  case (1 n xs)
  then show ?case by (subst (asm) chunks.simps) (auto split: if_splits)
qed

lemma chunks_concat:
  "0 < n \<Longrightarrow> \<forall>x\<in>set xss. length x = n \<Longrightarrow> length r < n \<Longrightarrow> chunks n (concat xss @ r) = xss"
proof (induction xss)
  case Nil
  then show ?case by (simp add: chunks.simps)
next
  case (Cons x xss)
  then show ?case by (simp add: chunks.simps [of n "x @ concat xss @ r"])
qed

lemma B64U_length: "length B64U = 64" and B64U_distinct: "distinct B64U"
  by (simp_all add: B64U_def)

lemma index_of_nth: "distinct xs \<Longrightarrow> i < length xs \<Longrightarrow> index_of (xs ! i) xs = i"
proof (induction xs arbitrary: i)
  case (Cons x xs)
  then show ?case by (cases i) auto
qed simp

lemma b64u_bits: "length g = 6 \<Longrightarrow> bits_of 6 (index_of (B64U ! bits_val g) B64U) = g"
  using bits_val_less [of g] bits_of_val [of g] index_of_nth [OF B64U_distinct, of "bits_val g"]
  by (simp add: B64U_length)

lemma pad6: "6 dvd (l::nat) + (6 - l mod 6) mod 6"
proof -
  have "(l + (6 - l mod 6)) mod 6 = 0" by (metis add.commute le_add_diff_inverse2 less_imp_le mod_add_left_eq
      mod_less_divisor mod_self zero_less_numeral)
  then have "(l + (6 - l mod 6) mod 6) mod 6 = 0" by (simp only: mod_add_right_eq)
  then show ?thesis by auto
qed

lemma b64u_decode_encode: "b64u_decode (b64u_encode bs) = bs"
proof -
  define bits where "bits = concat (map (\<lambda>c. bits_of 8 (of_char c)) bs)"
  define z where "z = replicate ((6 - length bits mod 6) mod 6) False"
  have len: "length bits = 8 * length bs"
    unfolding bits_def by (induction bs) auto
  have "6 dvd length (bits @ z)" unfolding z_def using pad6 [of "length bits"] by simp
  then have *: "concat (chunks 6 (bits @ z)) = bits @ z" by (intro concat_chunks) auto
  have "map (\<lambda>g. bits_of 6 (index_of (B64U ! bits_val g) B64U)) (chunks 6 (bits @ z)) = chunks 6 (bits @ z)"
    by (rule map_idI) (auto dest: chunks_length intro: b64u_bits)
  then have "b64u_decode (b64u_encode bs) = map (\<lambda>g. char_of (bits_val g)) (chunks 8 (bits @ z))"
    unfolding b64u_decode_def b64u_encode_def Let_def bits_def [symmetric] z_def [symmetric]
    by (simp add: o_def *)
  also have "chunks 8 (bits @ z) = map (\<lambda>c. bits_of 8 (of_char c)) bs"
    unfolding bits_def by (rule chunks_concat) (auto simp: z_def)
  finally show ?thesis by (simp add: o_def bits_val_of)
qed

lemma b64u_encode_empty [simp]: "b64u_encode bs = [] \<longleftrightarrow> bs = []"
  using b64u_decode_encode [of bs] by (auto simp: b64u_decode_def b64u_encode_def chunks.simps)

lemma b64u_encode_alphabet: "c \<in> set (b64u_encode bs) \<Longrightarrow> c \<in> set B64U"
proof -
  have "length g = 6 \<Longrightarrow> B64U ! bits_val g \<in> set B64U" for g
    using bits_val_less [of g] by (simp add: B64U_length)
  then show "c \<in> set (b64u_encode bs) \<Longrightarrow> c \<in> set B64U"
    by (auto simp: b64u_encode_def Let_def dest!: chunks_length)
qed

lemma canonical_encoding [simp]: "isB64uCanonical (b64u_encode bs) \<longleftrightarrow> bs \<noteq> []"
  unfolding isB64uCanonical_def B64U_RE_def rx_test_correct rx_lang_plus_cls
  using b64u_encode_alphabet b64u_decode_encode b64u_encode_empty by metis

text \<open>
  A text is accepted as canonical base64url exactly when it is the encoding of some
  nonempty byte string, which is then the one it decodes to.
\<close>

theorem canonical_base64url_iff_encoding:
  "isB64uCanonical s \<longleftrightarrow> (\<exists>bs. bs \<noteq> [] \<and> s = b64u_encode bs \<and> b64u_decode s = bs)"
  unfolding isB64uCanonical_def B64U_RE_def rx_test_correct rx_lang_plus_cls
  using b64u_encode_alphabet b64u_decode_encode b64u_encode_empty by metis

section \<open>Hashes, identifiers, cursors\<close>

datatype crypto_error = CANONICAL_DOMAIN | ENCODING_INVALID | KEY_INVALID | CURSOR_INVALID | REQUEST_PROOF_INVALID

definition isHash64 :: "json \<Rightarrow> bool" where
  "isHash64 v = (case v of JStr s \<Rightarrow> rx_test (RTimes 64 (RCls is_hex)) s | _ \<Rightarrow> False)"

definition ID_RE :: rx where
  "ID_RE = RSeq (RCls is_alpha) (RUpTo 63 (RCls (\<lambda>c. c \<in> set B64U)))"

definition isId :: "json \<Rightarrow> bool" where
  "isId v = (case v of JStr s \<Rightarrow> rx_test ID_RE s | _ \<Rightarrow> False)"

definition CROCKFORD32_ALPHABET :: string where
  "CROCKFORD32_ALPHABET = ''0123456789ABCDEFGHJKMNPQRSTVWXYZ''"

definition PAIR_CODE_RE :: rx where
  "PAIR_CODE_RE = RTimes 10 (RCls (\<lambda>c. c \<in> set CROCKFORD32_ALPHABET))"

definition isPairCode :: "string \<Rightarrow> bool" where
  "isPairCode = rx_test PAIR_CODE_RE"

text \<open>\<open>newPairCode\<close> on the ten bytes that \<open>randomBytes\<close> returned.\<close>

definition newPairCode :: "string \<Rightarrow> string" where
  "newPairCode raw = map (\<lambda>b. CROCKFORD32_ALPHABET ! (of_char b mod 32)) raw"

text \<open>A cursor ordinal is a JavaScript number (an integer or not) or a string.\<close>

datatype ordinal = OrdInt int | OrdFraction | OrdText string

definition is_safe :: "int \<Rightarrow> bool" where
  "is_safe n \<longleftrightarrow> - MAX_SAFE \<le> n \<and> n \<le> MAX_SAFE"

fun ordinalText :: "ordinal \<Rightarrow> crypto_error + string" where
  "ordinalText (OrdInt n) = (if is_safe n \<and> 0 \<le> n then Inr (dec_str (nat n)) else Inl CURSOR_INVALID)"
| "ordinalText OrdFraction = Inl CURSOR_INVALID"
| "ordinalText (OrdText s) = (if rx_test RX_COUNT s then Inr s else Inl CURSOR_INVALID)"

definition CURSOR_LANE_RE :: rx where
  "CURSOR_LANE_RE = RTimes 16 (RCls is_hex)"

definition formatCursor :: "string \<Rightarrow> ordinal \<Rightarrow> crypto_error + string" where
  "formatCursor lane n =
     (if \<not> rx_test CURSOR_LANE_RE lane then Inl CURSOR_INVALID
      else andThen (ordinalText n) (\<lambda>t. Inr (''c'' @ lane @ '':'' @ t)))"

text \<open>\<open>s.padStart(n, "0")\<close>\<close>

definition pad_start :: "nat \<Rightarrow> string \<Rightarrow> string" where
  "pad_start n s = replicate (n - length s) CHR ''0'' @ s"

definition newCursor :: "int \<Rightarrow> ordinal \<Rightarrow> crypto_error + string" where
  "newCursor sq n =
     (if \<not> (is_safe sq \<and> 0 \<le> sq) then Inl CURSOR_INVALID
      else formatCursor (pad_start 16 (radix_str 16 (nat sq))) n)"

definition parseCursor :: "json \<Rightarrow> (string \<times> string) option" where
  "parseCursor v =
     (case v of
        JStr (c # s) \<Rightarrow>
          (let lane = take 16 s; rest = drop 16 s in
           if c = CHR ''c'' \<and> rx_test CURSOR_LANE_RE lane \<and> rest \<noteq> [] \<and> hd rest = CHR '':'' \<and>
              rx_test (RPlus (RCls is_digit)) (tl rest) \<and> rx_test RX_COUNT (tl rest)
           then Some (lane, tl rest) else None)
      | _ \<Rightarrow> None)"

lemma cursor_lane: "rx_test CURSOR_LANE_RE s \<longleftrightarrow> length s = 16 \<and> (\<forall>c\<in>set s. is_hex c)"
  by (simp add: CURSOR_LANE_RE_def rx_test_correct rx_lang_times_cls)

lemma count_digits: "is_count s \<Longrightarrow> rx_test (RPlus (RCls is_digit)) s"
  by (simp add: rx_test_correct rx_lang_plus_cls is_count_def)

lemma ordinalText_count: "ordinalText n = Inr t \<Longrightarrow> is_count t"
  by (cases n) (auto simp: rx_count dec_str_count split: if_splits)

text \<open>
  Formatting and parsing a delivery cursor are inverse: what \<open>formatCursor\<close> prints is
  parsed to its lane and ordinal, and only such texts are parsed.
\<close>

theorem cursor_round_trip:
  "parseCursor (JStr s) = Some (lane, t) \<longleftrightarrow> formatCursor lane (OrdText t) = Inr s"
proof
  assume "parseCursor (JStr s) = Some (lane, t)"
  then obtain r where "s = CHR ''c'' # r" "lane = take 16 r" "rx_test CURSOR_LANE_RE lane"
      "drop 16 r = CHR '':'' # t" "rx_test RX_COUNT t"
    by (cases s; cases "drop 16 (tl s)") (auto simp: parseCursor_def Let_def split: if_splits)
  then show "formatCursor lane (OrdText t) = Inr s"
    using append_take_drop_id [of 16 r] by (simp add: formatCursor_def)
next
  assume "formatCursor lane (OrdText t) = Inr s"
  then have "s = CHR ''c'' # lane @ CHR '':'' # t" "rx_test CURSOR_LANE_RE lane" "is_count t"
    by (auto simp: formatCursor_def rx_count split: if_splits)
  then show "parseCursor (JStr s) = Some (lane, t)"
    using count_digits by (auto simp: parseCursor_def cursor_lane Let_def rx_count)
qed

section \<open>Canonical JSON\<close>

text \<open>\<open>JSON.stringify\<close> of a string below code unit 256.\<close>

definition json_esc :: "char \<Rightarrow> string" where
  "json_esc c =
     (let n = (of_char c :: nat) in
      if n = 34 then [CHR 0x5C, CHR 0x22] else if n = 92 then [CHR 0x5C, CHR 0x5C]
      else if n = 8 then [CHR 0x5C, CHR ''b''] else if n = 9 then [CHR 0x5C, CHR ''t'']
      else if n = 10 then [CHR 0x5C, CHR ''n''] else if n = 12 then [CHR 0x5C, CHR ''f'']
      else if n = 13 then [CHR 0x5C, CHR ''r'']
      else if n < 32 then [CHR 0x5C, CHR ''u'', CHR ''0'', CHR ''0''] @ hex_byte c
      else [c])"

definition json_quote :: "string \<Rightarrow> string" where
  "json_quote s = [CHR 0x22] @ concat (map json_esc s) @ [CHR 0x22]"

definition int_str :: "int \<Rightarrow> string" where
  "int_str i = (if i < 0 then ''-'' @ dec_str (nat (- i)) else dec_str (nat i))"

fun isCanonicalDomainValue :: "json \<Rightarrow> bool" where
  "isCanonicalDomainValue JNull = True"
| "isCanonicalDomainValue (JBool b) = True"
| "isCanonicalDomainValue (JStr s) = True"
| "isCanonicalDomainValue (JNum i) = is_safe i"
| "isCanonicalDomainValue JNumOther = False"
| "isCanonicalDomainValue (JArr es) = list_all isCanonicalDomainValue es"
| "isCanonicalDomainValue (JObj ob) = list_all (\<lambda>(k, v). isCanonicalDomainValue v) ob"

fun encode :: "json \<Rightarrow> string" where
  "encode JNull = ''null''"
| "encode (JBool b) = (if b then ''true'' else ''false'')"
| "encode (JStr s) = json_quote s"
| "encode (JNum i) = int_str i"
| "encode JNumOther = ''null''"
| "encode (JArr es) = ''['' @ join_with '','' (map encode es) @ '']''"
| "encode (JObj ob) = ''{'' @ join_with '',''
     (map (\<lambda>(k, e). json_quote k @ '':'' @ e) (sort_key fst (map (\<lambda>(k, v). (k, encode v)) ob))) @ ''}''"

definition canonicalJson :: "json \<Rightarrow> crypto_error + string" where
  "canonicalJson v = (if isCanonicalDomainValue v then Inr (encode v) else Inl CANONICAL_DOMAIN)"

section \<open>Signed bodies\<close>

text \<open>
  \<open>node:crypto\<close>: the SHA-256 digest, whether \<open>createPublicKey\<close> takes 32 raw bytes, and
  Ed25519 verification of a signature on a message under raw key bytes.
\<close>

record node_crypto =
  nc_sha256 :: "string \<Rightarrow> string"
  nc_public :: "string \<Rightarrow> bool"
  nc_verify :: "string \<Rightarrow> string \<Rightarrow> string \<Rightarrow> bool"

definition sha256Hex :: "node_crypto \<Rightarrow> string \<Rightarrow> string" where
  "sha256Hex nc s = hex_encode (nc_sha256 nc (utf8 s))"

fun hex_decode :: "string \<Rightarrow> string" where
  "hex_decode (a # b # r) = char_of (16 * char_digit a + char_digit b) # hex_decode r"
| "hex_decode _ = []"

definition decodeB64u :: "string \<Rightarrow> crypto_error + string" where
  "decodeB64u s = (if isB64uCanonical s then Inr (b64u_decode s) else Inl ENCODING_INVALID)"

definition keyIdOfPublic :: "node_crypto \<Rightarrow> string \<Rightarrow> crypto_error + string" where
  "keyIdOfPublic nc key =
     andThen (decodeB64u key) (\<lambda>raw.
       if length raw \<noteq> 32 then Inl KEY_INVALID else Inr (hex_encode (nc_sha256 nc raw)))"

definition publicKeyFromB64u :: "node_crypto \<Rightarrow> string \<Rightarrow> crypto_error + string" where
  "publicKeyFromB64u nc key =
     andThen (decodeB64u key) (\<lambda>raw.
       if length raw \<noteq> 32 \<or> \<not> nc_public nc raw then Inl KEY_INVALID else Inr raw)"

definition signed_message :: "node_crypto \<Rightarrow> string \<Rightarrow> string \<Rightarrow> string" where
  "signed_message nc domain text = utf8 (domain @ [CHR 0x00]) @ hex_decode (sha256Hex nc text)"

definition verifyB64u :: "node_crypto \<Rightarrow> string \<Rightarrow> json \<Rightarrow> string \<Rightarrow> string \<Rightarrow> bool" where
  "verifyB64u nc domain body signature publicKey =
     (isB64uCanonical signature \<and> length (b64u_decode signature) = 64 \<and>
      (case publicKeyFromB64u nc publicKey of
         Inl _ \<Rightarrow> False
       | Inr pub \<Rightarrow>
           (case canonicalJson body of
              Inl _ \<Rightarrow> False
            | Inr text \<Rightarrow> nc_verify nc (signed_message nc domain text) pub (b64u_decode signature))))"

definition PAIR_DOMAIN :: string where "PAIR_DOMAIN = ''LATTICEAG-GATEWAY-PAIR/1''"
definition RENEW_DOMAIN :: string where "RENEW_DOMAIN = ''LATTICEAG-GATEWAY-RENEW/1''"
definition REQUEST_DOMAIN :: string where "REQUEST_DOMAIN = ''LATTICEAG-GATEWAY-REQUEST/1''"

record register_params =
  rb_gateway :: string
  rb_workspace :: string
  rb_epoch :: string
  rb_pair :: string
  rb_challenge :: string
  rb_client_nonce :: string
  rb_server_nonce :: string
  rb_key :: string
  rb_profiles :: "string list"
  rb_interfaces :: string
  rb_capabilities :: "json list"

definition registerBody :: "register_params \<Rightarrow> json" where
  "registerBody b = JObj
     [(''v'', JNum 1), (''kind'', JStr ''register''), (''gateway'', JStr (rb_gateway b)),
      (''workspace'', JStr (rb_workspace b)), (''epoch'', JStr (rb_epoch b)), (''pair'', JStr (rb_pair b)),
      (''challenge'', JStr (rb_challenge b)), (''client_nonce'', JStr (rb_client_nonce b)),
      (''server_nonce'', JStr (rb_server_nonce b)), (''key'', JStr (rb_key b)),
      (''profiles'', JArr (map JStr (rb_profiles b))), (''interfaces'', JStr (rb_interfaces b)),
      (''capabilities'', JArr (rb_capabilities b))]"

definition verifyRegister :: "node_crypto \<Rightarrow> json \<Rightarrow> string \<Rightarrow> string \<Rightarrow> bool" where
  "verifyRegister nc body signature publicKey = verifyB64u nc PAIR_DOMAIN body signature publicKey"

record renew_params =
  nb_gateway :: string
  nb_workspace :: string
  nb_epoch :: string
  nb_peer :: string
  nb_refresh_hash :: string
  nb_challenge :: string
  nb_server_nonce :: string

definition renewBody :: "renew_params \<Rightarrow> json" where
  "renewBody b = JObj
     [(''v'', JNum 1), (''kind'', JStr ''renew''), (''gateway'', JStr (nb_gateway b)),
      (''workspace'', JStr (nb_workspace b)), (''epoch'', JStr (nb_epoch b)), (''peer'', JStr (nb_peer b)),
      (''refresh_hash'', JStr (nb_refresh_hash b)), (''challenge'', JStr (nb_challenge b)),
      (''server_nonce'', JStr (nb_server_nonce b))]"

definition verifyRenew :: "node_crypto \<Rightarrow> json \<Rightarrow> string \<Rightarrow> string \<Rightarrow> bool" where
  "verifyRenew nc body signature publicKey = verifyB64u nc RENEW_DOMAIN body signature publicKey"

record request_params =
  qb_gateway :: string
  qb_workspace :: string
  qb_epoch :: string
  qb_token_hash :: string
  qb_id :: string
  qb_method :: string
  qb_params_sha256 :: string
  qb_nonce :: string
  qb_issued_ms :: ordinal
  qb_expires_ms :: ordinal

fun ms_json :: "ordinal \<Rightarrow> json option" where
  "ms_json (OrdInt n) = (if is_safe n then Some (JNum n) else None)"
| "ms_json _ = None"

definition requestProofBody :: "request_params \<Rightarrow> crypto_error + json" where
  "requestProofBody b =
     (if \<not> isHash64 (JStr (qb_token_hash b)) \<or> \<not> isHash64 (JStr (qb_params_sha256 b))
      then Inl REQUEST_PROOF_INVALID
      else (case (ms_json (qb_issued_ms b), ms_json (qb_expires_ms b)) of
              (Some issued, Some expires) \<Rightarrow> Inr (JObj
                [(''v'', JNum 1), (''kind'', JStr ''request''), (''gateway'', JStr (qb_gateway b)),
                 (''workspace'', JStr (qb_workspace b)), (''epoch'', JStr (qb_epoch b)),
                 (''token_hash'', JStr (qb_token_hash b)), (''id'', JStr (qb_id b)),
                 (''method'', JStr (qb_method b)), (''params_sha256'', JStr (qb_params_sha256 b)),
                 (''nonce'', JStr (qb_nonce b)), (''issued_ms'', issued), (''expires_ms'', expires)])
            | _ \<Rightarrow> Inl REQUEST_PROOF_INVALID))"

definition verifyRequest :: "node_crypto \<Rightarrow> json \<Rightarrow> string \<Rightarrow> string \<Rightarrow> bool" where
  "verifyRequest nc body signature publicKey = verifyB64u nc REQUEST_DOMAIN body signature publicKey"

definition proposalHash :: "node_crypto \<Rightarrow> json \<Rightarrow> crypto_error + string" where
  "proposalHash nc params = andThen (canonicalJson params) (\<lambda>t. Inr (sha256Hex nc t))"

definition inviteCodeValid :: "json \<Rightarrow> bool" where
  "inviteCodeValid v = (case v of JStr s \<Rightarrow> rx_test PAIR_CODE_RE s | _ \<Rightarrow> False)"

subsection \<open>Lemmas\<close>

lemma hex_decode_encode [simp]: "hex_decode (hex_encode bs) = bs"
proof (induction bs)
  case (Cons b bs)
  have n: "(of_char b :: nat) div 16 < 16" "(of_char b :: nat) mod 16 < 16"
    by (simp_all add: less_mult_imp_div_less)
  have "char_of (16 * ((of_char b :: nat) div 16) + of_char b mod 16) = b" by simp
  with n Cons show ?case by (simp add: hex_encode_def hex_byte_def Let_def char_digit_char)
qed (simp add: hex_encode_def)

lemma utf8_ascii: "\<forall>c\<in>set s. (of_char c :: nat) < 128 \<Longrightarrow> utf8 s = s"
  by (induction s) (auto simp: utf8_def utf8_char_def Let_def)

lemma nul_separated: "a \<notin> set xs \<Longrightarrow> a \<notin> set ys \<Longrightarrow> xs @ a # us = ys @ a # vs \<longleftrightarrow> xs = ys \<and> us = vs"
proof (induction xs arbitrary: ys)
  case Nil
  then show ?case by (cases ys) auto
next
  case (Cons x xs)
  then show ?case by (cases ys) auto
qed

definition domain_ok :: "string \<Rightarrow> bool" where
  "domain_ok d \<longleftrightarrow> list_all (\<lambda>c. 0 < (of_char c :: nat) \<and> (of_char c :: nat) < 128) d"

lemma signed_message_inject:
  assumes "domain_ok d" "domain_ok e" "signed_message nc d s = signed_message nc e t"
  shows "d = e \<and> nc_sha256 nc (utf8 s) = nc_sha256 nc (utf8 t)"
proof -
  have plain: "CHR 0x00 \<notin> set x \<and> utf8 (x @ [CHR 0x00]) = x @ [CHR 0x00]" if "domain_ok x" for x
    using that by (auto simp: domain_ok_def list_all_iff intro!: utf8_ascii)
  have "d @ CHR 0x00 # nc_sha256 nc (utf8 s) = e @ CHR 0x00 # nc_sha256 nc (utf8 t)"
    using assms plain [of d] plain [of e] by (simp add: signed_message_def sha256Hex_def)
  then show ?thesis using nul_separated plain assms(1,2) by metis
qed

lemma domains_ok: "domain_ok PAIR_DOMAIN" "domain_ok RENEW_DOMAIN" "domain_ok REQUEST_DOMAIN"
  by code_simp+

lemma domains_distinct: "PAIR_DOMAIN \<noteq> RENEW_DOMAIN" "PAIR_DOMAIN \<noteq> REQUEST_DOMAIN" "RENEW_DOMAIN \<noteq> REQUEST_DOMAIN"
  by (simp_all add: PAIR_DOMAIN_def RENEW_DOMAIN_def REQUEST_DOMAIN_def)

text \<open>
  The message that is signed fixes the domain of the ceremony and the digest of the
  body: a pairing, a renewal and a request proof never sign the same bytes, and equal
  messages of one domain come from bodies of equal digest.
\<close>

theorem signed_messages_are_domain_separated:
  assumes "d \<in> {PAIR_DOMAIN, RENEW_DOMAIN, REQUEST_DOMAIN}" "e \<in> {PAIR_DOMAIN, RENEW_DOMAIN, REQUEST_DOMAIN}"
  shows "signed_message nc d s = signed_message nc e t \<longleftrightarrow>
     d = e \<and> nc_sha256 nc (utf8 s) = nc_sha256 nc (utf8 t)"
proof -
  have "domain_ok d" "domain_ok e" using assms domains_ok by auto
  then show ?thesis
    using signed_message_inject [of d e nc s t] by (auto simp: signed_message_def sha256Hex_def)
qed

theorem signed_messages_are_domain_separated_witness:
  "signed_message \<lparr>nc_sha256 = id, nc_public = \<lambda>_. True, nc_verify = \<lambda>_ _ _. True\<rparr> PAIR_DOMAIN ''{}'' \<noteq>
   signed_message \<lparr>nc_sha256 = id, nc_public = \<lambda>_. True, nc_verify = \<lambda>_ _ _. True\<rparr> RENEW_DOMAIN ''{}''"
  using signed_messages_are_domain_separated [of PAIR_DOMAIN RENEW_DOMAIN] domains_distinct by simp

end
