(* ===== verification/Record_Table.thy ===== *)
theory Record_Table
  imports Gateway_Prelude "HOL-Library.AList"
begin

text \<open>
  The tables of the in-memory stores: an ECMAScript \<open>Map\<close> from a record's id to the record,
  in insertion order.  \<open>Map.set\<close> replaces an entry in place or appends it, which is
  \<open>AList.update\<close>.  The locale \<open>record_table\<close> is the contract the services rely on; its
  lemmas describe the loops that update every row satisfying a condition.
\<close>

abbreviation aput :: "'k \<Rightarrow> 'v \<Rightarrow> ('k \<times> 'v) list \<Rightarrow> ('k \<times> 'v) list" where
  "aput \<equiv> AList.update"

definition arows :: "('k \<times> 'v) list \<Rightarrow> 'v list" where
  "arows xs = map snd xs"

text \<open>Every entry stands under its own record's id.\<close>

definition keyed :: "('v \<Rightarrow> 'k) \<Rightarrow> ('k \<times> 'v) list \<Rightarrow> bool" where
  "keyed key xs \<longleftrightarrow> distinct (map fst xs) \<and> list_all (\<lambda>(k, v). k = key v) xs"

lemma aget_aput [simp]: "map_of (aput k v xs) q = (if q = k then Some v else map_of xs q)"
  by (simp add: update_conv)

lemma aput_set: "set (aput k v xs) \<subseteq> insert (k, v) (set xs)"
  by (induction xs) auto

lemma keyed_empty [simp]: "keyed key []"
  by (simp add: keyed_def)

lemma keyed_aput: "keyed key xs \<Longrightarrow> keyed key (aput (key r) r xs)"
  using aput_set [of "key r" r xs] by (fastforce simp: keyed_def list_all_iff distinct_update)

lemma keyed_get: "keyed key xs \<Longrightarrow> map_of xs k = Some r \<Longrightarrow> key r = k"
  by (auto simp: keyed_def list_all_iff dest: map_of_SomeD)

lemma keyed_rows: "keyed key xs \<Longrightarrow> r \<in> set (arows xs) \<longleftrightarrow> map_of xs (key r) = Some r"
proof -
  assume k: "keyed key xs"
  then have "r \<in> set (arows xs) \<longleftrightarrow> (key r, r) \<in> set xs"
    by (force simp: keyed_def arows_def list_all_iff)
  with k show ?thesis by (simp add: keyed_def)
qed

lemma keyed_distinct: "keyed key xs \<Longrightarrow> distinct (map key (arows xs))"
proof -
  assume "keyed key xs"
  then have "map key (arows xs) = map fst xs" by (auto simp: keyed_def arows_def list_all_iff)
  then show ?thesis using \<open>keyed key xs\<close> by (simp add: keyed_def)
qed

text \<open>\<open>for (const r of rows) if (p r) { change r; update r }\<close>\<close>

definition update_where :: "('r \<Rightarrow> 's \<Rightarrow> 's) \<Rightarrow> ('r \<Rightarrow> bool) \<Rightarrow> ('r \<Rightarrow> 'r) \<Rightarrow> 'r list \<Rightarrow> 's \<Rightarrow> 's" where
  "update_where put p f rs s = fold (\<lambda>r t. if p r then put (f r) t else t) rs s"

locale record_table =
  fixes key :: "'r \<Rightarrow> 'k"
    and put :: "'r \<Rightarrow> 's \<Rightarrow> 's"
    and get :: "'k \<Rightarrow> 's \<Rightarrow> 'r option"
    and rows :: "'s \<Rightarrow> 'r list"
    and ok :: "'s \<Rightarrow> bool"
  assumes ok_put: "ok s \<Longrightarrow> ok (put r s)"
    and get_put: "get k (put r s) = (if k = key r then Some r else get k s)"
    and get_key: "ok s \<Longrightarrow> get k s = Some r \<Longrightarrow> key r = k"
    and rows_get: "ok s \<Longrightarrow> r \<in> set (rows s) \<longleftrightarrow> get (key r) s = Some r"
    and rows_distinct: "ok s \<Longrightarrow> distinct (map key (rows s))"
begin

lemma find_row: "ok s \<Longrightarrow> find p (rows s) = Some r \<Longrightarrow> p r \<and> get (key r) s = Some r"
  using rows_get by (metis find_Some_iff nth_mem)

lemma update_ok: "ok s \<Longrightarrow> ok (update_where put p f rs s)"
  unfolding update_where_def by (induction rs arbitrary: s) (auto intro: ok_put)

lemma update_other:
  "\<forall>r\<in>set rs. p r \<longrightarrow> key (f r) \<noteq> k \<Longrightarrow> get k (update_where put p f rs s) = get k s"
  unfolding update_where_def by (induction rs arbitrary: s) (auto simp: get_put)

lemma update_hit:
  assumes "\<And>r. key (f r) = key r" "distinct (map key rs)" "r \<in> set rs" "p r"
  shows "get (key r) (update_where put p f rs s) = Some (f r)"
  using assms(2,3)
proof (induction rs arbitrary: s)
  case (Cons x rs)
  have step: "update_where put p f (x # rs) s = update_where put p f rs (if p x then put (f x) s else s)"
    by (simp add: update_where_def)
  show ?case
  proof (cases "x = r")
    case True
    with Cons.prems have "\<forall>y\<in>set rs. p y \<longrightarrow> key (f y) \<noteq> key r" by (simp add: assms(1)) (metis image_eqI)
    with True assms(1,4) show ?thesis unfolding step by (simp add: update_other get_put)
  next
    case False
    with Cons show ?thesis unfolding step by simp
  qed
qed simp

text \<open>A loop over the rows in any order, row by row.\<close>

lemma update_get_rows:
  assumes "ok s" "\<And>r. key (f r) = key r" "distinct (map key rs)" "set rs \<subseteq> set (rows s)"
  shows "get k (update_where put p f rs s) = map_option (\<lambda>r. if r \<in> set rs \<and> p r then f r else r) (get k s)"
proof (cases "\<exists>r\<in>set rs. p r \<and> key r = k")
  case True
  then obtain r where r: "r \<in> set rs" "p r" "key r = k" by blast
  then have "get k s = Some r" using rows_get [OF assms(1)] assms(4) by auto
  moreover have "get (key r) (update_where put p f rs s) = Some (f r)"
    using r assms by (intro update_hit) auto
  ultimately show ?thesis using r by simp
next
  case False
  then have "get k (update_where put p f rs s) = get k s"
    by (intro update_other) (auto simp: assms(2))
  moreover have "\<not> (r \<in> set rs \<and> p r)" if "get k s = Some r" for r
    using False that get_key [OF assms(1) that] by auto
  ultimately show ?thesis by (cases "get k s") auto
qed

text \<open>The loop over the rows that satisfy \<open>q\<close>.\<close>

lemma update_get:
  assumes "ok s" "\<And>r. key (f r) = key r"
  shows "get k (update_where put p f (filter q (rows s)) s) =
    map_option (\<lambda>r. if q r \<and> p r then f r else r) (get k s)"
proof -
  have "r \<in> set (rows s)" if "get k s = Some r" for r
    using rows_get [OF assms(1), of r] get_key [OF assms(1) that] that by simp
  moreover have "distinct (map key (filter q (rows s)))"
    using rows_distinct [OF assms(1)] by (rule distinct_map_filter)
  ultimately show ?thesis
    using update_get_rows [OF assms, of "filter q (rows s)" k p] by (cases "get k s") auto
qed

end

text \<open>Maps in insertion order meet the contract.\<close>

lemma record_tableI:
  assumes put: "\<And>r s. sel (put r s) = aput (key r) r (sel s)" and get: "\<And>k s. get k s = map_of (sel s) k"
    and rows: "\<And>s. rows s = arows (sel s)" and keyed: "\<And>s. ok s \<Longrightarrow> keyed key (sel s)"
    and ok: "\<And>r s. ok s \<Longrightarrow> ok (put r s)"
  shows "record_table key put get rows ok"
proof
  fix k r s
  show "get k (put r s) = (if k = key r then Some r else get k s)" by (simp add: get put)
  assume s: "ok s"
  show "ok (put r s)" using s by (rule ok)
  show "key r = k" if "get k s = Some r" using keyed_get [OF keyed [OF s]] that by (simp add: get)
  show "r \<in> set (rows s) \<longleftrightarrow> get (key r) s = Some r" using keyed_rows [OF keyed [OF s]] by (simp add: get rows)
  show "distinct (map key (rows s))" using keyed_distinct [OF keyed [OF s]] by (simp add: rows)
qed

text \<open>A loop over one table leaves what its writes leave.\<close>

lemma update_where_frame: "(\<And>r s. h (put r s) = h s) \<Longrightarrow> h (update_where put p f rs s) = h s"
  unfolding update_where_def by (induction rs arbitrary: s) auto

text \<open>A property of every row after a loop, from the rows before it.\<close>

lemma after_loop:
  assumes "get' = map_option (\<lambda>r. if q r then f r else r) (get0 :: 'r option)" "get' = Some x"
    and "\<And>r. get0 = Some r \<Longrightarrow> q r \<Longrightarrow> P (f r)" "\<And>r. get0 = Some r \<Longrightarrow> \<not> q r \<Longrightarrow> P r"
  shows "P x"
  using assms by (cases get0) (auto split: if_splits)

section \<open>State machines\<close>

text \<open>
  The contract of a lifecycle table: \<open>succs st\<close> are the states an entity in \<open>st\<close> may move
  to and \<open>final st\<close> holds exactly of the states that it never leaves.
\<close>

locale lifecycle =
  fixes succs :: "'st \<Rightarrow> 'st list" and final :: "'st \<Rightarrow> bool"
  assumes final_succs: "final st \<longleftrightarrow> succs st = []"
begin

lemma final_stays: "(\<lambda>a b. b \<in> set (succs a))\<^sup>*\<^sup>* st st' \<Longrightarrow> final st \<Longrightarrow> st' = st"
  by (induction rule: converse_rtranclp_induct) (auto simp: final_succs)

end

end
