(* ===== verification/Peer_Ports.thy ===== *)
theory Peer_Ports
  imports Protocol Crypto_Text Record_Table
begin

text \<open>
  Model of \<open>packages/core/src/v2/peers/ports.ts\<close>: the durable records of the pairing
  ceremony, the id allocator, the entropy source and the in-memory store
  \<open>createMemoryPeerPorts\<close>.  The services mutate a record that the store holds and then
  write it back; an in-memory record is shared, so a change is a write to its table.
  The state also holds the rate limiter of \<open>service.ts\<close>.
\<close>

section \<open>Records\<close>

record key_material =
  km_id :: string
  km_public :: string

record approval_commitment =
  ac_proposal :: string
  ac_key :: string
  ac_scopes :: "scope list"

record pair_record =
  pr_pair :: string
  pr_code_hash :: string
  pr_role :: peer_role
  pr_scopes :: "scope list"
  pr_pinned_key :: "string option"
  pr_state :: pair_state
  pr_epoch :: string
  pr_attempts :: nat
  pr_proposal :: "string option"
  pr_proposal_key :: "string option"
  pr_proposal_key_material :: "key_material option"
  pr_proposal_profiles :: "string list option"
  pr_proposal_interfaces :: "string option"
  pr_proposal_capabilities :: "json list option"
  pr_approved :: "approval_commitment option"
  pr_created_ms :: int
  pr_expires_ms :: int

record challenge_record =
  ch_challenge :: string
  ch_key_id :: string
  ch_key_public :: string
  ch_client_nonce :: string
  ch_server_nonce :: string
  ch_audience :: string
  ch_epoch :: string
  ch_created_ms :: int
  ch_expires_ms :: int
  ch_consumed :: bool

record stored_peer = peer +
  sp_key_material :: key_material
  sp_epoch :: string
  sp_registered_ms :: int

datatype grant_state = GrantActive | GrantConsumed | GrantRevoked

record grant_record =
  gr_grant :: string
  gr_family :: string
  gr_peer :: string
  gr_instance :: string
  gr_workspace :: string
  gr_key_hash :: string
  gr_role :: peer_role
  gr_scopes :: "scope list"
  gr_grant_revision :: string
  gr_epoch :: string
  gr_access_hash :: string
  gr_refresh_hash :: string
  gr_access_expires_ms :: int
  gr_refresh_expires_ms :: int
  gr_state :: grant_state
  gr_created_ms :: int

record issued_tokens =
  it_access :: string
  it_refresh :: string
  it_expires_ms :: int

record renew_replay =
  rr_key :: string
  rr_request_id :: "string option"
  rr_result :: issued_tokens

datatype session_state = SessionOpen | SessionClosed

record session_record =
  se_session :: string
  se_peer :: string
  se_kind :: string
  se_state :: session_state
  se_opened_ms :: int
  se_cursor :: "string option"

datatype delivery_state = Queued | Dispatched | Dropped

record delivery_record =
  de_delivery :: string
  de_peer :: string
  de_topic :: string
  de_payload :: json
  de_queued_ms :: int
  de_state :: delivery_state

section \<open>Id allocation and entropy\<close>

text \<open>
  An allocator draws the next id of a kind: \<open>al_family\<close> is the counter the kind uses and
  \<open>al_id\<close> the id of a counter's n-th draw.  An entropy source is the sequence of its draws.
\<close>

record allocator =
  al_family :: "string \<Rightarrow> string"
  al_id :: "string \<Rightarrow> nat \<Rightarrow> string"

definition NAMED_PREFIXES :: "(string \<times> string) list" where
  "NAMED_PREFIXES =
     [(''pair'', ''pair''), (''challenge'', ''challenge''), (''peer'', ''peer''), (''source'', ''src''),
      (''grant'', ''grant''), (''family'', ''fam''), (''session'', ''sess''), (''delivery'', ''del''),
      (''approval'', ''approval'')]"

definition sequentialIds :: "(string \<times> string) list \<Rightarrow> allocator" where
  "sequentialIds overrides =
     \<lparr>al_family = (\<lambda>kind. case map_of (overrides @ NAMED_PREFIXES) kind of Some p \<Rightarrow> p | None \<Rightarrow> kind),
      al_id = (\<lambda>prefix n. prefix @ dec_str n)\<rparr>"

record entropy =
  en_token :: "nat \<Rightarrow> string"
  en_nonce :: "nat \<Rightarrow> string"
  en_pairCode :: "nat \<Rightarrow> string"

definition queued :: "string list \<Rightarrow> (nat \<Rightarrow> string) \<Rightarrow> nat \<Rightarrow> string" where
  "queued queue fallback n = (if n < length queue then queue ! n else fallback (n - length queue))"

definition queuedEntropy :: "string list \<Rightarrow> string list \<Rightarrow> string list \<Rightarrow> entropy \<Rightarrow> entropy" where
  "queuedEntropy tokens nonces codes fallback =
     \<lparr>en_token = queued tokens (en_token fallback), en_nonce = queued nonces (en_nonce fallback),
      en_pairCode = queued codes (en_pairCode fallback)\<rparr>"

section \<open>The store\<close>

record peer_ports =
  pp_now :: int
  pp_counters :: "(string \<times> nat) list"
  pp_tokens_drawn :: nat
  pp_nonces_drawn :: nat
  pp_codes_drawn :: nat
  pp_pairs :: "(string \<times> pair_record) list"
  pp_challenges :: "(string \<times> challenge_record) list"
  pp_peers :: "(string \<times> stored_peer) list"
  pp_sources :: "(string \<times> string) list"
  pp_grants :: "(string \<times> grant_record) list"
  pp_nonces :: "(string \<times> int) list"
  pp_renewReplays :: "(string \<times> renew_replay) list"
  pp_sessions :: "(string \<times> session_record) list"
  pp_deliveries :: "(string \<times> delivery_record) list"
  rl_perKey :: "(string \<times> int list) list"
  rl_instanceHits :: "int list"

definition createMemoryPeerPorts :: "int \<Rightarrow> peer_ports" where
  "createMemoryPeerPorts now =
     \<lparr>pp_now = now, pp_counters = [], pp_tokens_drawn = 0, pp_nonces_drawn = 0, pp_codes_drawn = 0,
      pp_pairs = [], pp_challenges = [], pp_peers = [], pp_sources = [], pp_grants = [], pp_nonces = [],
      pp_renewReplays = [], pp_sessions = [], pp_deliveries = [], rl_perKey = [], rl_instanceHits = []\<rparr>"

type_synonym 'a peer_op = "(peer_ports, thrown, 'a) op"

definition advance :: "int \<Rightarrow> unit peer_op" where
  "advance ms = modifyE (\<lambda>s. s\<lparr>pp_now := pp_now s + ms\<rparr>)"

definition drawn :: "string \<Rightarrow> peer_ports \<Rightarrow> nat" where
  "drawn fam s = (case map_of (pp_counters s) fam of None \<Rightarrow> 0 | Some n \<Rightarrow> n)"

definition newId :: "allocator \<Rightarrow> string \<Rightarrow> string peer_op" where
  "newId al kind =
     (\<lambda>s. let fam = al_family al kind; n = drawn fam s + 1 in
          (Inr (al_id al fam n), s\<lparr>pp_counters := aput fam n (pp_counters s)\<rparr>))"

definition draw_token :: "entropy \<Rightarrow> string peer_op" where
  "draw_token en = (\<lambda>s. (Inr (en_token en (pp_tokens_drawn s)), s\<lparr>pp_tokens_drawn := pp_tokens_drawn s + 1\<rparr>))"

definition draw_nonce :: "entropy \<Rightarrow> string peer_op" where
  "draw_nonce en = (\<lambda>s. (Inr (en_nonce en (pp_nonces_drawn s)), s\<lparr>pp_nonces_drawn := pp_nonces_drawn s + 1\<rparr>))"

definition draw_pairCode :: "entropy \<Rightarrow> string peer_op" where
  "draw_pairCode en = (\<lambda>s. (Inr (en_pairCode en (pp_codes_drawn s)), s\<lparr>pp_codes_drawn := pp_codes_drawn s + 1\<rparr>))"

subsection \<open>Tables\<close>

definition put_pair :: "pair_record \<Rightarrow> peer_ports \<Rightarrow> peer_ports" where
  "put_pair r s = s\<lparr>pp_pairs := aput (pr_pair r) r (pp_pairs s)\<rparr>"

definition get_pair :: "string \<Rightarrow> peer_ports \<Rightarrow> pair_record option" where
  "get_pair k s = map_of (pp_pairs s) k"

definition list_pairs :: "peer_ports \<Rightarrow> pair_record list" where
  "list_pairs s = arows (pp_pairs s)"

definition put_challenge :: "challenge_record \<Rightarrow> peer_ports \<Rightarrow> peer_ports" where
  "put_challenge r s = s\<lparr>pp_challenges := aput (ch_challenge r) r (pp_challenges s)\<rparr>"

definition get_challenge :: "string \<Rightarrow> peer_ports \<Rightarrow> challenge_record option" where
  "get_challenge k s = map_of (pp_challenges s) k"

definition put_peer :: "stored_peer \<Rightarrow> peer_ports \<Rightarrow> peer_ports" where
  "put_peer r s = s\<lparr>pp_peers := aput (p_id r) r (pp_peers s)\<rparr>"

definition get_peer :: "string \<Rightarrow> peer_ports \<Rightarrow> stored_peer option" where
  "get_peer k s = map_of (pp_peers s) k"

definition list_peers :: "peer_ports \<Rightarrow> stored_peer list" where
  "list_peers s = arows (pp_peers s)"

definition peerByKey :: "string \<Rightarrow> peer_ports \<Rightarrow> stored_peer option" where
  "peerByKey k s = find (\<lambda>p. p_key p = k) (list_peers s)"

definition sourceForKey :: "string \<Rightarrow> peer_ports \<Rightarrow> string option" where
  "sourceForKey k s = map_of (pp_sources s) k"

definition put_source :: "string \<Rightarrow> string \<Rightarrow> peer_ports \<Rightarrow> peer_ports" where
  "put_source k src s = s\<lparr>pp_sources := aput k src (pp_sources s)\<rparr>"

definition put_grant :: "grant_record \<Rightarrow> peer_ports \<Rightarrow> peer_ports" where
  "put_grant r s = s\<lparr>pp_grants := aput (gr_grant r) r (pp_grants s)\<rparr>"

definition get_grant :: "string \<Rightarrow> peer_ports \<Rightarrow> grant_record option" where
  "get_grant k s = map_of (pp_grants s) k"

definition list_grants :: "peer_ports \<Rightarrow> grant_record list" where
  "list_grants s = arows (pp_grants s)"

definition grantByAccessHash :: "string \<Rightarrow> peer_ports \<Rightarrow> grant_record option" where
  "grantByAccessHash h s = find (\<lambda>g. gr_access_hash g = h) (list_grants s)"

definition grantByRefreshHash :: "string \<Rightarrow> peer_ports \<Rightarrow> grant_record option" where
  "grantByRefreshHash h s = find (\<lambda>g. gr_refresh_hash g = h) (list_grants s)"

definition grantsByPeer :: "string \<Rightarrow> peer_ports \<Rightarrow> grant_record list" where
  "grantsByPeer p s = filter (\<lambda>g. gr_peer g = p) (list_grants s)"

definition grantsByFamily :: "string \<Rightarrow> peer_ports \<Rightarrow> grant_record list" where
  "grantsByFamily f s = filter (\<lambda>g. gr_family g = f) (list_grants s)"

definition hasNonce :: "string \<Rightarrow> string \<Rightarrow> peer_ports \<Rightarrow> bool" where
  "hasNonce h n s \<longleftrightarrow> map_of (pp_nonces s) (h @ '':'' @ n) \<noteq> None"

definition put_nonce :: "string \<Rightarrow> string \<Rightarrow> int \<Rightarrow> peer_ports \<Rightarrow> peer_ports" where
  "put_nonce h n expires s = s\<lparr>pp_nonces := aput (h @ '':'' @ n) expires (pp_nonces s)\<rparr>"

definition put_renewReplay :: "renew_replay \<Rightarrow> peer_ports \<Rightarrow> peer_ports" where
  "put_renewReplay r s = s\<lparr>pp_renewReplays := aput (rr_key r) r (pp_renewReplays s)\<rparr>"

definition getRenewReplay :: "string \<Rightarrow> peer_ports \<Rightarrow> renew_replay option" where
  "getRenewReplay k s = map_of (pp_renewReplays s) k"

definition put_session :: "session_record \<Rightarrow> peer_ports \<Rightarrow> peer_ports" where
  "put_session r s = s\<lparr>pp_sessions := aput (se_session r) r (pp_sessions s)\<rparr>"

definition get_session :: "string \<Rightarrow> peer_ports \<Rightarrow> session_record option" where
  "get_session k s = map_of (pp_sessions s) k"

definition list_sessions :: "peer_ports \<Rightarrow> session_record list" where
  "list_sessions s = arows (pp_sessions s)"

definition sessionsByPeer :: "string \<Rightarrow> peer_ports \<Rightarrow> session_record list" where
  "sessionsByPeer p s = filter (\<lambda>r. se_peer r = p) (list_sessions s)"

definition put_delivery :: "delivery_record \<Rightarrow> peer_ports \<Rightarrow> peer_ports" where
  "put_delivery r s = s\<lparr>pp_deliveries := aput (de_delivery r) r (pp_deliveries s)\<rparr>"

definition get_delivery :: "string \<Rightarrow> peer_ports \<Rightarrow> delivery_record option" where
  "get_delivery k s = map_of (pp_deliveries s) k"

definition list_deliveries :: "peer_ports \<Rightarrow> delivery_record list" where
  "list_deliveries s = arows (pp_deliveries s)"

definition deliveriesByPeer :: "string \<Rightarrow> peer_ports \<Rightarrow> delivery_record list" where
  "deliveriesByPeer p s = filter (\<lambda>r. de_peer r = p) (list_deliveries s)"

definition PAIR_LIVE_STATES :: "pair_state list" where
  "PAIR_LIVE_STATES = [CREATED, AWAITING_OPERATOR, APPROVED]"

section \<open>The tables meet their contract\<close>

definition ports_ok :: "peer_ports \<Rightarrow> bool" where
  "ports_ok s \<longleftrightarrow> keyed pr_pair (pp_pairs s) \<and> keyed ch_challenge (pp_challenges s) \<and>
     keyed p_id (pp_peers s) \<and> keyed gr_grant (pp_grants s) \<and> keyed se_session (pp_sessions s) \<and>
     keyed de_delivery (pp_deliveries s)"

lemmas table_defs = put_pair_def get_pair_def list_pairs_def put_challenge_def get_challenge_def
  put_peer_def get_peer_def list_peers_def put_grant_def get_grant_def list_grants_def
  put_session_def get_session_def list_sessions_def put_delivery_def get_delivery_def list_deliveries_def

lemma ports_ok_put_pair: "ports_ok s \<Longrightarrow> ports_ok (put_pair r s)"
  by (simp add: ports_ok_def put_pair_def keyed_aput)

lemma ports_ok_put_challenge: "ports_ok s \<Longrightarrow> ports_ok (put_challenge r s)"
  by (simp add: ports_ok_def put_challenge_def keyed_aput)

lemma ports_ok_put_peer: "ports_ok s \<Longrightarrow> ports_ok (put_peer r s)"
  by (simp add: ports_ok_def put_peer_def keyed_aput)

lemma ports_ok_put_grant: "ports_ok s \<Longrightarrow> ports_ok (put_grant r s)"
  by (simp add: ports_ok_def put_grant_def keyed_aput)

lemma ports_ok_put_session: "ports_ok s \<Longrightarrow> ports_ok (put_session r s)"
  by (simp add: ports_ok_def put_session_def keyed_aput)

lemma ports_ok_put_delivery: "ports_ok s \<Longrightarrow> ports_ok (put_delivery r s)"
  by (simp add: ports_ok_def put_delivery_def keyed_aput)

interpretation pairs: record_table pr_pair put_pair get_pair list_pairs ports_ok
  by (rule record_tableI [where sel = pp_pairs]) (simp_all add: table_defs ports_ok_def keyed_aput)

interpretation challenges: record_table ch_challenge put_challenge get_challenge "\<lambda>s. arows (pp_challenges s)" ports_ok
  by (rule record_tableI [where sel = pp_challenges]) (simp_all add: table_defs ports_ok_def keyed_aput)

interpretation peers: record_table p_id put_peer get_peer list_peers ports_ok
  by (rule record_tableI [where sel = pp_peers]) (simp_all add: table_defs ports_ok_def keyed_aput)

interpretation grants: record_table gr_grant put_grant get_grant list_grants ports_ok
  by (rule record_tableI [where sel = pp_grants]) (simp_all add: table_defs ports_ok_def keyed_aput)

interpretation sessions: record_table se_session put_session get_session list_sessions ports_ok
  by (rule record_tableI [where sel = pp_sessions]) (simp_all add: table_defs ports_ok_def keyed_aput)

interpretation deliveries: record_table de_delivery put_delivery get_delivery list_deliveries ports_ok
  by (rule record_tableI [where sel = pp_deliveries]) (simp_all add: table_defs ports_ok_def keyed_aput)

section \<open>The configuration of the agent service\<close>

text \<open>\<open>AgentServiceConfig\<close> of \<open>service.ts\<close> with its defaults filled in.\<close>

record agent_config =
  cf_crypto :: node_crypto
  cf_gateway :: string
  cf_workspace :: string
  cf_epoch :: string
  cf_profiles :: "string list"
  cf_interfaces :: string
  cf_allowOperator :: bool
  cf_policyScopes :: "scope list option"
  cf_accessTtlS :: int
  cf_refreshTtlS :: int
  cf_nativeMesh :: bool
  cf_ids :: allocator
  cf_entropy :: entropy

text \<open>\<open>rpc(code, message, field)\<close> of the peer modules.\<close>

abbreviation fail :: "error_code \<Rightarrow> string option \<Rightarrow> ('s, thrown, 'a) op" where
  "fail c fld \<equiv> throwE (RpcError c fld)"

section \<open>Fresh ids\<close>

text \<open>
  What the services rely on from the allocator: the draws of one counter are different.
  \<open>issued al fam i s\<close>: the id \<open>i\<close> was drawn from a counter before the state \<open>s\<close>.
\<close>

locale id_source =
  fixes al :: allocator
  assumes draws_differ: "al_id al fam m = al_id al fam n \<Longrightarrow> m = n"

definition issued :: "allocator \<Rightarrow> string \<Rightarrow> string \<Rightarrow> peer_ports \<Rightarrow> bool" where
  "issued al kind i s \<longleftrightarrow> (\<exists>n\<le>drawn (al_family al kind) s. i = al_id al (al_family al kind) n)"

lemma newId_apply: "newId al kind s =
   (Inr (al_id al (al_family al kind) (drawn (al_family al kind) s + 1)),
    s\<lparr>pp_counters := aput (al_family al kind) (drawn (al_family al kind) s + 1) (pp_counters s)\<rparr>)"
  by (simp add: newId_def Let_def)

lemma drawn_aput [simp]:
  "drawn f (s\<lparr>pp_counters := aput g n (pp_counters s)\<rparr>) = (if f = g then n else drawn f s)"
  by (simp add: drawn_def)

lemma issued_mono: "issued al kind i s \<Longrightarrow> drawn (al_family al kind) s \<le> drawn (al_family al kind) t \<Longrightarrow> issued al kind i t"
  unfolding issued_def using order_trans by blast

context id_source
begin

lemma fresh: "\<not> issued al kind (al_id al (al_family al kind) (drawn (al_family al kind) s + 1)) s"
  unfolding issued_def using draws_differ by fastforce

end

lemma sequential_distinct: "id_source (sequentialIds overrides)"
  by unfold_locales (simp add: sequentialIds_def)

interpretation sequential: id_source "sequentialIds []"
  by (rule sequential_distinct)

section \<open>Frames\<close>

text \<open>What a write to one table leaves of the others.\<close>

lemma put_frames [simp]:
  "get_peer k (put_pair a s) = get_peer k s" "get_peer k (put_challenge b s) = get_peer k s"
  "get_peer k (put_grant c s) = get_peer k s" "get_peer k (put_session d s) = get_peer k s"
  "get_peer k (put_delivery e s) = get_peer k s"
  "get_grant k (put_pair a s) = get_grant k s" "get_grant k (put_challenge b s) = get_grant k s"
  "get_grant k (put_peer f s) = get_grant k s" "get_grant k (put_session d s) = get_grant k s"
  "get_grant k (put_delivery e s) = get_grant k s"
  "get_session k (put_pair a s) = get_session k s" "get_session k (put_challenge b s) = get_session k s"
  "get_session k (put_peer f s) = get_session k s" "get_session k (put_grant c s) = get_session k s"
  "get_session k (put_delivery e s) = get_session k s"
  "get_delivery k (put_pair a s) = get_delivery k s" "get_delivery k (put_challenge b s) = get_delivery k s"
  "get_delivery k (put_peer f s) = get_delivery k s" "get_delivery k (put_grant c s) = get_delivery k s"
  "get_delivery k (put_session d s) = get_delivery k s"
  "get_pair k (put_peer f s) = get_pair k s" "get_pair k (put_challenge b s) = get_pair k s"
  "get_pair k (put_grant c s) = get_pair k s" "get_pair k (put_session d s) = get_pair k s"
  "get_pair k (put_delivery e s) = get_pair k s"
  "get_challenge k (put_peer f s) = get_challenge k s" "get_challenge k (put_pair a s) = get_challenge k s"
  "get_challenge k (put_grant c s) = get_challenge k s" "get_challenge k (put_session d s) = get_challenge k s"
  "get_challenge k (put_delivery e s) = get_challenge k s"
  by (simp_all add: table_defs)

lemma put_scalars [simp]:
  "pp_now (put_pair a s) = pp_now s" "pp_now (put_challenge b s) = pp_now s" "pp_now (put_peer f s) = pp_now s"
  "pp_now (put_grant c s) = pp_now s" "pp_now (put_session d s) = pp_now s" "pp_now (put_delivery e s) = pp_now s"
  "drawn m (put_pair a s) = drawn m s" "drawn m (put_challenge b s) = drawn m s" "drawn m (put_peer f s) = drawn m s"
  "drawn m (put_grant c s) = drawn m s" "drawn m (put_session d s) = drawn m s" "drawn m (put_delivery e s) = drawn m s"
  by (simp_all add: table_defs drawn_def)

lemma get_same [simp]:
  "get_pair k (put_pair a s) = (if k = pr_pair a then Some a else get_pair k s)"
  "get_challenge k (put_challenge b s) = (if k = ch_challenge b then Some b else get_challenge k s)"
  "get_peer k (put_peer f s) = (if k = p_id f then Some f else get_peer k s)"
  "get_grant k (put_grant c s) = (if k = gr_grant c then Some c else get_grant k s)"
  "get_session k (put_session d s) = (if k = se_session d then Some d else get_session k s)"
  "get_delivery k (put_delivery e s) = (if k = de_delivery e then Some e else get_delivery k s)"
  by (simp_all add: table_defs)

lemmas ports_ok_puts [simp] = ports_ok_put_pair ports_ok_put_challenge ports_ok_put_peer
  ports_ok_put_grant ports_ok_put_session ports_ok_put_delivery

text \<open>A draw, as the id and the state after it.\<close>

definition next_id :: "allocator \<Rightarrow> string \<Rightarrow> peer_ports \<Rightarrow> string" where
  "next_id al kind s = al_id al (al_family al kind) (drawn (al_family al kind) s + 1)"

definition drew :: "allocator \<Rightarrow> string \<Rightarrow> peer_ports \<Rightarrow> peer_ports" where
  "drew al kind s = s\<lparr>pp_counters := aput (al_family al kind) (drawn (al_family al kind) s + 1) (pp_counters s)\<rparr>"

lemma newId_drew: "newId al kind s = (Inr (next_id al kind s), drew al kind s)"
  by (simp add: newId_def next_id_def drew_def Let_def)

lemma drawn_drew: "drawn m s \<le> drawn m (drew al kind s)"
  by (simp add: drew_def)

lemma issued_drew: "issued al kind i s \<Longrightarrow> issued al kind i (drew al' kind' s)"
  by (erule issued_mono) (rule drawn_drew)

lemma issued_next: "issued al kind (next_id al kind s) (drew al kind s)"
  unfolding issued_def next_id_def drew_def by (intro exI [of _ "drawn (al_family al kind) s + 1"]) simp

context id_source
begin

lemma next_fresh: "\<not> issued al kind (next_id al kind s) s"
  unfolding next_id_def by (rule fresh)

end

text \<open>A field outside a table leaves the table.\<close>

lemma field_frames [simp]:
  "get_pair k (s\<lparr>pp_tokens_drawn := n\<rparr>) = get_pair k s" "get_challenge k (s\<lparr>pp_tokens_drawn := n\<rparr>) = get_challenge k s"
  "get_peer k (s\<lparr>pp_tokens_drawn := n\<rparr>) = get_peer k s" "get_grant k (s\<lparr>pp_tokens_drawn := n\<rparr>) = get_grant k s"
  "get_session k (s\<lparr>pp_tokens_drawn := n\<rparr>) = get_session k s" "ports_ok (s\<lparr>pp_tokens_drawn := n\<rparr>) = ports_ok s"
  "drawn m (s\<lparr>pp_tokens_drawn := n\<rparr>) = drawn m s" "issued al kind i (s\<lparr>pp_tokens_drawn := n\<rparr>) = issued al kind i s"
  "next_id al kind (s\<lparr>pp_tokens_drawn := n\<rparr>) = next_id al kind s"
  by (simp_all add: table_defs ports_ok_def drawn_def issued_def next_id_def)

lemma drew_frames [simp]:
  "get_pair k (drew al kind s) = get_pair k s" "get_challenge k (drew al kind s) = get_challenge k s"
  "get_peer k (drew al kind s) = get_peer k s" "get_grant k (drew al kind s) = get_grant k s"
  "get_session k (drew al kind s) = get_session k s" "ports_ok (drew al kind s) = ports_ok s"
  "pp_now (drew al kind s) = pp_now s"
  by (simp_all add: drew_def table_defs ports_ok_def)

lemma issued_puts [simp]:
  "issued al kind i (put_pair a s) = issued al kind i s" "issued al kind i (put_challenge b s) = issued al kind i s"
  "issued al kind i (put_peer f s) = issued al kind i s" "issued al kind i (put_grant c s) = issued al kind i s"
  "issued al kind i (put_session d s) = issued al kind i s" "issued al kind i (put_delivery e s) = issued al kind i s"
  by (simp_all add: issued_def)

lemma aux_frames [simp]:
  "get_pair k (put_source x y s) = get_pair k s" "get_challenge k (put_source x y s) = get_challenge k s"
  "get_peer k (put_source x y s) = get_peer k s" "get_grant k (put_source x y s) = get_grant k s"
  "get_session k (put_source x y s) = get_session k s" "ports_ok (put_source x y s) = ports_ok s"
  "drawn m (put_source x y s) = drawn m s" "issued al kind i (put_source x y s) = issued al kind i s"
  "get_pair k (put_renewReplay z s) = get_pair k s" "get_challenge k (put_renewReplay z s) = get_challenge k s"
  "get_peer k (put_renewReplay z s) = get_peer k s" "get_grant k (put_renewReplay z s) = get_grant k s"
  "get_session k (put_renewReplay z s) = get_session k s" "ports_ok (put_renewReplay z s) = ports_ok s"
  "drawn m (put_renewReplay z s) = drawn m s" "issued al kind i (put_renewReplay z s) = issued al kind i s"
  by (simp_all add: put_source_def put_renewReplay_def table_defs ports_ok_def drawn_def issued_def)

lemma ports_ok_create [simp]: "ports_ok (createMemoryPeerPorts n)"
  by (simp add: ports_ok_def createMemoryPeerPorts_def)

end
