(* ===== verification/Peer_Registry.thy ===== *)
theory Peer_Registry
  imports Peer_Ports
begin

text \<open>
  Model of \<open>packages/core/src/v2/peers/registry.ts\<close>: peer rows with their stable source
  ids, the peer state machine, revocation, and tracked sessions.
\<close>

section \<open>Operations\<close>

text \<open>\<open>(BigInt(rev) + 1n).toString()\<close>\<close>

definition bumpCount :: "string \<Rightarrow> string" where
  "bumpCount cnt = dec_str (dec_val cnt + 1)"

definition source_of :: "agent_config \<Rightarrow> string \<Rightarrow> string peer_op" where
  "source_of cf key =
     (\<lambda>s. case sourceForKey key s of
        Some src \<Rightarrow> (Inr src, s)
      | None \<Rightarrow> bindE (newId (cf_ids cf) ''source'')
                 (\<lambda>src. thenE (modifyE (put_source key src)) (returnE src)) s)"

definition registerPeer ::
  "agent_config \<Rightarrow> key_material \<Rightarrow> peer_role \<Rightarrow> scope list \<Rightarrow> capability list \<Rightarrow> stored_peer peer_op" where
  "registerPeer cf km rl scopes caps =
     bindE (source_of cf (km_id km)) (\<lambda>src.
     bindE (newId (cf_ids cf) ''peer'') (\<lambda>i.
     bindE (getsE pp_now) (\<lambda>now.
       let rec = \<lparr>p_id = i, p_source = src, p_key = km_id km, p_role = rl, p_scopes = scopes,
                  p_capabilities = caps, p_state = REGISTERED, p_grant_revision = ''1'',
                  sp_key_material = km, sp_epoch = cf_epoch cf, sp_registered_ms = now\<rparr> in
       thenE (modifyE (put_peer rec)) (returnE rec))))"

definition view :: "stored_peer \<Rightarrow> peer" where
  "view r = peer.truncate r"

definition getPeer :: "string \<Rightarrow> stored_peer peer_op" where
  "getPeer i =
     bindE (getsE (get_peer i)) (\<lambda>r. case r of None \<Rightarrow> fail NOT_FOUND (Some ''peer'') | Some p \<Rightarrow> returnE p)"

text \<open>\<open>findIndex\<close>\<close>

fun find_index :: "('a \<Rightarrow> bool) \<Rightarrow> 'a list \<Rightarrow> nat option" where
  "find_index p [] = None"
| "find_index p (x # xs) = (if p x then Some 0 else map_option Suc (find_index p xs))"

definition peers_in_order :: "peer_ports \<Rightarrow> stored_peer list" where
  "peers_in_order s = sort_key (\<lambda>p. (sp_registered_ms p, p_id p)) (list_peers s)"

definition listPeers :: "string option \<Rightarrow> json \<Rightarrow> (peer list \<times> string option) peer_op" where
  "listPeers after limit =
     (\<lambda>s. case limit of
        JNum l \<Rightarrow>
          if \<not> (is_safe l \<and> 1 \<le> l \<and> l \<le> 200) then fail SCHEMA_INVALID (Some ''limit'') s
          else (let rows = peers_in_order s;
                    page = (\<lambda>start. let items = map view (take (nat l) (drop start rows)) in
                      (Inr (items, if start + nat l < length rows then Some (p_id (last items)) else None), s)) in
                case after of
                  None \<Rightarrow> page 0
                | Some a \<Rightarrow> (case find_index (\<lambda>p. p_id p = a) rows of
                               None \<Rightarrow> fail CURSOR_GONE (Some ''after'') s
                             | Some i \<Rightarrow> page (i + 1)))
      | _ \<Rightarrow> fail SCHEMA_INVALID (Some ''limit'') s)"

fun peer_allowed :: "peer_state \<Rightarrow> peer_state list" where
  "peer_allowed REGISTERED = [CONNECTED, DISCONNECTED, REVOKED]"
| "peer_allowed CONNECTED = [DISCONNECTED, REVOKED]"
| "peer_allowed DISCONNECTED = [CONNECTED, REVOKED]"
| "peer_allowed REVOKED = []"

definition peer_transition :: "stored_peer \<Rightarrow> peer_state \<Rightarrow> stored_peer peer_op" where
  "peer_transition rec st =
     (if p_state rec = st then thenE (modifyE (put_peer rec)) (returnE rec)
      else thenE (assertE (st \<in> set (peer_allowed (p_state rec))) (RpcError STATE_TRANSITION (Some ''peer'')))
        (thenE (modifyE (put_peer (rec\<lparr>p_state := st\<rparr>))) (returnE (rec\<lparr>p_state := st\<rparr>))))"

definition markNativeConnected :: "string \<Rightarrow> peer peer_op" where
  "markNativeConnected i =
     bindE (getPeer i) (\<lambda>rec. bindE (peer_transition rec CONNECTED) (\<lambda>rec. returnE (view rec)))"

definition closeSessions :: "string \<Rightarrow> peer_ports \<Rightarrow> peer_ports" where
  "closeSessions i s =
     update_where put_session (\<lambda>r. se_state r = SessionOpen) (\<lambda>r. r\<lparr>se_state := SessionClosed\<rparr>)
       (sessionsByPeer i s) s"

definition dropDeliveries :: "string \<Rightarrow> peer_ports \<Rightarrow> peer_ports" where
  "dropDeliveries i s =
     update_where put_delivery (\<lambda>r. de_state r = Queued) (\<lambda>r. r\<lparr>de_state := Dropped\<rparr>)
       (deliveriesByPeer i s) s"

definition revokeGrants :: "string \<Rightarrow> peer_ports \<Rightarrow> peer_ports" where
  "revokeGrants i s =
     update_where put_grant (\<lambda>g. gr_state g = GrantActive) (\<lambda>g. g\<lparr>gr_state := GrantRevoked\<rparr>)
       (grantsByPeer i s) s"

definition revoke :: "string \<Rightarrow> (string \<times> string) peer_op" where
  "revoke i =
     bindE (getPeer i) (\<lambda>rec.
       if p_state rec \<noteq> REVOKED then
         (let rec' = rec\<lparr>p_state := REVOKED, p_grant_revision := bumpCount (p_grant_revision rec)\<rparr> in
          thenE (modifyE (put_peer rec'))
         (thenE (modifyE (revokeGrants (p_id rec)))
         (thenE (modifyE (closeSessions (p_id rec)))
         (thenE (modifyE (dropDeliveries (p_id rec)))
           (returnE (p_id rec, p_grant_revision rec'))))))
       else returnE (p_id rec, p_grant_revision rec))"

definition disconnect :: "string \<Rightarrow> string peer_op" where
  "disconnect i =
     bindE (getPeer i) (\<lambda>rec.
     bindE (peer_transition rec DISCONNECTED) (\<lambda>rec.
     thenE (modifyE (closeSessions (p_id rec))) (returnE (p_id rec))))"

definition openSession :: "agent_config \<Rightarrow> string \<Rightarrow> string \<Rightarrow> string option \<Rightarrow> session_record peer_op" where
  "openSession cf i kind cursor =
     bindE (getPeer i) (\<lambda>rec.
       if p_state rec = REVOKED then fail TOKEN_REVOKED None
       else bindE (newId (cf_ids cf) ''session'') (\<lambda>sid.
            bindE (getsE pp_now) (\<lambda>now.
              let se = \<lparr>se_session = sid, se_peer = p_id rec, se_kind = kind, se_state = SessionOpen,
                        se_opened_ms = now, se_cursor = cursor\<rparr> in
              thenE (modifyE (put_session se)) (returnE se))))"

definition resumeSession :: "string \<Rightarrow> session_record peer_op" where
  "resumeSession sid =
     (\<lambda>s. case get_session sid s of
        None \<Rightarrow> fail NOT_FOUND (Some ''session'') s
      | Some rec \<Rightarrow>
          (case get_peer (se_peer rec) s of
             None \<Rightarrow> fail TOKEN_REVOKED None s
           | Some p \<Rightarrow> if p_state p = REVOKED \<or> se_state rec = SessionClosed then fail TOKEN_REVOKED None s
                       else (Inr rec, s)))"

section \<open>Lemmas\<close>

lemma closeSessions_session:
  "ports_ok s \<Longrightarrow> get_session k (closeSessions i s) =
     map_option (\<lambda>r. if se_peer r = i \<and> se_state r = SessionOpen then r\<lparr>se_state := SessionClosed\<rparr> else r) (get_session k s)"
  by (simp add: closeSessions_def sessionsByPeer_def sessions.update_get)

lemma dropDeliveries_delivery:
  "ports_ok s \<Longrightarrow> get_delivery k (dropDeliveries i s) =
     map_option (\<lambda>r. if de_peer r = i \<and> de_state r = Queued then r\<lparr>de_state := Dropped\<rparr> else r) (get_delivery k s)"
  by (simp add: dropDeliveries_def deliveriesByPeer_def deliveries.update_get)

lemma revokeGrants_grant:
  "ports_ok s \<Longrightarrow> get_grant k (revokeGrants i s) =
     map_option (\<lambda>g. if gr_peer g = i \<and> gr_state g = GrantActive then g\<lparr>gr_state := GrantRevoked\<rparr> else g) (get_grant k s)"
  by (simp add: revokeGrants_def grantsByPeer_def grants.update_get)

lemma loops_ok [simp]:
  "ports_ok s \<Longrightarrow> ports_ok (closeSessions i s)" "ports_ok s \<Longrightarrow> ports_ok (dropDeliveries i s)"
  "ports_ok s \<Longrightarrow> ports_ok (revokeGrants i s)"
  by (simp_all add: closeSessions_def dropDeliveries_def revokeGrants_def sessions.update_ok
      deliveries.update_ok grants.update_ok)

lemma loop_frames [simp]:
  "get_peer k (closeSessions i s) = get_peer k s" "get_peer k (dropDeliveries i s) = get_peer k s"
  "get_peer k (revokeGrants i s) = get_peer k s"
  "get_grant k (closeSessions i s) = get_grant k s" "get_grant k (dropDeliveries i s) = get_grant k s"
  "get_session k (dropDeliveries i s) = get_session k s" "get_session k (revokeGrants i s) = get_session k s"
  "get_delivery k (closeSessions i s) = get_delivery k s" "get_delivery k (revokeGrants i s) = get_delivery k s"
  "get_pair k (closeSessions i s) = get_pair k s" "get_pair k (dropDeliveries i s) = get_pair k s"
  "get_pair k (revokeGrants i s) = get_pair k s"
  "drawn m (closeSessions i s) = drawn m s" "drawn m (dropDeliveries i s) = drawn m s"
  "drawn m (revokeGrants i s) = drawn m s"
  by (simp_all add: closeSessions_def dropDeliveries_def revokeGrants_def update_where_frame)

lemma getPeer_apply: "getPeer i s = (case get_peer i s of None \<Rightarrow> (Inl (RpcError NOT_FOUND (Some ''peer'')), s) | Some p \<Rightarrow> (Inr p, s))"
  by (simp add: getPeer_def op_simps split: option.split)

lemma get_peer_id: "ports_ok s \<Longrightarrow> get_peer i s = Some p \<Longrightarrow> p_id p = i"
  using peers.get_key by blast

definition revoked_store :: "stored_peer \<Rightarrow> peer_ports \<Rightarrow> peer_ports" where
  "revoked_store p s = dropDeliveries (p_id p) (closeSessions (p_id p) (revokeGrants (p_id p)
     (put_peer (p\<lparr>p_state := REVOKED, p_grant_revision := bumpCount (p_grant_revision p)\<rparr>) s)))"

lemma revoke_apply:
  "revoke i s = (case get_peer i s of
     None \<Rightarrow> (Inl (RpcError NOT_FOUND (Some ''peer'')), s)
   | Some p \<Rightarrow> if p_state p = REVOKED then (Inr (p_id p, p_grant_revision p), s)
       else (Inr (p_id p, bumpCount (p_grant_revision p)), revoked_store p s))"
  by (simp add: revoke_def op_simps getPeer_apply revoked_store_def Let_def split: option.split)

text \<open>The store without the four tables that a revocation writes.\<close>

definition beside_revocation :: "peer_ports \<Rightarrow> peer_ports" where
  "beside_revocation s = s\<lparr>pp_peers := [], pp_grants := [], pp_sessions := [], pp_deliveries := []\<rparr>"

lemma beside_writes:
  "beside_revocation (put_peer p s) = beside_revocation s" "beside_revocation (put_grant g s) = beside_revocation s"
  "beside_revocation (put_session r s) = beside_revocation s" "beside_revocation (put_delivery d s) = beside_revocation s"
  by (simp_all add: beside_revocation_def put_peer_def put_grant_def put_session_def put_delivery_def)

lemma beside_revoked: "beside_revocation (revoked_store p s) = beside_revocation s"
  by (simp add: revoked_store_def revokeGrants_def closeSessions_def dropDeliveries_def beside_writes
      update_where_frame [where h = beside_revocation])

lemma revoked_store_frame:
  "revoked_store p s = s\<lparr>pp_peers := pp_peers (revoked_store p s), pp_grants := pp_grants (revoked_store p s),
     pp_sessions := pp_sessions (revoked_store p s), pp_deliveries := pp_deliveries (revoked_store p s)\<rparr>"
  using beside_revoked [of p s] by (cases s, cases "revoked_store p s") (simp add: beside_revocation_def)

text \<open>
  C18.  Revoking an enrolled peer succeeds and leaves nothing of its authority: the peer is REVOKED under the next grant
  revision, each of its active grants is revoked, each of its open sessions closed and each of its queued deliveries
  dropped.  Everything else is as it was: its other grants, sessions and deliveries, every row, grant, session and
  delivery of another peer, and all the other tables of the store.
\<close>

theorem revoke_withdraws_all_authority:
  assumes "ports_ok s" "get_peer i s = Some p" "p_state p \<noteq> REVOKED"
  shows "\<exists>t. revoke i s = (Inr (i, bumpCount (p_grant_revision p)), t) \<and>
    (\<forall>k. get_peer k t = (if k = i then Some (p\<lparr>p_state := REVOKED, p_grant_revision := bumpCount (p_grant_revision p)\<rparr>) else get_peer k s)) \<and>
    (\<forall>k. get_grant k t = map_option (\<lambda>g. if gr_peer g = i \<and> gr_state g = GrantActive then g\<lparr>gr_state := GrantRevoked\<rparr> else g) (get_grant k s)) \<and>
    (\<forall>k. get_session k t = map_option (\<lambda>r. if se_peer r = i \<and> se_state r = SessionOpen then r\<lparr>se_state := SessionClosed\<rparr> else r) (get_session k s)) \<and>
    (\<forall>k. get_delivery k t = map_option (\<lambda>r. if de_peer r = i \<and> de_state r = Queued then r\<lparr>de_state := Dropped\<rparr> else r) (get_delivery k s)) \<and>
    t = s\<lparr>pp_peers := pp_peers t, pp_grants := pp_grants t, pp_sessions := pp_sessions t, pp_deliveries := pp_deliveries t\<rparr>"
proof (intro exI [of _ "revoked_store p s"] conjI allI)
  have i: "p_id p = i" using assms by (intro get_peer_id)
  show "revoke i s = (Inr (i, bumpCount (p_grant_revision p)), revoked_store p s)"
    using assms by (simp add: revoke_apply i)
  show "get_peer k (revoked_store p s) = (if k = i then Some (p\<lparr>p_state := REVOKED, p_grant_revision := bumpCount (p_grant_revision p)\<rparr>)
      else get_peer k s)" for k
    by (simp add: revoked_store_def i)
  show "get_grant k (revoked_store p s) =
      map_option (\<lambda>g. if gr_peer g = i \<and> gr_state g = GrantActive then g\<lparr>gr_state := GrantRevoked\<rparr> else g) (get_grant k s)" for k
    using assms(1) by (simp add: revoked_store_def i revokeGrants_grant)
  show "get_session k (revoked_store p s) =
      map_option (\<lambda>r. if se_peer r = i \<and> se_state r = SessionOpen then r\<lparr>se_state := SessionClosed\<rparr> else r) (get_session k s)" for k
    using assms(1) by (simp add: revoked_store_def i closeSessions_session)
  show "get_delivery k (revoked_store p s) =
      map_option (\<lambda>r. if de_peer r = i \<and> de_state r = Queued then r\<lparr>de_state := Dropped\<rparr> else r) (get_delivery k s)" for k
    using assms(1) by (simp add: revoked_store_def i dropDeliveries_delivery)
  show "revoked_store p s = s\<lparr>pp_peers := pp_peers (revoked_store p s), pp_grants := pp_grants (revoked_store p s),
      pp_sessions := pp_sessions (revoked_store p s), pp_deliveries := pp_deliveries (revoked_store p s)\<rparr>"
    by (rule revoked_store_frame)
qed

definition sample_peer :: stored_peer where
  "sample_peer = \<lparr>p_id = ''peer1'', p_source = ''src1'', p_key = ''k'', p_role = AgentRole, p_scopes = [],
     p_capabilities = [], p_state = CONNECTED, p_grant_revision = ''1'',
     sp_key_material = \<lparr>km_id = ''k'', km_public = ''p''\<rparr>, sp_epoch = ''1'', sp_registered_ms = 0\<rparr>"

theorem revoke_withdraws_all_authority_witness:
  "\<exists>t. revoke ''peer1'' (put_peer sample_peer (createMemoryPeerPorts 0)) = (Inr (''peer1'', bumpCount ''1''), t) \<and>
     get_peer ''peer1'' t = Some (sample_peer\<lparr>p_state := REVOKED, p_grant_revision := bumpCount ''1''\<rparr>)"
proof -
  have "ports_ok (put_peer sample_peer (createMemoryPeerPorts 0))"
    by simp
  moreover have "get_peer ''peer1'' (put_peer sample_peer (createMemoryPeerPorts 0)) = Some sample_peer" "p_state sample_peer \<noteq> REVOKED"
    "p_grant_revision sample_peer = ''1''" by (simp_all add: sample_peer_def)
  ultimately obtain t where t: "revoke ''peer1'' (put_peer sample_peer (createMemoryPeerPorts 0)) = (Inr (''peer1'', bumpCount ''1''), t)"
    "\<forall>k. get_peer k t = (if k = ''peer1'' then Some (sample_peer\<lparr>p_state := REVOKED, p_grant_revision := bumpCount ''1''\<rparr>)
       else get_peer k (put_peer sample_peer (createMemoryPeerPorts 0)))"
    using revoke_withdraws_all_authority [of "put_peer sample_peer (createMemoryPeerPorts 0)" "''peer1''" sample_peer] by auto
  then show ?thesis by (intro exI [of _ t]) simp
qed

subsection \<open>Paging\<close>

text \<open>A client that follows the cursors of \<open>agent.list\<close>, for at most \<open>n\<close> calls.\<close>

fun page_walk :: "nat \<Rightarrow> string option \<Rightarrow> int \<Rightarrow> peer_ports \<Rightarrow> peer list option" where
  "page_walk 0 after l s = None"
| "page_walk (Suc n) after l s =
     (case fst (listPeers after (JNum l) s) of
        Inl _ \<Rightarrow> None
      | Inr (items, None) \<Rightarrow> Some items
      | Inr (items, Some a) \<Rightarrow> map_option (append items) (page_walk n (Some a) l s))"

lemma find_index_distinct:
  "distinct (map f xs) \<Longrightarrow> i < length xs \<Longrightarrow> find_index (\<lambda>p. f p = f (xs ! i)) xs = Some i"
proof (induction xs arbitrary: i)
  case (Cons x xs)
  show ?case
  proof (cases i)
    case (Suc j)
    with Cons.prems have "f (xs ! j) \<in> f ` set xs" by simp
    with Cons.prems have "f x \<noteq> f (xs ! j)" by auto
    with Cons Suc show ?thesis by simp
  qed simp
qed simp

lemma peers_in_order_distinct: "ports_ok s \<Longrightarrow> distinct (map p_id (peers_in_order s))"
proof -
  assume "ports_ok s"
  then have "distinct (map p_id (list_peers s))" by (rule peers.rows_distinct)
  then show ?thesis
    unfolding peers_in_order_def distinct_map by (simp add: inj_on_def)
qed

definition page_start :: "string option \<Rightarrow> stored_peer list \<Rightarrow> nat" where
  "page_start after rows = (case after of None \<Rightarrow> 0 | Some a \<Rightarrow> the (find_index (\<lambda>p. p_id p = a) rows) + 1)"

lemma listPeers_page:
  assumes "1 \<le> l" "l \<le> 200" "after = None \<or> after = Some (p_id (peers_in_order s ! i)) \<and> i < length (peers_in_order s)"
    "ports_ok s"
  shows "listPeers after (JNum l) s =
     (let st = (case after of None \<Rightarrow> 0 | Some _ \<Rightarrow> i + 1); rows = peers_in_order s;
          items = map view (take (nat l) (drop st rows)) in
      (Inr (items, if st + nat l < length rows then Some (p_id (last items)) else None), s))"
  using assms find_index_distinct [OF peers_in_order_distinct [OF assms(4)], of i]
  by (auto simp: listPeers_def is_safe_def MAX_SAFE_def Let_def)

lemma page_walk_from:
  assumes "1 \<le> l" "l \<le> 200" "ports_ok s"
  shows "after = None \<or> after = Some (p_id (peers_in_order s ! i)) \<and> i < length (peers_in_order s) \<Longrightarrow>
    length (peers_in_order s) - (case after of None \<Rightarrow> 0 | Some _ \<Rightarrow> i + 1) < n \<Longrightarrow>
    page_walk n after l s =
      Some (map view (drop (case after of None \<Rightarrow> 0 | Some _ \<Rightarrow> i + 1) (peers_in_order s)))"
proof (induction n arbitrary: after i)
  case (Suc n)
  define rows where "rows = peers_in_order s"
  define st where "st = (case after of None \<Rightarrow> 0 | Some _ \<Rightarrow> i + 1)"
  define items where "items = map view (take (nat l) (drop st rows))"
  have page: "fst (listPeers after (JNum l) s) =
      Inr (items, if st + nat l < length rows then Some (p_id (last items)) else None)"
    using listPeers_page [OF assms(1,2) Suc.prems(1) assms(3)] by (simp add: rows_def st_def items_def Let_def)
  show ?case
  proof (cases "st + nat l < length rows")
    case True
    have "last (take (nat l) (drop st rows)) = rows ! (st + nat l - 1)"
      using True assms(1) by (subst last_conv_nth) (auto simp: add.commute)
    then have "p_id (last items) = p_id (rows ! (st + nat l - 1))"
      using True assms(1) by (simp add: items_def last_map view_def peer.defs)
    moreover have "page_walk n (Some (p_id (rows ! (st + nat l - 1)))) l s =
        Some (map view (drop (st + nat l - 1 + 1) rows))"
      using Suc.IH [of "Some (p_id (rows ! (st + nat l - 1)))" "st + nat l - 1"] Suc.prems(2) True assms(1)
      by (simp add: rows_def [symmetric] st_def [symmetric])
    moreover have "drop st rows = take (nat l) (drop st rows) @ drop (st + nat l) rows"
      by (metis append_take_drop_id drop_drop add.commute)
    ultimately show ?thesis
      using True assms(1) page unfolding rows_def [symmetric] st_def [symmetric]
      by (simp add: items_def flip: map_append)
  next
    case False
    then have "take (nat l) (drop st rows) = drop st rows" by simp
    with False page show ?thesis unfolding rows_def [symmetric] st_def [symmetric]
      by (simp add: items_def)
  qed
qed simp

text \<open>
  Following the cursors of \<open>agent.list\<close> from the start, with any page size from 1 to
  200, returns every peer exactly once, in registration order, within one more call than
  there are peers.
\<close>

theorem list_pages_cover_all_peers:
  assumes "ports_ok s" "1 \<le> l" "l \<le> 200"
  shows "page_walk (length (list_peers s) + 1) None l s = Some (map view (peers_in_order s)) \<and>
    set (peers_in_order s) = set (list_peers s) \<and> distinct (map p_id (peers_in_order s))"
  using page_walk_from [OF assms(2,3,1), of None 0 "length (list_peers s) + 1"] peers_in_order_distinct [OF assms(1)]
  by (simp add: peers_in_order_def)

theorem list_pages_cover_all_peers_witness:
  "page_walk 3 None 1 (put_peer (sample_peer\<lparr>p_id := ''peer2''\<rparr>) (put_peer sample_peer (createMemoryPeerPorts 0))) =
     Some (map view [sample_peer, sample_peer\<lparr>p_id := ''peer2''\<rparr>])"
proof -
  let ?s = "put_peer (sample_peer\<lparr>p_id := ''peer2''\<rparr>) (put_peer sample_peer (createMemoryPeerPorts 0))"
  have "ports_ok ?s" by simp
  moreover have "list_peers ?s = [sample_peer, sample_peer\<lparr>p_id := ''peer2''\<rparr>]"
    by (simp add: list_peers_def arows_def put_peer_def createMemoryPeerPorts_def sample_peer_def)
  moreover have "peers_in_order ?s = [sample_peer, sample_peer\<lparr>p_id := ''peer2''\<rparr>]"
    unfolding peers_in_order_def calculation(2) by (simp add: sample_peer_def)
  ultimately show ?thesis using list_pages_cover_all_peers [of ?s 1]
    by (simp add: numeral_3_eq_3 del: page_walk.simps)
qed

end
