(* ===== verification/Peer_Tokens.thy ===== *)
theory Peer_Tokens
  imports Peer_Registry
begin

text \<open>
  Model of \<open>packages/core/src/v2/peers/tokens.ts\<close>: issuing a grant with its token pair,
  authenticating an access token, rotating a refresh token, and revoking a family.
\<close>

section \<open>Operations\<close>

definition issue :: "agent_config \<Rightarrow> stored_peer \<Rightarrow> string option \<Rightarrow> issued_tokens peer_op" where
  "issue cf p fam =
     bindE (getsE pp_now) (\<lambda>now.
     bindE (draw_token (cf_entropy cf)) (\<lambda>access.
     bindE (draw_token (cf_entropy cf)) (\<lambda>refresh.
     bindE (newId (cf_ids cf) ''grant'') (\<lambda>gid.
     bindE (case fam of Some f \<Rightarrow> returnE f | None \<Rightarrow> newId (cf_ids cf) ''family'') (\<lambda>f.
       let rec = \<lparr>gr_grant = gid, gr_family = f, gr_peer = p_id p, gr_instance = cf_gateway cf,
                  gr_workspace = cf_workspace cf, gr_key_hash = p_key p, gr_role = p_role p,
                  gr_scopes = p_scopes p, gr_grant_revision = p_grant_revision p, gr_epoch = cf_epoch cf,
                  gr_access_hash = sha256Hex (cf_crypto cf) access,
                  gr_refresh_hash = sha256Hex (cf_crypto cf) refresh,
                  gr_access_expires_ms = now + cf_accessTtlS cf * 1000,
                  gr_refresh_expires_ms = now + cf_refreshTtlS cf * 1000,
                  gr_state = GrantActive, gr_created_ms = now\<rparr> in
       thenE (modifyE (put_grant rec))
         (returnE \<lparr>it_access = access, it_refresh = refresh, it_expires_ms = gr_access_expires_ms rec\<rparr>))))))"

definition verifyAccess :: "agent_config \<Rightarrow> string \<Rightarrow> peer_ports \<Rightarrow> thrown + grant_record \<times> stored_peer" where
  "verifyAccess cf access s =
     (case grantByAccessHash (sha256Hex (cf_crypto cf) access) s of
        None \<Rightarrow> Inl (RpcError AUTH_REQUIRED None)
      | Some g \<Rightarrow>
          if gr_state g \<noteq> GrantActive then Inl (RpcError TOKEN_REVOKED None)
          else (case get_peer (gr_peer g) s of
                  None \<Rightarrow> Inl (RpcError AUTH_REQUIRED None)
                | Some p \<Rightarrow>
                    if p_state p = REVOKED \<or> gr_grant_revision g \<noteq> p_grant_revision p
                    then Inl (RpcError TOKEN_REVOKED None)
                    else if gr_epoch g \<noteq> cf_epoch cf then Inl (RpcError TOKEN_EXPIRED None)
                    else if pp_now s \<ge> gr_access_expires_ms g then Inl (RpcError TOKEN_EXPIRED None)
                    else Inr (g, p)))"

text \<open>\<open>RenewParams\<close> of \<open>services.ts\<close> with the envelope id; an absent id is \<open>None\<close>.\<close>

record renew_call =
  rn_peer :: string
  rn_refresh :: string
  rn_challenge :: string
  rn_server_nonce :: string
  rn_epoch :: string
  rn_proof :: string
  rn_request_id :: "string option"

definition verifyRenewProof :: "agent_config \<Rightarrow> renew_call \<Rightarrow> grant_record \<Rightarrow> stored_peer \<Rightarrow> bool" where
  "verifyRenewProof cf c g p =
     verifyRenew (cf_crypto cf)
       (renewBody \<lparr>nb_gateway = cf_gateway cf, nb_workspace = cf_workspace cf, nb_epoch = rn_epoch c,
          nb_peer = rn_peer c, nb_refresh_hash = gr_refresh_hash g, nb_challenge = rn_challenge c,
          nb_server_nonce = rn_server_nonce c\<rparr>)
       (rn_proof c) (km_public (sp_key_material p))"

definition revokeFamily :: "string \<Rightarrow> peer_ports \<Rightarrow> peer_ports" where
  "revokeFamily fam s =
     update_where put_grant (\<lambda>g. gr_state g \<noteq> GrantRevoked) (\<lambda>g. g\<lparr>gr_state := GrantRevoked\<rparr>)
       (grantsByFamily fam s) s"

definition replay_key :: "grant_record \<Rightarrow> string \<Rightarrow> string" where
  "replay_key g h = gr_peer g @ '':'' @ h"

text \<open>The branch of a consumed grant: replay the saved result or revoke the family.\<close>

definition renew_consumed :: "agent_config \<Rightarrow> renew_call \<Rightarrow> string \<Rightarrow> grant_record \<Rightarrow> stored_peer \<Rightarrow> issued_tokens peer_op" where
  "renew_consumed cf c h g p =
     (\<lambda>s. if \<not> verifyRenewProof cf c g p then fail AUTH_REQUIRED (Some ''proof'') s
       else (case getRenewReplay (replay_key g h) s of
               Some rr \<Rightarrow>
                 if rn_request_id c \<noteq> None \<and> rr_request_id rr = rn_request_id c then (Inr (rr_result rr), s)
                 else thenE (modifyE (revokeFamily (gr_family g))) (fail TOKEN_REVOKED None) s
             | None \<Rightarrow> thenE (modifyE (revokeFamily (gr_family g))) (fail TOKEN_REVOKED None) s))"

text \<open>The commit of a successful renewal.\<close>

definition rotate_grant ::
  "agent_config \<Rightarrow> renew_call \<Rightarrow> string \<Rightarrow> grant_record \<Rightarrow> stored_peer \<Rightarrow> challenge_record \<Rightarrow> issued_tokens peer_op" where
  "rotate_grant cf c h g p ch =
     thenE (modifyE (put_challenge (ch\<lparr>ch_consumed := True\<rparr>)))
    (thenE (modifyE (put_grant (g\<lparr>gr_state := GrantConsumed\<rparr>)))
    (bindE (issue cf p (Some (gr_family g))) (\<lambda>out.
     thenE (modifyE (put_renewReplay \<lparr>rr_key = replay_key g h, rr_request_id = rn_request_id c, rr_result = out\<rparr>))
       (returnE out))))"

definition renew_challenge :: "agent_config \<Rightarrow> renew_call \<Rightarrow> stored_peer \<Rightarrow> peer_ports \<Rightarrow> thrown + challenge_record" where
  "renew_challenge cf c p s =
     (case get_challenge (rn_challenge c) s of
        None \<Rightarrow> Inl (RpcError AUTH_REQUIRED (Some ''challenge''))
      | Some ch \<Rightarrow>
          if ch_epoch ch \<noteq> cf_epoch cf \<or> ch_consumed ch \<or> pp_now s \<ge> ch_expires_ms ch \<or>
             ch_server_nonce ch \<noteq> rn_server_nonce c \<or> ch_key_id ch \<noteq> p_key p
          then Inl (RpcError AUTH_REQUIRED (Some ''challenge'')) else Inr ch)"

definition renew_active :: "agent_config \<Rightarrow> renew_call \<Rightarrow> string \<Rightarrow> grant_record \<Rightarrow> stored_peer \<Rightarrow> issued_tokens peer_op" where
  "renew_active cf c h g p =
     (\<lambda>s. if gr_state g = GrantRevoked then fail TOKEN_REVOKED None s
       else if gr_grant_revision g \<noteq> p_grant_revision p then fail TOKEN_REVOKED None s
       else if pp_now s \<ge> gr_refresh_expires_ms g then fail TOKEN_EXPIRED None s
       else (case renew_challenge cf c p s of
               Inl e \<Rightarrow> throwE e s
             | Inr ch \<Rightarrow>
                 if \<not> verifyRenewProof cf c g p then fail AUTH_REQUIRED (Some ''proof'') s
                 else rotate_grant cf c h g p ch s))"

definition renew :: "agent_config \<Rightarrow> renew_call \<Rightarrow> issued_tokens peer_op" where
  "renew cf c =
     (\<lambda>s. let h = sha256Hex (cf_crypto cf) (rn_refresh c) in
       case grantByRefreshHash h s of
         None \<Rightarrow> fail AUTH_REQUIRED None s
       | Some g \<Rightarrow>
           if gr_peer g \<noteq> rn_peer c then fail AUTH_REQUIRED (Some ''peer'') s
           else (case get_peer (gr_peer g) s of
                   None \<Rightarrow> fail AUTH_REQUIRED None s
                 | Some p \<Rightarrow>
                     if p_state p = REVOKED then fail TOKEN_REVOKED None s
                     else if rn_epoch c \<noteq> cf_epoch cf \<or> gr_epoch g \<noteq> cf_epoch cf
                     then fail AUTH_REQUIRED (Some ''epoch'') s
                     else if gr_state g = GrantConsumed then renew_consumed cf c h g p s
                     else renew_active cf c h g p s))"

section \<open>Lemmas\<close>

lemma revokeFamily_grant:
  "ports_ok s \<Longrightarrow> get_grant k (revokeFamily f s) =
     map_option (\<lambda>g. if gr_family g = f \<and> gr_state g \<noteq> GrantRevoked then g\<lparr>gr_state := GrantRevoked\<rparr> else g) (get_grant k s)"
  by (simp add: revokeFamily_def grantsByFamily_def grants.update_get)

lemma revokeFamily_frames [simp]:
  "ports_ok s \<Longrightarrow> ports_ok (revokeFamily f s)" "get_peer k (revokeFamily f s) = get_peer k s"
  "get_session k (revokeFamily f s) = get_session k s" "get_pair k (revokeFamily f s) = get_pair k s"
  "drawn m (revokeFamily f s) = drawn m s"
  by (simp_all add: revokeFamily_def update_where_frame grants.update_ok)

lemma grant_by_refresh: "ports_ok s \<Longrightarrow> grantByRefreshHash h s = Some g \<Longrightarrow> gr_refresh_hash g = h \<and> get_grant (gr_grant g) s = Some g"
  unfolding grantByRefreshHash_def by (drule grants.find_row) auto

lemma grant_by_access: "ports_ok s \<Longrightarrow> grantByAccessHash h s = Some g \<Longrightarrow> gr_access_hash g = h \<and> get_grant (gr_grant g) s = Some g"
  unfolding grantByAccessHash_def by (drule grants.find_row) auto

text \<open>What \<open>issue\<close> writes: one new active grant.\<close>

definition new_grant :: "agent_config \<Rightarrow> stored_peer \<Rightarrow> string \<Rightarrow> peer_ports \<Rightarrow> grant_record" where
  "new_grant cf p f s =
     \<lparr>gr_grant = al_id (cf_ids cf) (al_family (cf_ids cf) ''grant'') (drawn (al_family (cf_ids cf) ''grant'') s + 1),
      gr_family = f, gr_peer = p_id p, gr_instance = cf_gateway cf, gr_workspace = cf_workspace cf,
      gr_key_hash = p_key p, gr_role = p_role p, gr_scopes = p_scopes p,
      gr_grant_revision = p_grant_revision p, gr_epoch = cf_epoch cf,
      gr_access_hash = sha256Hex (cf_crypto cf) (en_token (cf_entropy cf) (pp_tokens_drawn s)),
      gr_refresh_hash = sha256Hex (cf_crypto cf) (en_token (cf_entropy cf) (pp_tokens_drawn s + 1)),
      gr_access_expires_ms = pp_now s + cf_accessTtlS cf * 1000,
      gr_refresh_expires_ms = pp_now s + cf_refreshTtlS cf * 1000,
      gr_state = GrantActive, gr_created_ms = pp_now s\<rparr>"

definition issued_of :: "agent_config \<Rightarrow> peer_ports \<Rightarrow> issued_tokens" where
  "issued_of cf s =
     \<lparr>it_access = en_token (cf_entropy cf) (pp_tokens_drawn s),
      it_refresh = en_token (cf_entropy cf) (pp_tokens_drawn s + 1),
      it_expires_ms = pp_now s + cf_accessTtlS cf * 1000\<rparr>"

definition drew_grant :: "agent_config \<Rightarrow> peer_ports \<Rightarrow> peer_ports" where
  "drew_grant cf s = drew (cf_ids cf) ''grant'' (s\<lparr>pp_tokens_drawn := pp_tokens_drawn s + 2\<rparr>)"

lemma issue_some:
  "issue cf p (Some f) s = (Inr (issued_of cf s), put_grant (new_grant cf p f s) (drew_grant cf s))"
  by (simp add: issue_def op_simps draw_token_def newId_drew issued_of_def new_grant_def next_id_def
      drew_grant_def Let_def numeral_2_eq_2)

lemma issue_none:
  "issue cf p None s =
     (let t = drew_grant cf s; f = next_id (cf_ids cf) ''family'' t in
      (Inr (issued_of cf s), put_grant (new_grant cf p f s) (drew (cf_ids cf) ''family'' t)))"
  by (simp add: issue_def op_simps draw_token_def newId_drew issued_of_def new_grant_def next_id_def
      drew_grant_def Let_def numeral_2_eq_2)

lemma new_grant_simps [simp]:
  "gr_grant (new_grant cf p f s) = next_id (cf_ids cf) ''grant'' s" "gr_family (new_grant cf p f s) = f"
  "gr_peer (new_grant cf p f s) = p_id p" "gr_state (new_grant cf p f s) = GrantActive"
  "gr_grant_revision (new_grant cf p f s) = p_grant_revision p" "gr_epoch (new_grant cf p f s) = cf_epoch cf"
  "gr_scopes (new_grant cf p f s) = p_scopes p"
  "gr_access_hash (new_grant cf p f s) = sha256Hex (cf_crypto cf) (en_token (cf_entropy cf) (pp_tokens_drawn s))"
  "gr_access_expires_ms (new_grant cf p f s) = pp_now s + cf_accessTtlS cf * 1000"
  by (simp_all add: new_grant_def next_id_def)

lemma drew_grant_frames [simp]:
  "get_pair k (drew_grant cf s) = get_pair k s" "get_challenge k (drew_grant cf s) = get_challenge k s"
  "get_peer k (drew_grant cf s) = get_peer k s" "get_grant k (drew_grant cf s) = get_grant k s"
  "get_session k (drew_grant cf s) = get_session k s" "ports_ok (drew_grant cf s) = ports_ok s"
  "pp_now (drew_grant cf s) = pp_now s"
  by (simp_all add: drew_grant_def)

lemma drawn_drew_grant: "drawn m s \<le> drawn m (drew_grant cf s)"
  unfolding drew_grant_def using drawn_drew [of m "s\<lparr>pp_tokens_drawn := pp_tokens_drawn s + 2\<rparr>"] by simp

lemma issued_drew_grant: "issued al kind i s \<Longrightarrow> issued al kind i (drew_grant cf s)"
  by (erule issued_mono) (rule drawn_drew_grant)

lemma issued_new_grant: "issued (cf_ids cf) ''grant'' (next_id (cf_ids cf) ''grant'' s) (drew_grant cf s)"
  using issued_next [of "cf_ids cf" "''grant''" "s\<lparr>pp_tokens_drawn := pp_tokens_drawn s + 2\<rparr>"]
  by (simp add: drew_grant_def)

subsection \<open>The grant table\<close>

text \<open>
  The invariant of the grant table: ids and families come from the allocator, every grant
  belongs to a stored peer, and no family has two active grants.
\<close>

definition grants_inv :: "allocator \<Rightarrow> peer_ports \<Rightarrow> bool" where
  "grants_inv al s \<longleftrightarrow> ports_ok s \<and>
     (\<forall>k g. get_grant k s = Some g \<longrightarrow> issued al ''grant'' k s \<and> issued al ''family'' (gr_family g) s \<and>
        get_peer (gr_peer g) s \<noteq> None) \<and>
     (\<forall>k l g h. get_grant k s = Some g \<and> get_grant l s = Some h \<and> gr_family g = gr_family h \<and>
        gr_state g = GrantActive \<and> gr_state h = GrantActive \<longrightarrow> k = l)"

lemma grants_invD:
  assumes "grants_inv al s"
  shows "ports_ok s" "get_grant k s = Some g \<Longrightarrow> issued al ''grant'' k s"
    "get_grant k s = Some g \<Longrightarrow> issued al ''family'' (gr_family g) s"
    "get_grant k s = Some g \<Longrightarrow> get_peer (gr_peer g) s \<noteq> None"
    "get_grant k s = Some g \<Longrightarrow> get_grant l s = Some h \<Longrightarrow> gr_family g = gr_family h \<Longrightarrow>
       gr_state g = GrantActive \<Longrightarrow> gr_state h = GrantActive \<Longrightarrow> k = l"
  using assms unfolding grants_inv_def by blast+

text \<open>A step that changes no grant except its state, and activates none.\<close>

lemma grants_inv_weaken:
  assumes "grants_inv al s" "ports_ok t" "\<And>m. drawn m s \<le> drawn m t"
    and "\<And>i. get_peer i s \<noteq> None \<Longrightarrow> get_peer i t \<noteq> None"
    and "\<And>k h. get_grant k t = Some h \<Longrightarrow> \<exists>g. get_grant k s = Some g \<and> gr_family h = gr_family g \<and>
       gr_peer h = gr_peer g \<and> (gr_state h = GrantActive \<longrightarrow> gr_state g = GrantActive)"
  shows "grants_inv al t"
  unfolding grants_inv_def
proof (intro conjI allI impI)
  fix k h assume h: "get_grant k t = Some h"
  then obtain g where g: "get_grant k s = Some g" "gr_family h = gr_family g" "gr_peer h = gr_peer g"
    using assms(5) by blast
  then show "issued al ''grant'' k t" "issued al ''family'' (gr_family h) t" "get_peer (gr_peer h) t \<noteq> None"
    using grants_invD(2-4) [OF assms(1) g(1)] assms(3,4) issued_mono by auto
next
  fix k l h h'
  assume "get_grant k t = Some h \<and> get_grant l t = Some h' \<and> gr_family h = gr_family h' \<and>
    gr_state h = GrantActive \<and> gr_state h' = GrantActive"
  then show "k = l" using assms(5) [of k h] assms(5) [of l h'] grants_invD(5) [OF assms(1)] by metis
qed (rule assms(2))

text \<open>Adding an active grant to a family that has none.\<close>

lemma grants_inv_add:
  assumes "grants_inv al s" "issued al ''grant'' (gr_grant g) s" "issued al ''family'' (gr_family g) s"
    and "get_peer (gr_peer g) s \<noteq> None"
    and "\<And>k h. get_grant k s = Some h \<Longrightarrow> gr_family h = gr_family g \<Longrightarrow> k \<noteq> gr_grant g \<Longrightarrow> gr_state h \<noteq> GrantActive"
  shows "grants_inv al (put_grant g s)"
  unfolding grants_inv_def
proof (intro conjI allI impI)
  show "ports_ok (put_grant g s)" using grants_invD(1) [OF assms(1)] by simp
next
  fix k h assume "get_grant k (put_grant g s) = Some h"
  then have "h = g \<and> k = gr_grant g \<or> get_grant k s = Some h" by (auto split: if_splits)
  then show "issued al ''grant'' k (put_grant g s)" "issued al ''family'' (gr_family h) (put_grant g s)"
      "get_peer (gr_peer h) (put_grant g s) \<noteq> None"
    using assms(2-4) grants_invD(2-4) [OF assms(1)] by auto
next
  fix k l h h'
  assume a: "get_grant k (put_grant g s) = Some h \<and> get_grant l (put_grant g s) = Some h' \<and>
    gr_family h = gr_family h' \<and> gr_state h = GrantActive \<and> gr_state h' = GrantActive"
  show "k = l"
  proof (cases "k = gr_grant g \<or> l = gr_grant g")
    case True
    with a assms(5) show ?thesis by (auto split: if_splits)
  next
    case False
    with a grants_invD(5) [OF assms(1)] show ?thesis by auto
  qed
qed

lemma grants_inv_same:
  assumes "grants_inv al s" "ports_ok t" "\<And>m. drawn m s \<le> drawn m t"
    and "\<And>i. get_peer i s \<noteq> None \<Longrightarrow> get_peer i t \<noteq> None" "\<And>k. get_grant k t = get_grant k s"
  shows "grants_inv al t"
  using assms(1-4) by (rule grants_inv_weaken) (auto simp: assms(5))

lemma grants_inv_drew: "grants_inv al s \<Longrightarrow> grants_inv al (drew al' kind s)"
  by (rule grants_inv_same [of al s]) (simp_all add: grants_invD(1) drawn_drew drawn_drew_grant)

lemma grants_inv_drew_grant: "grants_inv al s \<Longrightarrow> grants_inv al (drew_grant cf s)"
  by (rule grants_inv_same [of al s]) (simp_all add: grants_invD(1) drawn_drew drawn_drew_grant)

lemma grants_inv_put_challenge: "grants_inv al s \<Longrightarrow> grants_inv al (put_challenge c s)"
  by (rule grants_inv_same [of al s]) (simp_all add: grants_invD(1) drawn_drew drawn_drew_grant)

lemma grants_inv_put_renewReplay: "grants_inv al s \<Longrightarrow> grants_inv al (put_renewReplay c s)"
  by (rule grants_inv_same [of al s]) (simp_all add: grants_invD(1) drawn_drew drawn_drew_grant)

lemma grants_inv_set_state:
  assumes "grants_inv al s" "get_grant (gr_grant g) s = Some g" "st \<noteq> GrantActive"
  shows "grants_inv al (put_grant (g\<lparr>gr_state := st\<rparr>) s)"
  using assms(1)
proof (rule grants_inv_weaken)
  fix k h assume "get_grant k (put_grant (g\<lparr>gr_state := st\<rparr>) s) = Some h"
  then show "\<exists>g. get_grant k s = Some g \<and> gr_family h = gr_family g \<and> gr_peer h = gr_peer g \<and>
      (gr_state h = GrantActive \<longrightarrow> gr_state g = GrantActive)"
    using assms(2,3) by (auto split: if_splits)
qed (use grants_invD(1) [OF assms(1)] in auto)

lemma grants_inv_revokeFamily:
  assumes "grants_inv al s" shows "grants_inv al (revokeFamily f s)"
  using assms
proof (rule grants_inv_weaken)
  have ok: "ports_ok s" using assms by (rule grants_invD(1))
  then show "ports_ok (revokeFamily f s)" by simp
  fix k h assume h: "get_grant k (revokeFamily f s) = Some h"
  show "\<exists>g. get_grant k s = Some g \<and> gr_family h = gr_family g \<and> gr_peer h = gr_peer g \<and>
      (gr_state h = GrantActive \<longrightarrow> gr_state g = GrantActive)"
    using revokeFamily_grant [OF ok] h by (rule after_loop) auto
qed auto

lemma grants_inv_revokeGrants:
  assumes "grants_inv al s" shows "grants_inv al (revokeGrants i s)"
  using assms
proof (rule grants_inv_weaken)
  have ok: "ports_ok s" using assms by (rule grants_invD(1))
  then show "ports_ok (revokeGrants i s)" by simp
  fix k h assume h: "get_grant k (revokeGrants i s) = Some h"
  show "\<exists>g. get_grant k s = Some g \<and> gr_family h = gr_family g \<and> gr_peer h = gr_peer g \<and>
      (gr_state h = GrantActive \<longrightarrow> gr_state g = GrantActive)"
    using revokeGrants_grant [OF ok] h by (rule after_loop) auto
qed auto

context id_source
begin

lemma grants_inv_issue_new:
  assumes "grants_inv al s" "al = cf_ids cf" "get_peer (p_id p) s \<noteq> None"
  shows "grants_inv al (snd (issue cf p None s))"
proof -
  define t where "t = drew_grant cf s"
  define f where "f = next_id al ''family'' t"
  have t: "grants_inv al t" unfolding t_def by (rule grants_inv_drew_grant [OF assms(1)])
  have "\<not> issued al ''family'' f t" unfolding f_def by (rule next_fresh)
  then have new: "gr_family h \<noteq> f" if "get_grant k t = Some h" for k h
    using grants_invD(3) [OF t that] by auto
  have "grants_inv al (put_grant (new_grant cf p f s) (drew al ''family'' t))"
  proof (rule grants_inv_add)
    show "grants_inv al (drew al ''family'' t)" using t by (rule grants_inv_drew)
    show "issued al ''grant'' (gr_grant (new_grant cf p f s)) (drew al ''family'' t)"
      using issued_new_grant [of cf s] assms(2) by (auto simp: t_def intro: issued_drew)
    show "issued al ''family'' (gr_family (new_grant cf p f s)) (drew al ''family'' t)"
      using issued_next by (simp add: f_def)
  qed (use new assms(3) in \<open>auto simp: t_def\<close>)
  then show ?thesis by (simp add: issue_none Let_def assms(2) t_def f_def)
qed

end

lemma grants_inv_rotate:
  assumes "grants_inv (cf_ids cf) s" "get_grant (gr_grant g) s = Some g" "gr_state g = GrantActive"
    "get_peer (p_id p) s \<noteq> None"
  shows "grants_inv (cf_ids cf) (snd (rotate_grant cf c h g p ch s))"
proof -
  let ?al = "cf_ids cf"
  define s1 where "s1 = put_grant (g\<lparr>gr_state := GrantConsumed\<rparr>) (put_challenge (ch\<lparr>ch_consumed := True\<rparr>) s)"
  define s2 where "s2 = drew_grant cf s1"
  have "grants_inv ?al (put_challenge (ch\<lparr>ch_consumed := True\<rparr>) s)"
    using assms(1) by (rule grants_inv_put_challenge)
  then have s1: "grants_inv ?al s1"
    unfolding s1_def by (rule grants_inv_set_state) (use assms(2) in auto)
  then have s2: "grants_inv ?al s2" unfolding s2_def by (rule grants_inv_drew_grant)
  have used: "gr_state k' \<noteq> GrantActive" if "get_grant k s2 = Some k'" "gr_family k' = gr_family g" for k k'
    using that grants_invD(5) [OF assms(1), of k k' "gr_grant g" g] assms(2,3)
    by (auto simp: s1_def s2_def split: if_splits)
  have "get_grant (gr_grant g) s2 = Some (g\<lparr>gr_state := GrantConsumed\<rparr>)" by (simp add: s1_def s2_def)
  then have fam: "issued ?al ''family'' (gr_family g) s2" using grants_invD(3) [OF s2] by fastforce
  have "grants_inv ?al (put_grant (new_grant cf p (gr_family g) s1) s2)"
    using s2
  proof (rule grants_inv_add)
    show "issued ?al ''grant'' (gr_grant (new_grant cf p (gr_family g) s1)) s2"
      using issued_new_grant [of cf s1] by (simp add: s2_def)
  qed (use fam used assms(4) in \<open>auto simp: s1_def s2_def\<close>)
  then show ?thesis
    by (simp add: rotate_grant_def op_simps issue_some s1_def [symmetric] s2_def [symmetric] grants_inv_put_renewReplay)
qed

lemma renew_cases:
  assumes "ports_ok s"
  obtains (refused) e where "renew cf c s = (Inl e, s)"
  | (replayed) out g where "grantByRefreshHash (sha256Hex (cf_crypto cf) (rn_refresh c)) s = Some g"
      "gr_state g = GrantConsumed" "renew cf c s = (Inr out, s)"
  | (reused) g where "get_grant (gr_grant g) s = Some g" "gr_state g = GrantConsumed"
      "renew cf c s = (Inl (RpcError TOKEN_REVOKED None), revokeFamily (gr_family g) s)"
  | (rotated) g p ch h where "get_grant (gr_grant g) s = Some g" "gr_state g = GrantActive"
      "grantByRefreshHash (sha256Hex (cf_crypto cf) (rn_refresh c)) s = Some g" "gr_peer g = rn_peer c"
      "get_peer (gr_peer g) s = Some p" "p_state p \<noteq> REVOKED" "gr_grant_revision g = p_grant_revision p"
      "gr_epoch g = cf_epoch cf" "get_challenge (rn_challenge c) s = Some ch" "\<not> ch_consumed ch"
      "renew cf c s = rotate_grant cf c h g p ch s"
proof -
  define h where "h = sha256Hex (cf_crypto cf) (rn_refresh c)"
  show ?thesis
  proof (cases "grantByRefreshHash h s")
    case None
    then show ?thesis by (intro refused) (simp add: renew_def h_def [symmetric] op_simps Let_def)
  next
    case (Some g)
    have g: "get_grant (gr_grant g) s = Some g" using grant_by_refresh [OF assms Some] by simp
    show ?thesis
    proof (cases "get_peer (gr_peer g) s")
      case None
      with Some have "\<exists>e. renew cf c s = (Inl e, s)"
        by (cases "gr_peer g = rn_peer c") (auto simp: renew_def h_def [symmetric] op_simps Let_def)
      then show ?thesis using refused by blast
    next
      case p: (Some p)
      show ?thesis
      proof (cases "gr_peer g = rn_peer c \<and> p_state p \<noteq> REVOKED \<and> rn_epoch c = cf_epoch cf \<and> gr_epoch g = cf_epoch cf")
        case False
        then have "\<exists>e. renew cf c s = (Inl e, s)"
          using Some p by (auto simp: renew_def h_def [symmetric] op_simps Let_def)
        then show ?thesis using refused by blast
      next
        case ok: True
        then have run: "renew cf c s = (if gr_state g = GrantConsumed then renew_consumed cf c h g p s else renew_active cf c h g p s)"
          using Some p by (simp add: renew_def h_def [symmetric] Let_def)
        show ?thesis
        proof (cases "gr_state g = GrantConsumed")
          case True
          show ?thesis
          proof (cases "verifyRenewProof cf c g p")
            case False
            with True run show ?thesis by (intro refused) (simp add: renew_consumed_def op_simps)
          next
            case v: True
            show ?thesis
            proof (cases "\<exists>rr. getRenewReplay (replay_key g h) s = Some rr \<and> rn_request_id c \<noteq> None \<and> rr_request_id rr = rn_request_id c")
              case True
              with v run \<open>gr_state g = GrantConsumed\<close> have "\<exists>out. renew cf c s = (Inr out, s)"
                by (auto simp: renew_consumed_def)
              then show ?thesis using replayed [of g] Some \<open>gr_state g = GrantConsumed\<close> by (auto simp: h_def)
            next
              case False
              with v run True show ?thesis
                by (intro reused [OF g True]) (auto simp: renew_consumed_def op_simps split: option.split)
            qed
          qed
        next
          case False
          show ?thesis
          proof (cases "gr_state g = GrantRevoked \<or> gr_grant_revision g \<noteq> p_grant_revision p \<or>
              pp_now s \<ge> gr_refresh_expires_ms g \<or> \<not> verifyRenewProof cf c g p \<or> (\<exists>e. renew_challenge cf c p s = Inl e)")
            case True
            then have "\<exists>e. renew cf c s = (Inl e, s)"
              using run False by (auto simp: renew_active_def op_simps split: sum.split)
            then show ?thesis using refused by blast
          next
            case ok': False
            then obtain ch where ch: "renew_challenge cf c p s = Inr ch" by (cases "renew_challenge cf c p s") auto
            have "gr_state g = GrantActive" using ok' False by (cases "gr_state g") auto
            moreover have "get_challenge (rn_challenge c) s = Some ch" "\<not> ch_consumed ch"
              using ch by (auto simp: renew_challenge_def split: option.splits if_splits)
            moreover have "renew cf c s = rotate_grant cf c h g p ch s"
              using run False ok' ch by (simp add: renew_active_def)
            ultimately show ?thesis using g p ok ok' Some by (intro rotated [of g p ch h]) (auto simp: h_def)
          qed
        qed
      qed
    qed
  qed
qed

lemma grants_inv_renew:
  assumes "grants_inv (cf_ids cf) s" shows "grants_inv (cf_ids cf) (snd (renew cf c s))"
  using grants_invD(1) [OF assms]
proof (cases rule: renew_cases [of s cf c])
  case (rotated g p ch h)
  then have "get_peer (p_id p) s \<noteq> None"
    using get_peer_id [OF grants_invD(1) [OF assms] rotated(5)] by simp
  with rotated assms show ?thesis by (simp add: grants_inv_rotate)
qed (use assms in \<open>auto intro: grants_inv_revokeFamily\<close>)

section \<open>Properties\<close>

text \<open>
  C8.  Presenting a refresh token that was already rotated, with a valid proof but not as
  the saved request, fails with TOKEN_REVOKED and revokes every grant of the token's
  family; no other grant, no peer and no session changes.
\<close>

theorem refresh_reuse_revokes_family:
  assumes "ports_ok s" "grantByRefreshHash (sha256Hex (cf_crypto cf) (rn_refresh c)) s = Some g"
    "gr_state g = GrantConsumed" "gr_peer g = rn_peer c" "get_peer (rn_peer c) s = Some p" "p_state p \<noteq> REVOKED"
    "rn_epoch c = cf_epoch cf" "gr_epoch g = cf_epoch cf" "verifyRenewProof cf c g p"
    "\<forall>rr. getRenewReplay (replay_key g (gr_refresh_hash g)) s = Some rr \<longrightarrow>
       rn_request_id c = None \<or> rr_request_id rr \<noteq> rn_request_id c"
  shows "\<exists>t. renew cf c s = (Inl (RpcError TOKEN_REVOKED None), t) \<and>
    (\<forall>k h. get_grant k t = Some h \<and> gr_family h = gr_family g \<longrightarrow> gr_state h = GrantRevoked) \<and>
    (\<forall>k h. get_grant k s = Some h \<and> gr_family h \<noteq> gr_family g \<longrightarrow> get_grant k t = Some h) \<and>
    (\<forall>k. get_peer k t = get_peer k s \<and> get_session k t = get_session k s)"
proof -
  let ?t = "revokeFamily (gr_family g) s"
  have h: "gr_refresh_hash g = sha256Hex (cf_crypto cf) (rn_refresh c)"
    using grant_by_refresh [OF assms(1,2)] by simp
  have "renew cf c s = renew_consumed cf c (gr_refresh_hash g) g p s"
    unfolding h using assms(2-8) by (simp add: renew_def Let_def)
  also have "\<dots> = (Inl (RpcError TOKEN_REVOKED None), ?t)"
    using assms(9,10) by (auto simp: renew_consumed_def op_simps split: option.split)
  finally have run: "renew cf c s = (Inl (RpcError TOKEN_REVOKED None), ?t)" .
  have "gr_family h = gr_family g \<longrightarrow> gr_state h = GrantRevoked" if "get_grant k ?t = Some h" for k h
    using revokeFamily_grant [OF assms(1)] that by (rule after_loop) auto
  moreover have "get_grant k ?t = Some h" if "get_grant k s = Some h" "gr_family h \<noteq> gr_family g" for k h
    using that by (simp add: revokeFamily_grant [OF assms(1)])
  ultimately show ?thesis using run by (intro exI [of _ ?t]) (simp, blast)
qed

lemma find_unique:
  assumes "r \<in> set xs" "p r" "\<And>x. x \<in> set xs \<Longrightarrow> p x \<Longrightarrow> x = r"
  shows "find p xs = Some r"
proof (cases "find p xs")
  case None
  with assms(1,2) show ?thesis by (auto simp: find_None_iff)
next
  case (Some y)
  then have "y \<in> set xs" "p y" by (auto simp: find_Some_iff)
  with assms(3) Some show ?thesis by simp
qed

text \<open>A verified access token is exactly an active, current grant of an enrolled peer.\<close>

lemma verifyAccess_ok:
  assumes "grantByAccessHash (sha256Hex (cf_crypto cf) a) s = Some g" "gr_state g = GrantActive"
    "get_peer (gr_peer g) s = Some p" "p_state p \<noteq> REVOKED" "gr_grant_revision g = p_grant_revision p"
    "gr_epoch g = cf_epoch cf" "pp_now s < gr_access_expires_ms g"
  shows "verifyAccess cf a s = Inr (g, p)"
  using assms by (simp add: verifyAccess_def)

lemma rotate_apply:
  "rotate_grant cf c h g p ch s =
     (let s1 = put_grant (g\<lparr>gr_state := GrantConsumed\<rparr>) (put_challenge (ch\<lparr>ch_consumed := True\<rparr>) s) in
      (Inr (issued_of cf s), put_renewReplay \<lparr>rr_key = replay_key g h, rr_request_id = rn_request_id c, rr_result = issued_of cf s\<rparr>
         (put_grant (new_grant cf p (gr_family g) s1) (drew_grant cf s1))))"
proof -
  have "issued_of cf (put_grant x (put_challenge y s)) = issued_of cf s" for x y
    by (simp add: issued_of_def) (simp add: table_defs)
  then show ?thesis by (simp add: rotate_grant_def op_simps issue_some Let_def)
qed

lemma tokens_drawn_puts [simp]:
  "pp_tokens_drawn (put_grant x s) = pp_tokens_drawn s" "pp_tokens_drawn (put_challenge y s) = pp_tokens_drawn s"
  "next_id al kind (put_grant x s) = next_id al kind s" "next_id al kind (put_challenge y s) = next_id al kind s"
  "pp_now (put_renewReplay z s) = pp_now s" "list_grants (put_renewReplay z s) = list_grants s"
  by (simp_all add: table_defs next_id_def put_renewReplay_def drawn_def)


subsection \<open>A concrete store\<close>

definition sample_crypto :: node_crypto where
  "sample_crypto = \<lparr>nc_sha256 = (\<lambda>s. s), nc_public = (\<lambda>_. True), nc_verify = (\<lambda>_ _ _. True)\<rparr>"

definition sample_entropy :: entropy where
  "sample_entropy = \<lparr>en_token = (\<lambda>n. ''t'' @ dec_str n), en_nonce = (\<lambda>n. ''n'' @ dec_str n),
     en_pairCode = (\<lambda>n. ''0123456789'')\<rparr>"

definition sample_config :: agent_config where
  "sample_config = \<lparr>cf_crypto = sample_crypto, cf_gateway = ''gw1'', cf_workspace = ''ws1'', cf_epoch = ''1'',
     cf_profiles = [''proof-bundle/1''], cf_interfaces = ''interfaces/1'', cf_allowOperator = False,
     cf_policyScopes = None, cf_accessTtlS = 900, cf_refreshTtlS = 2592000, cf_nativeMesh = False,
     cf_ids = sequentialIds [], cf_entropy = sample_entropy\<rparr>"

definition enrolled_peer :: stored_peer where
  "enrolled_peer = sample_peer\<lparr>sp_key_material := \<lparr>km_id = ''k'', km_public = b64u_encode (replicate 32 CHR ''k'')\<rparr>\<rparr>"

definition sample_store :: peer_ports where
  "sample_store = put_challenge \<lparr>ch_challenge = ''challenge1'', ch_key_id = ''k'', ch_key_public = '''', ch_client_nonce = '''',
       ch_server_nonce = ''n1'', ch_audience = ''gw1'', ch_epoch = ''1'', ch_created_ms = 0, ch_expires_ms = 60000,
       ch_consumed = False\<rparr>
     (snd (issue sample_config enrolled_peer None (put_peer enrolled_peer (createMemoryPeerPorts 0))))"

definition sample_renew :: renew_call where
  "sample_renew = \<lparr>rn_peer = ''peer1'', rn_refresh = ''t1'', rn_challenge = ''challenge1'', rn_server_nonce = ''n1'',
     rn_epoch = ''1'', rn_proof = b64u_encode (replicate 64 CHR ''s''), rn_request_id = Some ''r1''\<rparr>"

definition renewed_store :: peer_ports where
  "renewed_store = snd (renew sample_config sample_renew sample_store)"

lemma sample_proof [simp]:
  "rn_proof c = b64u_encode (replicate 64 CHR ''s'') \<Longrightarrow> verifyRenewProof sample_config c g enrolled_peer"
  by (simp add: verifyRenewProof_def verifyRenew_def verifyB64u_def publicKeyFromB64u_def decodeB64u_def andThen_def
      enrolled_peer_def sample_config_def sample_crypto_def canonicalJson_def renewBody_def b64u_decode_encode
      is_safe_def MAX_SAFE_def)

lemma sha256Hex_sample: "sha256Hex sample_crypto a = sha256Hex sample_crypto b \<longleftrightarrow> utf8 a = utf8 b"
  unfolding sha256Hex_def by (simp add: sample_crypto_def) (metis hex_decode_encode)

lemma sample_tokens [simp]: "utf8 (''t'' @ dec_str n) = ''t'' @ dec_str n"
proof (rule utf8_ascii, rule ballI)
  fix c assume "c \<in> set (''t'' @ dec_str n)"
  then have "c = CHR ''t'' \<or> c \<in> set ''0123456789''" using dec_str_digits [of c n] by (auto simp: is_digit_def)
  then show "(of_char c :: nat) < 128" by auto
qed

lemma sample_config_simps [simp]:
  "cf_crypto sample_config = sample_crypto" "cf_epoch sample_config = ''1''" "cf_accessTtlS sample_config = 900"
  "cf_refreshTtlS sample_config = 2592000" "cf_ids sample_config = sequentialIds []"
  "en_token (cf_entropy sample_config) n = ''t'' @ dec_str n" "cf_gateway sample_config = ''gw1''"
  by (simp_all add: sample_config_def sample_entropy_def)

definition sample_base :: peer_ports where
  "sample_base = put_peer enrolled_peer (createMemoryPeerPorts 0)"

definition sample_grant :: grant_record where
  "sample_grant = new_grant sample_config enrolled_peer ''fam1'' sample_base"

definition sample_challenge :: challenge_record where
  "sample_challenge = \<lparr>ch_challenge = ''challenge1'', ch_key_id = ''k'', ch_key_public = '''', ch_client_nonce = '''',
     ch_server_nonce = ''n1'', ch_audience = ''gw1'', ch_epoch = ''1'', ch_created_ms = 0, ch_expires_ms = 60000,
     ch_consumed = False\<rparr>"

lemma enrolled_simps [simp]: "p_id enrolled_peer = ''peer1''" "p_key enrolled_peer = ''k''"
  "p_state enrolled_peer = CONNECTED" "p_grant_revision enrolled_peer = ''1''"
  by (simp_all add: enrolled_peer_def sample_peer_def)

lemma base_grants [simp]: "get_grant k sample_base = None" "ports_ok sample_base"
  by (simp_all add: sample_base_def) (simp add: createMemoryPeerPorts_def table_defs)

lemma sample_store_eq:
  "sample_store = put_challenge sample_challenge (put_grant sample_grant (drew (sequentialIds []) ''family'' (drew_grant sample_config sample_base)))"
proof -
  have "next_id (sequentialIds []) ''family'' (drew_grant sample_config sample_base) = ''fam1''"
    by (simp add: next_id_def drew_grant_def drew_def drawn_def sequentialIds_def NAMED_PREFIXES_def sample_base_def
        put_peer_def createMemoryPeerPorts_def dec_str_one [simplified])
  then show ?thesis
    by (simp add: sample_store_def issue_none Let_def sample_grant_def sample_base_def [symmetric] sample_challenge_def)
qed

lemma sample_store_facts:
  "get_peer ''peer1'' sample_store = Some enrolled_peer" "list_grants sample_store = [sample_grant]"
  "get_challenge ''challenge1'' sample_store = Some sample_challenge" "pp_now sample_store = 0"
  "pp_tokens_drawn sample_store = 2"
  by (simp_all add: sample_store_eq)
    (simp_all add: sample_base_def sample_challenge_def, simp_all add: createMemoryPeerPorts_def table_defs arows_def
      drew_def drew_grant_def)

lemma sample_store_inv: "grants_inv (sequentialIds []) sample_store"
proof -
  have "grants_inv (sequentialIds []) sample_base" by (simp add: grants_inv_def)
  then have "grants_inv (sequentialIds []) (snd (issue sample_config enrolled_peer None sample_base))"
    by (rule sequential.grants_inv_issue_new) (simp_all add: sample_base_def)
  then show ?thesis unfolding sample_store_def sample_base_def by (rule grants_inv_put_challenge)
qed

lemma sample_hashes:
  "gr_refresh_hash sample_grant = sha256Hex sample_crypto ''t1''" "gr_access_hash sample_grant = sha256Hex sample_crypto ''t0''"
  "gr_refresh_expires_ms sample_grant = 2592000000" "gr_state sample_grant = GrantActive" "gr_peer sample_grant = ''peer1''"
  "gr_epoch sample_grant = ''1''" "gr_grant_revision sample_grant = ''1''"
  by (simp_all add: sample_grant_def new_grant_def sample_base_def put_peer_def createMemoryPeerPorts_def
      dec_str_one [simplified] dec_str_zero)

lemma sample_renew_simps [simp]:
  "rn_peer sample_renew = ''peer1''" "rn_refresh sample_renew = ''t1''" "rn_challenge sample_renew = ''challenge1''"
  "rn_server_nonce sample_renew = ''n1''" "rn_epoch sample_renew = ''1''" "rn_request_id sample_renew = Some ''r1''"
  "verifyRenewProof sample_config sample_renew g enrolled_peer"
  by (simp_all add: sample_renew_def)

lemma token_hash:
  "sha256Hex sample_crypto (''t'' @ dec_str m) = sha256Hex sample_crypto (''t'' @ dec_str n) \<longleftrightarrow> m = n"
  by (simp only: sha256Hex_sample sample_tokens) simp

lemma sample_found: "grantByRefreshHash (sha256Hex sample_crypto ''t1'') sample_store = Some sample_grant"
  by (simp add: grantByRefreshHash_def sample_store_facts sample_hashes)

lemma sample_renew_run:
  "renew sample_config sample_renew sample_store =
     rotate_grant sample_config sample_renew (sha256Hex sample_crypto ''t1'') sample_grant enrolled_peer
        sample_challenge sample_store"
proof -
  have "renew_challenge sample_config sample_renew enrolled_peer sample_store = Inr sample_challenge"
    by (simp add: renew_challenge_def sample_store_facts) (simp add: sample_challenge_def)
  then show ?thesis
    by (simp add: renew_def renew_active_def sample_found sample_hashes sample_store_facts Let_def)
qed


text \<open>The rotated token presented again, without the id of the request that rotated it.\<close>

definition reused :: renew_call where
  "reused = sample_renew\<lparr>rn_request_id := None\<rparr>"

lemma reused_simps [simp]:
  "rn_peer reused = ''peer1''" "rn_refresh reused = ''t1''" "rn_epoch reused = ''1''" "rn_request_id reused = None"
  "verifyRenewProof sample_config reused g enrolled_peer"
  by (simp_all add: reused_def) (simp_all add: sample_renew_def)

lemma pp_grants_frames [simp]:
  "pp_grants (put_grant g s) = aput (gr_grant g) g (pp_grants s)" "pp_grants (put_challenge c s) = pp_grants s"
  "pp_grants (drew al kind s) = pp_grants s" "pp_grants (drew_grant cf s) = pp_grants s"
  "pp_grants (put_renewReplay z s) = pp_grants s"
  by (simp_all add: table_defs drew_def drew_grant_def put_renewReplay_def)

lemma sample_table: "pp_grants sample_store = [(gr_grant sample_grant, sample_grant)]"
  by (simp add: sample_store_eq) (simp add: sample_base_def put_peer_def createMemoryPeerPorts_def)

theorem refresh_reuse_revokes_family_witness:
  "\<exists>t. renew sample_config reused renewed_store = (Inl (RpcError TOKEN_REVOKED None), t) \<and>
     (\<forall>k h. get_grant k t = Some h \<and> gr_family h = ''fam1'' \<longrightarrow> gr_state h = GrantRevoked)"
proof -
  let ?g = "sample_grant\<lparr>gr_state := GrantConsumed\<rparr>"
  have "ports_ok renewed_store"
    using grants_invD(1) [OF sample_store_inv] by (simp add: renewed_store_def sample_renew_run rotate_apply Let_def)
  moreover have "get_peer ''peer1'' renewed_store = Some enrolled_peer"
    by (simp add: renewed_store_def sample_renew_run rotate_apply Let_def sample_store_facts)
  moreover have "gr_grant sample_grant \<noteq> next_id (sequentialIds []) ''grant'' sample_store"
    using sequential.next_fresh [of "''grant''" sample_store] grants_invD(2) [OF sample_store_inv, of "gr_grant sample_grant" sample_grant]
    by (auto simp: sample_store_eq)
  then have "grantByRefreshHash (sha256Hex sample_crypto ''t1'') renewed_store = Some ?g"
    by (simp add: grantByRefreshHash_def renewed_store_def sample_renew_run rotate_apply Let_def list_grants_def
        arows_def sample_hashes sample_table)
  moreover have "gr_family sample_grant = ''fam1''" by (simp add: sample_grant_def)
  ultimately show ?thesis
    using refresh_reuse_revokes_family [of renewed_store sample_config reused ?g enrolled_peer]
    by (auto simp: sample_hashes)
qed

end
