(* ===== verification/Peer_Scopes.thy ===== *)
theory Peer_Scopes
  imports Protocol
begin

text \<open>
  Model of \<open>packages/core/src/v2/peers/scopes.ts\<close>: intersection of scope sets, the
  effective grant, the native capability binding, the role gate, and the per-method
  scope admission of an authenticated peer; \<open>scopeWithin\<close> is from \<open>pairs.ts\<close>.
\<close>

section \<open>Roles\<close>

datatype principal_role = Viewer | Agent | Operator | LocalOperator | Bootstrap

fun role_letter :: "principal_role \<Rightarrow> role" where
  "role_letter Viewer = RoleV"
| "role_letter Agent = RoleA"
| "role_letter Operator = RoleO"
| "role_letter LocalOperator = RoleL"
| "role_letter Bootstrap = RoleP"

definition principalRoles :: "principal_role \<Rightarrow> bool \<Rightarrow> role list" where
  "principalRoles rl reviewer = [role_letter rl] @ (if reviewer then [RoleR] else [])"

definition assertRole :: "principal_role \<Rightarrow> bool \<Rightarrow> string \<Rightarrow> thrown + unit" where
  "assertRole rl reviewer meth =
     (case roles_of meth of
        Inl e \<Rightarrow> Inl e
      | Inr roles \<Rightarrow>
          check (list_ex (\<lambda>r. r \<in> set roles) (principalRoles rl reviewer))
            (RpcError FORBIDDEN (Some ''method'')))"

section \<open>Grant intersection\<close>

definition merge_scope :: "scope \<Rightarrow> scope \<Rightarrow> scope" where
  "merge_scope s o1 =
     \<lparr>sc_permission = sc_permission s,
      sc_topics = filter (\<lambda>t. t \<in> set (sc_topics o1)) (sc_topics s),
      sc_runs = filter (\<lambda>r. r \<in> set (sc_runs o1)) (sc_runs s),
      sc_products = filter (\<lambda>p. p \<in> set (sc_products o1)) (sc_products s)\<rparr>"

text \<open>The duplicate test of \<open>intersectScopes\<close>: each dimension is joined without a separator.\<close>

definition same_joined :: "scope \<Rightarrow> scope \<Rightarrow> bool" where
  "same_joined e m \<longleftrightarrow>
     sc_permission e = sc_permission m \<and>
     join_with [] (sc_topics e) = join_with [] (sc_topics m) \<and>
     join_with [] (sc_runs e) = join_with [] (sc_runs m) \<and>
     join_with [] (sc_products e) = join_with [] (sc_products m)"

definition push_scope :: "scope list \<Rightarrow> scope \<Rightarrow> scope list" where
  "push_scope out m = (if list_ex (\<lambda>e. same_joined e m) out then out else out @ [m])"

definition intersect_row :: "scope \<Rightarrow> scope list \<Rightarrow> scope list \<Rightarrow> scope list" where
  "intersect_row s b out =
     fold (\<lambda>o1 acc. if sc_permission s \<noteq> sc_permission o1 then acc
                   else push_scope acc (merge_scope s o1)) b out"

definition intersectScopes :: "scope list \<Rightarrow> scope list \<Rightarrow> scope list" where
  "intersectScopes a b = fold (\<lambda>s out. intersect_row s b out) a []"

definition effectiveGrant :: "scope list \<Rightarrow> scope list \<Rightarrow> scope list option \<Rightarrow> scope list" where
  "effectiveGrant requested approved policy =
     (let grant = intersectScopes requested approved in
      case policy of None \<Rightarrow> grant | Some p \<Rightarrow> intersectScopes grant p)"

definition bind_scope :: "capability list \<Rightarrow> scope \<Rightarrow> scope list" where
  "bind_scope caps s =
     (case sc_permission s of
        EventsEmit \<Rightarrow> [s\<lparr>sc_topics := filter (\<lambda>t. list_ex (\<lambda>c. t \<in> set (cap_emit c)) caps) (sc_topics s)\<rparr>]
      | EventsConsume \<Rightarrow> [s\<lparr>sc_topics := filter (\<lambda>t. list_ex (\<lambda>c. t \<in> set (cap_consume c)) caps) (sc_topics s)\<rparr>]
      | ApprovalsRequest \<Rightarrow> if list_ex cap_request_approvals caps then [s] else []
      | LineageRead \<Rightarrow> if list_ex (\<lambda>c. cap_lineage c = LineageOwn) caps then [s] else []
      | ProductsManage \<Rightarrow> [s])"

definition bindCapabilities :: "scope list \<Rightarrow> capability list \<Rightarrow> scope list" where
  "bindCapabilities scopes caps = concat (map (bind_scope caps) scopes)"

text \<open>\<open>scopeWithin\<close> of \<open>pairs.ts\<close>\<close>

definition scopeWithin :: "scope \<Rightarrow> scope list \<Rightarrow> bool" where
  "scopeWithin inner outer \<longleftrightarrow>
     list_ex (\<lambda>o1. sc_permission o1 = sc_permission inner \<and>
       list_all (\<lambda>t. t \<in> set (sc_topics o1)) (sc_topics inner) \<and>
       list_all (\<lambda>r. r \<in> set (sc_runs o1)) (sc_runs inner) \<and>
       list_all (\<lambda>p. p \<in> set (sc_products o1)) (sc_products inner)) outer"

section \<open>Scope admission per method\<close>

definition scopesFor :: "peer \<Rightarrow> permission \<Rightarrow> scope list" where
  "scopesFor pr perm = filter (\<lambda>s. sc_permission s = perm) (p_scopes pr)"

definition hasScopeCovering :: "peer \<Rightarrow> permission \<Rightarrow> (scope \<Rightarrow> bool) \<Rightarrow> bool" where
  "hasScopeCovering pr perm covers \<longleftrightarrow> list_ex covers (scopesFor pr perm)"

definition scopeCoversRun :: "peer \<Rightarrow> string \<Rightarrow> bool" where
  "scopeCoversRun pr run \<longleftrightarrow> list_ex (\<lambda>s. ''self'' \<in> set (sc_runs s) \<or> run \<in> set (sc_runs s)) (p_scopes pr)"

definition scopeCoversProduct :: "peer \<Rightarrow> string \<Rightarrow> bool" where
  "scopeCoversProduct pr slug \<longleftrightarrow> list_ex (\<lambda>s. slug \<in> set (sc_products s)) (scopesFor pr ProductsManage)"

record assert_ctx =
  cx_allowOperator :: bool
  cx_localOperatorConfirmation :: bool

definition topicParams :: "json \<Rightarrow> string list" where
  "topicParams params =
     (case params of
        JObj ob \<Rightarrow>
          (case jget ob ''topics'' of
             Some (JArr es) \<Rightarrow> str_entries (Some (JArr es))
           | _ \<Rightarrow> (case jget ob ''topic'' of Some (JStr t) \<Rightarrow> [t] | _ \<Rightarrow> []))
      | _ \<Rightarrow> [])"

text \<open>A member of \<open>params\<close> when that is an object.\<close>

definition param :: "json \<Rightarrow> string \<Rightarrow> json option" where
  "param params k = (case params of JObj ob \<Rightarrow> jget ob k | _ \<Rightarrow> None)"

definition need :: "peer \<Rightarrow> permission \<Rightarrow> (scope \<Rightarrow> bool) \<Rightarrow> thrown + unit" where
  "need pr perm covers = check (hasScopeCovering pr perm covers) (RpcError FORBIDDEN (Some ''params''))"

definition check_consume_topic :: "peer \<Rightarrow> string \<Rightarrow> thrown + unit" where
  "check_consume_topic pr t =
     (if \<not> isTopic t then Inl (RpcError SCHEMA_INVALID (Some ''topics''))
      else need pr EventsConsume (\<lambda>s. t \<in> set (sc_topics s)))"

definition check_manage :: "admission_ctx \<Rightarrow> scope \<Rightarrow> thrown + unit" where
  "check_manage ctx s =
     (case checkScopeAdmission s ctx of
        Inl (c, fld) \<Rightarrow> Inl (RpcError c (Some fld)) | Inr _ \<Rightarrow> Inr ())"

text \<open>\<open>params.source ?? params.slug\<close>: \<open>??\<close> skips \<open>null\<close> and \<open>undefined\<close>.\<close>

definition slug_param :: "json \<Rightarrow> json option" where
  "slug_param params =
     (case param params ''source'' of
        None \<Rightarrow> param params ''slug'' | Some JNull \<Rightarrow> param params ''slug'' | Some v \<Rightarrow> Some v)"

definition assert_manage :: "peer \<Rightarrow> json \<Rightarrow> assert_ctx \<Rightarrow> thrown + unit" where
  "assert_manage pr params ctx =
     (let admission = \<lparr>ac_role = p_role pr, ac_allowOperator = cx_allowOperator ctx,
                       ac_localOperatorConfirmation = cx_localOperatorConfirmation ctx\<rparr>;
          manages = scopesFor pr ProductsManage in
      if manages = [] then Inl (RpcError FORBIDDEN (Some ''params''))
      else andThen (first_error (check_manage admission) manages) (\<lambda>_.
        (case slug_param params of
           Some (JStr slug) \<Rightarrow> check (scopeCoversProduct pr slug) (RpcError FORBIDDEN (Some ''params''))
         | _ \<Rightarrow> Inr ())))"

definition assert_method :: "peer \<Rightarrow> role \<Rightarrow> string \<Rightarrow> json \<Rightarrow> assert_ctx \<Rightarrow> thrown + unit" where
  "assert_method pr letter meth params ctx =
     (if meth = ''events.publish'' then
        (case topicParams params of
           [] \<Rightarrow> Inl (RpcError SCHEMA_INVALID (Some ''topic''))
         | topic # _ \<Rightarrow>
             if \<not> isTopic topic then Inl (RpcError SCHEMA_INVALID (Some ''topic''))
             else need pr EventsEmit (\<lambda>s. topic \<in> set (sc_topics s)))
      else if meth \<in> {''events.query'', ''events.subscribe''} then
        first_error (check_consume_topic pr) (topicParams params)
      else if meth = ''events.ack'' then need pr EventsConsume (\<lambda>_. True)
      else if meth \<in> {''approval.request'', ''approval.cancel''} then
        need pr ApprovalsRequest (\<lambda>s. 0 < length (sc_runs s))
      else if meth = ''lineage.query'' then need pr LineageRead (\<lambda>s. 0 < length (sc_runs s))
      else if meth \<in> {''run.register'', ''run.heartbeat'', ''run.finish''} then
        check (list_ex (\<lambda>s. ''self'' \<in> set (sc_runs s) \<or>
            (case param params ''run_id'' of Some (JStr run) \<Rightarrow> run \<in> set (sc_runs s) | _ \<Rightarrow> False)) (p_scopes pr))
          (RpcError FORBIDDEN (Some ''run_id''))
      else if meth = ''agent.disconnect'' then
        check (\<not> (letter = RoleA \<and> param params ''peer'' \<noteq> Some (JStr (p_id pr))))
          (RpcError FORBIDDEN (Some ''peer''))
      else if meth \<in> {''product.plan'', ''product.install'', ''product.uninstall'', ''product.update'',
          ''product.rollback''} then assert_manage pr params ctx
      else Inr ())"

definition assertScope :: "peer \<Rightarrow> string \<Rightarrow> json \<Rightarrow> assert_ctx \<Rightarrow> thrown + unit" where
  "assertScope pr meth params ctx =
     (case roles_of meth of
        Inl e \<Rightarrow> Inl e
      | Inr roles \<Rightarrow>
          (let letter = (if p_role pr = OperatorRole then RoleO else RoleA) in
           if letter \<notin> set roles then Inl (RpcError FORBIDDEN (Some ''method''))
           else assert_method pr letter meth params ctx))"

section \<open>Lemmas\<close>

lemma push_scope_set: "e \<in> set (push_scope out m) \<Longrightarrow> e \<in> set out \<or> e = m"
  by (auto simp: push_scope_def split: if_splits)

lemma intersect_row_set:
  "e \<in> set (intersect_row s b out) \<Longrightarrow>
   e \<in> set out \<or> (\<exists>o1\<in>set b. sc_permission s = sc_permission o1 \<and> e = merge_scope s o1)"
  unfolding intersect_row_def
  by (induction b arbitrary: out) (auto split: if_splits dest: push_scope_set)

lemma intersectScopes_set:
  assumes "e \<in> set (intersectScopes a b)"
  shows "\<exists>s\<in>set a. \<exists>o1\<in>set b. sc_permission s = sc_permission o1 \<and> e = merge_scope s o1"
proof -
  have "e \<in> set (fold (\<lambda>s out. intersect_row s b out) a out) \<Longrightarrow> e \<in> set out \<or>
      (\<exists>s\<in>set a. \<exists>o1\<in>set b. sc_permission s = sc_permission o1 \<and> e = merge_scope s o1)" for out
    by (induction a arbitrary: out) (auto dest: intersect_row_set)
  from this [of "[]"] assms show ?thesis unfolding intersectScopes_def by simp
qed

lemma scopeWithin_iff:
  "scopeWithin e outer \<longleftrightarrow> (\<exists>o1\<in>set outer. sc_permission o1 = sc_permission e \<and>
     set (sc_topics e) \<subseteq> set (sc_topics o1) \<and> set (sc_runs e) \<subseteq> set (sc_runs o1) \<and>
     set (sc_products e) \<subseteq> set (sc_products o1))"
  by (auto simp: scopeWithin_def list_ex_iff list_all_iff)

lemma scopeWithin_trans:
  "scopeWithin e mid \<Longrightarrow> \<forall>m\<in>set mid. scopeWithin m outer \<Longrightarrow> scopeWithin e outer"
  unfolding scopeWithin_iff by (metis subset_trans)

lemma intersectScopes_within:
  "e \<in> set (intersectScopes a b) \<Longrightarrow> scopeWithin e a \<and> scopeWithin e b"
  unfolding scopeWithin_iff by (drule intersectScopes_set) (fastforce simp: merge_scope_def)

lemma fold_push_keeps: "e \<in> set out \<Longrightarrow> e \<in> set (intersect_row s b out)"
  unfolding intersect_row_def by (induction b arbitrary: out) (auto simp: push_scope_def)

lemma intersect_row_adds:
  "o1 \<in> set b \<Longrightarrow> sc_permission s = sc_permission o1 \<Longrightarrow>
   \<exists>e\<in>set (intersect_row s b out). e = merge_scope s o1 \<or> same_joined e (merge_scope s o1)"
proof (induction b arbitrary: out)
  case (Cons x b)
  show ?case
  proof (cases "o1 = x")
    case True
    then have "\<exists>e\<in>set (push_scope out (merge_scope s o1)).
        e = merge_scope s o1 \<or> same_joined e (merge_scope s o1)"
      by (auto simp: push_scope_def list_ex_iff)
    with True Cons.prems show ?thesis
      using fold_push_keeps [of _ "push_scope out (merge_scope s o1)" s b]
      by (auto simp: intersect_row_def)
  next
    case False
    with Cons show ?thesis by (auto simp: intersect_row_def)
  qed
qed simp

lemma intersectScopes_adds:
  assumes "s \<in> set a" "o1 \<in> set b" "sc_permission s = sc_permission o1"
  shows "\<exists>e\<in>set (intersectScopes a b). e = merge_scope s o1 \<or> same_joined e (merge_scope s o1)"
proof -
  have keep: "e \<in> set out \<Longrightarrow> e \<in> set (fold (\<lambda>s out. intersect_row s b out) xs out)" for e out xs
    by (induction xs arbitrary: out) (auto intro: fold_push_keeps)
  have "\<exists>e\<in>set (fold (\<lambda>s out. intersect_row s b out) a out).
      e = merge_scope s o1 \<or> same_joined e (merge_scope s o1)" for out
    using assms(1)
  proof (induction a arbitrary: out)
    case (Cons x a)
    then show ?case
      using intersect_row_adds [OF assms(2,3), of out] keep [of _ "intersect_row s b out" a] by auto
  qed simp
  then show ?thesis unfolding intersectScopes_def by simp
qed

lemma bind_scope_entry:
  "e \<in> set (bind_scope caps s) \<Longrightarrow> sc_permission e = sc_permission s \<and>
     set (sc_topics e) \<subseteq> set (sc_topics s) \<and> sc_runs e = sc_runs s \<and> sc_products e = sc_products s"
  by (cases "sc_permission s") (auto simp: bind_scope_def split: if_splits)

lemma bindCapabilities_within:
  assumes "e \<in> set (bindCapabilities scopes caps)"
  shows "scopeWithin e scopes"
proof -
  obtain s where "s \<in> set scopes" "e \<in> set (bind_scope caps s)"
    using assms by (auto simp: bindCapabilities_def)
  then show ?thesis
    unfolding scopeWithin_iff by (intro bexI [of _ s]) (auto dest: bind_scope_entry)
qed

section \<open>Properties\<close>

text \<open>
  C21. The effective grant of a peer never exceeds any of its three ceilings: each scope of it
  is within one requested scope, one approved scope, and one scope of the configured policy
  when there is one.
\<close>

theorem effective_grant_never_widens:
  "e \<in> set (effectiveGrant requested approved policy) \<Longrightarrow>
     scopeWithin e requested \<and> scopeWithin e approved \<and>
     (case policy of None \<Rightarrow> True | Some p \<Rightarrow> scopeWithin e p)"
proof (cases policy)
  case None
  then show "e \<in> set (effectiveGrant requested approved policy) \<Longrightarrow> ?thesis"
    by (auto simp: effectiveGrant_def dest: intersectScopes_within)
next
  case (Some p)
  assume "e \<in> set (effectiveGrant requested approved policy)"
  with Some have "scopeWithin e (intersectScopes requested approved)" "scopeWithin e p"
    by (auto simp: effectiveGrant_def dest: intersectScopes_within)
  then show ?thesis
    using Some by (auto intro: scopeWithin_trans dest: intersectScopes_within)
qed

theorem effective_grant_never_widens_witness:
  "scopeWithin \<lparr>sc_permission = EventsEmit, sc_topics = [''agent.task.finished''], sc_runs = [], sc_products = []\<rparr>
     [\<lparr>sc_permission = EventsEmit, sc_topics = [''policy.verdict'', ''agent.task.finished''], sc_runs = [],
       sc_products = []\<rparr>]"
  using effective_grant_never_widens [of
      "\<lparr>sc_permission = EventsEmit, sc_topics = [''agent.task.finished''], sc_runs = [], sc_products = []\<rparr>"
      "[\<lparr>sc_permission = EventsEmit, sc_topics = [''policy.verdict'', ''agent.task.finished''], sc_runs = [],
        sc_products = []\<rparr>]"
      "[\<lparr>sc_permission = EventsEmit, sc_topics = [''agent.task.finished''], sc_runs = [], sc_products = []\<rparr>]" None]
  by (simp add: effectiveGrant_def intersectScopes_def intersect_row_def push_scope_def merge_scope_def)

text \<open>The duplicate test of \<open>intersectScopes\<close> joins a dimension without a separator, so two
  different approved scopes can be taken for one: here the grant to manage the products
  \<open>a\<close> and \<open>bc\<close>, requested and approved, is dropped because one for \<open>ab\<close> and \<open>c\<close> precedes it.
\<close>

theorem intersect_drops_approved_scope:
  "let s1 = \<lparr>sc_permission = ProductsManage, sc_topics = [], sc_runs = [], sc_products = [''ab'', ''c'']\<rparr>;
       s2 = \<lparr>sc_permission = ProductsManage, sc_topics = [], sc_runs = [], sc_products = [''a'', ''bc'']\<rparr>
   in \<not> list_ex (\<lambda>e. ''bc'' \<in> set (sc_products e)) (intersectScopes [s1, s2] [s1, s2]) \<and>
      list_ex (\<lambda>e. ''bc'' \<in> set (sc_products e)) (intersectScopes [s2, s1] [s2, s1])"
  by (simp add: intersectScopes_def intersect_row_def push_scope_def merge_scope_def same_joined_def)

lemma check_manage_ok [simp]:
  "check_manage ac s = Inr () \<longleftrightarrow> (sc_permission s = ProductsManage \<longrightarrow>
     ac_role ac = OperatorRole \<and> ac_allowOperator ac \<and> ac_localOperatorConfirmation ac \<and> sc_products s \<noteq> [])"
  by (auto simp: check_manage_def checkScopeAdmission_def split: if_splits)

lemma scopesFor_set [simp]: "s \<in> set (scopesFor pr perm) \<longleftrightarrow> s \<in> set (p_scopes pr) \<and> sc_permission s = perm"
  by (auto simp: scopesFor_def)

lemma scopesFor_empty: "scopesFor pr perm = [] \<longleftrightarrow> (\<forall>s\<in>set (p_scopes pr). sc_permission s \<noteq> perm)"
  by (auto simp: scopesFor_def filter_empty_conv)

lemma assert_manage_ok:
  "assert_manage pr params ctx = Inr () \<longleftrightarrow>
     (\<exists>s\<in>set (p_scopes pr). sc_permission s = ProductsManage) \<and>
     p_role pr = OperatorRole \<and> cx_allowOperator ctx \<and> cx_localOperatorConfirmation ctx \<and>
     (\<forall>s\<in>set (p_scopes pr). sc_permission s = ProductsManage \<longrightarrow> sc_products s \<noteq> []) \<and>
     (\<forall>slug. slug_param params = Some (JStr slug) \<longrightarrow>
        (\<exists>s\<in>set (p_scopes pr). sc_permission s = ProductsManage \<and> slug \<in> set (sc_products s)))"
proof (cases "scopesFor pr ProductsManage = []")
  case True
  then show ?thesis by (auto simp: assert_manage_def scopesFor_empty)
next
  case False
  then have ex: "\<exists>s\<in>set (p_scopes pr). sc_permission s = ProductsManage" by (auto simp: scopesFor_empty)
  have slug: "(case v of Some (JStr slug) \<Rightarrow> check (scopeCoversProduct pr slug) e | _ \<Rightarrow> Inr ()) = Inr () \<longleftrightarrow>
      (\<forall>slug. v = Some (JStr slug) \<longrightarrow> scopeCoversProduct pr slug)" for v and e :: thrown
    by (auto split: option.splits json.splits)
  show ?thesis
    using False ex by (auto simp: assert_manage_def Let_def slug scopeCoversProduct_def list_ex_iff Bex_def)
qed

lemma roles_of_registry:
  "roles_of ''product.plan'' = Inr [RoleO]" "roles_of ''product.install'' = Inr [RoleO]"
  "roles_of ''product.uninstall'' = Inr [RoleO]" "roles_of ''product.update'' = Inr [RoleO]"
  "roles_of ''product.rollback'' = Inr [RoleO]"
  "roles_of ''events.publish'' = Inr [RoleA, RoleO]" "roles_of ''events.subscribe'' = Inr [RoleV, RoleA, RoleO]"
  by code_simp+

lemma roles_of_product:
  "meth \<in> {''product.plan'', ''product.install'', ''product.uninstall'', ''product.update'',
      ''product.rollback''} \<Longrightarrow> roles_of meth = Inr [RoleO]"
  using roles_of_registry by blast

text \<open>
  Product management is never admitted for a normal agent, whatever its scopes, the
  configuration flag and the confirmation; an operator peer is admitted only with the flag,
  a confirmation and a scope naming products, the product of the call among them.
\<close>

theorem product_calls_need_operator_tier:
  assumes "meth \<in> {''product.plan'', ''product.install'', ''product.uninstall'', ''product.update'',
      ''product.rollback''}"
  shows "(p_role pr = AgentRole \<longrightarrow> assertScope pr meth params ctx = Inl (RpcError FORBIDDEN (Some ''method''))) \<and>
    (assertScope pr meth params ctx = Inr () \<longleftrightarrow>
      p_role pr = OperatorRole \<and> cx_allowOperator ctx \<and> cx_localOperatorConfirmation ctx \<and>
      (\<exists>s\<in>set (p_scopes pr). sc_permission s = ProductsManage) \<and>
      (\<forall>s\<in>set (p_scopes pr). sc_permission s = ProductsManage \<longrightarrow> sc_products s \<noteq> []) \<and>
      (\<forall>slug. slug_param params = Some (JStr slug) \<longrightarrow>
        (\<exists>s\<in>set (p_scopes pr). sc_permission s = ProductsManage \<and> slug \<in> set (sc_products s))))"
proof -
  have "assert_method pr letter meth params ctx = assert_manage pr params ctx" for letter
    using assms by (elim insertE emptyE; hypsubst) (simp_all add: assert_method_def)
  then show ?thesis
    using assert_manage_ok [of pr params ctx]
    by (cases "p_role pr") (auto simp: assertScope_def roles_of_product [OF assms])
qed

definition operator_peer :: peer where
  "operator_peer = \<lparr>p_id = ''op'', p_source = ''op'', p_key = ''k'', p_role = OperatorRole,
     p_scopes = [\<lparr>sc_permission = ProductsManage, sc_topics = [], sc_runs = [], sc_products = [''demo'']\<rparr>],
     p_capabilities = [], p_state = CONNECTED, p_grant_revision = ''1''\<rparr>"

theorem product_calls_need_operator_tier_witness:
  "assertScope operator_peer ''product.plan'' (JObj [(''slug'', JStr ''demo'')])
     \<lparr>cx_allowOperator = True, cx_localOperatorConfirmation = True\<rparr> = Inr ()"
  using product_calls_need_operator_tier [of "''product.plan''" operator_peer "JObj [(''slug'', JStr ''demo'')]"
      "\<lparr>cx_allowOperator = True, cx_localOperatorConfirmation = True\<rparr>"]
  by (simp add: operator_peer_def slug_param_def param_def jget_def)

lemma need_ok [simp]:
  "need pr perm covers = Inr () \<longleftrightarrow> (\<exists>s\<in>set (p_scopes pr). sc_permission s = perm \<and> covers s)"
  by (auto simp: need_def hasScopeCovering_def list_ex_iff)

text \<open>
  A publication is admitted exactly for an agent or operator peer that holds an
  \<open>events.emit\<close> scope naming the very topic of the call, a topic of the registry; a
  subscription exactly when every topic it names is a registry topic covered by an
  \<open>events.consume\<close> scope (so one that names none needs no scope).
\<close>

theorem topic_calls_need_exact_scope:
  "(assertScope pr ''events.publish'' params ctx = Inr () \<longleftrightarrow>
      (\<exists>topic rest. topicParams params = topic # rest \<and> isTopic topic \<and>
        (\<exists>s\<in>set (p_scopes pr). sc_permission s = EventsEmit \<and> topic \<in> set (sc_topics s)))) \<and>
   (assertScope pr ''events.subscribe'' params ctx = Inr () \<longleftrightarrow>
      (\<forall>topic\<in>set (topicParams params). isTopic topic \<and>
        (\<exists>s\<in>set (p_scopes pr). sc_permission s = EventsConsume \<and> topic \<in> set (sc_topics s))))"
proof
  show "assertScope pr ''events.publish'' params ctx = Inr () \<longleftrightarrow>
      (\<exists>topic rest. topicParams params = topic # rest \<and> isTopic topic \<and>
        (\<exists>s\<in>set (p_scopes pr). sc_permission s = EventsEmit \<and> topic \<in> set (sc_topics s)))"
    by (cases "topicParams params") (auto simp: assertScope_def roles_of_registry assert_method_def Let_def)
  have "assert_method pr letter ''events.subscribe'' params ctx =
      first_error (check_consume_topic pr) (topicParams params)" for letter
    by (simp add: assert_method_def)
  then show "assertScope pr ''events.subscribe'' params ctx = Inr () \<longleftrightarrow>
      (\<forall>topic\<in>set (topicParams params). isTopic topic \<and>
        (\<exists>s\<in>set (p_scopes pr). sc_permission s = EventsConsume \<and> topic \<in> set (sc_topics s)))"
    by (auto simp: assertScope_def roles_of_registry check_consume_topic_def Let_def split: if_splits)
qed


theorem topic_calls_need_exact_scope_witness:
  "assertScope (operator_peer\<lparr>p_role := AgentRole,
       p_scopes := [\<lparr>sc_permission = EventsEmit, sc_topics = [''telemetry''], sc_runs = [], sc_products = []\<rparr>]\<rparr>)
     ''events.publish'' (JObj [(''topic'', JStr ''telemetry'')])
     \<lparr>cx_allowOperator = False, cx_localOperatorConfirmation = False\<rparr> = Inr ()"
  using topic_calls_need_exact_scope [of "operator_peer\<lparr>p_role := AgentRole,
       p_scopes := [\<lparr>sc_permission = EventsEmit, sc_topics = [''telemetry''], sc_runs = [], sc_products = []\<rparr>]\<rparr>"
     "JObj [(''topic'', JStr ''telemetry'')]" "\<lparr>cx_allowOperator = False, cx_localOperatorConfirmation = False\<rparr>"]
  by (simp add: topicParams_def jget_def isTopic_def TOPICS_def)

end
