(* ===== verification/Peer_Pairing.thy ===== *)
theory Peer_Pairing
  imports Peer_Tokens Peer_Scopes
begin

text \<open>
  Model of \<open>packages/core/src/v2/peers/pairs.ts\<close>: the lexical validation of a signed
  registration and the pairing ceremony (create, propose, get, approve, cancel, register,
  consume) with its attempt lock, expiry and challenge binding.
\<close>

section \<open>Lexical validation\<close>

record registration =
  rg_pair :: string
  rg_code :: string
  rg_key :: key_material
  rg_challenge :: string
  rg_client_nonce :: string
  rg_server_nonce :: string
  rg_epoch :: string
  rg_profiles :: "string list"
  rg_interfaces :: string
  rg_capabilities :: "json list"
  rg_proof :: string

definition REGISTRATION_KEYS :: "string list" where
  "REGISTRATION_KEYS = [''pair'', ''code'', ''key'', ''challenge'', ''client_nonce'', ''server_nonce'',
     ''epoch'', ''profiles'', ''interfaces'', ''capabilities'', ''proof'']"

definition CAPABILITY_KEYS :: "string list" where
  "CAPABILITY_KEYS = [''name'', ''revision'', ''profiles'', ''emit'', ''consume'', ''request_approvals'', ''lineage'']"

definition onlyKeys :: "jobj \<Rightarrow> string list \<Rightarrow> string option" where
  "onlyKeys ob allowed = find (\<lambda>k. k \<notin> set allowed) (map fst ob)"

fun distinct_strings :: "string list \<Rightarrow> json list \<Rightarrow> bool" where
  "distinct_strings seen [] = True"
| "distinct_strings seen (JStr e # es) = (e \<noteq> [] \<and> e \<notin> set seen \<and> distinct_strings (e # seen) es)"
| "distinct_strings seen (_ # es) = False"

definition isStringArray :: "json option \<Rightarrow> nat \<Rightarrow> bool" where
  "isStringArray v mx = (case v of Some (JArr es) \<Rightarrow> length es \<le> mx \<and> distinct_strings [] es | _ \<Rightarrow> False)"

definition is_str :: "json option \<Rightarrow> (string \<Rightarrow> bool) \<Rightarrow> bool" where
  "is_str v p = (case v of Some (JStr s) \<Rightarrow> p s | _ \<Rightarrow> False)"

definition b64u32 :: "json option \<Rightarrow> bool" where
  "b64u32 v = is_str v (\<lambda>s. isB64uCanonical s \<and> length (b64u_decode s) = 32)"

definition schema :: "bool \<times> string \<Rightarrow> thrown + unit" where
  "schema r = check (fst r) (RpcError SCHEMA_INVALID (Some (snd r)))"

definition validateCapability :: "json \<Rightarrow> thrown + unit" where
  "validateCapability cap =
     first_error schema
       (case cap of
          JObj c \<Rightarrow>
            map (\<lambda>b. (b, ''capabilities''))
              [onlyKeys c CAPABILITY_KEYS = None,
               is_str (jget c ''name'') (\<lambda>s. s \<noteq> [] \<and> utf8_bytes s \<le> maxNameBytes),
               jget c ''revision'' = Some (JNum 1),
               isStringArray (jget c ''profiles'') maxSetEntries,
               isStringArray (jget c ''emit'') maxSetEntries,
               isStringArray (jget c ''consume'') maxSetEntries,
               (case jget c ''request_approvals'' of Some (JBool _) \<Rightarrow> True | _ \<Rightarrow> False),
               jget c ''lineage'' \<in> {Some (JStr ''none''), Some (JStr ''own'')}]
        | _ \<Rightarrow> [(False, ''capabilities'')])"

definition str_field :: "jobj \<Rightarrow> string \<Rightarrow> string" where
  "str_field ob k = (case jget ob k of Some (JStr s) \<Rightarrow> s | _ \<Rightarrow> [])"

definition obj_field :: "jobj \<Rightarrow> string \<Rightarrow> jobj option" where
  "obj_field ob k = (case jget ob k of Some (JObj o1) \<Rightarrow> Some o1 | _ \<Rightarrow> None)"

definition arr_field :: "jobj \<Rightarrow> string \<Rightarrow> json list" where
  "arr_field ob k = (case jget ob k of Some (JArr es) \<Rightarrow> es | _ \<Rightarrow> [])"

text \<open>The typed view of an object that passed the checks.\<close>

definition registration_of :: "jobj \<Rightarrow> registration" where
  "registration_of r =
     (let km = the (obj_field r ''key'') in
      \<lparr>rg_pair = str_field r ''pair'', rg_code = str_field r ''code'',
       rg_key = \<lparr>km_id = str_field km ''id'', km_public = str_field km ''public''\<rparr>,
       rg_challenge = str_field r ''challenge'', rg_client_nonce = str_field r ''client_nonce'',
       rg_server_nonce = str_field r ''server_nonce'', rg_epoch = str_field r ''epoch'',
       rg_profiles = str_entries (jget r ''profiles''), rg_interfaces = str_field r ''interfaces'',
       rg_capabilities = arr_field r ''capabilities'', rg_proof = str_field r ''proof''\<rparr>)"

definition capability_of :: "json \<Rightarrow> capability" where
  "capability_of v =
     (case v of
        JObj c \<Rightarrow> \<lparr>cap_name = str_field c ''name'', cap_profiles = str_entries (jget c ''profiles''),
                   cap_emit = str_entries (jget c ''emit''), cap_consume = str_entries (jget c ''consume''),
                   cap_request_approvals = (jget c ''request_approvals'' = Some (JBool True)),
                   cap_lineage = (if jget c ''lineage'' = Some (JStr ''own'') then LineageOwn else LineageNone)\<rparr>
      | _ \<Rightarrow> \<lparr>cap_name = [], cap_profiles = [], cap_emit = [], cap_consume = [],
             cap_request_approvals = False, cap_lineage = LineageNone\<rparr>)"

definition key_checks :: "jobj option \<Rightarrow> (bool \<times> string) list" where
  "key_checks k =
     (case k of
        None \<Rightarrow> [(False, ''key'')]
      | Some km \<Rightarrow>
          [(onlyKeys km [''id'', ''public''] = None, ''key''),
           (is_str (jget km ''id'') (\<lambda>s. isHash64 (JStr s)), ''key''),
           (b64u32 (jget km ''public''), ''key'')])"

definition is_id_field :: "json option \<Rightarrow> bool" where
  "is_id_field v = is_str v (\<lambda>s. isId (JStr s))"

definition validateRegistrationShape :: "json \<Rightarrow> thrown + registration" where
  "validateRegistrationShape reg =
     (case reg of
        JObj r \<Rightarrow>
          (case onlyKeys r REGISTRATION_KEYS of
             Some extra \<Rightarrow> Inl (RpcError SCHEMA_INVALID (Some extra))
           | None \<Rightarrow>
               andThen (first_error (\<lambda>k. schema (jget r k \<noteq> None, k)) REGISTRATION_KEYS) (\<lambda>_.
               andThen (first_error schema
                 ([(is_id_field (jget r ''pair''), ''pair''), (is_str (jget r ''code'') (\<lambda>_. True), ''code'')] @
                  key_checks (obj_field r ''key'') @
                  [(is_id_field (jget r ''challenge''), ''challenge''),
                   (b64u32 (jget r ''client_nonce''), ''client_nonce''),
                   (b64u32 (jget r ''server_nonce''), ''server_nonce''),
                   (is_str (jget r ''epoch'') (rx_test RX_COUNT), ''epoch''),
                   (isStringArray (jget r ''profiles'') maxSetEntries, ''profiles''),
                   (is_str (jget r ''interfaces'') (\<lambda>_. True), ''interfaces''),
                   ((case jget r ''capabilities'' of Some (JArr es) \<Rightarrow> length es \<le> maxCapabilities | _ \<Rightarrow> False),
                    ''capabilities'')])) (\<lambda>_.
               andThen (first_error validateCapability (arr_field r ''capabilities'')) (\<lambda>_.
               andThen (schema (is_str (jget r ''proof'') isB64uCanonical, ''proof'')) (\<lambda>_.
                 Inr (registration_of r))))))
      | _ \<Rightarrow> Inl (RpcError SCHEMA_INVALID None))"

definition key_json :: "key_material \<Rightarrow> json" where
  "key_json k = JObj [(''id'', JStr (km_id k)), (''public'', JStr (km_public k))]"

definition proposalOfRegistration :: "node_crypto \<Rightarrow> registration \<Rightarrow> thrown + string" where
  "proposalOfRegistration nc reg =
     (case canonicalJson (JObj
        [(''key'', key_json (rg_key reg)), (''profiles'', JArr (map JStr (rg_profiles reg))),
         (''interfaces'', JStr (rg_interfaces reg)), (''capabilities'', JArr (rg_capabilities reg))]) of
        Inl _ \<Rightarrow> Inl JsCryptoError
      | Inr text \<Rightarrow> Inr (sha256Hex nc text))"

fun permission_name :: "permission \<Rightarrow> string" where
  "permission_name EventsEmit = ''events.emit''"
| "permission_name EventsConsume = ''events.consume''"
| "permission_name ApprovalsRequest = ''approvals.request''"
| "permission_name LineageRead = ''lineage.read''"
| "permission_name ProductsManage = ''products.manage''"

definition scope_json :: "scope \<Rightarrow> json" where
  "scope_json s = JObj [(''permission'', JStr (permission_name (sc_permission s))),
     (''topics'', JArr (map JStr (sc_topics s))), (''runs'', JArr (map JStr (sc_runs s))),
     (''products'', JArr (map JStr (sc_products s)))]"

definition scopesEqual :: "scope list \<Rightarrow> scope list \<Rightarrow> bool" where
  "scopesEqual a b \<longleftrightarrow> list_all2 (\<lambda>x y. canonicalJson (scope_json x) = canonicalJson (scope_json y)) a b"

section \<open>The manager\<close>

definition is_live :: "pair_record \<Rightarrow> bool" where
  "is_live rec \<longleftrightarrow> pr_state rec \<in> set PAIR_LIVE_STATES"

definition pair_transition :: "pair_record \<Rightarrow> pair_state \<Rightarrow> pair_record peer_op" where
  "pair_transition rec st =
     thenE (assertE (canPairTransition (pr_state rec) st) (RpcError STATE_TRANSITION (Some ''pair'')))
    (thenE (modifyE (put_pair (rec\<lparr>pr_state := st\<rparr>))) (returnE (rec\<lparr>pr_state := st\<rparr>)))"

definition assertLive :: "agent_config \<Rightarrow> pair_record \<Rightarrow> unit peer_op" where
  "assertLive cf rec =
     (\<lambda>s. if pr_epoch rec \<noteq> cf_epoch cf then
         (if is_live rec then thenE (pair_transition rec EXPIRED) (fail PAIRING_EXPIRED (Some ''pair'')) s
          else fail PAIRING_EXPIRED (Some ''pair'') s)
       else if is_live rec \<and> pp_now s \<ge> pr_expires_ms rec then
         thenE (pair_transition rec EXPIRED) (fail PAIRING_EXPIRED (Some ''pair'')) s
       else (case pr_state rec of
               EXPIRED \<Rightarrow> fail PAIRING_EXPIRED (Some ''pair'') s
             | LOCKED \<Rightarrow> fail PAIRING_LOCKED (Some ''pair'') s
             | CANCELLED \<Rightarrow> fail STATE_TRANSITION (Some ''pair'') s
             | CONSUMED \<Rightarrow> fail STATE_TRANSITION (Some ''pair'') s
             | _ \<Rightarrow> returnE () s))"

text \<open>
  \<open>failAttempt\<close> always throws.  The incremented counter is in the shared record before the
  transition that may throw, so it is written first.
\<close>

definition failAttempt :: "pair_record \<Rightarrow> error_code \<Rightarrow> 'a peer_op" where
  "failAttempt rec c =
     (let rec' = rec\<lparr>pr_attempts := pr_attempts rec + 1\<rparr> in
      thenE (modifyE (put_pair rec'))
        (if pr_attempts rec' \<ge> maxCodeAttempts then
           thenE (if pr_state rec' \<noteq> LOCKED then pair_transition rec' LOCKED else returnE rec')
             (fail PAIRING_LOCKED (Some ''code''))
         else fail c (Some ''code'')))"

definition checkCode :: "agent_config \<Rightarrow> pair_record \<Rightarrow> string \<Rightarrow> unit peer_op" where
  "checkCode cf rec code =
     (if \<not> isPairCode code then fail SCHEMA_INVALID (Some ''code'')
      else if sha256Hex (cf_crypto cf) code \<noteq> pr_code_hash rec then failAttempt rec FORBIDDEN
      else returnE ())"

definition checkChallenge :: "agent_config \<Rightarrow> registration \<Rightarrow> unit peer_op" where
  "checkChallenge cf reg =
     (\<lambda>s. case get_challenge (rg_challenge reg) s of
        None \<Rightarrow> fail AUTH_REQUIRED (Some ''challenge'') s
      | Some ch \<Rightarrow>
          assertE (ch_epoch ch = cf_epoch cf \<and> rg_epoch reg = cf_epoch cf \<and> \<not> ch_consumed ch \<and>
              pp_now s < ch_expires_ms ch \<and> ch_client_nonce ch = rg_client_nonce reg \<and>
              ch_server_nonce ch = rg_server_nonce reg \<and> ch_key_id ch = km_id (rg_key reg))
            (RpcError AUTH_REQUIRED (Some ''challenge'')) s)"

text \<open>\<open>RateLimiter.check\<close> of \<open>service.ts\<close>\<close>

definition authAttemptsPerKeyPerMinute :: nat where "authAttemptsPerKeyPerMinute = 5"
definition authAttemptsPerInstancePerMinute :: nat where "authAttemptsPerInstancePerMinute = 100"

definition key_hits :: "string \<Rightarrow> peer_ports \<Rightarrow> int list" where
  "key_hits key s = filter (\<lambda>t. pp_now s - 60000 < t)
     (case map_of (rl_perKey s) key of None \<Rightarrow> [] | Some hs \<Rightarrow> hs)"

definition limiter_check :: "string \<Rightarrow> unit peer_op" where
  "limiter_check key =
     (\<lambda>s. let hits = key_hits key s; inst = filter (\<lambda>t. pp_now s - 60000 < t) (rl_instanceHits s);
            s' = s\<lparr>rl_instanceHits := inst\<rparr> in
       if length hits \<ge> authAttemptsPerKeyPerMinute then fail BUSY None s'
       else if length inst \<ge> authAttemptsPerInstancePerMinute then fail BUSY None s'
       else (Inr (), s'\<lparr>rl_instanceHits := inst @ [pp_now s],
                       rl_perKey := aput key (hits @ [pp_now s]) (rl_perKey s)\<rparr>))"

definition register_body :: "agent_config \<Rightarrow> registration \<Rightarrow> json" where
  "register_body cf reg = registerBody
     \<lparr>rb_gateway = cf_gateway cf, rb_workspace = cf_workspace cf, rb_epoch = rg_epoch reg, rb_pair = rg_pair reg,
      rb_challenge = rg_challenge reg, rb_client_nonce = rg_client_nonce reg,
      rb_server_nonce = rg_server_nonce reg, rb_key = km_id (rg_key reg), rb_profiles = rg_profiles reg,
      rb_interfaces = rg_interfaces reg, rb_capabilities = rg_capabilities reg\<rparr>"

definition checkKeyAndProof :: "agent_config \<Rightarrow> pair_record \<Rightarrow> registration \<Rightarrow> unit peer_op" where
  "checkKeyAndProof cf rec reg =
     (case keyIdOfPublic (cf_crypto cf) (km_public (rg_key reg)) of
        Inl _ \<Rightarrow> failAttempt rec FORBIDDEN
      | Inr derived \<Rightarrow>
          if derived \<noteq> km_id (rg_key reg) then failAttempt rec FORBIDDEN
          else if pr_pinned_key rec \<noteq> None \<and> pr_pinned_key rec \<noteq> Some (km_id (rg_key reg)) then failAttempt rec FORBIDDEN
          else if \<not> verifyRegister (cf_crypto cf) (register_body cf reg) (rg_proof reg) (km_public (rg_key reg))
          then failAttempt rec SIGNATURE_INVALID
          else returnE ())"

definition checkProfiles :: "agent_config \<Rightarrow> registration \<Rightarrow> thrown + unit" where
  "checkProfiles cf reg =
     andThen (check (rg_interfaces reg = cf_interfaces cf) (RpcError SCHEMA_UNSUPPORTED (Some ''interfaces''))) (\<lambda>_.
       first_error (\<lambda>p. check (p \<in> set (cf_profiles cf)) (RpcError SCHEMA_UNSUPPORTED (Some ''profiles''))) (rg_profiles reg))"

definition lookupPair :: "string \<Rightarrow> pair_record peer_op" where
  "lookupPair i =
     bindE (getsE (get_pair i)) (\<lambda>r. case r of None \<Rightarrow> fail NOT_FOUND (Some ''pair'') | Some rec \<Rightarrow> returnE rec)"

definition validateRegistration :: "agent_config \<Rightarrow> json \<Rightarrow> (pair_record \<times> registration) peer_op" where
  "validateRegistration cf reg =
     bindE (liftE (validateRegistrationShape reg)) (\<lambda>valid.
     bindE (lookupPair (rg_pair valid)) (\<lambda>rec.
     thenE (assertLive cf rec)
    (thenE (checkCode cf rec (rg_code valid))
    (thenE (checkChallenge cf valid)
    (thenE (limiter_check (km_id (rg_key valid)))
    (thenE (checkKeyAndProof cf rec valid)
    (thenE (liftE (checkProfiles cf valid)) (returnE (rec, valid)))))))))"

record pair_view =
  pv_pair :: string
  pv_state :: pair_state
  pv_proposal :: string
  pv_key :: string
  pv_scopes :: "scope list"

definition Z64 :: string where "Z64 = replicate 64 CHR ''0''"

definition pair_view_of :: "pair_record \<Rightarrow> pair_view" where
  "pair_view_of rec =
     \<lparr>pv_pair = pr_pair rec, pv_state = pr_state rec,
      pv_proposal = (case pr_proposal rec of None \<Rightarrow> Z64 | Some p \<Rightarrow> p),
      pv_key = (case pr_proposal_key rec of Some k \<Rightarrow> k
                | None \<Rightarrow> (case pr_pinned_key rec of Some k \<Rightarrow> k | None \<Rightarrow> Z64)),
      pv_scopes = (case pr_approved rec of Some a \<Rightarrow> ac_scopes a | None \<Rightarrow> pr_scopes rec)\<rparr>"

definition pending_pairs :: "agent_config \<Rightarrow> peer_ports \<Rightarrow> nat" where
  "pending_pairs cf s = length (filter (\<lambda>rec. is_live rec \<and> pr_epoch rec = cf_epoch cf \<and>
     pp_now s < pr_expires_ms rec) (list_pairs s))"

definition createInvitation ::
  "agent_config \<Rightarrow> peer_role \<Rightarrow> scope list \<Rightarrow> string option \<Rightarrow> (string \<times> string \<times> int) peer_op" where
  "createInvitation cf rl scopes key =
     bindE (getsE (\<lambda>s. (pp_now s, pending_pairs cf s))) (\<lambda>(now, pending).
     thenE (assertE (pending < maxPendingInvitations) (RpcError BUSY (Some ''pair'')))
    (bindE (draw_pairCode (cf_entropy cf)) (\<lambda>code.
     bindE (newId (cf_ids cf) ''pair'') (\<lambda>i.
       let rec = \<lparr>pr_pair = i, pr_code_hash = sha256Hex (cf_crypto cf) code, pr_role = rl, pr_scopes = scopes,
                  pr_pinned_key = key, pr_state = CREATED, pr_epoch = cf_epoch cf, pr_attempts = 0,
                  pr_proposal = None, pr_proposal_key = None, pr_proposal_key_material = None,
                  pr_proposal_profiles = None, pr_proposal_interfaces = None, pr_proposal_capabilities = None,
                  pr_approved = None, pr_created_ms = now, pr_expires_ms = now + invitationTtlMs\<rparr> in
       thenE (modifyE (put_pair rec)) (returnE (i, code, pr_expires_ms rec))))))"

definition set_proposal :: "string \<Rightarrow> registration \<Rightarrow> pair_record \<Rightarrow> pair_record" where
  "set_proposal h reg rec = rec\<lparr>pr_proposal := Some h, pr_proposal_key := Some (km_id (rg_key reg)),
     pr_proposal_key_material := Some (rg_key reg), pr_proposal_profiles := Some (rg_profiles reg),
     pr_proposal_interfaces := Some (rg_interfaces reg), pr_proposal_capabilities := Some (rg_capabilities reg),
     pr_approved := None\<rparr>"

definition propose :: "agent_config \<Rightarrow> json \<Rightarrow> pair_view peer_op" where
  "propose cf registration =
     bindE (validateRegistration cf registration) (\<lambda>(rec, reg).
     bindE (liftE (proposalOfRegistration (cf_crypto cf) reg)) (\<lambda>h.
       if pr_proposal rec \<noteq> Some h then
         (let rec' = set_proposal h reg rec in
          thenE (modifyE (put_pair rec'))
            (if pr_state rec' \<noteq> AWAITING_OPERATOR then
               bindE (pair_transition rec' AWAITING_OPERATOR) (\<lambda>r. returnE (pair_view_of r))
             else returnE (pair_view_of rec')))
       else thenE (modifyE (put_pair rec)) (returnE (pair_view_of rec))))"

text \<open>Reflecting expiry in the reported state.\<close>

definition expire_lazily :: "agent_config \<Rightarrow> pair_record \<Rightarrow> pair_record peer_op" where
  "expire_lazily cf rec0 = (\<lambda>s. if is_live rec0 \<and> (pr_epoch rec0 \<noteq> cf_epoch cf \<or> pp_now s \<ge> pr_expires_ms rec0)
     then pair_transition rec0 EXPIRED s else returnE rec0 s)"

text \<open>The optional code of \<open>get\<close>: a mismatch is a counted attempt.\<close>

definition checkOptionalCode :: "agent_config \<Rightarrow> string option \<Rightarrow> pair_record \<Rightarrow> unit peer_op" where
  "checkOptionalCode cf code rec =
     (case code of None \<Rightarrow> returnE () | Some c \<Rightarrow> checkCode cf rec c)"

definition pair_get :: "agent_config \<Rightarrow> string \<Rightarrow> string option \<Rightarrow> pair_view peer_op" where
  "pair_get cf i code =
     bindE (lookupPair i) (\<lambda>rec0.
     bindE (expire_lazily cf rec0) (\<lambda>rec.
       thenE (checkOptionalCode cf code rec) (returnE (pair_view_of rec))))"

definition approve_pending ::
  "string \<Rightarrow> string \<Rightarrow> scope list \<Rightarrow> (scope \<Rightarrow> thrown + unit) \<Rightarrow> pair_record \<Rightarrow> string peer_op" where
  "approve_pending proposal key scopes admit rec =
     (if pr_state rec \<noteq> AWAITING_OPERATOR \<or> pr_proposal rec = None then fail STATE_TRANSITION (Some ''pair'')
      else if pr_proposal rec \<noteq> Some proposal then fail REVISION_CONFLICT (Some ''proposal'')
      else if pr_proposal_key rec \<noteq> Some key then fail REVISION_CONFLICT (Some ''key'')
      else thenE (liftE (first_error
               (\<lambda>sc. andThen (check (scopeWithin sc (pr_scopes rec)) (RpcError FORBIDDEN (Some ''scopes''))) (\<lambda>_. admit sc))
               scopes))
             (let rec' = rec\<lparr>pr_approved := Some \<lparr>ac_proposal = proposal, ac_key = key, ac_scopes = scopes\<rparr>\<rparr> in
              thenE (modifyE (put_pair rec'))
                (bindE (pair_transition rec' APPROVED) (\<lambda>r. returnE (pr_pair r)))))"

definition approve ::
  "agent_config \<Rightarrow> string \<Rightarrow> string \<Rightarrow> string \<Rightarrow> scope list \<Rightarrow> (scope \<Rightarrow> thrown + unit) \<Rightarrow> string peer_op" where
  "approve cf i proposal key scopes admit =
     bindE (lookupPair i) (\<lambda>rec.
     thenE (assertLive cf rec)
       (case pr_approved rec of
          Some a \<Rightarrow>
            if pr_state rec = APPROVED then
              (if proposal = ac_proposal a \<and> key = ac_key a \<and> scopesEqual scopes (ac_scopes a)
               then returnE (pr_pair rec) else fail REVISION_CONFLICT (Some ''proposal''))
            else approve_pending proposal key scopes admit rec
        | None \<Rightarrow> approve_pending proposal key scopes admit rec))"

definition cancel :: "agent_config \<Rightarrow> string \<Rightarrow> string peer_op" where
  "cancel cf i =
     bindE (lookupPair i) (\<lambda>rec.
     thenE (assertLive cf rec)
       (bindE (pair_transition rec CANCELLED) (\<lambda>r. returnE (pr_pair r))))"

definition assertRegisterable :: "agent_config \<Rightarrow> json \<Rightarrow> (pair_record \<times> registration \<times> scope list) peer_op" where
  "assertRegisterable cf registration =
     bindE (validateRegistration cf registration) (\<lambda>(rec, reg).
       case pr_approved rec of
         None \<Rightarrow> fail STATE_TRANSITION (Some ''pair'')
       | Some a \<Rightarrow>
           if pr_state rec \<noteq> APPROVED then fail STATE_TRANSITION (Some ''pair'')
           else if km_id (rg_key reg) \<noteq> ac_key a then fail FORBIDDEN (Some ''key'')
           else bindE (liftE (proposalOfRegistration (cf_crypto cf) reg)) (\<lambda>h.
                  if h \<noteq> ac_proposal a then fail REVISION_CONFLICT (Some ''proposal'')
                  else returnE (rec, reg, ac_scopes a)))"

definition consume :: "pair_record \<Rightarrow> registration \<Rightarrow> unit peer_op" where
  "consume rec reg =
     thenE (modifyE (\<lambda>s. case get_challenge (rg_challenge reg) s of
              Some ch \<Rightarrow> if \<not> ch_consumed ch then put_challenge (ch\<lparr>ch_consumed := True\<rparr>) s else s
            | None \<Rightarrow> s))
       (bindE (pair_transition rec CONSUMED) (\<lambda>_. returnE ()))"

section \<open>How operations change pairs\<close>

definition pair_final :: "pair_state \<Rightarrow> bool" where
  "pair_final st \<longleftrightarrow> st \<in> {CONSUMED, CANCELLED, EXPIRED, LOCKED}"

interpretation pair_graph: lifecycle PAIR_TRANSITIONS pair_final
proof
  show "pair_final st \<longleftrightarrow> PAIR_TRANSITIONS st = []" for st
    by (cases st) (simp_all add: pair_final_def)
qed

abbreviation pair_path :: "pair_state \<Rightarrow> pair_state \<Rightarrow> bool" where
  "pair_path \<equiv> (\<lambda>a b. b \<in> set (PAIR_TRANSITIONS a))\<^sup>*\<^sup>*"

text \<open>
  What holds of every stored row: a live invitation has fewer than five failed attempts,
  an approved one carries a commitment to its proposal and key that only narrows the
  invited scopes, and a proposed key is the pinned one when a key was pinned.
\<close>

definition pair_ok :: "pair_record \<Rightarrow> bool" where
  "pair_ok rec \<longleftrightarrow>
     (is_live rec \<longrightarrow> pr_attempts rec < maxCodeAttempts) \<and>
     (pr_state rec = APPROVED \<longrightarrow> (\<exists>a. pr_approved rec = Some a \<and> pr_proposal rec = Some (ac_proposal a) \<and>
        pr_proposal_key rec = Some (ac_key a) \<and> (\<forall>sc\<in>set (ac_scopes a). scopeWithin sc (pr_scopes rec)))) \<and>
     (pr_pinned_key rec \<noteq> None \<and> pr_proposal_key rec \<noteq> None \<longrightarrow> pr_proposal_key rec = pr_pinned_key rec)"

text \<open>One row after an operation: along the state machine, its invitation unchanged.\<close>

definition pair_le :: "pair_record \<Rightarrow> pair_record \<Rightarrow> bool" where
  "pair_le a b \<longleftrightarrow> pair_path (pr_state a) (pr_state b) \<and> pr_attempts a \<le> pr_attempts b \<and>
     pr_pair b = pr_pair a \<and> pr_code_hash b = pr_code_hash a \<and> pr_role b = pr_role a \<and>
     pr_scopes b = pr_scopes a \<and> pr_pinned_key b = pr_pinned_key a \<and> pr_epoch b = pr_epoch a \<and>
     pr_expires_ms b = pr_expires_ms a \<and> (pair_ok a \<longrightarrow> pair_ok b)"

lemma pair_le_refl [simp]: "pair_le a a"
  by (simp add: pair_le_def)

lemma pair_le_trans: "pair_le a b \<Longrightarrow> pair_le b c \<Longrightarrow> pair_le a c"
  unfolding pair_le_def by (auto intro: rtranclp_trans)

definition same_agents :: "peer_ports \<Rightarrow> peer_ports \<Rightarrow> bool" where
  "same_agents s t \<longleftrightarrow> ports_ok t \<and> pp_peers t = pp_peers s \<and> pp_grants t = pp_grants s \<and>
     pp_sessions t = pp_sessions s \<and> (\<forall>m. drawn m s \<le> drawn m t)"

definition evolves :: "peer_ports \<Rightarrow> peer_ports \<Rightarrow> bool" where
  "evolves s t \<longleftrightarrow> (\<forall>k a. get_pair k s = Some a \<longrightarrow> (\<exists>b. get_pair k t = Some b \<and> pair_le a b)) \<and>
     (\<forall>k. get_pair k s = None \<longrightarrow> get_pair k t = None)"

lemma evolves_refl [simp]: "pp_pairs t = pp_pairs s \<Longrightarrow> evolves s t"
  by (auto simp: evolves_def get_pair_def)

lemma evolves_put:
  "get_pair (pr_pair b) s = Some a \<Longrightarrow> pair_le a b \<Longrightarrow> pp_pairs t = pp_pairs (put_pair b s) \<Longrightarrow> evolves s t"
  unfolding evolves_def by (auto simp: get_pair_def put_pair_def)

text \<open>
  A check on a row: it changes no row when it passes, and moves rows along the machine
  when it throws.
\<close>

definition guards :: "pair_record \<Rightarrow> 'a peer_op \<Rightarrow> bool" where
  "guards rec m \<longleftrightarrow> (\<forall>s. ports_ok s \<and> get_pair (pr_pair rec) s = Some rec \<longrightarrow>
     same_agents s (snd (m s)) \<and>
     (case fst (m s) of Inr _ \<Rightarrow> pp_pairs (snd (m s)) = pp_pairs s | Inl _ \<Rightarrow> evolves s (snd (m s))))"

named_theorems guard_intros \<open>checks on an invitation row\<close>

lemma guards_then [guard_intros]:
  assumes "guards rec m" "guards rec k" shows "guards rec (thenE m k)"
  unfolding guards_def
proof (intro allI impI)
  fix s assume s: "ports_ok s \<and> get_pair (pr_pair rec) s = Some rec"
  obtain r t where m: "m s = (r, t)" by fastforce
  have 1: "same_agents s t" "case r of Inr _ \<Rightarrow> pp_pairs t = pp_pairs s | Inl _ \<Rightarrow> evolves s t"
    using assms(1) s m unfolding guards_def by (metis fst_conv snd_conv)+
  show "same_agents s (snd (thenE m k s)) \<and> (case fst (thenE m k s) of
      Inr _ \<Rightarrow> pp_pairs (snd (thenE m k s)) = pp_pairs s | Inl _ \<Rightarrow> evolves s (snd (thenE m k s)))"
  proof (cases r)
    case (Inl e)
    with 1 m show ?thesis by (simp add: op_simps)
  next
    case (Inr x)
    with 1 have p: "pp_pairs t = pp_pairs s" by simp
    then have "ports_ok t \<and> get_pair (pr_pair rec) t = Some rec"
      using s 1(1) by (simp add: same_agents_def get_pair_def)
    then have 2: "same_agents t (snd (k t))" "case fst (k t) of Inr _ \<Rightarrow> pp_pairs (snd (k t)) = pp_pairs t | Inl _ \<Rightarrow> evolves t (snd (k t))"
      using assms(2) unfolding guards_def by blast+
    have "same_agents s (snd (k t))" using 1(1) 2(1) unfolding same_agents_def by (metis order_trans)
    moreover have "evolves s u = evolves t u" for u using p by (simp add: evolves_def get_pair_def)
    ultimately show ?thesis using m Inr 2(2) p by (simp add: op_simps split: sum.splits)
  qed
qed

lemma guards_quiet:
  assumes "\<And>s. same_agents s (snd (m s)) \<or> \<not> ports_ok s" "\<And>s. pp_pairs (snd (m s)) = pp_pairs s"
  shows "guards rec m"
  using assms unfolding guards_def by (auto split: sum.splits)

lemma same_agents_refl: "ports_ok s \<Longrightarrow> same_agents s s"
  by (simp add: same_agents_def)

lemma same_agents_put_pair: "ports_ok s \<Longrightarrow> same_agents s (put_pair r s)"
  by (simp add: same_agents_def) (simp add: put_pair_def)

lemma guards_return [guard_intros]: "guards rec (returnE x)"
  and guards_fail [guard_intros]: "guards rec (throwE e)"
  and guards_lift [guard_intros]: "guards rec (liftE r)"
  and guards_assert [guard_intros]: "guards rec (assertE b e)"
  by (rule guards_quiet; simp add: op_simps same_agents_refl; simp add: same_agents_def)+

lemma guards_if [guard_intros]: "(b \<Longrightarrow> guards rec m) \<Longrightarrow> (\<not> b \<Longrightarrow> guards rec k) \<Longrightarrow> guards rec (if b then m else k)"
  by simp

lemma guards_limiter [guard_intros]: "guards rec (limiter_check k)"
  by (rule guards_quiet) (auto simp: limiter_check_def op_simps Let_def same_agents_def ports_ok_def drawn_def)

lemma is_live_iff: "is_live rec \<longleftrightarrow> \<not> pair_final (pr_state rec)"
  by (cases "pr_state rec") (simp_all add: is_live_def PAIR_LIVE_STATES_def pair_final_def)

lemma pair_path_step: "canPairTransition a b \<Longrightarrow> pair_path a b"
  by (rule r_into_rtranclp) (simp add: canPairTransition_def)

lemma pair_le_attempt:
  "pr_attempts rec + 1 < maxCodeAttempts \<or> \<not> is_live rec \<Longrightarrow> pair_le rec (rec\<lparr>pr_attempts := pr_attempts rec + 1\<rparr>)"
  by (auto simp: pair_le_def pair_ok_def is_live_def)

lemma pair_le_final:
  assumes "canPairTransition (pr_state rec) st" "pair_final st" "pr_attempts rec \<le> n"
  shows "pair_le rec (rec\<lparr>pr_attempts := n, pr_state := st\<rparr>)"
proof -
  have "\<not> is_live (rec\<lparr>pr_attempts := n, pr_state := st\<rparr>)" using assms(2) by (simp add: is_live_iff)
  moreover have "st \<noteq> APPROVED" using assms(2) by (auto simp: pair_final_def)
  ultimately show ?thesis using assms pair_path_step by (simp add: pair_le_def pair_ok_def)
qed

lemma live_can: "is_live rec \<Longrightarrow> st \<in> {CANCELLED, EXPIRED, LOCKED} \<Longrightarrow> canPairTransition (pr_state rec) st"
  by (cases "pr_state rec") (auto simp: is_live_def PAIR_LIVE_STATES_def canPairTransition_def)

lemma can_iff_live: "canPairTransition (pr_state rec) LOCKED \<longleftrightarrow> is_live rec"
  by (cases "pr_state rec") (auto simp: is_live_def PAIR_LIVE_STATES_def canPairTransition_def)

text \<open>The outcome of a failed attempt, in full.\<close>

lemma failAttempt_apply:
  "failAttempt rec c s =
     (let rec' = rec\<lparr>pr_attempts := pr_attempts rec + 1\<rparr> in
      if pr_attempts rec + 1 < maxCodeAttempts then (Inl (RpcError c (Some ''code'')), put_pair rec' s)
      else if pr_state rec = LOCKED then (Inl (RpcError PAIRING_LOCKED (Some ''code'')), put_pair rec' s)
      else if is_live rec then (Inl (RpcError PAIRING_LOCKED (Some ''code'')),
        put_pair (rec'\<lparr>pr_state := LOCKED\<rparr>) (put_pair rec' s))
      else (Inl (RpcError STATE_TRANSITION (Some ''pair'')), put_pair rec' s))"
  by (simp add: failAttempt_def Let_def op_simps pair_transition_def can_iff_live not_less)

lemma put_pair_twice: "pr_pair a = pr_pair b \<Longrightarrow> pp_pairs (put_pair a (put_pair b s)) = pp_pairs (put_pair a s)"
  by (simp add: put_pair_def update_last)

lemma guards_failAttempt [guard_intros]: "guards rec (failAttempt rec c)"
  unfolding guards_def
proof (intro allI impI)
  fix s assume s: "ports_ok s \<and> get_pair (pr_pair rec) s = Some rec"
  let ?r = "rec\<lparr>pr_attempts := pr_attempts rec + 1\<rparr>" and ?l = "rec\<lparr>pr_attempts := pr_attempts rec + 1, pr_state := LOCKED\<rparr>"
  have one: "evolves s (put_pair ?r s)" if "pr_attempts rec + 1 < maxCodeAttempts \<or> \<not> is_live rec"
    using s pair_le_attempt [OF that] by (intro evolves_put [of _ _ rec]) auto
  have two: "evolves s (put_pair ?l (put_pair ?r s))" if "is_live rec"
    using s pair_le_final [OF live_can [OF that], of LOCKED "pr_attempts rec + 1"]
    by (intro evolves_put [of ?l _ rec]) (auto simp: pair_final_def put_pair_twice)
  have "same_agents s (put_pair ?l (put_pair ?r s))" "same_agents s (put_pair ?r s)"
    using s by (simp_all add: same_agents_def) (simp_all add: put_pair_def)
  then show "same_agents s (snd (failAttempt rec c s)) \<and>
     (case fst (failAttempt rec c s) of Inr _ \<Rightarrow> pp_pairs (snd (failAttempt rec c s)) = pp_pairs s
      | Inl _ \<Rightarrow> evolves s (snd (failAttempt rec c s)))"
    using one two by (auto simp: failAttempt_apply Let_def is_live_iff pair_final_def)
qed

lemma guards_assertLive [guard_intros]: "guards rec (assertLive cf rec)"
  unfolding guards_def
proof (intro allI impI)
  fix s assume s: "ports_ok s \<and> get_pair (pr_pair rec) s = Some rec"
  have "evolves s (put_pair (rec\<lparr>pr_state := EXPIRED\<rparr>) s)" if "is_live rec"
    using s pair_le_final [OF live_can [OF that], of EXPIRED "pr_attempts rec"]
    by (intro evolves_put [of _ _ rec]) (auto simp: pair_final_def)
  then show "same_agents s (snd (assertLive cf rec s)) \<and>
     (case fst (assertLive cf rec s) of Inr _ \<Rightarrow> pp_pairs (snd (assertLive cf rec s)) = pp_pairs s
      | Inl _ \<Rightarrow> evolves s (snd (assertLive cf rec s)))"
    using s live_can [of rec EXPIRED]
    by (auto simp: assertLive_def op_simps pair_transition_def same_agents_put_pair same_agents_refl split: pair_state.split)
qed

lemma guards_checkCode [guard_intros]: "guards rec (checkCode cf rec code)"
  unfolding checkCode_def by (intro guard_intros)

lemma guards_checkChallenge [guard_intros]: "guards rec (checkChallenge cf reg)"
  by (rule guards_quiet) (auto simp: checkChallenge_def op_simps same_agents_refl split: option.split)

lemma guards_checkKeyAndProof [guard_intros]: "guards rec (checkKeyAndProof cf rec reg)"
  unfolding checkKeyAndProof_def by (auto intro!: guard_intros split: sum.split)

text \<open>The shared validation: a row moves only when it throws.\<close>

definition row_checks :: "agent_config \<Rightarrow> pair_record \<Rightarrow> registration \<Rightarrow> unit peer_op" where
  "row_checks cf rec valid =
     thenE (assertLive cf rec) (thenE (checkCode cf rec (rg_code valid)) (thenE (checkChallenge cf valid)
       (thenE (limiter_check (km_id (rg_key valid))) (thenE (checkKeyAndProof cf rec valid)
         (liftE (checkProfiles cf valid))))))"

lemma guards_row_checks: "guards rec (row_checks cf rec valid)"
  unfolding row_checks_def by (intro guard_intros)

lemma validateRegistration_row:
  "validateRegistration cf reg s =
     (case validateRegistrationShape reg of
        Inl e \<Rightarrow> (Inl e, s)
      | Inr valid \<Rightarrow>
          (case get_pair (rg_pair valid) s of
             None \<Rightarrow> (Inl (RpcError NOT_FOUND (Some ''pair'')), s)
           | Some rec \<Rightarrow> thenE (row_checks cf rec valid) (returnE (rec, valid)) s))"
  by (auto simp: validateRegistration_def row_checks_def lookupPair_def op_simps split: sum.splits option.splits prod.splits)

lemma validateRegistration_cases:
  assumes "ports_ok s"
  obtains (refused) e t where "validateRegistration cf reg s = (Inl e, t)" "same_agents s t" "evolves s t"
  | (valid) rec valid t where "validateRegistration cf reg s = (Inr (rec, valid), t)" "same_agents s t"
      "pp_pairs t = pp_pairs s" "validateRegistrationShape reg = Inr valid" "get_pair (rg_pair valid) s = Some rec"
      "row_checks cf rec valid s = (Inr (), t)"
proof (cases "validateRegistrationShape reg")
  case (Inl e)
  then show ?thesis using assms refused by (simp add: validateRegistration_row same_agents_refl)
next
  case (Inr valid)
  show ?thesis
  proof (cases "get_pair (rg_pair valid) s")
    case None
    with Inr assms refused show ?thesis by (simp add: validateRegistration_row same_agents_refl)
  next
    case (Some rec)
    then have rec: "get_pair (pr_pair rec) s = Some rec" using pairs.get_key [OF assms Some] by simp
    obtain r t where run: "row_checks cf rec valid s = (r, t)" by fastforce
    then have *: "same_agents s t" "case r of Inr _ \<Rightarrow> pp_pairs t = pp_pairs s | Inl _ \<Rightarrow> evolves s t"
      using guards_row_checks [of rec cf valid] rec assms unfolding guards_def by (metis fst_conv snd_conv)+
    show ?thesis
    proof (cases r)
      case (Inl e)
      with * run Inr Some show ?thesis by (intro refused [of e t]) (simp_all add: validateRegistration_row op_simps)
    next
      case r: (Inr u)
      with * run Inr Some show ?thesis by (intro that(2) [of rec valid t]) (simp_all add: validateRegistration_row op_simps)
    qed
  qed
qed

lemma then_Inr: "thenE m k s = (Inr x, t) \<longleftrightarrow> (\<exists>y u. m s = (Inr y, u) \<and> k u = (Inr x, t))"
  by (auto simp: op_simps split: prod.splits sum.splits)

lemma assertLive_ok: "assertLive cf rec s = (Inr u, t) \<longleftrightarrow>
   t = s \<and> pr_epoch rec = cf_epoch cf \<and> is_live rec \<and> pp_now s < pr_expires_ms rec"
  by (cases "pr_state rec") (auto simp: assertLive_def op_simps pair_transition_def is_live_def PAIR_LIVE_STATES_def
      canPairTransition_def split: if_splits)

lemma failAttempt_throws [simp]: "failAttempt rec c s \<noteq> (Inr x, t)"
  by (simp add: failAttempt_apply Let_def)

lemma checkCode_ok: "checkCode cf rec code s = (Inr u, t) \<longleftrightarrow>
   t = s \<and> isPairCode code \<and> sha256Hex (cf_crypto cf) code = pr_code_hash rec"
  by (auto simp: checkCode_def op_simps)

lemma checkChallenge_ok: "checkChallenge cf reg s = (Inr u, t) \<longleftrightarrow>
   t = s \<and> (\<exists>ch. get_challenge (rg_challenge reg) s = Some ch \<and> ch_epoch ch = cf_epoch cf \<and> rg_epoch reg = cf_epoch cf \<and>
     \<not> ch_consumed ch \<and> pp_now s < ch_expires_ms ch \<and> ch_client_nonce ch = rg_client_nonce reg \<and>
     ch_server_nonce ch = rg_server_nonce reg \<and> ch_key_id ch = km_id (rg_key reg))"
  by (auto simp: checkChallenge_def op_simps split: option.splits if_splits)

lemma checkKeyAndProof_ok: "checkKeyAndProof cf rec reg s = (Inr u, t) \<longleftrightarrow>
   t = s \<and> keyIdOfPublic (cf_crypto cf) (km_public (rg_key reg)) = Inr (km_id (rg_key reg)) \<and>
   (pr_pinned_key rec = None \<or> pr_pinned_key rec = Some (km_id (rg_key reg))) \<and>
   verifyRegister (cf_crypto cf) (register_body cf reg) (rg_proof reg) (km_public (rg_key reg))"
  by (auto simp: checkKeyAndProof_def op_simps split: sum.splits)

lemma row_checks_ok:
  assumes "row_checks cf rec valid s = (Inr (), t)"
  shows "pr_epoch rec = cf_epoch cf" "is_live rec" "pp_now s < pr_expires_ms rec"
    "sha256Hex (cf_crypto cf) (rg_code valid) = pr_code_hash rec"
    "\<exists>ch. get_challenge (rg_challenge valid) s = Some ch \<and> \<not> ch_consumed ch \<and> pp_now s < ch_expires_ms ch \<and>
       ch_key_id ch = km_id (rg_key valid)"
    "pr_pinned_key rec = None \<or> pr_pinned_key rec = Some (km_id (rg_key valid))"
    "keyIdOfPublic (cf_crypto cf) (km_public (rg_key valid)) = Inr (km_id (rg_key valid))"
    "verifyRegister (cf_crypto cf) (register_body cf valid) (rg_proof valid) (km_public (rg_key valid))"
    "\<exists>u. limiter_check (km_id (rg_key valid)) s = (Inr u, t)"
  using assms unfolding row_checks_def then_Inr assertLive_ok checkCode_ok checkChallenge_ok checkKeyAndProof_ok
  by (auto simp: op_simps)

lemma evolves_trans:
  assumes "evolves s t" "evolves t u" shows "evolves s u"
  unfolding evolves_def
proof (intro conjI allI impI)
  fix k a assume "get_pair k s = Some a"
  then obtain b where b: "get_pair k t = Some b" "pair_le a b" using assms(1) unfolding evolves_def by blast
  then obtain c where "get_pair k u = Some c" "pair_le b c" using assms(2) unfolding evolves_def by blast
  with b show "\<exists>c. get_pair k u = Some c \<and> pair_le a c" using pair_le_trans by blast
qed (use assms in \<open>simp add: evolves_def\<close>)

lemma same_agents_trans: "same_agents s t \<Longrightarrow> same_agents t u \<Longrightarrow> same_agents s u"
  unfolding same_agents_def by (metis order_trans)

text \<open>Every operation of the manager moves rows along the machine and leaves the agents.\<close>

definition pairs_only :: "'a peer_op \<Rightarrow> bool" where
  "pairs_only m \<longleftrightarrow> (\<forall>s. ports_ok s \<longrightarrow> same_agents s (snd (m s)) \<and> evolves s (snd (m s)))"

lemma guards_pairs_only: "guards rec m \<Longrightarrow> ports_ok s \<Longrightarrow> get_pair (pr_pair rec) s = Some rec \<Longrightarrow>
   same_agents s (snd (m s)) \<and> evolves s (snd (m s))"
  unfolding guards_def by (cases "fst (m s)") fastforce+

lemma pair_le_proposed:
  assumes "is_live rec" "pr_pinned_key rec = None \<or> pr_pinned_key rec = Some (km_id (rg_key reg))"
  shows "pair_le rec (set_proposal h reg rec\<lparr>pr_state := AWAITING_OPERATOR\<rparr>)"
proof -
  have "pair_path (pr_state rec) AWAITING_OPERATOR"
    using assms(1) by (auto simp: is_live_def PAIR_LIVE_STATES_def intro: pair_path_step simp: canPairTransition_def)
  then show ?thesis using assms
    by (auto simp: pair_le_def pair_ok_def set_proposal_def is_live_def PAIR_LIVE_STATES_def)
qed

lemma propose_pairs_only: "pairs_only (propose cf reg)"
  unfolding pairs_only_def
proof (intro allI impI)
  fix s assume ok: "ports_ok s"
  then show "same_agents s (snd (propose cf reg s)) \<and> evolves s (snd (propose cf reg s))"
  proof (cases rule: validateRegistration_cases [of s cf reg])
    case (refused e t)
    then show ?thesis by (simp add: propose_def op_simps)
  next
    case (valid rec valid t)
    define h where "h = proposalOfRegistration (cf_crypto cf) valid"
    note checks = row_checks_ok [OF valid(6)]
    have rec: "get_pair (pr_pair rec) t = Some rec"
      using pairs.get_key [OF ok valid(5)] valid(3,5) by (simp add: get_pair_def)
    have t: "evolves s u = evolves t u" for u using valid(3) by (simp add: evolves_def get_pair_def)
    show ?thesis
    proof (cases h)
      case (Inl e)
      with valid(1-3) show ?thesis by (simp add: propose_def op_simps h_def [symmetric])
    next
      case (Inr x)
      let ?p = "set_proposal x valid rec" and ?n = "set_proposal x valid rec\<lparr>pr_state := AWAITING_OPERATOR\<rparr>"
      have agents: "same_agents s (put_pair r t)" "same_agents s (put_pair r (put_pair r' t))" for r r'
        using valid(2) by (simp_all add: same_agents_def) (simp_all add: put_pair_def)
      consider (same) "pr_proposal rec = Some x" | (await) "pr_proposal rec \<noteq> Some x" "pr_state rec = AWAITING_OPERATOR"
        | (move) "pr_proposal rec \<noteq> Some x" "pr_state rec \<noteq> AWAITING_OPERATOR" by blast
      then show ?thesis
      proof cases
        case same
        then have "snd (propose cf reg s) = put_pair rec t"
          using valid(1) Inr by (simp add: propose_def op_simps h_def [symmetric])
        then show ?thesis unfolding t using agents rec by (auto intro: evolves_put [of _ _ rec])
      next
        case await
        then have "snd (propose cf reg s) = put_pair ?p t" "?p = ?n"
          using valid(1) Inr by (simp_all add: propose_def op_simps h_def [symmetric] Let_def set_proposal_def)
        moreover have "evolves t (put_pair ?n t)"
          using rec pair_le_proposed [OF checks(2,6), of x] by (intro evolves_put [of ?n _ rec]) (auto simp: set_proposal_def)
        ultimately show ?thesis unfolding t using agents by simp
      next
        case move
        have "canPairTransition (pr_state rec) AWAITING_OPERATOR"
          using checks(2) move(2) by (auto simp: is_live_def PAIR_LIVE_STATES_def canPairTransition_def)
        then have "snd (propose cf reg s) = put_pair ?n (put_pair ?p t)"
          using valid(1) Inr move by (simp add: propose_def op_simps h_def [symmetric] Let_def pair_transition_def set_proposal_def)
        moreover have "evolves t (put_pair ?n (put_pair ?p t))"
          using rec pair_le_proposed [OF checks(2,6), of x]
          by (intro evolves_put [of ?n _ rec]) (auto simp: set_proposal_def put_pair_twice)
        ultimately show ?thesis unfolding t using agents by simp
      qed
    qed
  qed
qed

text \<open>A check followed by a commit that writes the row it checked.\<close>

lemma guard_commit:
  assumes "ports_ok s" "get_pair (pr_pair rec) s = Some rec" "guards rec m"
    and "\<And>t u x. m s = (Inr x, u) \<Longrightarrow> ports_ok u \<Longrightarrow> get_pair (pr_pair rec) u = Some rec \<Longrightarrow>
       same_agents u (snd (k u)) \<and> evolves u (snd (k u))"
  shows "same_agents s (snd (thenE m k s)) \<and> evolves s (snd (thenE m k s))"
proof -
  obtain r u where m: "m s = (r, u)" by fastforce
  then have *: "same_agents s u" "case r of Inr _ \<Rightarrow> pp_pairs u = pp_pairs s | Inl _ \<Rightarrow> evolves s u"
    using assms(1-3) unfolding guards_def by (metis fst_conv snd_conv)+
  show ?thesis
  proof (cases r)
    case (Inl e)
    with * m show ?thesis by (simp add: op_simps)
  next
    case (Inr x)
    with * have p: "pp_pairs u = pp_pairs s" by simp
    then have "ports_ok u" "get_pair (pr_pair rec) u = Some rec"
      using assms(2) *(1) by (simp_all add: same_agents_def get_pair_def)
    then have "same_agents u (snd (k u)) \<and> evolves u (snd (k u))" using assms(4) m Inr by blast
    moreover have "evolves s w = evolves u w" for w using p by (simp add: evolves_def get_pair_def)
    ultimately show ?thesis using m Inr *(1) same_agents_trans by (auto simp: op_simps)
  qed
qed

lemma lookup_pairs_only:
  assumes "\<And>s rec. ports_ok s \<Longrightarrow> get_pair (pr_pair rec) s = Some rec \<Longrightarrow> same_agents s (snd (k rec s)) \<and> evolves s (snd (k rec s))"
  shows "pairs_only (bindE (lookupPair i) k)"
  unfolding pairs_only_def
proof (intro allI impI)
  fix s assume ok: "ports_ok s"
  show "same_agents s (snd (bindE (lookupPair i) k s)) \<and> evolves s (snd (bindE (lookupPair i) k s))"
  proof (cases "get_pair i s")
    case None
    with ok show ?thesis by (simp add: lookupPair_def op_simps same_agents_refl)
  next
    case (Some rec)
    with assms [OF ok, of rec] pairs.get_key [OF ok Some] show ?thesis by (simp add: lookupPair_def op_simps)
  qed
qed

lemma cancel_pairs_only: "pairs_only (cancel cf i)"
  unfolding cancel_def
proof (rule lookup_pairs_only)
  fix s rec assume s: "ports_ok s" "get_pair (pr_pair rec) s = Some rec"
  show "same_agents s (snd (thenE (assertLive cf rec) (bindE (pair_transition rec CANCELLED) (\<lambda>r. returnE (pr_pair r))) s)) \<and>
    evolves s (snd (thenE (assertLive cf rec) (bindE (pair_transition rec CANCELLED) (\<lambda>r. returnE (pr_pair r))) s))"
    using s guards_assertLive
  proof (rule guard_commit)
    fix u x assume run: "assertLive cf rec s = (Inr x, u)" and u: "ports_ok u" "get_pair (pr_pair rec) u = Some rec"
    then have live: "is_live rec" by (simp add: assertLive_ok)
    have "evolves u (put_pair (rec\<lparr>pr_state := CANCELLED\<rparr>) u)"
      using u pair_le_final [OF live_can [OF live], of CANCELLED "pr_attempts rec"]
      by (intro evolves_put [of _ _ rec]) (auto simp: pair_final_def)
    then show "same_agents u (snd (bindE (pair_transition rec CANCELLED) (\<lambda>r. returnE (pr_pair r)) u)) \<and>
        evolves u (snd (bindE (pair_transition rec CANCELLED) (\<lambda>r. returnE (pr_pair r)) u))"
      using live_can [OF live, of CANCELLED] u by (simp add: op_simps pair_transition_def same_agents_put_pair)
  qed
qed

lemma approve_pending_evolves:
  assumes "ports_ok u" "get_pair (pr_pair rec) u = Some rec"
  shows "same_agents u (snd (approve_pending proposal key scopes admit rec u)) \<and>
    evolves u (snd (approve_pending proposal key scopes admit rec u))"
proof -
  let ?a = "\<lparr>ac_proposal = proposal, ac_key = key, ac_scopes = scopes\<rparr>"
  let ?p = "rec\<lparr>pr_approved := Some ?a\<rparr>" and ?n = "rec\<lparr>pr_approved := Some ?a, pr_state := APPROVED\<rparr>"
  let ?checks = "first_error (\<lambda>sc. andThen (check (scopeWithin sc (pr_scopes rec)) (RpcError FORBIDDEN (Some ''scopes''))) (\<lambda>_. admit sc)) scopes"
  show ?thesis
  proof (cases "pr_state rec = AWAITING_OPERATOR \<and> pr_proposal rec = Some proposal \<and> pr_proposal_key rec = Some key \<and> ?checks = Inr ()")
    case False
    then have "snd (approve_pending proposal key scopes admit rec u) = u"
      by (auto simp: approve_pending_def op_simps split: sum.splits)
    then show ?thesis using assms by (simp add: same_agents_refl)
  next
    case True
    then have within: "\<forall>sc\<in>set scopes. scopeWithin sc (pr_scopes rec)" by auto
    have can: "canPairTransition AWAITING_OPERATOR APPROVED" by (simp add: canPairTransition_def)
    have c: "?checks = Inr ()" using True by blast
    have run: "snd (approve_pending proposal key scopes admit rec u) = put_pair ?n (put_pair ?p u)"
      unfolding approve_pending_def c using True can by (simp add: op_simps Let_def pair_transition_def)
    have "pair_le rec ?n"
      using True within pair_path_step [OF can] by (auto simp: pair_le_def pair_ok_def is_live_def PAIR_LIVE_STATES_def)
    then have "evolves u (put_pair ?n (put_pair ?p u))"
      using assms by (intro evolves_put [of ?n _ rec]) (auto simp: put_pair_twice)
    then show ?thesis unfolding run using assms by (simp add: same_agents_def) (simp add: put_pair_def)
  qed
qed

lemma approve_pairs_only: "pairs_only (approve cf i proposal key scopes admit)"
  unfolding approve_def
proof (rule lookup_pairs_only)
  fix s rec assume s: "ports_ok s" "get_pair (pr_pair rec) s = Some rec"
  let ?k = "case pr_approved rec of
      Some a \<Rightarrow> if pr_state rec = APPROVED then
          (if proposal = ac_proposal a \<and> key = ac_key a \<and> scopesEqual scopes (ac_scopes a)
           then returnE (pr_pair rec) else fail REVISION_CONFLICT (Some ''proposal''))
        else approve_pending proposal key scopes admit rec
    | None \<Rightarrow> approve_pending proposal key scopes admit rec"
  show "same_agents s (snd (thenE (assertLive cf rec) ?k s)) \<and> evolves s (snd (thenE (assertLive cf rec) ?k s))"
    using s guards_assertLive
    by (rule guard_commit) (auto simp: approve_pending_evolves op_simps same_agents_refl split: option.splits)
qed

lemma guards_checkOptionalCode [guard_intros]: "guards rec (checkOptionalCode cf code rec)"
  unfolding checkOptionalCode_def by (auto intro!: guard_intros split: option.split)

lemma pair_get_pairs_only: "pairs_only (pair_get cf i code)"
  unfolding pair_get_def
proof (rule lookup_pairs_only)
  fix s rec assume s: "ports_ok s" "get_pair (pr_pair rec) s = Some rec"
  let ?expire = "is_live rec \<and> (pr_epoch rec \<noteq> cf_epoch cf \<or> pp_now s \<ge> pr_expires_ms rec)"
  let ?k = "\<lambda>rec. thenE (checkOptionalCode cf code rec) (returnE (pair_view_of rec))"
  define rec' where "rec' = (if ?expire then rec\<lparr>pr_state := EXPIRED\<rparr> else rec)"
  define u where "u = (if ?expire then put_pair rec' s else s)"
  have u: "same_agents s u" "evolves s u" "get_pair (pr_pair rec') u = Some rec'"
    using s pair_le_final [OF live_can, of rec EXPIRED "pr_attempts rec"]
    by (auto simp: u_def rec'_def same_agents_refl same_agents_put_pair pair_final_def
        intro!: evolves_put [of "rec\<lparr>pr_state := EXPIRED\<rparr>" s rec])
  have "guards rec' (?k rec')" by (intro guard_intros)
  then have "same_agents u (snd (?k rec' u)) \<and> evolves u (snd (?k rec' u))"
    using u(1,3) by (intro guards_pairs_only) (auto simp: same_agents_def)
  moreover have "expire_lazily cf rec s = (Inr rec', u)"
    using live_can [of rec EXPIRED] by (auto simp: expire_lazily_def op_simps pair_transition_def u_def rec'_def)
  ultimately show "same_agents s (snd (bindE (expire_lazily cf rec) ?k s)) \<and> evolves s (snd (bindE (expire_lazily cf rec) ?k s))"
    using u(1,2) same_agents_trans evolves_trans by (simp add: bind_apply)
qed

lemma assertRegisterable_cases:
  assumes "ports_ok s"
  obtains (refused) e t where "assertRegisterable cf reg s = (Inl e, t)" "same_agents s t" "evolves s t"
  | (admitted) rec valid a t where "assertRegisterable cf reg s = (Inr (rec, valid, ac_scopes a), t)"
      "same_agents s t" "pp_pairs t = pp_pairs s" "get_pair (rg_pair valid) s = Some rec"
      "pr_state rec = APPROVED" "pr_approved rec = Some a" "km_id (rg_key valid) = ac_key a"
      "proposalOfRegistration (cf_crypto cf) valid = Inr (ac_proposal a)" "row_checks cf rec valid s = (Inr (), t)"
      "validateRegistrationShape reg = Inr valid"
  using assms
proof (cases rule: validateRegistration_cases [of s cf reg])
  case (refused e t)
  then show ?thesis using that(1) by (simp add: assertRegisterable_def op_simps)
next
  case (valid rec valid t)
  have ev: "evolves s t" using valid(3) by simp
  show ?thesis
  proof (cases "pr_approved rec")
    case None
    with valid ev show ?thesis by (intro that(1)) (auto simp: assertRegisterable_def op_simps)
  next
    case (Some a)
    show ?thesis
    proof (cases "pr_state rec = APPROVED \<and> km_id (rg_key valid) = ac_key a \<and>
        proposalOfRegistration (cf_crypto cf) valid = Inr (ac_proposal a)")
      case True
      with Some valid show ?thesis by (intro that(2) [of rec valid a t]) (auto simp: assertRegisterable_def op_simps)
    next
      case False
      then have "\<exists>e. assertRegisterable cf reg s = (Inl e, t)"
        using Some valid by (auto simp: assertRegisterable_def op_simps split: sum.split)
      then show ?thesis using that(1) valid ev by blast
    qed
  qed
qed

lemma assertRegisterable_pairs_only: "pairs_only (assertRegisterable cf reg)"
  unfolding pairs_only_def
proof (intro allI impI)
  fix s assume "ports_ok s"
  then show "same_agents s (snd (assertRegisterable cf reg s)) \<and> evolves s (snd (assertRegisterable cf reg s))"
    by (cases rule: assertRegisterable_cases [of s cf reg]) auto
qed

text \<open>A new invitation.\<close>

definition new_pair :: "agent_config \<Rightarrow> peer_role \<Rightarrow> scope list \<Rightarrow> string option \<Rightarrow> peer_ports \<Rightarrow> pair_record" where
  "new_pair cf rl scopes key s =
     \<lparr>pr_pair = next_id (cf_ids cf) ''pair'' s,
      pr_code_hash = sha256Hex (cf_crypto cf) (en_pairCode (cf_entropy cf) (pp_codes_drawn s)), pr_role = rl,
      pr_scopes = scopes, pr_pinned_key = key, pr_state = CREATED, pr_epoch = cf_epoch cf, pr_attempts = 0,
      pr_proposal = None, pr_proposal_key = None, pr_proposal_key_material = None, pr_proposal_profiles = None,
      pr_proposal_interfaces = None, pr_proposal_capabilities = None, pr_approved = None,
      pr_created_ms = pp_now s, pr_expires_ms = pp_now s + invitationTtlMs\<rparr>"

lemma codes_frames [simp]:
  "next_id al kind (s\<lparr>pp_codes_drawn := n\<rparr>) = next_id al kind s" "get_pair k (s\<lparr>pp_codes_drawn := n\<rparr>) = get_pair k s"
  "ports_ok (s\<lparr>pp_codes_drawn := n\<rparr>) = ports_ok s" "drawn m (s\<lparr>pp_codes_drawn := n\<rparr>) = drawn m s"
  "issued al kind i (s\<lparr>pp_codes_drawn := n\<rparr>) = issued al kind i s"
  by (simp_all add: next_id_def table_defs ports_ok_def drawn_def issued_def)

lemma createInvitation_apply:
  "createInvitation cf rl scopes key s =
     (if pending_pairs cf s < maxPendingInvitations then
        (Inr (next_id (cf_ids cf) ''pair'' s, en_pairCode (cf_entropy cf) (pp_codes_drawn s), pp_now s + invitationTtlMs),
         put_pair (new_pair cf rl scopes key s) (drew (cf_ids cf) ''pair'' (s\<lparr>pp_codes_drawn := pp_codes_drawn s + 1\<rparr>)))
      else (Inl (RpcError BUSY (Some ''pair'')), s))"
  by (simp add: createInvitation_def op_simps draw_pairCode_def newId_drew new_pair_def Let_def)

lemma new_pair_ok: "pair_ok (new_pair cf rl scopes key s)"
  by (simp add: pair_ok_def new_pair_def maxCodeAttempts_def)

lemma same_agents_drew: "ports_ok s \<Longrightarrow> same_agents s (drew al kind (s\<lparr>pp_codes_drawn := n\<rparr>))"
  using drawn_drew [of _ "s\<lparr>pp_codes_drawn := n\<rparr>" al kind] by (simp add: same_agents_def) (simp add: drew_def)

lemma consume_apply:
  "is_live rec \<Longrightarrow> pr_state rec = APPROVED \<Longrightarrow> \<exists>u. (u = s \<or> (\<exists>ch. u = put_challenge ch s)) \<and>
     consume rec reg s = (Inr (), put_pair (rec\<lparr>pr_state := CONSUMED\<rparr>) u)"
  by (auto simp: consume_def op_simps pair_transition_def canPairTransition_def split: option.splits)


text \<open>
  The fifth wrong code on an invitation that is already EXPIRED, CANCELLED or CONSUMED
  (reachable through \<open>get\<close>, which does not require a live invitation) does not report
  PAIRING_LOCKED: the transition to LOCKED is refused first.
\<close>

lemma fifth_failure_on_final_invitation:
  assumes "pair_final (pr_state rec)" "pr_state rec \<noteq> LOCKED" "pr_attempts rec + 1 \<ge> maxCodeAttempts"
  shows "fst (failAttempt rec c s) = Inl (RpcError STATE_TRANSITION (Some ''pair''))"
  using assms by (cases "pr_state rec") (simp_all add: failAttempt_apply Let_def pair_final_def canPairTransition_def is_live_def PAIR_LIVE_STATES_def)

end
