(* ===== verification/Peer_Service.thy ===== *)
theory Peer_Service
  imports Peer_Pairing
begin

text \<open>
  Model of \<open>packages/core/src/v2/peers/service.ts\<close>: the \<open>agent.*\<close> facade over the pairing
  manager, the registry and the token service, and the states reachable through it.
\<close>

section \<open>Operations\<close>

definition scopes_of_json :: "json \<Rightarrow> scope list" where
  "scopes_of_json v = (case v of JArr es \<Rightarrow> map (\<lambda>e. the (scope_of_json e)) es | _ \<Rightarrow> [])"

definition valid_scopes :: "json \<Rightarrow> thrown + scope list" where
  "valid_scopes v =
     (case validateScopes v of
        Inl (c, fld) \<Rightarrow> Inl (RpcError c (Some fld)) | Inr _ \<Rightarrow> Inr (scopes_of_json v))"

definition role_of_string :: "string \<Rightarrow> peer_role option" where
  "role_of_string r = (if r = ''agent'' then Some AgentRole else if r = ''operator'' then Some OperatorRole else None)"

definition fingerprint_param :: "json \<Rightarrow> thrown + string option" where
  "fingerprint_param key =
     (case key of
        JNull \<Rightarrow> Inr None
      | JStr k \<Rightarrow> if isHash64 key then Inr (Some k) else Inl (RpcError SCHEMA_INVALID (Some ''key''))
      | _ \<Rightarrow> Inl (RpcError SCHEMA_INVALID (Some ''key'')))"

definition pairCreate :: "agent_config \<Rightarrow> string \<Rightarrow> json \<Rightarrow> json \<Rightarrow> (string \<times> string \<times> int) peer_op" where
  "pairCreate cf rl scopes key =
     (case role_of_string rl of
        None \<Rightarrow> fail SCHEMA_INVALID (Some ''role'')
      | Some r \<Rightarrow>
          bindE (liftE (valid_scopes scopes)) (\<lambda>scs.
          bindE (liftE (fingerprint_param key)) (\<lambda>k.
            createInvitation cf r scs k)))"

definition pairGet :: "agent_config \<Rightarrow> string \<Rightarrow> string option \<Rightarrow> pair_view peer_op" where
  "pairGet cf i code = thenE (assertE (isId (JStr i)) (RpcError SCHEMA_INVALID (Some ''pair''))) (pair_get cf i code)"

definition admission_of :: "agent_config \<Rightarrow> pair_record option \<Rightarrow> admission_ctx" where
  "admission_of cf rec =
     \<lparr>ac_role = (case rec of None \<Rightarrow> AgentRole | Some r \<Rightarrow> pr_role r), ac_allowOperator = cf_allowOperator cf,
      ac_localOperatorConfirmation = True\<rparr>"

definition pairApprove :: "agent_config \<Rightarrow> string \<Rightarrow> string \<Rightarrow> string \<Rightarrow> json \<Rightarrow> string peer_op" where
  "pairApprove cf i proposal key scopes =
     bindE (liftE (valid_scopes scopes)) (\<lambda>scs.
     thenE (assertE (isHash64 (JStr proposal)) (RpcError SCHEMA_INVALID (Some ''proposal'')))
    (thenE (assertE (isHash64 (JStr key)) (RpcError SCHEMA_INVALID (Some ''key'')))
    (bindE (getsE (get_pair i)) (\<lambda>rec.
       approve cf i proposal key scs (check_manage (admission_of cf rec))))))"

definition pairCancel :: "agent_config \<Rightarrow> string \<Rightarrow> string peer_op" where
  "pairCancel cf i = thenE (assertE (isId (JStr i)) (RpcError SCHEMA_INVALID (Some ''pair''))) (cancel cf i)"

definition key32 :: "string \<Rightarrow> bool" where
  "key32 s \<longleftrightarrow> isB64uCanonical s \<and> length (b64u_decode s) = 32"

definition issue_challenge :: "agent_config \<Rightarrow> string \<Rightarrow> string \<Rightarrow> string \<Rightarrow> challenge_record peer_op" where
  "issue_challenge cf key keyId nonce =
     bindE (getsE pp_now) (\<lambda>now.
     bindE (newId (cf_ids cf) ''challenge'') (\<lambda>i.
     bindE (draw_nonce (cf_entropy cf)) (\<lambda>server.
       let rec = \<lparr>ch_challenge = i, ch_key_id = keyId, ch_key_public = key, ch_client_nonce = nonce,
                  ch_server_nonce = server, ch_audience = cf_gateway cf, ch_epoch = cf_epoch cf,
                  ch_created_ms = now, ch_expires_ms = now + challengeTtlMs, ch_consumed = False\<rparr> in
       thenE (modifyE (put_challenge rec)) (returnE rec))))"

definition challenge :: "agent_config \<Rightarrow> string \<Rightarrow> string \<Rightarrow> challenge_record peer_op" where
  "challenge cf key nonce =
     thenE (assertE (key32 key) (RpcError SCHEMA_INVALID (Some ''key'')))
    (thenE (assertE (key32 nonce) (RpcError SCHEMA_INVALID (Some ''nonce'')))
       (case keyIdOfPublic (cf_crypto cf) key of
          Inl _ \<Rightarrow> fail SCHEMA_INVALID (Some ''key'')
        | Inr keyId \<Rightarrow> thenE (limiter_check keyId) (issue_challenge cf key keyId nonce)))"

definition intersectPolicy :: "scope list \<Rightarrow> scope list option \<Rightarrow> scope list" where
  "intersectPolicy approved policy =
     (case policy of
        None \<Rightarrow> approved
      | Some p \<Rightarrow> concat (map (\<lambda>s. map (merge_scope s) (filter (\<lambda>o1. sc_permission s = sc_permission o1) p)) approved))"

datatype mesh_state = AwaitingNativeAck | AdapterRequired

record register_result =
  rs_peer :: string
  rs_source :: string
  rs_role :: peer_role
  rs_scopes :: "scope list"
  rs_access :: string
  rs_refresh :: string
  rs_expires_ms :: int
  rs_mesh :: mesh_state

definition grant_scopes :: "agent_config \<Rightarrow> scope list \<Rightarrow> registration \<Rightarrow> scope list" where
  "grant_scopes cf scopes reg =
     bindCapabilities (intersectPolicy scopes (cf_policyScopes cf)) (map capability_of (rg_capabilities reg))"

definition enrol :: "agent_config \<Rightarrow> pair_record \<Rightarrow> registration \<Rightarrow> scope list \<Rightarrow> register_result peer_op" where
  "enrol cf rec reg scopes =
     bindE (registerPeer cf (rg_key reg) (pr_role rec) (grant_scopes cf scopes reg)
              (map capability_of (rg_capabilities reg))) (\<lambda>p.
     bindE (issue cf p None) (\<lambda>out.
     thenE (consume rec reg)
    (bindE (getsE pp_now) (\<lambda>now.
       returnE \<lparr>rs_peer = p_id p, rs_source = p_source p, rs_role = p_role p,
                rs_scopes = grant_scopes cf scopes reg, rs_access = it_access out, rs_refresh = it_refresh out,
                rs_expires_ms = now + cf_accessTtlS cf * 1000,
                rs_mesh = (if cf_nativeMesh cf then AwaitingNativeAck else AdapterRequired)\<rparr>))))"

definition register :: "agent_config \<Rightarrow> json \<Rightarrow> register_result peer_op" where
  "register cf params =
     thenE (liftE (validateRegistrationShape params))
       (bindE (assertRegisterable cf params) (\<lambda>(rec, reg, scopes). enrol cf rec reg scopes))"

definition agent_renew :: "agent_config \<Rightarrow> renew_call \<Rightarrow> issued_tokens peer_op" where
  "agent_renew cf c =
     thenE (assertE (isId (JStr (rn_peer c))) (RpcError SCHEMA_INVALID (Some ''peer'')))
    (thenE (limiter_check (rn_peer c)) (renew cf c))"

definition agent_revoke :: "string \<Rightarrow> (string \<times> string) peer_op" where
  "agent_revoke i = thenE (assertE (isId (JStr i)) (RpcError SCHEMA_INVALID (Some ''peer''))) (revoke i)"

definition agent_disconnect :: "string \<Rightarrow> string peer_op" where
  "agent_disconnect i = thenE (assertE (isId (JStr i)) (RpcError SCHEMA_INVALID (Some ''peer''))) (disconnect i)"

section \<open>Reachable states\<close>

text \<open>The calls on the runtime and the passing of time.\<close>

datatype agent_call =
    PairCreate string json json
  | PairPropose json
  | PairGet string "string option"
  | PairApprove string string string json
  | PairCancel string
  | Challenge string string
  | Register json
  | Renew renew_call
  | ListPeers "string option" json
  | Revoke string
  | Disconnect string
  | NativeConnected string
  | OpenSession string string "string option"
  | ResumeSession string
  | Advance int

fun agent_step :: "agent_config \<Rightarrow> agent_call \<Rightarrow> peer_ports \<Rightarrow> peer_ports" where
  "agent_step cf (PairCreate rl scopes key) s = snd (pairCreate cf rl scopes key s)"
| "agent_step cf (PairPropose reg) s = snd (propose cf reg s)"
| "agent_step cf (PairGet i code) s = snd (pairGet cf i code s)"
| "agent_step cf (PairApprove i proposal key scopes) s = snd (pairApprove cf i proposal key scopes s)"
| "agent_step cf (PairCancel i) s = snd (pairCancel cf i s)"
| "agent_step cf (Challenge key nonce) s = snd (challenge cf key nonce s)"
| "agent_step cf (Register reg) s = snd (register cf reg s)"
| "agent_step cf (Renew c) s = snd (agent_renew cf c s)"
| "agent_step cf (ListPeers after limit) s = snd (listPeers after limit s)"
| "agent_step cf (Revoke i) s = snd (agent_revoke i s)"
| "agent_step cf (Disconnect i) s = snd (agent_disconnect i s)"
| "agent_step cf (NativeConnected i) s = snd (markNativeConnected i s)"
| "agent_step cf (OpenSession i kind cursor) s = snd (openSession cf i kind cursor s)"
| "agent_step cf (ResumeSession i) s = snd (resumeSession i s)"
| "agent_step cf (Advance ms) s = snd (advance ms s)"

definition agent_steps :: "agent_config \<Rightarrow> agent_call list \<Rightarrow> peer_ports \<Rightarrow> peer_ports" where
  "agent_steps cf calls s = fold (agent_step cf) calls s"

inductive reachable :: "agent_config \<Rightarrow> peer_ports \<Rightarrow> bool" for cf where
  start: "reachable cf (createMemoryPeerPorts now)"
| step: "reachable cf s \<Longrightarrow> reachable cf (agent_step cf call s)"

section \<open>The invariant\<close>

text \<open>Nothing of a revoked peer is usable.\<close>

definition revoked_closed :: "peer_ports \<Rightarrow> bool" where
  "revoked_closed s \<longleftrightarrow>
     (\<forall>k g p. get_grant k s = Some g \<and> get_peer (gr_peer g) s = Some p \<and> p_state p = REVOKED \<longrightarrow> gr_state g \<noteq> GrantActive) \<and>
     (\<forall>k r p. get_session k s = Some r \<and> get_peer (se_peer r) s = Some p \<and> p_state p = REVOKED \<longrightarrow> se_state r = SessionClosed)"

definition agents_inv :: "allocator \<Rightarrow> peer_ports \<Rightarrow> bool" where
  "agents_inv al s \<longleftrightarrow> grants_inv al s \<and> revoked_closed s \<and>
     (\<forall>k. get_peer k s \<noteq> None \<longrightarrow> issued al ''peer'' k s)"

definition pairs_inv :: "allocator \<Rightarrow> peer_ports \<Rightarrow> bool" where
  "pairs_inv al s \<longleftrightarrow> (\<forall>k rec. get_pair k s = Some rec \<longrightarrow> pair_ok rec \<and> issued al ''pair'' k s)"

definition agent_inv :: "agent_config \<Rightarrow> peer_ports \<Rightarrow> bool" where
  "agent_inv cf s \<longleftrightarrow> agents_inv (cf_ids cf) s \<and> pairs_inv (cf_ids cf) s"

definition peer_final :: "peer_state \<Rightarrow> bool" where
  "peer_final st \<longleftrightarrow> st = REVOKED"

interpretation peer_graph: lifecycle peer_allowed peer_final
proof
  show "peer_final st \<longleftrightarrow> peer_allowed st = []" for st
    by (cases st) (simp_all add: peer_final_def)
qed

abbreviation peer_path :: "peer_state \<Rightarrow> peer_state \<Rightarrow> bool" where
  "peer_path \<equiv> (\<lambda>a b. b \<in> set (peer_allowed a))\<^sup>*\<^sup>*"

text \<open>One peer row after an operation: along its machine, its enrolment unchanged.\<close>

definition peer_le :: "stored_peer \<Rightarrow> stored_peer \<Rightarrow> bool" where
  "peer_le p q \<longleftrightarrow> peer_path (p_state p) (p_state q) \<and> p_id q = p_id p \<and> p_key q = p_key p \<and>
     p_source q = p_source p \<and> p_role q = p_role p \<and> p_scopes q = p_scopes p"

lemma peer_le_refl [simp]: "peer_le p p"
  by (simp add: peer_le_def)

lemma peer_le_trans: "peer_le p q \<Longrightarrow> peer_le q r \<Longrightarrow> peer_le p r"
  unfolding peer_le_def by (auto intro: rtranclp_trans)

definition progress :: "peer_ports \<Rightarrow> peer_ports \<Rightarrow> bool" where
  "progress s t \<longleftrightarrow> (\<forall>k a. get_pair k s = Some a \<longrightarrow> (\<exists>b. get_pair k t = Some b \<and> pair_le a b)) \<and>
     (\<forall>k p. get_peer k s = Some p \<longrightarrow> (\<exists>q. get_peer k t = Some q \<and> peer_le p q))"

lemma progress_trans: "progress s t \<Longrightarrow> progress t u \<Longrightarrow> progress s u"
  unfolding progress_def by (meson pair_le_trans peer_le_trans)

text \<open>An operation that keeps the invariant and makes progress.\<close>

definition good :: "agent_config \<Rightarrow> peer_ports \<Rightarrow> peer_ports \<Rightarrow> bool" where
  "good cf s t \<longleftrightarrow> agent_inv cf t \<and> progress s t"

lemma good_trans: "good cf s t \<Longrightarrow> (agent_inv cf t \<Longrightarrow> good cf t u) \<Longrightarrow> good cf s u"
  unfolding good_def using progress_trans by blast

lemma agent_invD:
  assumes "agent_inv cf s"
  shows "ports_ok s" "grants_inv (cf_ids cf) s" "revoked_closed s" "pairs_inv (cf_ids cf) s" "agents_inv (cf_ids cf) s"
    "get_peer k s = Some p \<Longrightarrow> issued (cf_ids cf) ''peer'' k s"
  using assms unfolding agent_inv_def agents_inv_def by (auto dest: grants_invD(1))

lemma same_agents_gets:
  "same_agents s t \<Longrightarrow> get_peer k t = get_peer k s" "same_agents s t \<Longrightarrow> get_grant k t = get_grant k s"
  "same_agents s t \<Longrightarrow> get_session k t = get_session k s"
  by (simp_all add: same_agents_def get_peer_def get_grant_def get_session_def)

lemma agents_inv_same: "same_agents s t \<Longrightarrow> agents_inv al s \<Longrightarrow> agents_inv al t"
  unfolding agents_inv_def revoked_closed_def
  using issued_mono [of al "''peer''" _ s t] grants_inv_same [of al s t]
  by (simp add: same_agents_gets) (auto simp: same_agents_def)

lemma pairs_inv_evolves: "evolves s t \<Longrightarrow> same_agents s t \<Longrightarrow> pairs_inv al s \<Longrightarrow> pairs_inv al t"
  unfolding pairs_inv_def
proof (intro allI impI)
  fix k rec assume "evolves s t" "same_agents s t" "\<forall>k rec. get_pair k s = Some rec \<longrightarrow> pair_ok rec \<and> issued al ''pair'' k s"
    "get_pair k t = Some rec"
  then obtain a where "get_pair k s = Some a" "pair_le a rec" "pair_ok a" "issued al ''pair'' k s"
    unfolding evolves_def by (cases "get_pair k s") fastforce+
  with \<open>same_agents s t\<close> show "pair_ok rec \<and> issued al ''pair'' k t"
    by (auto simp: pair_le_def same_agents_def elim: issued_mono)
qed

lemma good_pairs: "agent_inv cf s \<Longrightarrow> same_agents s t \<Longrightarrow> evolves s t \<Longrightarrow> good cf s t"
  unfolding good_def agent_inv_def progress_def using agents_inv_same pairs_inv_evolves
  by (auto simp: same_agents_gets evolves_def)

lemma good_pairs_only: "pairs_only m \<Longrightarrow> agent_inv cf s \<Longrightarrow> good cf s (snd (m s))"
  unfolding pairs_only_def using good_pairs agent_invD(1) by blast

lemma good_quiet: "agent_inv cf s \<Longrightarrow> same_agents s t \<Longrightarrow> pp_pairs t = pp_pairs s \<Longrightarrow> good cf s t"
  by (rule good_pairs) simp_all

lemma good_refl: "agent_inv cf s \<Longrightarrow> good cf s s"
  using good_quiet same_agents_refl agent_invD(1) by blast

lemma good_assert_then: "agent_inv cf s \<Longrightarrow> good cf s (snd (m s)) \<Longrightarrow> good cf s (snd (thenE (assertE b e) m s))"
  by (simp add: op_simps good_refl)

lemma good_limiter: "agent_inv cf s \<Longrightarrow> good cf s (snd (limiter_check k s))"
  by (rule good_quiet) (auto simp: limiter_check_def op_simps Let_def same_agents_def ports_ok_def drawn_def
      dest!: agent_invD(1))

lemma good_limiter_then:
  assumes "agent_inv cf s" "\<And>t. agent_inv cf t \<Longrightarrow> good cf t (snd (m t))"
  shows "good cf s (snd (thenE (limiter_check k) m s))"
proof -
  obtain r t where l: "limiter_check k s = (r, t)" by fastforce
  then have t: "good cf s t" using good_limiter [OF assms(1), of k] by simp
  show ?thesis
  proof (cases r)
    case (Inl e)
    with l t show ?thesis by (simp add: op_simps)
  next
    case (Inr u)
    with l good_trans [OF t assms(2)] show ?thesis by (simp add: op_simps)
  qed
qed

context id_source
begin

lemma good_createInvitation:
  assumes "agent_inv cf s" "al = cf_ids cf"
  shows "good cf s (snd (createInvitation cf rl scopes key s))"
proof (cases "pending_pairs cf s < maxPendingInvitations")
  case False
  with assms show ?thesis by (simp add: createInvitation_apply good_refl)
next
  case True
  define t where "t = drew al ''pair'' (s\<lparr>pp_codes_drawn := pp_codes_drawn s + 1\<rparr>)"
  define p where "p = new_pair cf rl scopes key s"
  have ok: "ports_ok s" using agent_invD(1) [OF assms(1)] .
  have t: "same_agents s t" unfolding t_def using ok by (rule same_agents_drew)
  have pt: "get_pair k t = get_pair k s" for k unfolding t_def by simp
  have id: "pr_pair p = next_id al ''pair'' s" using assms(2) by (simp add: p_def new_pair_def)
  then have fresh: "get_pair (pr_pair p) s = None"
    using next_fresh [of "''pair''" s] agent_invD(4) [OF assms(1)] assms(2)
    by (cases "get_pair (pr_pair p) s") (auto simp: pairs_inv_def)
  have new: "issued al ''pair'' (pr_pair p) t"
    using issued_next [of al "''pair''" "s\<lparr>pp_codes_drawn := pp_codes_drawn s + 1\<rparr>"] by (simp add: id t_def)
  have old: "issued al ''pair'' k t" if "get_pair k s = Some rec" for k rec
    using agent_invD(4) [OF assms(1)] that t assms(2) issued_mono [of al "''pair''" k s t]
    by (auto simp: pairs_inv_def same_agents_def)
  have "agents_inv al t" using agents_inv_same [OF t] agent_invD(5) [OF assms(1)] assms(2) by simp
  then have "agents_inv al (put_pair p t)"
    using agents_inv_same [OF same_agents_put_pair] t by (simp add: same_agents_def)
  moreover have "pairs_inv al (put_pair p t)"
    using new old agent_invD(4) [OF assms(1)] new_pair_ok assms(2) by (auto simp: pairs_inv_def pt p_def)
  moreover have "progress s (put_pair p t)"
    using fresh t by (auto simp: progress_def pt same_agents_gets)
  moreover have "snd (createInvitation cf rl scopes key s) = put_pair p t"
    using True assms(2) by (simp add: createInvitation_apply t_def p_def)
  ultimately show ?thesis using assms(2) by (simp add: good_def agent_inv_def)
qed

lemma good_pairCreate:
  assumes "agent_inv cf s" "al = cf_ids cf"
  shows "good cf s (snd (pairCreate cf rl scopes key s))"
  using good_refl [OF assms(1)] good_createInvitation [OF assms]
  by (auto simp: pairCreate_def op_simps split: option.splits sum.splits)

end

lemma good_challenge:
  assumes "agent_inv cf s" shows "good cf s (snd (challenge cf key nonce s))"
proof -
  have quiet: "good cf t (snd (issue_challenge cf key i nonce t))" if "agent_inv cf t" for t i
  proof -
    define u where "u = (drew (cf_ids cf) ''challenge'' t)\<lparr>pp_nonces_drawn := pp_nonces_drawn t + 1\<rparr>"
    have nd: "pp_nonces_drawn (drew (cf_ids cf) ''challenge'' t) = pp_nonces_drawn t" by (simp add: drew_def)
    have "\<And>m. drawn m t \<le> drawn m (drew (cf_ids cf) ''challenge'' t)" by (rule drawn_drew)
    then have u: "same_agents t u" "pp_pairs u = pp_pairs t"
      using agent_invD(1) [OF that] by (simp_all add: u_def same_agents_def) (simp_all add: drew_def ports_ok_def drawn_def)
    have "\<exists>c. snd (issue_challenge cf key i nonce t) = put_challenge c u"
      by (simp add: issue_challenge_def op_simps newId_drew draw_nonce_def Let_def u_def nd) blast
    moreover have "same_agents t (put_challenge c u)" "pp_pairs (put_challenge c u) = pp_pairs t" for c
      using u by (simp_all add: same_agents_def) (simp_all add: put_challenge_def)
    ultimately show ?thesis using good_quiet [OF that] by metis
  qed
  show ?thesis
    unfolding challenge_def using assms quiet
    by (intro good_assert_then) (auto simp: throw_apply good_refl split: sum.split intro: good_limiter_then)
qed

text \<open>The registry and the token service.\<close>

lemma good_put_peer:
  assumes "agent_inv cf s" "get_peer (p_id p) s = Some p" "q \<in> set (peer_allowed (p_state p)) \<or> q = p_state p" "q \<noteq> REVOKED"
  shows "good cf s (put_peer (p\<lparr>p_state := q\<rparr>) s)"
proof -
  let ?t = "put_peer (p\<lparr>p_state := q\<rparr>) s"
  have "p_state p = REVOKED \<Longrightarrow> q = REVOKED" using assms(3) by auto
  then have live: "p_state p \<noteq> REVOKED" using assms(4) by blast
  have "grants_inv (cf_ids cf) ?t"
    by (rule grants_inv_same [OF agent_invD(2) [OF assms(1)]]) (use agent_invD(1) [OF assms(1)] in auto)
  moreover have "revoked_closed ?t"
    using agent_invD(3) [OF assms(1)] assms(2,4) live unfolding revoked_closed_def by (auto split: if_splits)
  moreover have "\<forall>k. get_peer k ?t \<noteq> None \<longrightarrow> issued (cf_ids cf) ''peer'' k ?t"
    using agent_invD(6) [OF assms(1)] assms(2) by auto
  moreover have "pairs_inv (cf_ids cf) ?t" using agent_invD(4) [OF assms(1)] by (simp add: pairs_inv_def)
  moreover have "peer_path (p_state p) q" using assms(3) by (auto intro: r_into_rtranclp)
  then have "progress s ?t" using assms(2) by (auto simp: progress_def peer_le_def)
  ultimately show ?thesis by (simp add: good_def agent_inv_def agents_inv_def)
qed

lemma good_closeSessions:
  assumes "agent_inv cf s" shows "good cf s (closeSessions i s)"
proof -
  have ok: "ports_ok s" using agent_invD(1) [OF assms] .
  have se: "se_state r = SessionClosed" if "get_session k (closeSessions i s) = Some r"
      "get_peer (se_peer r) s = Some p" "p_state p = REVOKED" for k r p
  proof -
    have "(get_peer (se_peer r) s = Some p \<and> p_state p = REVOKED) \<longrightarrow> se_state r = SessionClosed"
      using closeSessions_session [OF ok] that(1)
      by (rule after_loop) (use agent_invD(3) [OF assms] in \<open>auto simp: revoked_closed_def\<close>)
    then show ?thesis using that by blast
  qed
  have "grants_inv (cf_ids cf) (closeSessions i s)"
    by (rule grants_inv_same [OF agent_invD(2) [OF assms]]) (use ok in auto)
  moreover have "revoked_closed (closeSessions i s)"
    using agent_invD(3) [OF assms] se unfolding revoked_closed_def by auto
  moreover have "\<forall>k. get_peer k (closeSessions i s) \<noteq> None \<longrightarrow> issued (cf_ids cf) ''peer'' k (closeSessions i s)"
    using agent_invD(6) [OF assms] by (auto simp: issued_def)
  moreover have "pairs_inv (cf_ids cf) (closeSessions i s)"
    using agent_invD(4) [OF assms] by (simp add: pairs_inv_def issued_def)
  ultimately show ?thesis by (simp add: good_def agent_inv_def agents_inv_def progress_def)
qed

lemma good_transition:
  assumes "agent_inv cf s" "get_peer i s = Some p" "q \<noteq> REVOKED"
  shows "good cf s (snd (peer_transition p q s)) \<and> (\<forall>r u. peer_transition p q s = (Inr r, u) \<longrightarrow> p_id r = p_id p)"
proof -
  have p: "get_peer (p_id p) s = Some p" using get_peer_id [OF agent_invD(1) [OF assms(1)] assms(2)] assms(2) by simp
  have same: "p\<lparr>p_state := p_state p\<rparr> = p" by (cases p) simp
  have "good cf s (put_peer p s)" if "p_state p = q"
    using good_put_peer [OF assms(1) p, of q] that assms(3) unfolding that [symmetric] same by simp
  then show ?thesis
    using good_put_peer [OF assms(1) p, of q] assms(3) good_refl [OF assms(1)]
    by (auto simp: peer_transition_def op_simps split: if_splits)
qed

lemma good_markNativeConnected: "agent_inv cf s \<Longrightarrow> good cf s (snd (markNativeConnected i s))"
  using good_transition [of cf s i _ CONNECTED]
  by (auto simp: markNativeConnected_def op_simps getPeer_apply good_refl split: option.splits prod.splits sum.splits)

lemma good_disconnect:
  assumes "agent_inv cf s" shows "good cf s (snd (disconnect i s))"
proof (cases "get_peer i s")
  case None
  with assms show ?thesis by (simp add: disconnect_def op_simps getPeer_apply good_refl)
next
  case (Some p)
  obtain r t where run: "peer_transition p DISCONNECTED s = (r, t)" by fastforce
  then have t: "good cf s t" using good_transition [OF assms Some, of DISCONNECTED] by simp
  show ?thesis
  proof (cases r)
    case (Inl e)
    with run Some t show ?thesis by (simp add: disconnect_def op_simps getPeer_apply)
  next
    case (Inr q)
    have "good cf s (closeSessions (p_id q) t)" using t good_closeSessions by (rule good_trans)
    with Inr run Some show ?thesis by (simp add: disconnect_def op_simps getPeer_apply)
  qed
qed

lemma good_revoke:
  assumes "agent_inv cf s" shows "good cf s (snd (revoke i s))"
proof (cases "get_peer i s")
  case None
  with assms show ?thesis by (simp add: revoke_apply good_refl)
next
  case (Some p)
  have ok: "ports_ok s" using agent_invD(1) [OF assms] .
  have id: "p_id p = i" using get_peer_id [OF ok Some] .
  show ?thesis
  proof (cases "p_state p = REVOKED")
    case True
    with Some assms show ?thesis by (simp add: revoke_apply good_refl)
  next
    case False
    define q where "q = p\<lparr>p_state := REVOKED, p_grant_revision := bumpCount (p_grant_revision p)\<rparr>"
    define s1 where "s1 = put_peer q s"
    define t where "t = revoked_store p s"
    have q: "p_id q = i" using id by (simp add: q_def)
    have s1: "grants_inv (cf_ids cf) s1" unfolding s1_def
      by (rule grants_inv_same [OF agent_invD(2) [OF assms]]) (use ok in auto)
    have tg: "t = dropDeliveries i (closeSessions i (revokeGrants i s1))"
      by (simp add: t_def revoked_store_def s1_def q_def id)
    have "grants_inv (cf_ids cf) (revokeGrants i s1)" using s1 by (rule grants_inv_revokeGrants)
    then have gi: "grants_inv (cf_ids cf) t" unfolding tg
      by (rule grants_inv_same) (use ok in \<open>auto simp: s1_def\<close>)
    have pe: "get_peer k t = (if k = i then Some q else get_peer k s)" for k by (simp add: tg s1_def q)
    have dr: "issued al kd j t = issued al kd j s" for al kd j by (simp add: tg s1_def issued_def)
    have pr: "get_pair k t = get_pair k s" for k by (simp add: tg s1_def)
    have gr: "get_grant k t = map_option (\<lambda>g. if gr_peer g = i \<and> gr_state g = GrantActive then g\<lparr>gr_state := GrantRevoked\<rparr> else g) (get_grant k s)" for k
      using ok by (simp add: tg s1_def revokeGrants_grant)
    have se: "get_session k t = map_option (\<lambda>r. if se_peer r = i \<and> se_state r = SessionOpen then r\<lparr>se_state := SessionClosed\<rparr> else r) (get_session k s)" for k
      using ok by (simp add: tg s1_def closeSessions_session)
    have gc: "(gr_peer g = i \<longrightarrow> gr_state g \<noteq> GrantActive) \<and> (\<exists>g0. get_grant k s = Some g0 \<and> gr_peer g0 = gr_peer g \<and> (gr_state g = GrantActive \<longrightarrow> gr_state g0 = GrantActive))"
      if "get_grant k t = Some g" for k g
      using gr that by (rule after_loop) auto
    have sc: "(se_peer r = i \<longrightarrow> se_state r = SessionClosed) \<and> (\<exists>r0. get_session k s = Some r0 \<and> se_peer r0 = se_peer r \<and> (se_state r = SessionOpen \<longrightarrow> se_state r0 = SessionOpen))"
      if "get_session k t = Some r" for k r
      using se that by (rule after_loop) (auto intro: session_state.exhaust)
    have "gr_state g \<noteq> GrantActive" if "get_grant k t = Some g" "get_peer (gr_peer g) t = Some x" "p_state x = REVOKED" for k g x
    proof (cases "gr_peer g = i")
      case True
      then show ?thesis using gc [OF that(1)] by blast
    next
      case False
      then have "get_peer (gr_peer g) s = Some x" using that(2) by (simp add: pe)
      then show ?thesis using gc [OF that(1)] agent_invD(3) [OF assms] that(3) unfolding revoked_closed_def by metis
    qed
    moreover have "se_state r = SessionClosed" if tr: "get_session k t = Some r" and "get_peer (se_peer r) t = Some x" "p_state x = REVOKED" for k r x
    proof (cases "se_peer r = i")
      case True
      then show ?thesis using sc [OF tr] by blast
    next
      case False
      then have "get_peer (se_peer r) s = Some x" using \<open>get_peer (se_peer r) t = Some x\<close> by (simp add: pe)
      moreover obtain r0 where r0: "get_session k s = Some r0" "se_peer r0 = se_peer r"
          "se_state r = SessionOpen \<longrightarrow> se_state r0 = SessionOpen" using sc [OF tr] by blast
      ultimately have "se_state r0 = SessionClosed"
        using agent_invD(3) [OF assms] \<open>p_state x = REVOKED\<close> unfolding revoked_closed_def by auto
      with r0(3) show ?thesis by (cases "se_state r") auto
    qed
    ultimately have "revoked_closed t" unfolding revoked_closed_def by blast
    moreover have "\<forall>k. get_peer k t \<noteq> None \<longrightarrow> issued (cf_ids cf) ''peer'' k t"
      using agent_invD(6) [OF assms] Some by (auto simp: pe dr)
    moreover have "pairs_inv (cf_ids cf) t" using agent_invD(4) [OF assms] by (simp add: pairs_inv_def dr pr)
    moreover have "peer_le p q"
    proof -
      have "REVOKED \<in> set (peer_allowed (p_state p))" using False by (cases "p_state p") auto
      then show ?thesis by (simp add: peer_le_def q_def r_into_rtranclp)
    qed
    then have "progress s t" using Some by (auto simp: progress_def pe pr)
    ultimately show ?thesis
      using gi False Some by (simp add: good_def agent_inv_def agents_inv_def revoke_apply t_def)
  qed
qed

lemma good_openSession:
  assumes "agent_inv cf s" shows "good cf s (snd (openSession cf i kind cursor s))"
proof (cases "get_peer i s")
  case None
  with assms show ?thesis by (simp add: openSession_def op_simps getPeer_apply good_refl)
next
  case (Some p)
  have id: "p_id p = i" using get_peer_id [OF agent_invD(1) [OF assms] Some] .
  show ?thesis
  proof (cases "p_state p = REVOKED")
    case True
    with Some assms show ?thesis by (simp add: openSession_def op_simps getPeer_apply good_refl)
  next
    case False
    define t where "t = drew (cf_ids cf) ''session'' s"
    have t: "good cf s t" unfolding t_def
      using assms agent_invD(1) [OF assms] drawn_drew
      by (intro good_quiet) (simp_all add: same_agents_def, simp_all add: drew_def)
    then have ti: "agent_inv cf t" by (simp add: good_def)
    have "good cf t (put_session r t)" if "se_peer r = i" for r
    proof -
      have "grants_inv (cf_ids cf) (put_session r t)"
        by (rule grants_inv_same [OF agent_invD(2) [OF ti]]) (use agent_invD(1) [OF ti] in auto)
      moreover have "revoked_closed (put_session r t)"
        using agent_invD(3) [OF ti] Some False that unfolding revoked_closed_def by (auto simp: t_def split: if_splits)
      moreover have "\<forall>k. get_peer k (put_session r t) \<noteq> None \<longrightarrow> issued (cf_ids cf) ''peer'' k (put_session r t)"
        using agent_invD(6) [OF ti] by auto
      ultimately show ?thesis
        using agent_invD(4) [OF ti] by (simp add: good_def agent_inv_def agents_inv_def pairs_inv_def progress_def)
    qed
    then have *: "se_peer r = i \<Longrightarrow> good cf s (put_session r t)" for r using good_trans [OF t] by blast
    define r where "r = \<lparr>se_session = next_id (cf_ids cf) ''session'' s, se_peer = i, se_kind = kind,
      se_state = SessionOpen, se_opened_ms = pp_now s, se_cursor = cursor\<rparr>"
    have "snd (openSession cf i kind cursor s) = put_session r t"
      using Some False id by (simp add: openSession_def op_simps getPeer_apply newId_drew Let_def t_def r_def)
    then show ?thesis using * [of r] by (simp add: r_def)
  qed
qed

lemma good_grants:
  assumes "agent_inv cf s" "grants_inv (cf_ids cf) t" "\<And>k. get_peer k t = get_peer k s"
    "\<And>k. get_pair k t = get_pair k s" "\<And>k. get_session k t = get_session k s" "\<And>m. drawn m s \<le> drawn m t"
    "\<And>k h. get_grant k t = Some h \<Longrightarrow> gr_state h = GrantActive \<Longrightarrow>
       (\<exists>g. get_grant k s = Some g \<and> gr_state g = GrantActive \<and> gr_peer g = gr_peer h) \<or>
       (\<exists>p. get_peer (gr_peer h) s = Some p \<and> p_state p \<noteq> REVOKED)"
  shows "good cf s t"
proof -
  have "gr_state g \<noteq> GrantActive" if "get_grant k t = Some g" "get_peer (gr_peer g) t = Some p" "p_state p = REVOKED" for k g p
    using assms(7) [OF that(1)] agent_invD(3) [OF assms(1)] that(2,3) assms(3) unfolding revoked_closed_def by force
  then have "revoked_closed t"
    using agent_invD(3) [OF assms(1)] unfolding revoked_closed_def assms(3,5) by blast
  moreover have mono: "issued al kd i s \<Longrightarrow> issued al kd i t" for al kd i
    by (erule issued_mono) (rule assms(6))
  ultimately show ?thesis
    using assms(2) agent_invD(4,6) [OF assms(1)]
    by (auto simp: good_def agent_inv_def agents_inv_def pairs_inv_def progress_def assms(3,4))
qed

lemma good_revokeFamily:
  assumes "agent_inv cf s" shows "good cf s (revokeFamily f s)"
proof (rule good_grants [OF assms grants_inv_revokeFamily [OF agent_invD(2) [OF assms]]])
  fix k h assume h: "get_grant k (revokeFamily f s) = Some h" "gr_state h = GrantActive"
  have "gr_state h = GrantActive \<longrightarrow> (\<exists>g. get_grant k s = Some g \<and> gr_state g = GrantActive \<and> gr_peer g = gr_peer h)"
    using revokeFamily_grant [OF agent_invD(1) [OF assms]] h(1) by (rule after_loop) auto
  then show "(\<exists>g. get_grant k s = Some g \<and> gr_state g = GrantActive \<and> gr_peer g = gr_peer h) \<or>
      (\<exists>p. get_peer (gr_peer h) s = Some p \<and> p_state p \<noteq> REVOKED)" using h(2) by blast
qed (use revokeFamily_frames in \<open>auto\<close>)

lemma good_rotate:
  assumes "agent_inv cf s" "get_grant (gr_grant g) s = Some g" "gr_state g = GrantActive"
    "get_peer (gr_peer g) s = Some p" "p_state p \<noteq> REVOKED"
  shows "good cf s (snd (rotate_grant cf c h g p ch s))"
proof (rule good_grants [OF assms(1)])
  have id: "p_id p = gr_peer g" using get_peer_id [OF agent_invD(1) [OF assms(1)] assms(4)] .
  show "grants_inv (cf_ids cf) (snd (rotate_grant cf c h g p ch s))"
    using agent_invD(2) [OF assms(1)] assms by (intro grants_inv_rotate) (auto simp: id)
  fix k x assume x: "get_grant k (snd (rotate_grant cf c h g p ch s)) = Some x" "gr_state x = GrantActive"
  then show "(\<exists>g. get_grant k s = Some g \<and> gr_state g = GrantActive \<and> gr_peer g = gr_peer x) \<or>
      (\<exists>p. get_peer (gr_peer x) s = Some p \<and> p_state p \<noteq> REVOKED)"
    using assms(4,5) by (auto simp: rotate_apply Let_def id split: if_splits)
qed (use drawn_drew_grant [of _ "put_grant (g\<lparr>gr_state := GrantConsumed\<rparr>) (put_challenge (ch\<lparr>ch_consumed := True\<rparr>) s)"]
  in \<open>simp_all add: rotate_apply Let_def\<close>)

lemma good_renew:
  assumes "agent_inv cf s" shows "good cf s (snd (renew cf c s))"
  using agent_invD(1) [OF assms]
proof (cases rule: renew_cases [of s cf c])
  case (rotated g p ch h)
  with good_rotate [OF assms rotated(1,2,5,6)] show ?thesis by simp
qed (use good_refl [OF assms] good_revokeFamily [OF assms] in auto)

lemma good_agent_renew: "agent_inv cf s \<Longrightarrow> good cf s (snd (agent_renew cf c s))"
  unfolding agent_renew_def by (intro good_assert_then good_limiter_then good_renew)

text \<open>Enrolment.\<close>

lemma consume_good:
  assumes "agent_inv cf s" "get_pair (pr_pair rec) s = Some rec" "pr_state rec = APPROVED"
  shows "fst (consume rec reg s) = Inr ()" "good cf s (snd (consume rec reg s))"
    "get_pair (pr_pair rec) (snd (consume rec reg s)) = Some (rec\<lparr>pr_state := CONSUMED\<rparr>)"
    "get_peer k (snd (consume rec reg s)) = get_peer k s" "get_grant k (snd (consume rec reg s)) = get_grant k s"
    "pp_now (snd (consume rec reg s)) = pp_now s"
proof -
  have live: "is_live rec" using assms(3) by (simp add: is_live_def PAIR_LIVE_STATES_def)
  obtain u where u: "u = s \<or> (\<exists>ch. u = put_challenge ch s)"
      and run: "consume rec reg s = (Inr (), put_pair (rec\<lparr>pr_state := CONSUMED\<rparr>) u)"
    using consume_apply [OF live assms(3)] by blast
  have su: "same_agents s u" and pu: "pp_pairs u = pp_pairs s" and k: "get_peer k u = get_peer k s"
      "get_grant k u = get_grant k s" "pp_now u = pp_now s" for k
    using u agent_invD(1) [OF assms(1)] by (auto simp: same_agents_def) (simp_all add: put_challenge_def)
  have "ports_ok u" using su by (simp add: same_agents_def)
  then have "same_agents s (put_pair (rec\<lparr>pr_state := CONSUMED\<rparr>) u)"
    using same_agents_trans [OF su same_agents_put_pair] by blast
  moreover have "pp_pairs (put_pair (rec\<lparr>pr_state := CONSUMED\<rparr>) u) = pp_pairs (put_pair (rec\<lparr>pr_state := CONSUMED\<rparr>) s)"
    by (simp add: put_pair_def pu)
  moreover have "canPairTransition (pr_state rec) CONSUMED" using assms(3) by (simp add: canPairTransition_def)
  then have "pair_le rec (rec\<lparr>pr_state := CONSUMED\<rparr>)"
    using pair_le_final [of rec CONSUMED "pr_attempts rec"] by (simp add: pair_final_def)
  ultimately have "good cf s (put_pair (rec\<lparr>pr_state := CONSUMED\<rparr>) u)"
    using assms(1,2) by (intro good_pairs) (auto intro: evolves_put [of "rec\<lparr>pr_state := CONSUMED\<rparr>" s rec])
  then show "fst (consume rec reg s) = Inr ()" "good cf s (snd (consume rec reg s))"
    "get_pair (pr_pair rec) (snd (consume rec reg s)) = Some (rec\<lparr>pr_state := CONSUMED\<rparr>)"
    "get_peer k (snd (consume rec reg s)) = get_peer k s" "get_grant k (snd (consume rec reg s)) = get_grant k s"
    "pp_now (snd (consume rec reg s)) = pp_now s"
    using k by (simp_all add: run)
qed

definition new_peer :: "agent_config \<Rightarrow> key_material \<Rightarrow> peer_role \<Rightarrow> scope list \<Rightarrow> capability list \<Rightarrow> string \<Rightarrow> peer_ports \<Rightarrow> stored_peer" where
  "new_peer cf km rl scopes caps src u =
     \<lparr>p_id = next_id (cf_ids cf) ''peer'' u, p_source = src, p_key = km_id km, p_role = rl, p_scopes = scopes,
      p_capabilities = caps, p_state = REGISTERED, p_grant_revision = ''1'',
      sp_key_material = km, sp_epoch = cf_epoch cf, sp_registered_ms = pp_now u\<rparr>"

lemma registerPeer_cases:
  assumes "ports_ok s"
  obtains src u where "registerPeer cf km rl scopes caps s =
      (Inr (new_peer cf km rl scopes caps src u), put_peer (new_peer cf km rl scopes caps src u) (drew (cf_ids cf) ''peer'' u))"
    "same_agents s u" "pp_pairs u = pp_pairs s" "pp_now u = pp_now s"
proof (cases "sourceForKey (km_id km) s")
  case (Some src)
  with that [of src s] assms show ?thesis
    by (simp add: registerPeer_def source_of_def op_simps newId_drew new_peer_def Let_def same_agents_refl)
next
  case None
  define u where "u = put_source (km_id km) (next_id (cf_ids cf) ''source'' s) (drew (cf_ids cf) ''source'' s)"
  have now: "pp_now u = pp_now s" by (simp add: u_def put_source_def)
  have "same_agents s u" "pp_pairs u = pp_pairs s"
    using assms drawn_drew by (simp_all add: u_def same_agents_def) (simp_all add: put_source_def drew_def)
  with that [of "next_id (cf_ids cf) ''source'' s" u] None now show ?thesis
    by (simp add: registerPeer_def source_of_def op_simps newId_drew new_peer_def Let_def u_def)
qed

lemma good_pairGet: "agent_inv cf s \<Longrightarrow> good cf s (snd (pairGet cf i code s))"
  unfolding pairGet_def by (intro good_assert_then good_pairs_only pair_get_pairs_only)

lemma good_pairCancel: "agent_inv cf s \<Longrightarrow> good cf s (snd (pairCancel cf i s))"
  unfolding pairCancel_def by (intro good_assert_then good_pairs_only cancel_pairs_only)

lemma good_agent_revoke: "agent_inv cf s \<Longrightarrow> good cf s (snd (agent_revoke i s))"
  unfolding agent_revoke_def by (intro good_assert_then good_revoke)

lemma good_agent_disconnect: "agent_inv cf s \<Longrightarrow> good cf s (snd (agent_disconnect i s))"
  unfolding agent_disconnect_def by (intro good_assert_then good_disconnect)

lemma new_peer_simps [simp]:
  "p_id (new_peer cf km rl scopes caps src u) = next_id (cf_ids cf) ''peer'' u"
  "p_state (new_peer cf km rl scopes caps src u) = REGISTERED" "p_key (new_peer cf km rl scopes caps src u) = km_id km"
  "p_scopes (new_peer cf km rl scopes caps src u) = scopes" "p_role (new_peer cf km rl scopes caps src u) = rl"
  "p_source (new_peer cf km rl scopes caps src u) = src"
  by (simp_all add: new_peer_def)

lemma good_drew: "agent_inv cf s \<Longrightarrow> good cf s (drew al kind s)"
  using drawn_drew agent_invD(1) by (intro good_quiet) (simp_all add: same_agents_def, simp_all add: drew_def)

context id_source
begin

lemma peer_id_fresh:
  assumes "agent_inv cf u" "al = cf_ids cf"
  shows "get_peer (next_id al ''peer'' u) u = None"
  using next_fresh [of "''peer''" u] agent_invD(6) [OF assms(1)] assms(2) by (cases "get_peer (next_id al ''peer'' u) u") auto

lemma good_new_peer:
  assumes "agent_inv cf u" "al = cf_ids cf"
  shows "good cf u (put_peer (new_peer cf km rl scopes caps src u) (drew al ''peer'' u))"
proof -
  let ?p = "new_peer cf km rl scopes caps src u" and ?d = "drew al ''peer'' u"
  have d: "agent_inv cf ?d" using good_drew [OF assms(1)] by (simp add: good_def)
  have fresh: "get_peer (next_id al ''peer'' u) u = None" using assms by (rule peer_id_fresh)
  have id: "p_id ?p = next_id al ''peer'' u" using assms(2) by simp
  have "grants_inv al (put_peer ?p ?d)"
    by (rule grants_inv_same [of al ?d]) (use agent_invD(1,2) [OF d] assms(2) in auto)
  moreover have "revoked_closed (put_peer ?p ?d)"
    using agent_invD(3) [OF d] id unfolding revoked_closed_def by (auto split: if_splits)
  moreover have "\<forall>k. get_peer k (put_peer ?p ?d) \<noteq> None \<longrightarrow> issued al ''peer'' k (put_peer ?p ?d)"
    using agent_invD(6) [OF d] issued_next [of al "''peer''" u] assms(2) by auto
  moreover have "pairs_inv al (put_peer ?p ?d)"
    using agent_invD(4) [OF d] assms(2) by (simp add: pairs_inv_def)
  moreover have "progress u (put_peer ?p ?d)" using fresh id by (auto simp: progress_def)
  ultimately show ?thesis using assms(2) by (simp add: good_def agent_inv_def agents_inv_def)
qed

lemma good_issue_new:
  assumes "agent_inv cf s" "al = cf_ids cf" "get_peer (p_id p) s = Some p" "p_state p \<noteq> REVOKED"
  shows "good cf s (snd (issue cf p None s))"
    "get_peer k (snd (issue cf p None s)) = get_peer k s" "get_pair k (snd (issue cf p None s)) = get_pair k s"
    "\<exists>k g. get_grant k (snd (issue cf p None s)) = Some g \<and> gr_peer g = p_id p \<and> gr_state g = GrantActive \<and>
       gr_scopes g = p_scopes p"
proof -
  let ?t = "snd (issue cf p None s)"
  define f where "f = next_id al ''family'' (drew_grant cf s)"
  have t: "?t = put_grant (new_grant cf p f s) (drew al ''family'' (drew_grant cf s))"
    using assms(2) by (simp add: issue_none Let_def f_def)
  show "get_peer k ?t = get_peer k s" "get_pair k ?t = get_pair k s" by (simp_all add: t)
  show "\<exists>k g. get_grant k ?t = Some g \<and> gr_peer g = p_id p \<and> gr_state g = GrantActive \<and> gr_scopes g = p_scopes p"
    by (rule exI [of _ "gr_grant (new_grant cf p f s)"]) (simp add: t)
  have gi: "grants_inv al ?t"
    by (rule grants_inv_issue_new) (use agent_invD(2) [OF assms(1)] assms in auto)
  have mono: "drawn m s \<le> drawn m ?t" for m
    using drawn_drew_grant [of m s cf] drawn_drew [of m "drew_grant cf s" al "''family''"] by (simp add: t)
  show "good cf s ?t"
    by (rule good_grants) (use gi mono assms t in \<open>auto split: if_splits\<close>)
qed

lemma enrol_run:
  assumes "agent_inv cf s" "al = cf_ids cf" "get_pair (pr_pair rec) s = Some rec" "pr_state rec = APPROVED"
  obtains res t p where "enrol cf rec reg scopes s = (Inr res, t)" "good cf s t"
    "get_pair (pr_pair rec) t = Some (rec\<lparr>pr_state := CONSUMED\<rparr>)" "get_peer (rs_peer res) s = None"
    "get_peer (rs_peer res) t = Some p" "p_key p = km_id (rg_key reg)" "p_role p = pr_role rec"
    "p_scopes p = grant_scopes cf scopes reg" "p_state p = REGISTERED"
    "\<exists>k g. get_grant k t = Some g \<and> gr_peer g = rs_peer res \<and> gr_state g = GrantActive \<and>
       gr_scopes g = grant_scopes cf scopes reg"
proof -
  let ?sc = "grant_scopes cf scopes reg" and ?caps = "map capability_of (rg_capabilities reg)"
  obtain src u where run1: "registerPeer cf (rg_key reg) (pr_role rec) ?sc ?caps s =
      (Inr (new_peer cf (rg_key reg) (pr_role rec) ?sc ?caps src u),
       put_peer (new_peer cf (rg_key reg) (pr_role rec) ?sc ?caps src u) (drew (cf_ids cf) ''peer'' u))"
    and u: "same_agents s u" "pp_pairs u = pp_pairs s"
    using registerPeer_cases [OF agent_invD(1) [OF assms(1)]] by metis
  define p where "p = new_peer cf (rg_key reg) (pr_role rec) ?sc ?caps src u"
  define s1 where "s1 = put_peer p (drew al ''peer'' u)"
  define s2 where "s2 = snd (issue cf p None s1)"
  have gu: "good cf s u" using assms(1) u by (rule good_quiet)
  then have iu: "agent_inv cf u" by (simp add: good_def)
  have g1: "good cf u s1" unfolding s1_def p_def using iu assms(2) by (rule good_new_peer)
  then have i1: "agent_inv cf s1" by (simp add: good_def)
  have p1: "get_peer (p_id p) s1 = Some p" by (simp add: s1_def)
  have live: "p_state p \<noteq> REVOKED" by (simp add: p_def)
  note iss = good_issue_new [OF i1 assms(2) p1 live, folded s2_def]
  then have i2: "agent_inv cf s2" by (simp add: good_def)
  have r2: "get_pair (pr_pair rec) s2 = Some rec"
    using assms(3) u(2) iss(3) by (simp add: s1_def get_pair_def put_peer_def drew_def)
  note con = consume_good [OF i2 r2 assms(4), where reg = reg]
  define t where "t = snd (consume rec reg s2)"
  obtain out where out: "issue cf p None s1 = (Inr out, s2)"
    unfolding s2_def by (simp add: issue_none Let_def)
  have conr: "consume rec reg s2 = (Inr (), t)" using con(1) by (simp add: t_def prod_eq_iff)
  have run: "registerPeer cf (rg_key reg) (pr_role rec) ?sc ?caps s = (Inr p, s1)"
    using run1 assms(2) by (simp add: p_def s1_def)
  define res where "res = \<lparr>rs_peer = p_id p, rs_source = p_source p, rs_role = p_role p, rs_scopes = ?sc,
    rs_access = it_access out, rs_refresh = it_refresh out, rs_expires_ms = pp_now t + cf_accessTtlS cf * 1000,
    rs_mesh = (if cf_nativeMesh cf then AwaitingNativeAck else AdapterRequired)\<rparr>"
  have res: "enrol cf rec reg scopes s = (Inr res, t)" "rs_peer res = p_id p"
    by (simp_all add: enrol_def op_simps run out conr res_def)
  have good: "good cf s t"
    unfolding t_def using gu g1 iss(1) con(2) good_trans by metis
  have "get_peer (p_id p) s = None"
    using peer_id_fresh [OF iu assms(2)] assms(2) same_agents_gets(1) [OF u(1)] by (simp add: p_def)
  moreover have "get_peer (p_id p) t = Some p" using con(4) iss(2) p1 by (simp add: t_def)
  moreover have "\<exists>k g. get_grant k t = Some g \<and> gr_peer g = p_id p \<and> gr_state g = GrantActive \<and> gr_scopes g = ?sc"
    using iss(4) con(5) by (simp add: t_def p_def)
  ultimately show ?thesis
    using that [of res t p] res good con(3) by (simp add: t_def p_def)
qed

lemma good_register:
  assumes "agent_inv cf s" "al = cf_ids cf" shows "good cf s (snd (register cf params s))"
proof (cases "validateRegistrationShape params")
  case (Inl e)
  with assms(1) show ?thesis by (simp add: register_def op_simps good_refl)
next
  case (Inr v)
  have ok: "ports_ok s" using agent_invD(1) [OF assms(1)] .
  then show ?thesis
  proof (cases rule: assertRegisterable_cases [of s cf params])
    case (refused e t)
    then show ?thesis using Inr good_pairs [OF assms(1)] by (simp add: register_def op_simps)
  next
    case (admitted rec valid a t)
    have gt: "good cf s t" using assms(1) admitted(2,3) by (rule good_quiet)
    then have it: "agent_inv cf t" by (simp add: good_def)
    have rec: "get_pair (pr_pair rec) t = Some rec"
      using pairs.get_key [OF ok admitted(4)] admitted(3,4) by (simp add: get_pair_def)
    obtain res u where "enrol cf rec valid (ac_scopes a) t = (Inr res, u)" "good cf t u"
      using enrol_run [OF it assms(2) rec admitted(5)] by metis
    then show ?thesis using good_trans [OF gt] admitted(1) Inr by (simp add: register_def op_simps)
  qed
qed

lemma good_step:
  assumes "agent_inv cf s" "al = cf_ids cf" shows "good cf s (agent_step cf call s)"
proof (cases call)
  case (PairApprove i proposal key scopes)
  then show ?thesis
    using good_refl [OF assms(1)] good_pairs_only [OF approve_pairs_only assms(1)]
    by (simp add: pairApprove_def op_simps split: sum.split)
next
  case (Advance ms)
  have "same_agents s (s\<lparr>pp_now := pp_now s + ms\<rparr>)"
    using agent_invD(1) [OF assms(1)] by (simp add: same_agents_def ports_ok_def drawn_def)
  with Advance show ?thesis using good_quiet [OF assms(1)] by (simp add: advance_def op_simps)
next
  case (ListPeers after limit)
  have "snd (listPeers after limit s) = s"
    by (auto simp: listPeers_def op_simps Let_def split: json.splits option.splits)
  with ListPeers show ?thesis using good_refl [OF assms(1)] by simp
next
  case (ResumeSession i)
  have "snd (resumeSession i s) = s" by (auto simp: resumeSession_def op_simps split: option.splits)
  with ResumeSession show ?thesis using good_refl [OF assms(1)] by simp
qed (use good_pairCreate [OF assms] good_pairs_only [OF propose_pairs_only assms(1)] good_register [OF assms]
    good_pairGet [OF assms(1)] good_pairCancel [OF assms(1)] good_agent_revoke [OF assms(1)]
    good_agent_disconnect [OF assms(1)]
    good_challenge [OF assms(1)] good_agent_renew [OF assms(1)] good_markNativeConnected [OF assms(1)]
    good_openSession [OF assms(1)]
  in simp_all)

lemma agent_inv_start: "agent_inv cf (createMemoryPeerPorts now)"
  by (simp add: agent_inv_def agents_inv_def grants_inv_def revoked_closed_def pairs_inv_def)
    (simp add: createMemoryPeerPorts_def table_defs)

lemma reachable_inv: "reachable cf s \<Longrightarrow> al = cf_ids cf \<Longrightarrow> agent_inv cf s"
  by (induction rule: reachable.induct) (use agent_inv_start good_step in \<open>auto simp: good_def\<close>)

lemma steps_good:
  assumes "agent_inv cf s" "al = cf_ids cf" shows "good cf s (agent_steps cf calls s)"
  using assms(1)
proof (induction calls arbitrary: s)
  case Nil
  then show ?case by (simp add: agent_steps_def good_refl)
next
  case (Cons c calls)
  have step: "good cf s (agent_step cf c s)" using Cons.prems assms(2) by (rule good_step)
  have "agent_steps cf (c # calls) s = agent_steps cf calls (agent_step cf c s)" by (simp add: agent_steps_def)
  then show ?case using good_trans [OF step] Cons.IH by simp
qed

end

lemma limiter_ok: "limiter_check key s = (Inr u, t) \<longleftrightarrow>
   length (key_hits key s) < authAttemptsPerKeyPerMinute \<and>
   length (filter (\<lambda>t. pp_now s - 60000 < t) (rl_instanceHits s)) < authAttemptsPerInstancePerMinute \<and>
   t = s\<lparr>rl_instanceHits := filter (\<lambda>t. pp_now s - 60000 < t) (rl_instanceHits s) @ [pp_now s],
         rl_perKey := aput key (key_hits key s @ [pp_now s]) (rl_perKey s)\<rparr>"
  by (auto simp: limiter_check_def op_simps Let_def)

lemma register_runs_iff:
  assumes "id_source (cf_ids cf)" "agent_inv cf s"
  shows "(\<exists>res t. register cf params s = (Inr res, t)) \<longleftrightarrow>
    (\<exists>reg rec a u. validateRegistrationShape params = Inr reg \<and> get_pair (rg_pair reg) s = Some rec \<and>
       row_checks cf rec reg s = (Inr (), u) \<and> pr_state rec = APPROVED \<and> pr_approved rec = Some a \<and>
       km_id (rg_key reg) = ac_key a \<and> proposalOfRegistration (cf_crypto cf) reg = Inr (ac_proposal a))"
    (is "?L \<longleftrightarrow> ?R")
proof
  have ok: "ports_ok s" using agent_invD(1) [OF assms(2)] .
  assume ?L
  from ok show ?R
  proof (cases rule: assertRegisterable_cases [of s cf params])
    case (refused e u)
    then have "\<exists>e u. register cf params s = (Inl e, u)"
      by (auto simp: register_def op_simps split: sum.split)
    with \<open>?L\<close> show ?thesis by auto
  qed blast
next
  assume ?R
  then obtain reg rec a u where r: "validateRegistrationShape params = Inr reg" "get_pair (rg_pair reg) s = Some rec"
      "row_checks cf rec reg s = (Inr (), u)" "pr_state rec = APPROVED" "pr_approved rec = Some a"
      "km_id (rg_key reg) = ac_key a" "proposalOfRegistration (cf_crypto cf) reg = Inr (ac_proposal a)"
    by blast
  have ok: "ports_ok s" using agent_invD(1) [OF assms(2)] .
  have rp: "get_pair (pr_pair rec) s = Some rec" using pairs.get_key [OF ok r(2)] r(2) by simp
  have g: "same_agents s u" "pp_pairs u = pp_pairs s"
    using guards_row_checks [of rec cf reg] ok rp r(3) unfolding guards_def by (metis fst_conv snd_conv sum.case(2))+
  have "assertRegisterable cf params s = (Inr (rec, reg, ac_scopes a), u)"
    using r by (simp add: assertRegisterable_def validateRegistration_row op_simps)
  moreover have iu: "agent_inv cf u" using good_quiet [OF assms(2) g] by (simp add: good_def)
  moreover have "get_pair (pr_pair rec) u = Some rec" using rp g(2) by (simp add: get_pair_def)
  ultimately obtain res t where "enrol cf rec reg (ac_scopes a) u = (Inr res, t)"
    using id_source.enrol_run [OF assms(1) iu refl _ r(4)] by metis
  then show ?L using r(1) \<open>assertRegisterable cf params s = _\<close> by (simp add: register_def op_simps)
qed
section \<open>Properties\<close>

lemma intersectPolicy_within:
  assumes "e \<in> set (intersectPolicy approved policy)"
  shows "scopeWithin e approved \<and> (\<forall>p. policy = Some p \<longrightarrow> scopeWithin e p)"
proof (cases policy)
  case None
  with assms show ?thesis by (auto simp: intersectPolicy_def scopeWithin_iff)
next
  case (Some p)
  then obtain s o1 where "s \<in> set approved" "o1 \<in> set p" "sc_permission s = sc_permission o1" "e = merge_scope s o1"
    using assms by (auto simp: intersectPolicy_def)
  moreover from this have "sc_permission s = sc_permission e" "sc_permission o1 = sc_permission e"
      "set (sc_topics e) \<subseteq> set (sc_topics s)" "set (sc_topics e) \<subseteq> set (sc_topics o1)"
      "set (sc_runs e) \<subseteq> set (sc_runs s)" "set (sc_runs e) \<subseteq> set (sc_runs o1)"
      "set (sc_products e) \<subseteq> set (sc_products s)" "set (sc_products e) \<subseteq> set (sc_products o1)"
    by (auto simp: merge_scope_def)
  ultimately show ?thesis using Some unfolding scopeWithin_iff by blast
qed

lemma grant_scopes_within:
  assumes "e \<in> set (grant_scopes cf scopes reg)"
  shows "scopeWithin e scopes \<and> (\<forall>p. cf_policyScopes cf = Some p \<longrightarrow> scopeWithin e p)"
  using bindCapabilities_within [OF assms [unfolded grant_scopes_def]] intersectPolicy_within scopeWithin_trans
  by meson

text \<open>
  C4.  In every state the agent service can reach, whatever calls were made and however time
  passed: a refresh family has at most one active grant; every live invitation has fewer
  than five failed attempts; an approved invitation carries a commitment to its current
  proposal and key whose scopes only narrow the invited ones; and a revoked peer has
  neither an active grant nor an open session.
\<close>

theorem reachable_states_are_sound:
  assumes "id_source (cf_ids cf)" "reachable cf s"
  shows "(\<forall>k l g h. get_grant k s = Some g \<and> get_grant l s = Some h \<and> gr_family g = gr_family h \<and>
       gr_state g = GrantActive \<and> gr_state h = GrantActive \<longrightarrow> k = l) \<and>
    (\<forall>k rec. get_pair k s = Some rec \<and> is_live rec \<longrightarrow> pr_attempts rec < 5) \<and>
    (\<forall>k rec. get_pair k s = Some rec \<and> pr_state rec = APPROVED \<longrightarrow>
       (\<exists>a. pr_approved rec = Some a \<and> pr_proposal rec = Some (ac_proposal a) \<and> pr_proposal_key rec = Some (ac_key a) \<and>
         (\<forall>sc\<in>set (ac_scopes a). scopeWithin sc (pr_scopes rec)))) \<and>
    (\<forall>i p. get_peer i s = Some p \<and> p_state p = REVOKED \<longrightarrow>
       (\<forall>k g. get_grant k s = Some g \<and> gr_peer g = i \<longrightarrow> gr_state g \<noteq> GrantActive) \<and>
       (\<forall>k r. get_session k s = Some r \<and> se_peer r = i \<longrightarrow> se_state r = SessionClosed))"
proof -
  have inv: "agent_inv cf s" using id_source.reachable_inv [OF assms] by simp
  have "\<forall>k rec. get_pair k s = Some rec \<longrightarrow> pair_ok rec"
    using agent_invD(4) [OF inv] by (simp add: pairs_inv_def)
  then have 1: "\<forall>k rec. get_pair k s = Some rec \<and> is_live rec \<longrightarrow> pr_attempts rec < 5"
    and 2: "\<forall>k rec. get_pair k s = Some rec \<and> pr_state rec = APPROVED \<longrightarrow>
       (\<exists>a. pr_approved rec = Some a \<and> pr_proposal rec = Some (ac_proposal a) \<and> pr_proposal_key rec = Some (ac_key a) \<and>
         (\<forall>sc\<in>set (ac_scopes a). scopeWithin sc (pr_scopes rec)))"
    unfolding pair_ok_def maxCodeAttempts_def by blast+
  show ?thesis
    using grants_invD(5) [OF agent_invD(2) [OF inv]] 1 2 agent_invD(3) [OF inv] unfolding revoked_closed_def by blast
qed

text \<open>
  C7.  Revocation is final: from a state in which the peer is REVOKED, after any further
  calls, no access token authenticates as that peer and none of its sessions can be
  resumed.
\<close>

theorem revoked_peer_stays_locked_out:
  assumes "id_source (cf_ids cf)" "agent_inv cf s" "get_peer i s = Some p" "p_state p = REVOKED"
    "t = agent_steps cf calls s"
  shows "(\<forall>a g q. verifyAccess cf a t = Inr (g, q) \<longrightarrow> gr_peer g \<noteq> i \<and> p_id q \<noteq> i) \<and>
    (\<forall>sid r u. resumeSession sid t = (Inr r, u) \<longrightarrow> se_peer r \<noteq> i) \<and>
    (\<exists>q. get_peer i t = Some q \<and> p_state q = REVOKED)"
proof -
  have t: "good cf s t" using id_source.steps_good [OF assms(1,2)] assms(5) by simp
  then obtain q where q: "get_peer i t = Some q" "peer_le p q"
    using assms(3) unfolding good_def progress_def by blast
  then have rev: "p_state q = REVOKED"
    using peer_graph.final_stays [of "p_state p" "p_state q"] assms(4) by (simp add: peer_le_def peer_final_def)
  have ok: "ports_ok t" using t agent_invD(1) unfolding good_def by blast
  have "gr_peer g \<noteq> i \<and> p_id x \<noteq> i" if v: "verifyAccess cf a t = Inr (g, x)" for a g x
  proof -
    from v have "get_peer (gr_peer g) t = Some x" "p_state x \<noteq> REVOKED"
      by (auto simp: verifyAccess_def split: option.splits if_splits)
    then show ?thesis using q(1) rev get_peer_id [OF ok] by auto
  qed
  moreover have "se_peer r \<noteq> i" if "resumeSession sid t = (Inr r, u)" for sid r u
    using that q(1) rev by (auto simp: resumeSession_def op_simps split: option.splits if_splits)
  ultimately show ?thesis using q(1) rev by blast
qed

text \<open>
  C27.  An invitation moves only along its state machine: after any calls its row is still
  there, reached by the machine's edges, with the same code, role, scopes, pinned key, epoch
  and expiry, never fewer recorded failures, and a CONSUMED, CANCELLED, EXPIRED or LOCKED
  invitation stays what it is.
\<close>

theorem invitations_follow_their_lifecycle:
  assumes "id_source (cf_ids cf)" "agent_inv cf s" "get_pair k s = Some a" "t = agent_steps cf calls s"
  shows "\<exists>b. get_pair k t = Some b \<and> pair_path (pr_state a) (pr_state b) \<and> pr_attempts a \<le> pr_attempts b \<and>
    pr_code_hash b = pr_code_hash a \<and> pr_role b = pr_role a \<and> pr_scopes b = pr_scopes a \<and>
    pr_pinned_key b = pr_pinned_key a \<and> pr_epoch b = pr_epoch a \<and> pr_expires_ms b = pr_expires_ms a \<and>
    (pr_state a \<in> {CONSUMED, CANCELLED, EXPIRED, LOCKED} \<longrightarrow> pr_state b = pr_state a)"
proof -
  have "good cf s t" using id_source.steps_good [OF assms(1,2)] assms(4) by simp
  then obtain b where "get_pair k t = Some b" "pair_le a b"
    using assms(3) unfolding good_def progress_def by blast
  then show ?thesis using pair_graph.final_stays [of "pr_state a" "pr_state b"]
    by (auto simp: pair_le_def pair_final_def)
qed

text \<open>
  C30.  A successful registration presents, before it expires, an APPROVED invitation of the
  current epoch with its code, an unspent challenge issued to the key, a verified
  signature, and the approved key and proposal; it consumes the invitation and enrols a
  new peer under exactly that key with an active grant, whose scopes are within the
  approved scopes and the configured policy.
\<close>

theorem registration_enrols_the_approved_key:
  assumes "id_source (cf_ids cf)" "agent_inv cf s" "register cf params s = (Inr res, t)"
  shows "\<exists>reg rec a p. validateRegistrationShape params = Inr reg \<and>
    get_pair (rg_pair reg) s = Some rec \<and> pr_state rec = APPROVED \<and> pr_approved rec = Some a \<and>
    pr_epoch rec = cf_epoch cf \<and> pp_now s < pr_expires_ms rec \<and>
    sha256Hex (cf_crypto cf) (rg_code reg) = pr_code_hash rec \<and>
    (\<exists>ch. get_challenge (rg_challenge reg) s = Some ch \<and> \<not> ch_consumed ch \<and> ch_key_id ch = ac_key a) \<and>
    verifyRegister (cf_crypto cf) (register_body cf reg) (rg_proof reg) (km_public (rg_key reg)) \<and>
    proposalOfRegistration (cf_crypto cf) reg = Inr (ac_proposal a) \<and>
    get_pair (rg_pair reg) t = Some (rec\<lparr>pr_state := CONSUMED\<rparr>) \<and>
    get_peer (rs_peer res) s = None \<and> get_peer (rs_peer res) t = Some p \<and> p_key p = ac_key a \<and>
    p_state p = REGISTERED \<and> p_role p = pr_role rec \<and>
    (\<forall>sc\<in>set (p_scopes p). scopeWithin sc (ac_scopes a) \<and> (\<forall>pol. cf_policyScopes cf = Some pol \<longrightarrow> scopeWithin sc pol)) \<and>
    (\<exists>k g. get_grant k t = Some g \<and> gr_peer g = rs_peer res \<and> gr_state g = GrantActive \<and> gr_scopes g = p_scopes p)"
proof -
  have ok: "ports_ok s" using agent_invD(1) [OF assms(2)] .
  from ok show ?thesis
  proof (cases rule: assertRegisterable_cases [of s cf params])
    case (refused e u)
    then have "\<exists>e u. register cf params s = (Inl e, u)"
      by (auto simp: register_def op_simps split: sum.split)
    with assms(3) show ?thesis by simp
  next
    case (admitted rec reg a u)
    have key: "pr_pair rec = rg_pair reg" using pairs.get_key [OF ok admitted(4)] .
    have gu: "good cf s u" using assms(2) admitted(2,3) by (rule good_quiet)
    then have iu: "agent_inv cf u" by (simp add: good_def)
    have rec: "get_pair (pr_pair rec) u = Some rec" using admitted(3,4) key by (simp add: get_pair_def)
    have run: "enrol cf rec reg (ac_scopes a) u = (Inr res, t)"
      using assms(3) admitted(1,10) by (simp add: register_def op_simps)
    have p: "\<exists>p. get_pair (pr_pair rec) t = Some (rec\<lparr>pr_state := CONSUMED\<rparr>) \<and> get_peer (rs_peer res) u = None \<and>
        get_peer (rs_peer res) t = Some p \<and> p_key p = km_id (rg_key reg) \<and> p_role p = pr_role rec \<and>
        p_scopes p = grant_scopes cf (ac_scopes a) reg \<and> p_state p = REGISTERED \<and>
        (\<exists>k g. get_grant k t = Some g \<and> gr_peer g = rs_peer res \<and> gr_state g = GrantActive \<and>
           gr_scopes g = grant_scopes cf (ac_scopes a) reg)"
      by (rule id_source.enrol_run [OF assms(1) iu refl rec admitted(5), of reg "ac_scopes a"]) (auto simp: run)
    then obtain p where p: "get_pair (pr_pair rec) t = Some (rec\<lparr>pr_state := CONSUMED\<rparr>)" "get_peer (rs_peer res) u = None"
        "get_peer (rs_peer res) t = Some p" "p_key p = km_id (rg_key reg)" "p_role p = pr_role rec"
        "p_scopes p = grant_scopes cf (ac_scopes a) reg" "p_state p = REGISTERED"
        "\<exists>k g. get_grant k t = Some g \<and> gr_peer g = rs_peer res \<and> gr_state g = GrantActive \<and>
           gr_scopes g = grant_scopes cf (ac_scopes a) reg"
      by blast
    note checks = row_checks_ok [OF admitted(9)]
    have "get_peer (rs_peer res) s = None" using p(2) same_agents_gets(1) [OF admitted(2)] by simp
    moreover have "\<forall>sc\<in>set (p_scopes p). scopeWithin sc (ac_scopes a) \<and>
        (\<forall>pol. cf_policyScopes cf = Some pol \<longrightarrow> scopeWithin sc pol)"
      using grant_scopes_within p(6) by metis
    moreover have "\<exists>ch. get_challenge (rg_challenge reg) s = Some ch \<and> \<not> ch_consumed ch \<and> ch_key_id ch = ac_key a"
      using checks(5) admitted(7) by auto
    moreover have "get_pair (rg_pair reg) t = Some (rec\<lparr>pr_state := CONSUMED\<rparr>)" using p(1) key by simp
    moreover have "p_key p = ac_key a" using p(4) admitted(7) by simp
    moreover have "\<exists>k g. get_grant k t = Some g \<and> gr_peer g = rs_peer res \<and> gr_state g = GrantActive \<and> gr_scopes g = p_scopes p"
      using p(6,8) by simp
    ultimately show ?thesis
      using admitted(4,5,6,8,10) checks(1,3,4,8) p(3,5,7)
      by (intro exI [of _ reg] exI [of _ rec] exI [of _ a] exI [of _ p] conjI) assumption+
  qed
qed

text \<open>
  C13.  Exactly which registrations succeed: the object is well formed, its invitation is
  APPROVED, of this epoch and not expired, the code is the invitation's, the challenge is
  unspent, unexpired and bound to this key, epoch and nonces, the rate limits have room,
  the key id is derived from the public key and is the pinned one, the proof verifies,
  the profiles are supported, and key and proposal are the approved ones.
\<close>

theorem registration_succeeds_iff:
  assumes "id_source (cf_ids cf)" "agent_inv cf s"
  shows "(\<exists>res t. register cf params s = (Inr res, t)) \<longleftrightarrow>
    (\<exists>reg rec a ch. validateRegistrationShape params = Inr reg \<and> get_pair (rg_pair reg) s = Some rec \<and>
       pr_state rec = APPROVED \<and> pr_epoch rec = cf_epoch cf \<and> pp_now s < pr_expires_ms rec \<and>
       isPairCode (rg_code reg) \<and> sha256Hex (cf_crypto cf) (rg_code reg) = pr_code_hash rec \<and>
       get_challenge (rg_challenge reg) s = Some ch \<and> \<not> ch_consumed ch \<and> pp_now s < ch_expires_ms ch \<and>
       ch_epoch ch = cf_epoch cf \<and> rg_epoch reg = cf_epoch cf \<and> ch_client_nonce ch = rg_client_nonce reg \<and>
       ch_server_nonce ch = rg_server_nonce reg \<and> ch_key_id ch = km_id (rg_key reg) \<and>
       length (key_hits (km_id (rg_key reg)) s) < 5 \<and>
       length (filter (\<lambda>t. pp_now s - 60000 < t) (rl_instanceHits s)) < 100 \<and>
       keyIdOfPublic (cf_crypto cf) (km_public (rg_key reg)) = Inr (km_id (rg_key reg)) \<and>
       pr_pinned_key rec \<in> {None, Some (km_id (rg_key reg))} \<and>
       verifyRegister (cf_crypto cf) (register_body cf reg) (rg_proof reg) (km_public (rg_key reg)) \<and>
       checkProfiles cf reg = Inr () \<and> pr_approved rec = Some a \<and> km_id (rg_key reg) = ac_key a \<and>
       proposalOfRegistration (cf_crypto cf) reg = Inr (ac_proposal a))"
proof -
  have live: "pr_state rec = APPROVED \<Longrightarrow> is_live rec" for rec by (simp add: is_live_def PAIR_LIVE_STATES_def)
  have lift: "liftE r s = (Inr x, t) \<longleftrightarrow> t = s \<and> r = Inr x" for r :: "thrown + unit" and s t :: peer_ports and x
    by (auto simp: op_simps)
  show ?thesis
    unfolding register_runs_iff [OF assms] row_checks_def then_Inr assertLive_ok checkCode_ok checkChallenge_ok
      checkKeyAndProof_ok limiter_ok lift
    unfolding authAttemptsPerKeyPerMinute_def authAttemptsPerInstancePerMinute_def
    using live by fastforce
qed

text \<open>
  An invitation enrols at most one peer: once a registration has consumed it, every
  later registration that names it is refused, whatever happened in between.
\<close>

theorem invitation_enrols_once:
  assumes "id_source (cf_ids cf)" "agent_inv cf s" "get_pair k s = Some rec" "pr_state rec = CONSUMED"
    "validateRegistrationShape params = Inr reg" "rg_pair reg = k" "t = agent_steps cf calls s"
  shows "\<exists>e u. register cf params t = (Inl e, u)"
proof -
  have t: "good cf s t" using id_source.steps_good [OF assms(1,2)] assms(7) by simp
  then obtain b where b: "get_pair k t = Some b" "pair_le rec b"
    using assms(3) unfolding good_def progress_def by blast
  then have "pr_state b = CONSUMED"
    using pair_graph.final_stays [of "pr_state rec" "pr_state b"] assms(4) by (simp add: pair_le_def pair_final_def)
  then have "fst (row_checks cf b reg t) \<noteq> Inr u" for u
    using row_checks_ok(2) [of cf b reg t] by (cases "row_checks cf b reg t") (auto simp: is_live_iff pair_final_def)
  then have "\<exists>e u. validateRegistration cf params t = (Inl e, u)"
    using assms(5,6) b(1) by (cases "row_checks cf b reg t"; cases "fst (row_checks cf b reg t)")
      (auto simp: validateRegistration_row op_simps)
  then show ?thesis using assms(5) by (auto simp: register_def assertRegisterable_def op_simps)
qed

subsection \<open>A concrete ceremony\<close>

definition ceremony_config :: agent_config where
  "ceremony_config = sample_config
     \<lparr>cf_crypto := \<lparr>nc_sha256 = (\<lambda>s. take 32 (s @ replicate 32 (CHR 0x00))), nc_public = (\<lambda>_. True), nc_verify = (\<lambda>_ _ _. True)\<rparr>,
      cf_entropy := \<lparr>en_token = (\<lambda>n. ''t'' @ dec_str n), en_nonce = (\<lambda>n. b64u_encode (replicate 32 CHR ''s'')),
        en_pairCode = (\<lambda>n. ''0123456789'')\<rparr>\<rparr>"

definition ceremony_key :: key_material where
  "ceremony_key = \<lparr>km_id = hex_encode (replicate 32 CHR ''k''), km_public = b64u_encode (replicate 32 CHR ''k'')\<rparr>"

definition ceremony_reg :: registration where
  "ceremony_reg = \<lparr>rg_pair = ''pair1'', rg_code = ''0123456789'', rg_key = ceremony_key,
     rg_challenge = ''challenge1'', rg_client_nonce = b64u_encode (replicate 32 CHR ''c''),
     rg_server_nonce = b64u_encode (replicate 32 CHR ''s''), rg_epoch = ''1'', rg_profiles = [],
     rg_interfaces = ''interfaces/1'', rg_capabilities = [], rg_proof = b64u_encode (replicate 64 CHR ''p'')\<rparr>"

definition ceremony_registration :: json where
  "ceremony_registration = JObj
     [(''pair'', JStr (rg_pair ceremony_reg)), (''code'', JStr (rg_code ceremony_reg)), (''key'', key_json ceremony_key),
      (''challenge'', JStr (rg_challenge ceremony_reg)), (''client_nonce'', JStr (rg_client_nonce ceremony_reg)),
      (''server_nonce'', JStr (rg_server_nonce ceremony_reg)), (''epoch'', JStr (rg_epoch ceremony_reg)),
      (''profiles'', JArr []), (''interfaces'', JStr (rg_interfaces ceremony_reg)), (''capabilities'', JArr []),
      (''proof'', JStr (rg_proof ceremony_reg))]"

lemma ceremony_ids: "isId (JStr ''pair1'')" "isId (JStr ''challenge1'')" "rx_test RX_COUNT ''1''"
  by code_simp+
lemma ceremony_code: "isPairCode ''0123456789''" 
  by code_simp
lemma ceremony_key_id: "isHash64 (JStr (hex_encode (replicate 32 CHR ''k'')))"
proof -
  have "hex_encode (replicate 32 CHR ''k'') = concat (replicate 32 ''6b'')" by code_simp
  moreover have "isHash64 (JStr (concat (replicate 32 ''6b'')))" by code_simp
  ultimately show ?thesis by simp
qed

lemma ceremony_shape: "validateRegistrationShape ceremony_registration = Inr ceremony_reg"
  unfolding ceremony_registration_def ceremony_reg_def ceremony_key_def
  by (simp add: validateRegistrationShape_def onlyKeys_def REGISTRATION_KEYS_def schema_def check_def andThen_def is_id_field_def is_str_def first_error.simps
     ceremony_ids ceremony_ids(3) [simplified] ceremony_key_id first_error.simps b64u32_def b64u_decode_encode key_checks_def obj_field_def key_json_def isStringArray_def registration_of_def str_field_def arr_field_def jget_def)


definition ceremony_hash :: string where
  "ceremony_hash = (case proposalOfRegistration (cf_crypto ceremony_config) ceremony_reg of Inr h \<Rightarrow> h | Inl _ \<Rightarrow> [])"

definition ceremony_start :: peer_ports where
  "ceremony_start = snd (createInvitation ceremony_config AgentRole [] None (createMemoryPeerPorts 0))"

definition ceremony_pair :: pair_record where
  "ceremony_pair = (new_pair ceremony_config AgentRole [] None (createMemoryPeerPorts 0))
     \<lparr>pr_state := APPROVED, pr_proposal := Some ceremony_hash, pr_proposal_key := Some (km_id ceremony_key),
      pr_approved := Some \<lparr>ac_proposal = ceremony_hash, ac_key = km_id ceremony_key, ac_scopes = []\<rparr>\<rparr>"

definition ceremony_challenge :: challenge_record where
  "ceremony_challenge = \<lparr>ch_challenge = ''challenge1'', ch_key_id = km_id ceremony_key, ch_key_public = km_public ceremony_key,
     ch_client_nonce = rg_client_nonce ceremony_reg, ch_server_nonce = rg_server_nonce ceremony_reg, ch_audience = ''gw1'',
     ch_epoch = ''1'', ch_created_ms = 0, ch_expires_ms = 60000, ch_consumed = False\<rparr>"

definition ceremony_store :: peer_ports where
  "ceremony_store = put_challenge ceremony_challenge (put_pair ceremony_pair ceremony_start)"

lemma ceremony_config_simps [simp]:
  "cf_ids ceremony_config = sequentialIds []" "cf_epoch ceremony_config = ''1''"
  "cf_crypto ceremony_config = \<lparr>nc_sha256 = (\<lambda>s. take 32 (s @ replicate 32 (CHR 0x00))), nc_public = (\<lambda>_. True), nc_verify = (\<lambda>_ _ _. True)\<rparr>"
  "cf_profiles ceremony_config = [''proof-bundle/1'']" "cf_interfaces ceremony_config = ''interfaces/1''"
  "en_pairCode (cf_entropy ceremony_config) n = ''0123456789''" "cf_gateway ceremony_config = ''gw1''"
  by (simp_all add: ceremony_config_def) (simp_all add: sample_config_def)

lemma ceremony_pair_id [simp]: "next_id (sequentialIds []) ''pair'' (createMemoryPeerPorts 0) = ''pair1''"
  by (simp add: next_id_def drawn_def sequentialIds_def NAMED_PREFIXES_def createMemoryPeerPorts_def dec_str_one [simplified])

lemma ceremony_start_eq:
  "ceremony_start = put_pair (new_pair ceremony_config AgentRole [] None (createMemoryPeerPorts 0))
     (drew (sequentialIds []) ''pair'' ((createMemoryPeerPorts 0)\<lparr>pp_codes_drawn := 1\<rparr>))"
proof -
  have "pending_pairs ceremony_config (createMemoryPeerPorts 0) = 0" "pp_codes_drawn (createMemoryPeerPorts 0) = 0"
    by (simp_all add: pending_pairs_def createMemoryPeerPorts_def table_defs arows_def)
  then show ?thesis by (simp add: ceremony_start_def createInvitation_apply maxPendingInvitations_def)
qed

lemma ceremony_start_inv: "agent_inv ceremony_config ceremony_start"
  using sequential.good_createInvitation [of ceremony_config "createMemoryPeerPorts 0"] sequential.agent_inv_start
  by (simp add: good_def ceremony_start_def)

lemma ceremony_store_inv: "agent_inv ceremony_config ceremony_store"
proof -
  let ?a = "new_pair ceremony_config AgentRole [] None (createMemoryPeerPorts 0)"
  have "pair_path CREATED AWAITING_OPERATOR" "pair_path AWAITING_OPERATOR APPROVED" by (rule r_into_rtranclp, simp)+
  then have "pair_path CREATED APPROVED" by (rule rtranclp_trans)
  then have le: "pair_le ?a ceremony_pair"
    by (simp add: pair_le_def ceremony_pair_def pair_ok_def new_pair_def maxCodeAttempts_def)
  have "pr_pair ceremony_pair = pr_pair ?a" by (simp add: ceremony_pair_def)
  then have "get_pair (pr_pair ceremony_pair) ceremony_start = Some ?a" by (simp add: ceremony_start_eq)
  then have "evolves ceremony_start (put_pair ceremony_pair ceremony_start)" using le by (rule evolves_put) simp
  moreover have "same_agents ceremony_start (put_pair ceremony_pair ceremony_start)"
    using agent_invD(1) [OF ceremony_start_inv] by (rule same_agents_put_pair)
  ultimately have "agent_inv ceremony_config (put_pair ceremony_pair ceremony_start)"
    using good_pairs [OF ceremony_start_inv] by (simp add: good_def)
  then show ?thesis
    using good_quiet [of ceremony_config "put_pair ceremony_pair ceremony_start" ceremony_store] agent_invD(1)
    by (simp add: good_def ceremony_store_def same_agents_def) (simp add: put_challenge_def)
qed

lemma ceremony_proposal: "proposalOfRegistration (cf_crypto ceremony_config) ceremony_reg = Inr ceremony_hash"
proof -
  have "\<exists>h. proposalOfRegistration (cf_crypto ceremony_config) ceremony_reg = Inr h"
    by (simp add: proposalOfRegistration_def canonicalJson_def key_json_def ceremony_reg_def)
  then show ?thesis by (auto simp: ceremony_hash_def)
qed

lemma ceremony_store_facts:
  "get_pair ''pair1'' ceremony_store = Some ceremony_pair" "get_challenge ''challenge1'' ceremony_store = Some ceremony_challenge"
  "pp_now ceremony_store = 0" "rl_instanceHits ceremony_store = []" "rl_perKey ceremony_store = []"
proof -
  have "pr_pair ceremony_pair = ''pair1''" by (simp add: ceremony_pair_def new_pair_def)
  then show "get_pair ''pair1'' ceremony_store = Some ceremony_pair" by (simp add: ceremony_store_def)
qed (simp_all add: ceremony_store_def ceremony_challenge_def ceremony_start_eq,
     simp_all add: table_defs createMemoryPeerPorts_def drew_def)

lemma ceremony_key_checks:
  "keyIdOfPublic (cf_crypto ceremony_config) (km_public ceremony_key) = Inr (km_id ceremony_key)"
  "verifyRegister (cf_crypto ceremony_config) (register_body ceremony_config ceremony_reg) (rg_proof ceremony_reg) (km_public ceremony_key)"
  by (simp_all add: keyIdOfPublic_def decodeB64u_def andThen_def ceremony_key_def b64u_decode_encode verifyRegister_def verifyB64u_def
      publicKeyFromB64u_def canonicalJson_def register_body_def registerBody_def is_safe_def MAX_SAFE_def ceremony_reg_def)

lemma ceremony_registers: "\<exists>res t. register ceremony_config ceremony_registration ceremony_store = (Inr res, t)"
proof -
  have reg: "rg_pair ceremony_reg = ''pair1''" "rg_challenge ceremony_reg = ''challenge1''" "rg_code ceremony_reg = ''0123456789''"
    "rg_key ceremony_reg = ceremony_key" "rg_epoch ceremony_reg = ''1''"
    by (simp_all add: ceremony_reg_def)
  have ok: "checkProfiles ceremony_config ceremony_reg = Inr ()" "pp_now (createMemoryPeerPorts 0) = 0"
    by (simp_all add: checkProfiles_def ceremony_reg_def andThen_def check_def createMemoryPeerPorts_def)
  have pair: "pr_state ceremony_pair = APPROVED" "pr_epoch ceremony_pair = ''1''" "pr_pinned_key ceremony_pair = None"
    "pr_expires_ms ceremony_pair = 300000" "pr_code_hash ceremony_pair = sha256Hex (cf_crypto ceremony_config) ''0123456789''"
    "is_live ceremony_pair"
    "pr_approved ceremony_pair = Some \<lparr>ac_proposal = ceremony_hash, ac_key = km_id ceremony_key, ac_scopes = []\<rparr>"
    using ok(2) by (simp_all add: ceremony_pair_def new_pair_def invitationTtlMs_def is_live_def PAIR_LIVE_STATES_def)
  have "checkChallenge ceremony_config ceremony_reg ceremony_store = (Inr (), ceremony_store)"
    unfolding checkChallenge_ok using ceremony_store_facts by (simp add: reg ceremony_challenge_def)
  moreover have "assertLive ceremony_config ceremony_pair ceremony_store = (Inr (), ceremony_store)"
    unfolding assertLive_ok using ceremony_store_facts pair by simp
  moreover have "checkCode ceremony_config ceremony_pair ''0123456789'' ceremony_store = (Inr (), ceremony_store)"
    unfolding checkCode_ok using ceremony_code pair by simp
  moreover have "\<exists>u. limiter_check (km_id ceremony_key) ceremony_store = (Inr (), u)"
    unfolding limiter_ok using ceremony_store_facts
    by (simp add: key_hits_def authAttemptsPerKeyPerMinute_def authAttemptsPerInstancePerMinute_def)
  moreover have "checkKeyAndProof ceremony_config ceremony_pair ceremony_reg u = (Inr (), u)" for u
    unfolding checkKeyAndProof_ok using ceremony_key_checks pair reg by simp
  ultimately obtain u where "row_checks ceremony_config ceremony_pair ceremony_reg ceremony_store = (Inr (), u)"
    unfolding row_checks_def by (auto simp: reg ok op_simps)
  moreover have "id_source (cf_ids ceremony_config)" by (simp add: sequential_distinct)
  ultimately show ?thesis
    unfolding register_runs_iff [OF \<open>id_source _\<close> ceremony_store_inv]
    using ceremony_proposal pair(1,7) ceremony_store_facts(1) ceremony_shape reg(1,4)
    by (intro exI [of _ ceremony_reg] exI [of _ ceremony_pair] exI conjI) auto
qed

theorem registration_succeeds_iff_witness:
  "\<exists>reg rec. validateRegistrationShape ceremony_registration = Inr reg \<and>
     get_pair (rg_pair reg) ceremony_store = Some rec \<and> pr_state rec = APPROVED \<and> 0 < pr_expires_ms rec"
  using registration_succeeds_iff [of ceremony_config ceremony_store ceremony_registration] ceremony_registers
    sequential_distinct ceremony_store_inv ceremony_store_facts(3)
  by auto

lemma register_consumes:
  assumes "id_source (cf_ids cf)" "agent_inv cf s" "register cf params s = (Inr res, t)"
    "validateRegistrationShape params = Inr reg" "get_pair (rg_pair reg) s = Some rec"
  shows "get_pair (rg_pair reg) t = Some (rec\<lparr>pr_state := CONSUMED\<rparr>)"
proof -
  have ok: "ports_ok s" using agent_invD(1) [OF assms(2)] .
  then have key: "pr_pair rec = rg_pair reg" using pairs.get_key assms(5) by blast
  from ok show ?thesis
  proof (cases rule: assertRegisterable_cases [of s cf params])
    case (refused e u)
    with assms(3,4) show ?thesis by (simp add: register_def op_simps)
  next
    case (admitted rec' reg' a u)
    then have eq: "reg' = reg" "rec' = rec" using assms(4,5) by simp_all
    have iu: "agent_inv cf u" using good_quiet [OF assms(2) admitted(2,3)] by (simp add: good_def)
    have rec: "get_pair (pr_pair rec) u = Some rec" using admitted(3) assms(5) key by (simp add: get_pair_def)
    have run: "enrol cf rec reg (ac_scopes a) u = (Inr res, t)"
      using assms(3,4) admitted(1) eq by (simp add: register_def op_simps)
    show ?thesis
      by (rule id_source.enrol_run [OF assms(1) iu refl rec, of reg "ac_scopes a"]) (use admitted(5) eq run key in auto)
  qed
qed

theorem registration_enrols_the_approved_key_witness:
  "\<exists>res t p. register ceremony_config ceremony_registration ceremony_store = (Inr res, t) \<and>
     get_peer (rs_peer res) t = Some p \<and> p_state p = REGISTERED \<and> p_key p = km_id ceremony_key"
proof -
  obtain res t where run: "register ceremony_config ceremony_registration ceremony_store = (Inr res, t)"
    using ceremony_registers by blast
  have src: "id_source (cf_ids ceremony_config)" by (simp add: sequential_distinct)
  obtain rec a p where w: "get_pair ''pair1'' ceremony_store = Some rec" "pr_approved rec = Some a"
      "get_peer (rs_peer res) t = Some p" "p_state p = REGISTERED" "p_key p = ac_key a"
    using registration_enrols_the_approved_key [OF src ceremony_store_inv run] ceremony_shape
    by (auto simp: ceremony_reg_def)
  then have "ac_key a = km_id ceremony_key"
    using ceremony_store_facts(1) by (auto simp: ceremony_pair_def)
  with run w show ?thesis by auto
qed

theorem invitation_enrols_once_witness:
  "\<exists>t e u. snd (register ceremony_config ceremony_registration ceremony_store) = t \<and>
     register ceremony_config ceremony_registration (agent_steps ceremony_config [Advance 1000, Revoke ''peer1''] t) = (Inl e, u)"
proof -
  obtain res t where run: "register ceremony_config ceremony_registration ceremony_store = (Inr res, t)"
    using ceremony_registers by blast
  have src: "id_source (cf_ids ceremony_config)" by (simp add: sequential_distinct)
  have good: "good ceremony_config ceremony_store t"
    using id_source.good_register [OF src ceremony_store_inv refl, of ceremony_registration] run by simp
  have pair: "get_pair ''pair1'' t = Some (ceremony_pair\<lparr>pr_state := CONSUMED\<rparr>)"
    using register_consumes [OF src ceremony_store_inv run ceremony_shape] ceremony_store_facts(1)
    by (simp add: ceremony_reg_def)
  show ?thesis
    using invitation_enrols_once [OF src _ pair _ ceremony_shape _ refl, of "[Advance 1000, Revoke ''peer1'']"] good run
    by (auto simp: good_def ceremony_reg_def)
qed

theorem invitations_follow_their_lifecycle_witness:
  "\<exists>b. get_pair ''pair1'' (agent_steps ceremony_config [Advance 300000, PairGet ''pair1'' None] ceremony_start) = Some b \<and>
     pair_path CREATED (pr_state b) \<and> pr_role b = AgentRole \<and> pr_expires_ms b = 300000"
proof -
  have src: "id_source (cf_ids ceremony_config)" by (simp add: sequential_distinct)
  have "get_pair ''pair1'' ceremony_start = Some (new_pair ceremony_config AgentRole [] None (createMemoryPeerPorts 0))"
    by (simp add: ceremony_start_eq new_pair_def)
  from invitations_follow_their_lifecycle [OF src ceremony_start_inv this refl, of "[Advance 300000, PairGet ''pair1'' None]"]
  show ?thesis by (auto simp: new_pair_def invitationTtlMs_def createMemoryPeerPorts_def)
qed

theorem reachable_states_are_sound_witness:
  "\<exists>rec. get_pair ''pair1'' (agent_step ceremony_config (PairCreate ''agent'' (JArr []) JNull) (createMemoryPeerPorts 0)) = Some rec \<and>
     is_live rec \<and> pr_attempts rec < 5"
proof -
  let ?s = "agent_step ceremony_config (PairCreate ''agent'' (JArr []) JNull) (createMemoryPeerPorts 0)"
  have src: "id_source (cf_ids ceremony_config)" by (simp add: sequential_distinct)
  have "?s = ceremony_start"
    by (simp add: ceremony_start_def pairCreate_def role_of_string_def valid_scopes_def fingerprint_param_def op_simps
        validateScopes_def scopes_of_json_def)
  then have "get_pair ''pair1'' ?s = Some (new_pair ceremony_config AgentRole [] None (createMemoryPeerPorts 0))"
    by (simp add: ceremony_start_eq new_pair_def)
  moreover have "is_live (new_pair ceremony_config AgentRole [] None (createMemoryPeerPorts 0))"
    by (simp add: is_live_def new_pair_def PAIR_LIVE_STATES_def)
  ultimately show ?thesis
    using reachable_states_are_sound [OF src reachable.step [OF reachable.start],
        of "PairCreate ''agent'' (JArr []) JNull" 0] by blast
qed

text \<open>A peer that has been enrolled and revoked.\<close>

definition locked_out_store :: peer_ports where
  "locked_out_store = snd (revoke ''peer1'' (put_peer (new_peer ceremony_config ceremony_key AgentRole [] [] ''src1''
     (createMemoryPeerPorts 0)) (drew (sequentialIds []) ''peer'' (createMemoryPeerPorts 0))))"

theorem revoked_peer_stays_locked_out_witness:
  "\<exists>q. get_peer ''peer1'' (agent_steps ceremony_config [NativeConnected ''peer1'', OpenSession ''peer1'' ''ws'' None] locked_out_store) = Some q \<and>
     p_state q = REVOKED"
proof -
  let ?p = "new_peer ceremony_config ceremony_key AgentRole [] [] ''src1'' (createMemoryPeerPorts 0)"
  let ?s = "put_peer ?p (drew (sequentialIds []) ''peer'' (createMemoryPeerPorts 0))"
  have src: "id_source (cf_ids ceremony_config)" by (simp add: sequential_distinct)
  have peer1: "next_id (sequentialIds []) ''peer'' (createMemoryPeerPorts 0) = ''peer1''"
    by (simp add: next_id_def drawn_def sequentialIds_def NAMED_PREFIXES_def createMemoryPeerPorts_def dec_str_one [simplified])
  then have id: "p_id ?p = ''peer1''" by simp
  have inv: "agent_inv ceremony_config ?s"
    using id_source.good_new_peer [OF src sequential.agent_inv_start refl, of 0 ceremony_key AgentRole "[]" "[]" "''src1''"]
    by (simp add: good_def)
  have "get_peer ''peer1'' ?s = Some ?p" using id by simp
  then have "\<exists>q. get_peer ''peer1'' locked_out_store = Some q \<and> p_state q = REVOKED"
    unfolding locked_out_store_def by (simp add: revoke_apply revoked_store_def id peer1)
  moreover have "agent_inv ceremony_config locked_out_store"
    using good_revoke [OF inv] by (simp add: good_def locked_out_store_def)
  ultimately show ?thesis
    using revoked_peer_stays_locked_out [OF src _ _ _ refl, of locked_out_store "''peer1''"] by blast
qed
end
