(* ===== verification/Approvals.thy ===== *)
theory Approvals
  imports Peer_Registry Peer_Scopes
begin

text \<open>
  Model of \<open>packages/core/src/v2/approvals\<close>: the in-memory approval store (\<open>ports.ts\<close>) and the
  approval manager (\<open>approvals.ts\<close>): request, list, get, decide, cancel, with lazy expiry.
\<close>

section \<open>Data\<close>

datatype approval_state = ApPending | ApApproved | ApDenied | ApCancelled | ApExpired
datatype decision = Approve | Deny

record approval_record =
  ar_approval :: string
  ar_revision :: string
  ar_state :: approval_state
  ar_action :: jobj
  ar_action_hash :: string
  ar_target :: string
  ar_expires_ms :: int
  ar_native :: jobj
  ar_native_status :: string
  ar_authority :: string
  ar_requester :: string
  ar_created_ms :: int
  ar_decided_ms :: "int option"
  ar_decision :: "decision option"
  ar_reason :: "string option"
  ar_reviewer :: "string option"

record approval_caller =
  ca_id :: "string option"
  ca_role :: "principal_role option"
  ca_reviewer :: bool

definition LOCAL_OPERATOR :: approval_caller where
  "LOCAL_OPERATOR = \<lparr>ca_id = Some ''operator1'', ca_role = Some LocalOperator, ca_reviewer = True\<rparr>"

record approval_ports =
  ap_now :: int
  ap_drawn :: nat
  ap_approvals :: "(string \<times> approval_record) list"

definition createMemoryApprovalPorts :: "int \<Rightarrow> approval_ports" where
  "createMemoryApprovalPorts now = \<lparr>ap_now = now, ap_drawn = 0, ap_approvals = []\<rparr>"

type_synonym 'a approval_op = "(approval_ports, thrown, 'a) op"

definition ap_newId :: "allocator \<Rightarrow> string approval_op" where
  "ap_newId al = (\<lambda>s. (Inr (al_id al (al_family al ''approval'') (ap_drawn s + 1)), s\<lparr>ap_drawn := ap_drawn s + 1\<rparr>))"

definition putApproval :: "approval_record \<Rightarrow> approval_ports \<Rightarrow> approval_ports" where
  "putApproval r s = s\<lparr>ap_approvals := aput (ar_approval r) r (ap_approvals s)\<rparr>"

definition getApproval :: "string \<Rightarrow> approval_ports \<Rightarrow> approval_record option" where
  "getApproval k s = map_of (ap_approvals s) k"

definition listApprovals :: "approval_ports \<Rightarrow> approval_record list" where
  "listApprovals s = arows (ap_approvals s)"

definition approvals_ok :: "approval_ports \<Rightarrow> bool" where
  "approvals_ok s \<longleftrightarrow> keyed ar_approval (ap_approvals s)"

lemmas approval_defs = putApproval_def getApproval_def listApprovals_def

interpretation approvals: record_table ar_approval putApproval getApproval listApprovals approvals_ok
  by (rule record_tableI [where sel = ap_approvals]) (simp_all add: approval_defs approvals_ok_def keyed_aput)

section \<open>Validation\<close>

definition NATIVEREF_KEYS :: "string list" where
  "NATIVEREF_KEYS = [''profile'', ''namespace'', ''object_id'', ''commitment'', ''raw_sha256'', ''bytes'']"

definition OBJECTREF_KEYS :: "string list" where
  "OBJECTREF_KEYS = [''digest'', ''bytes'', ''media'']"

definition MEDIA :: "string list" where
  "MEDIA = [''application/json'', ''application/octet-stream'', ''text/plain'']"

definition json_str :: "json option \<Rightarrow> (string \<Rightarrow> bool) \<Rightarrow> bool" where
  "json_str v p = (case v of Some (JStr s) \<Rightarrow> p s | _ \<Rightarrow> False)"

text \<open>\<open>/^[\x20-\x7e]+$/\<close> with the byte bound\<close>

definition ascii_text :: "nat \<Rightarrow> string \<Rightarrow> bool" where
  "ascii_text mx s \<longleftrightarrow> s \<noteq> [] \<and> utf8_bytes s \<le> mx \<and> list_all (\<lambda>c. 32 \<le> (of_char c :: nat) \<and> (of_char c :: nat) \<le> 126) s"

definition only_keys :: "jobj \<Rightarrow> string list \<Rightarrow> bool" where
  "only_keys ob ks \<longleftrightarrow> list_all (\<lambda>(k, v). k \<in> set ks) ob"

definition has_keys :: "jobj \<Rightarrow> string list \<Rightarrow> bool" where
  "has_keys ob ks \<longleftrightarrow> list_all (\<lambda>k. jget ob k \<noteq> None) ks"

definition count_field :: "json option \<Rightarrow> bool" where
  "count_field v \<longleftrightarrow> json_str v (rx_test RX_COUNT)"

definition hash_field :: "json option \<Rightarrow> bool" where
  "hash_field v \<longleftrightarrow> json_str v (\<lambda>s. isHash64 (JStr s))"

text \<open>Every check of the two validators throws the same error, so their order does not show.\<close>

definition validateNativeRef :: "json option \<Rightarrow> string \<Rightarrow> thrown + jobj" where
  "validateNativeRef v fld =
     (case v of
        Some (JObj o1) \<Rightarrow>
          if only_keys o1 NATIVEREF_KEYS \<and> has_keys o1 NATIVEREF_KEYS \<and>
             json_str (jget o1 ''profile'') (ascii_text 128) \<and> json_str (jget o1 ''namespace'') (ascii_text 128) \<and>
             json_str (jget o1 ''object_id'') (ascii_text 256) \<and>
             (jget o1 ''commitment'' = Some JNull \<or> json_str (jget o1 ''commitment'') (\<lambda>_. True)) \<and>
             hash_field (jget o1 ''raw_sha256'') \<and> count_field (jget o1 ''bytes'')
          then Inr o1 else Inl (RpcError SCHEMA_INVALID (Some fld))
      | _ \<Rightarrow> Inl (RpcError SCHEMA_INVALID (Some fld)))"

definition validateObjectRef :: "json option \<Rightarrow> string \<Rightarrow> thrown + jobj" where
  "validateObjectRef v fld =
     (case v of
        Some (JObj o1) \<Rightarrow>
          if only_keys o1 OBJECTREF_KEYS \<and> has_keys o1 OBJECTREF_KEYS \<and> hash_field (jget o1 ''digest'') \<and>
             count_field (jget o1 ''bytes'') \<and> json_str (jget o1 ''media'') (\<lambda>s. s \<in> set MEDIA)
          then Inr o1 else Inl (RpcError SCHEMA_INVALID (Some fld))
      | _ \<Rightarrow> Inl (RpcError SCHEMA_INVALID (Some fld)))"

definition actionCommitment :: "node_crypto \<Rightarrow> jobj \<Rightarrow> thrown + string" where
  "actionCommitment nc action =
     (case canonicalJson (JObj action) of Inl _ \<Rightarrow> Inl JsCryptoError | Inr text \<Rightarrow> Inr (sha256Hex nc text))"

section \<open>The manager\<close>

definition due :: "approval_record \<Rightarrow> int \<Rightarrow> bool" where
  "due rec now \<longleftrightarrow> ar_state rec = ApPending \<and> ar_expires_ms rec \<le> now"

definition expired :: "approval_record \<Rightarrow> int \<Rightarrow> approval_record" where
  "expired rec now = (if due rec now then rec\<lparr>ar_state := ApExpired\<rparr> else rec)"

definition expireIfDue :: "approval_record \<Rightarrow> approval_record approval_op" where
  "expireIfDue rec =
     (\<lambda>s. (Inr (expired rec (ap_now s)), if due rec (ap_now s) then putApproval (expired rec (ap_now s)) s else s))"

definition getLive :: "json option \<Rightarrow> approval_record approval_op" where
  "getLive approval =
     (case approval of
        Some (JStr i) \<Rightarrow>
          if \<not> isId (JStr i) then fail SCHEMA_INVALID (Some ''approval'')
          else bindE (getsE (getApproval i)) (\<lambda>r. case r of
                 None \<Rightarrow> fail NOT_FOUND (Some ''approval'')
               | Some rec \<Rightarrow> expireIfDue rec)
      | _ \<Rightarrow> fail SCHEMA_INVALID (Some ''approval''))"

definition target_ok :: "json option \<Rightarrow> bool" where
  "target_ok v \<longleftrightarrow> json_str v (\<lambda>s. s \<noteq> [] \<and> utf8_bytes s \<le> 1024)"

definition request ::
  "node_crypto \<Rightarrow> allocator \<Rightarrow> jobj \<Rightarrow> approval_caller option \<Rightarrow> approval_record approval_op" where
  "request nc al params caller =
     bindE (liftE (validateNativeRef (jget params ''action'') ''action'')) (\<lambda>action.
     bindE (liftE (validateObjectRef (jget params ''native'') ''native'')) (\<lambda>native.
       case jget params ''target'' of
         Some (JStr target) \<Rightarrow>
           if \<not> target_ok (Some (JStr target)) then fail SCHEMA_INVALID (Some ''target'')
           else (case jget params ''expires_ms'' of
                   Some (JNum expires) \<Rightarrow>
                     if \<not> is_safe expires then fail SCHEMA_INVALID (Some ''expires_ms'')
                     else bindE (getsE ap_now) (\<lambda>now.
                          bindE (ap_newId al) (\<lambda>i.
                          bindE (liftE (actionCommitment nc action)) (\<lambda>h.
                            let rec = \<lparr>ar_approval = i, ar_revision = ''1'', ar_state = ApPending, ar_action = action,
                                  ar_action_hash = h, ar_target = target, ar_expires_ms = expires, ar_native = native,
                                  ar_native_status = ''NOT_DISPATCHED'', ar_authority = ''NONE'',
                                  ar_requester = (case caller of Some c \<Rightarrow> (case ca_id c of Some x \<Rightarrow> x | None \<Rightarrow> ''operator1'')
                                                  | None \<Rightarrow> ''operator1''),
                                  ar_created_ms = now, ar_decided_ms = None, ar_decision = None, ar_reason = None,
                                  ar_reviewer = None\<rparr> in
                            thenE (modifyE (putApproval rec)) (returnE rec))))
                 | _ \<Rightarrow> fail SCHEMA_INVALID (Some ''expires_ms''))
       | _ \<Rightarrow> fail SCHEMA_INVALID (Some ''target'')))"

definition approvals_in_order :: "approval_ports \<Rightarrow> approval_record list" where
  "approvals_in_order s = sort_key (\<lambda>r. (ar_created_ms r, ar_approval r)) (listApprovals s)"

text \<open>The rows of \<open>list\<close> after the expiry pass over all of them.\<close>

definition expire_all :: "approval_ports \<Rightarrow> approval_ports" where
  "expire_all s = update_where putApproval (\<lambda>r. due r (ap_now s)) (\<lambda>r. expired r (ap_now s)) (approvals_in_order s) s"

definition page_of :: "('r \<Rightarrow> string) \<Rightarrow> string option \<Rightarrow> nat \<Rightarrow> 'r list \<Rightarrow> thrown + ('r list \<times> string option)" where
  "page_of key after l rows =
     andThen (case after of
        None \<Rightarrow> Inr 0
      | Some a \<Rightarrow> (case find_index (\<lambda>r. key r = a) rows of
           None \<Rightarrow> Inl (RpcError CURSOR_GONE (Some ''after'')) | Some i \<Rightarrow> Inr (i + 1)))
       (\<lambda>start. let page = take l (drop start rows) in
          Inr (page, if start + l < length rows then Some (key (last page)) else None))"

text \<open>\<open>APPROVAL_STATES\<close>\<close>

definition approval_state_of :: "string \<Rightarrow> approval_state option" where
  "approval_state_of n = map_of [(''PENDING'', ApPending), (''APPROVED'', ApApproved), (''DENIED'', ApDenied),
     (''CANCELLED'', ApCancelled), (''EXPIRED'', ApExpired)] n"

definition state_filter :: "json option \<Rightarrow> thrown + approval_state option" where
  "state_filter st =
     (case st of
        None \<Rightarrow> Inr None
      | Some (JStr n) \<Rightarrow> (case approval_state_of n of
           None \<Rightarrow> Inl (RpcError SCHEMA_INVALID (Some ''state'')) | Some x \<Rightarrow> Inr (Some x))
      | Some _ \<Rightarrow> Inl (RpcError SCHEMA_INVALID (Some ''state'')))"

definition list_approvals ::
  "json option \<Rightarrow> string option \<Rightarrow> json \<Rightarrow> (approval_record list \<times> string option) approval_op" where
  "list_approvals st after limit =
     bindE (liftE (state_filter st)) (\<lambda>wanted.
       case limit of
         JNum l \<Rightarrow>
           if \<not> (is_safe l \<and> 1 \<le> l \<and> l \<le> 200) then fail SCHEMA_INVALID (Some ''limit'')
           else (\<lambda>s. let rows = map (\<lambda>r. expired r (ap_now s)) (approvals_in_order s);
                        filtered = (case wanted of None \<Rightarrow> rows | Some x \<Rightarrow> filter (\<lambda>r. ar_state r = x) rows) in
                    (page_of ar_approval after (nat l) filtered, expire_all s))
       | _ \<Rightarrow> fail SCHEMA_INVALID (Some ''limit''))"

definition get_approval :: "json option \<Rightarrow> approval_record approval_op" where
  "get_approval approval = getLive approval"

definition is_reviewer :: "approval_caller \<Rightarrow> bool" where
  "is_reviewer who \<longleftrightarrow> ca_reviewer who \<or> ca_role who = Some Operator \<or> ca_role who = Some LocalOperator"

definition decision_of :: "json option \<Rightarrow> decision option" where
  "decision_of v = (if v = Some (JStr ''approve'') then Some Approve else if v = Some (JStr ''deny'') then Some Deny else None)"

definition decide ::
  "node_crypto \<Rightarrow> jobj \<Rightarrow> approval_caller option \<Rightarrow> approval_record approval_op" where
  "decide nc params caller =
     (let who = (case caller of Some c \<Rightarrow> c | None \<Rightarrow> LOCAL_OPERATOR) in
      thenE (assertE (is_reviewer who) (RpcError FORBIDDEN None))
     (bindE (getLive (jget params ''approval'')) (\<lambda>rec.
      thenE (assertE (jget params ''expected_revision'' = Some (JStr (ar_revision rec)))
              (RpcError REVISION_CONFLICT (Some ''expected_revision'')))
     (thenE (assertE (ar_state rec \<noteq> ApExpired) (RpcError APPROVAL_EXPIRED (Some ''approval'')))
     (thenE (assertE (ar_state rec = ApPending) (RpcError STATE_TRANSITION (Some ''approval'')))
       (case decision_of (jget params ''decision'') of
          None \<Rightarrow> fail SCHEMA_INVALID (Some ''decision'')
        | Some d \<Rightarrow>
            (case jget params ''reason'' of
               Some (JStr reason) \<Rightarrow>
                 bindE (liftE (validateNativeRef (jget params ''action'') ''action'')) (\<lambda>action.
                 bindE (liftE (actionCommitment nc action)) (\<lambda>h.
                 thenE (assertE (h = ar_action_hash rec) (RpcError REVISION_CONFLICT (Some ''action'')))
                (bindE (getsE ap_now) (\<lambda>now.
                   let rec' = rec\<lparr>ar_revision := bumpCount (ar_revision rec),
                         ar_state := (if d = Approve then ApApproved else ApDenied), ar_decision := Some d,
                         ar_reason := Some reason, ar_decided_ms := Some now, ar_reviewer := ca_id who\<rparr> in
                   thenE (modifyE (putApproval rec')) (returnE rec')))))
             | _ \<Rightarrow> fail SCHEMA_INVALID (Some ''reason''))))))))"

definition cancel_approval :: "jobj \<Rightarrow> approval_caller option \<Rightarrow> approval_record approval_op" where
  "cancel_approval params caller =
     (let who = (case caller of Some c \<Rightarrow> c | None \<Rightarrow> LOCAL_OPERATOR) in
      thenE (assertE (ca_role who \<noteq> Some Viewer \<and> ca_role who \<noteq> Some Bootstrap) (RpcError FORBIDDEN None))
     (bindE (getLive (jget params ''approval'')) (\<lambda>rec.
      thenE (assertE (ca_id who = Some (ar_requester rec)) (RpcError FORBIDDEN (Some ''approval'')))
     (thenE (assertE (jget params ''expected_revision'' = Some (JStr (ar_revision rec)))
              (RpcError REVISION_CONFLICT (Some ''expected_revision'')))
     (thenE (assertE (ar_state rec \<noteq> ApExpired) (RpcError APPROVAL_EXPIRED (Some ''approval'')))
     (thenE (assertE (ar_state rec = ApPending) (RpcError STATE_TRANSITION (Some ''approval'')))
       (let rec' = rec\<lparr>ar_revision := bumpCount (ar_revision rec), ar_state := ApCancelled\<rparr> in
        thenE (modifyE (putApproval rec')) (returnE rec'))))))))"

section \<open>Calls\<close>

datatype approval_call =
    ApRequest jobj "approval_caller option"
  | ApList "json option" "string option" json
  | ApGet "json option"
  | ApDecide jobj "approval_caller option"
  | ApCancel jobj "approval_caller option"
  | ApAdvance int

fun approval_step :: "node_crypto \<Rightarrow> allocator \<Rightarrow> approval_call \<Rightarrow> approval_ports \<Rightarrow> approval_ports" where
  "approval_step nc al (ApRequest params caller) s = snd (request nc al params caller s)"
| "approval_step nc al (ApList st after limit) s = snd (list_approvals st after limit s)"
| "approval_step nc al (ApGet i) s = snd (get_approval i s)"
| "approval_step nc al (ApDecide params caller) s = snd (decide nc params caller s)"
| "approval_step nc al (ApCancel params caller) s = snd (cancel_approval params caller s)"
| "approval_step nc al (ApAdvance ms) s = s\<lparr>ap_now := ap_now s + ms\<rparr>"

definition approval_steps :: "node_crypto \<Rightarrow> allocator \<Rightarrow> approval_call list \<Rightarrow> approval_ports \<Rightarrow> approval_ports" where
  "approval_steps nc al calls s = fold (approval_step nc al) calls s"

lemma bumpCount_one: "bumpCount ''1'' = ''2''"
  by code_simp

section \<open>What calls do to rows\<close>

text \<open>
  A stored row: its hash is the commitment of its action, no authority is conferred, and
  its decision, revision and state agree.
\<close>

definition row_ok :: "node_crypto \<Rightarrow> approval_record \<Rightarrow> bool" where
  "row_ok nc r \<longleftrightarrow> actionCommitment nc (ar_action r) = Inr (ar_action_hash r) \<and> ar_authority r = ''NONE'' \<and>
     ar_native_status r = ''NOT_DISPATCHED'' \<and>
     ar_revision r = (if ar_state r \<in> {ApPending, ApExpired} then ''1'' else ''2'') \<and>
     ar_decision r = (case ar_state r of ApApproved \<Rightarrow> Some Approve | ApDenied \<Rightarrow> Some Deny | _ \<Rightarrow> None)"

definition same_binding :: "approval_record \<Rightarrow> approval_record \<Rightarrow> bool" where
  "same_binding a b \<longleftrightarrow> ar_approval b = ar_approval a \<and> ar_action b = ar_action a \<and> ar_action_hash b = ar_action_hash a \<and>
     ar_target b = ar_target a \<and> ar_expires_ms b = ar_expires_ms a \<and> ar_native b = ar_native a \<and>
     ar_requester b = ar_requester a \<and> ar_created_ms b = ar_created_ms a"

definition row_le :: "approval_record \<Rightarrow> approval_record \<Rightarrow> bool" where
  "row_le a b \<longleftrightarrow> b = a \<or> ar_state a = ApPending \<and> ar_state b \<noteq> ApPending \<and> same_binding a b"

lemma row_le_refl [simp]: "row_le a a"
  by (simp add: row_le_def)

lemma row_le_trans: "row_le a b \<Longrightarrow> row_le b c \<Longrightarrow> row_le a c"
  by (auto simp: row_le_def same_binding_def)

definition approvals_inv :: "node_crypto \<Rightarrow> allocator \<Rightarrow> approval_ports \<Rightarrow> bool" where
  "approvals_inv nc al s \<longleftrightarrow> approvals_ok s \<and> (\<forall>k r. getApproval k s = Some r \<longrightarrow>
     row_ok nc r \<and> (\<exists>n\<le>ap_drawn s. k = al_id al (al_family al ''approval'') n))"

definition rows_advance :: "approval_ports \<Rightarrow> approval_ports \<Rightarrow> bool" where
  "rows_advance s t \<longleftrightarrow> (\<forall>k a. getApproval k s = Some a \<longrightarrow> (\<exists>b. getApproval k t = Some b \<and> row_le a b))"

definition sound_step :: "node_crypto \<Rightarrow> allocator \<Rightarrow> approval_ports \<Rightarrow> approval_ports \<Rightarrow> bool" where
  "sound_step nc al s t \<longleftrightarrow> approvals_inv nc al t \<and> rows_advance s t"

lemma rows_advance_refl [simp]: "rows_advance s s"
  by (simp add: rows_advance_def)

lemma rows_advance_trans: "rows_advance s t \<Longrightarrow> rows_advance t u \<Longrightarrow> rows_advance s u"
  unfolding rows_advance_def using row_le_trans by meson

lemma sound_refl [simp]: "approvals_inv nc al s \<Longrightarrow> sound_step nc al s s"
  by (simp add: sound_step_def)

lemma sound_trans: "sound_step nc al s t \<Longrightarrow> (approvals_inv nc al t \<Longrightarrow> sound_step nc al t u) \<Longrightarrow> sound_step nc al s u"
  unfolding sound_step_def using rows_advance_trans by blast

lemma get_put [simp]: "getApproval k (putApproval r s) = (if k = ar_approval r then Some r else getApproval k s)"
  by (rule approvals.get_put)

lemma approval_put_scalars [simp]: "ap_now (putApproval r s) = ap_now s" "ap_drawn (putApproval r s) = ap_drawn s"
  by (simp_all add: putApproval_def)

lemma sound_put:
  assumes "approvals_inv nc al s" "getApproval (ar_approval b) s = Some a" "row_le a b" "row_ok nc b"
  shows "sound_step nc al s (putApproval b s)"
  using assms by (auto simp: sound_step_def approvals_inv_def rows_advance_def approvals.ok_put)

lemma expired_ok: "row_ok nc r \<Longrightarrow> row_ok nc (expired r now)" "row_le r (expired r now)" "ar_approval (expired r now) = ar_approval r"
  by (auto simp: row_ok_def row_le_def same_binding_def expired_def due_def)

lemma getLive_cases:
  assumes "approvals_inv nc al s"
  obtains (refused) e where "getLive v s = (Inl e, s)"
  | (found) i r t where "v = Some (JStr i)" "isId (JStr i)" "getApproval i s = Some r"
      "getLive v s = (Inr (expired r (ap_now s)), t)" "getApproval i t = Some (expired r (ap_now s))" "ar_approval r = i"
      "ap_now t = ap_now s" "sound_step nc al s t" "row_ok nc (expired r (ap_now s))"
proof (cases "\<exists>i r. v = Some (JStr i) \<and> isId (JStr i) \<and> getApproval i s = Some r")
  case False
  then have "\<exists>e. getLive v s = (Inl e, s)"
    by (auto simp: getLive_def op_simps split: option.splits json.splits)
  then show ?thesis using refused by blast
next
  case True
  then obtain i r where v: "v = Some (JStr i)" "isId (JStr i)" "getApproval i s = Some r" by blast
  have id: "ar_approval r = i" using approvals.get_key [OF _ v(3)] assms by (simp add: approvals_inv_def)
  have ok: "row_ok nc r" using assms v(3) by (simp add: approvals_inv_def)
  define t where "t = (if due r (ap_now s) then putApproval (expired r (ap_now s)) s else s)"
  have "getLive v s = (Inr (expired r (ap_now s)), t)"
    using v by (simp add: getLive_def op_simps expireIfDue_def t_def)
  moreover have "sound_step nc al s t"
    unfolding t_def using sound_put [OF assms, of "expired r (ap_now s)" r] expired_ok(1) [of nc r] expired_ok(2,3) [of r] v(3) ok id assms by simp
  moreover have "getApproval i t = Some (expired r (ap_now s))"
    using v(3) id expired_ok(3) [of r] by (simp add: t_def expired_def)
  moreover have "ap_now t = ap_now s" by (simp add: t_def)
  ultimately show ?thesis using found v id expired_ok(1) [OF ok] by blast
qed

text \<open>Each operation is sound.\<close>

lemma sound_getLive: "approvals_inv nc al s \<Longrightarrow> sound_step nc al s (snd (getLive v s))"
  by (cases rule: getLive_cases [of nc al s v]) auto

text \<open>The two compare-and-set operations: an error after the lookup, or one write of a decided row.\<close>

lemma decide_cases:
  assumes "approvals_inv nc al s"
  obtains (refused) e t where "decide nc params caller s = (Inl e, t)" "sound_step nc al s t"
  | (decided) i r r' d reason action t where "decide nc params caller s = (Inr r', t)" "sound_step nc al s t"
      "jget params ''approval'' = Some (JStr i)" "isId (JStr i)" "getApproval i s = Some r" "ar_state r = ApPending"
      "ap_now s < ar_expires_ms r" "jget params ''expected_revision'' = Some (JStr (ar_revision r))"
      "decision_of (jget params ''decision'') = Some d" "jget params ''reason'' = Some (JStr reason)"
      "validateNativeRef (jget params ''action'') ''action'' = Inr action"
      "actionCommitment nc action = Inr (ar_action_hash r)"
      "is_reviewer (case caller of Some c \<Rightarrow> c | None \<Rightarrow> LOCAL_OPERATOR)"
      "getApproval i t = Some r'" "ar_state r' = (if d = Approve then ApApproved else ApDenied)" "row_le r r'"
      "ar_revision r' = ''2''" "ar_decided_ms r' = Some (ap_now s)"
proof (cases "is_reviewer (case caller of Some c \<Rightarrow> c | None \<Rightarrow> LOCAL_OPERATOR)")
  case False
  then show ?thesis using refused assms by (simp add: decide_def op_simps)
next
  case rev: True
  from assms show ?thesis
  proof (cases rule: getLive_cases [of nc al s "jget params ''approval''"])
    case (refused e)
    then show ?thesis using that(1) assms rev by (simp add: decide_def op_simps)
  next
    case (found i r t)
    let ?e = "expired r (ap_now s)"
    show ?thesis
    proof (cases "\<exists>d reason action. jget params ''expected_revision'' = Some (JStr (ar_revision ?e)) \<and> ar_state ?e = ApPending \<and>
        decision_of (jget params ''decision'') = Some d \<and> jget params ''reason'' = Some (JStr reason) \<and>
        validateNativeRef (jget params ''action'') ''action'' = Inr action \<and>
        actionCommitment nc action = Inr (ar_action_hash ?e)")
      case False
      then have "\<exists>e. decide nc params caller s = (Inl e, t)"
        using rev found(4) by (auto simp: decide_def op_simps Let_def split: option.splits json.splits sum.splits)
      then show ?thesis using that(1) found(8) by blast
    next
      case True
      then obtain d reason action where d: "jget params ''expected_revision'' = Some (JStr (ar_revision ?e))" "ar_state ?e = ApPending"
        "decision_of (jget params ''decision'') = Some d" "jget params ''reason'' = Some (JStr reason)"
        "validateNativeRef (jget params ''action'') ''action'' = Inr action"
        "actionCommitment nc action = Inr (ar_action_hash ?e)" by blast
      have e: "?e = r" "ap_now s < ar_expires_ms r" using d(2) by (auto simp: expired_def due_def split: if_splits)
      define r' where "r' = r\<lparr>ar_revision := bumpCount (ar_revision r),
         ar_state := (if d = Approve then ApApproved else ApDenied), ar_decision := Some d,
         ar_reason := Some reason, ar_decided_ms := Some (ap_now s),
         ar_reviewer := ca_id (case caller of Some c \<Rightarrow> c | None \<Rightarrow> LOCAL_OPERATOR)\<rparr>"
      have run: "decide nc params caller s = (Inr r', putApproval r' t)"
        using rev found(4,7) d unfolding e(1) by (simp add: decide_def op_simps Let_def r'_def)
      have rev2: "bumpCount (ar_revision r) = ''2''" using found(9) d(2) unfolding e(1) by (simp add: row_ok_def bumpCount_one)
      have le: "row_le r r'" using d(2) unfolding e(1) by (simp add: r'_def row_le_def same_binding_def)
      have ok: "row_ok nc r'"
        using found(9) rev2 unfolding e(1) by (cases d) (simp_all add: row_ok_def r'_def)
      have id: "ar_approval r' = i" using found(6) by (simp add: r'_def)
      have "sound_step nc al s (putApproval r' t)"
        using found(8)
      proof (rule sound_trans)
        assume "approvals_inv nc al t"
        then show "sound_step nc al t (putApproval r' t)" using le ok found(5) id unfolding e(1) by (intro sound_put) simp_all
      qed
      then show ?thesis
        using that(2) [OF run _ found(1-3) _ e(2), of d reason action] d rev le id rev2 unfolding e(1) by (simp add: r'_def)
    qed
  qed
qed

lemma cancel_cases:
  assumes "approvals_inv nc al s"
  obtains (refused) e t where "cancel_approval params caller s = (Inl e, t)" "sound_step nc al s t"
  | (cancelled) i r r' t where "cancel_approval params caller s = (Inr r', t)" "sound_step nc al s t"
      "jget params ''approval'' = Some (JStr i)" "getApproval i s = Some r" "ar_state r = ApPending"
      "ca_id (case caller of Some c \<Rightarrow> c | None \<Rightarrow> LOCAL_OPERATOR) = Some (ar_requester r)"
      "getApproval i t = Some r'" "ar_state r' = ApCancelled" "row_le r r'"
proof (cases "ca_role (case caller of Some c \<Rightarrow> c | None \<Rightarrow> LOCAL_OPERATOR) \<in> {Some Viewer, Some Bootstrap}")
  case True
  then have "cancel_approval params caller s = (Inl (RpcError FORBIDDEN None), s)"
    by (auto simp: cancel_approval_def op_simps Let_def)
  then show ?thesis using refused assms by simp
next
  case rl: False
  from assms show ?thesis
  proof (cases rule: getLive_cases [of nc al s "jget params ''approval''"])
    case (refused e)
    then have "cancel_approval params caller s = (Inl e, s)" using rl by (simp add: cancel_approval_def op_simps Let_def)
    then show ?thesis using that(1) assms by simp
  next
    case (found i r t)
    let ?e = "expired r (ap_now s)"
    show ?thesis
    proof (cases "ca_id (case caller of Some c \<Rightarrow> c | None \<Rightarrow> LOCAL_OPERATOR) = Some (ar_requester ?e) \<and>
        jget params ''expected_revision'' = Some (JStr (ar_revision ?e)) \<and> ar_state ?e = ApPending")
      case False
      then have "\<exists>e. cancel_approval params caller s = (Inl e, t)"
        using rl found(4) by (auto simp: cancel_approval_def op_simps Let_def)
      then show ?thesis using that(1) found(8) by blast
    next
      case d: True
      then have e: "?e = r" by (auto simp: expired_def due_def split: if_splits)
      define r' where "r' = r\<lparr>ar_revision := bumpCount (ar_revision r), ar_state := ApCancelled\<rparr>"
      have run: "cancel_approval params caller s = (Inr r', putApproval r' t)"
        using rl found(4,7) d unfolding e by (simp add: cancel_approval_def op_simps Let_def r'_def)
      have le: "row_le r r'" using d unfolding e by (simp add: r'_def row_le_def same_binding_def)
      have ok: "row_ok nc r'"
        using found(9) d unfolding e by (simp add: row_ok_def r'_def bumpCount_one)
      have id: "ar_approval r' = i" using found(6) by (simp add: r'_def)
      have "sound_step nc al s (putApproval r' t)"
        using found(8)
      proof (rule sound_trans)
        assume "approvals_inv nc al t"
        then show "sound_step nc al t (putApproval r' t)" using le ok found(5) id unfolding e by (intro sound_put) simp_all
      qed
      then show ?thesis
        using that(2) [OF run _ found(1,3)] d le id unfolding e by (simp add: r'_def)
    qed
  qed
qed

lemma sound_list:
  assumes "approvals_inv nc al s" shows "sound_step nc al s (snd (list_approvals st after limit s))"
proof -
  have ok: "approvals_ok s" using assms by (simp add: approvals_inv_def)
  have rows: "getApproval k (expire_all s) = map_option (\<lambda>r. if due r (ap_now s) then expired r (ap_now s) else r) (getApproval k s)" for k
  proof -
    have "distinct (map ar_approval (approvals_in_order s))" and rs: "set (approvals_in_order s) = set (listApprovals s)"
      using approvals.rows_distinct [OF ok] by (simp_all add: approvals_in_order_def distinct_map)
    then have "getApproval k (expire_all s) = map_option (\<lambda>r. if r \<in> set (listApprovals s) \<and> due r (ap_now s)
        then expired r (ap_now s) else r) (getApproval k s)"
      unfolding expire_all_def
      using approvals.update_get_rows [OF ok, of "\<lambda>r. expired r (ap_now s)" "approvals_in_order s" k "\<lambda>r. due r (ap_now s)"]
      by (simp add: expired_ok(3))
    moreover have "r \<in> set (listApprovals s)" if "getApproval k s = Some r" for r
      using approvals.rows_get [OF ok, of r] approvals.get_key [OF ok that] that by simp
    ultimately show ?thesis by (cases "getApproval k s") auto
  qed
  have "approvals_ok (expire_all s)" unfolding expire_all_def using ok by (rule approvals.update_ok)
  moreover have drawn: "ap_drawn (expire_all s) = ap_drawn s"
    unfolding expire_all_def by (rule update_where_frame) simp
  ultimately have "sound_step nc al s (expire_all s)"
    using assms expired_ok(1,2) by (fastforce simp: sound_step_def approvals_inv_def rows_advance_def rows)
  then show ?thesis
    using assms by (auto simp: list_approvals_def op_simps Let_def split: sum.splits json.splits)
qed

lemma sound_quiet:
  assumes "approvals_inv nc al s" "ap_approvals t = ap_approvals s" "ap_drawn s \<le> ap_drawn t"
  shows "sound_step nc al s t"
proof -
  have get: "getApproval k t = getApproval k s" for k using assms(2) by (simp add: getApproval_def)
  have "\<exists>n\<le>ap_drawn t. k = al_id al (al_family al ''approval'') n" if "getApproval k s = Some r" for k r
    using assms(1,3) that order_trans unfolding approvals_inv_def by meson
  then show ?thesis
    using assms(1,2) by (simp add: sound_step_def approvals_inv_def rows_advance_def get approvals_ok_def)
qed

context id_source
begin

lemma sound_request:
  assumes "approvals_inv nc al s" shows "sound_step nc al s (snd (request nc al params caller s))"
proof (cases "snd (request nc al params caller s) = s")
  case True
  with assms show ?thesis by simp
next
  case False
  define i where "i = al_id al (al_family al ''approval'') (ap_drawn s + 1)"
  have fresh: "getApproval i s = None"
  proof (rule ccontr)
    assume "getApproval i s \<noteq> None"
    then obtain n where "n \<le> ap_drawn s" "i = al_id al (al_family al ''approval'') n"
      using assms by (auto simp: approvals_inv_def)
    then show False using draws_differ unfolding i_def by fastforce
  qed
  let ?u = "s\<lparr>ap_drawn := ap_drawn s + 1\<rparr>"
  have get: "getApproval k (s\<lparr>ap_drawn := n\<rparr>) = getApproval k s" for k n by (simp add: getApproval_def)
  have u: "sound_step nc al s ?u"
    using assms by (rule sound_quiet) simp_all
  obtain action native target expires where v: "validateNativeRef (jget params ''action'') ''action'' = Inr action"
      "validateObjectRef (jget params ''native'') ''native'' = Inr native" "jget params ''target'' = Some (JStr target)"
      "target_ok (Some (JStr target))" "jget params ''expires_ms'' = Some (JNum expires)" "is_safe expires"
    using False by (auto simp: request_def op_simps split: sum.splits option.splits json.splits if_splits)
  show ?thesis
  proof (cases "actionCommitment nc action")
    case (Inl e)
    then have "snd (request nc al params caller s) = ?u"
      using v by (simp add: request_def op_simps ap_newId_def)
    with u show ?thesis by simp
  next
    case (Inr h)
    obtain r where r: "snd (request nc al params caller s) = putApproval r ?u" "ar_approval r = i" "row_ok nc r"
      using v Inr by (simp add: request_def op_simps ap_newId_def Let_def i_def row_ok_def)
    have inv: "approvals_inv nc al ?u" using u by (simp add: sound_step_def)
    have "approvals_inv nc al (putApproval r ?u)"
      unfolding approvals_inv_def
    proof (intro conjI allI impI)
      show "approvals_ok (putApproval r ?u)" using inv approvals.ok_put by (simp add: approvals_inv_def)
      fix k x assume k: "getApproval k (putApproval r ?u) = Some x"
      show "row_ok nc x" using k r inv by (auto simp: approvals_inv_def split: if_splits)
      show "\<exists>n\<le>ap_drawn (putApproval r ?u). k = al_id al (al_family al ''approval'') n"
      proof (cases "k = i")
        case True
        then show ?thesis by (intro exI [of _ "ap_drawn s + 1"]) (simp add: i_def)
      next
        case False
        then show ?thesis using k r(2) inv by (simp add: approvals_inv_def)
      qed
    qed
    moreover have "rows_advance s (putApproval r ?u)"
      using fresh r(2) by (auto simp: rows_advance_def get)
    ultimately show ?thesis by (simp add: sound_step_def r(1))
  qed
qed

lemma sound_approval_step:
  assumes "approvals_inv nc al s" shows "sound_step nc al s (approval_step nc al call s)"
proof (cases call)
  case (ApDecide params caller)
  from assms have "sound_step nc al s (snd (decide nc params caller s))"
    by (cases rule: decide_cases [of nc al s params caller]) simp_all
  with ApDecide show ?thesis by simp
next
  case (ApCancel params caller)
  from assms have "sound_step nc al s (snd (cancel_approval params caller s))"
    by (cases rule: cancel_cases [of nc al s params caller]) simp_all
  with ApCancel show ?thesis by simp
next
  case (ApAdvance ms)
  then show ?thesis using sound_quiet [OF assms] by simp
qed (use assms sound_request sound_list sound_getLive in \<open>simp_all add: get_approval_def\<close>)

lemma sound_approval_steps: "approvals_inv nc al s \<Longrightarrow> sound_step nc al s (approval_steps nc al calls s)"
proof (induction calls arbitrary: s)
  case (Cons c calls)
  have "approval_steps nc al (c # calls) s = approval_steps nc al calls (approval_step nc al c s)"
    by (simp add: approval_steps_def)
  then show ?case
    by (simp only:) (rule sound_trans [OF sound_approval_step [OF Cons.prems]], rule Cons.IH)
qed (simp add: approval_steps_def)

end

lemma approvals_inv_start: "approvals_inv nc al (createMemoryApprovalPorts now)"
  by (simp add: approvals_inv_def createMemoryApprovalPorts_def approvals_ok_def getApproval_def)

section \<open>Properties\<close>

text \<open>
  C36.  After any calls on a fresh store, every row carries the commitment of its action and
  no authority, an undecided row is at revision 1 without a decision, and a decided one is
  at revision 2 with the decision of its state.
\<close>

theorem approval_rows_are_sound:
  assumes "id_source al" "s = approval_steps nc al calls (createMemoryApprovalPorts now)" "getApproval k s = Some r"
  shows "actionCommitment nc (ar_action r) = Inr (ar_action_hash r) \<and> ar_authority r = ''NONE'' \<and>
    ar_revision r = (if ar_state r \<in> {ApPending, ApExpired} then ''1'' else ''2'') \<and>
    ar_decision r = (case ar_state r of ApApproved \<Rightarrow> Some Approve | ApDenied \<Rightarrow> Some Deny | _ \<Rightarrow> None)"
proof -
  have "approvals_inv nc al s"
    using id_source.sound_approval_steps [OF assms(1) approvals_inv_start] assms(2) by (simp add: sound_step_def)
  then show ?thesis using assms(3) by (simp add: approvals_inv_def row_ok_def)
qed

text \<open>
  C15.  The first decision wins: after a decision has been committed, and after any further
  calls and any passing of time, a reviewer's decision under the same expected revision
  fails with REVISION_CONFLICT and the row is the one the first decision wrote.
\<close>

theorem first_decision_wins:
  assumes "id_source al" "approvals_inv nc al s" "decide nc params caller s = (Inr r, t)"
    "jget later ''approval'' = jget params ''approval''"
    "jget later ''expected_revision'' = jget params ''expected_revision''"
    "is_reviewer (case caller' of Some c \<Rightarrow> c | None \<Rightarrow> LOCAL_OPERATOR)"
    "u = approval_steps nc al calls t"
  shows "\<exists>v. decide nc later caller' u = (Inl (RpcError REVISION_CONFLICT (Some ''expected_revision'')), v) \<and>
    getApproval (ar_approval r) v = Some r"
  using assms(2)
proof (cases rule: decide_cases [of nc al s params caller])
  case (refused e t')
  with assms(3) show ?thesis by simp
next
  case (decided i r0 r' d reason action t')
  then have eq: "r' = r" "t' = t" using assms(3) by simp_all
  have inv: "approvals_inv nc al t" using decided(2) eq by (simp add: sound_step_def)
  then have u: "sound_step nc al t u" using id_source.sound_approval_steps [OF assms(1)] assms(7) by simp
  have id: "ar_approval r = i"
    using approvals.get_key [OF _ decided(14)] inv eq by (simp add: approvals_inv_def)
  have dec: "ar_state r \<noteq> ApPending" "ar_state r \<noteq> ApExpired" using decided(15) eq by (auto split: if_splits)
  have "getApproval i u = Some r"
    using u decided(14) eq dec(1) unfolding sound_step_def rows_advance_def row_le_def by metis
  moreover have "expired r n = r" for n using dec(1) by (simp add: expired_def due_def)
  moreover have "\<not> due r n" for n using dec(1) by (simp add: due_def)
  ultimately have live: "getLive (jget later ''approval'') u = (Inr r, u)"
    using decided(3,4) assms(4) by (simp add: getLive_def op_simps expireIfDue_def)
  have "row_ok nc r0" using assms(2) decided(5) by (simp add: approvals_inv_def)
  then have "ar_revision r0 = ''1''" using decided(6) by (simp add: row_ok_def)
  then have "jget later ''expected_revision'' \<noteq> Some (JStr (ar_revision r))"
    using assms(5) decided(8,17) eq by simp
  then have "decide nc later caller' u = (Inl (RpcError REVISION_CONFLICT (Some ''expected_revision'')), u)"
    using assms(6) live by (simp add: decide_def op_simps Let_def)
  then show ?thesis using \<open>getApproval i u = Some r\<close> id by simp
qed

text \<open>
  C14.  A decision succeeds exactly for a reviewer, on a pending approval strictly before its
  expiry, under its current revision, with a decision, a reason and an action whose
  commitment is the one requested.
\<close>

theorem decide_succeeds_iff:
  assumes "approvals_inv nc al s"
  shows "(\<exists>r t. decide nc params caller s = (Inr r, t)) \<longleftrightarrow>
    is_reviewer (case caller of Some c \<Rightarrow> c | None \<Rightarrow> LOCAL_OPERATOR) \<and>
    (\<exists>i r action. jget params ''approval'' = Some (JStr i) \<and> isId (JStr i) \<and> getApproval i s = Some r \<and>
       ar_state r = ApPending \<and> ap_now s < ar_expires_ms r \<and>
       jget params ''expected_revision'' = Some (JStr (ar_revision r)) \<and>
       jget params ''decision'' \<in> {Some (JStr ''approve''), Some (JStr ''deny'')} \<and>
       (\<exists>reason. jget params ''reason'' = Some (JStr reason)) \<and>
       validateNativeRef (jget params ''action'') ''action'' = Inr action \<and>
       actionCommitment nc action = Inr (ar_action_hash r))"
    (is "?L \<longleftrightarrow> ?R")
proof
  assume ?L
  from assms show ?R
  proof (cases rule: decide_cases [of nc al s params caller])
    case (refused e t)
    with \<open>?L\<close> show ?thesis by simp
  next
    case (decided i r r' d reason action t)
    then have "jget params ''decision'' \<in> {Some (JStr ''approve''), Some (JStr ''deny'')}"
      by (simp add: decision_of_def split: if_splits)
    with decided show ?thesis by blast
  qed
next
  assume r: ?R
  then obtain i r action reason where *: "jget params ''approval'' = Some (JStr i)" "isId (JStr i)" "getApproval i s = Some r"
      "ar_state r = ApPending" "ap_now s < ar_expires_ms r" "jget params ''expected_revision'' = Some (JStr (ar_revision r))"
      "jget params ''decision'' \<in> {Some (JStr ''approve''), Some (JStr ''deny'')}" "jget params ''reason'' = Some (JStr reason)"
      "validateNativeRef (jget params ''action'') ''action'' = Inr action" "actionCommitment nc action = Inr (ar_action_hash r)"
    by blast
  have "getLive (jget params ''approval'') s = (Inr r, s)"
    using * by (simp add: getLive_def op_simps expireIfDue_def expired_def due_def)
  moreover obtain d where "decision_of (jget params ''decision'') = Some d" using *(7) by (auto simp: decision_of_def)
  ultimately show ?L using r * by (simp add: decide_def op_simps Let_def)
qed

subsection \<open>A concrete approval\<close>

definition approval_crypto :: node_crypto where
  "approval_crypto = \<lparr>nc_sha256 = (\<lambda>s. s), nc_public = (\<lambda>_. True), nc_verify = (\<lambda>_ _ _. True)\<rparr>"

definition sample_action :: jobj where
  "sample_action = [(''profile'', JStr ''p''), (''namespace'', JStr ''n''), (''object_id'', JStr ''o''), (''commitment'', JNull),
     (''raw_sha256'', JStr (replicate 64 CHR ''a'')), (''bytes'', JStr ''1'')]"

definition sample_native :: jobj where
  "sample_native = [(''digest'', JStr (replicate 64 CHR ''b'')), (''bytes'', JStr ''2''), (''media'', JStr ''text/plain'')]"

definition sample_request :: jobj where
  "sample_request = [(''action'', JObj sample_action), (''target'', JStr ''t''), (''expires_ms'', JNum 1000), (''native'', JObj sample_native)]"

definition sample_decision :: jobj where
  "sample_decision = [(''approval'', JStr ''approval1''), (''expected_revision'', JStr ''1''), (''action'', JObj sample_action),
     (''decision'', JStr ''approve''), (''reason'', JStr ''fine'')]"

definition sample_hash :: string where
  "sample_hash = sha256Hex approval_crypto (encode (JObj sample_action))"

definition requested :: approval_ports where
  "requested = approval_steps approval_crypto (sequentialIds []) [ApRequest sample_request None] (createMemoryApprovalPorts 0)"

lemma sample_valid: "validateNativeRef (Some (JObj sample_action)) f = Inr sample_action"
  "validateObjectRef (Some (JObj sample_native)) f = Inr sample_native"
proof -
  have h: "isHash64 (JStr (replicate 64 CHR ''a''))" "isHash64 (JStr (replicate 64 CHR ''b''))" "rx_test RX_COUNT ''1''" "rx_test RX_COUNT ''2''"
    by code_simp+
  show "validateNativeRef (Some (JObj sample_action)) f = Inr sample_action"
    by (simp add: validateNativeRef_def sample_action_def only_keys_def has_keys_def NATIVEREF_KEYS_def jget_def json_str_def
        ascii_text_def utf8_bytes_def hash_field_def count_field_def h [simplified])
  show "validateObjectRef (Some (JObj sample_native)) f = Inr sample_native"
    by (simp add: validateObjectRef_def sample_native_def only_keys_def has_keys_def OBJECTREF_KEYS_def jget_def json_str_def
        hash_field_def count_field_def MEDIA_def h [simplified])
qed

lemma sample_commitment: "actionCommitment approval_crypto sample_action = Inr sample_hash"
  by (simp add: actionCommitment_def canonicalJson_def sample_hash_def) (simp add: sample_action_def)

definition sample_row :: approval_record where
  "sample_row = \<lparr>ar_approval = ''approval1'', ar_revision = ''1'', ar_state = ApPending, ar_action = sample_action,
     ar_action_hash = sample_hash, ar_target = ''t'', ar_expires_ms = 1000, ar_native = sample_native,
     ar_native_status = ''NOT_DISPATCHED'', ar_authority = ''NONE'', ar_requester = ''operator1'', ar_created_ms = 0,
     ar_decided_ms = None, ar_decision = None, ar_reason = None, ar_reviewer = None\<rparr>"

lemma sample_row_fields [simp]:
  "ar_state sample_row = ApPending" "ar_revision sample_row = ''1''" "ar_action_hash sample_row = sample_hash"
  "ar_expires_ms sample_row = 1000" "ar_authority sample_row = ''NONE''"
  by (simp_all add: sample_row_def)

lemma requested_row: "getApproval ''approval1'' requested = Some sample_row"
proof -
  have "al_id (sequentialIds []) (al_family (sequentialIds []) ''approval'') (Suc 0) = ''approval1''" by code_simp
  then show ?thesis
    by (simp add: requested_def approval_steps_def request_def sample_request_def jget_def op_simps sample_valid target_ok_def
        json_str_def utf8_bytes_def is_safe_def MAX_SAFE_def ap_newId_def sample_commitment Let_def createMemoryApprovalPorts_def sample_row_def)
qed

lemma requested_inv: "approvals_inv approval_crypto (sequentialIds []) requested"
  using sequential.sound_approval_steps [OF approvals_inv_start] by (simp add: requested_def sound_step_def)

theorem approval_rows_are_sound_witness:
  "getApproval ''approval1'' requested = Some sample_row \<and> ar_authority sample_row = ''NONE'' \<and> ar_revision sample_row = ''1''"
  using approval_rows_are_sound [OF sequential_distinct, of requested approval_crypto "[]" "[ApRequest sample_request None]" 0
      "''approval1''" sample_row] requested_row
  by (simp add: requested_def [symmetric])

lemma approval_id: "isId (JStr ''approval1'')"
  by code_simp

lemma requested_now [simp]: "ap_now requested = 0"
  by (simp add: requested_def approval_steps_def request_def sample_request_def jget_def op_simps sample_valid target_ok_def
      json_str_def utf8_bytes_def is_safe_def MAX_SAFE_def ap_newId_def sample_commitment Let_def createMemoryApprovalPorts_def)

lemma sample_params [simp]:
  "jget sample_decision ''approval'' = Some (JStr ''approval1'')" "jget sample_decision ''expected_revision'' = Some (JStr ''1'')"
  "jget sample_decision ''action'' = Some (JObj sample_action)" "jget sample_decision ''decision'' = Some (JStr ''approve'')"
  "jget sample_decision ''reason'' = Some (JStr ''fine'')"
  by (simp_all add: sample_decision_def jget_def)

theorem decide_succeeds_iff_witness:
  "\<exists>r t. decide approval_crypto sample_decision None requested = (Inr r, t)"
  using decide_succeeds_iff [OF requested_inv, of sample_decision None] requested_row approval_id sample_valid sample_commitment
  by (simp add: is_reviewer_def LOCAL_OPERATOR_def)

theorem first_decision_wins_witness:
  "\<exists>r t v. decide approval_crypto sample_decision None requested = (Inr r, t) \<and>
     decide approval_crypto sample_decision None (approval_steps approval_crypto (sequentialIds []) [ApAdvance 5000] t) =
       (Inl (RpcError REVISION_CONFLICT (Some ''expected_revision'')), v)"
proof -
  have "getLive (Some (JStr ''approval1'')) requested = (Inr sample_row, requested)"
    using requested_row approval_id by (simp add: getLive_def op_simps expireIfDue_def expired_def due_def)
  then obtain r t where run: "decide approval_crypto sample_decision None requested = (Inr r, t)"
    using sample_valid sample_commitment
    by (simp add: decide_def op_simps Let_def is_reviewer_def LOCAL_OPERATOR_def decision_of_def)
  then show ?thesis
    using first_decision_wins [OF sequential_distinct requested_inv run refl refl _ refl, of None "[ApAdvance 5000]"]
    by (auto simp: is_reviewer_def LOCAL_OPERATOR_def)
qed

end
