(* ===== verification/Sync_Disclosure.thy ===== *)
theory Sync_Disclosure
  imports Gateway_Text
begin

text \<open>
  Model of \<open>packages/core/src/v2/sync/disclosure.ts\<close> and of the redactor it is built on
  (\<open>packages/bus/src/redact.ts\<close>, \<open>packages/events/src/redact-keys.ts\<close>): what of an event and of
  its content objects a stream may export.  Object keys are not \<open>__proto__\<close>, on which the
  source's assignments act as on no other key.
\<close>

section \<open>Streams and consent\<close>

datatype stream_name = Runs | Receipts | Lineage | SApprovals | Watch | Mesh
datatype stream_profile = Metadata | Masked | Full

definition STREAMS :: "stream_name list" where
  "STREAMS = [Runs, Receipts, Lineage, SApprovals, Watch, Mesh]"

text \<open>\<open>DisclosureConsent\<close>; \<open>dc_ids\<close> is \<open>ids !== false\<close>, the other flags are \<open>=== true\<close>.\<close>

record disclosure_consent =
  dc_includeObjects :: bool
  dc_hashes :: bool
  dc_ids :: bool
  dc_existence :: bool
  dc_personalData :: bool
  dc_deletionContract :: bool
  dc_allowedObjects :: "string list"
  dc_redactKeys :: "string list"
  dc_includeRawText :: bool

record disclosure_input =
  di_source :: json
  di_envelope :: json
  di_signed :: bool
  di_objects :: jobj
  di_personal :: bool
  di_consent :: disclosure_consent

text \<open>One inventory entry: its digest where hashes may be disclosed.\<close>

type_synonym withheld = "string option"

record disclosure_projection =
  pj_profile :: stream_profile
  pj_stream :: stream_name
  pj_source :: "json option"
  pj_body :: json
  pj_objects :: jobj
  pj_withheld :: "withheld list"

definition WITHHELD :: string where "WITHHELD = ''WITHHELD''"
definition DISCLOSURE_SCHEMA :: string where "DISCLOSURE_SCHEMA = ''gateway.disclosure/1''"
definition REDACTED :: string where "REDACTED = ''[REDACTED]''"

definition DEFAULT_REDACT_KEYS :: "string list" where
  "DEFAULT_REDACT_KEYS = [''authorization'', ''Authorization'', ''apiKey'', ''api_key'', ''token'', ''secret'',
     ''password'', ''rawText'']"

definition DISCLOSURE_REDACT_KEYS :: "string list" where
  "DISCLOSURE_REDACT_KEYS = DEFAULT_REDACT_KEYS @
     [''cookie'', ''set-cookie'', ''x-api-key'', ''apikey'', ''api-secret'', ''access-key'', ''secret-key'', ''private-key'',
      ''client-secret'', ''access-token'', ''refresh-token'', ''id-token'', ''session-token'', ''credentials'', ''auth'']"

definition policyKeys :: "disclosure_consent \<Rightarrow> string list" where
  "policyKeys c = map js_lower (DISCLOSURE_REDACT_KEYS @ dc_redactKeys c)"

section \<open>The key redactor\<close>

definition shouldRedactKey :: "string list \<Rightarrow> bool \<Rightarrow> string \<Rightarrow> bool" where
  "shouldRedactKey ks raw k \<longleftrightarrow> \<not> (k = ''rawText'' \<and> raw) \<and> k \<in> set ks"

fun redactUnknown :: "string list \<Rightarrow> bool \<Rightarrow> json \<Rightarrow> json" where
  "redactUnknown ks raw (JArr es) = JArr (map (redactUnknown ks raw) es)"
| "redactUnknown ks raw (JObj ob) =
     JObj (map (\<lambda>(k, v). (k, if shouldRedactKey ks raw k then JStr REDACTED else redactUnknown ks raw v)) ob)"
| "redactUnknown ks raw v = v"

text \<open>The keys that were hit, in order.\<close>

fun redact_hits :: "string list \<Rightarrow> bool \<Rightarrow> json \<Rightarrow> string list" where
  "redact_hits ks raw (JArr es) = concat (map (redact_hits ks raw) es)"
| "redact_hits ks raw (JObj ob) =
     concat (map (\<lambda>(k, v). if shouldRedactKey ks raw k then [k] else redact_hits ks raw v) ob)"
| "redact_hits ks raw v = []"

record redaction_stamp =
  st_applied :: bool
  st_keys :: "string list"
  st_pattern_hits :: nat

text \<open>\<open>[...new Set(hits)]\<close> keeps first occurrences in order.\<close>

fun unique :: "'a list \<Rightarrow> 'a list" where
  "unique [] = []"
| "unique (x # xs) = x # filter (\<lambda>y. y \<noteq> x) (unique xs)"

definition redactDeep :: "json \<Rightarrow> string list \<Rightarrow> bool \<Rightarrow> json \<times> redaction_stamp" where
  "redactDeep v ks raw =
     (let hits = redact_hits ks raw v in
      (redactUnknown ks raw v, \<lparr>st_applied = (hits \<noteq> []), st_keys = unique hits, st_pattern_hits = length hits\<rparr>))"

fun collectKeys :: "json \<Rightarrow> string list" where
  "collectKeys (JArr es) = concat (map collectKeys es)"
| "collectKeys (JObj ob) = concat (map (\<lambda>(k, v). k # collectKeys v) ob)"
| "collectKeys v = []"

section \<open>Secret patterns in strings\<close>

text \<open>
  The four patterns have one shape: a word boundary, one of some names without regard to
  case, white space, possibly a separator and white space and a quote, and at least four
  characters of a class.  The classes are disjoint from what precedes them, so the greedy
  match is the only one at a position.
\<close>

record secret_pattern =
  sp_names :: "string list"
  sp_seps :: "string option"
  sp_quote :: bool
  sp_class :: "char \<Rightarrow> bool"

definition is_word :: "char \<Rightarrow> bool" where
  "is_word c \<longleftrightarrow> is_alpha c \<or> is_digit c \<or> c = CHR ''_''"

definition with_sep :: "string \<Rightarrow> string \<Rightarrow> string list" where
  "with_sep a b = [a @ ''-'' @ b, a @ ''_'' @ b, a @ b]"

definition SECRET_VALUE_PATTERNS :: "secret_pattern list" where
  "SECRET_VALUE_PATTERNS =
     [\<lparr>sp_names = [''bearer''], sp_seps = None, sp_quote = False,
       sp_class = (\<lambda>c. is_alpha c \<or> is_digit c \<or> c \<in> set ''._~+/=-'')\<rparr>,
      \<lparr>sp_names = [''authorization'', ''proxy-authorization''], sp_seps = Some '':'', sp_quote = False,
       sp_class = (\<lambda>c. \<not> is_space c \<and> c \<notin> set '';,}{'')\<rparr>,
      \<lparr>sp_names = [''cookie'', ''set-cookie''], sp_seps = Some '':'', sp_quote = False,
       sp_class = (\<lambda>c. \<not> is_space c \<and> c \<noteq> CHR '';'')\<rparr>,
      \<lparr>sp_names = concat [with_sep ''api'' ''key'', with_sep ''api'' ''secret'', with_sep ''access'' ''key'',
          with_sep ''secret'' ''key'', with_sep ''private'' ''key'', with_sep ''client'' ''secret'', with_sep ''auth'' ''token'',
          with_sep ''access'' ''token'', with_sep ''refresh'' ''token'', with_sep ''session'' ''token'', with_sep ''id'' ''token''],
       sp_seps = Some '':='', sp_quote = True,
       sp_class = (\<lambda>c. \<not> is_space c \<and> c \<notin> set ([CHR 0x22, CHR 0x27] @ '',;}''))\<rparr>]"

text \<open>\<open>[A-Z]\<close> folded, as the flag \<open>i\<close> does for letters below 128.\<close>

definition fold_char :: "char \<Rightarrow> char" where
  "fold_char c = (if is_alpha c then lower_char c else c)"

definition drop_name :: "string \<Rightarrow> string \<Rightarrow> string option" where
  "drop_name n s = (if map fold_char (take (length n) s) = n then Some (drop (length n) s) else None)"

definition run_of :: "(char \<Rightarrow> bool) \<Rightarrow> string \<Rightarrow> string option" where
  "run_of p s = (if 4 \<le> length (takeWhile p s) then Some (dropWhile p s) else None)"

definition match_value :: "secret_pattern \<Rightarrow> string \<Rightarrow> string option" where
  "match_value p s =
     (let t = dropWhile is_space s in
      case sp_seps p of
        None \<Rightarrow> if length t < length s then run_of (sp_class p) t else None
      | Some seps \<Rightarrow>
          (case t of
             [] \<Rightarrow> None
           | c # cs \<Rightarrow>
               if c \<notin> set seps then None
               else (let u = dropWhile is_space cs in
                     run_of (sp_class p) (if sp_quote p \<and> u \<noteq> [] \<and> hd u \<in> {CHR 0x22, CHR 0x27} then tl u else u))))"

text \<open>What follows a match that starts here, after the character \<open>prev\<close>.\<close>

definition match_at :: "secret_pattern \<Rightarrow> char option \<Rightarrow> string \<Rightarrow> string option" where
  "match_at p prev s =
     (if (case prev of None \<Rightarrow> False | Some c \<Rightarrow> is_word c) then None
      else List.fold (\<lambda>n found. case found of Some r \<Rightarrow> Some r
             | None \<Rightarrow> (case drop_name n s of None \<Rightarrow> None | Some t \<Rightarrow> match_value p t)) (sp_names p) None)"

text \<open>The leftmost match, as what is before and after it.\<close>

fun find_match :: "secret_pattern \<Rightarrow> char option \<Rightarrow> string \<Rightarrow> (string \<times> string) option" where
  "find_match p prev [] = None"
| "find_match p prev (c # cs) =
     (case match_at p prev (c # cs) of
        Some rest \<Rightarrow> Some ([], rest)
      | None \<Rightarrow> map_option (\<lambda>(a, b). (c # a, b)) (find_match p (Some c) cs))"

definition secret_test :: "secret_pattern \<Rightarrow> string \<Rightarrow> bool" where
  "secret_test p s \<longleftrightarrow> find_match p None s \<noteq> None"

text \<open>\<open>out.replace(pattern, "[REDACTED]")\<close> without the flag \<open>g\<close>\<close>

definition replace_first :: "secret_pattern \<Rightarrow> string \<Rightarrow> string" where
  "replace_first p s = (case find_match p None s of None \<Rightarrow> s | Some (a, b) \<Rightarrow> a @ REDACTED @ b)"

definition scrub_text :: "string \<Rightarrow> string" where
  "scrub_text s = fold replace_first SECRET_VALUE_PATTERNS s"

fun scrubStrings :: "json \<Rightarrow> json" where
  "scrubStrings (JStr s) = JStr (scrub_text s)"
| "scrubStrings (JArr es) = JArr (map scrubStrings es)"
| "scrubStrings (JObj ob) = JObj (map (\<lambda>(k, v). (k, scrubStrings v)) ob)"
| "scrubStrings v = v"

section \<open>Projection\<close>

definition redactValue :: "json \<Rightarrow> string list \<Rightarrow> bool \<Rightarrow> json" where
  "redactValue v lower raw =
     (let exact = filter (\<lambda>k. js_lower k \<in> set lower) (collectKeys v) in
      scrubStrings (fst (redactDeep v exact raw)))"

fun sensitive :: "string list \<Rightarrow> json \<Rightarrow> bool" where
  "sensitive lower (JStr s) = list_ex (\<lambda>p. secret_test p s) SECRET_VALUE_PATTERNS"
| "sensitive lower (JArr es) = list_ex (sensitive lower) es"
| "sensitive lower (JObj ob) = list_ex (\<lambda>(k, v). js_lower k \<in> set lower \<or> sensitive lower v) ob"
| "sensitive lower v = False"

definition containsSensitive :: "json \<Rightarrow> disclosure_consent \<Rightarrow> bool" where
  "containsSensitive v c = sensitive (policyKeys c) v"

datatype denial = PersonalDenied | SignedDenied

definition inventory :: "string list \<Rightarrow> disclosure_consent \<Rightarrow> withheld list" where
  "inventory digests c =
     (if \<not> dc_existence c then [] else map (\<lambda>d. if dc_hashes c then Some d else None) digests)"

definition masked_object :: "disclosure_consent \<Rightarrow> string \<Rightarrow> json \<Rightarrow> json" where
  "masked_object c digest v =
     JObj [(''schema'', JStr DISCLOSURE_SCHEMA),
           (''projection_of'', JStr (if dc_hashes c then digest else WITHHELD)),
           (''body'', redactValue v (policyKeys c) (dc_includeRawText c))]"

definition project_allowed :: "stream_name \<Rightarrow> disclosure_input \<Rightarrow> stream_profile \<Rightarrow> disclosure_projection" where
  "project_allowed st item profile =
     (let c = di_consent item; obs = di_objects item; digests = sort (map fst obs);
          redact = (\<lambda>v. redactValue v (policyKeys c) (dc_includeRawText c));
          source = (if dc_ids c then Some (di_source item) else None) in
      case profile of
        Full \<Rightarrow>
          (let keep = (\<lambda>d. dc_includeObjects c \<and> d \<in> set (dc_allowedObjects c)) in
           \<lparr>pj_profile = Full, pj_stream = st, pj_source = source,
            pj_body = (if di_signed item then di_envelope item else redact (di_envelope item)),
            pj_objects = map (\<lambda>d. (d, the (jget obs d))) (filter keep digests),
            pj_withheld = inventory (filter (\<lambda>d. \<not> keep d) digests) c\<rparr>)
      | Masked \<Rightarrow>
          \<lparr>pj_profile = Masked, pj_stream = st, pj_source = Some (di_source item), pj_body = redact (di_envelope item),
           pj_objects = map (\<lambda>d. (d, masked_object c d (the (jget obs d)))) digests, pj_withheld = inventory digests c\<rparr>
      | Metadata \<Rightarrow>
          \<lparr>pj_profile = Metadata, pj_stream = st, pj_source = source, pj_body = redact (di_envelope item),
           pj_objects = [], pj_withheld = inventory digests c\<rparr>)"

definition projectForStream :: "stream_name \<Rightarrow> disclosure_input \<Rightarrow> stream_profile \<Rightarrow> denial + disclosure_projection" where
  "projectForStream st item profile =
     (let c = di_consent item in
      if di_personal item \<and> \<not> (dc_personalData c \<and> dc_deletionContract c) then Inl PersonalDenied
      else if profile = Full \<and> di_signed item \<and> containsSensitive (di_envelope item) c then Inl SignedDenied
      else Inr (project_allowed st item profile))"

section \<open>Where patterns match\<close>

text \<open>A pattern matches only where the first three letters of one of its names stand.\<close>

lemma fold_choose: "List.fold (\<lambda>n found. case found of Some r \<Rightarrow> Some r | None \<Rightarrow> f n) ns found = Some r \<Longrightarrow>
   found = Some r \<or> (\<exists>n\<in>set ns. f n = Some r)"
  by (induction ns arbitrary: found) (fastforce split: option.splits)+

lemma drop_name_prefix: "drop_name n s = Some t \<Longrightarrow> take k n = map fold_char (take (min k (length n)) s)"
  by (metis drop_name_def option.distinct(1) take_map take_take)

definition triple_at :: "secret_pattern \<Rightarrow> string \<Rightarrow> bool" where
  "triple_at p s \<longleftrightarrow> list_ex (\<lambda>n. map fold_char (take 3 s) = take 3 n) (sp_names p)"

lemma match_at_triple: "match_at p prev s \<noteq> None \<Longrightarrow> list_all (\<lambda>n. 3 \<le> length n) (sp_names p) \<Longrightarrow> triple_at p s"
proof -
  assume "match_at p prev s \<noteq> None" "list_all (\<lambda>n. 3 \<le> length n) (sp_names p)"
  then obtain n r where n: "n \<in> set (sp_names p)" "drop_name n s = Some r" "3 \<le> length n"
    unfolding match_at_def list_all_iff
    by (auto split: if_splits option.splits dest!: fold_choose)
  have "take 3 n = map fold_char (take 3 s)"
    using drop_name_prefix [OF n(2), of 3] n(3) by (simp add: min_def)
  then have "\<exists>n\<in>set (sp_names p). map fold_char (take 3 s) = take 3 n" using n(1) by metis
  then show ?thesis by (simp add: triple_at_def list_ex_iff)
qed

fun no_triple :: "secret_pattern \<Rightarrow> string \<Rightarrow> bool" where
  "no_triple p [] = True"
| "no_triple p (c # cs) = (\<not> triple_at p (c # cs) \<and> no_triple p cs)"

lemma find_match_triple: "no_triple p s \<Longrightarrow> list_all (\<lambda>n. 3 \<le> length n) (sp_names p) \<Longrightarrow> find_match p prev s = None"
proof (induction s arbitrary: prev)
  case (Cons c cs)
  then have "match_at p prev (c # cs) = None" using match_at_triple [of p prev "c # cs"] by (cases "match_at p prev (c # cs)") auto
  with Cons show ?case by simp
qed simp

lemma names_long: "p \<in> set SECRET_VALUE_PATTERNS \<Longrightarrow> list_all (\<lambda>n. 3 \<le> length n) (sp_names p)"
  by (auto simp: SECRET_VALUE_PATTERNS_def with_sep_def)

lemma no_secret: "list_all (\<lambda>p. no_triple p s) ps \<Longrightarrow> set ps \<subseteq> set SECRET_VALUE_PATTERNS \<Longrightarrow> fold replace_first ps s = s"
  by (induction ps) (auto simp: replace_first_def find_match_triple names_long)

lemma fold_lower: "fold_char CHR ''R'' = CHR ''r''" "fold_char CHR ''E'' = CHR ''e''" "fold_char CHR ''D'' = CHR ''d''" "fold_char CHR ''A'' = CHR ''a''"
  "fold_char CHR ''C'' = CHR ''c''" "fold_char CHR ''T'' = CHR ''t''" "fold_char CHR ''['' = CHR ''[''" "fold_char CHR '']'' = CHR '']''" "fold_char CHR '' '' = CHR '' ''" 
  "fold_char CHR ''b'' = CHR ''b''" "fold_char CHR ''e'' = CHR ''e''" "fold_char CHR ''a'' = CHR ''a''" "fold_char CHR ''r'' = CHR ''r''"
  "fold_char CHR ''c'' = CHR ''c''" "fold_char CHR ''d'' = CHR ''d''" "fold_char CHR ''f'' = CHR ''f''" "fold_char CHR ''g'' = CHR ''g''" "fold_char CHR ''h'' = CHR ''h''" 
  "fold_char CHR ''1'' = CHR ''1''" "fold_char CHR ''2'' = CHR ''2''"
  by code_simp+

lemma scrub_redacted [simp]: "scrub_text REDACTED = REDACTED"
  unfolding scrub_text_def
  by (rule no_secret) (simp_all add: SECRET_VALUE_PATTERNS_def with_sep_def REDACTED_def triple_at_def fold_lower)

lemma second_secret_kept: "scrub_text ''bearer abcd1 bearer efgh2'' = ''[REDACTED] bearer efgh2''" 
proof -
  have 1: "replace_first (hd SECRET_VALUE_PATTERNS) ''bearer abcd1 bearer efgh2'' = ''[REDACTED] bearer efgh2''"
    by (simp add: SECRET_VALUE_PATTERNS_def replace_first_def match_at_def drop_name_def fold_lower match_value_def run_of_def 
       is_space_def is_alpha_def is_digit_def REDACTED_def)
  have 2: "fold replace_first (tl SECRET_VALUE_PATTERNS) ''[REDACTED] bearer efgh2'' = ''[REDACTED] bearer efgh2''"
    by (rule no_secret) (simp_all add: SECRET_VALUE_PATTERNS_def with_sep_def REDACTED_def triple_at_def fold_lower)
  show ?thesis unfolding scrub_text_def
    by (subst list.collapse [symmetric, of SECRET_VALUE_PATTERNS]) (simp_all only: fold_simps 1 2, simp add: SECRET_VALUE_PATTERNS_def)
qed

section \<open>Redaction\<close>

text \<open>Every value under a key of the policy is the redaction marker.\<close>

fun keys_redacted :: "(string \<Rightarrow> bool) \<Rightarrow> json \<Rightarrow> bool" where
  "keys_redacted P (JArr es) = list_all (keys_redacted P) es"
| "keys_redacted P (JObj ob) = list_all (\<lambda>(k, v). if P k then v = JStr REDACTED else keys_redacted P v) ob"
| "keys_redacted P v = True"

lemma keys_redacted_scrub: "keys_redacted P v \<Longrightarrow> keys_redacted P (scrubStrings v)"
proof (induction v rule: scrubStrings.induct)
  case (3 ob)
  have "if P k then scrubStrings v = JStr REDACTED else keys_redacted P (scrubStrings v)" if m: "(k, v) \<in> set ob" for k v
  proof (cases "P k")
    case True
    then have "v = JStr REDACTED" using 3(2) m by (auto simp: list_all_iff)
    with True show ?thesis by simp
  next
    case False
    then have "keys_redacted P v" using 3(2) m by (auto simp: list_all_iff)
    with False show ?thesis using 3(1) [OF m refl] by simp
  qed
  then show ?case by (auto simp: list_all_iff)
qed (auto simp: list_all_iff)

lemma redactUnknown_keys:
  assumes "\<And>k. k \<in> set (collectKeys v) \<Longrightarrow> P k \<Longrightarrow> shouldRedactKey ks raw k"
  shows "keys_redacted P (redactUnknown ks raw v)"
  using assms
proof (induction v rule: collectKeys.induct)
  case (2 ob)
  have sub: "k \<in> set (collectKeys (JObj ob))" "set (collectKeys v) \<subseteq> set (collectKeys (JObj ob))" if "(k, v) \<in> set ob" for k v
    using that by force+
  have rec: "keys_redacted P (redactUnknown ks raw v)" if m: "(k, v) \<in> set ob" for k v
    using 2(1) [OF m refl] 2(2) sub(2) [OF m] by blast
  have hit: "shouldRedactKey ks raw k" if "(k, v) \<in> set ob" "P k" for k v
    using 2(2) sub(1) that by blast
  show ?case using rec hit by (auto simp: list_all_iff)
qed (auto simp: list_all_iff)

lemma redactValue_keys:
  "keys_redacted (\<lambda>k. js_lower k \<in> set lower \<and> \<not> (k = ''rawText'' \<and> raw)) (redactValue v lower raw)"
  unfolding redactValue_def Let_def redactDeep_def fst_conv
  by (rule keys_redacted_scrub, rule redactUnknown_keys) (simp add: shouldRedactKey_def)

section \<open>Properties\<close>

text \<open>
  C22.  What a projection's body may contain: a signed envelope is exported verbatim only
  under the full profile and only when it has no policy key and no secret pattern;
  otherwise every value under a key of the policy, at any depth and whatever the case of
  the key, is the redaction marker (but for \<open>rawText\<close> where raw text is included).
\<close>

theorem projected_body_is_redacted:
  assumes "projectForStream st item profile = Inr p"
  shows "if profile = Full \<and> di_signed item
    then pj_body p = di_envelope item \<and> \<not> containsSensitive (di_envelope item) (di_consent item)
    else keys_redacted (\<lambda>k. js_lower k \<in> set (policyKeys (di_consent item)) \<and>
           \<not> (k = ''rawText'' \<and> dc_includeRawText (di_consent item))) (pj_body p)"
proof -
  have p: "p = project_allowed st item profile" "\<not> (profile = Full \<and> di_signed item \<and> containsSensitive (di_envelope item) (di_consent item))"
    using assms by (auto simp: projectForStream_def Let_def split: if_splits)
  show ?thesis
    using p(2) redactValue_keys [of "policyKeys (di_consent item)" "dc_includeRawText (di_consent item)" "di_envelope item"]
    by (cases profile) (simp_all add: p(1) project_allowed_def Let_def)
qed


text \<open>Only the first match of each pattern is scrubbed from a string: the second bearer
  token of a text is exported, and the projected text still matches the pattern.
\<close>

theorem second_secret_is_exported:
  "scrubStrings (JStr ''bearer abcd1 bearer efgh2'') = JStr ''[REDACTED] bearer efgh2'' \<and>
   sensitive [] (scrubStrings (JStr ''bearer abcd1 bearer efgh2''))"
proof -
  have "secret_test (hd SECRET_VALUE_PATTERNS) ''[REDACTED] bearer efgh2''"
    by (simp add: SECRET_VALUE_PATTERNS_def secret_test_def match_at_def drop_name_def fold_lower match_value_def run_of_def
        is_space_def is_alpha_def is_digit_def is_word_def)
  then have "sensitive [] (JStr ''[REDACTED] bearer efgh2'')"
    by (simp add: SECRET_VALUE_PATTERNS_def)
  then show ?thesis by (simp add: second_secret_kept)
qed

text \<open>The masked profile names the source and keys every object by its digest, whatever
  the consent to ids and to hashes.
\<close>

theorem masked_projection_discloses_digests:
  assumes "projectForStream st item Masked = Inr p"
  shows "pj_source p = Some (di_source item) \<and> map fst (pj_objects p) = sort (map fst (di_objects item))"
proof -
  have "p = project_allowed st item Masked"
    using assms by (auto simp: projectForStream_def Let_def split: if_splits)
  then show ?thesis by (simp add: project_allowed_def Let_def comp_def)
qed

text \<open>An event with a token and one object, for a stream without consents.\<close>

definition no_consent :: disclosure_consent where
  "no_consent = \<lparr>dc_includeObjects = False, dc_hashes = False, dc_ids = False, dc_existence = False, dc_personalData = False,
     dc_deletionContract = False, dc_allowedObjects = [], dc_redactKeys = [], dc_includeRawText = False\<rparr>"

definition sample_event :: disclosure_input where
  "sample_event = \<lparr>di_source = JStr ''src'', di_envelope = JObj [(''Token'', JStr ''x''), (''n'', JNum 1)], di_signed = False,
     di_objects = [(''d1'', JStr ''secret body'')], di_personal = False, di_consent = no_consent\<rparr>"

theorem projected_body_is_redacted_witness:
  "\<exists>p. projectForStream Runs sample_event Metadata = Inr p \<and>
     keys_redacted (\<lambda>k. js_lower k \<in> set (policyKeys no_consent)) (pj_body p)"
proof -
  obtain p where p: "projectForStream Runs sample_event Metadata = Inr p"
    by (simp add: projectForStream_def Let_def sample_event_def)
  then show ?thesis using projected_body_is_redacted [OF p] by (simp add: sample_event_def) (simp add: no_consent_def)
qed


theorem masked_projection_discloses_digests_witness:
  "\<exists>p. projectForStream Runs sample_event Masked = Inr p \<and> map fst (pj_objects p) = [''d1'']"
proof -
  obtain p where p: "projectForStream Runs sample_event Masked = Inr p"
    by (simp add: projectForStream_def Let_def sample_event_def)
  then show ?thesis using masked_projection_discloses_digests [OF p] by (simp add: sample_event_def)
qed

end
