(* ===== verification/Sync_Outbox.thy ===== *)
theory Sync_Outbox
  imports Sync_Disclosure Peer_Ports
begin

text \<open>
  Model of the sync outbox: the tables of \<open>packages/core/src/v2/protocol/sync.ts\<close>, batches
  (\<open>sync/sinks.ts\<close>), the in-memory ports (\<open>sync/ports.ts\<close>) and the engine (\<open>sync/outbox.ts\<close>).  A send
  runs asynchronously: it is a record of the state, cut at the two points where the source
  awaits the sink, and its continuations are steps that any other call may precede.
\<close>

section \<open>Data\<close>

datatype outbox_state = ObPending | ObInFlight | ObRetry | ObBlocked | ObAcked

fun OUTBOX_TRANSITIONS :: "outbox_state \<Rightarrow> outbox_state list" where
  "OUTBOX_TRANSITIONS ObPending = [ObInFlight, ObBlocked]"
| "OUTBOX_TRANSITIONS ObInFlight = [ObAcked, ObRetry, ObBlocked]"
| "OUTBOX_TRANSITIONS ObRetry = [ObInFlight, ObBlocked]"
| "OUTBOX_TRANSITIONS ObBlocked = [ObPending]"
| "OUTBOX_TRANSITIONS ObAcked = []"

definition canOutboxTransition :: "outbox_state \<Rightarrow> outbox_state \<Rightarrow> bool" where
  "canOutboxTransition a b \<longleftrightarrow> b \<in> set (OUTBOX_TRANSITIONS a)"

definition payloadBytes :: nat where "payloadBytes = 1024 * 1024"
definition batchEvents :: nat where "batchEvents = 1000"
definition batchBytes :: nat where "batchBytes = 8 * 1024 * 1024"
definition globalSenders :: nat where "globalSenders = 2"
definition backoffCapMs :: nat where "backoffCapMs = 300000"
definition backoffBaseMs :: nat where "backoffBaseMs = 1000"

definition backoffCap :: "nat \<Rightarrow> nat" where
  "backoffCap attempt = min backoffCapMs (backoffBaseMs * 2 ^ attempt)"

record native_ref =
  nr_namespace :: string
  nr_object_id :: string
  nr_commitment :: "string option"
  nr_raw_sha256 :: string
  nr_json :: json

record outbox_item =
  oi_id :: string
  oi_destination :: string
  oi_cohort :: string
  oi_stream :: stream_name
  oi_source :: native_ref
  oi_digest :: string
  oi_bytes :: nat
  oi_consent_revision :: string
  oi_redaction :: string
  oi_from :: string
  oi_through :: string
  oi_state :: outbox_state
  oi_attempts :: nat
  oi_next_attempt_ms :: int
  oi_remote_stage :: "string option"

record stream_consent =
  co_enabled :: bool
  co_paused :: bool
  co_profile :: stream_profile
  co_cohort :: string
  co_from :: string
  co_destination :: string
  co_revision :: string
  co_disclosure :: disclosure_consent

text \<open>The batch identity of \<open>outboxBatch\<close>; the stage is journaled on its items.\<close>

record outbox_batch =
  ba_destination :: string
  ba_cohort :: string
  ba_stream :: stream_name
  ba_items :: "string list"
  ba_hash :: string
  ba_through :: string
  ba_stage :: "string option"

datatype send_phase = Preparing outbox_batch | Sending outbox_batch | Finished

record send_record =
  sd_stream :: stream_name
  sd_members :: "string list"
  sd_phase :: send_phase

record sync_ports =
  ob_now :: int
  ob_drawn :: nat
  ob_items :: "(string \<times> outbox_item) list"
  ob_consents :: "(stream_name \<times> stream_consent) list"
  ob_sinks :: "(string \<times> bool) list"
  ob_paused :: "stream_name list"
  ob_through :: "(stream_name \<times> string) list"
  ob_objects :: "(string \<times> string) list"
  ob_daemonKnown :: bool
  ob_itemBatch :: "(string \<times> string) list"
  ob_batchMembers :: "(string \<times> string list) list"
  ob_runItems :: "(string \<times> string list) list"
  ob_blockedCode :: "(string \<times> error_code) list"
  ob_sends :: "send_record list"

definition createMemorySyncPorts :: "int \<Rightarrow> sync_ports" where
  "createMemorySyncPorts now =
     \<lparr>ob_now = now, ob_drawn = 0, ob_items = [], ob_consents = [], ob_sinks = [], ob_paused = [], ob_through = [],
      ob_objects = [], ob_daemonKnown = True, ob_itemBatch = [], ob_batchMembers = [], ob_runItems = [],
      ob_blockedCode = [], ob_sends = []\<rparr>"

type_synonym 'a sync_op = "(sync_ports, thrown, 'a) op"

definition put_item :: "outbox_item \<Rightarrow> sync_ports \<Rightarrow> sync_ports" where
  "put_item r s = s\<lparr>ob_items := aput (oi_id r) r (ob_items s)\<rparr>"

definition get_item :: "string \<Rightarrow> sync_ports \<Rightarrow> outbox_item option" where
  "get_item k s = map_of (ob_items s) k"

definition all_items :: "sync_ports \<Rightarrow> outbox_item list" where
  "all_items s = arows (ob_items s)"

definition items_ok :: "sync_ports \<Rightarrow> bool" where
  "items_ok s \<longleftrightarrow> keyed oi_id (ob_items s)"

lemmas item_defs = put_item_def get_item_def all_items_def

interpretation items: record_table oi_id put_item get_item all_items items_ok
  by (rule record_tableI [where sel = ob_items]) (simp_all add: item_defs items_ok_def keyed_aput)

definition isPaused :: "stream_name \<Rightarrow> sync_ports \<Rightarrow> bool" where
  "isPaused st s \<longleftrightarrow> st \<in> set (ob_paused s) \<or>
     (case map_of (ob_consents s) st of None \<Rightarrow> False | Some c \<Rightarrow> co_paused c)"

definition setPaused :: "stream_name \<Rightarrow> bool \<Rightarrow> sync_ports \<Rightarrow> sync_ports" where
  "setPaused st v s =
     (let t = s\<lparr>ob_paused := (if v then List.insert st (ob_paused s) else removeAll st (ob_paused s))\<rparr> in
      case map_of (ob_consents s) st of
        None \<Rightarrow> t | Some c \<Rightarrow> t\<lparr>ob_consents := aput st (c\<lparr>co_paused := v\<rparr>) (ob_consents s)\<rparr>)"

section \<open>Batches\<close>

definition batchHash :: "node_crypto \<Rightarrow> outbox_item list \<Rightarrow> string" where
  "batchHash nc is = sha256Hex nc (encode (JArr
     (map (\<lambda>i. JArr [JStr (oi_id i), JStr (oi_digest i), JStr (oi_through i)]) is)))"

definition outboxBatch :: "node_crypto \<Rightarrow> outbox_item list \<Rightarrow> string option \<Rightarrow> outbox_batch" where
  "outboxBatch nc is stage =
     \<lparr>ba_destination = oi_destination (hd is), ba_cohort = oi_cohort (hd is), ba_stream = oi_stream (hd is),
      ba_items = map oi_id is, ba_hash = batchHash nc is, ba_through = oi_through (last is), ba_stage = stage\<rparr>"

section \<open>Enqueue\<close>

fun stream_text :: "stream_name \<Rightarrow> string" where
  "stream_text Runs = ''runs''" | "stream_text Receipts = ''receipts''" | "stream_text Lineage = ''lineage''"
| "stream_text SApprovals = ''approvals''" | "stream_text Watch = ''watch''" | "stream_text Mesh = ''mesh''"

fun profile_text :: "stream_profile \<Rightarrow> string" where
  "profile_text Metadata = ''metadata''" | "profile_text Masked = ''masked''" | "profile_text Full = ''full''"

definition projection_json :: "disclosure_projection \<Rightarrow> json" where
  "projection_json p = JObj
     [(''schema'', JStr DISCLOSURE_SCHEMA), (''profile'', JStr (profile_text (pj_profile p))),
      (''stream'', JStr (stream_text (pj_stream p))),
      (''source'', case pj_source p of None \<Rightarrow> JNull | Some v \<Rightarrow> v), (''body'', pj_body p), (''objects'', JObj (pj_objects p)),
      (''withheld'', JArr (map (\<lambda>w. JObj ((case w of None \<Rightarrow> [] | Some d \<Rightarrow> [(''digest'', JStr d)]) @
         [(''availability'', JStr WITHHELD)])) (pj_withheld p)))]"

definition redactionPolicyHash :: "node_crypto \<Rightarrow> stream_consent \<Rightarrow> string" where
  "redactionPolicyHash nc co =
     (let c = co_disclosure co in
      sha256Hex nc (encode (JObj
        [(''profile'', JStr (profile_text (co_profile co))), (''include_objects'', JBool (dc_includeObjects c)),
         (''hashes'', JBool (dc_hashes c)), (''ids'', JBool (dc_ids c)), (''existence'', JBool (dc_existence c)),
         (''personal'', JBool (dc_personalData c)), (''deletion'', JBool (dc_deletionContract c)),
         (''allowed'', JArr (map JStr (sort (dc_allowedObjects c)))),
         (''keys'', JArr (map JStr (sort (map js_lower (dc_redactKeys c))))),
         (''raw_text'', JBool (dc_includeRawText c))])))"

definition outboxItemId :: "node_crypto \<Rightarrow> stream_consent \<Rightarrow> stream_name \<Rightarrow> native_ref \<Rightarrow> string \<Rightarrow> string" where
  "outboxItemId nc co st src redaction =
     ''ob'' @ take 38 (sha256Hex nc (encode (JObj
        [(''destination'', JStr (co_destination co)), (''cohort'', JStr (co_cohort co)), (''stream'', JStr (stream_text st)),
         (''namespace'', JStr (nr_namespace src)), (''slot'', JStr (nr_object_id src)),
         (''commitment'', case nr_commitment src of None \<Rightarrow> JNull | Some c \<Rightarrow> JStr c),
         (''raw_sha256'', JStr (nr_raw_sha256 src)), (''redaction'', JStr redaction)])))"

text \<open>\<open>ea_commit\<close> is the error the caller's commit hook throws, if it throws.\<close>

record enqueue_args =
  ea_stream :: stream_name
  ea_source :: native_ref
  ea_envelope :: json
  ea_objects :: jobj
  ea_signed :: bool
  ea_personal :: bool
  ea_through :: string
  ea_run :: "string option"
  ea_commit :: "thrown option"

definition enqueue_input :: "enqueue_args \<Rightarrow> stream_consent \<Rightarrow> disclosure_input" where
  "enqueue_input a co =
     \<lparr>di_source = nr_json (ea_source a), di_envelope = ea_envelope a, di_signed = ea_signed a,
      di_objects = ea_objects a, di_personal = ea_personal a, di_consent = co_disclosure co\<rparr>"

definition enqueue_payload :: "enqueue_args \<Rightarrow> stream_consent \<Rightarrow> thrown + string" where
  "enqueue_payload a co =
     (case projectForStream (ea_stream a) (enqueue_input a co) (co_profile co) of
        Inl _ \<Rightarrow> Inl (RpcError POLICY_DENIED (Some ''stream''))
      | Inr p \<Rightarrow>
          (case canonicalJson (projection_json p) of
             Inl _ \<Rightarrow> Inl (RpcError SCHEMA_INVALID (Some ''envelope''))
           | Inr text \<Rightarrow>
               if utf8_bytes text > payloadBytes then Inl (RpcError OBJECT_LIMIT (Some ''payload'')) else Inr text))"

definition new_item :: "node_crypto \<Rightarrow> enqueue_args \<Rightarrow> stream_consent \<Rightarrow> string \<Rightarrow> int \<Rightarrow> outbox_item" where
  "new_item nc a co text now =
     (let redaction = redactionPolicyHash nc co in
      \<lparr>oi_id = outboxItemId nc co (ea_stream a) (ea_source a) redaction, oi_destination = co_destination co,
       oi_cohort = co_cohort co, oi_stream = ea_stream a, oi_source = ea_source a, oi_digest = sha256Hex nc text,
       oi_bytes = utf8_bytes text, oi_consent_revision = co_revision co, oi_redaction = redaction,
       oi_from = co_from co, oi_through = ea_through a, oi_state = ObPending, oi_attempts = 0,
       oi_next_attempt_ms = now, oi_remote_stage = None\<rparr>)"

definition admit_run :: "string option \<Rightarrow> string \<Rightarrow> sync_ports \<Rightarrow> sync_ports" where
  "admit_run run i s =
     (case run of
        None \<Rightarrow> s
      | Some r \<Rightarrow> s\<lparr>ob_runItems := aput r (case map_of (ob_runItems s) r of None \<Rightarrow> [i]
                     | Some is \<Rightarrow> if i \<in> set is then is else is @ [i]) (ob_runItems s)\<rparr>)"

definition enqueue :: "node_crypto \<Rightarrow> enqueue_args \<Rightarrow> outbox_item option sync_op" where
  "enqueue nc a =
     bindE (getsE (\<lambda>s. map_of (ob_consents s) (ea_stream a))) (\<lambda>consent.
       case consent of
         None \<Rightarrow> returnE None
       | Some co \<Rightarrow>
           if \<not> co_enabled co then returnE None
           else bindE (liftE (enqueue_payload a co)) (\<lambda>text.
                thenE (modifyE (\<lambda>s. s\<lparr>ob_objects := aput (sha256Hex nc text) text (ob_objects s)\<rparr>))
               (bindE (getsE (\<lambda>s. new_item nc a co text (ob_now s))) (\<lambda>item.
                bindE (getsE (get_item (oi_id item))) (\<lambda>existing.
                  case existing of
                    Some e \<Rightarrow> returnE (Some e)
                  | None \<Rightarrow>
                      (case ea_commit a of
                         Some e \<Rightarrow> throwE e
                       | None \<Rightarrow> thenE (modifyE (put_item item))
                           (thenE (modifyE (admit_run (ea_run a) (oi_id item))) (returnE (Some item)))))))))"

section \<open>State machine, pause and repair\<close>

definition ob_transition :: "outbox_item \<Rightarrow> outbox_state \<Rightarrow> unit sync_op" where
  "ob_transition item st =
     (if \<not> canOutboxTransition (oi_state item) st then fail STATE_TRANSITION None
      else modifyE (put_item (item\<lparr>oi_state := st\<rparr>)))"

text \<open>The item is the stored object: what is written before the transition stays if it throws.\<close>

definition store_then :: "outbox_item \<Rightarrow> outbox_state \<Rightarrow> unit sync_op" where
  "store_then item st = thenE (modifyE (put_item item)) (ob_transition item st)"

definition repair :: "string \<Rightarrow> outbox_item sync_op" where
  "repair i =
     bindE (getsE (\<lambda>s. (get_item i s, ob_now s))) (\<lambda>(item, now).
       case item of
         None \<Rightarrow> fail NOT_FOUND (Some ''id'')
       | Some it \<Rightarrow>
           if oi_state it \<noteq> ObBlocked then fail STATE_TRANSITION None
           else (let it' = it\<lparr>oi_next_attempt_ms := now\<rparr> in
                 thenE (modifyE (\<lambda>s. s\<lparr>ob_blockedCode := AList.delete i (ob_blockedCode s)\<rparr>))
                (thenE (ob_transition it' ObPending) (returnE (it'\<lparr>oi_state := ObPending\<rparr>)))))"

definition pause :: "stream_name list \<Rightarrow> sync_ports \<Rightarrow> sync_ports" where
  "pause sts s = fold (\<lambda>st. setPaused st True) sts s"

section \<open>Scheduling\<close>

definition STREAM_PRIORITY :: "stream_name list" where
  "STREAM_PRIORITY = [SApprovals, Receipts, Lineage, Runs, Watch, Mesh]"

definition sendable :: "outbox_item \<Rightarrow> sync_ports \<Rightarrow> bool" where
  "sendable it s \<longleftrightarrow> \<not> isPaused (oi_stream it) s \<and>
     (oi_state it = ObPending \<or> oi_state it = ObRetry \<and> oi_next_attempt_ms it \<le> ob_now s)"

definition ready_items :: "stream_name \<Rightarrow> sync_ports \<Rightarrow> outbox_item list" where
  "ready_items st s = filter (\<lambda>it. oi_stream it = st \<and> sendable it s) (all_items s)"

definition pickStream :: "stream_name list option \<Rightarrow> sync_ports \<Rightarrow> stream_name option" where
  "pickStream scope s =
     find (\<lambda>st. (case scope of None \<Rightarrow> True | Some sts \<Rightarrow> st \<in> set sts) \<and> st \<notin> set (map sd_stream (ob_sends s)) \<and>
        \<not> isPaused st s \<and> ready_items st s \<noteq> []) STREAM_PRIORITY"

fun fill_batch :: "nat \<Rightarrow> string list \<Rightarrow> outbox_item list \<Rightarrow> string list" where
  "fill_batch bytes ms [] = ms"
| "fill_batch bytes ms (it # is) =
     (if ms \<noteq> [] \<and> bytes + oi_bytes it \<ge> batchBytes then ms
      else fill_batch (bytes + oi_bytes it) (ms @ [oi_id it]) is)"

text \<open>
  The group of the batch hash that comes first among the ready items, else a fresh batch.
\<close>

definition nextBatchMembers :: "stream_name \<Rightarrow> sync_ports \<Rightarrow> string list" where
  "nextBatchMembers st s =
     (let ready = ready_items st s; prior = (\<lambda>it. map_of (ob_itemBatch s) (oi_id it)) in
      case find (\<lambda>it. prior it \<noteq> None) ready of
        Some first \<Rightarrow> map oi_id (filter (\<lambda>it. prior it = prior first) ready)
      | None \<Rightarrow> fill_batch 0 [] (take batchEvents ready))"

section \<open>Sends\<close>

definition members_of :: "string list \<Rightarrow> sync_ports \<Rightarrow> outbox_item list" where
  "members_of ids s = List.map_filter (\<lambda>i. get_item i s) ids"

definition block_item :: "error_code \<Rightarrow> string \<Rightarrow> unit sync_op" where
  "block_item c i =
     (\<lambda>s. case get_item i s of
        None \<Rightarrow> (Inr (), s)
      | Some it \<Rightarrow> ob_transition it ObBlocked (s\<lparr>ob_blockedCode := aput i c (ob_blockedCode s)\<rparr>))"

definition move_item :: "outbox_state \<Rightarrow> string \<Rightarrow> unit sync_op" where
  "move_item st i = (\<lambda>s. case get_item i s of None \<Rightarrow> (Inr (), s) | Some it \<Rightarrow> ob_transition it st s)"

text \<open>Journal of the batch before it is sent: \<open>IN_FLIGHT\<close>, one attempt more.\<close>

definition journal_item :: "outbox_batch \<Rightarrow> string \<Rightarrow> unit sync_op" where
  "journal_item b i =
     (\<lambda>s. case get_item i s of
        None \<Rightarrow> (Inr (), s)
      | Some it \<Rightarrow> store_then (it\<lparr>oi_remote_stage := ba_stage b, oi_attempts := oi_attempts it + 1\<rparr>) ObInFlight
                     (s\<lparr>ob_itemBatch := aput i (ba_hash b) (ob_itemBatch s)\<rparr>))"

definition journal_batch :: "string list \<Rightarrow> outbox_batch \<Rightarrow> unit sync_op" where
  "journal_batch members b =
     thenE (modifyE (\<lambda>s. s\<lparr>ob_batchMembers := aput (ba_hash b) members (ob_batchMembers s)\<rparr>))
       (mapE (journal_item b) (ba_items b))"

text \<open>
  The synchronous part of \<open>runSend\<close>: up to \<open>sink.prepare\<close> when the sink has one (\<open>True\<close> in
  \<open>ob_sinks\<close>), else up to \<open>sink.send\<close>; the phase in which it stops.
\<close>

definition run_send :: "node_crypto \<Rightarrow> string list \<Rightarrow> sync_ports \<Rightarrow> send_phase \<times> sync_ports" where
  "run_send nc members s =
     (let is = filter (\<lambda>it. oi_state it = ObPending \<or> oi_state it = ObRetry) (members_of members s) in
      if is = [] then (Finished, s)
      else (let b = outboxBatch nc is (oi_remote_stage (hd is)) in
            case map_of (ob_sinks s) (ba_destination b) of
              None \<Rightarrow> (Finished, snd (mapE (block_item CAP_ADAPTER_UNAVAILABLE) (ba_items b) s))
            | Some has_prepare \<Rightarrow>
                if has_prepare then (Preparing b, s)
                else (case journal_batch members b s of
                        (Inl _, t) \<Rightarrow> (Finished, t) | (Inr _, t) \<Rightarrow> (Sending b, t))))"

definition startSend :: "node_crypto \<Rightarrow> stream_name \<Rightarrow> sync_ports \<Rightarrow> sync_ports" where
  "startSend nc st s =
     (let members = nextBatchMembers st s in
      if members = [] then s
      else (case run_send nc members s of
              (ph, t) \<Rightarrow> t\<lparr>ob_sends := ob_sends t @ [\<lparr>sd_stream = st, sd_members = members, sd_phase = ph\<rparr>]\<rparr>))"

fun pump_loop :: "node_crypto \<Rightarrow> stream_name list option \<Rightarrow> nat \<Rightarrow> sync_ports \<Rightarrow> sync_ports" where
  "pump_loop nc scope 0 s = s"
| "pump_loop nc scope (Suc n) s =
     (if length (ob_sends s) < globalSenders then
        (case pickStream scope s of None \<Rightarrow> s | Some st \<Rightarrow> pump_loop nc scope n (startSend nc st s))
      else s)"

text \<open>The fuel is enough: each turn but the last adds a send, see \<open>pump_ends\<close>.\<close>

definition pump :: "node_crypto \<Rightarrow> stream_name list option \<Rightarrow> sync_ports \<Rightarrow> sync_ports" where
  "pump nc scope s = pump_loop nc scope (Suc globalSenders) s"

definition resume :: "node_crypto \<Rightarrow> stream_name list \<Rightarrow> sync_ports \<Rightarrow> sync_ports" where
  "resume nc sts s =
     pump nc None (fold (\<lambda>st t. case map_of (ob_consents t) st of
        None \<Rightarrow> t | Some c \<Rightarrow> if co_enabled c then setPaused st False t else t) sts s)"

section \<open>The sink's answers\<close>

datatype sink_answer =
    SinkAck bool bool bool string
  | SinkFailure error_code bool "nat option"
  | OtherFailure

text \<open>
  \<open>SinkAck valid conflicts stored through\<close>: \<open>valid\<close> is the verdict of \<open>validateAck\<close>.  The jitter
  draws a number of \<open>[0, 1)\<close>.
\<close>

definition jitter :: "(nat \<Rightarrow> rat) \<Rightarrow> nat \<Rightarrow> nat \<Rightarrow> nat" where
  "jitter rnd n attempts = nat \<lfloor>rnd n * of_nat (backoffCap (attempts - 1) + 1)\<rfloor>"

definition retry_item :: "(nat \<Rightarrow> rat) \<Rightarrow> nat option \<Rightarrow> string \<Rightarrow> unit sync_op" where
  "retry_item rnd after i =
     (\<lambda>s. case get_item i s of
        None \<Rightarrow> (Inr (), s)
      | Some it \<Rightarrow>
          (let j = jitter rnd (ob_drawn s) (oi_attempts it);
               delay = (case after of None \<Rightarrow> j | Some r \<Rightarrow> max j (min r backoffCapMs)) in
           store_then (it\<lparr>oi_next_attempt_ms := ob_now s + int delay\<rparr>) ObRetry (s\<lparr>ob_drawn := ob_drawn s + 1\<rparr>)))"

definition retryAll :: "(nat \<Rightarrow> rat) \<Rightarrow> nat option \<Rightarrow> string list \<Rightarrow> unit sync_op" where
  "retryAll rnd after ids = mapE (retry_item rnd after) ids"

text \<open>The body of the \<open>try\<close> after the send, with the errors it throws.\<close>

definition settle_ack :: "(nat \<Rightarrow> rat) \<Rightarrow> outbox_batch \<Rightarrow> bool \<Rightarrow> bool \<Rightarrow> bool \<Rightarrow> string \<Rightarrow> unit sync_op" where
  "settle_ack rnd b valid conflicts stored through =
     (if conflicts then mapE (block_item OBJECT_CONFLICT) (ba_items b)
      else if stored then
        thenE (mapE (move_item ObAcked) (ba_items b))
          (modifyE (\<lambda>s. s\<lparr>ob_through := aput (ba_stream b) through (ob_through s)\<rparr>))
      else retryAll rnd None (ba_items b))"

definition settle :: "(nat \<Rightarrow> rat) \<Rightarrow> outbox_batch \<Rightarrow> sink_answer \<Rightarrow> sync_ports \<Rightarrow> sync_ports" where
  "settle rnd b ans s =
     (case ans of
        SinkAck valid conflicts stored through \<Rightarrow>
          if \<not> valid then snd (retryAll rnd None (ba_items b) s)
          else (case settle_ack rnd b valid conflicts stored through s of
                  (Inr _, t) \<Rightarrow> t | (Inl _, t) \<Rightarrow> snd (retryAll rnd None (ba_items b) t))
      | SinkFailure c retryable after \<Rightarrow>
          if retryable then snd (retryAll rnd after (ba_items b) s) else snd (mapE (block_item c) (ba_items b) s)
      | OtherFailure \<Rightarrow> snd (retryAll rnd None (ba_items b) s))"

section \<open>Steps\<close>

text \<open>The phase of the send of a stream, and the send's continuations.\<close>

definition phase_of :: "stream_name \<Rightarrow> sync_ports \<Rightarrow> (string list \<times> send_phase) option" where
  "phase_of st s = map_of (map (\<lambda>sd. (sd_stream sd, sd_members sd, sd_phase sd)) (ob_sends s)) st"

definition set_phase :: "stream_name \<Rightarrow> send_phase \<Rightarrow> sync_ports \<Rightarrow> sync_ports" where
  "set_phase st ph s = s\<lparr>ob_sends := map (\<lambda>sd. if sd_stream sd = st then sd\<lparr>sd_phase := ph\<rparr> else sd) (ob_sends s)\<rparr>"

definition prepared :: "stream_name \<Rightarrow> string option \<Rightarrow> sync_ports \<Rightarrow> sync_ports" where
  "prepared st stage s =
     (case phase_of st s of
        Some (members, Preparing b) \<Rightarrow>
          (let b' = b\<lparr>ba_stage := (case stage of None \<Rightarrow> ba_stage b | Some x \<Rightarrow> Some x)\<rparr> in
           case journal_batch members b' s of
             (Inl _, t) \<Rightarrow> set_phase st Finished t
           | (Inr _, t) \<Rightarrow> set_phase st (Sending b') t)
      | _ \<Rightarrow> s)"

definition prepare_failed :: "stream_name \<Rightarrow> sync_ports \<Rightarrow> sync_ports" where
  "prepare_failed st s = (case phase_of st s of Some (_, Preparing b) \<Rightarrow> set_phase st Finished s | _ \<Rightarrow> s)"

definition answered :: "(nat \<Rightarrow> rat) \<Rightarrow> stream_name \<Rightarrow> sink_answer \<Rightarrow> sync_ports \<Rightarrow> sync_ports" where
  "answered rnd st ans s =
     (case phase_of st s of Some (_, Sending b) \<Rightarrow> set_phase st Finished (settle rnd b ans s) | _ \<Rightarrow> s)"

definition finished :: "stream_name \<Rightarrow> sync_ports \<Rightarrow> sync_ports" where
  "finished st s =
     (case phase_of st s of
        Some (_, Finished) \<Rightarrow> s\<lparr>ob_sends := filter (\<lambda>sd. sd_stream sd \<noteq> st) (ob_sends s)\<rparr> | _ \<Rightarrow> s)"

datatype sync_call =
    ObEnqueue enqueue_args
  | ObRepair string
  | ObPause "stream_name list"
  | ObResume "stream_name list"
  | ObPump "stream_name list option"
  | ObPrepared stream_name "string option"
  | ObPrepareFailed stream_name
  | ObAnswered stream_name sink_answer
  | ObFinished stream_name
  | ObConsent stream_name stream_consent
  | ObSink string bool
  | ObAdvance int

text \<open>\<open>nc\<close> and \<open>rnd\<close> are the digest and the random source of the ports.\<close>

fun sync_step :: "node_crypto \<Rightarrow> (nat \<Rightarrow> rat) \<Rightarrow> sync_call \<Rightarrow> sync_ports \<Rightarrow> sync_ports" where
  "sync_step nc rnd (ObEnqueue a) s = snd (enqueue nc a s)"
| "sync_step nc rnd (ObRepair i) s = snd (repair i s)"
| "sync_step nc rnd (ObPause sts) s = pause sts s"
| "sync_step nc rnd (ObResume sts) s = resume nc sts s"
| "sync_step nc rnd (ObPump scope) s = pump nc scope s"
| "sync_step nc rnd (ObPrepared st stage) s = prepared st stage s"
| "sync_step nc rnd (ObPrepareFailed st) s = prepare_failed st s"
| "sync_step nc rnd (ObAnswered st ans) s = answered rnd st ans s"
| "sync_step nc rnd (ObFinished st) s = finished st s"
| "sync_step nc rnd (ObConsent st c) s = s\<lparr>ob_consents := aput st c (ob_consents s)\<rparr>"
| "sync_step nc rnd (ObSink d prep) s = s\<lparr>ob_sinks := aput d prep (ob_sinks s)\<rparr>"
| "sync_step nc rnd (ObAdvance ms) s = s\<lparr>ob_now := ob_now s + ms\<rparr>"

definition sync_steps :: "node_crypto \<Rightarrow> (nat \<Rightarrow> rat) \<Rightarrow> sync_call list \<Rightarrow> sync_ports \<Rightarrow> sync_ports" where
  "sync_steps nc rnd calls s = fold (sync_step nc rnd) calls s"

section \<open>Status\<close>

definition failOnSyncStatus :: "string option \<Rightarrow> sync_ports \<Rightarrow> bool \<times> bool" where
  "failOnSyncStatus run s =
     (let is = (case run of None \<Rightarrow> all_items s
                | Some r \<Rightarrow> members_of (case map_of (ob_runItems s) r of None \<Rightarrow> [] | Some ids \<Rightarrow> ids) s);
          outstanding = filter (\<lambda>it. oi_state it \<noteq> ObAcked) is;
          unknown = (\<not> ob_daemonKnown s \<and> is \<noteq> [] \<or> list_ex (\<lambda>it. oi_state it = ObInFlight) outstanding) in
      (outstanding = [] \<and> \<not> unknown, unknown))"

record stream_counts =
  sn_pending :: nat
  sn_in_flight :: nat
  sn_blocked :: nat
  sn_acked :: nat

definition counts :: "stream_name \<Rightarrow> sync_ports \<Rightarrow> stream_counts" where
  "counts st s =
     (let is = filter (\<lambda>it. oi_stream it = st) (all_items s);
          n = (\<lambda>p. length (filter (\<lambda>it. p (oi_state it)) is)) in
      \<lparr>sn_pending = n (\<lambda>x. x \<in> {ObPending, ObRetry}), sn_in_flight = n (\<lambda>x. x = ObInFlight),
       sn_blocked = n (\<lambda>x. x = ObBlocked), sn_acked = n (\<lambda>x. x = ObAcked)\<rparr>)"

end
