(* ===== verification/Sync_Outbox_Facts.thy ===== *)
theory Sync_Outbox_Facts
  imports Sync_Outbox
begin

text \<open>
  What the outbox engine guarantees: the sends in flight, the state of the items they carry,
  the life of one item, and two batches the engine forms that its documentation excludes.
\<close>

section \<open>Rows\<close>

lemma get_put_item [simp]: "get_item k (put_item r s) = (if k = oi_id r then Some r else get_item k s)"
  by (rule items.get_put)

lemma put_item_frames [simp]:
  "ob_sends (put_item r s) = ob_sends s" "ob_now (put_item r s) = ob_now s" "ob_itemBatch (put_item r s) = ob_itemBatch s"
  "ob_sinks (put_item r s) = ob_sinks s" "ob_consents (put_item r s) = ob_consents s" "ob_paused (put_item r s) = ob_paused s"
  by (simp_all add: put_item_def)

lemma get_item_frames [simp]:
  "get_item k (s\<lparr>ob_itemBatch := a\<rparr>) = get_item k s" "get_item k (s\<lparr>ob_blockedCode := b\<rparr>) = get_item k s"
  "get_item k (s\<lparr>ob_drawn := n\<rparr>) = get_item k s" "get_item k (s\<lparr>ob_batchMembers := m\<rparr>) = get_item k s"
  "get_item k (s\<lparr>ob_sends := x\<rparr>) = get_item k s" "get_item k (s\<lparr>ob_through := y\<rparr>) = get_item k s"
  "get_item k (s\<lparr>ob_objects := z\<rparr>) = get_item k s" "get_item k (s\<lparr>ob_runItems := w\<rparr>) = get_item k s"
  "get_item k (s\<lparr>ob_consents := u\<rparr>) = get_item k s" "get_item k (s\<lparr>ob_sinks := v\<rparr>) = get_item k s"
  "get_item k (s\<lparr>ob_now := t\<rparr>) = get_item k s" "get_item k (s\<lparr>ob_paused := q\<rparr>) = get_item k s"
  by (simp_all add: get_item_def)

lemma items_ok_frames [simp]:
  "items_ok (s\<lparr>ob_itemBatch := a\<rparr>) = items_ok s" "items_ok (s\<lparr>ob_blockedCode := b\<rparr>) = items_ok s"
  "items_ok (s\<lparr>ob_drawn := n\<rparr>) = items_ok s" "items_ok (s\<lparr>ob_batchMembers := m\<rparr>) = items_ok s"
  "items_ok (s\<lparr>ob_sends := x\<rparr>) = items_ok s" "items_ok (s\<lparr>ob_through := y\<rparr>) = items_ok s"
  "items_ok (s\<lparr>ob_objects := z\<rparr>) = items_ok s" "items_ok (s\<lparr>ob_runItems := w\<rparr>) = items_ok s"
  "items_ok (s\<lparr>ob_consents := u\<rparr>) = items_ok s" "items_ok (s\<lparr>ob_sinks := v\<rparr>) = items_ok s"
  "items_ok (s\<lparr>ob_now := t\<rparr>) = items_ok s" "items_ok (s\<lparr>ob_paused := q\<rparr>) = items_ok s"
  by (simp_all add: items_ok_def)

text \<open>What the engine never changes of an item.\<close>

definition core :: "outbox_item \<Rightarrow> outbox_item" where
  "core it = it\<lparr>oi_state := ObPending, oi_attempts := 0, oi_next_attempt_ms := 0, oi_remote_stage := None\<rparr>"

lemma core_id: "core a = core b \<Longrightarrow> oi_id a = oi_id b \<and> oi_stream a = oi_stream b"
  by (cases a; cases b) (simp add: core_def)

text \<open>One item moved to a state along an edge, everything else as it was.\<close>

definition moved :: "outbox_state \<Rightarrow> string \<Rightarrow> sync_ports \<Rightarrow> sync_ports \<Rightarrow> bool" where
  "moved st i s t \<longleftrightarrow> items_ok t \<and> ob_sends t = ob_sends s \<and> (\<forall>k. k \<noteq> i \<longrightarrow> get_item k t = get_item k s) \<and>
     (\<exists>a b. get_item i s = Some a \<and> get_item i t = Some b \<and> canOutboxTransition (oi_state a) st \<and>
        oi_state b = st \<and> core b = core a)"

definition mover :: "outbox_state \<Rightarrow> (string \<Rightarrow> unit sync_op) \<Rightarrow> bool" where
  "mover st f \<longleftrightarrow> (\<forall>i s it. items_ok s \<and> get_item i s = Some it \<and> canOutboxTransition (oi_state it) st \<longrightarrow>
     (\<exists>t. f i s = (Inr (), t) \<and> moved st i s t))"

lemma item_key: "items_ok s \<Longrightarrow> get_item i s = Some it \<Longrightarrow> oi_id it = i"
  by (rule items.get_key)

lemma put_ok [simp]: "items_ok s \<Longrightarrow> items_ok (put_item r s)"
  by (rule items.ok_put)

lemma movers:
  "mover ObBlocked (block_item c)" "mover st (move_item st)" "mover ObInFlight (journal_item b)"
  "mover ObRetry (retry_item rnd after)"
  unfolding mover_def moved_def
  by (auto simp: block_item_def move_item_def journal_item_def retry_item_def store_then_def ob_transition_def op_simps
      Let_def core_def dest: item_key)

text \<open>A loop of moves over different items.\<close>

definition moved_all :: "outbox_state \<Rightarrow> string list \<Rightarrow> sync_ports \<Rightarrow> sync_ports \<Rightarrow> bool" where
  "moved_all st ids s t \<longleftrightarrow> items_ok t \<and> ob_sends t = ob_sends s \<and> (\<forall>k. k \<notin> set ids \<longrightarrow> get_item k t = get_item k s) \<and>
     (\<forall>i\<in>set ids. \<exists>a b. get_item i s = Some a \<and> get_item i t = Some b \<and> canOutboxTransition (oi_state a) st \<and>
        oi_state b = st \<and> core b = core a)"

definition movable :: "outbox_state \<Rightarrow> string list \<Rightarrow> sync_ports \<Rightarrow> bool" where
  "movable st ids s \<longleftrightarrow> distinct ids \<and> (\<forall>i\<in>set ids. \<exists>it. get_item i s = Some it \<and> canOutboxTransition (oi_state it) st)"

lemma move_all:
  assumes "mover st f" "items_ok s" "movable st ids s"
  shows "\<exists>t. mapE f ids s = (Inr (), t) \<and> moved_all st ids s t"
  using assms(2,3)
proof (induction ids arbitrary: s)
  case Nil
  then show ?case by (simp add: op_simps moved_all_def)
next
  case (Cons i ids)
  then obtain it where it: "get_item i s = Some it" "canOutboxTransition (oi_state it) st" "i \<notin> set ids" "movable st ids s"
    by (auto simp: movable_def)
  then obtain t where t: "f i s = (Inr (), t)" "moved st i s t"
    using assms(1) Cons.prems(1) unfolding mover_def by blast
  have "get_item k t = get_item k s" if "k \<in> set ids" for k
    using t(2) it(3) that unfolding moved_def by metis
  then have "movable st ids t" using it(4) by (simp add: movable_def)
  then obtain u where u: "mapE f ids t = (Inr (), u)" "moved_all st ids t u"
    using Cons.IH t(2) unfolding moved_def by blast
  have "moved_all st (i # ids) s u"
    using t(2) u(2) it(3) unfolding moved_all_def moved_def by (auto; metis)
  then show ?case using t(1) u(1) by (simp add: op_simps)
qed

section \<open>The invariant of the sends\<close>

definition on_stream :: "stream_name \<Rightarrow> string list \<Rightarrow> sync_ports \<Rightarrow> bool" where
  "on_stream st ids s \<longleftrightarrow> distinct ids \<and> (\<forall>i\<in>set ids. \<exists>it. get_item i s = Some it \<and> oi_stream it = st)"

definition in_states :: "outbox_state set \<Rightarrow> string list \<Rightarrow> sync_ports \<Rightarrow> bool" where
  "in_states sts ids s \<longleftrightarrow> (\<forall>i\<in>set ids. \<exists>it. get_item i s = Some it \<and> oi_state it \<in> sts)"

definition phase_ok :: "sync_ports \<Rightarrow> send_record \<Rightarrow> bool" where
  "phase_ok s sd \<longleftrightarrow>
     (case sd_phase sd of
        Preparing b \<Rightarrow> on_stream (sd_stream sd) (ba_items b) s \<and> in_states {ObPending, ObRetry} (ba_items b) s
      | Sending b \<Rightarrow> on_stream (sd_stream sd) (ba_items b) s \<and> in_states {ObInFlight} (ba_items b) s
      | Finished \<Rightarrow> True)"

definition carried :: "string \<Rightarrow> send_record list \<Rightarrow> bool" where
  "carried i sds \<longleftrightarrow> (\<exists>sd\<in>set sds. \<exists>b. sd_phase sd = Sending b \<and> i \<in> set (ba_items b))"

definition sends_inv :: "sync_ports \<Rightarrow> bool" where
  "sends_inv s \<longleftrightarrow> items_ok s \<and> length (ob_sends s) \<le> globalSenders \<and> distinct (map sd_stream (ob_sends s)) \<and>
     (\<forall>sd\<in>set (ob_sends s). phase_ok s sd) \<and>
     (\<forall>i it. get_item i s = Some it \<and> oi_state it = ObInFlight \<longrightarrow> carried i (ob_sends s))"

abbreviation ob_path :: "outbox_state \<Rightarrow> outbox_state \<Rightarrow> bool" where
  "ob_path \<equiv> (\<lambda>a b. b \<in> set (OUTBOX_TRANSITIONS a))\<^sup>*\<^sup>*"

interpretation outbox_graph: lifecycle OUTBOX_TRANSITIONS "\<lambda>st. st = ObAcked"
  by unfold_locales (rename_tac st, case_tac st, simp_all)

definition item_le :: "outbox_item \<Rightarrow> outbox_item \<Rightarrow> bool" where
  "item_le a b \<longleftrightarrow> core b = core a \<and> ob_path (oi_state a) (oi_state b)"

definition items_advance :: "sync_ports \<Rightarrow> sync_ports \<Rightarrow> bool" where
  "items_advance s t \<longleftrightarrow> (\<forall>k a. get_item k s = Some a \<longrightarrow> (\<exists>b. get_item k t = Some b \<and> item_le a b))"

definition sync_sound :: "sync_ports \<Rightarrow> sync_ports \<Rightarrow> bool" where
  "sync_sound s t \<longleftrightarrow> sends_inv t \<and> items_advance s t"

lemma item_le_refl [simp]: "item_le a a"
  by (simp add: item_le_def)

lemma item_le_step: "core b = core a \<Longrightarrow> canOutboxTransition (oi_state a) (oi_state b) \<Longrightarrow> item_le a b"
  by (simp add: item_le_def canOutboxTransition_def r_into_rtranclp)

lemma items_advance_refl [simp]: "items_advance s s"
  by (simp add: items_advance_def)

lemma items_advance_trans: "items_advance s t \<Longrightarrow> items_advance t u \<Longrightarrow> items_advance s u"
  unfolding items_advance_def item_le_def by (metis rtranclp_trans)

lemma sync_sound_refl [simp]: "sends_inv s \<Longrightarrow> sync_sound s s"
  by (simp add: sync_sound_def)

lemma sync_sound_trans: "sync_sound s t \<Longrightarrow> (sends_inv t \<Longrightarrow> sync_sound t u) \<Longrightarrow> sync_sound s u"
  unfolding sync_sound_def using items_advance_trans by blast

lemma moved_all_advance: "moved_all st ids s t \<Longrightarrow> items_advance s t"
  unfolding items_advance_def
proof (intro allI impI)
  fix k a assume m: "moved_all st ids s t" "get_item k s = Some a"
  show "\<exists>b. get_item k t = Some b \<and> item_le a b"
  proof (cases "k \<in> set ids")
    case True
    then obtain b where "get_item k t = Some b" "canOutboxTransition (oi_state a) (oi_state b)" "core b = core a"
      using m unfolding moved_all_def by fastforce
    then show ?thesis using item_le_step by blast
  next
    case False
    then show ?thesis using m by (simp add: moved_all_def)
  qed
qed

lemma sends_invD:
  assumes "sends_inv s"
  shows "items_ok s" "length (ob_sends s) \<le> globalSenders" "distinct (map sd_stream (ob_sends s))"
    "sd \<in> set (ob_sends s) \<Longrightarrow> phase_ok s sd"
    "get_item i s = Some it \<Longrightarrow> oi_state it = ObInFlight \<Longrightarrow> carried i (ob_sends s)"
  using assms by (auto simp: sends_inv_def)

text \<open>A change of other items leaves a send as it is.\<close>

lemma phase_ok_same:
  assumes "phase_ok s sd" "\<And>k it. get_item k s = Some it \<Longrightarrow> oi_stream it = sd_stream sd \<Longrightarrow> get_item k t = Some it"
  shows "phase_ok t sd"
proof -
  have "on_stream (sd_stream sd) ids t" if "on_stream (sd_stream sd) ids s" for ids
    using that assms(2) unfolding on_stream_def by blast
  moreover have "in_states sts ids t" if "on_stream (sd_stream sd) ids s" "in_states sts ids s" for sts ids
    using that assms(2) unfolding on_stream_def in_states_def by fastforce
  ultimately show ?thesis using assms(1) by (auto simp: phase_ok_def split: send_phase.splits)
qed

lemma sync_quiet:
  assumes "sends_inv s" "ob_items t = ob_items s" "ob_sends t = ob_sends s"
  shows "sync_sound s t"
proof -
  have get: "get_item k t = get_item k s" for k using assms(2) by (simp add: get_item_def)
  have "items_ok t" using sends_invD(1) [OF assms(1)] assms(2) by (simp add: items_ok_def)
  moreover have "phase_ok t sd" if "sd \<in> set (ob_sends s)" for sd
    using sends_invD(4) [OF assms(1) that] by (rule phase_ok_same) (simp add: get)
  ultimately show ?thesis
    using sends_invD(2,3,5) [OF assms(1)] assms(3) by (auto simp: sync_sound_def sends_inv_def items_advance_def get)
qed

text \<open>A new item, or one that no send carries, changed among the states at rest.\<close>

lemma sync_put:
  assumes "sends_inv s" "oi_state b \<noteq> ObInFlight"
    "\<And>a. get_item (oi_id b) s = Some a \<Longrightarrow> oi_state a = ObBlocked \<and> item_le a b"
  shows "sync_sound s (put_item b s)"
proof -
  have ph: "phase_ok (put_item b s) sd" if "sd \<in> set (ob_sends s)" for sd
  proof -
    have p: "phase_ok s sd" using sends_invD(4) [OF assms(1) that] .
    have keep: "get_item i (put_item b s) = get_item i s" if "in_states sts ids s" "ObBlocked \<notin> sts" "i \<in> set ids" for sts ids i
      using that assms(3) unfolding in_states_def by fastforce
    have "on_stream st ids (put_item b s)" if "on_stream st ids s" "in_states sts ids s" "ObBlocked \<notin> sts" for st sts ids
      using that(1) keep [OF that(2,3)] unfolding on_stream_def by metis
    moreover have "in_states sts ids (put_item b s)" if "in_states sts ids s" "ObBlocked \<notin> sts" for sts ids
      using that keep [OF that] unfolding in_states_def by metis
    ultimately show ?thesis using p by (auto simp: phase_ok_def split: send_phase.splits)
  qed
  have "items_advance s (put_item b s)"
    using assms(3) by (auto simp: items_advance_def)
  then show ?thesis
    using ph sends_invD(1-3,5) [OF assms(1)] assms(2) by (auto simp: sync_sound_def sends_inv_def split: if_splits)
qed

text \<open>The send of one stream moves items of that stream and changes its phase.\<close>

lemma sync_move:
  assumes "sends_inv s" "moved_all st ids s t" "on_stream X ids s"
    "length sds \<le> globalSenders" "distinct (map sd_stream sds)"
    "\<And>sd. sd \<in> set sds \<Longrightarrow> sd_stream sd \<noteq> X \<Longrightarrow> sd \<in> set (ob_sends s)"
    "\<And>sd. sd \<in> set sds \<Longrightarrow> sd_stream sd = X \<Longrightarrow> phase_ok t sd"
    "\<And>i. i \<notin> set ids \<Longrightarrow> carried i (ob_sends s) \<Longrightarrow> carried i sds"
    "\<And>i. st = ObInFlight \<Longrightarrow> i \<in> set ids \<Longrightarrow> carried i sds"
  shows "sync_sound s (t\<lparr>ob_sends := sds\<rparr>)"
proof -
  let ?u = "t\<lparr>ob_sends := sds\<rparr>"
  have same: "get_item k t = get_item k s" if "k \<notin> set ids" for k using assms(2) that by (simp add: moved_all_def)
  have ph: "phase_ok ?u sd" if "sd \<in> set sds" for sd
  proof (cases "sd_stream sd = X")
    case True
    have "phase_ok t sd" using assms(7) that True .
    then show ?thesis by (rule phase_ok_same) simp
  next
    case False
    have "phase_ok s sd" using sends_invD(4) [OF assms(1) assms(6) [OF that False]] .
    then show ?thesis
    proof (rule phase_ok_same)
      fix k it assume k: "get_item k s = Some it" "oi_stream it = sd_stream sd"
      then have "k \<notin> set ids" using assms(3) False unfolding on_stream_def by fastforce
      then show "get_item k ?u = Some it" using same k(1) by simp
    qed
  qed
  have fl: "carried i sds" if "get_item i t = Some it" "oi_state it = ObInFlight" for i it
  proof (cases "i \<in> set ids")
    case True
    then have "st = ObInFlight" using assms(2) that unfolding moved_all_def by fastforce
    then show ?thesis using assms(9) True by blast
  next
    case False
    then have "carried i (ob_sends s)" using sends_invD(5) [OF assms(1)] same that by simp
    then show ?thesis using assms(8) False by blast
  qed
  have "items_ok t" using assms(2) by (simp add: moved_all_def)
  moreover have "items_advance s ?u"
    using moved_all_advance [OF assms(2)] by (simp add: items_advance_def)
  ultimately show ?thesis using ph fl assms(4,5) by (auto simp: sync_sound_def sends_inv_def)
qed

lemma moved_none: "items_ok s \<Longrightarrow> moved_all st [] s s"
  by (simp add: moved_all_def)

lemma moved_all_phase:
  assumes "moved_all st ids s t" "on_stream X ids s"
  shows "on_stream X ids t" "in_states {st} ids t"
proof -
  show "in_states {st} ids t" using assms(1) unfolding moved_all_def in_states_def by fastforce
  show "on_stream X ids t" unfolding on_stream_def
  proof (intro conjI ballI)
    show "distinct ids" using assms(2) by (simp add: on_stream_def)
    fix i assume i: "i \<in> set ids"
    then obtain a b where ab: "get_item i s = Some a" "get_item i t = Some b" "core b = core a"
      using assms(1) unfolding moved_all_def by blast
    have "oi_stream a = X" using assms(2) i ab(1) by (auto simp: on_stream_def)
    then show "\<exists>it. get_item i t = Some it \<and> oi_stream it = X" using ab(2) core_id [OF ab(3)] by simp
  qed
qed

section \<open>Starting a send\<close>

lemma fill_batch_take: "\<exists>k. fill_batch n ms is = ms @ map oi_id (take k is)"
proof (induction "is" arbitrary: n ms)
  case (Cons i "is")
  show ?case
  proof (cases "ms \<noteq> [] \<and> n + oi_bytes i \<ge> batchBytes")
    case True
    then show ?thesis by (intro exI [of _ 0]) auto
  next
    case False
    obtain k where "fill_batch (n + oi_bytes i) (ms @ [oi_id i]) is = (ms @ [oi_id i]) @ map oi_id (take k is)"
      using Cons by blast
    then show ?thesis using False by (intro exI [of _ "Suc k"]) auto
  qed
qed simp

lemma next_members:
  assumes "items_ok s"
  shows "on_stream st (nextBatchMembers st s) s" "in_states {ObPending, ObRetry} (nextBatchMembers st s) s"
proof -
  have "\<exists>xs. nextBatchMembers st s = map oi_id xs \<and> set xs \<subseteq> set (ready_items st s) \<and> distinct (map oi_id xs)"
  proof -
    have d: "distinct (map oi_id (ready_items st s))"
      unfolding ready_items_def using items.rows_distinct [OF assms] by (rule distinct_map_filter)
    show ?thesis
    proof (cases "find (\<lambda>it. map_of (ob_itemBatch s) (oi_id it) \<noteq> None) (ready_items st s)")
      case None
      obtain k where "fill_batch 0 [] (take batchEvents (ready_items st s)) = map oi_id (take k (take batchEvents (ready_items st s)))"
        using fill_batch_take [of 0 "[]" "take batchEvents (ready_items st s)"] by (metis append_Nil)
      then show ?thesis using None d
        by (intro exI [of _ "take k (take batchEvents (ready_items st s))"])
          (auto simp: nextBatchMembers_def Let_def take_map [symmetric] dest!: in_set_takeD)
    next
      case (Some x)
      then show ?thesis using d
        by (intro exI [of _ "filter (\<lambda>it. map_of (ob_itemBatch s) (oi_id it) = map_of (ob_itemBatch s) (oi_id x)) (ready_items st s)"])
          (auto simp: nextBatchMembers_def Let_def intro: distinct_map_filter)
    qed
  qed
  then obtain xs where xs: "nextBatchMembers st s = map oi_id xs" "set xs \<subseteq> set (ready_items st s)" "distinct (map oi_id xs)"
    by blast
  have row: "get_item (oi_id x) s = Some x \<and> oi_stream x = st \<and> oi_state x \<in> {ObPending, ObRetry}" if "x \<in> set xs" for x
    using xs(2) that items.rows_get [OF assms] by (auto simp: ready_items_def sendable_def)
  show "on_stream st (nextBatchMembers st s) s" using xs(1,3) row by (fastforce simp: on_stream_def)
  show "in_states {ObPending, ObRetry} (nextBatchMembers st s) s" using xs(1) row by (fastforce simp: in_states_def)
qed

lemma sub_phase:
  "on_stream X ids s \<Longrightarrow> distinct js \<Longrightarrow> set js \<subseteq> set ids \<Longrightarrow> on_stream X js s"
  "in_states sts ids s \<Longrightarrow> set js \<subseteq> set ids \<Longrightarrow> in_states sts js s"
  by (auto simp: on_stream_def in_states_def)

text \<open>The items of a send are its members: each is still to be sent.\<close>

lemma sent_ids:
  assumes "on_stream X ms s" "items_ok s"
  shows "distinct (map oi_id (filter P (members_of ms s)))" "set (map oi_id (filter P (members_of ms s))) \<subseteq> set ms"
proof -
  have "map oi_id (members_of ms s) = ms"
    using assms unfolding on_stream_def members_of_def
    by (induction ms) (auto simp: List.map_filter_simps dest: item_key)
  moreover have "distinct ms" using assms(1) by (simp add: on_stream_def)
  ultimately show "distinct (map oi_id (filter P (members_of ms s)))" by (metis distinct_map_filter)
  have "set (map oi_id (filter P (members_of ms s))) \<subseteq> set (map oi_id (members_of ms s))" by auto
  then show "set (map oi_id (filter P (members_of ms s))) \<subseteq> set ms"
    using \<open>map oi_id (members_of ms s) = ms\<close> by simp
qed

lemma movable_rest:
  "on_stream X ids s \<Longrightarrow> in_states {ObPending, ObRetry} ids s \<Longrightarrow> st \<in> {ObInFlight, ObBlocked} \<Longrightarrow> movable st ids s"
  unfolding movable_def on_stream_def in_states_def canOutboxTransition_def by fastforce

lemma movable_flight:
  "on_stream X ids s \<Longrightarrow> in_states {ObInFlight} ids s \<Longrightarrow> st \<in> {ObAcked, ObRetry, ObBlocked} \<Longrightarrow> movable st ids s"
  unfolding movable_def on_stream_def in_states_def canOutboxTransition_def by fastforce

lemma journal_batch_moves:
  assumes "items_ok s" "movable ObInFlight (ba_items b) s"
  obtains t where "journal_batch ms b s = (Inr (), t)" "moved_all ObInFlight (ba_items b) s t"
proof -
  let ?s = "s\<lparr>ob_batchMembers := aput (ba_hash b) ms (ob_batchMembers s)\<rparr>"
  obtain t where "mapE (journal_item b) (ba_items b) ?s = (Inr (), t)" "moved_all ObInFlight (ba_items b) ?s t"
    using move_all [OF movers(3), of ?s "ba_items b" b] assms by (auto simp: movable_def)
  then show ?thesis using that by (simp add: journal_batch_def op_simps moved_all_def)
qed

lemma run_send_cases:
  assumes "items_ok s" "on_stream X ms s"
  obtains (over) ids t where "run_send nc ms s = (Finished, t)" "moved_all ObBlocked ids s t" "on_stream X ids s"
  | (preparing) b where "run_send nc ms s = (Preparing b, s)" "on_stream X (ba_items b) s"
      "in_states {ObPending, ObRetry} (ba_items b) s"
  | (sending) b t where "run_send nc ms s = (Sending b, t)" "moved_all ObInFlight (ba_items b) s t" "on_stream X (ba_items b) s"
proof -
  define "is" where "is = filter (\<lambda>it. oi_state it = ObPending \<or> oi_state it = ObRetry) (members_of ms s)"
  define b where "b = outboxBatch nc is (oi_remote_stage (hd is))"
  have ids: "ba_items b = map oi_id is" by (simp add: b_def outboxBatch_def)
  have on: "on_stream X (ba_items b) s"
    unfolding ids is_def using sub_phase(1) [OF assms(2) sent_ids [OF assms(2,1)]] .
  have rest: "in_states {ObPending, ObRetry} (ba_items b) s"
    unfolding in_states_def
  proof
    fix i assume "i \<in> set (ba_items b)"
    then obtain it where it: "it \<in> set (members_of ms s)" "oi_state it \<in> {ObPending, ObRetry}" "i = oi_id it"
      by (auto simp: ids is_def)
    then obtain j where "get_item j s = Some it" by (auto simp: members_of_def List.map_filter_def)
    then have "get_item i s = Some it" using it(3) item_key [OF assms(1)] by metis
    then show "\<exists>it. get_item i s = Some it \<and> oi_state it \<in> {ObPending, ObRetry}" using it(2) by blast
  qed
  show ?thesis
  proof (cases "is = []")
    case True
    then have "run_send nc ms s = (Finished, s)" by (simp add: run_send_def is_def Let_def)
    moreover have "on_stream X [] s" by (simp add: on_stream_def)
    ultimately show ?thesis using over moved_none [OF assms(1)] by blast
  next
    case ne: False
    have run: "run_send nc ms s = (case map_of (ob_sinks s) (ba_destination b) of
        None \<Rightarrow> (Finished, snd (mapE (block_item CAP_ADAPTER_UNAVAILABLE) (ba_items b) s))
      | Some has_prepare \<Rightarrow> if has_prepare then (Preparing b, s)
          else (case journal_batch ms b s of (Inl _, t) \<Rightarrow> (Finished, t) | (Inr _, t) \<Rightarrow> (Sending b, t)))"
      using ne by (simp add: run_send_def is_def [symmetric] b_def [symmetric] Let_def)
    show ?thesis
    proof (cases "map_of (ob_sinks s) (ba_destination b)")
      case None
      obtain t where "mapE (block_item CAP_ADAPTER_UNAVAILABLE) (ba_items b) s = (Inr (), t)"
          "moved_all ObBlocked (ba_items b) s t"
        using move_all [OF movers(1) assms(1) movable_rest [OF on rest]] by auto
      then show ?thesis using over [OF _ _ on] None run by simp
    next
      case (Some prep)
      obtain t where "journal_batch ms b s = (Inr (), t)" "moved_all ObInFlight (ba_items b) s t"
        using journal_batch_moves [OF assms(1) movable_rest [OF on rest]] by auto
      then show ?thesis using preparing [OF _ on rest] sending [OF _ _ on] Some run by (cases prep) simp_all
    qed
  qed
qed

lemma sync_start:
  assumes "sends_inv s" "moved_all st ids s t" "on_stream (sd_stream r) ids s"
    "sd_stream r \<notin> set (map sd_stream (ob_sends s))" "length (ob_sends s) < globalSenders" "phase_ok t r"
    "\<And>i. st = ObInFlight \<Longrightarrow> i \<in> set ids \<Longrightarrow> carried i [r]"
  shows "sync_sound s (t\<lparr>ob_sends := ob_sends s @ [r]\<rparr>)"
proof (rule sync_move [OF assms(1-3)])
  show "length (ob_sends s @ [r]) \<le> globalSenders" "distinct (map sd_stream (ob_sends s @ [r]))"
    using assms(4,5) sends_invD(3) [OF assms(1)] by simp_all
  show "phase_ok t sd" if "sd \<in> set (ob_sends s @ [r])" "sd_stream sd = sd_stream r" for sd
    using that assms(4,6) by (auto simp del: in_set_conv_nth) (metis imageI)
qed (use assms(7) in \<open>auto simp: carried_def\<close>)

lemma start_sound:
  assumes "sends_inv s" "st \<notin> set (map sd_stream (ob_sends s))" "length (ob_sends s) < globalSenders"
  shows "sync_sound s (startSend nc st s)"
proof (cases "nextBatchMembers st s = []")
  case True
  then show ?thesis using assms(1) by (simp add: startSend_def)
next
  case False
  define ms where "ms = nextBatchMembers st s"
  have ok: "items_ok s" using sends_invD(1) [OF assms(1)] .
  have on: "on_stream st ms s" unfolding ms_def using next_members(1) [OF ok] .
  have start: "startSend nc st s = t\<lparr>ob_sends := ob_sends s @ [\<lparr>sd_stream = st, sd_members = ms, sd_phase = ph\<rparr>]\<rparr>"
    if "run_send nc ms s = (ph, t)" "ob_sends t = ob_sends s" for ph t
    using False that by (simp add: startSend_def ms_def Let_def)
  from ok on show ?thesis
  proof (cases rule: run_send_cases [of s st ms nc])
    case (over ids t)
    have fr: "ob_sends t = ob_sends s" using over(2) by (simp add: moved_all_def)
    show ?thesis unfolding start [OF over(1) fr]
      by (rule sync_start [OF assms(1) over(2)]) (use assms over(3) in \<open>simp_all add: phase_ok_def\<close>)
  next
    case (preparing b)
    show ?thesis unfolding start [OF preparing(1) refl]
      by (rule sync_start [OF assms(1) moved_none [OF ok]])
        (use assms preparing(2,3) in \<open>simp_all add: phase_ok_def on_stream_def\<close>)
  next
    case (sending b t)
    have fr: "ob_sends t = ob_sends s" using sending(2) by (simp add: moved_all_def)
    show ?thesis unfolding start [OF sending(1) fr]
      by (rule sync_start [OF assms(1) sending(2)])
        (use assms sending(3) moved_all_phase [OF sending(2,3)] in \<open>simp_all add: phase_ok_def carried_def\<close>)
  qed
qed

lemma pick_stream: "pickStream scope s = Some st \<Longrightarrow> st \<notin> set (map sd_stream (ob_sends s)) \<and> ready_items st s \<noteq> []"
  unfolding pickStream_def by (auto simp: find_Some_iff)

lemma pump_sound:
  assumes "sends_inv s" shows "sync_sound s (pump_loop nc scope n s)"
  using assms
proof (induction n arbitrary: s)
  case (Suc n)
  show ?case
  proof (cases "length (ob_sends s) < globalSenders \<and> pickStream scope s \<noteq> None")
    case True
    then obtain st where st: "pickStream scope s = Some st" by blast
    then have "sync_sound s (startSend nc st s)" using start_sound [OF Suc.prems] pick_stream True by blast
    then have "sync_sound s (pump_loop nc scope n (startSend nc st s))" by (rule sync_sound_trans) (rule Suc.IH)
    then show ?thesis using True st by simp
  next
    case False
    then show ?thesis using Suc.prems by (auto split: option.split)
  qed
qed simp

section \<open>Every step keeps the invariant\<close>

lemma phase_of_send:
  assumes "sends_inv s" "phase_of X s = Some (ms, ph)"
  obtains sd where "sd \<in> set (ob_sends s)" "sd_stream sd = X" "sd_members sd = ms" "sd_phase sd = ph" "phase_ok s sd"
    "\<And>sd'. sd' \<in> set (ob_sends s) \<Longrightarrow> sd_stream sd' = X \<Longrightarrow> sd' = sd"
proof -
  obtain sd where sd: "sd \<in> set (ob_sends s)" "sd_stream sd = X" "sd_members sd = ms" "sd_phase sd = ph"
    using assms(2) map_of_SomeD unfolding phase_of_def by fastforce
  moreover have "sd' = sd" if "sd' \<in> set (ob_sends s)" "sd_stream sd' = X" for sd'
    using sends_invD(3) [OF assms(1)] sd(1,2) that by (metis distinct_map inj_onD)
  ultimately show ?thesis using that sends_invD(4) [OF assms(1)] by blast
qed

text \<open>The send of \<open>X\<close> takes a new phase after moving its items.\<close>

lemma sync_phase:
  assumes "sends_inv s" "phase_of X s = Some (ms, ph)" "moved_all st ids s t" "on_stream X ids s"
    "\<And>m. phase_ok t \<lparr>sd_stream = X, sd_members = m, sd_phase = ph'\<rparr>"
    "\<And>i b. ph = Sending b \<Longrightarrow> i \<in> set (ba_items b) \<Longrightarrow> i \<in> set ids"
    "st = ObInFlight \<Longrightarrow> \<exists>b. ph' = Sending b \<and> set ids \<subseteq> set (ba_items b)"
  shows "sync_sound s (set_phase X ph' t)"
proof -
  obtain sd where sd: "sd \<in> set (ob_sends s)" "sd_stream sd = X" "sd_phase sd = ph"
      "\<And>sd'. sd' \<in> set (ob_sends s) \<Longrightarrow> sd_stream sd' = X \<Longrightarrow> sd' = sd"
    using phase_of_send [OF assms(1,2)] by metis
  define sds where "sds = map (\<lambda>sd. if sd_stream sd = X then sd\<lparr>sd_phase := ph'\<rparr> else sd) (ob_sends s)"
  have fr: "ob_sends t = ob_sends s" using assms(3) by (simp add: moved_all_def)
  have streams: "map sd_stream sds = map sd_stream (ob_sends s)" by (simp add: sds_def)
  have new: "sd\<lparr>sd_phase := ph'\<rparr> \<in> set sds" using sd(1,2) by (force simp: sds_def)
  have "sync_sound s (t\<lparr>ob_sends := sds\<rparr>)"
  proof (rule sync_move [OF assms(1,3,4)])
    show "length sds \<le> globalSenders" using sends_invD(2) [OF assms(1)] by (simp add: sds_def)
    show "distinct (map sd_stream sds)" using sends_invD(3) [OF assms(1)] by (simp add: streams)
    fix x assume x: "x \<in> set sds"
    show "x \<in> set (ob_sends s)" if "sd_stream x \<noteq> X" using x that by (auto simp: sds_def split: if_splits)
    show "phase_ok t x" if "sd_stream x = X"
    proof -
      obtain y where "y \<in> set (ob_sends s)" "x = (if sd_stream y = X then y\<lparr>sd_phase := ph'\<rparr> else y)"
        using x unfolding sds_def by auto
      then have "sd_stream x = X \<and> sd_phase x = ph'" using that by (auto split: if_splits)
      then have "phase_ok t x = phase_ok t \<lparr>sd_stream = X, sd_members = [], sd_phase = ph'\<rparr>"
        by (simp add: phase_ok_def split: send_phase.split)
      then show ?thesis using assms(5) by simp
    qed
  next
    fix i assume i: "i \<notin> set ids" "carried i (ob_sends s)"
    then obtain y b where y: "y \<in> set (ob_sends s)" "sd_phase y = Sending b" "i \<in> set (ba_items b)"
      by (auto simp: carried_def)
    have "sd_stream y \<noteq> X"
    proof
      assume "sd_stream y = X"
      then have "ph = Sending b" using sd y by metis
      then show False using assms(6) y(3) i(1) by blast
    qed
    then have "y \<in> set sds" using y(1) by (force simp: sds_def)
    then show "carried i sds" using y by (auto simp: carried_def)
  next
    fix i assume "st = ObInFlight" "i \<in> set ids"
    then obtain b where "ph' = Sending b" "i \<in> set (ba_items b)" using assms(7) by blast
    then show "carried i sds" unfolding carried_def
      by (intro bexI [OF _ new] exI [of _ b]) simp
  qed
  then show ?thesis by (simp add: set_phase_def sds_def fr)
qed

lemma phase_of_phase: "sends_inv s \<Longrightarrow> phase_of X s = Some (ms, ph) \<Longrightarrow> phase_ok s \<lparr>sd_stream = X, sd_members = ms, sd_phase = ph\<rparr>"
proof -
  assume "sends_inv s" "phase_of X s = Some (ms, ph)"
  then obtain sd where sd: "sd_stream sd = X" "sd_phase sd = ph" "phase_ok s sd" by (rule phase_of_send)
  have "phase_ok s sd = phase_ok s \<lparr>sd_stream = sd_stream sd, sd_members = ms, sd_phase = sd_phase sd\<rparr>"
    by (simp add: phase_ok_def split: send_phase.split)
  then show ?thesis using sd by simp
qed

lemma prepared_sound: assumes "sends_inv s" shows "sync_sound s (prepared X stage s)"
proof (cases "\<exists>ms b. phase_of X s = Some (ms, Preparing b)")
  case False
  then have "prepared X stage s = s"
    by (auto simp: prepared_def split: option.split prod.split send_phase.split)
  then show ?thesis using assms by simp
next
  case True
  then obtain ms b where ph: "phase_of X s = Some (ms, Preparing b)" by blast
  define b' where "b' = b\<lparr>ba_stage := (case stage of None \<Rightarrow> ba_stage b | Some x \<Rightarrow> Some x)\<rparr>"
  have on: "on_stream X (ba_items b') s" "in_states {ObPending, ObRetry} (ba_items b') s"
    using phase_of_phase [OF assms ph] by (simp_all add: phase_ok_def b'_def)
  obtain t where t: "journal_batch ms b' s = (Inr (), t)" "moved_all ObInFlight (ba_items b') s t"
    using journal_batch_moves [OF sends_invD(1) [OF assms] movable_rest [OF on]] by auto
  have "sync_sound s (set_phase X (Sending b') t)"
    by (rule sync_phase [OF assms ph t(2) on(1)]) (use moved_all_phase [OF t(2) on(1)] in \<open>simp_all add: phase_ok_def\<close>)
  then show ?thesis using ph t(1) by (simp add: prepared_def b'_def)
qed

lemma prepare_failed_sound: assumes "sends_inv s" shows "sync_sound s (prepare_failed X s)"
proof (cases "\<exists>ms b. phase_of X s = Some (ms, Preparing b)")
  case False
  then have "prepare_failed X s = s"
    by (auto simp: prepare_failed_def split: option.split prod.split send_phase.split)
  then show ?thesis using assms by simp
next
  case True
  then obtain ms b where ph: "phase_of X s = Some (ms, Preparing b)" by blast
  have "sync_sound s (set_phase X Finished s)"
    by (rule sync_phase [OF assms ph moved_none [OF sends_invD(1) [OF assms]], where st = ObBlocked])
      (simp_all add: on_stream_def phase_ok_def)
  then show ?thesis using ph by (simp add: prepare_failed_def)
qed

text \<open>Whatever the sink answers, the carried items leave flight together.\<close>

lemma settle_moves:
  assumes "items_ok s" "on_stream X (ba_items b) s" "in_states {ObInFlight} (ba_items b) s"
  obtains st t where "st \<in> {ObAcked, ObRetry, ObBlocked}" "moved_all st (ba_items b) s t"
    "ob_items (settle rnd b ans s) = ob_items t" "ob_sends (settle rnd b ans s) = ob_sends t"
proof -
  note mv = move_all [OF _ assms(1) movable_flight [OF assms(2,3)]]
  obtain t1 where t1: "mapE (retry_item rnd None) (ba_items b) s = (Inr (), t1)" "moved_all ObRetry (ba_items b) s t1"
    using mv [OF movers(4)] by auto
  obtain t2 where t2: "mapE (move_item ObAcked) (ba_items b) s = (Inr (), t2)" "moved_all ObAcked (ba_items b) s t2"
    using mv [OF movers(2)] by auto
  show ?thesis
  proof (cases ans)
    case (SinkAck valid conflicts stored through)
    obtain t3 where t3: "mapE (block_item OBJECT_CONFLICT) (ba_items b) s = (Inr (), t3)" "moved_all ObBlocked (ba_items b) s t3"
      using mv [OF movers(1)] by auto
    show ?thesis
    proof (cases "valid \<and> \<not> conflicts \<and> stored")
      case True
      then show ?thesis using that [of ObAcked t2] t2 SinkAck
        by (simp add: settle_def settle_ack_def op_simps)
    next
      case False
      then show ?thesis using that [of ObRetry t1] that [of ObBlocked t3] t1 t3 SinkAck
        by (cases valid; cases conflicts) (simp_all add: settle_def settle_ack_def op_simps retryAll_def)
    qed
  next
    case (SinkFailure c retryable after)
    obtain t4 where t4: "mapE (retry_item rnd after) (ba_items b) s = (Inr (), t4)" "moved_all ObRetry (ba_items b) s t4"
      using mv [OF movers(4)] by auto
    obtain t5 where t5: "mapE (block_item c) (ba_items b) s = (Inr (), t5)" "moved_all ObBlocked (ba_items b) s t5"
      using mv [OF movers(1)] by auto
    show ?thesis using that [of ObRetry t4] that [of ObBlocked t5] t4 t5 SinkFailure
      by (cases retryable) (simp_all add: settle_def retryAll_def)
  next
    case OtherFailure
    then show ?thesis using that [of ObRetry t1] t1 by (simp add: settle_def retryAll_def)
  qed
qed

lemma answered_sound: assumes "sends_inv s" shows "sync_sound s (answered rnd X ans s)"
proof (cases "\<exists>ms b. phase_of X s = Some (ms, Sending b)")
  case False
  then have "answered rnd X ans s = s"
    by (auto simp: answered_def split: option.split prod.split send_phase.split)
  then show ?thesis using assms by simp
next
  case True
  then obtain ms b where ph: "phase_of X s = Some (ms, Sending b)" by blast
  have on: "on_stream X (ba_items b) s" "in_states {ObInFlight} (ba_items b) s"
    using phase_of_phase [OF assms ph] by (simp_all add: phase_ok_def)
  obtain st t where t: "st \<in> {ObAcked, ObRetry, ObBlocked}" "moved_all st (ba_items b) s t"
      "ob_items (settle rnd b ans s) = ob_items t" "ob_sends (settle rnd b ans s) = ob_sends t"
    using settle_moves [OF sends_invD(1) [OF assms] on] by metis
  have "moved_all st (ba_items b) s (settle rnd b ans s)"
    using t(2-4) by (simp add: moved_all_def items_ok_def get_item_def)
  then have "sync_sound s (set_phase X Finished (settle rnd b ans s))"
    by (rule sync_phase [OF assms ph _ on(1)]) (use t(1) in \<open>auto simp: phase_ok_def\<close>)
  then show ?thesis using ph by (simp add: answered_def)
qed

lemma finished_sound: assumes "sends_inv s" shows "sync_sound s (finished X s)"
proof (cases "\<exists>ms. phase_of X s = Some (ms, Finished)")
  case False
  then have "finished X s = s"
    by (auto simp: finished_def split: option.split prod.split send_phase.split)
  then show ?thesis using assms by simp
next
  case True
  then obtain ms where ph: "phase_of X s = Some (ms, Finished)" by blast
  obtain sd where sd: "sd_phase sd = Finished" "\<And>sd'. sd' \<in> set (ob_sends s) \<Longrightarrow> sd_stream sd' = X \<Longrightarrow> sd' = sd"
    using phase_of_send [OF assms ph] by metis
  let ?sds = "filter (\<lambda>sd. sd_stream sd \<noteq> X) (ob_sends s)"
  have len: "length ?sds \<le> globalSenders" using sends_invD(2) [OF assms] length_filter_le order_trans by blast
  have "sync_sound s (s\<lparr>ob_sends := ?sds\<rparr>)"
  proof (rule sync_move [OF assms moved_none [OF sends_invD(1) [OF assms]], where st = ObBlocked and X = X])
    show "length ?sds \<le> globalSenders" by (rule len)
    show "distinct (map sd_stream ?sds)" using sends_invD(3) [OF assms] by (rule distinct_map_filter)
    fix i assume "carried i (ob_sends s)"
    then obtain y b where y: "y \<in> set (ob_sends s)" "sd_phase y = Sending b" "i \<in> set (ba_items b)"
      by (auto simp: carried_def)
    then have "sd_stream y \<noteq> X" using sd by fastforce
    then show "carried i ?sds" using y by (auto simp: carried_def)
  qed (auto simp: on_stream_def)
  then show ?thesis using ph by (simp add: finished_def)
qed

lemma enqueue_sound: assumes "sends_inv s" shows "sync_sound s (snd (enqueue nc a s))"
proof (cases "\<exists>co body. map_of (ob_consents s) (ea_stream a) = Some co \<and> co_enabled co \<and> enqueue_payload a co = Inr body")
  case False
  then have "snd (enqueue nc a s) = s"
    by (auto simp: enqueue_def op_simps split: option.split sum.split)
  then show ?thesis using assms by simp
next
  case True
  then obtain co body where c: "map_of (ob_consents s) (ea_stream a) = Some co" "co_enabled co" "enqueue_payload a co = Inr body"
    by blast
  define t where "t = s\<lparr>ob_objects := aput (sha256Hex nc body) body (ob_objects s)\<rparr>"
  define it where "it = new_item nc a co body (ob_now s)"
  have t: "sync_sound s t" using assms by (rule sync_quiet) (simp_all add: t_def)
  have "snd (enqueue nc a s) = (if get_item (oi_id it) s = None \<and> ea_commit a = None
      then admit_run (ea_run a) (oi_id it) (put_item it t) else t)"
    using c by (simp add: enqueue_def op_simps t_def it_def split: option.split)
  moreover have "sync_sound t (admit_run (ea_run a) (oi_id it) (put_item it t))"
    if "sends_inv t" "get_item (oi_id it) s = None"
  proof -
    have "sync_sound t (put_item it t)"
      using that by (intro sync_put) (simp_all add: it_def new_item_def Let_def t_def)
    then show ?thesis
      by (rule sync_sound_trans) (rule sync_quiet, simp_all add: admit_run_def split: option.split)
  qed
  ultimately show ?thesis using t sync_sound_trans [OF t] by auto
qed

lemma repair_sound: assumes "sends_inv s" shows "sync_sound s (snd (repair i s))"
proof (cases "\<exists>it. get_item i s = Some it \<and> oi_state it = ObBlocked")
  case False
  then have "snd (repair i s) = s" by (auto simp: repair_def op_simps split: option.split)
  then show ?thesis using assms by simp
next
  case True
  then obtain it where it: "get_item i s = Some it" "oi_state it = ObBlocked" by blast
  define b where "b = it\<lparr>oi_next_attempt_ms := ob_now s, oi_state := ObPending\<rparr>"
  define t where "t = s\<lparr>ob_blockedCode := AList.delete i (ob_blockedCode s)\<rparr>"
  have t: "sync_sound s t" using assms by (rule sync_quiet) (simp_all add: t_def)
  have "snd (repair i s) = put_item b t"
    using it by (simp add: repair_def op_simps Let_def ob_transition_def canOutboxTransition_def b_def t_def)
  moreover have "sync_sound t (put_item b t)" if "sends_inv t"
  proof (rule sync_put [OF that])
    have "oi_id b = i" using item_key [OF sends_invD(1) [OF assms] it(1)] by (simp add: b_def)
    moreover have "item_le it b" using it(2) by (intro item_le_step) (simp_all add: b_def core_def canOutboxTransition_def)
    ultimately show "oi_state a = ObBlocked \<and> item_le a b" if "get_item (oi_id b) t = Some a" for a
      using that it by (simp add: t_def)
  qed (simp add: b_def)
  ultimately show ?thesis using sync_sound_trans [OF t] by simp
qed

lemma setPaused_quiet: "sends_inv s \<Longrightarrow> sync_sound s (setPaused st v s)"
  by (rule sync_quiet) (simp_all add: setPaused_def Let_def split: option.split)

lemma fold_sound:
  assumes "\<And>x s. sends_inv s \<Longrightarrow> sync_sound s (f x s)" "sends_inv s" shows "sync_sound s (fold f xs s)"
  using assms(2)
proof (induction xs arbitrary: s)
  case (Cons x xs)
  have "sync_sound s (fold f xs (f x s))"
    using assms(1) [OF Cons.prems] Cons.IH by (rule sync_sound_trans)
  then show ?case by simp
qed simp

lemma sync_step_sound: assumes "sends_inv s" shows "sync_sound s (sync_step nc rnd call s)"
proof (cases call)
  case (ObPause sts)
  then show ?thesis using assms fold_sound [OF setPaused_quiet] by (simp add: pause_def)
next
  case (ObResume sts)
  have "sync_sound s (fold (\<lambda>st t. case map_of (ob_consents t) st of None \<Rightarrow> t
      | Some c \<Rightarrow> if co_enabled c then setPaused st False t else t) sts s)"
    using assms by (intro fold_sound) (auto intro: setPaused_quiet split: option.split)
  then show ?thesis unfolding ObResume sync_step.simps resume_def pump_def
    by (rule sync_sound_trans) (rule pump_sound)
qed (use assms enqueue_sound repair_sound pump_sound prepared_sound prepare_failed_sound answered_sound finished_sound
    in \<open>simp_all add: pump_def del: pump_loop.simps\<close>, simp_all add: sync_quiet)

lemma sync_steps_sound: "sends_inv s \<Longrightarrow> sync_sound s (sync_steps nc rnd calls s)"
  unfolding sync_steps_def by (rule fold_sound [OF sync_step_sound])

lemma sends_inv_start: "sends_inv (createMemorySyncPorts now)"
  by (simp add: sends_inv_def createMemorySyncPorts_def items_ok_def get_item_def)

section \<open>Termination of the pump\<close>

lemma mapE_block_sends:
  assumes "items_ok s" "on_stream X ms s"
  shows "ob_sends (snd (run_send nc ms s)) = ob_sends s"
  using assms by (cases rule: run_send_cases [of s X ms nc]) (simp_all add: moved_all_def)

lemma ready_members:
  assumes "ready_items st s \<noteq> []" shows "nextBatchMembers st s \<noteq> []"
proof (cases "find (\<lambda>it. map_of (ob_itemBatch s) (oi_id it) \<noteq> None) (ready_items st s)")
  case None
  obtain x xs where "take batchEvents (ready_items st s) = x # xs"
    using assms by (cases "ready_items st s") (auto simp: batchEvents_def take_Cons')
  moreover have "fill_batch n [oi_id x] xs \<noteq> []" for n using fill_batch_take [of n "[oi_id x]" xs] by auto
  ultimately show ?thesis using None by (simp add: nextBatchMembers_def Let_def)
next
  case (Some x)
  then have "x \<in> set (ready_items st s)" by (auto simp: find_Some_iff)
  then show ?thesis using Some by (auto simp: nextBatchMembers_def Let_def filter_empty_conv)
qed

lemma start_adds:
  assumes "sends_inv s" "ready_items st s \<noteq> []"
  shows "length (ob_sends (startSend nc st s)) = Suc (length (ob_sends s))"
proof -
  have ok: "items_ok s" using sends_invD(1) [OF assms(1)] .
  show ?thesis
    using ready_members [OF assms(2)] mapE_block_sends [OF ok next_members(1) [OF ok], of nc st]
    by (simp add: startSend_def Let_def split: prod.split) (metis snd_conv)
qed

lemma pump_loop_done:
  assumes "sends_inv s" "globalSenders < n + length (ob_sends s)"
  shows "length (ob_sends (pump_loop nc scope n s)) = globalSenders \<or> pickStream scope (pump_loop nc scope n s) = None"
  using assms
proof (induction n arbitrary: s)
  case 0
  then show ?case using sends_invD(2) [OF 0(1)] by simp
next
  case (Suc n)
  show ?case
  proof (cases "length (ob_sends s) < globalSenders \<and> pickStream scope s \<noteq> None")
    case True
    then obtain st where st: "pickStream scope s = Some st" by blast
    have inv: "sends_inv (startSend nc st s)"
      using start_sound [OF Suc.prems(1)] pick_stream [OF st] True by (simp add: sync_sound_def)
    have "length (ob_sends (startSend nc st s)) = Suc (length (ob_sends s))"
      using start_adds [OF Suc.prems(1)] pick_stream [OF st] by blast
    then show ?thesis using Suc.IH [OF inv] Suc.prems(2) True st by simp
  next
    case False
    then show ?thesis using sends_invD(2) [OF Suc.prems(1)] by (auto split: option.split)
  qed
qed

section \<open>Concrete states\<close>

definition plain_item :: "string \<Rightarrow> string \<Rightarrow> outbox_item" where
  "plain_item i d = \<lparr>oi_id = i, oi_destination = d, oi_cohort = ''c'', oi_stream = Runs,
     oi_source = \<lparr>nr_namespace = [], nr_object_id = [], nr_commitment = None, nr_raw_sha256 = [], nr_json = JNull\<rparr>,
     oi_digest = [], oi_bytes = 1, oi_consent_revision = ''1'', oi_redaction = [], oi_from = ''0'', oi_through = [],
     oi_state = ObPending, oi_attempts = 0, oi_next_attempt_ms = 0, oi_remote_stage = None\<rparr>"

definition two_items :: "string \<Rightarrow> sync_ports" where
  "two_items d = put_item (plain_item ''j'' d) (put_item (plain_item ''i'' ''A'')
     ((createMemorySyncPorts 0)\<lparr>ob_sinks := [(''A'', False), (''B'', False)]\<rparr>))"

definition plain_crypto :: node_crypto where
  "plain_crypto = \<lparr>nc_sha256 = (\<lambda>s. s), nc_public = (\<lambda>_. True), nc_verify = (\<lambda>_ _ _. True)\<rparr>"

definition two_draws :: "nat \<Rightarrow> rat" where
  "two_draws n = (if n = 0 then 0 else 1 / 2)"

lemma pump_turns: "pump nc scope s = pump_loop nc scope (Suc (Suc (Suc 0))) s"
  by (simp add: pump_def globalSenders_def numeral_eq_Suc)

lemma take_all_batch: "length is \<le> 1000 \<Longrightarrow> take batchEvents is = is"
  by (simp add: batchEvents_def)

lemmas sync_eval = sync_steps_def two_items_def plain_item_def put_item_def createMemorySyncPorts_def
  pump_turns globalSenders_def pickStream_def STREAM_PRIORITY_def isPaused_def ready_items_def sendable_def all_items_def
  startSend_def nextBatchMembers_def take_all_batch batchBytes_def run_send_def members_of_def map_filter_simps get_item_def
  outboxBatch_def journal_batch_def op_simps journal_item_def store_then_def ob_transition_def canOutboxTransition_def
  arows_def Let_def

lemmas sync_answer_eval = answered_def phase_of_def settle_def retryAll_def retry_item_def jitter_def set_phase_def
  finished_def two_draws_def backoffCap_def backoffCapMs_def backoffBaseMs_def

lemma two_items_start:
  "sends_inv (two_items d)" "get_item ''i'' (two_items d) = Some (plain_item ''i'' ''A'')"
proof -
  define s0 where "s0 = (createMemorySyncPorts 0)\<lparr>ob_sinks := [(''A'', False), (''B'', False)]\<rparr>"
  have s0: "items_ok s0" "ob_sends s0 = []" "\<And>i. get_item i s0 = None"
    by (simp_all add: s0_def createMemorySyncPorts_def items_ok_def get_item_def)
  have two: "two_items d = put_item (plain_item ''j'' d) (put_item (plain_item ''i'' ''A'') s0)"
    by (simp add: two_items_def s0_def)
  have it: "oi_id (plain_item k e) = k" "oi_state (plain_item k e) = ObPending" for k e by (simp_all add: plain_item_def)
  show "sends_inv (two_items d)" using s0 by (simp add: two sends_inv_def it)
  show "get_item ''i'' (two_items d) = Some (plain_item ''i'' ''A'')" by (simp add: two it)
qed

section \<open>Properties\<close>

text \<open>
  C19.  In every state the engine reaches, however calls, answers of sinks and the clock
  interleave: at most two sends are in flight and at most one per stream; an item is
  IN_FLIGHT exactly when it is in the batch of a send that awaits its sink; and the items of
  a batch are different items of the stream that sends it.
\<close>

theorem sends_are_exclusive:
  assumes "s = sync_steps nc rnd calls (createMemorySyncPorts now)"
  shows "length (ob_sends s) \<le> 2 \<and> distinct (map sd_stream (ob_sends s)) \<and>
    (\<forall>i it. get_item i s = Some it \<longrightarrow>
       (oi_state it = ObInFlight \<longleftrightarrow> (\<exists>sd\<in>set (ob_sends s). \<exists>b. sd_phase sd = Sending b \<and> i \<in> set (ba_items b)))) \<and>
    (\<forall>sd\<in>set (ob_sends s). \<forall>b. sd_phase sd = Sending b \<or> sd_phase sd = Preparing b \<longrightarrow>
       distinct (ba_items b) \<and> (\<forall>i\<in>set (ba_items b). \<exists>it. get_item i s = Some it \<and> oi_stream it = sd_stream sd))"
proof -
  have inv: "sends_inv s" using sync_steps_sound [OF sends_inv_start] assms by (simp add: sync_sound_def)
  have ph: "phase_ok s sd" if "sd \<in> set (ob_sends s)" for sd using sends_invD(4) [OF inv that] .
  have "oi_state it = ObInFlight \<longleftrightarrow> carried i (ob_sends s)" if "get_item i s = Some it" for i it
  proof
    assume "carried i (ob_sends s)"
    then obtain sd b where "sd \<in> set (ob_sends s)" "sd_phase sd = Sending b" "i \<in> set (ba_items b)"
      by (auto simp: carried_def)
    then show "oi_state it = ObInFlight" using ph that by (fastforce simp: phase_ok_def in_states_def)
  qed (use sends_invD(5) [OF inv that] in simp)
  moreover have "on_stream (sd_stream sd) (ba_items b) s"
    if "sd \<in> set (ob_sends s)" "sd_phase sd = Sending b \<or> sd_phase sd = Preparing b" for sd b
    using ph [OF that(1)] that(2) by (auto simp: phase_ok_def)
  ultimately show ?thesis
    using sends_invD(2,3) [OF inv] unfolding carried_def on_stream_def globalSenders_def by blast
qed

text \<open>
  C20.  An item moves only along the transition table, keeps its payload, destination and cut,
  and an ACKED item stays ACKED.
\<close>

theorem acked_items_stay_acked:
  assumes "sends_inv s" "get_item i s = Some a" "t = sync_steps nc rnd calls s"
  shows "\<exists>b. get_item i t = Some b \<and> ob_path (oi_state a) (oi_state b) \<and> core b = core a \<and>
    (oi_state a = ObAcked \<longrightarrow> oi_state b = ObAcked)"
proof -
  obtain b where b: "get_item i t = Some b" "item_le a b"
    using sync_steps_sound [OF assms(1)] assms(2,3) unfolding sync_sound_def items_advance_def by blast
  then show ?thesis using outbox_graph.final_stays [of "oi_state a" "oi_state b"] by (auto simp: item_le_def)
qed

theorem sends_are_exclusive_witness:
  "length (ob_sends (sync_steps plain_crypto two_draws [ObSink ''A'' True, ObPump None, ObAdvance 5] (createMemorySyncPorts 0))) \<le> 2"
  using sends_are_exclusive [OF refl, of plain_crypto two_draws "[ObSink ''A'' True, ObPump None, ObAdvance 5]" 0] by blast

theorem acked_items_stay_acked_witness:
  "\<exists>b. get_item ''i'' (sync_steps plain_crypto two_draws [ObPump None, ObRepair ''i''] (two_items ''B'')) = Some b \<and>
     ob_path ObPending (oi_state b) \<and> core b = core (plain_item ''i'' ''A'')"
proof -
  have "oi_state (plain_item ''i'' ''A'') = ObPending" by (simp add: plain_item_def)
  then show ?thesis
    using acked_items_stay_acked [OF two_items_start refl, of plain_crypto two_draws "[ObPump None, ObRepair ''i'']" "''B''"] by auto
qed

text \<open>
  C38.  Pumping ends within three turns: afterwards two sends are in flight, or no stream in
  scope that is neither paused nor already sending has an item ready.
\<close>

theorem pump_ends:
  assumes "sends_inv s"
  shows "length (ob_sends (pump nc scope s)) = 2 \<or> pickStream scope (pump nc scope s) = None"
  using pump_loop_done [OF assms, of "Suc globalSenders" nc scope] by (simp add: pump_def globalSenders_def)

theorem pump_ends_witness:
  "length (ob_sends (pump plain_crypto None (two_items ''B''))) = 2 \<or> pickStream None (pump plain_crypto None (two_items ''B'')) = None"
  by (rule pump_ends [OF two_items_start(1)])

text \<open>
  The exit status of a run with \<open>--fail-on-sync\<close>: the outbox counts as empty exactly
  when every item the run admitted is ACKED and, if it admitted any, the daemon's cut is known.
\<close>

theorem sync_is_empty_iff:
  "fst (failOnSyncStatus run s) \<longleftrightarrow>
     (\<forall>it\<in>set (case run of None \<Rightarrow> all_items s
              | Some r \<Rightarrow> members_of (case map_of (ob_runItems s) r of None \<Rightarrow> [] | Some ids \<Rightarrow> ids) s).
        oi_state it = ObAcked \<and> ob_daemonKnown s)"
proof -
  have rest: "filter (\<lambda>it. oi_state it \<noteq> ObAcked) xs = [] \<and>
      \<not> (\<not> k \<and> xs \<noteq> [] \<or> list_ex (\<lambda>it. oi_state it = ObInFlight) (filter (\<lambda>it. oi_state it \<noteq> ObAcked) xs)) \<longleftrightarrow>
      (\<forall>it\<in>set xs. oi_state it = ObAcked \<and> k)" for xs k
    by (cases xs) (auto simp: list_ex_iff filter_empty_conv)
  show ?thesis unfolding failOnSyncStatus_def Let_def fst_conv by (rule rest)
qed

theorem sync_is_empty_iff_witness:
  "\<not> fst (failOnSyncStatus None (two_items ''B''))"
  unfolding sync_is_empty_iff
  by (simp add: two_items_def put_item_def plain_item_def createMemorySyncPorts_def all_items_def arows_def)

text \<open>A batch takes its destination from its first item and the items of a stream are not
  grouped by destination: two queued items for different destinations go out as one batch to
  the first one's sink.
\<close>

theorem batch_mixes_destinations:
  "map (\<lambda>sd. (sd_phase sd)) (ob_sends (sync_steps nc rnd [ObPump None] (two_items ''B''))) =
     [Sending (outboxBatch nc [plain_item ''i'' ''A'', plain_item ''j'' ''B''] None)] \<and>
   ba_destination (outboxBatch nc [plain_item ''i'' ''A'', plain_item ''j'' ''B''] None) = ''A''"
  by (simp add: sync_eval)

text \<open>A retried batch need not be the batch that was sent: each item draws its own delay, so
  after a failed send of two items the next send carries the one whose delay is over.
\<close>

theorem retry_splits_batch:
  "map sd_members (ob_sends (sync_steps nc two_draws [ObPump None] (two_items ''A''))) = [[''i'', ''j'']] \<and>
   map sd_members (ob_sends (sync_steps nc two_draws
     [ObPump None, ObAnswered Runs OtherFailure, ObFinished Runs, ObPump None] (two_items ''A''))) = [[''i'']]"
  by (simp add: sync_eval sync_answer_eval)

end
