(* ===== verification/Strict_Json.thy ===== *)
theory Strict_Json
  imports Gateway_Text
begin

text \<open>
  Model of \<open>gateway-daemon/src/net/strict-json.ts\<close>, the parser every request body goes through,
  and the grammar it is proved equal to.  A text is its UTF-16 code units; the parser's position
  is the text that is left.  A number is its exact decimal value: the source rounds it to a
  double, and rejects it when it rounds to an infinity.
\<close>

section \<open>Data\<close>

type_synonym text16 = "nat list"

abbreviation units :: "string \<Rightarrow> text16" where
  "units s \<equiv> map of_char s"

datatype jvalue = VNull | VBool bool | VNum rat | VStr text16
  | VArr "jvalue list" | is_VObj: VObj "(text16 \<times> jvalue) list"

text \<open>The messages of \<open>JsonInvalid\<close>.\<close>

datatype json_fault =
    ByteOrderMark | NotStrictUtf8 | Expected nat | TooDeep nat | TrailingBytes | EndOfInput | UnexpectedCharacter
  | BadLiteral text16 | KeyNotString | DuplicateKey text16 | MembersEnd | ElementsEnd | UnterminatedString
  | ControlCharacter | LoneSurrogate | BadHex | BadLowSurrogate | UnpairedHigh | LoneLow | BadEscape
  | BadNumber | BadFraction | BadExponent | NotFinite | NotObject

fun fault_field :: "json_fault \<Rightarrow> text16 option" where
  "fault_field (DuplicateKey k) = Some k"
| "fault_field _ = None"

type_synonym 'a jp = "text16 \<Rightarrow> json_fault + 'a \<times> text16"

section \<open>Decoding\<close>

definition is_cont :: "nat \<Rightarrow> bool" where "is_cont b \<longleftrightarrow> 0x80 \<le> b \<and> b \<le> 0xBF"

text \<open>A code point as UTF-16 code units.\<close>

definition utf16_of :: "nat \<Rightarrow> text16" where
  "utf16_of p = (if p < 0x10000 then [p] else [0xD800 + (p - 0x10000) div 0x400, 0xDC00 + (p - 0x10000) mod 0x400])"

text \<open>The fatal decoder of \<open>TextDecoder\<close>: bytes to code points.\<close>

fun utf8_decode :: "nat list \<Rightarrow> nat list option" where
  "utf8_decode [] = Some []"
| "utf8_decode (b # bs) =
     (if b < 0x80 then map_option (\<lambda>ps. b # ps) (utf8_decode bs)
      else if 0xC2 \<le> b \<and> b \<le> 0xDF then
        (case bs of
           c1 # r \<Rightarrow> if is_cont c1 then map_option (\<lambda>ps. ((b - 0xC0) * 64 + (c1 - 0x80)) # ps) (utf8_decode r) else None
         | _ \<Rightarrow> None)
      else if 0xE0 \<le> b \<and> b \<le> 0xEF then
        (case bs of
           c1 # c2 # r \<Rightarrow>
             if is_cont c1 \<and> is_cont c2 \<and> (b = 0xE0 \<longrightarrow> 0xA0 \<le> c1) \<and> (b = 0xED \<longrightarrow> c1 \<le> 0x9F)
             then map_option (\<lambda>ps. ((b - 0xE0) * 4096 + (c1 - 0x80) * 64 + (c2 - 0x80)) # ps) (utf8_decode r) else None
         | _ \<Rightarrow> None)
      else if 0xF0 \<le> b \<and> b \<le> 0xF4 then
        (case bs of
           c1 # c2 # c3 # r \<Rightarrow>
             if is_cont c1 \<and> is_cont c2 \<and> is_cont c3 \<and> (b = 0xF0 \<longrightarrow> 0x90 \<le> c1) \<and> (b = 0xF4 \<longrightarrow> c1 \<le> 0x8F)
             then map_option (\<lambda>ps. ((b - 0xF0) * 262144 + (c1 - 0x80) * 4096 + (c2 - 0x80) * 64 + (c3 - 0x80)) # ps)
                    (utf8_decode r) else None
         | _ \<Rightarrow> None)
      else None)"

datatype json_body = BodyText text16 | BodyBytes "nat list"

definition checkBom :: "text16 \<Rightarrow> json_fault + text16" where
  "checkBom t = (if take 1 t = [0xFEFF] then Inl ByteOrderMark else Inr t)"

fun decodeStrict :: "json_body \<Rightarrow> json_fault + text16" where
  "decodeStrict (BodyText t) = checkBom t"
| "decodeStrict (BodyBytes bs) =
     (if take 3 bs = [0xEF, 0xBB, 0xBF] then Inl ByteOrderMark
      else (case utf8_decode bs of
              None \<Rightarrow> Inl NotStrictUtf8
            | Some ps \<Rightarrow> checkBom (concat (map utf16_of ps))))"

section \<open>Lexical level\<close>

definition peek :: "text16 \<Rightarrow> nat option" where
  "peek t = (case t of [] \<Rightarrow> None | c # _ \<Rightarrow> Some c)"

definition is_ws :: "nat \<Rightarrow> bool" where "is_ws c \<longleftrightarrow> c \<in> {0x20, 0x09, 0x0A, 0x0D}"

definition ws :: "text16 \<Rightarrow> text16" where "ws t = dropWhile is_ws t"

definition literal :: "text16 \<Rightarrow> jvalue \<Rightarrow> jvalue jp" where
  "literal w v t = (if take (length w) t = w then Inr (v, drop (length w) t) else Inl (BadLiteral w))"

definition hex_val :: "nat \<Rightarrow> nat option" where
  "hex_val c = (if 0x30 \<le> c \<and> c \<le> 0x39 then Some (c - 0x30) else if 0x61 \<le> c \<and> c \<le> 0x66 then Some (c - 0x57)
     else if 0x41 \<le> c \<and> c \<le> 0x46 then Some (c - 0x37) else None)"

fun hex4 :: "nat jp" where
  "hex4 (a # b # c # d # r) =
     (case (hex_val a, hex_val b, hex_val c, hex_val d) of
        (Some p, Some q, Some x, Some y) \<Rightarrow> Inr (((p * 16 + q) * 16 + x) * 16 + y, r)
      | _ \<Rightarrow> Inl BadHex)"
| "hex4 _ = Inl BadHex"

definition is_high :: "nat \<Rightarrow> bool" where "is_high c \<longleftrightarrow> 0xD800 \<le> c \<and> c \<le> 0xDBFF"
definition is_low :: "nat \<Rightarrow> bool" where "is_low c \<longleftrightarrow> 0xDC00 \<le> c \<and> c \<le> 0xDFFF"

text \<open>The one-letter escapes.\<close>

definition simple_escapes :: "(nat \<times> nat) list" where
  "simple_escapes = [(0x22, 0x22), (0x5C, 0x5C), (0x2F, 0x2F), (0x62, 8), (0x66, 12), (0x6E, 10), (0x72, 13), (0x74, 9)]"

definition escape :: "text16 jp" where
  "escape t =
     (case t of
        [] \<Rightarrow> Inl BadEscape
      | c # r \<Rightarrow>
          (case map_of simple_escapes c of
             Some x \<Rightarrow> Inr ([x], r)
           | None \<Rightarrow>
               if c \<noteq> 0x75 then Inl BadEscape
               else (case hex4 r of
                       Inl e \<Rightarrow> Inl e
                     | Inr (hi, r1) \<Rightarrow>
                         if is_high hi then
                           (if take 2 r1 = [0x5C, 0x75] then
                              (case hex4 (drop 2 r1) of
                                 Inl e \<Rightarrow> Inl e
                               | Inr (lo, r2) \<Rightarrow> if is_low lo then Inr ([hi, lo], r2) else Inl BadLowSurrogate)
                            else Inl UnpairedHigh)
                         else if is_low hi then Inl LoneLow
                         else Inr ([hi], r1))))"

lemma hex4_shorter: "hex4 t = Inr (v, r) \<Longrightarrow> length r < length t"
  by (induction t rule: hex4.induct) (auto split: option.splits)

lemma escape_shorter: "escape t = Inr (u, r) \<Longrightarrow> length r < length t"
  by (auto simp: escape_def split: list.splits option.splits if_splits sum.splits prod.splits dest!: hex4_shorter)

text \<open>The rest of a string, behind its opening quote.\<close>

function jstring :: "text16 jp" where
  "jstring [] = Inl UnterminatedString"
| "jstring (c # r) =
     (if c = 0x22 then Inr ([], r)
      else if c = 0x5C then
        (case escape r of
           Inl e \<Rightarrow> Inl e
         | Inr (u, r1) \<Rightarrow> (case jstring r1 of Inl e \<Rightarrow> Inl e | Inr (s, r2) \<Rightarrow> Inr (u @ s, r2)))
      else if c < 0x20 then Inl ControlCharacter
      else if is_high c \<or> is_low c then
        (case r of
           n # r1 \<Rightarrow>
             if is_high c \<and> is_low n then
               (case jstring r1 of Inl e \<Rightarrow> Inl e | Inr (s, r2) \<Rightarrow> Inr (c # n # s, r2))
             else Inl LoneSurrogate
         | [] \<Rightarrow> Inl LoneSurrogate)
      else (case jstring r of Inl e \<Rightarrow> Inl e | Inr (s, r2) \<Rightarrow> Inr (c # s, r2)))"
  by pat_completeness auto
termination
  by (relation "measure length") (auto dest: escape_shorter)

section \<open>Numbers\<close>

definition is_dig :: "nat \<Rightarrow> bool" where "is_dig c \<longleftrightarrow> 0x30 \<le> c \<and> c \<le> 0x39"

definition digits_val :: "text16 \<Rightarrow> nat" where
  "digits_val ds = foldl (\<lambda>n c. n * 10 + (c - 0x30)) 0 ds"

text \<open>The value of a sign, integer digits, fraction digits and an exponent.\<close>

definition num_value :: "bool \<Rightarrow> text16 \<Rightarrow> text16 \<Rightarrow> int \<Rightarrow> rat" where
  "num_value neg ds fs e =
     (let n = of_nat (digits_val (ds @ fs)); k = e - int (length fs);
          q = (if 0 \<le> k then n * 10 ^ nat k else n / 10 ^ nat (- k)) in
      if neg then - q else q)"

text \<open>Rounding to a double gives an infinity from \<open>2^1024 - 2^970\<close> on.\<close>

definition is_finite_num :: "rat \<Rightarrow> bool" where
  "is_finite_num q \<longleftrightarrow> \<bar>q\<bar> < 2 ^ 1024 - 2 ^ 970"

text \<open>A scanned number: sign, integer digits, fraction digits, exponent.\<close>

type_synonym lexeme = "bool \<times> text16 \<times> text16 \<times> int"

definition finish_number :: "lexeme \<Rightarrow> text16 \<Rightarrow> json_fault + rat \<times> text16" where
  "finish_number x t =
     (case x of (neg, ds, fs, e) \<Rightarrow>
        let q = num_value neg ds fs e in if is_finite_num q then Inr (q, t) else Inl NotFinite)"

definition exponent :: "bool \<Rightarrow> text16 \<Rightarrow> text16 \<Rightarrow> lexeme jp" where
  "exponent neg ds fs t =
     (if peek t = Some 0x65 \<or> peek t = Some 0x45 then
        (let u = tl t; v = (if peek u = Some 0x2B \<or> peek u = Some 0x2D then tl u else u); es = takeWhile is_dig v;
             e = int (digits_val es) in
         if es = [] then Inl BadExponent
         else Inr ((neg, ds, fs, if peek u = Some 0x2D then - e else e), dropWhile is_dig v))
      else Inr ((neg, ds, fs, 0), t))"

definition fraction :: "bool \<Rightarrow> text16 \<Rightarrow> lexeme jp" where
  "fraction neg ds t =
     (if peek t = Some 0x2E then
        (let fs = takeWhile is_dig (tl t) in
         if fs = [] then Inl BadFraction else exponent neg ds fs (dropWhile is_dig (tl t)))
      else exponent neg ds [] t)"

definition scan_number :: "lexeme jp" where
  "scan_number t =
     (let neg = (peek t = Some 0x2D); u = (if neg then tl t else t) in
      case u of
        [] \<Rightarrow> Inl BadNumber
      | c # r \<Rightarrow>
          if c = 0x30 then fraction neg [c] r
          else if is_dig c then fraction neg (takeWhile is_dig u) (dropWhile is_dig u)
          else Inl BadNumber)"

definition jnumber :: "rat jp" where
  "jnumber t = (case scan_number t of Inl e \<Rightarrow> Inl e | Inr (x, r) \<Rightarrow> finish_number x r)"

section \<open>Values\<close>

text \<open>
  \<open>any\<close> is the parser's \<open>any\<close> at nesting depth \<open>d\<close>; \<open>members\<close> and \<open>elements\<close> are the loops of \<open>object\<close>
  and \<open>array\<close> with what they have collected.
\<close>

function any :: "nat \<Rightarrow> nat \<Rightarrow> jvalue jp"
and members :: "nat \<Rightarrow> nat \<Rightarrow> (text16 \<times> jvalue) list \<Rightarrow> (text16 \<times> jvalue) list jp"
and elements :: "nat \<Rightarrow> nat \<Rightarrow> jvalue list \<Rightarrow> jvalue list jp" where
  "any mx d t =
     (case t of
        [] \<Rightarrow> Inl EndOfInput
      | c # r \<Rightarrow>
          if c = 0x7B then
            (if mx < Suc d then Inl (TooDeep mx)
             else if peek (ws r) = Some 0x7D then Inr (VObj [], tl (ws r))
             else (case members mx (Suc d) [] r of Inl e \<Rightarrow> Inl e | Inr (ob, u) \<Rightarrow> Inr (VObj ob, u)))
          else if c = 0x5B then
            (if mx < Suc d then Inl (TooDeep mx)
             else if peek (ws r) = Some 0x5D then Inr (VArr [], tl (ws r))
             else (case elements mx (Suc d) [] r of Inl e \<Rightarrow> Inl e | Inr (vs, u) \<Rightarrow> Inr (VArr vs, u)))
          else if c = 0x22 then (case jstring r of Inl e \<Rightarrow> Inl e | Inr (s, u) \<Rightarrow> Inr (VStr s, u))
          else if c = 0x74 then literal (units ''true'') (VBool True) t
          else if c = 0x66 then literal (units ''false'') (VBool False) t
          else if c = 0x6E then literal (units ''null'') VNull t
          else if c = 0x2D \<or> is_dig c then (case jnumber t of Inl e \<Rightarrow> Inl e | Inr (q, u) \<Rightarrow> Inr (VNum q, u))
          else Inl UnexpectedCharacter)"
| "members mx d out t =
     (if peek (ws t) \<noteq> Some 0x22 then Inl KeyNotString
      else (case jstring (tl (ws t)) of
              Inl e \<Rightarrow> Inl e
            | Inr (key, t1) \<Rightarrow>
                if key \<in> fst ` set out then Inl (DuplicateKey key)
                else if peek (ws t1) \<noteq> Some 0x3A then Inl (Expected 0x3A)
                else (case any mx d (ws (tl (ws t1))) of
                        Inl e \<Rightarrow> Inl e
                      | Inr (v, t2) \<Rightarrow>
                          if peek (ws t2) = Some 0x2C then members mx d (out @ [(key, v)]) (tl (ws t2))
                          else if peek (ws t2) = Some 0x7D then Inr (out @ [(key, v)], tl (ws t2))
                          else Inl MembersEnd)))"
| "elements mx d out t =
     (case any mx d (ws t) of
        Inl e \<Rightarrow> Inl e
      | Inr (v, t1) \<Rightarrow>
          if peek (ws t1) = Some 0x2C then elements mx d (out @ [v]) (tl (ws t1))
          else if peek (ws t1) = Some 0x5D then Inr (out @ [v], tl (ws t1))
          else Inl ElementsEnd)"
  by pat_completeness auto

lemma ws_length: "length (ws t) \<le> length t"
  by (simp add: ws_def length_dropWhile_le)

lemma peek_tl: "peek t = Some c \<Longrightarrow> length (tl t) < length t"
  by (cases t) (auto simp: peek_def)

lemma jp_bind:
  "(case m of Inl e \<Rightarrow> Inl e | Inr (x, r) \<Rightarrow> f x r) = Inr z \<longleftrightarrow> (\<exists>x r. m = Inr (x, r) \<and> f x r = Inr z)"
  by (auto split: sum.split prod.split)

definition is_plain :: "nat \<Rightarrow> bool" where
  "is_plain c \<longleftrightarrow> 0x20 \<le> c \<and> c \<noteq> 0x22 \<and> c \<noteq> 0x5C \<and> \<not> is_high c \<and> \<not> is_low c"

lemma unit_classes:
  "is_high c \<Longrightarrow> c \<noteq> 0x22 \<and> c \<noteq> 0x5C \<and> \<not> c < 0x20 \<and> \<not> is_low c \<and> \<not> is_plain c"
  "is_low c \<Longrightarrow> c \<noteq> 0x22 \<and> c \<noteq> 0x5C \<and> \<not> c < 0x20 \<and> \<not> is_high c \<and> \<not> is_plain c"
  by (auto simp: is_high_def is_low_def is_plain_def)

lemma jstring_Cons:
  "jstring (c # t) = Inr (s, r) \<longleftrightarrow>
     (c = 0x22 \<and> s = [] \<and> r = t) \<or>
     (c = 0x5C \<and> (\<exists>u t1 s1. escape t = Inr (u, t1) \<and> jstring t1 = Inr (s1, r) \<and> s = u @ s1)) \<or>
     (is_high c \<and> (\<exists>n t1 s1. t = n # t1 \<and> is_low n \<and> jstring t1 = Inr (s1, r) \<and> s = c # n # s1)) \<or>
     (is_plain c \<and> (\<exists>s1. jstring t = Inr (s1, r) \<and> s = c # s1))"
proof -
  consider "c = 0x22" | "c = 0x5C" | "c < 0x20" "c \<noteq> 0x22" "c \<noteq> 0x5C" | "is_high c" | "is_low c" | "is_plain c"
    unfolding is_plain_def by fastforce
  then show ?thesis
  proof cases
    case 4
    then show ?thesis using unit_classes(1) [OF 4] by (cases t) (auto simp: jp_bind)
  next
    case 5
    then show ?thesis using unit_classes(2) [OF 5] by (cases t) (auto simp: jp_bind)
  qed (auto simp: jp_bind is_plain_def is_high_def is_low_def)
qed

lemma jstring_shorter: "jstring t = Inr (s, r) \<Longrightarrow> length r < length t"
proof (induction t arbitrary: s r rule: length_induct)
  case (1 t)
  show ?case
  proof (cases t)
    case (Cons c u)
    have "r = u \<or> (\<exists>ys s1. length ys < length t \<and> jstring ys = Inr (s1, r))"
      using 1(2) unfolding Cons jstring_Cons
      by (elim disjE conjE exE) (auto dest: escape_shorter simp: less_Suc_eq)
    then show ?thesis using 1(1) Cons less_trans by fastforce
  qed (use 1(2) in simp)
qed

lemma exponent_shorter: "exponent neg ds fs t = Inr (q, r) \<Longrightarrow> length r \<le> length t"
  by (auto simp: exponent_def Let_def split: if_splits
      intro!: le_trans [OF length_dropWhile_le] dest: peek_tl)

lemma fraction_shorter: "fraction neg ds t = Inr (q, r) \<Longrightarrow> length r \<le> length t"
  by (auto simp: fraction_def Let_def split: if_splits dest!: exponent_shorter peek_tl
      intro: le_trans [OF _ le_trans [OF length_dropWhile_le]])

lemma scan_shorter: "scan_number t = Inr (q, r) \<Longrightarrow> length r < length t"
proof -
  assume n: "scan_number t = Inr (q, r)"
  define u where "u = (if peek t = Some 0x2D then tl t else t)"
  obtain c v where u: "u = c # v" using n by (auto simp: scan_number_def u_def Let_def split: list.splits)
  have "\<exists>neg ds w. fraction neg ds w = Inr (q, r) \<and> length w < length u"
  proof (cases "c = 0x30")
    case True
    then show ?thesis using n u by (auto simp: scan_number_def u_def [symmetric] Let_def)
  next
    case False
    have "length (dropWhile is_dig v) \<le> length v" by (rule length_dropWhile_le)
    then show ?thesis using False n u
      by (auto simp: scan_number_def u_def [symmetric] Let_def split: if_splits) fastforce
  qed
  moreover have "length u \<le> length t" by (simp add: u_def)
  ultimately show ?thesis using fraction_shorter by fastforce
qed

lemma jnumber_shorter: "jnumber t = Inr (q, r) \<Longrightarrow> length r < length t"
  by (auto simp: jnumber_def finish_number_def jp_bind Let_def split: if_splits dest: scan_shorter)

lemmas parse_lengths = ws_length jstring_shorter jnumber_shorter

lemma tl_ws: "peek (ws u) = Some c \<Longrightarrow> length (tl (ws u)) < length u"
  using peek_tl [of "ws u" c] ws_length [of u] by simp

lemma parse_shorter:
  "any_members_elements_dom (Inl (mx, d, t)) \<Longrightarrow> any mx d t = Inr (v, r) \<Longrightarrow> length r < length t"
  "any_members_elements_dom (Inr (Inl (mx, d, out, t))) \<Longrightarrow> members mx d out t = Inr (ob, r) \<Longrightarrow> length r < length t"
  "any_members_elements_dom (Inr (Inr (mx, d, vs, t))) \<Longrightarrow> elements mx d vs t = Inr (vs', r) \<Longrightarrow> length r < length t"
proof (induction mx d t and mx d out t and mx d vs t arbitrary: v r and ob r and vs' r rule: any_members_elements.pinduct)
  case (1 mx d t)
  note e = "1.prems" [unfolded any.psimps [OF 1(1)]]
  show ?case
  proof (cases t)
    case (Cons c u)
    have el: "c = 0x5B \<Longrightarrow> \<not> mx < Suc d \<Longrightarrow> peek (ws u) \<noteq> Some 0x5D \<Longrightarrow> elements mx (Suc d) [] u = Inr (vs, r) \<Longrightarrow>
        length r < length u" for vs r
      using 1(3) [OF Cons] by simp
    show ?thesis using e unfolding Cons
      by (auto simp: jp_bind literal_def split: if_splits dest!: 1(2) [OF Cons] el parse_lengths(2,3) tl_ws)
  qed (use e in simp)
next
  case (2 mx d out t)
  note e = "2.prems" [unfolded members.psimps [OF 2(1)]]
  obtain key t1 where k: "peek (ws t) = Some 0x22" "jstring (tl (ws t)) = Inr (key, t1)" "key \<notin> fst ` set out"
      "peek (ws t1) = Some 0x3A"
    using e by (auto simp: jp_bind split: if_splits)
  obtain v t2 where v: "any mx d (ws (tl (ws t1))) = Inr (v, t2)"
    using e k by (auto simp: jp_bind)
  have t1: "length t1 < length t" using jstring_shorter [OF k(2)] tl_ws [OF k(1)] by simp
  have "length t2 < length (ws (tl (ws t1)))" by (rule 2(2) [OF _ k(2) refl _ _ v]) (use k in simp_all)
  then have t2: "length t2 < length t" using t1 tl_ws [OF k(4)] ws_length [of "tl (ws t1)"] by simp
  have rest: "peek (ws t2) = Some 0x2C \<Longrightarrow> members mx d (out @ [(key, v)]) (tl (ws t2)) = Inr (ob, r) \<Longrightarrow> length r < length (tl (ws t2))"
    by (rule 2(3) [OF _ k(2) refl _ _ v refl]) (use k in simp_all)
  show ?case using e k v t2 rest tl_ws [of t2] by (fastforce split: if_splits)
next
  case (3 mx d out t)
  note e = "3.prems" [unfolded elements.psimps [OF 3(1)]]
  obtain v t1 where v: "any mx d (ws t) = Inr (v, t1)" using e by (auto simp: jp_bind)
  have "length t1 < length (ws t)" by (rule 3(2) [OF v])
  then have t1: "length t1 < length t" using ws_length [of t] by simp
  have rest: "peek (ws t1) = Some 0x2C \<Longrightarrow> elements mx d (out @ [v]) (tl (ws t1)) = Inr (vs', r) \<Longrightarrow> length r < length (tl (ws t1))"
    by (rule 3(3) [OF v refl])
  show ?case using e v t1 rest tl_ws [of t1] by (fastforce split: if_splits)
qed

termination any
proof (relation "measure (\<lambda>x. case x of Inl (mx, d, t) \<Rightarrow> 2 * length t
    | Inr (Inl (mx, d, out, t)) \<Rightarrow> 2 * length t + 1 | Inr (Inr (mx, d, out, t)) \<Rightarrow> 2 * length t + 1)", goal_cases)
  case (4 mx d out t z key t1)
  then have "length t1 < length t" "length (ws (tl (ws t1))) < length t1"
    using jstring_shorter [of "tl (ws t)" key t1] tl_ws [of t] tl_ws [of t1] ws_length [of "tl (ws t1)"] by simp_all
  then show ?case by simp
next
  case (5 mx d out t z key t1 y v t2)
  then have "length t1 < length t" "length (ws (tl (ws t1))) < length t1" "length t2 < length (ws (tl (ws t1)))"
      "length (tl (ws t2)) < length t2"
    using jstring_shorter [of "tl (ws t)" key t1] tl_ws [of t] tl_ws [of t1] tl_ws [of t2] ws_length [of "tl (ws t1)"]
      parse_shorter(1) [OF 5(9), of v t2] by auto
  then show ?case by simp
next
  case (6 mx d out t)
  then show ?case using ws_length [of t] by simp
next
  case (7 mx d out t z v t1)
  then have "length t1 < length (ws t)" "length (tl (ws t1)) < length t1" 
    using parse_shorter(1) [OF 7(4), of v t1] tl_ws [of t1] by auto
  then show ?case using ws_length [of t] by simp
qed auto

text \<open>\<open>Parser.value\<close>, and the two entry points with their options.\<close>

definition parse_value :: "nat \<Rightarrow> text16 \<Rightarrow> json_fault + jvalue" where
  "parse_value mx t =
     (case any mx 0 (ws t) of
        Inl e \<Rightarrow> Inl e
      | Inr (v, r) \<Rightarrow> if ws r = [] then Inr v else Inl TrailingBytes)"

definition maxJsonDepth :: nat where "maxJsonDepth = 32"

definition parseStrictJson :: "json_body \<Rightarrow> nat option \<Rightarrow> bool \<Rightarrow> json_fault + jvalue" where
  "parseStrictJson body maxDepth requireObject =
     (case decodeStrict body of
        Inl e \<Rightarrow> Inl e
      | Inr t \<Rightarrow>
          (case parse_value (case maxDepth of None \<Rightarrow> maxJsonDepth | Some n \<Rightarrow> n) t of
             Inl e \<Rightarrow> Inl e
           | Inr v \<Rightarrow> if requireObject \<and> \<not> is_VObj v then Inl NotObject else Inr v))"

definition parseStrictJsonObject :: "json_body \<Rightarrow> nat option \<Rightarrow> json_fault + jvalue" where
  "parseStrictJsonObject body maxDepth = parseStrictJson body maxDepth True"

end
