(* ===== verification/Strict_Json_Grammar.thy ===== *)
theory Strict_Json_Grammar
  imports Strict_Json
begin

text \<open>
  The grammar of RFC 8259, restricted as the gateway admits it, and the proof that the parser
  accepts exactly its texts.
\<close>

section \<open>Grammar\<close>

definition blank :: "text16 \<Rightarrow> bool" where "blank w \<longleftrightarrow> list_all is_ws w"

text \<open>Four hexadecimal digits and their value.\<close>

definition hex_quad :: "nat \<Rightarrow> text16 \<Rightarrow> bool" where
  "hex_quad v h \<longleftrightarrow> length h = 4 \<and> list_all (\<lambda>x. hex_val x \<noteq> None) h \<and> v = foldl (\<lambda>n x. n * 16 + the (hex_val x)) 0 h"

text \<open>A string value and the text between its quotes.\<close>

inductive str_text :: "text16 \<Rightarrow> text16 \<Rightarrow> bool" where
  st_end: "str_text [] []"
| st_plain: "is_plain c \<Longrightarrow> str_text s t \<Longrightarrow> str_text (c # s) (c # t)"
| st_pair: "is_high c \<Longrightarrow> is_low n \<Longrightarrow> str_text s t \<Longrightarrow> str_text (c # n # s) (c # n # t)"
| st_escape: "map_of simple_escapes e = Some x \<Longrightarrow> str_text s t \<Longrightarrow> str_text (x # s) (0x5C # e # t)"
| st_unit: "hex_quad c h \<Longrightarrow> \<not> is_high c \<Longrightarrow> \<not> is_low c \<Longrightarrow> str_text s t \<Longrightarrow> str_text (c # s) (0x5C # 0x75 # h @ t)"
| st_units: "hex_quad c h \<Longrightarrow> hex_quad n k \<Longrightarrow> is_high c \<Longrightarrow> is_low n \<Longrightarrow> str_text s t \<Longrightarrow>
    str_text (c # n # s) (0x5C # 0x75 # h @ 0x5C # 0x75 # k @ t)"

definition int_text :: "text16 \<Rightarrow> bool" where
  "int_text ds \<longleftrightarrow> ds \<noteq> [] \<and> list_all is_dig ds \<and> (hd ds = 0x30 \<longrightarrow> ds = [0x30])"

definition frac_text :: "text16 \<Rightarrow> text16 \<Rightarrow> bool" where
  "frac_text fs t \<longleftrightarrow> list_all is_dig fs \<and> t = (if fs = [] then [] else 0x2E # fs)"

definition exp_text :: "int \<Rightarrow> text16 \<Rightarrow> bool" where
  "exp_text e t \<longleftrightarrow> (e = 0 \<and> t = []) \<or>
     (\<exists>c sg es. c \<in> {0x65, 0x45} \<and> sg \<in> {[], [0x2B], [0x2D]} \<and> es \<noteq> [] \<and> list_all is_dig es \<and>
        e = (if sg = [0x2D] then - int (digits_val es) else int (digits_val es)) \<and> t = c # sg @ es)"

definition lexeme_text :: "lexeme \<Rightarrow> text16 \<Rightarrow> bool" where
  "lexeme_text x t \<longleftrightarrow> (case x of (neg, ds, fs, e) \<Rightarrow>
     (\<exists>fp ep. int_text ds \<and> frac_text fs fp \<and> exp_text e ep \<and> t = (if neg then [0x2D] else []) @ ds @ fp @ ep))"

definition num_text :: "rat \<Rightarrow> text16 \<Rightarrow> bool" where
  "num_text q t \<longleftrightarrow> (\<exists>neg ds fs e. lexeme_text (neg, ds, fs, e) t \<and> q = num_value neg ds fs e \<and> is_finite_num q)"

inductive json_text :: "jvalue \<Rightarrow> text16 \<Rightarrow> bool"
  and member_text :: "text16 \<Rightarrow> jvalue \<Rightarrow> text16 \<Rightarrow> bool"
  and members_text :: "(text16 \<times> jvalue) list \<Rightarrow> text16 \<Rightarrow> bool"
  and elements_text :: "jvalue list \<Rightarrow> text16 \<Rightarrow> bool" where
  jt_null: "json_text VNull (units ''null'')"
| jt_true: "json_text (VBool True) (units ''true'')"
| jt_false: "json_text (VBool False) (units ''false'')"
| jt_str: "str_text s w \<Longrightarrow> json_text (VStr s) (0x22 # w @ [0x22])"
| jt_num: "num_text q t \<Longrightarrow> json_text (VNum q) t"
| jt_empty_obj: "blank w \<Longrightarrow> json_text (VObj []) (0x7B # w @ [0x7D])"
| jt_obj: "members_text ob t \<Longrightarrow> distinct (map fst ob) \<Longrightarrow> json_text (VObj ob) (0x7B # t @ [0x7D])"
| jt_empty_arr: "blank w \<Longrightarrow> json_text (VArr []) (0x5B # w @ [0x5D])"
| jt_arr: "elements_text vs t \<Longrightarrow> json_text (VArr vs) (0x5B # t @ [0x5D])"
| mt_pair: "blank a \<Longrightarrow> str_text k w \<Longrightarrow> blank b \<Longrightarrow> blank c \<Longrightarrow> json_text v t \<Longrightarrow> blank e \<Longrightarrow>
    member_text k v (a @ 0x22 # w @ 0x22 # b @ 0x3A # c @ t @ e)"
| mt_last: "member_text k v t \<Longrightarrow> members_text [(k, v)] t"
| mt_more: "member_text k v t \<Longrightarrow> members_text ob u \<Longrightarrow> members_text ((k, v) # ob) (t @ 0x2C # u)"
| et_last: "blank a \<Longrightarrow> json_text v t \<Longrightarrow> blank e \<Longrightarrow> elements_text [v] (a @ t @ e)"
| et_more: "blank a \<Longrightarrow> json_text v t \<Longrightarrow> blank e \<Longrightarrow> elements_text vs u \<Longrightarrow> elements_text (v # vs) (a @ t @ e @ 0x2C # u)"

text \<open>The nesting of arrays and objects.\<close>

fun vdepth :: "jvalue \<Rightarrow> nat" where
  "vdepth (VArr vs) = Suc (foldr (\<lambda>v n. max (vdepth v) n) vs 0)"
| "vdepth (VObj ob) = Suc (foldr (\<lambda>(k, v) n. max (vdepth v) n) ob 0)"
| "vdepth _ = 0"

section \<open>Strings\<close>

lemma hex_quad_iff:
  "hex_quad v h \<longleftrightarrow> (\<exists>a b c d p q x y. h = [a, b, c, d] \<and> hex_val a = Some p \<and> hex_val b = Some q \<and> hex_val c = Some x \<and>
     hex_val d = Some y \<and> v = ((p * 16 + q) * 16 + x) * 16 + y)"
proof
  assume h: "hex_quad v h"
  then obtain a b c d where "h = [a, b, c, d]"
    unfolding hex_quad_def by (auto simp: numeral_eq_Suc length_Suc_conv)
  then show "\<exists>a b c d p q x y. h = [a, b, c, d] \<and> hex_val a = Some p \<and> hex_val b = Some q \<and> hex_val c = Some x \<and>
     hex_val d = Some y \<and> v = ((p * 16 + q) * 16 + x) * 16 + y"
    using h by (auto simp: hex_quad_def)
qed (auto simp: hex_quad_def)

lemma hex4_quad: "hex_quad v h \<Longrightarrow> hex4 (h @ r) = Inr (v, r)"
  by (auto simp: hex_quad_iff)

lemma hex4_iff: "hex4 t = Inr (v, r) \<longleftrightarrow> (\<exists>h. hex_quad v h \<and> t = h @ r)"
proof
  assume "hex4 t = Inr (v, r)"
  then obtain a b c d p q x y where
    "t = a # b # c # d # r" "hex_val a = Some p" "hex_val b = Some q" "hex_val c = Some x" "hex_val d = Some y"
    "v = ((p * 16 + q) * 16 + x) * 16 + y"
    by (cases t rule: hex4.cases) (auto split: option.splits)
  then have "hex_quad v [a, b, c, d]" "t = [a, b, c, d] @ r" by (auto simp: hex_quad_iff)
  then show "\<exists>h. hex_quad v h \<and> t = h @ r" by blast
qed (auto simp: hex4_quad)

lemma two_units: "take 2 r = [x, y] \<longleftrightarrow> (\<exists>u. r = x # y # u)"
  by (cases r; cases "tl r") auto

lemma escape_iff:
  "escape t = Inr (u, r) \<longleftrightarrow>
     (\<exists>e x. map_of simple_escapes e = Some x \<and> u = [x] \<and> t = e # r) \<or>
     (\<exists>c h. hex_quad c h \<and> \<not> is_high c \<and> \<not> is_low c \<and> u = [c] \<and> t = 0x75 # h @ r) \<or>
     (\<exists>c h n k. hex_quad c h \<and> hex_quad n k \<and> is_high c \<and> is_low n \<and> u = [c, n] \<and> t = 0x75 # h @ 0x5C # 0x75 # k @ r)"
proof (cases t)
  case (Cons e w)
  have u: "map_of simple_escapes 0x75 = None" by (simp add: simple_escapes_def)
  have step: "escape t = Inr (u, r) \<longleftrightarrow> (\<exists>hi r1. hex4 w = Inr (hi, r1) \<and>
      (is_high hi \<and> (\<exists>k lo. r1 = 0x5C # 0x75 # k \<and> hex4 k = Inr (lo, r) \<and> is_low lo \<and> u = [hi, lo]) \<or>
       \<not> is_high hi \<and> \<not> is_low hi \<and> u = [hi] \<and> r1 = r))" if "e = 0x75"
  proof -
    have F: "(if is_high hi then
           if take 2 r1 = [0x5C, 0x75]
           then (case hex4 (drop 2 r1) of Inl e \<Rightarrow> Inl e
                 | Inr (lo, r2) \<Rightarrow> if is_low lo then Inr ([hi, lo], r2) else Inl BadLowSurrogate)
           else Inl UnpairedHigh
         else if is_low hi then Inl LoneLow else Inr ([hi], r1)) = Inr (u, r) \<longleftrightarrow>
        (is_high hi \<and> (\<exists>k lo. r1 = 0x5C # 0x75 # k \<and> hex4 k = Inr (lo, r) \<and> is_low lo \<and> u = [hi, lo]) \<or>
         \<not> is_high hi \<and> \<not> is_low hi \<and> u = [hi] \<and> r1 = r)" for hi r1
    proof (cases "is_high hi")
      case True
      then show ?thesis by (cases "take 2 r1 = [0x5C, 0x75]") (auto simp: jp_bind two_units)
    qed auto
    show ?thesis using Cons that u by (simp add: escape_def jp_bind F)
  qed
  show ?thesis
  proof (cases "map_of simple_escapes e")
    case None
    show ?thesis
    proof (cases "e = 0x75")
      case True
      have "escape t = Inr (u, r) \<longleftrightarrow>
          (\<exists>hi k lo. hex4 w = Inr (hi, 0x5C # 0x75 # k) \<and> is_high hi \<and> hex4 k = Inr (lo, r) \<and> is_low lo \<and> u = [hi, lo]) \<or>
          (\<exists>hi. hex4 w = Inr (hi, r) \<and> \<not> is_high hi \<and> \<not> is_low hi \<and> u = [hi])"
        unfolding step [OF True] by (simp add: conj_disj_distribL ex_disj_distrib) blast
      also have "\<dots> \<longleftrightarrow>
          (\<exists>c h n k. hex_quad c h \<and> hex_quad n k \<and> is_high c \<and> is_low n \<and> u = [c, n] \<and> w = h @ 0x5C # 0x75 # k @ r) \<or>
          (\<exists>c h. hex_quad c h \<and> \<not> is_high c \<and> \<not> is_low c \<and> u = [c] \<and> w = h @ r)"
        unfolding hex4_iff by blast
      finally show ?thesis using Cons True u by auto
    qed (use Cons None in \<open>auto simp: escape_def\<close>)
  next
    case (Some x)
    then show ?thesis using Cons u by (auto simp: escape_def)
  qed
qed (simp add: escape_def)

declare jstring.simps(2) [simp del]

lemma jstring_sound: "jstring t = Inr (s, r) \<Longrightarrow> \<exists>w. str_text s w \<and> t = w @ 0x22 # r"
proof (induction "length t" arbitrary: t s rule: less_induct)
  case less
  obtain c u where t: "t = c # u" using less.prems by (cases t) auto
  have IH: "jstring v = Inr (s1, r) \<Longrightarrow> length v < length t \<Longrightarrow> \<exists>w. str_text s1 w \<and> v = w @ 0x22 # r" for v s1
    using less.hyps by blast
  from less.prems [unfolded t jstring_Cons] show ?case
  proof (elim disjE conjE exE)
    assume "s = []" "r = u" "c = 0x22"
    then show ?thesis using st_end t by (intro exI [of _ "[]"]) simp
  next
    fix e t1 s1 assume c: "c = 0x5C" and e: "escape u = Inr (e, t1)" and s1: "jstring t1 = Inr (s1, r)" and s: "s = e @ s1"
    obtain w where w: "str_text s1 w" "t1 = w @ 0x22 # r" using IH [OF s1] escape_shorter [OF e] t by auto
    show ?thesis using e unfolding escape_iff
      by (elim disjE exE conjE) (use t c s w in \<open>fastforce intro: st_escape st_unit st_units simp: append_assoc [symmetric] simp del: append_assoc\<close>)+
  next
    fix n t1 s1 assume "is_high c" "u = n # t1" "is_low n" "jstring t1 = Inr (s1, r)" "s = c # n # s1"
    then show ?thesis using IH [of t1 s1] t st_pair by fastforce
  next
    fix s1 assume "is_plain c" "jstring u = Inr (s1, r)" "s = c # s1"
    then show ?thesis using IH [of u s1] t st_plain by fastforce
  qed
qed

lemma jstring_complete: "str_text s w \<Longrightarrow> jstring (w @ 0x22 # r) = Inr (s, r)"
proof (induction rule: str_text.induct)
  case (st_escape e x s t)
  then have "escape ((e # t) @ 0x22 # r) = Inr ([x], t @ 0x22 # r)" unfolding escape_iff by auto
  then show ?case using st_escape.IH by (simp add: jstring_Cons)
next
  case (st_unit c h s t)
  then have "escape ((0x75 # h @ t) @ 0x22 # r) = Inr ([c], t @ 0x22 # r)" unfolding escape_iff by auto
  then show ?case using st_unit.IH by (simp add: jstring_Cons)
next
  case (st_units c h n k s t)
  then have "escape ((0x75 # h @ 0x5C # 0x75 # k @ t) @ 0x22 # r) = Inr ([c, n], t @ 0x22 # r)"
    unfolding escape_iff by auto
  then show ?case using st_units.IH by (simp add: jstring_Cons)
qed (auto simp: jstring_Cons)

lemma jstring_iff: "jstring t = Inr (s, r) \<longleftrightarrow> (\<exists>w. str_text s w \<and> t = w @ 0x22 # r)"
  using jstring_sound jstring_complete by blast

section \<open>Numbers of text\<close>

text \<open>What may follow a number without being part of it.\<close>

definition num_stop :: "text16 \<Rightarrow> bool" where
  "num_stop t \<longleftrightarrow> (case peek t of None \<Rightarrow> True | Some c \<Rightarrow> \<not> is_dig c \<and> c \<notin> {0x2E, 0x65, 0x45})"

lemma peek_simps [simp]: "peek [] = None" "peek (c # t) = Some c"
  by (simp_all add: peek_def)

lemma peek_Some: "peek t = Some c \<longleftrightarrow> (\<exists>u. t = c # u)"
  by (cases t) auto

lemma digits_split:
  "list_all is_dig (takeWhile is_dig t)" "takeWhile is_dig t @ dropWhile is_dig t = t"
  by (auto simp: list_all_iff dest: set_takeWhileD)

lemma digits_stop:
  assumes "list_all is_dig ds" "\<And>c. peek r = Some c \<Longrightarrow> \<not> is_dig c"
  shows "takeWhile is_dig (ds @ r) = ds" "dropWhile is_dig (ds @ r) = r"
proof -
  have "takeWhile is_dig r = []" "dropWhile is_dig r = r" using assms(2) by (cases r; simp)+
  then show "takeWhile is_dig (ds @ r) = ds" "dropWhile is_dig (ds @ r) = r"
    using assms(1) by (simp_all add: list_all_iff takeWhile_append dropWhile_append)
qed

lemma finish_iff:
  "finish_number (neg, ds, fs, e) t = Inr (q, r) \<longleftrightarrow> q = num_value neg ds fs e \<and> is_finite_num q \<and> r = t"
  by (auto simp: finish_number_def Let_def)

lemma exponent_run:
  assumes "c \<in> {0x65, 0x45}" "(if peek u = Some 0x2B \<or> peek u = Some 0x2D then tl u else u) = v"
  shows "exponent neg ds fs (c # u) =
    (if takeWhile is_dig v = [] then Inl BadExponent
     else Inr ((neg, ds, fs,
       if peek u = Some 0x2D then - int (digits_val (takeWhile is_dig v)) else int (digits_val (takeWhile is_dig v))),
       dropWhile is_dig v))"
  unfolding exponent_def Let_def list.sel assms(2) using assms(1) by auto

lemma exponent_sound:
  assumes "exponent neg ds fs t = Inr (x, r)"
  shows "\<exists>e ep. exp_text e ep \<and> t = ep @ r \<and> x = (neg, ds, fs, e)"
proof (cases "peek t = Some 0x65 \<or> peek t = Some 0x45")
  case True
  then obtain c u where t: "t = c # u" "c \<in> {0x65, 0x45}" by (auto simp: peek_Some)
  define sg :: text16 where "sg = (if peek u = Some 0x2B then [0x2B] else if peek u = Some 0x2D then [0x2D] else [])"
  define v where "v = (if peek u = Some 0x2B \<or> peek u = Some 0x2D then tl u else u)"
  define es where "es = takeWhile is_dig v"
  have u: "u = sg @ v" by (auto simp: sg_def v_def peek_Some)
  let ?e = "if peek u = Some 0x2D then - int (digits_val es) else int (digits_val es)"
  have run: "exponent neg ds fs t = (if es = [] then Inl BadExponent else Inr ((neg, ds, fs, ?e), dropWhile is_dig v))"
    unfolding t(1) es_def by (rule exponent_run [OF t(2)]) (simp add: v_def)
  then have es: "es \<noteq> []" using assms by auto
  then have r: "r = dropWhile is_dig v" "x = (neg, ds, fs, ?e)" using assms run by simp_all
  have sgn: "(peek u = Some 0x2D) = (sg = [0x2D])" by (auto simp: sg_def)
  have "sg \<in> {[], [0x2B], [0x2D]}" by (simp add: sg_def)
  moreover have "list_all is_dig es" unfolding es_def by (rule digits_split)
  ultimately have "exp_text ?e (c # sg @ es)"
    unfolding exp_text_def sgn using t(2) es by blast
  moreover have "t = (c # sg @ es) @ r" using t(1) u r(1) digits_split(2) [of v] by (simp add: es_def)
  ultimately show ?thesis using r(2) by blast
next
  case False
  then have "t = r" "x = (neg, ds, fs, 0)" using assms by (auto simp: exponent_def)
  then show ?thesis by (intro exI [of _ 0] exI [of _ "[]"]) (simp add: exp_text_def)
qed

lemma exponent_complete:
  assumes "exp_text e ep" "num_stop r"
  shows "exponent neg ds fs (ep @ r) = Inr ((neg, ds, fs, e), r)"
  using assms(1) unfolding exp_text_def
proof (elim disjE exE conjE)
  assume "e = 0" "ep = []"
  moreover have "\<not> (peek r = Some 0x65 \<or> peek r = Some 0x45)" using assms(2) by (auto simp: num_stop_def)
  ultimately show ?thesis by (simp add: exponent_def)
next
  fix c :: nat and sg es
  assume c: "c \<in> {0x65, 0x45}" and sg: "sg \<in> {[], [0x2B], [0x2D]}" and es: "es \<noteq> []" "list_all is_dig es"
    and e: "e = (if sg = [0x2D] then - int (digits_val es) else int (digits_val es))" and ep: "ep = c # sg @ es"
  obtain d ds' where d: "es = d # ds'" "is_dig d" using es by (cases es) auto
  have nosign: "d \<noteq> 0x2B" "d \<noteq> 0x2D" using d(2) by (auto simp: is_dig_def)
  have stop: "takeWhile is_dig (es @ r) = es" "dropWhile is_dig (es @ r) = r"
    using assms(2) by (auto intro!: digits_stop [OF es(2)] simp: num_stop_def)
  define w where "w = sg @ es @ r"
  have strip: "(if peek w = Some 0x2B \<or> peek w = Some 0x2D then tl w else w) = es @ r"
    using sg d nosign by (auto simp: w_def)
  have minus: "peek w = Some 0x2D \<longleftrightarrow> sg = [0x2D]" using sg d nosign by (auto simp: w_def)
  have "exponent neg ds fs (c # w) = Inr ((neg, ds, fs, e), r)"
    unfolding exponent_run [OF c strip] stop minus e using es(1) by simp
  then show ?thesis unfolding ep by (simp add: w_def)
qed

lemma fraction_sound:
  assumes "fraction neg ds t = Inr (x, r)"
  shows "\<exists>fs fp e ep. frac_text fs fp \<and> exp_text e ep \<and> t = fp @ ep @ r \<and> x = (neg, ds, fs, e)"
proof (cases "peek t = Some 0x2E")
  case True
  then obtain u where t: "t = 0x2E # u" by (auto simp: peek_Some)
  define fs where "fs = takeWhile is_dig u"
  have fs: "fs \<noteq> []" "exponent neg ds fs (dropWhile is_dig u) = Inr (x, r)"
    using assms unfolding t by (auto simp: fraction_def Let_def fs_def split: if_splits)
  obtain e ep where "exp_text e ep" "dropWhile is_dig u = ep @ r" "x = (neg, ds, fs, e)"
    using exponent_sound [OF fs(2)] by blast
  moreover have "frac_text fs (0x2E # fs)" using fs(1) digits_split(1) [of u] by (simp add: frac_text_def fs_def)
  moreover have "t = (0x2E # fs) @ dropWhile is_dig u" using t digits_split(2) [of u] by (simp add: fs_def)
  ultimately show ?thesis by fastforce
next
  case False
  then have "exponent neg ds [] t = Inr (x, r)" using assms by (simp add: fraction_def)
  then obtain e ep where "exp_text e ep" "t = ep @ r" "x = (neg, ds, [], e)" using exponent_sound by blast
  then show ?thesis by (intro exI [of _ "[]"] exI [of _ e] exI [of _ ep]) (simp add: frac_text_def)
qed

lemma exp_text_stop: "exp_text e ep \<Longrightarrow> num_stop r \<Longrightarrow> peek (ep @ r) = Some c \<Longrightarrow> \<not> is_dig c \<and> c \<noteq> 0x2E"
  by (auto simp: exp_text_def num_stop_def is_dig_def)

lemma fraction_complete:
  assumes "frac_text fs fp" "exp_text e ep" "num_stop r"
  shows "fraction neg ds (fp @ ep @ r) = Inr ((neg, ds, fs, e), r)"
proof (cases "fs = []")
  case True
  have "peek (ep @ r) \<noteq> Some 0x2E" using exp_text_stop [OF assms(2,3)] by blast
  then show ?thesis using True assms exponent_complete [OF assms(2,3)] by (simp add: fraction_def frac_text_def)
next
  case False
  have fs: "list_all is_dig fs" "fp = 0x2E # fs" using assms(1) False by (simp_all add: frac_text_def)
  have "takeWhile is_dig (fs @ ep @ r) = fs" "dropWhile is_dig (fs @ ep @ r) = ep @ r"
    using digits_stop [OF fs(1), of "ep @ r"] exp_text_stop [OF assms(2,3)] by blast+
  then show ?thesis using False fs(2) exponent_complete [OF assms(2,3)] by (simp add: fraction_def Let_def)
qed

lemma scan_sound: assumes "scan_number t = Inr (x, r)" shows "\<exists>u. lexeme_text x u \<and> t = u @ r"
proof -
  define neg where "neg = (peek t = Some 0x2D)"
  define u where "u = (if neg then tl t else t)"
  have t: "t = (if neg then [0x2D] else []) @ u" by (auto simp: u_def neg_def peek_Some)
  obtain c v where u: "u = c # v" using assms by (auto simp: scan_number_def u_def neg_def Let_def split: list.splits)
  have "\<exists>ds w. int_text ds \<and> u = ds @ w \<and> fraction neg ds w = Inr (x, r)"
  proof (cases "c = 0x30")
    case True
    then have "fraction neg [c] v = Inr (x, r)" using assms u by (simp add: scan_number_def u_def [symmetric] neg_def [symmetric] Let_def)
    then show ?thesis using True u by (intro exI [of _ "[c]"] exI [of _ v]) (simp add: int_text_def is_dig_def)
  next
    case False
    then have "is_dig c" "fraction neg (takeWhile is_dig u) (dropWhile is_dig u) = Inr (x, r)"
      using assms u by (auto simp: scan_number_def u_def [symmetric] neg_def [symmetric] Let_def split: if_splits)
    moreover have "int_text (takeWhile is_dig u)"
      using \<open>is_dig c\<close> False digits_split(1) [of u] u by (simp add: int_text_def)
    ultimately show ?thesis using digits_split(2) [of u] by metis
  qed
  then obtain ds w where ds: "int_text ds" "u = ds @ w" "fraction neg ds w = Inr (x, r)" by blast
  obtain fs fp e ep where f: "frac_text fs fp" "exp_text e ep" "w = fp @ ep @ r" "x = (neg, ds, fs, e)"
    using fraction_sound [OF ds(3)] by blast
  then have "lexeme_text x ((if neg then [0x2D] else []) @ ds @ fp @ ep)" using ds(1) unfolding lexeme_text_def by auto
  moreover have "t = ((if neg then [0x2D] else []) @ ds @ fp @ ep) @ r" using t ds(2) f(3) by simp
  ultimately show ?thesis by blast
qed

lemma scan_complete: assumes "lexeme_text x u" "num_stop r" shows "scan_number (u @ r) = Inr (x, r)"
proof -
  obtain neg ds fs e fp ep where n: "int_text ds" "frac_text fs fp" "exp_text e ep"
      "u = (if neg then [0x2D] else []) @ ds @ fp @ ep" "x = (neg, ds, fs, e)"
    using assms(1) unfolding lexeme_text_def by (cases x) auto
  obtain c v where c: "ds = c # v" "is_dig c" using n(1) by (cases ds) (auto simp: int_text_def)
  have neg: "peek (u @ r) = Some 0x2D \<longleftrightarrow> neg" "(if neg then tl (u @ r) else u @ r) = ds @ fp @ ep @ r"
    using c unfolding n(4) by (auto simp: is_dig_def)
  have tail: "peek (fp @ ep @ r) = Some d \<Longrightarrow> \<not> is_dig d" for d
    using n(2) exp_text_stop [OF n(3) assms(2)] by (auto simp: frac_text_def is_dig_def split: if_splits)
  have stop: "takeWhile is_dig (ds @ fp @ ep @ r) = ds" "dropWhile is_dig (ds @ fp @ ep @ r) = fp @ ep @ r"
    using digits_stop [of ds "fp @ ep @ r"] tail n(1) by (auto simp: int_text_def)
  have frac: "fraction neg ds (fp @ ep @ r) = Inr (x, r)"
    using fraction_complete [OF n(2,3) assms(2)] n(5) by simp
  show ?thesis
  proof (cases "c = 0x30")
    case True
    then show ?thesis using n(1) c frac neg by (simp add: scan_number_def Let_def int_text_def)
  next
    case False
    then show ?thesis using c frac neg stop by (simp add: scan_number_def Let_def)
  qed
qed

lemma jnumber_sound: assumes "jnumber t = Inr (q, r)" shows "\<exists>u. num_text q u \<and> t = u @ r"
proof -
  obtain neg ds fs e where x: "scan_number t = Inr ((neg, ds, fs, e), r)" "q = num_value neg ds fs e" "is_finite_num q"
    using assms unfolding jnumber_def jp_bind by (auto simp: finish_iff)
  then show ?thesis using scan_sound [OF x(1)] unfolding num_text_def by blast
qed

lemma jnumber_complete: "num_text q u \<Longrightarrow> num_stop r \<Longrightarrow> jnumber (u @ r) = Inr (q, r)"
  unfolding num_text_def jnumber_def jp_bind by (auto simp: finish_iff dest: scan_complete)

section \<open>Values of text\<close>

lemma ws_split: "\<exists>w. blank w \<and> t = w @ ws t"
  by (intro exI [of _ "takeWhile is_ws t"]) (auto simp: blank_def ws_def list_all_iff dest: set_takeWhileD)

lemma ws_blank: "blank w \<Longrightarrow> ws (w @ t) = ws t"
  by (simp add: ws_def blank_def list_all_iff dropWhile_append)

lemma ws_Cons [simp]: "\<not> is_ws c \<Longrightarrow> ws (c # t) = c # t"
  by (simp add: ws_def)

lemma ws_all: "ws t = [] \<longleftrightarrow> blank t"
  by (simp add: ws_def blank_def list_all_iff dropWhile_eq_Nil_conv)

lemma peek_ws: "peek (ws t) = Some c \<Longrightarrow> \<exists>w. blank w \<and> t = w @ c # tl (ws t)"
  using ws_split [of t] by (cases "ws t") auto

lemma marks [simp]: "\<not> is_ws 0x22" "\<not> is_ws 0x2C" "\<not> is_ws 0x3A" "\<not> is_ws 0x5B" "\<not> is_ws 0x5D" "\<not> is_ws 0x7B" "\<not> is_ws 0x7D"
  by (simp_all add: is_ws_def)

lemma depth_le:
  "vdepth (VArr vs) \<le> Suc n \<longleftrightarrow> (\<forall>v\<in>set vs. vdepth v \<le> n)"
  "vdepth (VObj ob) \<le> Suc n \<longleftrightarrow> (\<forall>(k, v)\<in>set ob. vdepth v \<le> n)"
proof -
  have "foldr (\<lambda>v m. max (vdepth v) m) vs 0 \<le> n \<longleftrightarrow> (\<forall>v\<in>set vs. vdepth v \<le> n)" by (induction vs) auto
  moreover have "foldr (\<lambda>(k, v) m. max (vdepth v) m) ob 0 \<le> n \<longleftrightarrow> (\<forall>(k, v)\<in>set ob. vdepth v \<le> n)"
    by (induction ob) (auto split: prod.splits)
  ultimately show "vdepth (VArr vs) \<le> Suc n \<longleftrightarrow> (\<forall>v\<in>set vs. vdepth v \<le> n)"
    "vdepth (VObj ob) \<le> Suc n \<longleftrightarrow> (\<forall>(k, v)\<in>set ob. vdepth v \<le> n)" by simp_all
qed

definition room :: "nat \<Rightarrow> nat \<Rightarrow> jvalue \<Rightarrow> bool" where
  "room mx d v \<longleftrightarrow> d + vdepth v \<le> mx"

lemma room_leaf [simp]: "d \<le> mx \<Longrightarrow> vdepth v = 0 \<Longrightarrow> room mx d v"
  by (simp add: room_def)

lemma room_arr: "room mx d (VArr vs) \<longleftrightarrow> Suc d \<le> mx \<and> (\<forall>v\<in>set vs. room mx (Suc d) v)"
proof (cases "Suc d \<le> mx")
  case True
  then have "room mx d (VArr vs) \<longleftrightarrow> vdepth (VArr vs) \<le> Suc (mx - Suc d)" by (auto simp: room_def)
  also have "\<dots> \<longleftrightarrow> (\<forall>v\<in>set vs. room mx (Suc d) v)" using True unfolding depth_le by (auto simp: room_def)
  finally show ?thesis using True by simp
qed (simp add: room_def)

lemma room_obj: "room mx d (VObj ob) \<longleftrightarrow> Suc d \<le> mx \<and> (\<forall>(k, v)\<in>set ob. room mx (Suc d) v)"
proof (cases "Suc d \<le> mx")
  case True
  then have "room mx d (VObj ob) \<longleftrightarrow> vdepth (VObj ob) \<le> Suc (mx - Suc d)" by (auto simp: room_def)
  also have "\<dots> \<longleftrightarrow> (\<forall>(k, v)\<in>set ob. room mx (Suc d) v)" using True unfolding depth_le by (auto simp: room_def)
  finally show ?thesis using True by simp
qed (simp add: room_def)

declare any.simps [simp del] members.simps [simp del] elements.simps [simp del]

lemma literal_iff: "literal w v t = Inr (x, r) \<longleftrightarrow> x = v \<and> t = w @ r"
  by (auto simp: literal_def) (metis append_take_drop_id)

lemma parse_sound:
  "any mx d t = Inr (v, r) \<Longrightarrow> d \<le> mx \<Longrightarrow> \<exists>u. json_text v u \<and> room mx d v \<and> t = u @ r"
  "members mx d out t = Inr (res, r) \<Longrightarrow> d \<le> mx \<Longrightarrow>
     \<exists>ob u. res = out @ ob \<and> members_text ob u \<and> t = u @ 0x7D # r \<and> distinct (map fst ob) \<and>
       set (map fst ob) \<inter> set (map fst out) = {} \<and> (\<forall>(k, v)\<in>set ob. room mx d v)"
  "elements mx d vs t = Inr (res', r) \<Longrightarrow> d \<le> mx \<Longrightarrow>
     \<exists>ws u. res' = vs @ ws \<and> elements_text ws u \<and> t = u @ 0x5D # r \<and> (\<forall>v\<in>set ws. room mx d v)"
proof (induction mx d t and mx d out t and mx d vs t arbitrary: v r and res r and res' r rule: any_members_elements.induct)
  case (1 mx d t)
  obtain c w where t: "t = c # w" using "1.prems"(1) by (cases t) (auto simp: any.simps)
  note e = "1.prems"(1) [unfolded t any.simps [of mx d "c # w"] list.case]
  consider "c = 0x7B" | "c = 0x5B" | "c = 0x22" | "c = 0x74" | "c = 0x66" | "c = 0x6E"
    | "c = 0x2D \<or> is_dig c" "c \<notin> {0x7B, 0x5B, 0x22, 0x74, 0x66, 0x6E}"
    using e by (auto split: if_splits)
  then show ?case
  proof cases
    case 1
    have sd: "Suc d \<le> mx" using e 1 by (auto split: if_splits)
    show ?thesis
    proof (cases "peek (ws w) = Some 0x7D")
      case True
      then have v: "v = VObj []" "r = tl (ws w)" using e 1 sd by auto
      obtain b where "blank b" "w = b @ 0x7D # r" using peek_ws [OF True] v(2) by blast
      then show ?thesis using jt_empty_obj [of b] v(1) sd 1 unfolding t by (intro exI [of _ "0x7B # b @ [0x7D]"]) (auto simp: room_obj)
    next
      case False
      then obtain ob where ob: "members mx (Suc d) [] w = Inr (ob, r)" "v = VObj ob" using e 1 sd by (auto simp: jp_bind)
      obtain u where "members_text ob u" "w = u @ 0x7D # r" "distinct (map fst ob)" "\<forall>(k, v)\<in>set ob. room mx (Suc d) v"
        using "1.IH"(1) [OF t 1 _ False ob(1) sd] sd by auto
      then show ?thesis using jt_obj [of ob u] ob(2) sd 1 unfolding t by (intro exI [of _ "0x7B # u @ [0x7D]"]) (auto simp: room_obj)
    qed
  next
    case 2
    have sd: "Suc d \<le> mx" using e 2 by (auto split: if_splits)
    show ?thesis
    proof (cases "peek (ws w) = Some 0x5D")
      case True
      then have v: "v = VArr []" "r = tl (ws w)" using e 2 sd by auto
      obtain b where "blank b" "w = b @ 0x5D # r" using peek_ws [OF True] v(2) by blast
      then show ?thesis using jt_empty_arr [of b] v(1) sd 2 unfolding t by (intro exI [of _ "0x5B # b @ [0x5D]"]) (auto simp: room_arr)
    next
      case False
      then obtain vs where vs: "elements mx (Suc d) [] w = Inr (vs, r)" "v = VArr vs" using e 2 sd by (auto simp: jp_bind)
      obtain u where "elements_text vs u" "w = u @ 0x5D # r" "\<forall>v\<in>set vs. room mx (Suc d) v"
        using "1.IH"(2) [OF t _ 2 _ False vs(1) sd] sd 2 by auto
      then show ?thesis using jt_arr [of vs u] vs(2) sd 2 unfolding t by (intro exI [of _ "0x5B # u @ [0x5D]"]) (auto simp: room_arr)
    qed
  next
    case 3
    obtain s where s: "jstring w = Inr (s, r)" "v = VStr s" using e 3 by (auto simp: jp_bind)
    obtain x where "str_text s x" "w = x @ 0x22 # r" using jstring_sound [OF s(1)] by blast
    then show ?thesis using jt_str s(2) 3 "1.prems"(2) unfolding t by (intro exI [of _ "0x22 # x @ [0x22]"]) auto
  next
    case 7
    then obtain q where q: "jnumber t = Inr (q, r)" "v = VNum q" using e t by (auto simp: jp_bind)
    obtain u where "num_text q u" "t = u @ r" using jnumber_sound [OF q(1)] by blast
    then show ?thesis using jt_num q(2) "1.prems"(2) by (intro exI [of _ u]) auto
  qed (use e "1.prems"(2) t jt_null jt_true jt_false in \<open>auto simp: literal_iff\<close>)
next
  case (2 mx d out t)
  obtain key t1 v t2 where k: "peek (ws t) = Some 0x22" "jstring (tl (ws t)) = Inr (key, t1)" "key \<notin> fst ` set out"
      "peek (ws t1) = Some 0x3A" "any mx d (ws (tl (ws t1))) = Inr (v, t2)"
    using "2.prems"(1) by (auto simp: jp_bind members.simps [of mx d out t] split: if_splits)
  obtain u where u: "json_text v u" "room mx d v" "ws (tl (ws t1)) = u @ t2"
    using "2.IH"(1) [OF _ k(2) refl _ _ k(5) "2.prems"(2)] k by auto
  obtain a w b c where abc: "blank a" "str_text key w" "blank b" "blank c" "t = a @ 0x22 # w @ 0x22 # b @ 0x3A # c @ u @ t2"
    using peek_ws [OF k(1)] jstring_sound [OF k(2)] peek_ws [OF k(4)] ws_split [of "tl (ws t1)"] u(3) by metis
  note e = "2.prems"(1) [unfolded members.simps [of mx d out t] k(2,5)]
  show ?case
  proof (cases "peek (ws t2) = Some 0x2C")
    case True
    have el: "members mx d (out @ [(key, v)]) (tl (ws t2)) = Inr (res, r)" using e k True by simp
    obtain ob x where x: "res = (out @ [(key, v)]) @ ob" "members_text ob x" "tl (ws t2) = x @ 0x7D # r" "distinct (map fst ob)"
        "set (map fst ob) \<inter> set (map fst (out @ [(key, v)])) = {}" "\<forall>(k, v)\<in>set ob. room mx d v"
      using "2.IH"(2) [OF _ k(2) refl _ _ k(5) refl True el "2.prems"(2)] k by auto
    obtain f where f: "blank f" "t2 = f @ 0x2C # x @ 0x7D # r" using peek_ws [OF True] x(3) by metis
    show ?thesis
      using mt_more [OF mt_pair [OF abc(1-4) u(1) f(1)] x(2)] x u(2) k(3) unfolding abc(5) f(2)
      by (intro exI [of _ "(key, v) # ob"] exI [of _ "(a @ 0x22 # w @ 0x22 # b @ 0x3A # c @ u @ f) @ 0x2C # x"]) auto
  next
    case False
    then have p: "peek (ws t2) = Some 0x7D" "res = out @ [(key, v)]" "tl (ws t2) = r" using e k by (auto split: if_splits)
    obtain f where f: "blank f" "t2 = f @ 0x7D # r" using peek_ws [OF p(1)] p(3) by metis
    show ?thesis
      using mt_last [OF mt_pair [OF abc(1-4) u(1) f(1)]] p(2) u(2) k(3) unfolding abc(5) f(2)
      by (intro exI [of _ "[(key, v)]"] exI [of _ "a @ 0x22 # w @ 0x22 # b @ 0x3A # c @ u @ f"]) auto
  qed
next
  case (3 mx d out t)
  obtain v t1 where v: "any mx d (ws t) = Inr (v, t1)" using "3.prems" by (auto simp: jp_bind elements.simps [of mx d out t])
  obtain u a where u: "json_text v u" "room mx d v" "blank a" "t = a @ u @ t1"
    using "3.IH"(1) [OF v "3.prems"(2)] ws_split [of t] by metis
  note e = "3.prems"(1) [unfolded elements.simps [of mx d out t] v]
  show ?case
  proof (cases "peek (ws t1) = Some 0x2C")
    case True
    have el: "elements mx d (out @ [v]) (tl (ws t1)) = Inr (res', r)" using e True by simp
    obtain us w where w: "res' = (out @ [v]) @ us" "elements_text us w" "tl (ws t1) = w @ 0x5D # r" "\<forall>v\<in>set us. room mx d v"
      using "3.IH"(2) [OF v refl True el "3.prems"(2)] by blast
    obtain b where "blank b" "t1 = b @ 0x2C # w @ 0x5D # r" using peek_ws [OF True] w(3) by metis
    then show ?thesis using u w et_more [OF u(3,1) _ w(2), of b]
      by (intro exI [of _ "v # us"] exI [of _ "a @ u @ b @ 0x2C # w"]) auto
  next
    case False
    then have p: "peek (ws t1) = Some 0x5D" "res' = out @ [v]" "tl (ws t1) = r" using e by (auto split: if_splits)
    obtain b where "blank b" "t1 = b @ 0x5D # r" using peek_ws [OF p(1)] p(3) by metis
    then show ?thesis using u p(2) et_last [OF u(3,1), of b]
      by (intro exI [of _ "[v]"] exI [of _ "a @ u @ b"]) auto
  qed
qed

text \<open>A value starts with none of the blanks and of the separators.\<close>

lemma json_text_head: "json_text v u \<Longrightarrow> \<exists>c w. u = c # w \<and> \<not> is_ws c \<and> c \<noteq> 0x5D \<and> c \<noteq> 0x7D"
proof (cases v)
  case (VNum q)
  assume "json_text v u"
  then have "num_text q u" using VNum by (auto elim: json_text.cases)
  then obtain neg ds w where "int_text ds" "u = (if neg then [0x2D] else []) @ ds @ w" unfolding num_text_def lexeme_text_def by auto
  then show ?thesis by (cases ds; cases neg) (auto simp: int_text_def is_dig_def is_ws_def)
qed (auto elim: json_text.cases simp: is_ws_def)

lemma elements_text_head: "elements_text vs u \<Longrightarrow> peek (ws (u @ r)) \<noteq> Some 0x5D"
  by (erule elements_text.cases) (auto simp: ws_blank dest!: json_text_head)

lemma members_text_head: "members_text ob u \<Longrightarrow> peek (ws (u @ r)) = Some 0x22"
  by (erule members_text.cases) (auto simp: ws_blank elim!: member_text.cases)

lemma any_number:
  assumes "num_text q u" "num_stop r" shows "any mx d (u @ r) = Inr (VNum q, r)"
proof -
  obtain neg ds w where u: "int_text ds" "u = (if neg then [0x2D] else []) @ ds @ w"
    using assms(1) unfolding num_text_def lexeme_text_def by auto
  then obtain c x where "u = c # x" "c = 0x2D \<or> is_dig c" by (cases ds; cases neg) (auto simp: int_text_def)
  then show ?thesis using jnumber_complete [OF assms] by (auto simp: any.simps is_dig_def)
qed

lemma blank_stop: "blank e \<Longrightarrow> c \<in> {0x2C, 0x7D, 0x5D} \<Longrightarrow> num_stop (e @ c # t)"
  by (cases e) (auto simp: blank_def num_stop_def is_ws_def is_dig_def)

lemma parse_complete:
  "json_text v u \<Longrightarrow> room mx d v \<Longrightarrow> num_stop r \<Longrightarrow> any mx d (u @ r) = Inr (v, r)"
  "member_text k v u \<Longrightarrow> room mx d v \<Longrightarrow> c \<in> {0x2C, 0x7D} \<Longrightarrow> k \<notin> fst ` set out \<Longrightarrow>
     members mx d out (u @ c # r) = (if c = 0x2C then members mx d (out @ [(k, v)]) r else Inr (out @ [(k, v)], r))"
  "members_text ob u \<Longrightarrow> (\<forall>(k, v)\<in>set ob. room mx d v) \<Longrightarrow> distinct (map fst out @ map fst ob) \<Longrightarrow>
     members mx d out (u @ 0x7D # r) = Inr (out @ ob, r)"
  "elements_text vs u \<Longrightarrow> (\<forall>v\<in>set vs. room mx d v) \<Longrightarrow> elements mx d xs (u @ 0x5D # r) = Inr (xs @ vs, r)"
proof (induction arbitrary: d r and d c out r and d out r and d xs r
    rule: json_text_member_text_members_text_elements_text.inducts)
  case (jt_str s w)
  then show ?case using jstring_complete [of s w r] by (simp add: any.simps)
next
  case (jt_num q t)
  then show ?case by (simp add: any_number)
next
  case (jt_empty_obj w)
  then show ?case by (simp add: any.simps room_obj ws_blank)
next
  case (jt_obj ob t)
  then have "Suc d \<le> mx" "\<forall>(k, v)\<in>set ob. room mx (Suc d) v" by (auto simp: room_obj)
  then show ?case using jt_obj members_text_head [OF jt_obj(1), of "0x7D # r"] by (simp add: any.simps)
next
  case (jt_empty_arr w)
  then show ?case by (simp add: any.simps room_arr ws_blank)
next
  case (jt_arr vs t)
  then have "Suc d \<le> mx" "\<forall>v\<in>set vs. room mx (Suc d) v" by (auto simp: room_arr)
  then show ?case using jt_arr elements_text_head [OF jt_arr(1), of "0x5D # r"] by (simp add: any.simps)
next
  case (mt_pair a k w b c' v t e)
  obtain x y where xy: "t = x # y" "\<not> is_ws x" using json_text_head [OF mt_pair.hyps(5)] by blast
  have v: "any mx d (t @ e @ c # r) = Inr (v, e @ c # r)"
    using mt_pair.IH mt_pair.prems blank_stop [OF mt_pair.hyps(6), of c r] by auto
  have "jstring (w @ 0x22 # b @ 0x3A # c' @ t @ e @ c # r) = Inr (k, b @ 0x3A # c' @ t @ e @ c # r)"
    using jstring_complete [OF mt_pair.hyps(2)] .
  then show ?case using mt_pair.hyps mt_pair.prems v xy by (auto simp: members.simps [of mx d out] ws_blank)
next
  case (mt_last k v t)
  then show ?case by simp
next
  case (mt_more k v t ob u)
  then have "members mx d out (t @ 0x2C # u @ 0x7D # r) = members mx d (out @ [(k, v)]) (u @ 0x7D # r)" by simp
  also have "\<dots> = Inr ((out @ [(k, v)]) @ ob, r)" using mt_more by (intro mt_more.IH(2)) auto
  finally show ?case by simp
next
  case (et_last a v t e)
  obtain x y where xy: "t = x # y" "\<not> is_ws x" using json_text_head [OF et_last(2)] by blast
  have "any mx d (t @ e @ 0x5D # r) = Inr (v, e @ 0x5D # r)"
    using et_last blank_stop [of e "0x5D" r] by auto
  then show ?case using et_last xy by (auto simp: elements.simps [of mx d xs] ws_blank)
next
  case (et_more a v t e vs u)
  obtain x y where xy: "t = x # y" "\<not> is_ws x" using json_text_head [OF et_more(2)] by blast
  have "any mx d (t @ e @ 0x2C # u @ 0x5D # r) = Inr (v, e @ 0x2C # u @ 0x5D # r)"
    using et_more blank_stop [of e "0x2C" "u @ 0x5D # r"] by auto
  moreover have "elements mx d (xs @ [v]) (u @ 0x5D # r) = Inr ((xs @ [v]) @ vs, r)" using et_more by auto
  ultimately show ?case using et_more(1,3) xy by (auto simp: elements.simps [of mx d xs] ws_blank)
qed (auto simp: any.simps literal_def)

theorem parse_value_iff:
  "parse_value mx t = Inr v \<longleftrightarrow> (\<exists>a u b. blank a \<and> json_text v u \<and> blank b \<and> t = a @ u @ b \<and> vdepth v \<le> mx)"
proof
  assume "parse_value mx t = Inr v"
  then obtain r where r: "any mx 0 (ws t) = Inr (v, r)" "ws r = []"
    by (auto simp: parse_value_def split: sum.splits if_splits)
  obtain u where "json_text v u" "room mx 0 v" "ws t = u @ r" using parse_sound(1) [OF r(1)] by blast
  then show "\<exists>a u b. blank a \<and> json_text v u \<and> blank b \<and> t = a @ u @ b \<and> vdepth v \<le> mx"
    using ws_split [of t] r(2) unfolding ws_all room_def by (metis add_0)
next
  assume "\<exists>a u b. blank a \<and> json_text v u \<and> blank b \<and> t = a @ u @ b \<and> vdepth v \<le> mx"
  then obtain a u b where t: "blank a" "json_text v u" "blank b" "t = a @ u @ b" "vdepth v \<le> mx" by blast
  obtain c w where c: "u = c # w" "\<not> is_ws c" using json_text_head [OF t(2)] by blast
  have "num_stop b" using t(3) by (cases b) (auto simp: blank_def num_stop_def is_ws_def is_dig_def)
  then have "any mx 0 (u @ b) = Inr (v, b)" using t by (intro parse_complete(1)) (simp_all add: room_def)
  then show "parse_value mx t = Inr v" using t c by (simp add: parse_value_def ws_blank ws_all)
qed

end
