(* ===== verification/Strict_Json_Facts.thy ===== *)
theory Strict_Json_Facts
  imports Strict_Json_Grammar Crypto_Text
begin

text \<open>
  What the strict parser does with the bytes of a body, and with the canonical texts the
  gateway itself signs and stores.
\<close>

section \<open>UTF-8\<close>

definition is_scalar :: "nat \<Rightarrow> bool" where
  "is_scalar p \<longleftrightarrow> p < 0x110000 \<and> \<not> (0xD800 \<le> p \<and> p \<le> 0xDFFF)"

definition utf8_of :: "nat \<Rightarrow> nat list" where
  "utf8_of p =
     (if p < 0x80 then [p]
      else if p < 0x800 then [0xC0 + p div 64, 0x80 + p mod 64]
      else if p < 0x10000 then [0xE0 + p div 4096, 0x80 + p div 64 mod 64, 0x80 + p mod 64]
      else [0xF0 + p div 262144, 0x80 + p div 4096 mod 64, 0x80 + p div 64 mod 64, 0x80 + p mod 64])"

lemma cont_split: "is_cont c \<longleftrightarrow> (\<exists>x<64. c = 0x80 + x)"
  unfolding is_cont_def by (auto intro: exI [of _ "c - 128"])

lemma six_bits:
  "y < 64 \<Longrightarrow> (x * 64 + y) div 64 = x" "y < 64 \<Longrightarrow> (x * 64 + y) mod 64 = (y::nat)"
  by simp_all

lemma utf8_of_2: assumes "0xC2 \<le> b" "b \<le> 0xDF" "is_cont c"
  shows "is_scalar ((b - 0xC0) * 64 + (c - 0x80))" "utf8_of ((b - 0xC0) * 64 + (c - 0x80)) = [b, c]"
proof -
  obtain x y where "b = 0xC0 + x" "2 \<le> x" "x < 32" "c = 0x80 + y" "y < 64"
    using assms by (auto simp: cont_split intro: that [of "b - 0xC0"])
  then show "is_scalar ((b - 0xC0) * 64 + (c - 0x80))" "utf8_of ((b - 0xC0) * 64 + (c - 0x80)) = [b, c]"
    by (simp_all add: is_scalar_def utf8_of_def)
qed

lemma utf8_of_3: assumes "0xE0 \<le> b" "b \<le> 0xEF" "is_cont c" "is_cont d" "b = 0xE0 \<longrightarrow> 0xA0 \<le> c" "b = 0xED \<longrightarrow> c \<le> 0x9F"
  shows "is_scalar ((b - 0xE0) * 4096 + (c - 0x80) * 64 + (d - 0x80))"
    "utf8_of ((b - 0xE0) * 4096 + (c - 0x80) * 64 + (d - 0x80)) = [b, c, d]"
proof -
  obtain x y z where v: "b = 0xE0 + x" "x < 16" "c = 0x80 + y" "y < 64" "d = 0x80 + z" "z < 64"
    using assms by (auto simp: cont_split intro: that [of "b - 0xE0"])
  have b: "x = 0 \<longrightarrow> 32 \<le> y" "x = 13 \<longrightarrow> y < 32" using assms(5,6) v by auto
  have p: "(b - 0xE0) * 4096 + (c - 0x80) * 64 + (d - 0x80) = (x * 64 + y) * 64 + z" using v by simp
  have low: "0x800 \<le> (x * 64 + y) * 64 + z" using b(1) by (cases "x = 0") auto
  have "x < 13 \<or> x = 13 \<or> 14 \<le> x" by auto
  then have sur: "(x * 64 + y) * 64 + z < 0xD800 \<or> 0xDFFF < (x * 64 + y) * 64 + z" using b(2) v by auto
  show "is_scalar ((b - 0xE0) * 4096 + (c - 0x80) * 64 + (d - 0x80))"
    unfolding p is_scalar_def using sur v by auto
  define P where "P = (x * 64 + y) * 64 + z"
  have "P div 64 = x * 64 + y" "P mod 64 = z" unfolding P_def by (simp_all only: six_bits v)
  moreover have "P div 4096 = P div 64 div 64" by (simp add: div_mult2_eq [symmetric])
  ultimately have "P div 4096 = x" "P div 64 mod 64 = y" "P mod 64 = z" using v by (simp_all add: six_bits)
  moreover have "\<not> P < 0x80" "\<not> P < 0x800" "P < 0x10000" using low v by (simp_all add: P_def)
  ultimately show "utf8_of ((b - 0xE0) * 4096 + (c - 0x80) * 64 + (d - 0x80)) = [b, c, d]"
    unfolding p P_def [symmetric] utf8_of_def using v by simp
qed

lemma utf8_of_4: assumes "0xF0 \<le> b" "b \<le> 0xF4" "is_cont c" "is_cont d" "is_cont e" "b = 0xF0 \<longrightarrow> 0x90 \<le> c" "b = 0xF4 \<longrightarrow> c \<le> 0x8F"
  shows "is_scalar ((b - 0xF0) * 262144 + (c - 0x80) * 4096 + (d - 0x80) * 64 + (e - 0x80))"
    "utf8_of ((b - 0xF0) * 262144 + (c - 0x80) * 4096 + (d - 0x80) * 64 + (e - 0x80)) = [b, c, d, e]"
proof -
  obtain x y z w where v: "b = 0xF0 + x" "x < 5" "c = 0x80 + y" "y < 64" "d = 0x80 + z" "z < 64" "e = 0x80 + w" "w < 64"
    using assms by (auto simp: cont_split intro: that [of "b - 0xF0"])
  have b: "x = 0 \<longrightarrow> 16 \<le> y" "x = 4 \<longrightarrow> y < 16" using assms(6,7) v by auto
  let ?p = "((x * 64 + y) * 64 + z) * 64 + w"
  have p: "(b - 0xF0) * 262144 + (c - 0x80) * 4096 + (d - 0x80) * 64 + (e - 0x80) = ?p" using v by simp
  have low: "0x10000 \<le> ?p" using b(1) by (cases "x = 0") auto
  have high: "?p < 0x110000" using b(2) v by (cases "x = 4") auto
  show "is_scalar ((b - 0xF0) * 262144 + (c - 0x80) * 4096 + (d - 0x80) * 64 + (e - 0x80))"
    unfolding p is_scalar_def using low high by auto
  define P where "P = ?p"
  have "P div 64 = (x * 64 + y) * 64 + z" "P mod 64 = w" unfolding P_def by (simp_all only: six_bits v)
  moreover have "P div 4096 = P div 64 div 64" "P div 262144 = P div 64 div 64 div 64" by (simp_all add: div_mult2_eq [symmetric])
  moreover have "((x * 64 + y) * 64 + z) div 64 = x * 64 + y" "((x * 64 + y) * 64 + z) mod 64 = z" by (simp_all only: six_bits v)
  ultimately have "P div 262144 = x" "P div 4096 mod 64 = y" "P div 64 mod 64 = z" "P mod 64 = w" using v by (simp_all add: six_bits)
  moreover have "\<not> P < 0x80" "\<not> P < 0x800" "\<not> P < 0x10000" using low by (simp_all add: P_def)
  ultimately show "utf8_of ((b - 0xF0) * 262144 + (c - 0x80) * 4096 + (d - 0x80) * 64 + (e - 0x80)) = [b, c, d, e]"
    unfolding p P_def [symmetric] utf8_of_def using v by simp
qed

lemma utf8_decode_sound: "utf8_decode bs = Some ps \<Longrightarrow> list_all is_scalar ps \<and> bs = concat (map utf8_of ps)"
proof (induction bs arbitrary: ps rule: utf8_decode.induct)
  case (2 b bs)
  consider "b < 0x80" | "0xC2 \<le> b" "b \<le> 0xDF" | "0xE0 \<le> b" "b \<le> 0xEF" | "0xF0 \<le> b" "b \<le> 0xF4"
    using "2.prems" by (auto split: if_splits)
  then show ?case
  proof cases
    case 1
    then obtain qs where "utf8_decode bs = Some qs" "ps = b # qs" using "2.prems" by auto
    then show ?thesis using "2.IH"(1) 1 by (simp add: is_scalar_def utf8_of_def)
  next
    case c: 2
    then obtain c r qs where r: "bs = c # r" "is_cont c" "utf8_decode r = Some qs" "ps = ((b - 0xC0) * 64 + (c - 0x80)) # qs"
      using "2.prems" by (auto split: list.splits if_splits)
    have "list_all is_scalar qs \<and> r = concat (map utf8_of qs)" using "2.IH"(2) [OF _ _ r(1,2,3)] c by simp
    then show ?thesis using utf8_of_2 [OF c r(2)] r by simp
  next
    case c: 3
    then obtain c1 c2 r qs where r: "bs = c1 # c2 # r" "is_cont c1" "is_cont c2" "b = 0xE0 \<longrightarrow> 0xA0 \<le> c1" "b = 0xED \<longrightarrow> c1 \<le> 0x9F"
        "utf8_decode r = Some qs" "ps = ((b - 0xE0) * 4096 + (c1 - 0x80) * 64 + (c2 - 0x80)) # qs"
      using "2.prems" by (auto split: list.splits if_splits)
    have "list_all is_scalar qs \<and> r = concat (map utf8_of qs)" using "2.IH"(3) [OF _ _ _ r(1) refl _ r(6)] c r by simp
    then show ?thesis using utf8_of_3 [OF c r(2-5)] r by simp
  next
    case c: 4
    then obtain c1 c2 c3 r qs where r: "bs = c1 # c2 # c3 # r" "is_cont c1" "is_cont c2" "is_cont c3" "b = 0xF0 \<longrightarrow> 0x90 \<le> c1" "b = 0xF4 \<longrightarrow> c1 \<le> 0x8F"
        "utf8_decode r = Some qs" "ps = ((b - 0xF0) * 262144 + (c1 - 0x80) * 4096 + (c2 - 0x80) * 64 + (c3 - 0x80)) # qs"
      using "2.prems" by (auto split: list.splits if_splits)
    have "list_all is_scalar qs \<and> r = concat (map utf8_of qs)" using "2.IH"(4) [OF _ _ _ _ r(1) refl refl _ r(7)] c r by simp
    then show ?thesis using utf8_of_4 [OF c r(2-6)] r by simp
  qed
qed simp

lemma utf8_decode_of: "is_scalar p \<Longrightarrow> utf8_decode (utf8_of p @ r) = map_option (\<lambda>ps. p # ps) (utf8_decode r)"
proof -
  assume s: "is_scalar p"
  have c: "is_cont (0x80 + n)" if "n < 64" for n using that by (simp add: cont_split)
  define z y x where "z = p mod 64" and "y = p div 64 mod 64" and "x = p div 64 div 64"
  have v: "z < 64" "y < 64" "p = (x * 64 + y) * 64 + z" "p div 64 = x * 64 + y" "p div 4096 = x"
    using div_mult_mod_eq [of p 64] div_mult_mod_eq [of "p div 64" 64]
    by (simp_all add: z_def y_def x_def div_mult2_eq [symmetric])
  have "p < 0x110000" using s by (simp add: is_scalar_def)
  then have "p < 0x80 \<or> 0x80 \<le> p \<and> p < 0x800 \<or> 0x800 \<le> p \<and> p < 0x10000 \<or> 0x10000 \<le> p \<and> p < 0x110000" by auto
  then consider "p < 0x80" | "0x80 \<le> p" "p < 0x800" | "0x800 \<le> p" "p < 0x10000" | "0x10000 \<le> p" "p < 0x110000"
    by blast
  then show ?thesis
  proof cases
    case 2
    then have x0: "x = 0" using v(1-3) by simp
    then have "128 \<le> y * 64 + z" "y * 64 + z < 2048" using 2 v(3) by simp_all
    then have x: "x = 0" "2 \<le> y" "y < 32" using x0 v(1) by linarith+
    then have "utf8_of p = [0xC0 + y, 0x80 + z]" using 2 v(4) by (simp add: utf8_of_def z_def)
    moreover have "y * 64 + z = p" using v(3) x(1) by simp
    ultimately show ?thesis using x(2,3) c [OF v(1)] by simp
  next
    case 3
    have x: "x < 16" "x = 0 \<longrightarrow> 32 \<le> y" "x = 13 \<longrightarrow> y \<le> 31" using 3 s v(1-3) by (auto simp: is_scalar_def)
    have "utf8_of p = [0xE0 + x, 0x80 + y, 0x80 + z]" using 3 v(5) by (simp add: utf8_of_def z_def y_def)
    moreover have "x * 4096 + y * 64 + z = p" using v(3) by simp
    ultimately show ?thesis using x c [OF v(1)] c [OF v(2)] by simp
  next
    case 4
    define u w where "u = x mod 64" and "w = x div 64"
    have "p div 262144 = p div 4096 div 64" by (simp add: div_mult2_eq [symmetric])
    then have uw: "u < 64" "x = w * 64 + u" "p div 4096 mod 64 = u" "p div 262144 = w"
      unfolding v(5) u_def w_def by simp_all
    have pp: "p = w * 262144 + u * 4096 + y * 64 + z" using v(3) uw(2) by simp
    have "w < 5" using 4 pp by linarith
    moreover have "16 \<le> u" if "w = 0" using that 4 pp uw(1) v(1,2) by linarith
    moreover have "u \<le> 15" if "w = 4" using that 4 pp by linarith
    ultimately have x: "w < 5" "w = 0 \<longrightarrow> 16 \<le> u" "w = 4 \<longrightarrow> u \<le> 15" by simp_all
    have "utf8_of p = [0xF0 + w, 0x80 + u, 0x80 + y, 0x80 + z]" using 4 uw(3,4) by (simp add: utf8_of_def z_def y_def)
    moreover have "w * 262144 + u * 4096 + y * 64 + z = p" using pp by simp
    ultimately show ?thesis using x c [OF v(1)] c [OF v(2)] c [OF uw(1)] by simp
  qed (simp add: utf8_of_def)
qed

lemma utf8_decode_iff: "utf8_decode bs = Some ps \<longleftrightarrow> list_all is_scalar ps \<and> bs = concat (map utf8_of ps)"
proof -
  have "list_all is_scalar ps \<Longrightarrow> utf8_decode (concat (map utf8_of ps)) = Some ps" for ps
    by (induction ps) (simp_all add: utf8_decode_of)
  then show ?thesis using utf8_decode_sound by blast
qed

lemma parse_bytes_iff:
  "parseStrictJson (BodyBytes bs) mx False = Inr v \<longleftrightarrow>
     (\<exists>ps. list_all is_scalar ps \<and> bs = concat (map utf8_of ps) \<and> take 1 ps \<noteq> [0xFEFF] \<and>
        parse_value (case mx of None \<Rightarrow> 32 | Some n \<Rightarrow> n) (concat (map utf16_of ps)) = Inr v)"
proof -
  have mark: "utf8_of 0xFEFF = [0xEF, 0xBB, 0xBF]" by (simp add: utf8_of_def)
  have first: "take 3 (utf8_of p @ r) = [0xEF, 0xBB, 0xBF] \<longleftrightarrow> p = 0xFEFF" if "is_scalar p" for p r
  proof
    assume h: "take 3 (utf8_of p @ r) = [0xEF, 0xBB, 0xBF]"
    have "p < 0x800 \<Longrightarrow> p div 64 < 32" by (simp add: less_mult_imp_div_less)
    then have m: "0x800 \<le> p" "p < 0x10000" using h by (auto simp: utf8_of_def split: if_splits)
    then have d: "p div 4096 = 15" "p div 64 mod 64 = 59" "p mod 64 = 63" using h by (simp_all add: utf8_of_def)
    have "p div 64 = 15 * 64 + 59" using d(1,2) div_mult_mod_eq [of "p div 64" 64] by (simp add: div_mult2_eq [symmetric])
    then show "p = 0xFEFF" using d(3) div_mult_mod_eq [of p 64] by simp
  qed (simp add: mark)
  have bom: "take 3 (concat (map utf8_of ps)) = [0xEF, 0xBB, 0xBF] \<longleftrightarrow> take 1 ps = [0xFEFF]"
    and bom16: "take 1 (concat (map utf16_of ps)) = [0xFEFF] \<longleftrightarrow> take 1 ps = [0xFEFF]" if "list_all is_scalar ps" for ps
  proof -
    have surr: "a < 0x110000 \<Longrightarrow> (a - 0x10000) div 0x400 < 0x400" for a :: nat by (simp add: less_mult_imp_div_less)
    show "take 3 (concat (map utf8_of ps)) = [0xEF, 0xBB, 0xBF] \<longleftrightarrow> take 1 ps = [0xFEFF]"
      using that by (cases ps) (simp_all add: first del: take_append)
    show "take 1 (concat (map utf16_of ps)) = [0xFEFF] \<longleftrightarrow> take 1 ps = [0xFEFF]"
      using that surr [of "hd ps"] by (cases ps) (auto simp: utf16_of_def is_scalar_def)
  qed
  show ?thesis
  proof (cases "utf8_decode bs")
    case None
    then show ?thesis using utf8_decode_iff [of bs] by (auto simp: parseStrictJson_def)
  next
    case (Some ps)
    then have ps: "list_all is_scalar ps" "bs = concat (map utf8_of ps)" by (simp_all add: utf8_decode_iff)
    have only: "qs = ps" if "list_all is_scalar qs" "bs = concat (map utf8_of qs)" for qs
    proof -
      have "utf8_decode bs = Some qs" unfolding utf8_decode_iff using that by blast
      then show ?thesis using Some by simp
    qed
    define txt16 where "txt16 = concat (map utf16_of ps)"
    have dec: "decodeStrict (BodyBytes bs) = (if take 1 ps = [0xFEFF] then Inl ByteOrderMark else Inr txt16)"
      using Some bom [OF ps(1)] bom16 [OF ps(1)] ps(2) by (simp add: checkBom_def txt16_def)
    have pass: "(case x of Inl e \<Rightarrow> Inl e | Inr w \<Rightarrow> if False \<and> \<not> is_VObj w then Inl NotObject else Inr w) = x"
      for x :: "json_fault + jvalue" by (cases x) simp_all
    have run: "parseStrictJson (BodyBytes bs) mx False =
        (if take 1 ps = [0xFEFF] then Inl ByteOrderMark else parse_value (case mx of None \<Rightarrow> 32 | Some n \<Rightarrow> n) txt16)"
      unfolding parseStrictJson_def dec maxJsonDepth_def by (simp add: pass [simplified])
    have "(\<exists>qs. list_all is_scalar qs \<and> bs = concat (map utf8_of qs) \<and> take 1 qs \<noteq> [0xFEFF] \<and> F qs) \<longleftrightarrow>
        take 1 ps \<noteq> [0xFEFF] \<and> F ps" for F
    proof
      assume "\<exists>qs. list_all is_scalar qs \<and> bs = concat (map utf8_of qs) \<and> take 1 qs \<noteq> [0xFEFF] \<and> F qs"
      then obtain qs where q: "list_all is_scalar qs" "bs = concat (map utf8_of qs)" "take 1 qs \<noteq> [0xFEFF]" "F qs" by blast
      show "take 1 ps \<noteq> [0xFEFF] \<and> F ps" using only [OF q(1,2)] q(3,4) by simp
    next
      assume "take 1 ps \<noteq> [0xFEFF] \<and> F ps"
      then show "\<exists>qs. list_all is_scalar qs \<and> bs = concat (map utf8_of qs) \<and> take 1 qs \<noteq> [0xFEFF] \<and> F qs"
        using ps by (intro exI [of _ ps]) simp
    qed
    then show ?thesis unfolding run txt16_def by simp
  qed
qed

section \<open>Canonical texts\<close>

text \<open>A value of the gateway's canonical domain as the strict parser returns it: keys in order.\<close>

fun parsed_form :: "json \<Rightarrow> jvalue" where
  "parsed_form JNull = VNull"
| "parsed_form (JBool b) = VBool b"
| "parsed_form (JNum i) = VNum (of_int i)"
| "parsed_form JNumOther = VNull"
| "parsed_form (JStr s) = VStr (units s)"
| "parsed_form (JArr es) = VArr (map parsed_form es)"
| "parsed_form (JObj ob) = VObj (map (\<lambda>(k, v). (units k, v)) (sort_key fst (map (\<lambda>(k, v). (k, parsed_form v)) ob)))"

fun distinct_keys :: "json \<Rightarrow> bool" where
  "distinct_keys (JArr es) = list_all distinct_keys es"
| "distinct_keys (JObj ob) = (distinct (map fst ob) \<and> list_all (\<lambda>(k, v). distinct_keys v) ob)"
| "distinct_keys v = True"

lemma hex_val_digit: "d < 16 \<Longrightarrow> hex_val (of_char (digit_char d)) = Some d"
  by (auto simp: hex_val_def digit_char_def of_char_of)

lemma esc_units: "str_text s w \<Longrightarrow> str_text (of_char c # s) (units (json_esc c) @ w)"
proof -
  assume s: "str_text s w"
  define n where "n = (of_char c :: nat)"
  have n: "n < 256" by (simp add: n_def)
  have esc: "str_text (n # s) (0x5C # e # w)" if "map_of simple_escapes e = Some n" for e
    using st_escape [OF that s] .
  consider "n \<in> {34, 92, 8, 9, 10, 12, 13}" | "n < 32" "n \<notin> {8, 9, 10, 12, 13}" | "32 \<le> n" "n \<noteq> 34" "n \<noteq> 92" by fastforce
  then show ?thesis
  proof cases
    case 1
    then show ?thesis using esc [of 34] esc [of 92] esc [of 98] esc [of 102] esc [of 110] esc [of 114] esc [of 116]
      by (auto simp: json_esc_def n_def [symmetric] Let_def simple_escapes_def)
  next
    case 2
    have "n div 16 < 16" "n mod 16 < 16" using n by simp_all
    then have "hex_quad n [0x30, 0x30, of_char (digit_char (n div 16)), of_char (digit_char (n mod 16))]"
      by (simp add: hex_quad_def hex_val_digit) (simp add: hex_val_def)
    from st_unit [OF this _ _ s] show ?thesis using 2
      by (auto simp: json_esc_def hex_byte_def n_def [symmetric] Let_def is_high_def is_low_def)
  next
    case 3
    then have "is_plain n" using n by (simp add: is_plain_def is_high_def is_low_def)
    from st_plain [OF this s] show ?thesis using 3 by (simp add: json_esc_def n_def [symmetric] Let_def)
  qed
qed

lemma quote_units: "json_text (VStr (units s)) (units (json_quote s))"
proof -
  have "str_text (units s) (units (concat (map json_esc s)))"
    by (induction s) (auto intro: st_end esc_units)
  from jt_str [OF this] show ?thesis by (simp add: json_quote_def)
qed

lemma digit_unit: "is_digit c \<Longrightarrow> is_dig (of_char c) \<and> of_char c - 0x30 = char_digit c"
  by (auto simp: is_digit_def is_dig_def char_digit_def Let_def)

lemma digits_units: "\<forall>c\<in>set s. is_digit c \<Longrightarrow> digits_val (units s) = dec_val s"
  unfolding digits_val_def radix_val_def
  by (induction s rule: rev_induct) (auto simp: digit_unit)

lemma int_lexeme:
  "lexeme_text (i < 0, units (dec_str (nat \<bar>i\<bar>)), [], 0) (units (int_str i))"
  "num_value (i < 0) (units (dec_str (nat \<bar>i\<bar>))) [] 0 = of_int i"
proof -
  define n where "n = nat \<bar>i\<bar>"
  have d: "\<forall>c\<in>set (dec_str n). is_digit c" using dec_str_digits by blast
  show "num_value (i < 0) (units (dec_str (nat \<bar>i\<bar>))) [] 0 = of_int i"
    using digits_units [OF d] by (auto simp: num_value_def n_def Let_def)
  obtain c r where cr: "dec_str n = c # r" using dec_str_nonempty [of n] by (cases "dec_str n") auto
  have zero: "c = CHR ''0'' \<longrightarrow> r = []" using dec_str_hd [of n] cr by (cases "n = 0") (auto simp: dec_str_zero)
  have "(of_char c = (of_char CHR ''0'' :: nat)) = (c = CHR ''0'')" by (rule of_char_eq_iff)
  then have it: "int_text (units (dec_str n))" using d zero by (auto simp: int_text_def list_all_iff digit_unit cr)
  have "units (int_str i) = (if i < 0 then [0x2D] else []) @ units (dec_str n) @ [] @ []"
    by (simp add: int_str_def n_def)
  then show "lexeme_text (i < 0, units (dec_str (nat \<bar>i\<bar>)), [], 0) (units (int_str i))"
    unfolding lexeme_text_def using it by (auto simp: frac_text_def exp_text_def n_def)
qed

lemma int_units: assumes "\<bar>i\<bar> < 2 ^ 970" shows "json_text (VNum (of_int i)) (units (int_str i))"
proof (rule jt_num)
  have "\<bar>of_int i :: rat\<bar> < 2 ^ 970" using assms by (metis of_int_abs of_int_less_iff of_int_numeral of_int_power)
  moreover have "(2::rat) ^ 970 \<le> 2 ^ 1024 - 2 ^ 970" by simp
  ultimately have "is_finite_num (of_int i)" unfolding is_finite_num_def by linarith
  then show "num_text (of_int i) (units (int_str i))" unfolding num_text_def using int_lexeme [of i] by metis
qed

lemma elements_units:
  "es \<noteq> [] \<Longrightarrow> (\<forall>e\<in>set es. json_text (f e) (units (g e))) \<Longrightarrow>
   elements_text (map f es) (units (join_with '','' (map g es)))"
proof (induction es)
  case (Cons e es)
  have blank: "blank []" by (simp add: blank_def)
  show ?case
  proof (cases es)
    case Nil
    then show ?thesis using Cons et_last [OF blank _ blank, of "f e" "units (g e)"] by simp
  next
    case (Cons e' es')
    then show ?thesis using Cons.prems Cons.IH
        et_more [OF blank _ blank, of "f e" "units (g e)" "map f es" "units (join_with '','' (map g es))"] by simp
  qed
qed simp

lemma members_units:
  "ob \<noteq> [] \<Longrightarrow> (\<forall>(k, v)\<in>set ob. json_text (f v) (units (g v))) \<Longrightarrow>
   members_text (map (\<lambda>(k, v). (units k, f v)) ob) (units (join_with '','' (map (\<lambda>(k, v). json_quote k @ '':'' @ g v) ob)))"
proof (induction ob)
  case (Cons x ob)
  obtain k v where x: "x = (k, v)" by (cases x)
  have blank: "blank []" by (simp add: blank_def)
  obtain w where w: "str_text (units k) w" "units (json_quote k) = 0x22 # w @ [0x22]"
    using quote_units [of k] by (auto elim: json_text.cases)
  have m: "member_text (units k) (f v) (units (json_quote k @ '':'' @ g v))"
    using mt_pair [OF blank w(1) blank blank _ blank, of "f v" "units (g v)"] Cons.prems(2) w(2) by (simp add: x)
  show ?case
  proof (cases ob)
    case Nil
    then show ?thesis using mt_last [OF m] by (simp add: x)
  next
    case (Cons y ys)
    then show ?thesis using mt_more [OF m, of "map (\<lambda>(k, v). (units k, f v)) ob"] Cons.IH Cons.prems by (simp add: x)
  qed
qed simp

lemma sort_key_snd: "sort_key fst (map (\<lambda>(k, v). (k, f v)) ob) = map (\<lambda>(k, v). (k, f v)) (sort_key fst ob)"
proof -
  have ins: "insort_key fst (k, f v) (map (\<lambda>(k, v). (k, f v)) xs) = map (\<lambda>(k, v). (k, f v)) (insort_key fst (k, v) xs)" for k v xs
    by (induction xs) auto
  show ?thesis by (induction ob) (auto simp: ins)
qed

lemma encode_text: "isCanonicalDomainValue v \<Longrightarrow> distinct_keys v \<Longrightarrow> json_text (parsed_form v) (units (encode v))"
proof (induction v)
  case JNull
  show ?case using jt_null by simp
next
  case (JBool b)
  show ?case using jt_true jt_false by (cases b) simp_all
next
  case (JNum i)
  have "(9007199254740991::int) < 2 ^ 970" by simp
  then have "\<bar>i\<bar> < 2 ^ 970" using JNum by (auto simp: is_safe_def MAX_SAFE_def)
  then show ?case using int_units by simp
next
  case (JStr s)
  show ?case using quote_units by simp
next
  case (JArr es)
  then have ih: "\<forall>e\<in>set es. json_text (parsed_form e) (units (encode e))" by (auto simp: list_all_iff)
  show ?case
  proof (cases "es = []")
    case True
    then show ?thesis using jt_empty_arr [of "[]"] by (simp add: blank_def)
  next
    case False
    then show ?thesis using jt_arr [OF elements_units [OF False ih]] by simp
  qed
next
  case (JObj ob)
  let ?ob = "sort_key fst ob"
  have ih: "\<forall>(k, v)\<in>set ?ob. json_text (parsed_form v) (units (encode v))"
    using JObj by (fastforce simp: list_all_iff)
  have "distinct (map fst ob)" using JObj.prems by simp
  then have d: "distinct (map fst ?ob)" by (simp add: distinct_map)
  have "map fst (map (\<lambda>(k, v). (units k, parsed_form v)) ?ob) = map units (map fst ?ob)" by (simp add: case_prod_beta)
  moreover have "inj_on units (set (map fst ?ob))" by (auto simp: inj_on_def inj_map_eq_map inj_of_char)
  ultimately have dist: "distinct (map fst (map (\<lambda>(k, v). (units k, parsed_form v)) ?ob))" using d by (simp only: distinct_map)
  have pf: "parsed_form (JObj ob) = VObj (map (\<lambda>(k, v). (units k, parsed_form v)) ?ob)"
    by (simp add: sort_key_snd [of parsed_form, unfolded split_def] split_def comp_def)
  have en: "encode (JObj ob) = ''{'' @ join_with '','' (map (\<lambda>(k, v). json_quote k @ '':'' @ encode v) ?ob) @ ''}''"
    by (simp add: sort_key_snd [of encode, unfolded split_def] split_def comp_def)
  show ?case
  proof (cases "ob = []")
    case True
    then show ?thesis using jt_empty_obj [of "[]"] by (simp add: blank_def)
  next
    case False
    then have "?ob \<noteq> []" by (metis length_0_conv length_sort)
    then show ?thesis unfolding pf en using jt_obj [OF members_units [OF _ ih] dist] by simp
  qed
qed simp

lemma latin_bytes:
  "list_all is_scalar (units s)" "concat (map utf16_of (units s)) = units s" "units (utf8 s) = concat (map utf8_of (units s))"
proof -
  have b: "(of_char c :: nat) < 256" for c by simp
  have "is_scalar (of_char c)" for c using b [of c] unfolding is_scalar_def by linarith
  then show "list_all is_scalar (units s)" by (simp add: list_all_iff)
  have "utf16_of (of_char c) = [of_char c]" for c using b [of c] unfolding utf16_of_def by (simp only: if_P [of "of_char c < (0x10000::nat)"])
  then show "concat (map utf16_of (units s)) = units s" by (induction s) simp_all
  have "units (utf8_char c) = utf8_of (of_char c)" for c
  proof -
    have "(of_char c :: nat) < 2048" using b [of c] by linarith
    moreover have "(of_char c :: nat) div 64 < 4" using b [of c] by (simp add: less_mult_imp_div_less)
    ultimately show ?thesis by (simp add: utf8_char_def utf8_of_def Let_def of_char_of)
  qed
  then show "units (utf8 s) = concat (map utf8_of (units s))" by (induction s) (simp_all add: utf8_def)
qed

section \<open>Properties\<close>

text \<open>
  C12.  The strict parser admits a body exactly when its bytes are the UTF-8 encoding of scalar
  values, not led by a byte-order mark, that form a JSON text of the grammar -- no duplicate
  key, no lone surrogate, no number that rounds to an infinity, nothing behind it -- nested no
  deeper than the limit (32 unless given), and returns the value the grammar gives it.
\<close>

theorem strict_json_admits_exactly:
  "parseStrictJson (BodyBytes bs) mx False = Inr v \<longleftrightarrow>
     (\<exists>ps a u b. list_all is_scalar ps \<and> bs = concat (map utf8_of ps) \<and> take 1 ps \<noteq> [0xFEFF] \<and>
        concat (map utf16_of ps) = a @ u @ b \<and> blank a \<and> json_text v u \<and> blank b \<and>
        vdepth v \<le> (case mx of None \<Rightarrow> 32 | Some n \<Rightarrow> n))"
  unfolding parse_bytes_iff parse_value_iff by blast

text \<open>
  C37.  The bytes of a canonical text (what the gateway signs, hashes and sends) are parsed back
  to the value, with the keys of every object in order.
\<close>

theorem canonical_text_round_trip:
  assumes "canonicalJson v = Inr t" "distinct_keys v" "vdepth (parsed_form v) \<le> 32"
  shows "parseStrictJson (BodyBytes (units (utf8 t))) None False = Inr (parsed_form v)"
proof -
  have t: "isCanonicalDomainValue v" "t = encode v" using assms(1) by (auto simp: canonicalJson_def split: if_splits)
  have "json_text (parsed_form v) (units t)" unfolding t(2) by (rule encode_text [OF t(1) assms(2)])
  then have "parse_value 32 (units t) = Inr (parsed_form v)"
    unfolding parse_value_iff using assms(3) by (intro exI [of _ "[]"] exI [of _ "units t"]) (simp add: blank_def)
  moreover have "take 1 (units t) \<noteq> [0xFEFF]"
  proof (cases t)
    case (Cons c s)
    have "(of_char c :: nat) < 256" by simp
    then have "(of_char c :: nat) \<noteq> 0xFEFF" by linarith
    then show ?thesis using Cons by simp
  qed simp
  ultimately show ?thesis unfolding parse_bytes_iff using latin_bytes [of t] by (intro exI [of _ "units t"]) simp
qed

theorem canonical_text_round_trip_witness:
  "parseStrictJson (BodyBytes (units (utf8 (encode (JObj [(''b'', JNum (- 3)), (''a'', JArr [JNull, JBool True])]))))) None False =
     Inr (VObj [([97], VArr [VNull, VBool True]), ([98], VNum (- 3))])"
  using canonical_text_round_trip [of "JObj [(''b'', JNum (- 3)), (''a'', JArr [JNull, JBool True])]"
      "encode (JObj [(''b'', JNum (- 3)), (''a'', JArr [JNull, JBool True])])"]
  by (simp add: canonicalJson_def is_safe_def MAX_SAFE_def)

end
