(* ===== verification/Json_Std.thy ===== *)
theory Json_Std
  imports Strict_Json_Facts Record_Table
begin

text \<open>
  \<open>JSON.parse\<close> and \<open>JSON.stringify\<close> of the language, as the store uses them on its own files:
  no limit of depth, the last of duplicate keys wins in the place of the first, keys are
  printed in their order.  A text of which a string leaves the code units below 256 is outside
  the model and is \<open>None\<close>; so is a text that is not JSON, for which the source catches the error.
  Keys that are array indices stand in their place; the language would move them to the front.
\<close>

section \<open>JSON.parse\<close>

definition latin :: "text16 \<Rightarrow> string option" where
  "latin t = (if list_all (\<lambda>c. c < 256) t then Some (map char_of t) else None)"

text \<open>A number is the integer it denotes when that is a safe integer.\<close>

definition std_number :: "lexeme \<Rightarrow> json" where
  "std_number x =
     (case x of (neg, ds, fs, e) \<Rightarrow>
        let q = num_value neg ds fs e in
        if of_int \<lfloor>q\<rfloor> = q \<and> \<bar>\<lfloor>q\<rfloor>\<bar> \<le> MAX_SAFE then JNum \<lfloor>q\<rfloor> else JNumOther)"

definition std_string :: "text16 \<Rightarrow> (string \<times> text16) option" where
  "std_string t =
     (case jstring t of Inl _ \<Rightarrow> None | Inr (s, r) \<Rightarrow> map_option (\<lambda>u. (u, r)) (latin s))"

definition std_literal :: "text16 \<Rightarrow> json \<Rightarrow> text16 \<Rightarrow> (json \<times> text16) option" where
  "std_literal w v t = (if take (length w) t = w then Some (v, drop (length w) t) else None)"

function std_any :: "text16 \<Rightarrow> (json \<times> text16) option"
and std_members :: "jobj \<Rightarrow> text16 \<Rightarrow> (jobj \<times> text16) option"
and std_elements :: "json list \<Rightarrow> text16 \<Rightarrow> (json list \<times> text16) option" where
  "std_any t =
     (case t of
        [] \<Rightarrow> None
      | c # r \<Rightarrow>
          if c = 0x7B then
            (if peek (ws r) = Some 0x7D then Some (JObj [], tl (ws r))
             else (case std_members [] r of None \<Rightarrow> None | Some (ob, u) \<Rightarrow> Some (JObj ob, u)))
          else if c = 0x5B then
            (if peek (ws r) = Some 0x5D then Some (JArr [], tl (ws r))
             else (case std_elements [] r of None \<Rightarrow> None | Some (vs, u) \<Rightarrow> Some (JArr vs, u)))
          else if c = 0x22 then (case std_string r of None \<Rightarrow> None | Some (s, u) \<Rightarrow> Some (JStr s, u))
          else if c = 0x74 then std_literal (units ''true'') (JBool True) t
          else if c = 0x66 then std_literal (units ''false'') (JBool False) t
          else if c = 0x6E then std_literal (units ''null'') JNull t
          else (case scan_number t of Inl _ \<Rightarrow> None | Inr (x, u) \<Rightarrow> Some (std_number x, u)))"
| "std_members out t =
     (if peek (ws t) \<noteq> Some 0x22 then None
      else (case std_string (tl (ws t)) of
              None \<Rightarrow> None
            | Some (key, t1) \<Rightarrow>
                if peek (ws t1) \<noteq> Some 0x3A then None
                else (case std_any (ws (tl (ws t1))) of
                        None \<Rightarrow> None
                      | Some (v, t2) \<Rightarrow>
                          if peek (ws t2) = Some 0x2C then std_members (aput key v out) (tl (ws t2))
                          else if peek (ws t2) = Some 0x7D then Some (aput key v out, tl (ws t2))
                          else None)))"
| "std_elements out t =
     (case std_any (ws t) of
        None \<Rightarrow> None
      | Some (v, t1) \<Rightarrow>
          if peek (ws t1) = Some 0x2C then std_elements (out @ [v]) (tl (ws t1))
          else if peek (ws t1) = Some 0x5D then Some (out @ [v], tl (ws t1))
          else None)"
  by pat_completeness auto

lemma opt_bind: "(case m of None \<Rightarrow> None | Some (x, r) \<Rightarrow> f x r) = Some z \<longleftrightarrow> (\<exists>x r. m = Some (x, r) \<and> f x r = Some z)"
  by (auto split: option.split prod.split)

lemma std_string_shorter: "std_string t = Some (s, r) \<Longrightarrow> length r < length t"
  by (auto simp: std_string_def split: sum.splits dest: jstring_shorter)

lemma std_shorter:
  "std_any_std_members_std_elements_dom (Inl t) \<Longrightarrow> std_any t = Some (v, r) \<Longrightarrow> length r < length t"
  "std_any_std_members_std_elements_dom (Inr (Inl (out, t))) \<Longrightarrow> std_members out t = Some (ob, r) \<Longrightarrow> length r < length t"
  "std_any_std_members_std_elements_dom (Inr (Inr (vs, t))) \<Longrightarrow> std_elements vs t = Some (vs', r) \<Longrightarrow> length r < length t"
proof (induction t and out t and vs t arbitrary: v r and ob r and vs' r rule: std_any_std_members_std_elements.pinduct)
  case (1 t)
  note e = "1.prems" [unfolded std_any.psimps [OF 1(1)]]
  show ?case
  proof (cases t)
    case (Cons c u)
    have el: "c = 0x5B \<Longrightarrow> peek (ws u) \<noteq> Some 0x5D \<Longrightarrow> std_elements [] u = Some (vs, r) \<Longrightarrow> length r < length u" for vs r
      using 1(3) [OF Cons] by simp
    show ?thesis using e unfolding Cons
      by (auto simp: opt_bind std_literal_def split: if_splits sum.splits
          dest!: 1(2) [OF Cons] el scan_shorter std_string_shorter tl_ws)
  qed (use e in simp)
next
  case (2 out t)
  note e = "2.prems" [unfolded std_members.psimps [OF 2(1)]]
  obtain key t1 where k: "peek (ws t) = Some 0x22" "std_string (tl (ws t)) = Some (key, t1)" "peek (ws t1) = Some 0x3A"
    using e by (auto simp: opt_bind split: if_splits)
  obtain v t2 where v: "std_any (ws (tl (ws t1))) = Some (v, t2)" using e k by (auto simp: opt_bind)
  have t1: "length t1 < length t" using std_string_shorter [OF k(2)] tl_ws [OF k(1)] by simp
  have "length t2 < length (ws (tl (ws t1)))" by (rule 2(2) [OF _ k(2) refl _ v]) (use k in simp_all)
  then have t2: "length t2 < length t" using t1 tl_ws [OF k(3)] ws_length [of "tl (ws t1)"] by simp
  have rest: "peek (ws t2) = Some 0x2C \<Longrightarrow> std_members (aput key v out) (tl (ws t2)) = Some (ob, r) \<Longrightarrow> length r < length (tl (ws t2))"
    by (rule 2(3) [OF _ k(2) refl _ v refl]) (use k in simp_all)
  show ?case using e k v t2 rest tl_ws [of t2] by (fastforce split: if_splits)
next
  case (3 out t)
  note e = "3.prems" [unfolded std_elements.psimps [OF 3(1)]]
  obtain v t1 where v: "std_any (ws t) = Some (v, t1)" using e by (auto simp: opt_bind)
  have "length t1 < length (ws t)" by (rule 3(2) [OF v])
  then have t1: "length t1 < length t" using ws_length [of t] by simp
  have rest: "peek (ws t1) = Some 0x2C \<Longrightarrow> std_elements (out @ [v]) (tl (ws t1)) = Some (vs', r) \<Longrightarrow> length r < length (tl (ws t1))"
    by (rule 3(3) [OF v refl])
  show ?case using e v t1 rest tl_ws [of t1] by (fastforce split: if_splits)
qed

termination std_any
proof (relation "measure (\<lambda>x. case x of Inl t \<Rightarrow> 2 * length t
    | Inr (Inl (out, t)) \<Rightarrow> 2 * length t + 1 | Inr (Inr (out, t)) \<Rightarrow> 2 * length t + 1)", goal_cases)
  case (4 out t z key t1)
  then have "length t1 < length t" "length (ws (tl (ws t1))) < length t1"
    using std_string_shorter [of "tl (ws t)" key t1] tl_ws [of t] tl_ws [of t1] ws_length [of "tl (ws t1)"] by simp_all
  then show ?case by simp
next
  case (5 out t z key t1 y v t2)
  then have "length t1 < length t" "length (ws (tl (ws t1))) < length t1" "length t2 < length (ws (tl (ws t1)))"
      "length (tl (ws t2)) < length t2"
    using std_string_shorter [of "tl (ws t)" key t1] tl_ws [of t] tl_ws [of t1] tl_ws [of t2] ws_length [of "tl (ws t1)"]
      std_shorter(1) [OF 5(8), of v t2] by auto
  then show ?case by simp
next
  case (6 out t)
  then show ?case using ws_length [of t] by simp
next
  case (7 out t z v t1)
  then have "length t1 < length (ws t)" "length (tl (ws t1)) < length t1"
    using std_shorter(1) [OF 7(4), of v t1] tl_ws [of t1] by auto
  then show ?case using ws_length [of t] by simp
qed auto

declare std_any.simps [simp del] std_members.simps [simp del] std_elements.simps [simp del]

definition JSON_parse :: "string \<Rightarrow> json option" where
  "JSON_parse s =
     (case std_any (ws (units s)) of Some (v, r) \<Rightarrow> if ws r = [] then Some v else None | None \<Rightarrow> None)"

section \<open>JSON.stringify\<close>

fun JSON_stringify :: "json \<Rightarrow> string" where
  "JSON_stringify JNull = ''null''"
| "JSON_stringify (JBool b) = (if b then ''true'' else ''false'')"
| "JSON_stringify (JStr s) = json_quote s"
| "JSON_stringify (JNum i) = int_str i"
| "JSON_stringify JNumOther = ''null''"
| "JSON_stringify (JArr es) = ''['' @ join_with '','' (map JSON_stringify es) @ '']''"
| "JSON_stringify (JObj ob) = ''{'' @ join_with '','' (map (\<lambda>(k, v). json_quote k @ '':'' @ JSON_stringify v) ob) @ ''}''"

text \<open>The values whose text is modelled: safe integers and distinct keys.\<close>

definition printable :: "json \<Rightarrow> bool" where
  "printable v \<longleftrightarrow> isCanonicalDomainValue v \<and> distinct_keys v"

section \<open>Round trip\<close>

lemma std_scan: "lexeme_text x u \<Longrightarrow> num_stop r \<Longrightarrow> std_any (u @ r) = Some (std_number x, r)"
proof -
  assume x: "lexeme_text x u" "num_stop r"
  obtain neg ds fs e where xx: "x = (neg, ds, fs, e)" by (cases x)
  then obtain w where u: "int_text ds" "u = (if neg then [0x2D] else []) @ ds @ w" using x(1) unfolding lexeme_text_def by auto
  then obtain c v where "u = c # v" "c = 0x2D \<or> is_dig c" by (cases ds; cases neg) (auto simp: int_text_def)
  then show ?thesis using scan_complete [OF x] by (auto simp: std_any.simps is_dig_def)
qed

lemma std_string_quote:
  assumes "units (json_quote s) = 0x22 # w @ [0x22]" "str_text (units s) w"
  shows "std_string (w @ 0x22 # r) = Some (s, r)"
proof -
  have "list_all (\<lambda>c. c < 256) (units s)" by (simp add: list_all_iff)
  moreover have "map char_of (units s) = s" by (induction s) simp_all
  ultimately have "latin (units s) = Some s" by (simp add: latin_def)
  then show ?thesis using jstring_complete [OF assms(2), of r] by (simp add: std_string_def)
qed

lemma quote_text: "\<exists>w. units (json_quote s) = 0x22 # w @ [0x22] \<and> str_text (units s) w"
  using quote_units [of s] by (auto elim: json_text.cases)

lemma aput_new: "k \<notin> fst ` set out \<Longrightarrow> aput k v out = out @ [(k, v)]"
  by (induction out) auto

lemma stringify_head:
  "\<exists>c w. units (JSON_stringify v) = c # w \<and> \<not> is_ws c \<and> c \<noteq> 0x5D \<and> c \<noteq> 0x7D"
proof (cases v)
  case (JNum i)
  obtain neg ds w where "int_text ds" "units (int_str i) = (if neg then [0x2D] else []) @ ds @ w"
    using int_lexeme(1) [of i] unfolding lexeme_text_def by auto
  then show ?thesis using JNum by (cases ds; cases neg) (auto simp: int_text_def is_dig_def is_ws_def)
next
  case (JStr s)
  then show ?thesis using quote_text [of s] by (auto simp: is_ws_def)
qed (auto simp: is_ws_def)

lemma comma_stop [simp]: "num_stop (0x2C # r)" "num_stop (0x5D # r)" "num_stop (0x7D # r)" "num_stop []"
  by (simp_all add: num_stop_def is_dig_def)

lemma std_elements_text:
  assumes "\<forall>e\<in>set es. \<forall>r. num_stop r \<longrightarrow> std_any (units (JSON_stringify e) @ r) = Some (e, r)" "es \<noteq> []"
  shows "std_elements out (units (join_with '','' (map JSON_stringify es)) @ 0x5D # r) = Some (out @ es, r)"
  using assms
proof (induction es arbitrary: out)
  case (Cons e es)
  obtain c w where h: "units (JSON_stringify e) = c # w" "\<not> is_ws c" using stringify_head [of e] by auto
  show ?case
  proof (cases es)
    case Nil
    then have "std_any (units (JSON_stringify e) @ 0x5D # r) = Some (e, 0x5D # r)" using Cons.prems by simp
    then show ?thesis using Nil h by (simp add: std_elements.simps [of out])
  next
    case (Cons e' es')
    let ?rest = "units (join_with '','' (map JSON_stringify es)) @ 0x5D # r"
    have "std_any (units (JSON_stringify e) @ 0x2C # ?rest) = Some (e, 0x2C # ?rest)" using Cons.prems by simp
    moreover have "std_elements (out @ [e]) ?rest = Some ((out @ [e]) @ es, r)" using Cons.prems Cons Cons.IH by simp
    ultimately show ?thesis using Cons h by (simp add: std_elements.simps [of out])
  qed
qed simp

lemma std_members_text:
  assumes "\<forall>(k, v)\<in>set ob. \<forall>r. num_stop r \<longrightarrow> std_any (units (JSON_stringify v) @ r) = Some (v, r)" "ob \<noteq> []"
    "distinct (map fst out @ map fst ob)"
  shows "std_members out (units (join_with '','' (map (\<lambda>(k, v). json_quote k @ '':'' @ JSON_stringify v) ob)) @ 0x7D # r) =
    Some (out @ ob, r)"
  using assms
proof (induction ob arbitrary: out)
  case (Cons x ob)
  obtain k v where x: "x = (k, v)" by (cases x)
  obtain c w where h: "units (JSON_stringify v) = c # w" "\<not> is_ws c" using stringify_head [of v] by auto
  obtain q where q: "units (json_quote k) = 0x22 # q @ [0x22]" "str_text (units k) q" using quote_text [of k] by auto
  have new: "aput k v out = out @ [(k, v)]" using Cons.prems(3) by (intro aput_new) (auto simp: x)
  show ?case
  proof (cases ob)
    case Nil
    then have "std_any (units (JSON_stringify v) @ 0x7D # r) = Some (v, 0x7D # r)" using Cons.prems by (simp add: x)
    then show ?thesis using Nil h q new std_string_quote [OF q] by (simp add: std_members.simps [of out] x)
  next
    case (Cons y ys)
    let ?rest = "units (join_with '','' (map (\<lambda>(k, v). json_quote k @ '':'' @ JSON_stringify v) ob)) @ 0x7D # r"
    have "std_any (units (JSON_stringify v) @ 0x2C # ?rest) = Some (v, 0x2C # ?rest)" using Cons.prems by (simp add: x)
    moreover have "std_members (out @ [(k, v)]) ?rest = Some ((out @ [(k, v)]) @ ob, r)"
      using Cons.prems Cons by (intro Cons.IH) (auto simp: x)
    ultimately show ?thesis using Cons h q new std_string_quote [OF q] by (simp add: std_members.simps [of out] x)
  qed
qed simp

lemma std_any_stringify: "printable v \<Longrightarrow> num_stop r \<Longrightarrow> std_any (units (JSON_stringify v) @ r) = Some (v, r)"
proof (induction v arbitrary: r)
  case (JNum i)
  have "std_number (i < 0, units (dec_str (nat \<bar>i\<bar>)), [], 0) = JNum i"
    using JNum(1) int_lexeme(2) [of i] by (auto simp: std_number_def Let_def printable_def is_safe_def)
  then show ?case using std_scan [OF int_lexeme(1) JNum(2)] by simp
next
  case (JStr s)
  obtain q where q: "units (json_quote s) = 0x22 # q @ [0x22]" "str_text (units s) q" using quote_text [of s] by auto
  then show ?case using std_string_quote [OF q] by (simp add: std_any.simps)
next
  case (JArr es)
  have es: "\<forall>e\<in>set es. \<forall>r. num_stop r \<longrightarrow> std_any (units (JSON_stringify e) @ r) = Some (e, r)"
    using JArr by (auto simp: printable_def list_all_iff)
  show ?case
  proof (cases es)
    case Nil
    then show ?thesis by (simp add: std_any.simps)
  next
    case (Cons e es')
    have "peek (ws (units (join_with '','' (map JSON_stringify es)) @ 0x5D # r)) \<noteq> Some 0x5D"
      using stringify_head [of e] Cons by (cases es') auto
    then show ?thesis using std_elements_text [OF es, of "[]" r] Cons by (simp add: std_any.simps)
  qed
next
  case (JObj ob)
  have ob: "\<forall>(k, v)\<in>set ob. \<forall>r. num_stop r \<longrightarrow> std_any (units (JSON_stringify v) @ r) = Some (v, r)"
    using JObj by (fastforce simp: printable_def list_all_iff)
  show ?case
  proof (cases ob)
    case Nil
    then show ?thesis by (simp add: std_any.simps)
  next
    case (Cons x ob')
    obtain q where "units (json_quote (fst x)) = 0x22 # q @ [0x22]" using quote_text [of "fst x"] by auto
    then have "peek (ws (units (join_with '','' (map (\<lambda>(k, v). json_quote k @ '':'' @ JSON_stringify v) ob)) @ 0x7D # r)) \<noteq> Some 0x7D"
      using Cons by (cases ob') (auto split: prod.splits)
    then show ?thesis using std_members_text [OF ob, of "[]" r] Cons JObj.prems(1) by (simp add: std_any.simps printable_def)
  qed
qed (auto simp: std_any.simps std_literal_def printable_def)

lemma parse_stringify: "printable v \<Longrightarrow> JSON_parse (JSON_stringify v) = Some v"
  using std_any_stringify [of v "[]"] stringify_head [of v] by (auto simp: JSON_parse_def ws_def)

end
