(* ===== verification/Store_Journal.thy ===== *)
theory Store_Journal
  imports Json_Std
begin

text \<open>
  Model of \<open>gateway-daemon/src/store/journal.ts\<close> with the helpers of \<open>store/util.ts\<close> it uses:
  the append-only commit journal, its verification and its crash contract.  A file is its
  bytes, or \<open>None\<close> when absent; writes are durable when they return, as the source syncs them.
\<close>

section \<open>Helpers of the store\<close>

text \<open>The codes of \<open>StoreError\<close>, the error of an exclusive create, and any other exception.\<close>

datatype store_code = STORE_READ_ONLY | CORRUPT | STORE_OBJECT_LIMIT | BAD_RECORD | BAD_CURSOR | BAD_DIGEST | BAD_LANE
  | INVALID_TRANSITION | MUTATION_UNKNOWN | IDENTITY_MISMATCH | CHAIN_MISMATCH | STORE_NOT_FOUND | FileExists | Thrown

definition LF :: char where "LF = CHR 0x0A"

definition sha256hex :: "node_crypto \<Rightarrow> string \<Rightarrow> string" where
  "sha256hex nc bytes = hex_encode (nc_sha256 nc bytes)"

definition GENESIS_HASH :: string where "GENESIS_HASH = replicate 64 CHR ''0''"

definition isHex64 :: "string \<Rightarrow> bool" where
  "isHex64 s \<longleftrightarrow> rx_test (RTimes 64 (RCls is_hex)) s"

definition isDecimalString :: "string \<Rightarrow> bool" where
  "isDecimalString s \<longleftrightarrow> rx_test RX_COUNT s \<and> dec_val s \<le> 9223372036854775807"

text \<open>\<open>BigInt(n).toString(16).padStart(16, "0")\<close>\<close>

definition hex16 :: "nat \<Rightarrow> string" where
  "hex16 n = (let s = radix_str 16 n in replicate (16 - length s) CHR ''0'' @ s)"

text \<open>\<open>Buffer.toString("utf8")\<close>, for bytes that decode to code units below 256.\<close>

definition from_utf8 :: "string \<Rightarrow> string option" where
  "from_utf8 bytes = (case utf8_decode (units bytes) of None \<Rightarrow> None | Some ps \<Rightarrow> latin ps)"

section \<open>Markers\<close>

record locator =
  lo_lane :: string
  lo_segment :: string
  lo_offset :: nat
  lo_length :: nat
  lo_raw :: string

record object_descriptor =
  od_digest :: string
  od_bytes :: string

record marker =
  mk_tx :: string
  mk_previous :: string
  mk_records :: "locator list"
  mk_objects :: "object_descriptor list"
  mk_mutation :: json
  mk_result :: string

definition LANE_KEY :: rx where
  "LANE_KEY = RSeq (RCls (\<lambda>c. is_alpha c \<or> is_digit c))
     (RUpTo 127 (RCls (\<lambda>c. is_alpha c \<or> is_digit c \<or> c \<in> set ''/_-'')))"

definition SEGMENT_NAME :: rx where
  "SEGMENT_NAME = RCat [RChr CHR ''s'', RTimes 16 (RCls is_hex), RStr ''.jsonl'']"

definition MARKER_KEYS :: "string list" where
  "MARKER_KEYS = [''v'', ''tx'', ''previous'', ''records'', ''objects'', ''mutation'', ''result_sha256'']"
definition LOCATOR_KEYS :: "string list" where
  "LOCATOR_KEYS = [''lane'', ''segment'', ''offset'', ''length'', ''raw_sha256'']"
definition OBJECT_KEYS :: "string list" where "OBJECT_KEYS = [''digest'', ''bytes'']"

definition keysExactly :: "jobj \<Rightarrow> string list \<Rightarrow> bool" where
  "keysExactly u keys \<longleftrightarrow> sort (map fst u) = sort keys"

definition isLaneKey :: "string \<Rightarrow> bool" where
  "isLaneKey s \<longleftrightarrow> rx_test LANE_KEY s \<and> \<not> js_includes s ''..'' \<and> \<not> js_includes s ''//''"

definition isSegmentName :: "string \<Rightarrow> bool" where
  "isSegmentName s \<longleftrightarrow> rx_test SEGMENT_NAME s"

text \<open>A field that is a string satisfying a test, and a non-negative safe integer.\<close>

definition str_at :: "jobj \<Rightarrow> string \<Rightarrow> (string \<Rightarrow> bool) \<Rightarrow> string option" where
  "str_at u k p = (case jget u k of Some (JStr s) \<Rightarrow> if p s then Some s else None | _ \<Rightarrow> None)"

definition nat_at :: "jobj \<Rightarrow> string \<Rightarrow> nat option" where
  "nat_at u k = (case jget u k of Some (JNum i) \<Rightarrow> if 0 \<le> i \<and> is_safe i then Some (nat i) else None | _ \<Rightarrow> None)"

definition parse_locator :: "json \<Rightarrow> locator option" where
  "parse_locator v =
     (case v of
        JObj r \<Rightarrow>
          if \<not> keysExactly r LOCATOR_KEYS then None
          else (case (str_at r ''lane'' isLaneKey, str_at r ''segment'' isSegmentName, nat_at r ''offset'', nat_at r ''length'',
                      str_at r ''raw_sha256'' isHex64) of
                  (Some lane, Some seg, Some off, Some len, Some raw) \<Rightarrow>
                    if len < 1 then None
                    else Some \<lparr>lo_lane = lane, lo_segment = seg, lo_offset = off, lo_length = len, lo_raw = raw\<rparr>
                | _ \<Rightarrow> None)
      | _ \<Rightarrow> None)"

definition parse_object :: "json \<Rightarrow> object_descriptor option" where
  "parse_object v =
     (case v of
        JObj r \<Rightarrow>
          if \<not> keysExactly r OBJECT_KEYS then None
          else (case (str_at r ''digest'' isHex64, str_at r ''bytes'' isDecimalString) of
                  (Some d, Some b) \<Rightarrow> Some \<lparr>od_digest = d, od_bytes = b\<rparr>
                | _ \<Rightarrow> None)
      | _ \<Rightarrow> None)"

fun parse_all :: "(json \<Rightarrow> 'a option) \<Rightarrow> json list \<Rightarrow> 'a list option" where
  "parse_all f [] = Some []"
| "parse_all f (v # vs) = (case (f v, parse_all f vs) of (Some x, Some xs) \<Rightarrow> Some (x # xs) | _ \<Rightarrow> None)"

definition parseMarker :: "json \<Rightarrow> marker option" where
  "parseMarker v =
     (case v of
        JObj u \<Rightarrow>
          if \<not> keysExactly u MARKER_KEYS \<or> jget u ''v'' \<noteq> Some (JNum 1) then None
          else (case (str_at u ''tx'' isDecimalString, str_at u ''previous'' isHex64, str_at u ''result_sha256'' isHex64,
                      jget u ''records'', jget u ''objects'', jget u ''mutation'') of
                  (Some tx, Some prev, Some res, Some (JArr rs), Some (JArr os), Some mut) \<Rightarrow>
                    (case (parse_all parse_locator rs, parse_all parse_object os) of
                       (Some records, Some objects) \<Rightarrow>
                         Some \<lparr>mk_tx = tx, mk_previous = prev, mk_records = records, mk_objects = objects,
                               mk_mutation = mut, mk_result = res\<rparr>
                     | _ \<Rightarrow> None)
                | _ \<Rightarrow> None)
      | _ \<Rightarrow> None)"

definition locator_json :: "locator \<Rightarrow> json" where
  "locator_json r = JObj
     [(''lane'', JStr (lo_lane r)), (''segment'', JStr (lo_segment r)), (''offset'', JNum (int (lo_offset r))),
      (''length'', JNum (int (lo_length r))), (''raw_sha256'', JStr (lo_raw r))]"

definition object_json :: "object_descriptor \<Rightarrow> json" where
  "object_json d = JObj [(''digest'', JStr (od_digest d)), (''bytes'', JStr (od_bytes d))]"

definition marker_json :: "marker \<Rightarrow> json" where
  "marker_json m = JObj
     [(''v'', JNum 1), (''tx'', JStr (mk_tx m)), (''previous'', JStr (mk_previous m)),
      (''records'', JArr (map locator_json (mk_records m))), (''objects'', JArr (map object_json (mk_objects m))),
      (''mutation'', mk_mutation m), (''result_sha256'', JStr (mk_result m))]"

text \<open>The line of a marker: its JSON text and a line feed.\<close>

definition marker_line :: "marker \<Rightarrow> string" where
  "marker_line m = utf8 (JSON_stringify (marker_json m)) @ [LF]"

section \<open>Verification\<close>

datatype jv_reason = Unparseable | BadSchema | LinkMismatch | NonMonotonic | GenesisTx

datatype journal_verify =
    JvOk "marker list" "string option" string "nat option"
  | JvReadOnly string jv_reason "marker list"

record journal =
  jo_file :: "string option"
  jo_quarantine :: "string list"
  jo_headTx :: "string option"
  jo_headHash :: string
  jo_headKnown :: bool
  jo_readOnly :: "(string \<times> jv_reason) option"

text \<open>A journal just opened on a file.\<close>

definition open_journal :: "string option \<Rightarrow> journal" where
  "open_journal f = \<lparr>jo_file = f, jo_quarantine = [], jo_headTx = None, jo_headHash = GENESIS_HASH,
     jo_headKnown = False, jo_readOnly = None\<rparr>"

text \<open>The lines with their line feeds, and the bytes behind the last line feed.\<close>

definition split_lines :: "string \<Rightarrow> string list \<times> string" where
  "split_lines buf = (let parts = split_on LF buf in (map (\<lambda>p. p @ [LF]) (butlast parts), last parts))"

definition read_line :: "string \<Rightarrow> json option" where
  "read_line raw = (case from_utf8 (butlast raw) of None \<Rightarrow> None | Some t \<Rightarrow> JSON_parse t)"

definition last_hash :: "string list \<Rightarrow> string" where
  "last_hash hs = (if hs = [] then GENESIS_HASH else last hs)"

text \<open>The loop of \<open>verify\<close>: what has been verified, and the lines that are left.\<close>

fun verify_lines :: "node_crypto \<Rightarrow> marker list \<Rightarrow> string list \<Rightarrow> string list \<Rightarrow>
    (string \<times> jv_reason \<times> marker list \<times> string list) + (marker list \<times> string list)" where
  "verify_lines nc ms hs [] = Inr (ms, hs)"
| "verify_lines nc ms hs (raw # rest) =
     (let i = length ms; before = (if i = 0 then ''#1'' else mk_tx (last ms)) in
      case read_line raw of
        None \<Rightarrow> Inl (before, Unparseable, butlast ms, butlast hs)
      | Some v \<Rightarrow>
          (case parseMarker v of
             None \<Rightarrow>
               Inl (if i = 0 then (case v of JObj u \<Rightarrow> (case str_at u ''tx'' isDecimalString of Some t \<Rightarrow> t | None \<Rightarrow> ''#1'') | _ \<Rightarrow> ''#1'')
                    else before, BadSchema, butlast ms, butlast hs)
           | Some m \<Rightarrow>
               if mk_previous m \<noteq> last_hash hs then
                 Inl (if i = 0 then mk_tx m else before, LinkMismatch, butlast ms, butlast hs)
               else if i \<noteq> 0 \<and> dec_val (mk_tx m) \<le> dec_val (mk_tx (last ms)) then Inl (mk_tx m, NonMonotonic, ms, hs)
               else if i = 0 \<and> dec_val (mk_tx m) \<noteq> 1 then Inl (mk_tx m, GenesisTx, [], [])
               else verify_lines nc (ms @ [m]) (hs @ [sha256hex nc raw]) rest))"

definition last_tx :: "marker list \<Rightarrow> string option" where
  "last_tx ms = (if ms = [] then None else Some (mk_tx (last ms)))"

definition jo_verify :: "node_crypto \<Rightarrow> journal \<Rightarrow> journal_verify \<times> journal" where
  "jo_verify nc s =
     (case jo_file s of
        None \<Rightarrow> (JvOk [] None GENESIS_HASH None, s\<lparr>jo_headTx := None, jo_headHash := GENESIS_HASH, jo_headKnown := True\<rparr>)
      | Some buf \<Rightarrow>
          if buf = [] then (JvOk [] None GENESIS_HASH None, s\<lparr>jo_headTx := None, jo_headHash := GENESIS_HASH, jo_headKnown := True\<rparr>)
          else (let (ls, tail) = split_lines buf;
                    s1 = (if tail = [] then s
                          else s\<lparr>jo_quarantine := jo_quarantine s @ [tail], jo_file := Some (concat ls)\<rparr>);
                    torn = (if tail = [] then None else Some (length tail)) in
                case verify_lines nc [] [] ls of
                  Inl (pos, reason, ms, hs) \<Rightarrow>
                    (JvReadOnly pos reason ms,
                     s1\<lparr>jo_readOnly := Some (pos, reason), jo_headTx := last_tx ms, jo_headHash := last_hash hs, jo_headKnown := True\<rparr>)
                | Inr (ms, hs) \<Rightarrow>
                    (JvOk ms (last_tx ms) (last_hash hs) torn,
                     s1\<lparr>jo_headTx := last_tx ms, jo_headHash := last_hash hs, jo_headKnown := True, jo_readOnly := None\<rparr>)))"

section \<open>Appending\<close>

type_synonym 'a journal_op = "(journal, store_code, 'a) op"

definition next_tx :: "string option \<Rightarrow> string" where
  "next_tx h = (case h of None \<Rightarrow> ''1'' | Some t \<Rightarrow> dec_str (dec_val t + 1))"

definition nextMarker :: "locator list \<Rightarrow> object_descriptor list \<Rightarrow> json \<Rightarrow> string \<Rightarrow> journal \<Rightarrow> store_code + marker" where
  "nextMarker records objects mut result s =
     (if \<not> jo_headKnown s then Inl CORRUPT
      else Inr \<lparr>mk_tx = next_tx (jo_headTx s), mk_previous = jo_headHash s, mk_records = records, mk_objects = objects,
                mk_mutation = mut, mk_result = result\<rparr>)"

definition appendSync :: "node_crypto \<Rightarrow> marker \<Rightarrow> (string option \<times> string) journal_op" where
  "appendSync nc m =
     (\<lambda>s. if \<not> jo_headKnown s then (Inl CORRUPT, s)
          else if jo_readOnly s \<noteq> None then (Inl STORE_READ_ONLY, s)
          else if mk_tx m \<noteq> next_tx (jo_headTx s) \<or> mk_previous m \<noteq> jo_headHash s then (Inl CHAIN_MISMATCH, s)
          else if parseMarker (marker_json m) = None then (Inl CORRUPT, s)
          else (let line = marker_line m; h = sha256hex nc line in
                (Inr (Some (mk_tx m), h),
                 s\<lparr>jo_file := Some ((case jo_file s of None \<Rightarrow> [] | Some f \<Rightarrow> f) @ line),
                   jo_headTx := Some (mk_tx m), jo_headHash := h, jo_headKnown := True\<rparr>)))"

definition append_marker :: "node_crypto \<Rightarrow> marker \<Rightarrow> (string option \<times> string) journal_op" where
  "append_marker nc m s = appendSync nc m (if jo_headKnown s then s else snd (jo_verify nc s))"

definition readMarkers :: "node_crypto \<Rightarrow> marker list journal_op" where
  "readMarkers nc s =
     (case jo_verify nc s of
        (JvOk ms _ _ _, t) \<Rightarrow> (Inr ms, t) | (JvReadOnly _ _ _, t) \<Rightarrow> (Inl STORE_READ_ONLY, t))"

end
