(* ===== verification/Store_Journal_Facts.thy ===== *)
theory Store_Journal_Facts
  imports Store_Journal
begin

text \<open>
  What the journal promises: a marker line reads back as its marker, an append followed by any
  crash leaves the appended list, verification accepts exactly the linked chains, and the head
  hash commits to every byte.
\<close>

section \<open>The patterns\<close>

lemma isHex64_iff: "isHex64 s \<longleftrightarrow> length s = 64 \<and> (\<forall>c\<in>set s. is_hex c)"
  by (simp add: isHex64_def rx_test_correct rx_lang_times_cls)

lemma isLaneKey_iff:
  "isLaneKey s \<longleftrightarrow> s \<noteq> [] \<and> (is_alpha (hd s) \<or> is_digit (hd s)) \<and> length s \<le> 128 \<and>
     (\<forall>c\<in>set (tl s). is_alpha c \<or> is_digit c \<or> c \<in> set ''/_-'') \<and> \<not> js_includes s ''..'' \<and> \<not> js_includes s ''//''"
  unfolding isLaneKey_def rx_test_correct LANE_KEY_def rx_lang_seq_cls rx_lang_upto_cls by auto

lemma rx_lang_str: "s \<in> rx_lang (RStr t) \<longleftrightarrow> s = t"
  by (induction t arbitrary: s) auto

lemma isSegmentName_iff:
  "isSegmentName s \<longleftrightarrow> (\<exists>x. s = ''s'' @ x @ ''.jsonl'' \<and> length x = 16 \<and> (\<forall>c\<in>set x. is_hex c))"
proof -
  have "isSegmentName s \<longleftrightarrow> (\<exists>x. s = ''s'' @ x @ ''.jsonl'' \<and> x \<in> rx_lang (RTimes 16 (RCls is_hex)))"
    unfolding isSegmentName_def rx_test_correct SEGMENT_NAME_def
    by (auto simp del: RTimes.simps RStr.simps simp: rx_lang_str)
  then show ?thesis by (simp add: rx_lang_times_cls)
qed

section \<open>Marker lines\<close>

lemma of_char_inj: "c = d \<longleftrightarrow> (of_char c :: nat) = of_char d"
  by simp

lemma LF_code: "(of_char LF :: nat) = 10"
  by (simp add: LF_def)

lemma of_char_less: "(of_char c :: nat) < 256"
  by simp

lemma digit_char_not_LF: "k < 16 \<Longrightarrow> digit_char k \<noteq> LF"
  unfolding of_char_inj LF_code by (simp add: digit_char_def of_char_of)

lemma json_esc_no_LF: "LF \<notin> set (json_esc c)"
proof -
  have "(of_char c :: nat) div 16 < 16" "(of_char c :: nat) mod 16 < 16" by (simp_all add: less_mult_imp_div_less)
  then have "LF \<notin> set (hex_byte c)"
    using digit_char_not_LF [THEN not_sym] by (simp add: hex_byte_def Let_def)
  then show ?thesis using LF_code by (auto simp: json_esc_def Let_def LF_def)
qed

lemma digits_no_LF: "LF \<notin> set (dec_str n)"
  using dec_str_digits [of LF n] by (auto simp: is_digit_def LF_def)

lemma join_with_no: "c \<notin> set sep \<Longrightarrow> \<forall>x\<in>set xs. c \<notin> set x \<Longrightarrow> c \<notin> set (join_with sep xs)"
  by (induction sep xs rule: join_with.induct) auto

lemma stringify_no_LF: "LF \<notin> set (JSON_stringify v)"
proof (induction v)
  case (JArr es)
  then have "LF \<notin> set (join_with '','' (map JSON_stringify es))" by (intro join_with_no) (auto simp: LF_def)
  then show ?case by (auto simp: LF_def)
next
  case (JObj ob)
  have "LF \<notin> set (json_quote k @ '':'' @ JSON_stringify v)" if "(k, v) \<in> set ob" for k v
    using JObj [OF that] json_esc_no_LF by (auto simp: json_quote_def LF_def)
  then have "LF \<notin> set (join_with '','' (map (\<lambda>(k, v). json_quote k @ '':'' @ JSON_stringify v) ob))"
    by (intro join_with_no) (auto simp: LF_def)
  then show ?case by (auto simp: LF_def)
qed (use json_esc_no_LF digits_no_LF in \<open>auto simp: LF_def json_quote_def int_str_def\<close>)

lemma utf8_char_no_LF: "c \<noteq> LF \<Longrightarrow> LF \<notin> set (utf8_char c)"
proof -
  have "char_of (192 + n) \<noteq> LF" if "n < 64" for n :: nat using that LF_code of_char_of [of "192 + n"]
    by (simp only: of_char_inj) simp
  moreover have "char_of (128 + n) \<noteq> LF" if "n < 64" for n :: nat using that LF_code of_char_of [of "128 + n"]
    by (simp only: of_char_inj) simp
  moreover have "(of_char c :: nat) div 64 < 64" using of_char_less [of c] by linarith
  ultimately show "c \<noteq> LF \<Longrightarrow> LF \<notin> set (utf8_char c)" by (auto simp: utf8_char_def Let_def dest: sym)
qed

lemma utf8_no_LF: "LF \<notin> set s \<Longrightarrow> LF \<notin> set (utf8 s)"
  by (induction s) (auto simp: utf8_def utf8_char_no_LF)

lemma from_utf8_utf8 [simp]: "from_utf8 (utf8 s) = Some s"
proof -
  have "utf8_decode (units (utf8 s)) = Some (units s)" using latin_bytes [of s] by (simp add: utf8_decode_iff)
  moreover have "list_all (\<lambda>c. c < 256) (units s)" by (simp add: list_all_iff)
  moreover have "map char_of (units s) = s" by (induction s) simp_all
  ultimately show ?thesis by (simp add: from_utf8_def latin_def)
qed

lemma str_at_Some: "str_at u k p = Some s \<longleftrightarrow> jget u k = Some (JStr s) \<and> p s"
  by (auto simp: str_at_def split: option.splits json.splits)

lemma keysExactly_same: "map fst u = keys \<Longrightarrow> keysExactly u keys"
  by (simp add: keysExactly_def)

lemma nat_at_Some: "nat_at u k = Some n \<longleftrightarrow> jget u k = Some (JNum (int n)) \<and> is_safe (int n)"
  by (auto simp: nat_at_def split: option.splits json.splits)

section \<open>Reading a marker back\<close>

lemma parse_locator_json:
  "parse_locator (locator_json r) = Some r' \<Longrightarrow> r' = r \<and> is_safe (int (lo_offset r)) \<and> is_safe (int (lo_length r))"
  by (auto simp: parse_locator_def locator_json_def str_at_def nat_at_def jget_def split: if_splits)

lemma parse_object_json: "parse_object (object_json d) = Some d' \<Longrightarrow> d' = d"
  by (auto simp: parse_object_def object_json_def str_at_def jget_def split: if_splits)

lemma parse_all_map:
  "parse_all f (map g xs) = Some ys \<Longrightarrow> (\<And>x y. x \<in> set xs \<Longrightarrow> f (g x) = Some y \<Longrightarrow> y = x \<and> P x) \<Longrightarrow> ys = xs \<and> list_all P xs"
  by (induction xs arbitrary: ys) (fastforce split: option.splits)+

lemma parse_marker_json:
  assumes "parseMarker (marker_json m) = Some m'"
  shows "m' = m" "list_all (\<lambda>r. is_safe (int (lo_offset r)) \<and> is_safe (int (lo_length r))) (mk_records m)"
    "isDecimalString (mk_tx m)"
proof -
  obtain rs os where ro: "parse_all parse_locator (map locator_json (mk_records m)) = Some rs"
      "parse_all parse_object (map object_json (mk_objects m)) = Some os"
      and m': "m' = m\<lparr>mk_records := rs, mk_objects := os\<rparr>" and tx: "isDecimalString (mk_tx m)"
    using assms by (auto simp: parseMarker_def marker_json_def str_at_def jget_def split: if_splits option.splits)
  have r: "rs = mk_records m \<and> list_all (\<lambda>r. is_safe (int (lo_offset r)) \<and> is_safe (int (lo_length r))) (mk_records m)"
    by (rule parse_all_map [OF ro(1)]) (auto dest: parse_locator_json)
  have "os = mk_objects m \<and> list_all (\<lambda>_. True) (mk_objects m)"
    by (rule parse_all_map [OF ro(2)]) (auto dest: parse_object_json)
  then show "m' = m" "list_all (\<lambda>r. is_safe (int (lo_offset r)) \<and> is_safe (int (lo_length r))) (mk_records m)"
      "isDecimalString (mk_tx m)"
    using r m' tx by simp_all
qed

lemma printable_marker:
  assumes "parseMarker (marker_json m) \<noteq> None" "printable (mk_mutation m)"
  shows "printable (marker_json m)"
proof -
  obtain m' where m: "parseMarker (marker_json m) = Some m'" using assms(1) by auto
  have "printable (locator_json r)" if "r \<in> set (mk_records m)" for r
    using parse_marker_json(2) [OF m] that by (auto simp: printable_def locator_json_def list_all_iff)
  moreover have "printable (object_json d)" for d by (simp add: printable_def object_json_def)
  ultimately show ?thesis using assms(2)
    by (auto simp: printable_def marker_json_def list_all_iff is_safe_def MAX_SAFE_def)
qed

definition complete_line :: "string \<Rightarrow> bool" where
  "complete_line l \<longleftrightarrow> (\<exists>b. l = b @ [LF] \<and> LF \<notin> set b)"

lemma marker_line_complete: "complete_line (marker_line m)"
  using utf8_no_LF [OF stringify_no_LF] by (auto simp: complete_line_def marker_line_def)

lemma read_marker_line:
  assumes "parseMarker (marker_json m) \<noteq> None" "printable (mk_mutation m)"
  shows "read_line (marker_line m) = Some (marker_json m)" "parseMarker (marker_json m) = Some m"
  using parse_stringify [OF printable_marker [OF assms]] assms(1) parse_marker_json(1)
  by (auto simp: read_line_def marker_line_def)

lemma split_complete_lines:
  "\<forall>l\<in>set ls. complete_line l \<Longrightarrow> LF \<notin> set t \<Longrightarrow> split_lines (concat ls @ t) = (ls, t)"
proof (induction ls)
  case Nil
  then show ?case by (simp add: split_lines_def split_on_no_sep)
next
  case (Cons l ls)
  then obtain b where "l = b @ [LF]" "LF \<notin> set b" by (auto simp: complete_line_def)
  then show ?case using Cons split_on_append [of LF b "concat ls @ t"] by (simp add: split_lines_def Let_def)
qed

lemma split_lines_complete:
  assumes "split_lines buf = (ls, t)"
  shows "\<forall>l\<in>set ls. complete_line l" "LF \<notin> set t" "buf = concat ls @ t"
proof -
  have p: "ls = map (\<lambda>p. p @ [LF]) (butlast (split_on LF buf))" "t = last (split_on LF buf)"
    using assms by (simp_all add: split_lines_def Let_def)
  have "LF \<notin> set x" if "x \<in> set (split_on LF buf)" for x using split_on_parts [OF that] .
  then show "\<forall>l\<in>set ls. complete_line l" "LF \<notin> set t"
    using p last_in_set [OF split_on_nonempty] by (auto simp: complete_line_def dest: in_set_butlastD)
  have "join_with [LF] xs = concat (map (\<lambda>p. p @ [LF]) (butlast xs)) @ last xs" if "xs \<noteq> []" for xs
    using that by (induction "[LF]" xs rule: join_with.induct) auto
  then show "buf = concat ls @ t" using p join_split_on [of LF buf] by simp
qed

section \<open>Chains\<close>

definition line_marker :: "string \<Rightarrow> marker option" where
  "line_marker l = Option.bind (read_line l) parseMarker"

abbreviation tx_val :: "marker \<Rightarrow> nat" where "tx_val m \<equiv> dec_val (mk_tx m)"

definition chained :: "node_crypto \<Rightarrow> string list \<Rightarrow> marker list \<Rightarrow> bool" where
  "chained nc ls ms \<longleftrightarrow>
     map line_marker ls = map Some ms \<and>
     map mk_previous ms = butlast (GENESIS_HASH # map (sha256hex nc) ls) \<and>
     sorted_wrt (<) (map tx_val ms) \<and> (ms \<noteq> [] \<longrightarrow> tx_val (hd ms) = 1)"

lemma chained_Nil [simp]: "chained nc [] ms \<longleftrightarrow> ms = []" "chained nc ls [] \<longleftrightarrow> ls = []"
  by (auto simp: chained_def)

lemma chained_length: "chained nc ls ms \<Longrightarrow> length ms = length ls"
  by (metis chained_def length_map)

lemma chained_unique: "chained nc ls ms \<Longrightarrow> chained nc ls ms' \<Longrightarrow> ms = ms'"
  by (metis chained_def inj_map_eq_map inj_Some)

lemma butlast_Cons_snoc: "butlast (a # map f (xs @ [x])) = butlast (a # map f xs) @ [if xs = [] then a else f (last xs)]"
  by (induction xs arbitrary: a) auto

lemma chained_snoc:
  "chained nc (ls @ [l]) (ms @ [m]) \<longleftrightarrow>
     chained nc ls ms \<and> line_marker l = Some m \<and> mk_previous m = last_hash (map (sha256hex nc) ls) \<and>
     (if ms = [] then tx_val m = 1 else tx_val (last ms) < tx_val m)"
proof -
  have last: "(\<forall>y\<in>set ms. tx_val y < tx_val m) \<longleftrightarrow> ms = [] \<or> tx_val (last ms) < tx_val m"
    if "sorted_wrt (<) (map tx_val ms)"
    using that by (cases ms rule: rev_cases) (auto simp: sorted_wrt_append)
  have prev: "(if ls = [] then GENESIS_HASH else sha256hex nc (last ls)) = last_hash (map (sha256hex nc) ls)"
    by (simp add: last_hash_def last_map)
  have empty: "map line_marker ls = map Some ms \<Longrightarrow> ls = [] \<longleftrightarrow> ms = []" by auto
  show ?thesis unfolding chained_def butlast_Cons_snoc prev
    by (simp add: sorted_wrt_append hd_append del: butlast.simps) (use last empty in \<open>auto simp del: butlast.simps\<close>)
qed

lemma chained_take: "chained nc ls ms \<Longrightarrow> chained nc (take k ls) (take k ms)"
proof (induction ls arbitrary: ms rule: rev_induct)
  case (snoc l ls)
  then have "ms \<noteq> []" using chained_length by fastforce
  then obtain ms1 m where ms: "ms = ms1 @ [m]" by (metis append_butlast_last_id)
  then show ?case using snoc chained_length [OF snoc.prems] by (cases "k \<le> length ls") (auto simp: chained_snoc)
qed simp

lemma verify_step:
  assumes "chained nc ls ms"
  shows "chained nc (ls @ [l]) (ms @ [m]) \<Longrightarrow>
      verify_lines nc ms (map (sha256hex nc) ls) (l # rest) = verify_lines nc (ms @ [m]) (map (sha256hex nc) (ls @ [l])) rest"
    and "\<nexists>m. chained nc (ls @ [l]) (ms @ [m]) \<Longrightarrow>
      \<exists>p r k. verify_lines nc ms (map (sha256hex nc) ls) (l # rest) = Inl (p, r, take k ms, map (sha256hex nc) (take k ls)) \<and> k \<le> length ls"
proof -
  show "chained nc (ls @ [l]) (ms @ [m]) \<Longrightarrow>
      verify_lines nc ms (map (sha256hex nc) ls) (l # rest) = verify_lines nc (ms @ [m]) (map (sha256hex nc) (ls @ [l])) rest"
    by (auto simp: chained_snoc line_marker_def Let_def split: option.splits Option.bind_splits if_splits)
  let ?hs = "map (sha256hex nc) ls"
  have len: "length ms = length ls" using chained_length [OF assms] .
  have k: "\<exists>p r k. Inl (pos, why, butlast ms, butlast ?hs) = Inl (p, r, take k ms, map (sha256hex nc) (take k ls)) \<and> k \<le> length ls"
    "\<exists>p r k. Inl (pos, why, ms, ?hs) = Inl (p, r, take k ms, map (sha256hex nc) (take k ls)) \<and> k \<le> length ls"
    "\<exists>p r k. Inl (pos, why, [], []) = Inl (p, r, take k ms, map (sha256hex nc) (take k ls)) \<and> k \<le> length ls" for pos :: string and why :: jv_reason
    using len by (auto simp: butlast_conv_take take_map intro: exI [of _ "length ls"] exI [of _ 0] exI [of _ "length ls - 1"])
  assume no: "\<nexists>m. chained nc (ls @ [l]) (ms @ [m])"
  show "\<exists>p r k. verify_lines nc ms ?hs (l # rest) = Inl (p, r, take k ms, map (sha256hex nc) (take k ls)) \<and> k \<le> length ls"
  proof (cases "line_marker l")
    case None
    then show ?thesis using k(1) by (auto simp: line_marker_def Let_def split: option.splits Option.bind_splits)
  next
    case (Some m)
    then obtain v where v: "read_line l = Some v" "parseMarker v = Some m" by (auto simp: line_marker_def split: Option.bind_splits)
    have "mk_previous m \<noteq> last_hash ?hs \<or> ms \<noteq> [] \<and> tx_val m \<le> tx_val (last ms) \<or> ms = [] \<and> tx_val m \<noteq> 1"
      using no [unfolded chained_snoc] assms Some by (auto split: if_splits)
    then show ?thesis using k v by (auto simp: Let_def)
  qed
qed

lemma verify_lines_iff:
  assumes "chained nc ls ms"
  shows "verify_lines nc ms (map (sha256hex nc) ls) rest = Inr (ms', hs) \<longleftrightarrow>
      chained nc (ls @ rest) ms' \<and> hs = map (sha256hex nc) (ls @ rest)"
    and "verify_lines nc ms (map (sha256hex nc) ls) rest = Inl (p, r, ms', hs) \<Longrightarrow>
      \<exists>k. chained nc (take k (ls @ rest)) ms' \<and> hs = map (sha256hex nc) (take k (ls @ rest))"
proof -
  have "(verify_lines nc ms (map (sha256hex nc) ls) rest = Inr (ms', hs) \<longleftrightarrow>
      chained nc (ls @ rest) ms' \<and> hs = map (sha256hex nc) (ls @ rest)) \<and>
    (verify_lines nc ms (map (sha256hex nc) ls) rest = Inl (p, r, ms', hs) \<longrightarrow>
      (\<exists>k. chained nc (take k (ls @ rest)) ms' \<and> hs = map (sha256hex nc) (take k (ls @ rest))))"
    using assms
  proof (induction rest arbitrary: ls ms)
    case Nil
    then show ?case using chained_unique by auto
  next
    case (Cons l rest)
    show ?case
    proof (cases "\<exists>m. chained nc (ls @ [l]) (ms @ [m])")
      case True
      then obtain m where m: "chained nc (ls @ [l]) (ms @ [m])" ..
      show ?thesis using Cons.IH [OF m] verify_step(1) [OF Cons.prems m] by simp
    next
      case False
      obtain p0 r0 k where k: "verify_lines nc ms (map (sha256hex nc) ls) (l # rest) = Inl (p0, r0, take k ms, map (sha256hex nc) (take k ls))"
          "k \<le> length ls"
        using verify_step(2) [OF Cons.prems False] by blast
      have "\<not> chained nc (ls @ l # rest) ms'"
      proof
        assume c: "chained nc (ls @ l # rest) ms'"
        have "take (length ls) ms' = ms" using chained_take [OF c, of "length ls"] chained_unique [OF _ Cons.prems] by simp
        then have "take (Suc (length ls)) ms' = ms @ [ms' ! length ls]"
          using chained_length [OF c] by (simp add: take_Suc_conv_app_nth)
        then show False using False chained_take [OF c, of "Suc (length ls)"] by auto
      qed
      moreover have "chained nc (take k (ls @ l # rest)) (take k ms)"
        using chained_take [OF Cons.prems, of k] k(2) by simp
      ultimately show ?thesis unfolding k(1) using k(2) by (auto intro!: exI [of _ k])
    qed
  qed
  then show "verify_lines nc ms (map (sha256hex nc) ls) rest = Inr (ms', hs) \<longleftrightarrow>
      chained nc (ls @ rest) ms' \<and> hs = map (sha256hex nc) (ls @ rest)"
    and "verify_lines nc ms (map (sha256hex nc) ls) rest = Inl (p, r, ms', hs) \<Longrightarrow>
      \<exists>k. chained nc (take k (ls @ rest)) ms' \<and> hs = map (sha256hex nc) (take k (ls @ rest))"
    by blast+
qed

section \<open>The journal as an append-only list\<close>

definition file_bytes :: "journal \<Rightarrow> string" where
  "file_bytes s = (case jo_file s of None \<Rightarrow> [] | Some f \<Rightarrow> f)"

text \<open>An open journal whose file is the chain of the given markers.\<close>

definition journal_holds :: "node_crypto \<Rightarrow> journal \<Rightarrow> marker list \<Rightarrow> bool" where
  "journal_holds nc s ms \<longleftrightarrow> jo_headKnown s \<and> jo_readOnly s = None \<and>
     (\<exists>ls. file_bytes s = concat ls \<and> (\<forall>l\<in>set ls. complete_line l) \<and> chained nc ls ms \<and>
       jo_headTx s = last_tx ms \<and> jo_headHash s = last_hash (map (sha256hex nc) ls))"

definition torn_of :: "string \<Rightarrow> nat option" where
  "torn_of t = (if t = [] then None else Some (length t))"

lemma jo_verify_split:
  assumes "split_lines buf = (ls, t)"
  shows "fst (jo_verify nc (open_journal (Some buf))) =
     (case verify_lines nc [] [] ls of
        Inl (p, r, ms, hs) \<Rightarrow> JvReadOnly p r ms
      | Inr (ms, hs) \<Rightarrow> JvOk ms (last_tx ms) (last_hash hs) (torn_of t))"
proof (cases "buf = []")
  case True
  then have "ls = []" "t = []" using assms by (simp_all add: split_lines_def)
  then show ?thesis using True by (simp add: jo_verify_def open_journal_def last_tx_def last_hash_def torn_of_def)
next
  case False
  then show ?thesis using assms by (auto simp: jo_verify_def open_journal_def torn_of_def Let_def split: sum.splits prod.splits)
qed

lemma verified_chain:
  assumes "split_lines buf = (ls, t)"
  shows "fst (jo_verify nc (open_journal (Some buf))) = JvOk ms tx h torn \<longleftrightarrow>
     chained nc ls ms \<and> tx = last_tx ms \<and> h = last_hash (map (sha256hex nc) ls) \<and> torn = torn_of t"
proof (cases "verify_lines nc [] [] ls")
  case (Inl x)
  then show ?thesis unfolding jo_verify_split [OF assms]
    using verify_lines_iff(1) [of nc "[]" "[]" ls ms "map (sha256hex nc) ls"] by (auto split: prod.splits)
next
  case (Inr x)
  then obtain ms' hs where x: "verify_lines nc [] [] ls = Inr (ms', hs)" by (cases x) simp
  then have "chained nc ls ms'" "hs = map (sha256hex nc) ls" using verify_lines_iff(1) [of nc "[]" "[]" ls ms' hs] by simp_all
  then show ?thesis unfolding jo_verify_split [OF assms] x using chained_unique [of nc ls ms' ms] by auto
qed

lemma jo_verify_chain:
  assumes ls: "\<forall>l\<in>set ls. complete_line l" "LF \<notin> set t" and c: "chained nc ls ms"
  shows "\<exists>s'. jo_verify nc (open_journal (Some (concat ls @ t))) =
      (JvOk ms (last_tx ms) (last_hash (map (sha256hex nc) ls)) (torn_of t), s') \<and>
      jo_file s' = Some (concat ls) \<and> jo_quarantine s' = (if t = [] then [] else [t]) \<and> journal_holds nc s' ms"
proof -
  have sp: "split_lines (concat ls @ t) = (ls, t)" by (rule split_complete_lines [OF ls])
  have v: "verify_lines nc [] [] ls = Inr (ms, map (sha256hex nc) ls)" using verify_lines_iff(1) [of nc "[]" "[]" ls] c by simp
  show ?thesis
  proof (cases "concat ls @ t = []")
    case True
    then have "ls = []" using ls(1) by (cases ls) (auto simp: complete_line_def)
    then show ?thesis using True c
      by (auto simp: jo_verify_def open_journal_def journal_holds_def last_tx_def last_hash_def torn_of_def file_bytes_def)
  next
    case False
    then show ?thesis using sp v ls(1) c
      by (auto simp: jo_verify_def open_journal_def torn_of_def Let_def journal_holds_def file_bytes_def)
  qed
qed

lemma next_tx_val: "dec_val (next_tx (last_tx ms)) = (if ms = [] then 1 else tx_val (last ms) + 1)"
  using dec_str_one dec_val_str [of 1] by (simp add: next_tx_def last_tx_def)

lemma append_marker_holds:
  assumes h: "journal_holds nc s ms" and mut: "printable (mk_mutation m)" and a: "append_marker nc m s = (Inr x, s')"
  shows "journal_holds nc s' (ms @ [m])" "file_bytes s' = file_bytes s @ marker_line m"
    "x = (Some (mk_tx m), sha256hex nc (marker_line m))"
proof -
  obtain ls where ls: "file_bytes s = concat ls" "\<forall>l\<in>set ls. complete_line l" "chained nc ls ms"
      "jo_headTx s = last_tx ms" "jo_headHash s = last_hash (map (sha256hex nc) ls)" and k: "jo_headKnown s" "jo_readOnly s = None"
    using h by (auto simp: journal_holds_def)
  have m: "mk_tx m = next_tx (last_tx ms)" "mk_previous m = last_hash (map (sha256hex nc) ls)" "parseMarker (marker_json m) \<noteq> None"
    and s': "s' = s\<lparr>jo_file := Some (file_bytes s @ marker_line m), jo_headTx := Some (mk_tx m),
        jo_headHash := sha256hex nc (marker_line m), jo_headKnown := True\<rparr>"
    and x: "x = (Some (mk_tx m), sha256hex nc (marker_line m))"
    using a k ls(4,5) by (auto simp: append_marker_def appendSync_def Let_def file_bytes_def split: if_splits)
  have lm: "line_marker (marker_line m) = Some m" using read_marker_line [OF m(3) mut] by (simp add: line_marker_def)
  have "chained nc (ls @ [marker_line m]) (ms @ [m])" using ls(3) m lm next_tx_val [of ms] by (auto simp: chained_snoc)
  then show "journal_holds nc s' (ms @ [m])" "file_bytes s' = file_bytes s @ marker_line m"
      "x = (Some (mk_tx m), sha256hex nc (marker_line m))"
    using ls(1,2) marker_line_complete k s' x
    by (auto simp: journal_holds_def file_bytes_def last_tx_def last_hash_def intro!: exI [of _ "ls @ [marker_line m]"])
qed

lemma append_marker_refused:
  "journal_holds nc s ms \<Longrightarrow> append_marker nc m s = (Inl e, s') \<Longrightarrow> s' = s"
  by (auto simp: append_marker_def appendSync_def journal_holds_def Let_def split: if_splits)

section \<open>Properties\<close>

lemma last_hash_eq:
  assumes "\<forall>a\<in>set ls \<union> set ls'. sha a \<noteq> GENESIS_HASH" "last_hash (map sha ls) = last_hash (map sha ls')"
  shows "ls = [] \<longleftrightarrow> ls' = []" "ls \<noteq> [] \<Longrightarrow> sha (last ls) = sha (last ls')"
proof -
  show e: "ls = [] \<longleftrightarrow> ls' = []"
    using assms last_in_set [of ls] last_in_set [of ls']
    by (cases "ls = []"; cases "ls' = []") (auto simp: last_hash_def last_map dest!: sym [of GENESIS_HASH])
  show "sha (last ls) = sha (last ls')" if "ls \<noteq> []"
    using e that assms(2) by (simp add: last_hash_def last_map)
qed

lemma chain_committed:
  assumes "chained nc ls ms" "chained nc ls' ms'" "last_hash (map (sha256hex nc) ls) = last_hash (map (sha256hex nc) ls')"
    and "inj_on (sha256hex nc) (set ls \<union> set ls')" "\<forall>a\<in>set ls \<union> set ls'. sha256hex nc a \<noteq> GENESIS_HASH"
  shows "ls = ls'"
  using assms
proof (induction ls arbitrary: ls' ms ms' rule: rev_induct)
  case Nil
  then show ?case using last_hash_eq(1) [OF Nil.prems(5,3)] by simp
next
  case (snoc l ls)
  then obtain k ks where k: "ls' = ks @ [k]" using last_hash_eq(1) [OF snoc.prems(5,3)] by (metis append_butlast_last_id snoc_eq_iff_butlast)
  have "sha256hex nc l = sha256hex nc k" using last_hash_eq(2) [OF snoc.prems(5,3)] k by simp
  then have l: "l = k" by (rule inj_onD [OF snoc.prems(4)]) (use k in simp_all)
  obtain m1 m m1' m' where ms: "ms = m1 @ [m]" "ms' = m1' @ [m']"
    using snoc.prems(1,2) k by (metis append_butlast_last_id chained_Nil(2) snoc_eq_iff_butlast)
  have c: "chained nc (ls @ [l]) (m1 @ [m])" "chained nc (ks @ [k]) (m1' @ [m'])" using snoc.prems(1,2) k ms by simp_all
  have h: "last_hash (map (sha256hex nc) ls) = last_hash (map (sha256hex nc) ks)"
    using c [unfolded chained_snoc] l by auto
  have "ls = ks"
  proof (rule snoc.IH [OF _ _ h])
    show "chained nc ls m1" "chained nc ks m1'" using c by (simp_all add: chained_snoc)
    show "inj_on (sha256hex nc) (set ls \<union> set ks)" by (rule inj_on_subset [OF snoc.prems(4)]) (use k in auto)
  qed (use snoc.prems(5) k in auto)
  then show ?case using l k by simp
qed

text \<open>C9.  \<open>verify\<close> answers OK exactly when the line-fed lines of the file are a chain: every line is
  a well-formed marker, each \<open>previous\<close> is the hash of the line before (64 zeros first), the
  transaction numbers start at 1 and grow.  Bytes behind the last line feed do not change the
  answer: they are reported as torn.\<close>

theorem journal_verify_accepts_exactly_chains:
  "fst (jo_verify nc (open_journal (Some buf))) = JvOk ms tx h torn \<longleftrightarrow>
     (case split_lines buf of (ls, t) \<Rightarrow>
        chained nc ls ms \<and> tx = last_tx ms \<and> h = last_hash (map (sha256hex nc) ls) \<and> torn = torn_of t)"
proof -
  obtain ls t where s: "split_lines buf = (ls, t)" by (cases "split_lines buf")
  show ?thesis unfolding verified_chain [OF s] by (simp add: s)
qed

text \<open>C26.  The journal refines an append-only list: on a journal that holds a list of markers, an
  accepted append gives a journal that holds the list with the marker at its end and answers the
  new head; a refused append leaves the journal as it is.\<close>

theorem journal_append_refines_list:
  assumes "journal_holds nc s ms" and "printable (mk_mutation m)"
  shows "case append_marker nc m s of
      (Inr x, s') \<Rightarrow> journal_holds nc s' (ms @ [m]) \<and> x = (Some (mk_tx m), jo_headHash s')
    | (Inl e, s') \<Rightarrow> s' = s"
proof (cases "append_marker nc m s")
  case (Pair r s')
  show ?thesis
  proof (cases r)
    case (Inl e)
    then show ?thesis using append_marker_refused [OF assms(1)] Pair by simp
  next
    case (Inr x)
    then have a: "append_marker nc m s = (Inr x, s')" using Pair by simp
    then have "jo_headHash s' = sha256hex nc (marker_line m)"
      using assms(1) by (auto simp: append_marker_def appendSync_def journal_holds_def Let_def split: if_splits)
    then show ?thesis using append_marker_holds [OF assms a] a by simp
  qed
qed

text \<open>C25.  The crash contract: whatever part of the line of an accepted append reaches the disk,
  opening and verifying the file gives either the markers before the append, with the partial
  line moved to the quarantine and cut off the journal, or, when the whole line is there, the
  markers with the appended one.\<close>

theorem journal_crash_keeps_committed:
  assumes "journal_holds nc s ms" and "printable (mk_mutation m)" and "append_marker nc m s = (Inr x, s')"
    and "n \<le> length (marker_line m)"
  shows "\<exists>v s''. jo_verify nc (open_journal (Some (file_bytes s @ take n (marker_line m)))) = (v, s'') \<and>
    (if n = length (marker_line m) then v = JvOk (ms @ [m]) (Some (mk_tx m)) (snd x) None \<and> journal_holds nc s'' (ms @ [m])
     else v = JvOk ms (jo_headTx s) (jo_headHash s) (torn_of (take n (marker_line m))) \<and> journal_holds nc s'' ms \<and>
       jo_file s'' = Some (file_bytes s) \<and> jo_quarantine s'' = (if n = 0 then [] else [take n (marker_line m)]))"
proof -
  note a = append_marker_holds [OF assms(1-3)]
  obtain ls where ls: "file_bytes s = concat ls" "\<forall>l\<in>set ls. complete_line l" "chained nc ls ms"
      "jo_headTx s = last_tx ms" "jo_headHash s = last_hash (map (sha256hex nc) ls)"
    using assms(1) by (auto simp: journal_holds_def)
  obtain b where b: "marker_line m = b @ [LF]" "LF \<notin> set b" using marker_line_complete [of m] by (auto simp: complete_line_def)
  show ?thesis
  proof (cases "n = length (marker_line m)")
    case True
    obtain ks where ks: "file_bytes s' = concat ks" "\<forall>l\<in>set ks. complete_line l" "chained nc ks (ms @ [m])"
        "jo_headHash s' = last_hash (map (sha256hex nc) ks)"
      using a(1) by (auto simp: journal_holds_def)
    have "jo_headHash s' = snd x"
      using assms(1,3) by (auto simp: append_marker_def appendSync_def journal_holds_def Let_def split: if_splits)
    then show ?thesis using True jo_verify_chain [OF ks(2) _ ks(3), of "[]"] ks a(2)
      by (auto simp: last_tx_def torn_of_def)
  next
    case False
    then have "take n (marker_line m) = take n b" using assms(4) b by simp
    then have t: "LF \<notin> set (take n (marker_line m))" using b(2) by (auto dest: in_set_takeD)
    show ?thesis using False jo_verify_chain [OF ls(2) t ls(3)] ls b by auto
  qed
qed

text \<open>C34.  The head hash commits to the whole journal: two files that verify with the same head
  hash hold the same lines, hence the same markers, unless SHA-256 maps two of their lines to
  one value or one of them to the genesis value.\<close>

theorem journal_head_hash_commits:
  assumes "fst (jo_verify nc (open_journal (Some a))) = JvOk ms tx h torn"
    and "fst (jo_verify nc (open_journal (Some b))) = JvOk ms' tx' h torn'"
    and "inj_on (sha256hex nc) (set (fst (split_lines a)) \<union> set (fst (split_lines b)))"
    and "\<forall>l\<in>set (fst (split_lines a)) \<union> set (fst (split_lines b)). sha256hex nc l \<noteq> GENESIS_HASH"
  shows "fst (split_lines a) = fst (split_lines b) \<and> ms = ms'"
proof -
  have chain: "chained nc (fst (split_lines f)) ms \<and> h = last_hash (map (sha256hex nc) (fst (split_lines f)))"
    if "fst (jo_verify nc (open_journal (Some f))) = JvOk ms tx h torn" for f ms tx torn
  proof -
    obtain ls t where s: "split_lines f = (ls, t)" by (cases "split_lines f")
    then show ?thesis using that verified_chain [OF s] by simp
  qed
  show ?thesis using chain [OF assms(1)] chain [OF assms(2)] chain_committed [OF _ _ _ assms(3,4)] chained_unique by metis
qed

text \<open>C39.  Transaction numbers stay within a signed 64-bit integer: every marker of the journal
  has a number between its position and \<open>2 ^ 63 - 1\<close>, and once the head has the last number every
  append is refused and changes nothing.\<close>

theorem journal_tx_bounded:
  assumes "journal_holds nc s ms"
  shows "(\<forall>i<length ms. i + 1 \<le> tx_val (ms ! i) \<and> tx_val (ms ! i) \<le> 2 ^ 63 - 1) \<and>
    (ms \<noteq> [] \<and> tx_val (last ms) = 2 ^ 63 - 1 \<longrightarrow> fst (append_marker nc m s) \<in> {Inl CORRUPT, Inl CHAIN_MISMATCH} \<and> snd (append_marker nc m s) = s)"
proof -
  obtain ls where c: "chained nc ls ms" and tx: "jo_headTx s = last_tx ms" and k: "jo_headKnown s" "jo_readOnly s = None"
    using assms by (auto simp: journal_holds_def)
  have dec: "isDecimalString (mk_tx m)" if "line_marker l = Some m" for l m
    using that by (auto simp: line_marker_def parseMarker_def str_at_Some split: Option.bind_splits json.splits if_splits option.splits)
  have low: "i + 1 \<le> tx_val (ms ! i)" if "i < length ms" for i
    using that
  proof (induction i)
    case 0
    then show ?case using c by (auto simp: chained_def hd_conv_nth)
  next
    case (Suc i)
    then have "tx_val (ms ! i) < tx_val (ms ! Suc i)" using c by (auto simp: chained_def sorted_wrt_iff_nth_less)
    then show ?case using Suc by simp
  qed
  have high: "tx_val (ms ! i) \<le> 2 ^ 63 - 1" if "i < length ms" for i
  proof -
    have "line_marker (ls ! i) = Some (ms ! i)"
      using that chained_length [OF c] arg_cong [OF conjunct1 [OF c [unfolded chained_def]], of "\<lambda>xs. xs ! i"] by simp
    then show ?thesis using dec by (auto simp: isDecimalString_def)
  qed
  have "fst (append_marker nc m s) \<in> {Inl CORRUPT, Inl CHAIN_MISMATCH} \<and> snd (append_marker nc m s) = s"
    if "ms \<noteq> []" "tx_val (last ms) = 2 ^ 63 - 1"
  proof (cases "append_marker nc m s")
    case (Pair r s')
    have "parseMarker (marker_json m) = None" if "mk_tx m = next_tx (last_tx ms)"
    proof (rule ccontr)
      assume "parseMarker (marker_json m) \<noteq> None"
      then have "isDecimalString (mk_tx m)" using parse_marker_json(3) by blast
      then show False using that next_tx_val [of ms] \<open>ms \<noteq> []\<close> \<open>tx_val (last ms) = 2 ^ 63 - 1\<close> by (simp add: isDecimalString_def)
    qed
    then show ?thesis using k tx by (auto simp: append_marker_def appendSync_def)
  qed
  then show ?thesis using low high by blast
qed

section \<open>A journal with one marker\<close>


definition journal_crypto :: node_crypto where
  "journal_crypto = \<lparr>nc_sha256 = (\<lambda>s. CHR ''k'' # replicate 31 CHR ''k''), nc_public = (\<lambda>_. True), nc_verify = (\<lambda>_ _ _. True)\<rparr>"

definition first_marker :: marker where
  "first_marker = \<lparr>mk_tx = ''1'', mk_previous = GENESIS_HASH,
     mk_records = [\<lparr>lo_lane = ''delivery'', lo_segment = ''s0000000000000000.jsonl'', lo_offset = 0, lo_length = 7, lo_raw = GENESIS_HASH\<rparr>],
     mk_objects = [\<lparr>od_digest = GENESIS_HASH, od_bytes = ''12''\<rparr>],
     mk_mutation = JObj [(''op'', JStr ''put'')], mk_result = GENESIS_HASH\<rparr>"

definition empty_journal :: journal where
  "empty_journal = snd (jo_verify journal_crypto (open_journal None))"

lemma empty_journal_holds: "journal_holds journal_crypto empty_journal []"
  by (simp add: journal_holds_def empty_journal_def jo_verify_def open_journal_def file_bytes_def last_tx_def last_hash_def)

lemma first_marker_printable: "printable (mk_mutation first_marker)"
  by (simp add: first_marker_def printable_def)

lemma zeros_hex [simp]: "isHex64 GENESIS_HASH"
  by (simp add: isHex64_iff GENESIS_HASH_def is_hex_def)

lemma first_marker_parses: "parseMarker (marker_json first_marker) \<noteq> None"
proof -
  have "isLaneKey ''delivery''" by (simp add: isLaneKey_iff is_alpha_def is_digit_def) code_simp
  moreover have "isSegmentName ''s0000000000000000.jsonl''"
    unfolding isSegmentName_iff by (intro exI [of _ "''0000000000000000''"]) (simp add: is_hex_def)
  moreover have "isDecimalString ''1''" "isDecimalString ''12''"
    unfolding isDecimalString_def rx_count by (simp_all add: is_count_def is_digit_def radix_val_def char_digit_def)
  ultimately show ?thesis
    by (simp add: parseMarker_def marker_json_def first_marker_def parse_locator_def parse_object_def locator_json_def
        object_json_def str_at_def nat_at_def jget_def keysExactly_same MARKER_KEYS_def LOCATOR_KEYS_def OBJECT_KEYS_def is_safe_def MAX_SAFE_def)
qed

lemma first_append:
  "\<exists>s. append_marker journal_crypto first_marker empty_journal = (Inr (Some ''1'', sha256hex journal_crypto (marker_line first_marker)), s)"
proof -
  have "mk_tx first_marker = ''1''" "mk_previous first_marker = GENESIS_HASH" by (simp_all add: first_marker_def)
  then show ?thesis using first_marker_parses
    by (auto simp: append_marker_def appendSync_def empty_journal_def jo_verify_def open_journal_def next_tx_def Let_def)
qed

lemma first_append_line:
  assumes "LF \<notin> set t"
  shows "fst (jo_verify journal_crypto (open_journal (Some (marker_line first_marker @ t)))) =
    JvOk [first_marker] (Some ''1'') (sha256hex journal_crypto (marker_line first_marker)) (torn_of t)"
proof -
  obtain s where a: "append_marker journal_crypto first_marker empty_journal = (Inr (Some ''1'', sha256hex journal_crypto (marker_line first_marker)), s)"
    using first_append by blast
  have e: "file_bytes empty_journal = []" by (simp add: empty_journal_def jo_verify_def open_journal_def file_bytes_def)
  have c: "chained journal_crypto [marker_line first_marker] [first_marker]"
    using append_marker_holds(1,2) [OF empty_journal_holds first_marker_printable a] e
      chained_snoc [of journal_crypto "[]" _ "[]" first_marker] read_marker_line [OF first_marker_parses first_marker_printable]
    by (auto simp: line_marker_def last_hash_def first_marker_def dec_str_one [symmetric] simp del: dec_str_one)
  show ?thesis
    using jo_verify_chain [of "[marker_line first_marker]" t, OF _ assms c] marker_line_complete
    by (auto simp: last_tx_def last_hash_def first_marker_def)
qed

lemma journal_append_refines_list_witness:
  "case append_marker journal_crypto first_marker empty_journal of
      (Inr x, s') \<Rightarrow> journal_holds journal_crypto s' [first_marker] \<and> x = (Some ''1'', jo_headHash s')
    | (Inl e, s') \<Rightarrow> False"
  using journal_append_refines_list [OF empty_journal_holds first_marker_printable] first_append
  by (auto simp: first_marker_def)

lemma journal_crash_keeps_committed_witness:
  "\<exists>v s''. jo_verify journal_crypto (open_journal (Some (take 1 (marker_line first_marker)))) = (v, s'') \<and>
     v = JvOk [] None GENESIS_HASH (Some 1) \<and> jo_file s'' = Some [] \<and> jo_quarantine s'' = [take 1 (marker_line first_marker)]"
proof -
  obtain s where a: "append_marker journal_crypto first_marker empty_journal = (Inr (Some ''1'', sha256hex journal_crypto (marker_line first_marker)), s)"
    using first_append by blast
  have e: "file_bytes empty_journal = []" "jo_headTx empty_journal = None" "jo_headHash empty_journal = GENESIS_HASH"
    by (simp_all add: empty_journal_def jo_verify_def open_journal_def file_bytes_def)
  have l: "1 < length (marker_line first_marker)"
    by (simp add: marker_line_def marker_json_def utf8_def utf8_char_def)
  show ?thesis
    using journal_crash_keeps_committed [OF empty_journal_holds first_marker_printable a, of 1] e l by (auto simp: torn_of_def)
qed

lemma journal_head_hash_commits_witness:
  "fst (split_lines (marker_line first_marker @ [])) = fst (split_lines (marker_line first_marker @ ''{'')) \<and> [first_marker] = [first_marker]"
proof (rule journal_head_hash_commits [of journal_crypto])
  let ?L = "\<lambda>t. set (fst (split_lines (marker_line first_marker @ t)))"
  have sp: "LF \<notin> set t \<Longrightarrow> ?L t = {marker_line first_marker}" for t
    using split_complete_lines [of "[marker_line first_marker]" t] marker_line_complete by simp
  have no: "LF \<notin> set ''{''" by (simp add: LF_def)
  show "inj_on (sha256hex journal_crypto) (?L [] \<union> ?L ''{'')" using sp [of "[]"] sp [OF no] by simp
  have "hd (sha256hex journal_crypto l) \<noteq> hd GENESIS_HASH" for l
    by (simp add: sha256hex_def journal_crypto_def hex_encode_def hex_byte_def Let_def digit_char_def GENESIS_HASH_def char_of_def)
  then show "\<forall>l\<in>?L [] \<union> ?L ''{''. sha256hex journal_crypto l \<noteq> GENESIS_HASH" by metis
  show "fst (jo_verify journal_crypto (open_journal (Some (marker_line first_marker @ [])))) =
      JvOk [first_marker] (Some ''1'') (sha256hex journal_crypto (marker_line first_marker)) (torn_of [])"
    by (rule first_append_line) simp
  show "fst (jo_verify journal_crypto (open_journal (Some (marker_line first_marker @ ''{'')))) =
      JvOk [first_marker] (Some ''1'') (sha256hex journal_crypto (marker_line first_marker)) (torn_of ''{'')"
    by (rule first_append_line [OF no])
qed

lemma journal_tx_bounded_witness: "\<exists>s. journal_holds journal_crypto s [first_marker] \<and> 1 \<le> tx_val first_marker \<and> tx_val first_marker \<le> 2 ^ 63 - 1"
proof -
  obtain s where a: "append_marker journal_crypto first_marker empty_journal = (Inr (Some ''1'', sha256hex journal_crypto (marker_line first_marker)), s)"
    using first_append by blast
  have h: "journal_holds journal_crypto s [first_marker]" using append_marker_holds(1) [OF empty_journal_holds first_marker_printable a] by simp
  then show ?thesis using journal_tx_bounded [OF h] by (intro exI [of _ s]) auto
qed

end
