(* ===== verification/Store_Lanes.thy ===== *)
theory Store_Lanes
  imports Store_Journal_Facts
begin

text \<open>
  Model of \<open>gateway-daemon/src/store/lanes.ts\<close>: the segmented record files of a lane, their
  writer with rotation, and the recovery of a lane directory.  A directory is the list of its
  files, name and bytes.  The clock, the birth time of a file and the unused names that
  \<open>quarantineBytes\<close> draws are parameters; the \<open>n\<close>-th reading of the clock during a call is
  \<open>le_clock env n\<close>.
\<close>

type_synonym files = "(string \<times> string) list"

record lane_env =
  le_crypto :: node_crypto
  le_qname :: "files \<Rightarrow> string \<Rightarrow> string"
  le_birth :: "string \<Rightarrow> int"
  le_clock :: "nat \<Rightarrow> int"

section \<open>Names and cursors\<close>

definition DEFAULT_SEGMENT_BYTES :: nat where "DEFAULT_SEGMENT_BYTES = 67108864"
definition DEFAULT_SEGMENT_AGE_MS :: int where "DEFAULT_SEGMENT_AGE_MS = 86400000"
definition DEFAULT_MAX_RECORD_BYTES :: nat where "DEFAULT_MAX_RECORD_BYTES = 1048576"
definition LANE_META_FILE :: string where "LANE_META_FILE = ''lane.json''"
definition ACTIVE_FILE :: string where "ACTIVE_FILE = ''active.json''"

definition lane_cursor :: "nat \<Rightarrow> nat \<Rightarrow> string" where
  "lane_cursor lane n = ''c'' @ hex16 lane @ '':'' @ dec_str n"

definition parse_lane_cursor :: "string \<Rightarrow> (nat \<times> nat) option" where
  "parse_lane_cursor s =
     (if rx_test (RCat [RChr CHR ''c'', RTimes 16 (RCls is_hex), RChr CHR '':'', RPlus (RCls is_digit)]) s
      then Some (radix_val 16 (take 16 (tl s)), dec_val (drop 18 s)) else None)"

definition segmentName :: "nat \<Rightarrow> string" where
  "segmentName n = ''s'' @ hex16 n @ ''.jsonl''"

definition manifestName :: "string \<Rightarrow> string" where
  "manifestName seg =
     (if suffix ''.jsonl'' seg then take (length seg - 6) seg @ ''.manifest.json'' else seg)"

definition segmentOrdinalOf :: "string \<Rightarrow> nat option" where
  "segmentOrdinalOf seg = (if isSegmentName seg then Some (radix_val 16 (take 16 (tl seg))) else None)"

definition file_at :: "files \<Rightarrow> string \<Rightarrow> string" where
  "file_at fs name = (case map_of fs name of None \<Rightarrow> [] | Some d \<Rightarrow> d)"

definition slice :: "string \<Rightarrow> nat \<Rightarrow> nat \<Rightarrow> string" where
  "slice data a b = take (b - a) (drop a data)"

section \<open>The metadata files\<close>

definition read_obj :: "files \<Rightarrow> string \<Rightarrow> jobj option" where
  "read_obj fs name =
     (case Option.bind (Option.bind (map_of fs name) from_utf8) JSON_parse of Some (JObj u) \<Rightarrow> Some u | _ \<Rightarrow> None)"

definition write_json :: "string \<Rightarrow> json \<Rightarrow> files \<Rightarrow> files" where
  "write_json name v fs = aput name (utf8 (JSON_stringify v)) fs"

definition num_at :: "jobj \<Rightarrow> string \<Rightarrow> int option" where
  "num_at u k = (case jget u k of Some (JNum i) \<Rightarrow> if is_safe i then Some i else None | _ \<Rightarrow> None)"

definition meta_json :: "string \<Rightarrow> nat \<Rightarrow> int \<Rightarrow> json" where
  "meta_json lane n now = JObj [(''v'', JNum 1), (''lane'', JStr lane), (''ordinal'', JStr (hex16 n)), (''created_ms'', JNum now)]"

text \<open>The ordinal of \<open>lane.json\<close>, the one field of it that is used.\<close>

definition readLaneMeta :: "files \<Rightarrow> string option" where
  "readLaneMeta fs =
     (case read_obj fs LANE_META_FILE of
        None \<Rightarrow> None
      | Some u \<Rightarrow> if jget u ''v'' = Some (JNum 1) then str_at u ''ordinal'' (rx_test (RTimes 16 (RCls is_hex))) else None)"

record seal_manifest =
  sm_segment :: string
  sm_first :: "json option"
  sm_last :: "json option"
  sm_count :: int
  sm_consumed :: "int option"
  sm_length :: int
  sm_raw :: string

definition readManifest :: "files \<Rightarrow> string \<Rightarrow> seal_manifest option" where
  "readManifest fs name =
     (case read_obj fs name of
        None \<Rightarrow> None
      | Some u \<Rightarrow>
          if jget u ''v'' \<noteq> Some (JNum 1) \<or> jget u ''consumed_ordinals'' \<noteq> None \<and> num_at u ''consumed_ordinals'' = None then None
          else (case (str_at u ''segment'' (\<lambda>_. True), str_at u ''raw_sha256'' isHex64, num_at u ''length'', num_at u ''record_count'') of
                  (Some seg, Some raw, Some len, Some count) \<Rightarrow>
                    Some \<lparr>sm_segment = seg, sm_first = jget u ''first_cursor'', sm_last = jget u ''last_cursor'', sm_count = count,
                          sm_consumed = num_at u ''consumed_ordinals'', sm_length = len, sm_raw = raw\<rparr>
                | _ \<Rightarrow> None))"

definition cursor_json :: "string option \<Rightarrow> json" where
  "cursor_json c = (case c of None \<Rightarrow> JNull | Some s \<Rightarrow> JStr s)"

definition seal_json :: "string \<Rightarrow> string option \<Rightarrow> string option \<Rightarrow> nat \<Rightarrow> nat \<Rightarrow> nat \<Rightarrow> string \<Rightarrow> int \<Rightarrow> json" where
  "seal_json seg first final count consumed len raw now = JObj
     [(''v'', JNum 1), (''segment'', JStr seg), (''first_cursor'', cursor_json first), (''last_cursor'', cursor_json final),
      (''record_count'', JNum (int count)), (''consumed_ordinals'', JNum (int consumed)), (''length'', JNum (int len)),
      (''raw_sha256'', JStr raw), (''sealed_ms'', JNum now)]"

text \<open>The pointer file: the segment it names and its opening time, when that is a safe integer.\<close>

definition readActivePointer :: "files \<Rightarrow> (string \<times> int option) option" where
  "readActivePointer fs =
     (case read_obj fs ACTIVE_FILE of
        None \<Rightarrow> None
      | Some u \<Rightarrow>
          if jget u ''v'' = Some (JNum 1)
          then map_option (\<lambda>s. (s, num_at u ''opened_ms'')) (str_at u ''segment'' (\<lambda>_. True)) else None)"

section \<open>The writer\<close>

record lane_writer =
  lw_files :: files
  lw_lane :: string
  lw_laneOrdinal :: nat
  lw_segmentBytes :: nat
  lw_maxAgeMs :: int
  lw_maxRecordBytes :: nat
  lw_fh :: bool
  lw_segment :: string
  lw_segOrdinal :: nat
  lw_offset :: nat
  lw_openedMs :: "int option"
  lw_recordsInSegment :: nat
  lw_firstCursor :: "string option"
  lw_lastCursor :: "string option"
  lw_recordOrdinal :: nat
  lw_hash :: string
  lw_closed :: bool

type_synonym 'a lane_op = "(lane_writer, store_code, 'a) op"

record lane_options =
  lp_lane :: string
  lp_ordinal :: nat
  lp_segmentBytes :: "nat option"
  lp_maxAgeMs :: "int option"
  lp_maxRecordBytes :: "nat option"

text \<open>The constructor and the initial values of the fields.\<close>

definition new_writer :: "files \<Rightarrow> lane_options \<Rightarrow> nat \<Rightarrow> lane_writer" where
  "new_writer fs p n =
     \<lparr>lw_files = fs, lw_lane = lp_lane p, lw_laneOrdinal = n,
      lw_segmentBytes = (case lp_segmentBytes p of None \<Rightarrow> DEFAULT_SEGMENT_BYTES | Some b \<Rightarrow> b),
      lw_maxAgeMs = (case lp_maxAgeMs p of None \<Rightarrow> DEFAULT_SEGMENT_AGE_MS | Some b \<Rightarrow> b),
      lw_maxRecordBytes = (case lp_maxRecordBytes p of None \<Rightarrow> DEFAULT_MAX_RECORD_BYTES | Some b \<Rightarrow> b),
      lw_fh = False, lw_segment = [], lw_segOrdinal = 0, lw_offset = 0, lw_openedMs = Some 0, lw_recordsInSegment = 0,
      lw_firstCursor = None, lw_lastCursor = None, lw_recordOrdinal = 1, lw_hash = [], lw_closed = False\<rparr>"

definition writeActive :: "lane_writer \<Rightarrow> lane_writer" where
  "writeActive w = w\<lparr>lw_files := write_json ACTIVE_FILE
     (JObj ([(''v'', JNum 1), (''lane'', JStr (lw_lane w)), (''lane_ordinal'', JStr (hex16 (lw_laneOrdinal w))),
             (''segment'', JStr (lw_segment w)), (''next_record_ordinal'', JStr (dec_str (lw_recordOrdinal w)))] @
            (case lw_openedMs w of None \<Rightarrow> [] | Some t \<Rightarrow> [(''opened_ms'', JNum t)]))) (lw_files w)\<rparr>"

definition startSegment :: "nat \<Rightarrow> int \<Rightarrow> unit lane_op" where
  "startSegment n now w =
     (let w1 = w\<lparr>lw_segOrdinal := n, lw_segment := segmentName n\<rparr> in
      if map_of (lw_files w) (segmentName n) \<noteq> None then (Inl CORRUPT, w1)
      else (Inr (), w1\<lparr>lw_files := lw_files w @ [(segmentName n, [])], lw_fh := True, lw_offset := 0, lw_openedMs := Some now,
              lw_recordsInSegment := 0, lw_firstCursor := None, lw_lastCursor := None, lw_hash := []\<rparr>))"

definition rotate_segment :: "node_crypto \<Rightarrow> int \<Rightarrow> int \<Rightarrow> unit lane_op" where
  "rotate_segment nc sealed opened w =
     (let seal = seal_json (lw_segment w) (lw_firstCursor w) (lw_lastCursor w) (lw_recordsInSegment w) (lw_recordsInSegment w)
                   (lw_offset w) (sha256hex nc (lw_hash w)) sealed;
          w1 = w\<lparr>lw_fh := False, lw_files := write_json (manifestName (lw_segment w)) seal (lw_files w)\<rparr> in
      case startSegment (lw_segOrdinal w + 1) opened w1 of
        (Inl e, w2) \<Rightarrow> (Inl e, w2)
      | (Inr u, w2) \<Rightarrow> (Inr u, writeActive w2))"

record lane_append =
  la_cursor :: string
  la_segment :: string
  la_offset :: nat
  la_length :: nat
  la_raw :: string

definition append_line :: "node_crypto \<Rightarrow> string \<Rightarrow> lane_append lane_op" where
  "append_line nc line w =
     (let cursor = lane_cursor (lw_laneOrdinal w) (lw_recordOrdinal w) in
      (Inr \<lparr>la_cursor = cursor, la_segment = lw_segment w, la_offset = lw_offset w, la_length = length line,
            la_raw = sha256hex nc line\<rparr>,
       w\<lparr>lw_files := aput (lw_segment w) (file_at (lw_files w) (lw_segment w) @ line) (lw_files w),
         lw_hash := lw_hash w @ line, lw_offset := lw_offset w + length line,
         lw_firstCursor := (if lw_recordsInSegment w = 0 then Some cursor else lw_firstCursor w), lw_lastCursor := Some cursor,
         lw_recordsInSegment := lw_recordsInSegment w + 1, lw_recordOrdinal := lw_recordOrdinal w + 1\<rparr>))"

definition BOM :: string where "BOM = [char_of (0xEF::nat), char_of (0xBB::nat), char_of (0xBF::nat)]"

text \<open>The test for rotation of \<open>append\<close>; an unknown opening time never exceeds the age.\<close>

definition must_rotate :: "nat \<Rightarrow> int \<Rightarrow> lane_writer \<Rightarrow> bool" where
  "must_rotate len now w \<longleftrightarrow> 0 < lw_recordsInSegment w \<and>
     (lw_segmentBytes w < lw_offset w + len \<or>
      (case lw_openedMs w of None \<Rightarrow> False | Some t \<Rightarrow> lw_maxAgeMs w < now - t))"

definition lane_append_record :: "lane_env \<Rightarrow> string \<Rightarrow> lane_append lane_op" where
  "lane_append_record env rec w =
     (if lw_closed w \<or> \<not> lw_fh w then (Inl CORRUPT, w)
      else if rec = [] then (Inl BAD_RECORD, w)
      else if lw_maxRecordBytes w < length rec then (Inl STORE_OBJECT_LIMIT, w)
      else if take 3 rec = BOM then (Inl BAD_RECORD, w)
      else if LF \<in> set rec then (Inl BAD_RECORD, w)
      else (let line = rec @ [LF] in
            if must_rotate (length line) (le_clock env 0) w
            then (case rotate_segment (le_crypto env) (le_clock env 1) (le_clock env 2) w of
                    (Inl e, w1) \<Rightarrow> (Inl e, w1)
                  | (Inr _, w1) \<Rightarrow> append_line (le_crypto env) line w1)
            else append_line (le_crypto env) line w))"

definition close_lane :: "lane_writer \<Rightarrow> lane_writer" where
  "close_lane w = w\<lparr>lw_fh := False, lw_closed := True\<rparr>"

definition create_lane :: "lane_env \<Rightarrow> files \<Rightarrow> lane_options \<Rightarrow> store_code + lane_writer" where
  "create_lane env fs p =
     (if map_of fs LANE_META_FILE \<noteq> None then Inl FileExists
      else (case startSegment 1 (le_clock env 1)
              (new_writer (write_json LANE_META_FILE (meta_json (lp_lane p) (lp_ordinal p) (le_clock env 0)) fs) p (lp_ordinal p)) of
              (Inl e, _) \<Rightarrow> Inl e
            | (Inr _, w) \<Rightarrow> Inr (writeActive w)))"

end
