(* ===== verification/Store_Recover.thy ===== *)
theory Store_Recover
  imports Store_Lanes
begin

text \<open>
  Model of the recovery half of \<open>gateway-daemon/src/store/lanes.ts\<close>: \<open>recoverLane\<close> with its helpers
  and \<open>LaneWriter.open\<close>.  Files are read, quarantined and truncated in the order of the source.
\<close>

section \<open>Lines\<close>

function line_search :: "nat list \<Rightarrow> nat \<Rightarrow> int \<Rightarrow> int \<Rightarrow> int" where
  "line_search starts off lo hi =
     (if hi < lo then -1
      else (let mid = (lo + hi) div 2; v = starts ! nat mid in
            if v = off then mid
            else if v < off then line_search starts off (mid + 1) hi
            else line_search starts off lo (mid - 1)))"
  by pat_completeness auto
termination
  by (relation "measure (\<lambda>(_, _, lo, hi). nat (hi - lo + 1))") auto

declare line_search.simps [simp del]

definition lineIndexOf :: "nat list \<Rightarrow> nat \<Rightarrow> int" where
  "lineIndexOf starts off = line_search starts off 0 (int (length starts) - 1)"

text \<open>The loop of \<open>scanLines\<close> from byte \<open>i\<close> with the current line started at \<open>pos\<close>.\<close>

fun scan_from :: "nat \<Rightarrow> nat \<Rightarrow> string \<Rightarrow> nat list \<times> nat" where
  "scan_from i pos [] = ([], pos)"
| "scan_from i pos (c # cs) =
     (if c = LF then (case scan_from (i + 1) (i + 1) cs of (ss, e) \<Rightarrow> (pos # ss, e)) else scan_from (i + 1) pos cs)"

definition scanLines :: "string \<Rightarrow> nat list \<times> nat" where
  "scanLines data = scan_from 0 0 data"

section \<open>The report\<close>

record extent =
  ex_offset :: nat
  ex_length :: nat
  ex_raw :: string

record recover_options =
  ro_quarantine :: bool
  ro_committed :: "(string \<times> extent list) list option"
  ro_dryRun :: bool

datatype corrupt_reason = NotLineBoundary nat | ExceedsRetained nat | NotTerminated nat | DigestMismatch nat
  | HolesWithoutQuarantine | TailWithoutQuarantine | ManifestMismatch | ConsumedBelowCount | UnsealedNonFinal
  | UnsealedBytesMissing | LaneIdentityMissing | BytesMissing nat nat

text \<open>An orphan: the name of its evidence file, or the range a dry run would move.\<close>

datatype orphan = Evidence string | Range string nat nat

record segment_info =
  si_segment :: string
  si_ordinal :: nat
  si_sealed :: bool
  si_length :: nat
  si_records :: nat
  si_consumed :: nat
  si_written_base :: nat
  si_line_offsets :: "nat list"
  si_first :: "json option"
  si_last :: "json option"
  si_raw :: "string option"

record lane_report =
  rv_files :: files
  rv_quarantine :: files
  rv_lane_ordinal :: "string option"
  rv_segments :: "segment_info list"
  rv_active :: "string option"
  rv_opened :: "int option"
  rv_torn :: nat
  rv_orphans :: "orphan list"
  rv_corrupt :: "(string \<times> corrupt_reason) list"
  rv_base :: nat

definition next_record_ordinal :: "lane_report \<Rightarrow> nat" where
  "next_record_ordinal r = rv_base r + 1"

definition add_corrupt :: "string \<Rightarrow> corrupt_reason \<Rightarrow> lane_report \<Rightarrow> lane_report" where
  "add_corrupt name why r = r\<lparr>rv_corrupt := rv_corrupt r @ [(name, why)]\<rparr>"

text \<open>A recovered segment takes its place behind the ordinals of the earlier ones.\<close>

definition push_segment :: "(nat \<Rightarrow> segment_info) \<Rightarrow> nat \<Rightarrow> lane_report \<Rightarrow> lane_report" where
  "push_segment info consumed r =
     r\<lparr>rv_segments := rv_segments r @ [info (rv_base r)], rv_base := rv_base r + consumed\<rparr>"

section \<open>Checks and quarantine\<close>

text \<open>\<open>data[i] !== 0x0a\<close> is true beyond the data, where the element is undefined.\<close>

definition ends_with_LF :: "string \<Rightarrow> nat \<Rightarrow> bool" where
  "ends_with_LF data e \<longleftrightarrow> 0 < e \<and> e \<le> length data \<and> data ! (e - 1) = LF"

fun verifyCommitted :: "node_crypto \<Rightarrow> string \<Rightarrow> nat list \<Rightarrow> nat \<Rightarrow> extent list \<Rightarrow> corrupt_reason option" where
  "verifyCommitted nc data starts e [] = None"
| "verifyCommitted nc data starts e (l # ls) =
     (let off = ex_offset l; stop = ex_offset l + ex_length l in
      if lineIndexOf starts off < 0 then Some (NotLineBoundary off)
      else if e < stop then Some (ExceedsRetained off)
      else if \<not> ends_with_LF data stop then Some (NotTerminated off)
      else if sha256hex nc (slice data off stop) \<noteq> ex_raw l then Some (DigestMismatch off)
      else verifyCommitted nc data starts e ls)"

text \<open>The ranges of the loop of \<open>preserveOrphanHoles\<close> over the line starts.\<close>

fun hole_ranges :: "nat list \<Rightarrow> nat list \<Rightarrow> nat \<Rightarrow> nat list \<Rightarrow> (nat \<times> nat) list" where
  "hole_ranges starts covered e [] = []"
| "hole_ranges starts covered e (s # ss) =
     (if e \<le> s then []
      else if s \<in> set covered then hole_ranges starts covered e ss
      else (let i = lineIndexOf starts s + 1 in
            (s, if i < int (length starts) then starts ! nat i else e) # hole_ranges starts covered e ss))"

definition hole_name :: "node_crypto \<Rightarrow> string \<Rightarrow> string \<Rightarrow> string" where
  "hole_name nc name blob = ''lane-orphan-'' @ name @ ''-'' @ take 16 (sha256hex nc blob) @ ''.bin''"

definition preserveOrphanHoles ::
  "lane_env \<Rightarrow> recover_options \<Rightarrow> string \<Rightarrow> string \<Rightarrow> nat list \<Rightarrow> nat list \<Rightarrow> nat \<Rightarrow> lane_report \<Rightarrow> lane_report" where
  "preserveOrphanHoles env opts name data starts covered e r =
     (let rs = hole_ranges starts covered e starts;
          r1 = (if ro_dryRun opts then r\<lparr>rv_orphans := rv_orphans r @ map (\<lambda>(a, b). Range name a b) rs\<rparr> else r) in
      if rs = [] \<or> ro_dryRun opts then r1
      else if \<not> ro_quarantine opts then add_corrupt name HolesWithoutQuarantine r1
      else (let blob = concat (map (\<lambda>(a, b). slice data a b) rs); qp = hole_name (le_crypto env) name blob in
            r1\<lparr>rv_quarantine := (if map_of (rv_quarantine r1) qp = None then rv_quarantine r1 @ [(qp, blob)] else rv_quarantine r1),
               rv_orphans := rv_orphans r1 @ [Evidence qp]\<rparr>))"

text \<open>\<open>quarantineTail\<close>: the bytes from \<open>e\<close> on go to a new evidence file, then the file is cut.\<close>

definition quarantineTail :: "lane_env \<Rightarrow> string \<Rightarrow> nat \<Rightarrow> lane_report \<Rightarrow> lane_report" where
  "quarantineTail env name e r =
     (let data = file_at (rv_files r) name; qp = le_qname env (rv_quarantine r) (''lane-orphan-'' @ name) in
      if length data \<le> e then r
      else r\<lparr>rv_quarantine := rv_quarantine r @ [(qp, drop e data)], rv_files := aput name (take e data) (rv_files r),
             rv_torn := rv_torn r + (length data - e), rv_orphans := rv_orphans r @ [Evidence qp]\<rparr>)"

text \<open>\<open>moveTail\<close>, \<open>False\<close> for its answer \<open>corrupt\<close>.\<close>

definition moveTail :: "lane_env \<Rightarrow> recover_options \<Rightarrow> string \<Rightarrow> nat \<Rightarrow> lane_report \<Rightarrow> bool \<times> lane_report" where
  "moveTail env opts name e r =
     (let size = length (file_at (rv_files r) name) in
      if size \<le> e then (True, r)
      else if ro_dryRun opts then
        (True, r\<lparr>rv_orphans := rv_orphans r @ [Range name e size], rv_torn := rv_torn r + (size - e)\<rparr>)
      else if \<not> ro_quarantine opts then (False, add_corrupt name TailWithoutQuarantine r)
      else (True, quarantineTail env name e r))"

section \<open>One segment\<close>

definition extents_of :: "recover_options \<Rightarrow> string \<Rightarrow> extent list" where
  "extents_of opts name =
     (case Option.bind (ro_committed opts) (\<lambda>c. map_of c name) of None \<Rightarrow> [] | Some ls \<Rightarrow> ls)"

definition committed_end :: "extent list \<Rightarrow> nat" where
  "committed_end ls = foldl (\<lambda>m l. max m (ex_offset l + ex_length l)) 0 ls"

definition json_cursor :: "nat \<Rightarrow> nat \<Rightarrow> json option" where
  "json_cursor lane n = Some (JStr (lane_cursor lane n))"

definition recover_sealed ::
  "lane_env \<Rightarrow> recover_options \<Rightarrow> string \<Rightarrow> seal_manifest \<Rightarrow> lane_report \<Rightarrow> lane_report" where
  "recover_sealed env opts name mf r =
     (let data = file_at (rv_files r) name; starts = fst (scanLines data); ls = extents_of opts name;
          check = (if ro_committed opts = None then None else verifyCommitted (le_crypto env) data starts (length data) ls) in
      if sm_segment mf \<noteq> name \<or> int (length data) \<noteq> sm_length mf \<or> int (length starts) \<noteq> sm_count mf \<or>
         sha256hex (le_crypto env) data \<noteq> sm_raw mf then add_corrupt name ManifestMismatch r
      else (case check of
              Some why \<Rightarrow> add_corrupt name why r
            | None \<Rightarrow>
                let r1 = (if ro_committed opts = None then r
                          else preserveOrphanHoles env opts name data starts (map ex_offset ls) (length data) r);
                    consumed = (case sm_consumed mf of None \<Rightarrow> sm_count mf | Some c \<Rightarrow> c) in
                if consumed < sm_count mf then add_corrupt name ConsumedBelowCount r1
                else push_segment (\<lambda>base.
                       \<lparr>si_segment = name, si_ordinal = (case segmentOrdinalOf name of None \<Rightarrow> 0 | Some n \<Rightarrow> n), si_sealed = True,
                        si_length = length data, si_records = length starts, si_consumed = nat consumed,
                        si_written_base = base, si_line_offsets = starts, si_first = sm_first mf, si_last = sm_last mf,
                        si_raw = Some (sm_raw mf)\<rparr>) (nat consumed) r1))"

definition recover_unsealed ::
  "lane_env \<Rightarrow> recover_options \<Rightarrow> string option \<Rightarrow> nat \<Rightarrow> string \<Rightarrow> lane_report \<Rightarrow> lane_report" where
  "recover_unsealed env opts meta now name r =
     (let data = file_at (rv_files r) name; starts = fst (scanLines data); ls = extents_of opts name; e = committed_end ls;
          lane = (case meta of None \<Rightarrow> 0 | Some s \<Rightarrow> radix_val 16 s) in
      if ro_committed opts = None then add_corrupt name UnsealedNonFinal r
      else if length data < e then add_corrupt name UnsealedBytesMissing r
      else (case verifyCommitted (le_crypto env) data starts e ls of
              Some why \<Rightarrow> add_corrupt name why r
            | None \<Rightarrow>
                if meta = None \<and> 0 < e then add_corrupt name LaneIdentityMissing r
                else (case moveTail env opts name e (preserveOrphanHoles env opts name data starts (map ex_offset ls) e r) of
                        (False, r1) \<Rightarrow> r1
                      | (True, r1) \<Rightarrow>
                          let kept = filter (\<lambda>s. s < e) starts; base = rv_base r1;
                              first = (if kept = [] then None else Some (lane_cursor lane (base + 1)));
                              final = (if kept = [] then None else Some (lane_cursor lane (base + length kept)));
                              raw = sha256hex (le_crypto env) (take e data);
                              seal = seal_json name first final (length kept) (length starts) e raw (le_clock env now) in
                          push_segment (\<lambda>_.
                            \<lparr>si_segment = name, si_ordinal = (case segmentOrdinalOf name of None \<Rightarrow> 0 | Some n \<Rightarrow> n),
                             si_sealed = True, si_length = e, si_records = length kept, si_consumed = length starts,
                             si_written_base = base, si_line_offsets = kept, si_first = Some (cursor_json first),
                             si_last = Some (cursor_json final), si_raw = Some raw\<rparr>) (length starts)
                            (r1\<lparr>rv_files := (if ro_dryRun opts then rv_files r1 else write_json (manifestName name) seal (rv_files r1))\<rparr>))))"

text \<open>The opening time of the active segment: of the pointer when it names it, of the file else.\<close>

definition active_opened :: "lane_env \<Rightarrow> string \<Rightarrow> lane_report \<Rightarrow> int option" where
  "active_opened env name r =
     (case readActivePointer (rv_files r) of
        Some (s, t) \<Rightarrow> if s = name then t else Some (le_birth env name)
      | None \<Rightarrow> Some (le_birth env name))"

definition add_active ::
  "lane_env \<Rightarrow> recover_options \<Rightarrow> string option \<Rightarrow> string \<Rightarrow> nat list \<Rightarrow> nat list \<Rightarrow> nat \<Rightarrow> lane_report \<Rightarrow> lane_report" where
  "add_active env opts meta name starts kept len r =
     (let ls = extents_of opts name; lane = (case meta of None \<Rightarrow> 0 | Some s \<Rightarrow> radix_val 16 s); base = rv_base r;
          at_extent = (\<lambda>l. json_cursor lane (nat (int base + lineIndexOf starts (ex_offset l) + 1)));
          whole = (kept \<noteq> [] \<and> ro_committed opts = None \<and> meta \<noteq> None);
          r1 = push_segment (\<lambda>base.
                   \<lparr>si_segment = name, si_ordinal = (case segmentOrdinalOf name of None \<Rightarrow> 0 | Some n \<Rightarrow> n), si_sealed = False,
                    si_length = len, si_records = length kept, si_consumed = length kept, si_written_base = base,
                    si_line_offsets = kept,
                    si_first = (if ls \<noteq> [] \<and> meta \<noteq> None then at_extent (hd ls)
                                else if whole then json_cursor lane (base + 1) else Some JNull),
                    si_last = (if ls \<noteq> [] \<and> meta \<noteq> None then at_extent (last ls)
                               else if whole then json_cursor lane (base + length kept) else Some JNull),
                    si_raw = None\<rparr>) (length kept) r in
      r1\<lparr>rv_opened := active_opened env name r1\<rparr>)"

definition recover_active ::
  "lane_env \<Rightarrow> recover_options \<Rightarrow> string option \<Rightarrow> string \<Rightarrow> lane_report \<Rightarrow> lane_report" where
  "recover_active env opts meta name r0 =
     (let r = r0\<lparr>rv_active := Some name\<rparr>; data = file_at (rv_files r) name; starts = fst (scanLines data) in
      case ro_committed opts of
        Some _ \<Rightarrow>
          (let ls = extents_of opts name; e = committed_end ls in
           if length data < e then add_corrupt name (BytesMissing (length data) e) r
           else (case verifyCommitted (le_crypto env) data starts e ls of
                   Some why \<Rightarrow> add_corrupt name why r
                 | None \<Rightarrow>
                     (case moveTail env opts name e (preserveOrphanHoles env opts name data starts (map ex_offset ls) e r) of
                        (False, r1) \<Rightarrow> r1
                      | (True, r1) \<Rightarrow> add_active env opts meta name starts (filter (\<lambda>s. s < e) starts) e r1)))
      | None \<Rightarrow>
          (let e = snd (scanLines data) in
           case (if e < length data then moveTail env opts name e r else (True, r)) of
             (False, r1) \<Rightarrow> r1
           | (True, r1) \<Rightarrow> add_active env opts meta name starts starts e r1))"

section \<open>The lane\<close>

definition recover_segment ::
  "lane_env \<Rightarrow> recover_options \<Rightarrow> string option \<Rightarrow> nat \<Rightarrow> bool \<Rightarrow> string \<Rightarrow> lane_report \<Rightarrow> lane_report" where
  "recover_segment env opts meta now is_last name r =
     (case readManifest (rv_files r) (manifestName name) of
        Some mf \<Rightarrow> recover_sealed env opts name mf r
      | None \<Rightarrow>
          if is_last then recover_active env opts meta name r else recover_unsealed env opts meta now name r)"

fun recover_segments :: "lane_env \<Rightarrow> recover_options \<Rightarrow> string option \<Rightarrow> nat \<Rightarrow> string list \<Rightarrow> lane_report \<Rightarrow> lane_report" where
  "recover_segments env opts meta now [] r = r"
| "recover_segments env opts meta now (name # names) r =
     recover_segments env opts meta (now + 1) names (recover_segment env opts meta now (names = []) name r)"

text \<open>Of equal length, the names sort by \<open>localeCompare\<close> as by their characters.\<close>

definition segment_files :: "files \<Rightarrow> string list" where
  "segment_files fs = sort (filter isSegmentName (map fst fs))"

definition recoverLane :: "lane_env \<Rightarrow> recover_options \<Rightarrow> files \<Rightarrow> files \<Rightarrow> lane_report" where
  "recoverLane env opts fs qs =
     (let meta = readLaneMeta fs in
      recover_segments env opts meta 1 (segment_files fs)
        \<lparr>rv_files = fs, rv_quarantine = qs, rv_lane_ordinal = meta, rv_segments = [], rv_active = None,
         rv_opened = Some (le_clock env 0), rv_torn = 0, rv_orphans = [], rv_corrupt = [], rv_base = 0\<rparr>)"

text \<open>\<open>LaneWriter.open\<close> on a report and the directory it left.\<close>

definition open_lane :: "lane_env \<Rightarrow> lane_options \<Rightarrow> lane_report \<Rightarrow> store_code + lane_writer" where
  "open_lane env p r =
     (if rv_corrupt r \<noteq> [] then Inl CORRUPT
      else (let meta = readLaneMeta (rv_files r); n = (case meta of None \<Rightarrow> lp_ordinal p | Some s \<Rightarrow> radix_val 16 s) in
            if meta = None \<and> map_of (rv_files r) LANE_META_FILE \<noteq> None then Inl FileExists
            else (let fs = (case meta of None \<Rightarrow> write_json LANE_META_FILE (meta_json (lp_lane p) n (le_clock env 0)) (rv_files r)
                                        | Some _ \<Rightarrow> rv_files r);
                      w = new_writer fs p n in
                  case rv_active r of
                    None \<Rightarrow>
                      (case startSegment (if rv_segments r = [] then 1 else si_ordinal (last (rv_segments r)) + 1) (le_clock env 1) w of
                         (Inl e, _) \<Rightarrow> Inl e
                       | (Inr _, w1) \<Rightarrow> Inr (writeActive (w1\<lparr>lw_recordOrdinal := next_record_ordinal r\<rparr>)))
                  | Some seg \<Rightarrow>
                      (case find (\<lambda>s. si_segment s = seg) (rv_segments r) of
                         None \<Rightarrow> Inl CORRUPT
                       | Some a \<Rightarrow>
                           let base = si_written_base a in
                           Inr (writeActive (w\<lparr>lw_segment := si_segment a, lw_segOrdinal := si_ordinal a, lw_offset := si_length a,
                             lw_openedMs := rv_opened r, lw_recordsInSegment := si_records a,
                             lw_firstCursor := (if 0 < si_records a then Some (lane_cursor n (base + 1)) else None),
                             lw_lastCursor := (if 0 < si_records a then Some (lane_cursor n (base + si_records a)) else None),
                             lw_hash := file_at fs (si_segment a), lw_fh := True, lw_recordOrdinal := next_record_ordinal r\<rparr>))))))"

end
