(* ===== verification/Store_Recover_Facts.thy ===== *)
theory Store_Recover_Facts
  imports Store_Recover
begin

text \<open>
  What recovery of a lane promises: it moves bytes to the quarantine but loses none, it vouches
  for every committed record, and its dry run announces what it would do.
\<close>

section \<open>Lines and their starts\<close>

fun line_starts :: "nat \<Rightarrow> string list \<Rightarrow> nat list" where
  "line_starts n [] = []"
| "line_starts n (l # ls) = n # line_starts (n + length l) ls"

lemma line_starts_length [simp]: "length (line_starts n ls) = length ls"
  by (induction ls arbitrary: n) auto

lemma line_starts_nth: "i < length ls \<Longrightarrow> line_starts n ls ! i = n + length (concat (take i ls))"
  by (induction ls arbitrary: n i) (auto simp: nth_Cons split: nat.splits)

lemma complete_line_length: "complete_line l \<Longrightarrow> 0 < length l"
  by (auto simp: complete_line_def)

lemma line_starts_bound: "s \<in> set (line_starts n ls) \<Longrightarrow> n \<le> s"
  by (induction ls arbitrary: n) (auto dest: add_leD1)

lemma line_starts_sorted: "\<forall>l\<in>set ls. complete_line l \<Longrightarrow> sorted_wrt (<) (line_starts n ls)"
proof (induction ls arbitrary: n)
  case (Cons l ls)
  then have "n < s" if "s \<in> set (line_starts (n + length l) ls)" for s
    using line_starts_bound [OF that] complete_line_length [of l] Cons.prems by (auto simp del: length_greater_0_conv)
  then show ?case using Cons by simp
qed simp

lemma scan_skip: "LF \<notin> set b \<Longrightarrow> scan_from i p (b @ cs) = scan_from (i + length b) p cs"
  by (induction b arbitrary: i) auto

lemma scan_lines:
  "\<forall>l\<in>set ls. complete_line l \<Longrightarrow> LF \<notin> set t \<Longrightarrow>
     scan_from n n (concat ls @ t) = (line_starts n ls, n + length (concat ls))"
proof (induction ls arbitrary: n)
  case Nil
  then show ?case using scan_skip [of t n n "[]"] by simp
next
  case (Cons l ls)
  then obtain b where b: "l = b @ [LF]" "LF \<notin> set b" by (auto simp: complete_line_def)
  have "scan_from (Suc (n + length b)) (Suc (n + length b)) (concat ls @ t) =
      (line_starts (Suc (n + length b)) ls, Suc (n + length b) + length (concat ls))"
    using Cons by simp
  then show ?case using b scan_skip [of b n n "LF # concat ls @ t"] by simp
qed

lemma data_lines: "\<exists>ls t. data = concat ls @ t \<and> (\<forall>l\<in>set ls. complete_line l) \<and> LF \<notin> set t \<and>
    scanLines data = (line_starts 0 ls, length (concat ls))"
proof -
  obtain ls t where s: "split_lines data = (ls, t)" by (cases "split_lines data")
  show ?thesis using split_lines_complete [OF s] scan_lines [of ls t 0] by (auto simp: scanLines_def)
qed

lemma starts_sorted: "sorted_wrt (<) (fst (scanLines data))"
  using data_lines [of data] line_starts_sorted by auto

lemma line_search_spec:
  assumes "sorted_wrt (<) xs" "0 \<le> lo" "hi < int (length xs)"
  shows "(line_search xs v lo hi = -1 \<and> (\<forall>i. lo \<le> int i \<and> int i \<le> hi \<longrightarrow> xs ! i \<noteq> v)) \<or>
    (lo \<le> line_search xs v lo hi \<and> line_search xs v lo hi \<le> hi \<and> xs ! nat (line_search xs v lo hi) = v)"
  using assms
proof (induction xs v lo hi rule: line_search.induct)
  case (1 xs v lo hi)
  show ?case
  proof (cases "hi < lo")
    case True
    then show ?thesis by (simp add: line_search.simps)
  next
    case False
    define mid where "mid = (lo + hi) div 2"
    have mid: "lo \<le> mid" "mid \<le> hi" using False by (auto simp: mid_def)
    note inc = sorted_wrt_nth_less [OF "1.prems"(1)]
    consider "xs ! nat mid = v" | "xs ! nat mid < v" | "v < xs ! nat mid" by linarith
    then show ?thesis
    proof cases
      case 1
      then show ?thesis using mid False by (simp add: line_search.simps [of xs v lo hi] mid_def [symmetric])
    next
      case 2
      have left: "xs ! i \<noteq> v" if "int i \<le> mid" for i
        using that 2 inc [of i "nat mid"] mid "1.prems" by (cases "int i = mid") (auto simp: nat_less_iff zless_nat_eq_int_zless)
      have e: "line_search xs v lo hi = line_search xs v (mid + 1) hi"
        using 2 False by (simp add: line_search.simps [of xs v lo hi] mid_def [symmetric] Let_def)
      show ?thesis
        using "1.IH"(1) [OF False mid_def refl] 2 mid "1.prems" left unfolding e by force
    next
      case 3
      have right: "xs ! i \<noteq> v" if "mid \<le> int i" "int i \<le> hi" for i
        using that 3 inc [of "nat mid" i] mid "1.prems" by (cases "int i = mid") (auto simp: nat_less_iff zless_nat_eq_int_zless)
      have e: "line_search xs v lo hi = line_search xs v lo (mid - 1)"
        using 3 False by (simp add: line_search.simps [of xs v lo hi] mid_def [symmetric] Let_def)
      show ?thesis
        using "1.IH"(2) [OF False mid_def refl] 3 mid "1.prems" right unfolding e by force
    qed
  qed
qed

lemma lineIndexOf_iff:
  assumes "sorted_wrt (<) xs"
  shows "lineIndexOf xs v = int i \<longleftrightarrow> i < length xs \<and> xs ! i = v"
    and "lineIndexOf xs v < 0 \<longleftrightarrow> v \<notin> set xs"
proof -
  note spec = line_search_spec [OF assms, of 0 "int (length xs) - 1" v]
  have inj: "i < length xs \<Longrightarrow> j < length xs \<Longrightarrow> xs ! i = xs ! j \<Longrightarrow> i = j" for i j
    using sorted_wrt_nth_less [OF assms] by (metis less_irrefl nat_neq_iff)
  show "lineIndexOf xs v < 0 \<longleftrightarrow> v \<notin> set xs" using spec by (auto simp: lineIndexOf_def in_set_conv_nth)
  show "lineIndexOf xs v = int i \<longleftrightarrow> i < length xs \<and> xs ! i = v"
    using spec inj [of i "nat (line_search xs v 0 (int (length xs) - 1))"] by (auto simp: lineIndexOf_def nat_less_iff)
qed

section \<open>Nothing is lost\<close>

lemma manifest_not_segment: "isSegmentName n \<Longrightarrow> manifestName n \<noteq> n \<and> \<not> isSegmentName (manifestName n)"
proof -
  assume "isSegmentName n"
  then obtain x where "n = ''s'' @ x @ ''.jsonl''" "length x = 16" by (auto simp: isSegmentName_iff)
  then have "suffix ''.jsonl'' n" "take (length n - 6) n = ''s'' @ x" by (simp_all add: suffix_def)
  then have m: "manifestName n = ''s'' @ x @ ''.manifest.json''" by (simp add: manifestName_def)
  have "\<not> isSegmentName (manifestName n)"
  proof
    assume "isSegmentName (manifestName n)"
    then obtain y where "manifestName n = ''s'' @ y @ ''.jsonl''" "length y = 16" by (auto simp: isSegmentName_iff)
    then have "length (manifestName n) = 23" by simp
    then show False using m \<open>length x = 16\<close> by simp
  qed
  then show ?thesis using \<open>isSegmentName n\<close> by metis
qed

text \<open>A step of recovery on the segment \<open>name\<close>: other files stay, except its manifest, and what the
  segment loses at its end is in the quarantine.\<close>

definition only_tail_moved :: "string \<Rightarrow> lane_report \<Rightarrow> lane_report \<Rightarrow> bool" where
  "only_tail_moved name r r' \<longleftrightarrow>
     (\<forall>n. n \<noteq> name \<and> n \<noteq> manifestName name \<longrightarrow> map_of (rv_files r') n = map_of (rv_files r) n) \<and>
     (\<exists>t. file_at (rv_files r) name = file_at (rv_files r') name @ t \<and> (t = [] \<or> t \<in> snd ` set (rv_quarantine r'))) \<and>
     set (rv_quarantine r) \<subseteq> set (rv_quarantine r')"

lemma only_tail_refl: "rv_files r' = rv_files r \<Longrightarrow> set (rv_quarantine r) \<subseteq> set (rv_quarantine r') \<Longrightarrow> only_tail_moved name r r'"
  by (auto simp: only_tail_moved_def)

lemma file_at_aput [simp]: "file_at (aput k v fs) n = (if n = k then v else file_at fs n)"
  by (simp add: file_at_def)

lemma holes_fields:
  "rv_files (preserveOrphanHoles env opts name data starts cov e r) = rv_files r"
  "set (rv_quarantine r) \<subseteq> set (rv_quarantine (preserveOrphanHoles env opts name data starts cov e r))"
  "rv_segments (preserveOrphanHoles env opts name data starts cov e r) = rv_segments r"
  "rv_base (preserveOrphanHoles env opts name data starts cov e r) = rv_base r"
  "rv_torn (preserveOrphanHoles env opts name data starts cov e r) = rv_torn r"
  "rv_active (preserveOrphanHoles env opts name data starts cov e r) = rv_active r"
  "rv_opened (preserveOrphanHoles env opts name data starts cov e r) = rv_opened r"
  "rv_lane_ordinal (preserveOrphanHoles env opts name data starts cov e r) = rv_lane_ordinal r"
  by (auto simp: preserveOrphanHoles_def add_corrupt_def Let_def)

lemma moveTail_fields:
  assumes "moveTail env opts name e r = (b, r')"
  shows "rv_segments r' = rv_segments r" "rv_base r' = rv_base r"
    "b \<Longrightarrow> \<not> ro_dryRun opts \<Longrightarrow> file_at (rv_files r') name = take e (file_at (rv_files r) name)"
    "\<not> b \<Longrightarrow> rv_corrupt r' \<noteq> []"
    "b \<Longrightarrow> rv_corrupt r' = rv_corrupt r"
    "n \<noteq> name \<Longrightarrow> map_of (rv_files r') n = map_of (rv_files r) n"
  using assms
  by (auto simp: moveTail_def quarantineTail_def add_corrupt_def Let_def split: if_splits)

lemma moveTail_moves:
  assumes "moveTail env opts name e r = (b, r')"
  shows "only_tail_moved name r r'"
proof (cases "rv_files r' = rv_files r")
  case True
  then show ?thesis using assms
    by (intro only_tail_refl) (auto simp: moveTail_def quarantineTail_def add_corrupt_def Let_def split: if_splits)
next
  case False
  then show ?thesis using assms
    by (auto simp: only_tail_moved_def moveTail_def quarantineTail_def add_corrupt_def Let_def split: if_splits
        intro!: exI [of _ "drop e (file_at (rv_files r) name)"])
qed

lemma add_corrupt_fields [simp]:
  "rv_files (add_corrupt n w r) = rv_files r" "rv_quarantine (add_corrupt n w r) = rv_quarantine r"
  "rv_segments (add_corrupt n w r) = rv_segments r" "rv_base (add_corrupt n w r) = rv_base r"
  "rv_corrupt (add_corrupt n w r) = rv_corrupt r @ [(n, w)]"
  by (simp_all add: add_corrupt_def)

lemma add_active_fields [simp]:
  "rv_files (add_active env opts meta name starts kept len r) = rv_files r"
  "rv_quarantine (add_active env opts meta name starts kept len r) = rv_quarantine r"
  "rv_corrupt (add_active env opts meta name starts kept len r) = rv_corrupt r"
  by (simp_all add: add_active_def push_segment_def Let_def)

lemma only_tail_trans_holes:
  assumes "only_tail_moved name (preserveOrphanHoles env opts name data starts cov e r) r'"
  shows "only_tail_moved name r r'"
  using assms holes_fields(1) [of env opts name data starts cov e r] holes_fields(2) [of r env opts name data starts cov e]
  by (auto simp: only_tail_moved_def)

lemma only_tail_cong:
  "only_tail_moved name r r' \<Longrightarrow> rv_files q = rv_files r \<Longrightarrow> rv_quarantine q = rv_quarantine r \<Longrightarrow>
     (\<And>n. n \<noteq> manifestName name \<Longrightarrow> map_of (rv_files q') n = map_of (rv_files r') n) \<Longrightarrow>
     rv_quarantine q' = rv_quarantine r' \<Longrightarrow> manifestName name \<noteq> name \<Longrightarrow> only_tail_moved name q q'"
  by (auto simp: only_tail_moved_def file_at_def)

lemma tail_caseI:
  "(\<And>r1. x = (False, r1) \<Longrightarrow> P r1) \<Longrightarrow> (\<And>r1. x = (True, r1) \<Longrightarrow> P (k r1)) \<Longrightarrow>
     P (case x of (False, r1) \<Rightarrow> r1 | (True, r1) \<Rightarrow> k r1)"
  by (auto split: prod.split bool.split)

lemma recover_segment_moves_tail:
  assumes "isSegmentName name"
  shows "only_tail_moved name r (recover_segment env opts meta now final name r)"
proof -
  have m: "manifestName name \<noteq> name" using manifest_not_segment [OF assms] by simp
  have sealed: "only_tail_moved name r (recover_sealed env opts name mf r)" for mf
    by (rule only_tail_refl) (auto simp: recover_sealed_def push_segment_def Let_def holes_fields(1) split: option.splits dest: subsetD [OF holes_fields(2)])
  have unsealed: "only_tail_moved name r (recover_unsealed env opts meta now name r)"
  proof -
    have aux: "only_tail_moved name r r'"
      if "moveTail env opts name e (preserveOrphanHoles env opts name data starts cov e r) = (b, r')" for e data starts cov b r'
      by (rule only_tail_trans_holes [OF moveTail_moves [OF that]])
    have aux2: "only_tail_moved name r q"
      if "moveTail env opts name e (preserveOrphanHoles env opts name data starts cov e r) = (b, r')"
        "rv_quarantine q = rv_quarantine r'" "\<And>n. n \<noteq> manifestName name \<Longrightarrow> map_of (rv_files q) n = map_of (rv_files r') n"
      for e data starts cov b r' q
      by (rule only_tail_cong [OF aux [OF that(1)]]) (use that m in auto)
    define data where "data = file_at (rv_files r) name"
    define starts where "starts = fst (scanLines data)"
    define ls where "ls = extents_of opts name"
    define e where "e = committed_end ls"
    note defs = data_def [symmetric] starts_def [symmetric] ls_def [symmetric] e_def [symmetric]
    show ?thesis
    proof (cases "ro_committed opts = None \<or> length data < e \<or> verifyCommitted (le_crypto env) data starts e ls \<noteq> None \<or> meta = None \<and> 0 < e")
      case True
      then show ?thesis unfolding recover_unsealed_def Let_def defs by (auto intro!: only_tail_refl split: option.splits)
    next
      case False
      obtain b r1 where mv: "moveTail env opts name e (preserveOrphanHoles env opts name data starts (map ex_offset ls) e r) = (b, r1)"
        by (cases "moveTail env opts name e (preserveOrphanHoles env opts name data starts (map ex_offset ls) e r)")
      show ?thesis
      proof (cases b)
        case True
        show ?thesis
          by (rule aux2 [OF mv]) (use False mv True in \<open>auto simp: recover_unsealed_def push_segment_def Let_def defs write_json_def\<close>)
      next
        case b: False
        then show ?thesis using False mv aux [OF mv] by (auto simp: recover_unsealed_def Let_def defs)
      qed
    qed
  qed
  have active: "only_tail_moved name r (recover_active env opts meta name r)"
  proof -
    define r0 where "r0 = r\<lparr>rv_active := Some name\<rparr>"
    have restart: "only_tail_moved name r0 q \<Longrightarrow> only_tail_moved name r q" for q by (simp add: only_tail_moved_def r0_def)
    have aux: "only_tail_moved name r0 r'"
      if "moveTail env opts name e (preserveOrphanHoles env opts name data starts cov e r0) = (b, r')" for e data starts cov b r'
      by (rule only_tail_trans_holes [OF moveTail_moves [OF that]])
    have add: "only_tail_moved name r0 r' \<Longrightarrow> only_tail_moved name r0 (add_active env opts meta name starts kept len r')" for r' starts kept len
      by (simp add: only_tail_moved_def)
    have "only_tail_moved name r0 (recover_active env opts meta name r)"
    proof (cases "ro_committed opts")
      case None
      show ?thesis unfolding recover_active_def Let_def r0_def [symmetric] None option.case
        by (rule tail_caseI) (auto intro!: only_tail_refl add split: if_splits dest!: moveTail_moves)
    next
      case (Some c)
      have bad: "only_tail_moved name r0 (add_corrupt name w r0)" for w by (rule only_tail_refl) simp_all
      define data where "data = file_at (rv_files r0) name"
      define ls where "ls = extents_of opts name"
      note defs = r0_def [symmetric] data_def [symmetric] ls_def [symmetric]
      show ?thesis
      proof (cases "length data < committed_end ls")
        case True
        then show ?thesis unfolding recover_active_def Let_def Some option.case defs by (simp add: bad)
      next
        case long: False
        show ?thesis
        proof (cases "verifyCommitted (le_crypto env) data (fst (scanLines data)) (committed_end ls) ls")
          case None
          show ?thesis unfolding recover_active_def Let_def Some option.case defs if_not_P [OF long] None
            by (rule tail_caseI [where P = "only_tail_moved name r0"]) (auto intro: add elim: aux)
        next
          case w: (Some w)
          show ?thesis unfolding recover_active_def Let_def Some option.case defs if_not_P [OF long] w by (rule bad)
        qed
      qed
    qed
    then show ?thesis by (rule restart)
  qed
  show ?thesis using sealed unsealed active by (auto simp: recover_segment_def split: option.splits)
qed

lemma recover_segments_moves_tails:
  assumes "distinct names" "\<forall>n\<in>set names. isSegmentName n"
  shows "(\<forall>n. n \<notin> set names \<longrightarrow> n \<notin> manifestName ` set names \<longrightarrow>
        map_of (rv_files (recover_segments env opts meta now names r)) n = map_of (rv_files r) n) \<and>
    (\<forall>n\<in>set names. \<exists>t. file_at (rv_files r) n = file_at (rv_files (recover_segments env opts meta now names r)) n @ t \<and>
        (t = [] \<or> t \<in> snd ` set (rv_quarantine (recover_segments env opts meta now names r)))) \<and>
    set (rv_quarantine r) \<subseteq> set (rv_quarantine (recover_segments env opts meta now names r))"
  using assms
proof (induction names arbitrary: r now)
  case (Cons name names)
  define r1 where "r1 = recover_segment env opts meta now (names = []) name r"
  define r2 where "r2 = recover_segments env opts meta (now + 1) names r1"
  have e: "recover_segments env opts meta now (name # names) r = r2" by (simp add: r1_def r2_def)
  have step: "only_tail_moved name r r1" unfolding r1_def by (rule recover_segment_moves_tail) (use Cons.prems in simp)
  have ih: "\<forall>n. n \<notin> set names \<longrightarrow> n \<notin> manifestName ` set names \<longrightarrow> map_of (rv_files r2) n = map_of (rv_files r1) n"
    "\<forall>n\<in>set names. \<exists>t. file_at (rv_files r1) n = file_at (rv_files r2) n @ t \<and> (t = [] \<or> t \<in> snd ` set (rv_quarantine r2))"
    "set (rv_quarantine r1) \<subseteq> set (rv_quarantine r2)"
    using Cons.IH [of "now + 1" r1] Cons.prems by (simp_all add: r2_def)
  have nm: "n \<in> set (name # names) \<Longrightarrow> n \<notin> manifestName ` set (name # names)" for n
    using Cons.prems(2) manifest_not_segment by fastforce
  have own: "file_at (rv_files r2) name = file_at (rv_files r1) name"
    using ih(1) Cons.prems(1) nm [of name] by (simp add: file_at_def)
  have other: "file_at (rv_files r1) n = file_at (rv_files r) n" if "n \<in> set names" for n
    using step that Cons.prems(1) nm [of n] by (auto simp: only_tail_moved_def file_at_def)
  obtain t where t: "file_at (rv_files r) name = file_at (rv_files r1) name @ t" "t = [] \<or> t \<in> snd ` set (rv_quarantine r1)"
    using step by (auto simp: only_tail_moved_def)
  have "\<exists>t. file_at (rv_files r) n = file_at (rv_files r2) n @ t \<and> (t = [] \<or> t \<in> snd ` set (rv_quarantine r2))"
    if "n \<in> set (name # names)" for n
  proof (cases "n = name")
    case True
    then show ?thesis using t own ih(3) by (intro exI [of _ t]) auto
  next
    case False
    then show ?thesis using that ih(2) other by simp
  qed
  moreover have "map_of (rv_files r2) n = map_of (rv_files r) n" if "n \<notin> set (name # names)" "n \<notin> manifestName ` set (name # names)" for n
    using that ih(1) step by (auto simp: only_tail_moved_def)
  moreover have "set (rv_quarantine r) \<subseteq> set (rv_quarantine r2)" using step ih(3) by (auto simp: only_tail_moved_def)
  ultimately show ?case unfolding e by blast
qed auto

lemma segment_files_props:
  assumes "distinct (map fst fs)"
  shows "distinct (segment_files fs)" "\<forall>n\<in>set (segment_files fs). isSegmentName n"
    "set (segment_files fs) = {n \<in> fst ` set fs. isSegmentName n}"
  using assms by (auto simp: segment_files_def)

section \<open>Dry run\<close>

text \<open>A real run and its dry run agree on the report, and on the files that are still to come.\<close>

definition agree :: "string set \<Rightarrow> lane_report \<Rightarrow> lane_report \<Rightarrow> bool" where
  "agree todo r d \<longleftrightarrow> rv_segments r = rv_segments d \<and> rv_corrupt r = rv_corrupt d \<and> rv_torn r = rv_torn d \<and>
     rv_base r = rv_base d \<and> rv_active r = rv_active d \<and> rv_opened r = rv_opened d \<and> rv_lane_ordinal r = rv_lane_ordinal d \<and>
     (\<forall>n\<in>todo. map_of (rv_files r) n = map_of (rv_files d) n)"

lemma agree_holes:
  assumes "ro_quarantine opts" "\<not> ro_dryRun opts" "agree S r d"
  shows "agree S (preserveOrphanHoles env opts name data starts cov e r)
    (preserveOrphanHoles env (opts\<lparr>ro_dryRun := True\<rparr>) name data starts cov e d)"
  using assms by (auto simp: agree_def preserveOrphanHoles_def Let_def)

lemma agree_tail:
  assumes "ro_quarantine opts" "\<not> ro_dryRun opts" "agree S r d" "file_at (rv_files r) name = file_at (rv_files d) name"
  shows "\<exists>r' d'. moveTail env opts name e r = (True, r') \<and> moveTail env (opts\<lparr>ro_dryRun := True\<rparr>) name e d = (True, d') \<and>
    agree (S - {name}) r' d'"
  using assms by (auto simp: agree_def moveTail_def quarantineTail_def Let_def)

abbreviation dry :: "recover_options \<Rightarrow> recover_options" where "dry opts \<equiv> opts\<lparr>ro_dryRun := True\<rparr>"

lemma read_obj_cong: "map_of fs n = map_of gs n \<Longrightarrow> read_obj fs n = read_obj gs n"
  by (simp add: read_obj_def)

lemma extents_of_dry [simp]: "extents_of (dry opts) name = extents_of opts name"
  by (simp add: extents_of_def)

lemma agree_subset: "agree S r d \<Longrightarrow> T \<subseteq> S \<Longrightarrow> agree T r d"
  by (auto simp: agree_def)

lemma agree_corrupt: "agree S r d \<Longrightarrow> agree S (add_corrupt n w r) (add_corrupt n w d)"
  by (simp add: agree_def add_corrupt_def)

lemma agree_file: "agree S r d \<Longrightarrow> name \<in> S \<Longrightarrow> file_at (rv_files r) name = file_at (rv_files d) name"
  by (simp add: agree_def file_at_def)

lemma agree_push: "agree S r d \<Longrightarrow> agree S (push_segment f n r) (push_segment f n d)"
  by (simp add: agree_def push_segment_def)

lemma agree_sealed:
  assumes "ro_quarantine opts" "\<not> ro_dryRun opts" "agree S r d" "name \<in> S"
  shows "agree S (recover_sealed env opts name mf r) (recover_sealed env (dry opts) name mf d)"
  unfolding recover_sealed_def Let_def agree_file [OF assms(3,4)]
  by (auto split: option.splits intro!: agree_corrupt agree_push agree_holes [OF assms(1-3)] assms(3))

lemma agree_settle:
  assumes "ro_quarantine opts" "\<not> ro_dryRun opts" "agree S r d" "name \<in> S"
    and "\<And>r1 d1. agree (S - {name}) r1 d1 \<Longrightarrow> agree T (k r1) (k' d1)"
  shows "agree T (case moveTail env opts name e r of (False, r1) \<Rightarrow> r1 | (True, r1) \<Rightarrow> k r1)
     (case moveTail env (dry opts) name e d of (False, d1) \<Rightarrow> d1 | (True, d1) \<Rightarrow> k' d1)"
  using agree_tail [OF assms(1-3) agree_file [OF assms(3,4)], of env e] assms(5) by auto

lemma agree_unsealed:
  assumes o: "ro_quarantine opts" "\<not> ro_dryRun opts" and a: "agree S r d" "name \<in> S"
  shows "agree (S - {name, manifestName name}) (recover_unsealed env opts meta now name r) (recover_unsealed env (dry opts) meta now name d)"
proof -
  define data where "data = file_at (rv_files d) name"
  define ls where "ls = extents_of opts name"
  note defs = agree_file [OF a] data_def [symmetric] extents_of_dry ls_def [symmetric]
  have less: "S - {name, manifestName name} \<subseteq> S" by auto
  have bad: "agree (S - {name, manifestName name}) (add_corrupt name w r) (add_corrupt name w d)" for w
    by (rule agree_corrupt [OF agree_subset [OF a(1) less]])
  have push: "agree (S - {name, manifestName name})
      (push_segment f n (r1\<lparr>rv_files := write_json (manifestName name) j (rv_files r1)\<rparr>)) (push_segment g n (d1\<lparr>rv_files := (if ro_dryRun (dry opts) then rv_files d1 else j')\<rparr>))"
    if "agree (S - {name}) r1 d1" "f (rv_base r1) = g (rv_base d1)" for r1 d1 f g j j' n
    using that by (auto simp: agree_def push_segment_def write_json_def)
  show ?thesis
  proof (cases "ro_committed opts = None \<or> length data < committed_end ls \<or>
      verifyCommitted (le_crypto env) data (fst (scanLines data)) (committed_end ls) ls \<noteq> None \<or> meta = None \<and> 0 < committed_end ls")
    case True
    then show ?thesis unfolding recover_unsealed_def Let_def defs by (auto intro!: bad split: option.splits)
  next
    case False
    then have c: "ro_committed opts \<noteq> None" "ro_committed (dry opts) \<noteq> None" "\<not> length data < committed_end ls"
        "verifyCommitted (le_crypto env) data (fst (scanLines data)) (committed_end ls) ls = None" "\<not> (meta = None \<and> 0 < committed_end ls)"
      by auto
    show ?thesis
      unfolding recover_unsealed_def Let_def defs if_not_P [OF c(1)] if_not_P [OF c(2)] if_not_P [OF c(3)] c(4) option.case if_not_P [OF c(5)]
        if_not_P [OF o(2)]
      by (rule agree_settle [OF o agree_holes [OF o a(1)] a(2)]) (rule push, assumption, simp add: agree_def)
  qed
qed

lemma agree_add_active:
  assumes "agree S r d" "ACTIVE_FILE \<in> S"
  shows "agree S (add_active env opts meta name starts kept len r) (add_active env (dry opts) meta name starts kept len d)"
proof -
  have "read_obj (rv_files r) ACTIVE_FILE = read_obj (rv_files d) ACTIVE_FILE" using assms by (auto simp: agree_def intro: read_obj_cong)
  then have p: "readActivePointer (rv_files r) = readActivePointer (rv_files d)" by (simp add: readActivePointer_def)
  then show ?thesis using assms by (auto simp: agree_def add_active_def push_segment_def active_opened_def Let_def)
qed

lemma agree_active:
  assumes o: "ro_quarantine opts" "\<not> ro_dryRun opts" and a: "agree S r0 d0" "name \<in> S" "ACTIVE_FILE \<in> S - {name}"
  shows "agree (S - {name}) (recover_active env opts meta name r0) (recover_active env (dry opts) meta name d0)"
proof -
  define r where "r = r0\<lparr>rv_active := Some name\<rparr>"
  define d where "d = d0\<lparr>rv_active := Some name\<rparr>"
  have a': "agree S r d" using a(1) by (simp add: agree_def r_def d_def)
  have bad: "agree (S - {name}) (add_corrupt name w r) (add_corrupt name w d)" for w
    using agree_subset [OF agree_corrupt [OF a'], of "S - {name}"] by auto
  define data where "data = file_at (rv_files d) name"
  define ls where "ls = extents_of opts name"
  note defs = r_def [symmetric] d_def [symmetric] agree_file [OF a' a(2)] data_def [symmetric] extents_of_dry ls_def [symmetric]
  have push: "agree (S - {name}) r1 d1 \<Longrightarrow>
      agree (S - {name}) (add_active env opts meta name starts kept len r1) (add_active env (dry opts) meta name starts kept len d1)" for r1 d1 starts kept len
    by (rule agree_add_active [OF _ a(3)])
  show ?thesis
  proof (cases "ro_committed opts")
    case None
    have n: "ro_committed (dry opts) = None" using None by simp
    show ?thesis
    proof (cases "snd (scanLines data) < length data")
      case True
      show ?thesis unfolding recover_active_def Let_def defs None n option.case if_P [OF True]
        by (rule agree_settle [OF o a' a(2)]) (rule push)
    next
      case False
      show ?thesis unfolding recover_active_def Let_def defs None n option.case if_not_P [OF False]
        using push [OF agree_subset [OF a', of "S - {name}"]] by auto
    qed
  next
    case (Some c)
    have s: "ro_committed (dry opts) = Some c" using Some by simp
    show ?thesis
    proof (cases "length data < committed_end ls")
      case True
      show ?thesis unfolding recover_active_def Let_def defs Some s option.case if_P [OF True] by (rule bad)
    next
      case False
      show ?thesis
      proof (cases "verifyCommitted (le_crypto env) data (fst (scanLines data)) (committed_end ls) ls")
        case None
        show ?thesis unfolding recover_active_def Let_def defs Some s option.case if_not_P [OF False] None
          by (rule agree_settle [OF o agree_holes [OF o a'] a(2)]) (rule push)
      next
        case w: (Some w)
        show ?thesis unfolding recover_active_def Let_def defs Some s option.case if_not_P [OF False] w by (rule bad)
      qed
    qed
  qed
qed

lemma manifest_shape: "isSegmentName n \<Longrightarrow> \<exists>x. n = ''s'' @ x @ ''.jsonl'' \<and> manifestName n = ''s'' @ x @ ''.manifest.json''"
proof -
  assume "isSegmentName n"
  then obtain x where x: "n = ''s'' @ x @ ''.jsonl''" by (auto simp: isSegmentName_iff)
  then have "suffix ''.jsonl'' n" "take (length n - 6) n = ''s'' @ x" by (simp_all add: suffix_def)
  then show ?thesis using x by (intro exI [of _ x]) (simp add: manifestName_def)
qed

lemma manifest_names:
  assumes "isSegmentName n"
  shows "isSegmentName m \<Longrightarrow> manifestName n = manifestName m \<longleftrightarrow> n = m"
    and "ACTIVE_FILE \<noteq> n" "ACTIVE_FILE \<noteq> manifestName n" "LANE_META_FILE \<noteq> n" "LANE_META_FILE \<noteq> manifestName n"
proof -
  obtain x where x: "n = ''s'' @ x @ ''.jsonl''" "manifestName n = ''s'' @ x @ ''.manifest.json''"
    using manifest_shape [OF assms] by blast
  show "ACTIVE_FILE \<noteq> n" "ACTIVE_FILE \<noteq> manifestName n" "LANE_META_FILE \<noteq> n" "LANE_META_FILE \<noteq> manifestName n"
    unfolding x(2) by (simp_all add: x(1) ACTIVE_FILE_def LANE_META_FILE_def)
  assume "isSegmentName m"
  then obtain y where y: "m = ''s'' @ y @ ''.jsonl''" "manifestName m = ''s'' @ y @ ''.manifest.json''"
    using manifest_shape by blast
  show "manifestName n = manifestName m \<longleftrightarrow> n = m" unfolding x(2) y(2) by (simp add: x(1) y(1))
qed

lemma agree_segment:
  assumes o: "ro_quarantine opts" "\<not> ro_dryRun opts" and a: "agree S r d"
    and n: "isSegmentName name" "{name, manifestName name, ACTIVE_FILE} \<subseteq> S"
  shows "agree (S - {name, manifestName name}) (recover_segment env opts meta now final name r) (recover_segment env (dry opts) meta now final name d)"
proof -
  have "read_obj (rv_files r) (manifestName name) = read_obj (rv_files d) (manifestName name)"
    using a n(2) by (auto simp: agree_def intro: read_obj_cong)
  then have m: "readManifest (rv_files r) (manifestName name) = readManifest (rv_files d) (manifestName name)"
    by (simp add: readManifest_def)
  have name: "name \<in> S" and act: "ACTIVE_FILE \<in> S - {name}" using n manifest_names [OF n(1)] by auto
  show ?thesis
    unfolding recover_segment_def m
    using agree_subset [OF agree_sealed [OF o a name], of "S - {name, manifestName name}"]
      agree_subset [OF agree_active [OF o a name act], of "S - {name, manifestName name}"] agree_unsealed [OF o a name]
    by (auto split: option.split)
qed

lemma agree_segments:
  assumes "ro_quarantine opts" "\<not> ro_dryRun opts" "agree S r d" "distinct names" "\<forall>n\<in>set names. isSegmentName n"
    "set names \<union> manifestName ` set names \<union> {ACTIVE_FILE} \<subseteq> S"
  shows "agree {} (recover_segments env opts meta now names r) (recover_segments env (dry opts) meta now names d)"
  using assms
proof (induction names arbitrary: r d S now)
  case Nil
  then show ?case by (auto intro: agree_subset)
next
  case (Cons name names)
  have n: "isSegmentName name" using Cons.prems(5) by simp
  have step: "agree (S - {name, manifestName name}) (recover_segment env opts meta now (names = []) name r)
      (recover_segment env (dry opts) meta now (names = []) name d)"
    by (rule agree_segment [OF Cons.prems(1-3) n]) (use Cons.prems(6) in auto)
  have other: "m \<noteq> name" "m \<noteq> manifestName name" "manifestName m \<noteq> name" "manifestName m \<noteq> manifestName name" if "m \<in> set names" for m
  proof -
    have m: "isSegmentName m" "m \<noteq> name" using that Cons.prems(4,5) by auto
    show "m \<noteq> name" "m \<noteq> manifestName name" "manifestName m \<noteq> name" "manifestName m \<noteq> manifestName name"
      using m manifest_not_segment [OF m(1)] manifest_not_segment [OF n] n manifest_names(1) [OF n m(1)] by auto
  qed
  have "set names \<union> manifestName ` set names \<union> {ACTIVE_FILE} \<subseteq> S - {name, manifestName name}"
    using Cons.prems(6) manifest_names(2,3) [OF n] other by auto
  then show ?case using Cons.IH [OF Cons.prems(1,2) step] Cons.prems(4,5) by simp
qed

lemma dry_run_reads_only:
  assumes "ro_dryRun opts"
  shows "rv_files (recover_segments env opts meta now names r) = rv_files r \<and>
    rv_quarantine (recover_segments env opts meta now names r) = rv_quarantine r"
proof (induction names arbitrary: r now)
  case (Cons name names)
  have holes: "rv_files (preserveOrphanHoles env opts n data starts cov e r) = rv_files r"
    "rv_quarantine (preserveOrphanHoles env opts n data starts cov e r) = rv_quarantine r" for n data starts cov e r
    using assms by (simp_all add: preserveOrphanHoles_def Let_def)
  have tail: "moveTail env opts n e r = (b, r') \<Longrightarrow> rv_files r' = rv_files r \<and> rv_quarantine r' = rv_quarantine r" for n e r b r'
    using assms by (auto simp: moveTail_def Let_def split: if_splits)
  have sealed: "rv_files (recover_sealed env opts name mf r) = rv_files r \<and> rv_quarantine (recover_sealed env opts name mf r) = rv_quarantine r" for mf
    by (simp add: recover_sealed_def push_segment_def Let_def holes split: option.split)
  define same where "same q \<longleftrightarrow> rv_files q = rv_files r \<and> rv_quarantine q = rv_quarantine r" for q :: lane_report
  have bad: "rv_files q = rv_files r \<Longrightarrow> rv_quarantine q = rv_quarantine r \<Longrightarrow> same (add_corrupt n w q)" for q n w by (simp add: same_def)
  have settle: "rv_files q = rv_files r \<Longrightarrow> rv_quarantine q = rv_quarantine r \<Longrightarrow> (\<And>r1. same r1 \<Longrightarrow> same (k r1)) \<Longrightarrow>
      same (case moveTail env opts n e q of (False, r1) \<Rightarrow> r1 | (True, r1) \<Rightarrow> k r1)" for n e q k
  proof -
    assume q: "rv_files q = rv_files r" "rv_quarantine q = rv_quarantine r" and k: "\<And>r1. same r1 \<Longrightarrow> same (k r1)"
    have "same r1" if "moveTail env opts n e q = (b, r1)" for b r1 using tail [OF that] q by (simp add: same_def)
    then show ?thesis by (intro tail_caseI [where P = same] k)
  qed
  have unsealed: "same (recover_unsealed env opts meta now name r)"
    unfolding recover_unsealed_def Let_def
    by (auto simp: holes same_def [symmetric] split: option.split intro!: bad settle) (simp_all add: same_def push_segment_def assms)
  have active: "same (recover_active env opts meta name r)"
  proof (cases "ro_committed opts")
    case None
    show ?thesis unfolding recover_active_def Let_def None option.case if_split [of same]
      by (rule tail_caseI [where P = same]) (auto simp: same_def split: if_splits dest!: tail)
  next
    case (Some c)
    define r0 where "r0 = r\<lparr>rv_active := Some name\<rparr>"
    have r0: "rv_files r0 = rv_files r" "rv_quarantine r0 = rv_quarantine r" by (simp_all add: r0_def)
    have same_if: "same q \<Longrightarrow> same q' \<Longrightarrow> same (if b then q else q')" for b q q' by simp
    have same_option: "same q \<Longrightarrow> (\<And>w. same (f w)) \<Longrightarrow> same (case v of None \<Rightarrow> q | Some w \<Rightarrow> f w)" for q f and v :: "corrupt_reason option"
      by (simp split: option.split)
    show ?thesis unfolding recover_active_def Let_def Some option.case r0_def [symmetric]
      by (rule same_if, rule bad [OF r0], rule same_option, rule settle) (simp_all add: holes r0 bad, simp add: same_def)
  qed
  show ?case using Cons.IH sealed unsealed active by (auto simp: recover_segment_def same_def split: option.split)
qed simp

section \<open>Committed records\<close>

text \<open>A committed extent is there: it starts a line, ends with a line feed and has its digest.\<close>

definition vouched :: "node_crypto \<Rightarrow> string \<Rightarrow> extent \<Rightarrow> bool" where
  "vouched nc data l \<longleftrightarrow>
     (let stop = ex_offset l + ex_length l in
      ex_offset l \<in> set (fst (scanLines data)) \<and> stop \<le> length data \<and> data ! (stop - 1) = LF \<and>
      sha256hex nc (slice data (ex_offset l) stop) = ex_raw l)"

lemma verifyCommitted_None:
  assumes "sorted_wrt (<) starts"
  shows "verifyCommitted nc data starts e ls = None \<longleftrightarrow>
    (\<forall>l\<in>set ls. let stop = ex_offset l + ex_length l in
      ex_offset l \<in> set starts \<and> stop \<le> e \<and> ends_with_LF data stop \<and> sha256hex nc (slice data (ex_offset l) stop) = ex_raw l)"
  using lineIndexOf_iff(2) [OF assms] by (induction ls) (auto simp: Let_def)

lemma slice_take: "b \<le> e \<Longrightarrow> slice (take e data) a b = slice data a b"
  by (simp add: slice_def drop_take min_def)

text \<open>A prefix that ends behind a line feed has the line starts that lie in it.\<close>

lemma starts_take:
  assumes "e \<le> length data" "e = 0 \<or> data ! (e - 1) = LF"
  shows "fst (scanLines (take e data)) = filter (\<lambda>s. s < e) (fst (scanLines data))"
proof -
  have scan: "e \<le> length d \<Longrightarrow> e = 0 \<or> d ! (e - 1) = LF \<Longrightarrow> p \<le> i \<Longrightarrow> (e = 0 \<Longrightarrow> p = i) \<Longrightarrow>
      fst (scan_from i p (take e d)) = filter (\<lambda>s. s < i + e) (fst (scan_from i p d))" for d e i p
  proof (induction d arbitrary: e i p)
    case Nil
    then show ?case by simp
  next
    case (Cons c cs)
    have above: "q \<le> s" if "s \<in> set (fst (scan_from j q d))" "q \<le> j" for s j q d
      using that by (induction j q d rule: scan_from.induct) (auto split: prod.splits if_splits)
    show ?case
    proof (cases e)
      case 0
      then have "p = i" using Cons.prems by simp
      then show ?thesis using above [of _ i i "c # cs"] 0 by (auto simp: filter_empty_conv not_less)
    next
      case (Suc k)
      have "k = 0 \<or> cs ! (k - 1) = LF" using Cons.prems(2) Suc by (cases k) auto
      note ih = Cons.IH [OF _ this]
      show ?thesis
      proof (cases "c = LF")
        case True
        then show ?thesis using ih [of "i + 1" "i + 1"] Cons.prems Suc by (auto split: prod.splits)
      next
        case False
        then have "k \<noteq> 0" using Cons.prems(2) Suc by (cases k) auto
        then show ?thesis using False ih [of p "i + 1"] Cons.prems Suc by simp
      qed
    qed
  qed
  show ?thesis using scan [of e data 0 0] assms by (simp add: scanLines_def)
qed

lemma committed_end_props:
  "l \<in> set ls \<Longrightarrow> ex_offset l + ex_length l \<le> committed_end ls"
  "committed_end ls = 0 \<or> (\<exists>l\<in>set ls. committed_end ls = ex_offset l + ex_length l)"
proof -
  have a: "m \<le> foldl (\<lambda>m l. max m (ex_offset l + ex_length l)) m ls \<and>
      (\<forall>l\<in>set ls. ex_offset l + ex_length l \<le> foldl (\<lambda>m l. max m (ex_offset l + ex_length l)) m ls) \<and>
      (foldl (\<lambda>m l. max m (ex_offset l + ex_length l)) m ls = m \<or>
       (\<exists>l\<in>set ls. foldl (\<lambda>m l. max m (ex_offset l + ex_length l)) m ls = ex_offset l + ex_length l))" for m
  proof (induction ls arbitrary: m)
    case (Cons l ls)
    show ?case using Cons.IH [of "max m (ex_offset l + ex_length l)"] by (auto simp: max_def split: if_splits)
  qed simp
  show "l \<in> set ls \<Longrightarrow> ex_offset l + ex_length l \<le> committed_end ls"
    "committed_end ls = 0 \<or> (\<exists>l\<in>set ls. committed_end ls = ex_offset l + ex_length l)"
    using a [of 0] by (auto simp: committed_end_def)
qed

text \<open>What a step adds to the report when it finds no corruption.\<close>

definition recovered :: "lane_env \<Rightarrow> recover_options \<Rightarrow> string \<Rightarrow> lane_report \<Rightarrow> lane_report \<Rightarrow> bool" where
  "recovered env opts name r r' \<longleftrightarrow>
     rv_corrupt r = [] \<and>
     (\<exists>si. rv_segments r' = rv_segments r @ [si] \<and> si_segment si = name \<and> si_written_base si = rv_base r \<and>
       rv_base r' = rv_base r + si_consumed si \<and> si_records si = length (si_line_offsets si) \<and> si_records si \<le> si_consumed si \<and>
       (\<not> ro_dryRun opts \<longrightarrow> file_at (rv_files r') name = take (si_length si) (file_at (rv_files r) name) \<and>
          si_line_offsets si = fst (scanLines (file_at (rv_files r') name))) \<and>
       (ro_committed opts \<noteq> None \<longrightarrow> (\<forall>l\<in>set (extents_of opts name). 0 < ex_length l \<longrightarrow>
          ex_offset l + ex_length l \<le> si_length si \<and> vouched (le_crypto env) (take (si_length si) (file_at (rv_files r) name)) l)))"

lemma holes_clean: "rv_corrupt (preserveOrphanHoles env opts name data starts cov e r) = [] \<Longrightarrow> rv_corrupt r = []"
  by (auto simp: preserveOrphanHoles_def add_corrupt_def Let_def split: if_splits)

lemma vouch_prefix:
  assumes "verifyCommitted nc data (fst (scanLines data)) (committed_end ls) ls = None" "committed_end ls \<le> length data"
  shows "fst (scanLines (take (committed_end ls) data)) = filter (\<lambda>s. s < committed_end ls) (fst (scanLines data))"
    "l \<in> set ls \<Longrightarrow> 0 < ex_length l \<Longrightarrow> vouched nc (take (committed_end ls) data) l"
proof -
  note v = assms(1) [unfolded verifyCommitted_None [OF starts_sorted]]
  have "committed_end ls = 0 \<or> data ! (committed_end ls - 1) = LF"
    using committed_end_props(2) [of ls] v by (auto simp: Let_def ends_with_LF_def)
  then show s: "fst (scanLines (take (committed_end ls) data)) = filter (\<lambda>s. s < committed_end ls) (fst (scanLines data))"
    by (rule starts_take [OF assms(2)])
  assume l: "l \<in> set ls" "0 < ex_length l"
  then show "vouched nc (take (committed_end ls) data) l"
    using v committed_end_props(1) [OF l(1)] assms(2) by (auto simp: vouched_def s Let_def ends_with_LF_def slice_take)
qed

lemma recover_sealed_recovered:
  assumes "rv_corrupt (recover_sealed env opts name mf r) = []"
  shows "recovered env opts name r (recover_sealed env opts name mf r)"
proof -
  define data where "data = file_at (rv_files r) name"
  define ls where "ls = extents_of opts name"
  note defs = data_def [symmetric] ls_def [symmetric]
  define r1 where "r1 = (if ro_committed opts = None then r
      else preserveOrphanHoles env opts name data (fst (scanLines data)) (map ex_offset ls) (length data) r)"
  define consumed where "consumed = (case sm_consumed mf of None \<Rightarrow> sm_count mf | Some c \<Rightarrow> c)"
  have ok: "sm_segment mf = name" "int (length data) = sm_length mf" "int (length (fst (scanLines data))) = sm_count mf"
      "sha256hex (le_crypto env) data = sm_raw mf" "\<not> consumed < sm_count mf" "rv_corrupt r1 = []"
    and check: "ro_committed opts \<noteq> None \<Longrightarrow> verifyCommitted (le_crypto env) data (fst (scanLines data)) (length data) ls = None"
    and e: "recover_sealed env opts name mf r = push_segment (\<lambda>base.
       \<lparr>si_segment = name, si_ordinal = (case segmentOrdinalOf name of None \<Rightarrow> 0 | Some n \<Rightarrow> n), si_sealed = True,
        si_length = length data, si_records = length (fst (scanLines data)), si_consumed = nat consumed,
        si_written_base = base, si_line_offsets = fst (scanLines data), si_first = sm_first mf, si_last = sm_last mf,
        si_raw = Some (sm_raw mf)\<rparr>) (nat consumed) r1"
    using assms unfolding recover_sealed_def Let_def defs r1_def [symmetric] consumed_def [symmetric]
    by (auto simp: push_segment_def split: if_splits option.splits)
  have r1: "rv_segments r1 = rv_segments r" "rv_base r1 = rv_base r" "rv_files r1 = rv_files r" "rv_corrupt r = []"
    using ok(6) by (auto simp: r1_def holes_fields split: if_splits dest: holes_clean)
  have "vouched (le_crypto env) data l" if "ro_committed opts \<noteq> None" "l \<in> set ls" for l
    using check [OF that(1)] that(2) unfolding verifyCommitted_None [OF starts_sorted]
    by (auto simp: vouched_def ends_with_LF_def Let_def)
  then show ?thesis unfolding e recovered_def
    using r1 ok check by (auto simp: push_segment_def defs vouched_def Let_def)
qed

lemma moveTail_kept:
  assumes "moveTail env opts name e r = (True, r1)" "rv_files r = rv_files r0" "data = file_at (rv_files r0) name" "e \<le> length data"
  shows "\<not> ro_dryRun opts \<Longrightarrow> file_at (rv_files r1) name = take e data" "rv_corrupt r1 = rv_corrupt r"
    "rv_segments r1 = rv_segments r" "rv_base r1 = rv_base r"
  using moveTail_fields [OF assms(1)] assms by simp_all

lemma recover_unsealed_recovered:
  assumes "rv_corrupt (recover_unsealed env opts meta now name r) = []" "isSegmentName name"
  shows "recovered env opts name r (recover_unsealed env opts meta now name r)"
proof -
  define data where "data = file_at (rv_files r) name"
  define ls where "ls = extents_of opts name"
  define e where "e = committed_end ls"
  define q where "q = preserveOrphanHoles env opts name data (fst (scanLines data)) (map ex_offset ls) e r"
  note defs = data_def [symmetric] ls_def [symmetric] e_def [symmetric] q_def [symmetric]
  have c: "ro_committed opts \<noteq> None" "e \<le> length data"
      "verifyCommitted (le_crypto env) data (fst (scanLines data)) e ls = None" "\<not> (meta = None \<and> 0 < e)"
    using assms(1) unfolding recover_unsealed_def Let_def defs by (auto split: if_splits option.splits)
  obtain b r1 where mv: "moveTail env opts name e q = (b, r1)" by (cases "moveTail env opts name e q")
  have b: "b"
  proof (rule ccontr)
    assume "\<not> b"
    then have "recover_unsealed env opts meta now name r = r1"
      using c mv unfolding recover_unsealed_def Let_def defs by auto
    then show False using moveTail_fields(4) [OF mv] assms(1) \<open>\<not> b\<close> by simp
  qed
  then have mv: "moveTail env opts name e q = (True, r1)" using mv by simp
  define kept where "kept = filter (\<lambda>s. s < e) (fst (scanLines data))"
  obtain f fs where out: "recover_unsealed env opts meta now name r = push_segment (\<lambda>_. f) (length (fst (scanLines data))) (r1\<lparr>rv_files := fs\<rparr>)"
    and f: "si_segment f = name" "si_length f = e" "si_records f = length kept" "si_consumed f = length (fst (scanLines data))"
      "si_written_base f = rv_base r1" "si_line_offsets f = kept"
    and fs: "\<And>n. n \<noteq> manifestName name \<Longrightarrow> map_of fs n = map_of (rv_files r1) n"
    using c unfolding recover_unsealed_def Let_def defs kept_def [symmetric] mv
    by (auto simp: write_json_def)
  have q: "rv_files q = rv_files r" "rv_segments q = rv_segments r" "rv_base q = rv_base r" by (simp_all add: q_def holes_fields)
  note k = moveTail_kept [OF mv q(1) data_def c(2)]
  have "rv_corrupt q = []" using assms(1) out k(2) by (simp add: push_segment_def)
  then have clean: "rv_corrupt r = []" unfolding q_def by (rule holes_clean)
  have own: "file_at fs name = file_at (rv_files r1) name" using fs [of name] manifest_not_segment [OF assms(2)] by (auto simp: file_at_def)
  note p = vouch_prefix [OF c(3) [unfolded e_def] c(2) [unfolded e_def], folded e_def]
  show ?thesis
    unfolding recovered_def out
    using clean f q k own p committed_end_props(1) [of _ ls]
    by (auto simp: push_segment_def defs kept_def)
qed

lemma add_active_pushes:
  "\<exists>f t. add_active env opts meta name starts kept len r = (push_segment (\<lambda>_. f) (length kept) r)\<lparr>rv_opened := t\<rparr> \<and>
     si_segment f = name \<and> si_length f = len \<and> si_records f = length kept \<and> si_consumed f = length kept \<and>
     si_written_base f = rv_base r \<and> si_line_offsets f = kept"
  by (auto simp: add_active_def push_segment_def Let_def)

lemma recover_active_recovered:
  assumes "rv_corrupt (recover_active env opts meta name r0) = []"
  shows "recovered env opts name r0 (recover_active env opts meta name r0)"
proof -
  define r where "r = r0\<lparr>rv_active := Some name\<rparr>"
  define data where "data = file_at (rv_files r) name"
  define ls where "ls = extents_of opts name"
  note defs = r_def [symmetric] data_def [symmetric] ls_def [symmetric]
  have r: "rv_files r = rv_files r0" "rv_segments r = rv_segments r0" "rv_base r = rv_base r0" "rv_corrupt r = rv_corrupt r0"
    by (simp_all add: r_def)
  have settle: "\<exists>r1. x = (True, r1) \<and> q = k r1" if "q = (case x of (False, r1) \<Rightarrow> r1 | (True, r1) \<Rightarrow> k r1)"
      "\<And>r1. x = (False, r1) \<Longrightarrow> rv_corrupt r1 \<noteq> []" "rv_corrupt q = []" for q :: lane_report and x k
    using that by (auto split: prod.splits bool.splits)
  show ?thesis
  proof (cases "ro_committed opts")
    case None
    define e where "e = snd (scanLines data)"
    have le: "e \<le> length data" using data_lines [of data] by (auto simp: e_def)
    have st: "fst (scanLines (take e data)) = fst (scanLines data)"
    proof -
      obtain zs t where z: "data = concat zs @ t" "\<forall>l\<in>set zs. complete_line l" "scanLines data = (line_starts 0 zs, length (concat zs))"
        using data_lines by blast
      then have "take e data = concat zs" by (simp add: e_def)
      then show ?thesis using scan_lines [OF z(2), of "[]" 0] z(3) by (simp add: scanLines_def)
    qed
    obtain r1 where mv: "(if e < length data then moveTail env opts name e r else (True, r)) = (True, r1)"
      and out: "recover_active env opts meta name r0 = add_active env opts meta name (fst (scanLines data)) (fst (scanLines data)) e r1"
    proof -
      have "recover_active env opts meta name r0 = (case (if e < length data then moveTail env opts name e r else (True, r)) of
          (False, r1) \<Rightarrow> r1 | (True, r1) \<Rightarrow> add_active env opts meta name (fst (scanLines data)) (fst (scanLines data)) e r1)"
        unfolding recover_active_def Let_def None option.case defs e_def ..
      moreover have "rv_corrupt r1 \<noteq> []" if "(if e < length data then moveTail env opts name e r else (True, r)) = (False, r1)" for r1
        using that moveTail_fields(4) [of env opts name e r False r1] by (simp split: if_splits)
      ultimately show ?thesis using settle [OF _ _ assms] that by blast
    qed
    have k: "rv_corrupt r1 = rv_corrupt r0" "rv_segments r1 = rv_segments r0" "rv_base r1 = rv_base r0"
      "\<not> ro_dryRun opts \<Longrightarrow> file_at (rv_files r1) name = take e data"
      using mv r moveTail_kept [of env opts name e r r1, OF _ refl data_def le] le by (auto simp: data_def split: if_splits)
    obtain f t where "add_active env opts meta name (fst (scanLines data)) (fst (scanLines data)) e r1 =
          (push_segment (\<lambda>_. f) (length (fst (scanLines data))) r1)\<lparr>rv_opened := t\<rparr>"
      and f: "si_segment f = name" "si_length f = e" "si_records f = length (fst (scanLines data))"
        "si_consumed f = length (fst (scanLines data))" "si_written_base f = rv_base r1" "si_line_offsets f = fst (scanLines data)"
      using add_active_pushes [of env opts meta name "fst (scanLines data)" "fst (scanLines data)" e r1] by blast
    then show ?thesis unfolding recovered_def out using assms None k f st r
      by (auto simp: push_segment_def out data_def)
  next
    case (Some c)
    define e where "e = committed_end ls"
    define q where "q = preserveOrphanHoles env opts name data (fst (scanLines data)) (map ex_offset ls) e r"
    define kept where "kept = filter (\<lambda>s. s < e) (fst (scanLines data))"
    have c: "e \<le> length data" "verifyCommitted (le_crypto env) data (fst (scanLines data)) e ls = None"
      using assms unfolding recover_active_def Let_def Some option.case defs e_def [symmetric] by (auto split: if_splits option.splits)
    obtain r1 where mv: "moveTail env opts name e q = (True, r1)"
      and out: "recover_active env opts meta name r0 = add_active env opts meta name (fst (scanLines data)) kept e r1"
    proof -
      have "recover_active env opts meta name r0 = (case moveTail env opts name e q of
          (False, r1) \<Rightarrow> r1 | (True, r1) \<Rightarrow> add_active env opts meta name (fst (scanLines data)) kept e r1)"
        using c unfolding recover_active_def Let_def Some option.case defs e_def [symmetric] q_def [symmetric] kept_def [symmetric] by simp
      from settle [OF this _ assms] show ?thesis using that moveTail_fields(4) by auto
    qed
    have q: "rv_files q = rv_files r" "rv_segments q = rv_segments r0" "rv_base q = rv_base r0" by (simp_all add: q_def holes_fields r)
    note k = moveTail_kept [OF mv q(1) data_def c(1)]
    have "rv_corrupt q = []" using assms out k(2) by simp
    then have clean: "rv_corrupt r0 = []" using holes_clean [of env opts name data _ _ e r] r by (simp add: q_def)
    obtain f t where "add_active env opts meta name (fst (scanLines data)) kept e r1 = (push_segment (\<lambda>_. f) (length kept) r1)\<lparr>rv_opened := t\<rparr>"
      and f: "si_segment f = name" "si_length f = e" "si_records f = length kept" "si_consumed f = length kept"
        "si_written_base f = rv_base r1" "si_line_offsets f = kept"
      using add_active_pushes [of env opts meta name "fst (scanLines data)" kept e r1] by blast
    then show ?thesis unfolding recovered_def out
      using clean q k f vouch_prefix [OF c(2) [unfolded e_def] c(1) [unfolded e_def], folded e_def] committed_end_props(1) [of _ ls]
      by (auto simp: push_segment_def defs kept_def r data_def [unfolded r] e_def [symmetric])
  qed
qed

text \<open>The ordinals of the segments follow one another.\<close>

fun bases_from :: "nat \<Rightarrow> segment_info list \<Rightarrow> bool" where
  "bases_from b [] = True"
| "bases_from b (si # sis) = (si_written_base si = b \<and> bases_from (b + si_consumed si) sis)"

lemma recover_segment_recovered:
  assumes "rv_corrupt (recover_segment env opts meta now final name r) = []" "isSegmentName name"
  shows "recovered env opts name r (recover_segment env opts meta now final name r)"
  using assms(1) recover_sealed_recovered recover_unsealed_recovered [OF _ assms(2)] recover_active_recovered
  by (auto simp: recover_segment_def split: option.split)

definition vouches :: "lane_env \<Rightarrow> recover_options \<Rightarrow> files \<Rightarrow> segment_info \<Rightarrow> bool" where
  "vouches env opts fs si \<longleftrightarrow>
     si_line_offsets si = fst (scanLines (file_at fs (si_segment si))) \<and> si_records si = length (si_line_offsets si) \<and>
     si_records si \<le> si_consumed si \<and>
     (ro_committed opts \<noteq> None \<longrightarrow>
       (\<forall>l\<in>set (extents_of opts (si_segment si)). 0 < ex_length l \<longrightarrow> vouched (le_crypto env) (file_at fs (si_segment si)) l))"

lemma recover_segments_recovered:
  assumes "distinct names" "\<forall>n\<in>set names. isSegmentName n" "\<not> ro_dryRun opts"
    "rv_corrupt (recover_segments env opts meta now names r) = []"
  shows "rv_corrupt r = [] \<and>
    (\<exists>sis. rv_segments (recover_segments env opts meta now names r) = rv_segments r @ sis \<and> map si_segment sis = names \<and>
      bases_from (rv_base r) sis \<and> rv_base (recover_segments env opts meta now names r) = rv_base r + sum_list (map si_consumed sis) \<and>
      (\<forall>si\<in>set sis. vouches env opts (rv_files (recover_segments env opts meta now names r)) si))"
  using assms
proof (induction names arbitrary: r now)
  case (Cons name names)
  define r1 where "r1 = recover_segment env opts meta now (names = []) name r"
  define r2 where "r2 = recover_segments env opts meta (now + 1) names r1"
  have e: "recover_segments env opts meta now (name # names) r = r2" by (simp add: r1_def r2_def)
  have name: "isSegmentName name" "name \<notin> set names" "\<forall>n\<in>set names. isSegmentName n" "distinct names" using Cons.prems by auto
  obtain sis where ih: "rv_corrupt r1 = []" "rv_segments r2 = rv_segments r1 @ sis" "map si_segment sis = names"
      "bases_from (rv_base r1) sis" "rv_base r2 = rv_base r1 + sum_list (map si_consumed sis)" "\<forall>si\<in>set sis. vouches env opts (rv_files r2) si"
    using Cons.IH [of "now + 1" r1] Cons.prems by (auto simp: r2_def r1_def)
  have rec: "recovered env opts name r r1" unfolding r1_def
    by (rule recover_segment_recovered) (use ih(1) name in \<open>simp_all add: r1_def\<close>)
  then obtain si where si: "rv_segments r1 = rv_segments r @ [si]" "si_segment si = name" "si_written_base si = rv_base r"
      "rv_base r1 = rv_base r + si_consumed si" "si_records si = length (si_line_offsets si)" "si_records si \<le> si_consumed si"
      "file_at (rv_files r1) name = take (si_length si) (file_at (rv_files r) name)"
      "si_line_offsets si = fst (scanLines (file_at (rv_files r1) name))"
      "ro_committed opts \<noteq> None \<Longrightarrow> \<forall>l\<in>set (extents_of opts name). 0 < ex_length l \<longrightarrow>
          vouched (le_crypto env) (take (si_length si) (file_at (rv_files r) name)) l" and clean: "rv_corrupt r = []"
    using Cons.prems(3) by (auto simp: recovered_def)
  have "name \<notin> manifestName ` set names" using name manifest_not_segment by blast
  then have own: "file_at (rv_files r2) name = file_at (rv_files r1) name"
    using recover_segments_moves_tails [OF name(4,3), of env opts meta "now + 1" r1] name(2) by (simp add: r2_def file_at_def)
  have "vouches env opts (rv_files r2) si" using si own by (auto simp: vouches_def)
  then show ?case unfolding e using ih si clean by (auto intro!: exI [of _ "si # sis"])
qed auto

text \<open>C2.  Recovery of a lane loses nothing: each segment file keeps its bytes up to a point and what
  stood behind that point is, whole, the content of a file in the quarantine; evidence already in
  the quarantine stays; every other file of the directory but the seal manifests is as before.\<close>

theorem recovery_loses_nothing:
  assumes "distinct (map fst fs)"
  shows "let r = recoverLane env opts fs qs in
    (\<forall>n\<in>set (segment_files fs). \<exists>t. file_at fs n = file_at (rv_files r) n @ t \<and> (t = [] \<or> t \<in> snd ` set (rv_quarantine r))) \<and>
    (\<forall>n. n \<notin> set (segment_files fs) \<longrightarrow> n \<notin> manifestName ` set (segment_files fs) \<longrightarrow> map_of (rv_files r) n = map_of fs n) \<and>
    set qs \<subseteq> set (rv_quarantine r)"
proof -
  define r0 where "r0 = \<lparr>rv_files = fs, rv_quarantine = qs, rv_lane_ordinal = readLaneMeta fs, rv_segments = [], rv_active = None,
    rv_opened = Some (le_clock env 0), rv_torn = 0, rv_orphans = [], rv_corrupt = [], rv_base = 0\<rparr>"
  have "rv_files r0 = fs" "rv_quarantine r0 = qs" "recoverLane env opts fs qs = recover_segments env opts (readLaneMeta fs) 1 (segment_files fs) r0"
    by (simp_all add: r0_def recoverLane_def Let_def)
  then show ?thesis
    using recover_segments_moves_tails [OF segment_files_props(1,2) [OF assms], of env opts "readLaneMeta fs" 1 r0] by (simp add: Let_def)
qed

text \<open>A dry run touches no file and no evidence, and what it reports is what the recovery with a
  quarantine would do: the same segments, corruption, bytes moved, active segment, opening time
  and next record ordinal.\<close>

theorem dry_run_announces_recovery:
  assumes "distinct (map fst fs)" and "ro_quarantine opts" and "\<not> ro_dryRun opts"
  shows "let r = recoverLane env opts fs qs; d = recoverLane env (dry opts) fs qs in
    rv_files d = fs \<and> rv_quarantine d = qs \<and>
    rv_segments d = rv_segments r \<and> rv_corrupt d = rv_corrupt r \<and> rv_torn d = rv_torn r \<and> rv_active d = rv_active r \<and>
    rv_opened d = rv_opened r \<and> next_record_ordinal d = next_record_ordinal r"
proof -
  have "agree {} (recoverLane env opts fs qs) (recoverLane env (dry opts) fs qs)"
    unfolding recoverLane_def Let_def
    by (rule agree_segments [of opts UNIV]) (use assms segment_files_props in \<open>simp_all add: agree_def\<close>)
  then show ?thesis using dry_run_reads_only [of "dry opts"] by (simp add: agree_def next_record_ordinal_def recoverLane_def Let_def)
qed


text \<open>C31.  A recovery that reports no corruption vouches for the committed records: every segment file of
  the lane has its place in the report, with the line starts of the file it left and the ordinals
  of the segments one behind the other, and every committed extent of these segments starts a line of that file,
  lies within it, ends with a line feed and has the digest of its marker: it is a line, or several whole lines
  (\<open>two_lines_vouched\<close>).  Extents of a segment that has no file are not the lane's to check; the recovery of the store
  reports them (\<open>recovery.ts\<close>, \<open>committed segment missing\<close>).\<close>

theorem clean_recovery_vouches:
  assumes "distinct (map fst fs)" and "\<not> ro_dryRun opts" and "rv_corrupt (recoverLane env opts fs qs) = []"
    and "ro_committed opts = Some c" and "\<forall>(n, ls)\<in>set c. \<forall>l\<in>set ls. 0 < ex_length l"
  shows "let r = recoverLane env opts fs qs in
    map si_segment (rv_segments r) = segment_files fs \<and> bases_from 0 (rv_segments r) \<and>
    next_record_ordinal r = sum_list (map si_consumed (rv_segments r)) + 1 \<and>
    (\<forall>si\<in>set (rv_segments r). si_line_offsets si = fst (scanLines (file_at (rv_files r) (si_segment si))) \<and>
       (\<forall>l\<in>set (extents_of opts (si_segment si)). vouched (le_crypto env) (file_at (rv_files r) (si_segment si)) l))"
proof -
  define r0 where "r0 = \<lparr>rv_files = fs, rv_quarantine = qs, rv_lane_ordinal = readLaneMeta fs, rv_segments = [], rv_active = None,
    rv_opened = Some (le_clock env 0), rv_torn = 0, rv_orphans = [], rv_corrupt = [], rv_base = 0\<rparr>"
  have e: "recoverLane env opts fs qs = recover_segments env opts (readLaneMeta fs) 1 (segment_files fs) r0"
    by (simp add: r0_def recoverLane_def Let_def)
  have pos: "0 < ex_length l" if "l \<in> set (extents_of opts n)" for l n
    using that assms(4,5) by (cases "map_of c n") (fastforce simp: extents_of_def dest: map_of_SomeD)+
  show ?thesis
    using recover_segments_recovered [OF segment_files_props(1,2) [OF assms(1)] assms(2), of env "readLaneMeta fs" 1 r0] assms(3,4) pos
    by (auto simp: e r0_def vouches_def next_record_ordinal_def Let_def)
qed

section \<open>A lane with a torn tail\<close>

definition torn_segment :: string where "torn_segment = ''s0000000000000001.jsonl''"

definition torn_data :: string where "torn_data = ''{}'' @ [LF] @ ''[]'' @ [LF] @ ''{''"

definition torn_lane :: files where "torn_lane = [(torn_segment, torn_data)]"

definition torn_env :: lane_env where
  "torn_env = \<lparr>le_crypto = journal_crypto, le_qname = (\<lambda>qs l. l @ dec_str (length qs)), le_birth = (\<lambda>_. 7), le_clock = int\<rparr>"

definition torn_extent :: extent where
  "torn_extent = \<lparr>ex_offset = 0, ex_length = 3, ex_raw = sha256hex journal_crypto (''{}'' @ [LF])\<rparr>"

definition torn_opts :: recover_options where
  "torn_opts = \<lparr>ro_quarantine = True,
     ro_committed = Some [(torn_segment, [torn_extent])],
     ro_dryRun = False\<rparr>"

lemma torn_lane_shape:
  "distinct (map fst torn_lane)" "segment_files torn_lane = [torn_segment]" "readLaneMeta torn_lane = None"
  "readManifest torn_lane (manifestName torn_segment) = None" "\<not> ro_dryRun torn_opts" "ro_quarantine torn_opts"
  "extents_of torn_opts torn_segment = [torn_extent]"
proof -
  have s: "isSegmentName torn_segment"
    unfolding isSegmentName_iff torn_segment_def by (intro exI [of _ "''0000000000000001''"]) (simp add: is_hex_def)
  show "distinct (map fst torn_lane)" "segment_files torn_lane = [torn_segment]" using s by (simp_all add: torn_lane_def segment_files_def)
  have "manifestName torn_segment \<noteq> torn_segment" using manifest_not_segment [OF s] by simp
  then show "readManifest torn_lane (manifestName torn_segment) = None" by (simp add: readManifest_def read_obj_def torn_lane_def)
  have "LANE_META_FILE \<noteq> torn_segment" using manifest_names [OF s] by simp
  then show "readLaneMeta torn_lane = None" by (simp add: readLaneMeta_def read_obj_def torn_lane_def)
qed (simp_all add: torn_opts_def extents_of_def)

lemma torn_scan: "file_at torn_lane torn_segment = torn_data" "scanLines torn_data = ([0, 3], 6)" "length torn_data = 7"
  by (simp_all add: file_at_def torn_lane_def torn_data_def scanLines_def LF_def)

lemma torn_recovery:
  "rv_corrupt (recoverLane torn_env torn_opts torn_lane []) = []"
  "file_at (rv_files (recoverLane torn_env torn_opts torn_lane [])) torn_segment = ''{}'' @ [LF]"
proof -
  have i: "lineIndexOf [0, 3] 0 = int 0" by (subst lineIndexOf_iff(1)) simp_all
  have e: "committed_end [torn_extent] = 3" by (simp add: committed_end_def torn_extent_def)
  have t: "take 3 torn_data = ''{}'' @ [LF]" by (simp add: torn_data_def numeral_eq_Suc)
  have v: "verifyCommitted journal_crypto torn_data [0, 3] 3 [torn_extent] = None"
    using i t by (simp add: Let_def ends_with_LF_def slice_def torn_extent_def) (simp add: torn_data_def numeral_eq_Suc)
  have h: "hole_ranges [0, 3] (map ex_offset [torn_extent]) 3 [0, 3] = []" by (simp add: torn_extent_def)
  have k: "ro_committed torn_opts = Some [(torn_segment, [torn_extent])]" "le_crypto torn_env = journal_crypto"
    by (simp_all add: torn_opts_def torn_env_def)
  define r0 where "r0 = \<lparr>rv_files = torn_lane, rv_quarantine = [], rv_lane_ordinal = None, rv_segments = [], rv_active = Some torn_segment,
    rv_opened = Some (le_clock torn_env 0), rv_torn = 0, rv_orphans = [], rv_corrupt = [], rv_base = 0\<rparr>"
  have r0: "rv_files r0 = torn_lane" "rv_corrupt r0 = []" by (simp_all add: r0_def)
  have p: "preserveOrphanHoles torn_env torn_opts torn_segment torn_data [0, 3] (map ex_offset [torn_extent]) 3 r0 = r0"
    using torn_lane_shape(5) by (simp add: preserveOrphanHoles_def Let_def h del: hole_ranges.simps list.map)
  have m: "moveTail torn_env torn_opts torn_segment 3 r0 = (True, quarantineTail torn_env torn_segment 3 r0)"
    using torn_lane_shape(5,6) by (simp add: moveTail_def r0 torn_scan)
  have q: "rv_corrupt (quarantineTail torn_env torn_segment 3 r0) = []"
    "file_at (rv_files (quarantineTail torn_env torn_segment 3 r0)) torn_segment = ''{}'' @ [LF]"
    using t by (simp_all add: quarantineTail_def r0 torn_scan Let_def)
  have a: "recoverLane torn_env torn_opts torn_lane [] = add_active torn_env torn_opts None torn_segment [0, 3] [0] 3 (quarantineTail torn_env torn_segment 3 r0)"
    using torn_lane_shape(2-4)
    by (simp add: recoverLane_def recover_segment_def recover_active_def Let_def k torn_lane_shape(7) e v r0_def [symmetric] torn_scan p m r0
        del: verifyCommitted.simps list.map)
  show "rv_corrupt (recoverLane torn_env torn_opts torn_lane []) = []"
    "file_at (rv_files (recoverLane torn_env torn_opts torn_lane [])) torn_segment = ''{}'' @ [LF]"
    unfolding a by (simp_all add: q del: append_Cons)
qed

lemma recovery_loses_nothing_witness:
  "set (segment_files torn_lane) = {torn_segment} \<and>
   (let r = recoverLane torn_env torn_opts torn_lane [] in
    \<exists>t. torn_data = file_at (rv_files r) torn_segment @ t \<and> t \<in> snd ` set (rv_quarantine r))"
proof -
  have "file_at (rv_files (recoverLane torn_env torn_opts torn_lane [])) torn_segment \<noteq> torn_data"
    unfolding torn_recovery(2) by (simp add: torn_data_def)
  then show ?thesis
    using recovery_loses_nothing [OF torn_lane_shape(1), of torn_env torn_opts "[]"] torn_lane_shape(2) torn_scan(1)
    by (auto simp: Let_def)
qed

text \<open>The check of an extent looks for line feeds at its two ends only: one over two lines is vouched for.\<close>

lemma two_lines_vouched:
  "verifyCommitted nc (''{}'' @ [LF] @ ''[]'' @ [LF]) (fst (scanLines (''{}'' @ [LF] @ ''[]'' @ [LF]))) 6
     [torn_extent\<lparr>ex_length := 6, ex_raw := sha256hex nc (''{}'' @ [LF] @ ''[]'' @ [LF])\<rparr>] = None"
  unfolding verifyCommitted_None [OF starts_sorted]
  by (simp add: torn_extent_def scanLines_def LF_def slice_def ends_with_LF_def Let_def)

lemma dry_run_announces_recovery_witness:
  "rv_corrupt (recoverLane torn_env (dry torn_opts) torn_lane []) = [] \<and> rv_files (recoverLane torn_env (dry torn_opts) torn_lane []) = torn_lane"
  using dry_run_announces_recovery [OF torn_lane_shape(1,6,5), of torn_env "[]"] torn_recovery(1) by (simp add: Let_def)

lemma clean_recovery_vouches_witness:
  "map si_segment (rv_segments (recoverLane torn_env torn_opts torn_lane [])) = [torn_segment] \<and>
   vouched journal_crypto (''{}'' @ [LF]) torn_extent"
proof -
  have c: "ro_committed torn_opts = Some [(torn_segment, [torn_extent])]" by (simp add: torn_opts_def)
  have "\<forall>(n, ls)\<in>set [(torn_segment, [torn_extent])]. \<forall>l\<in>set ls. 0 < ex_length l" by (simp add: torn_extent_def)
  from clean_recovery_vouches [OF torn_lane_shape(1,5) torn_recovery(1) c this]
  show ?thesis using torn_lane_shape(2,7) torn_recovery(2) by (auto simp: Let_def torn_env_def)
qed

end
