(* ===== verification/Store_Writer_Facts.thy ===== *)
theory Store_Writer_Facts
  imports Store_Recover_Facts
begin

text \<open>
  What the writer of a lane promises: a record it accepts reads back from where it says, segments
  only grow, cursors count the records, and a segment outgrows its bound for a single record only.
\<close>

section \<open>A well-formed writer\<close>

text \<open>A segment file respects the bound, or is one line.\<close>

definition bounded_segment :: "nat \<Rightarrow> string \<Rightarrow> bool" where
  "bounded_segment limit data \<longleftrightarrow> length data \<le> limit \<or> length (fst (scanLines data)) \<le> 1"

definition writer_ok :: "lane_writer \<Rightarrow> bool" where
  "writer_ok w \<longleftrightarrow>
     (\<exists>ls. map_of (lw_files w) (lw_segment w) = Some (concat ls) \<and> (\<forall>l\<in>set ls. complete_line l) \<and>
       lw_hash w = concat ls \<and> lw_offset w = length (concat ls) \<and> lw_recordsInSegment w = length ls) \<and>
     lw_segment w = segmentName (lw_segOrdinal w) \<and>
     (\<forall>n d. isSegmentName n \<longrightarrow> map_of (lw_files w) n = Some d \<longrightarrow> bounded_segment (lw_segmentBytes w) d)"

lemma scan_complete_lines:
  "\<forall>l\<in>set ls. complete_line l \<Longrightarrow> scanLines (concat ls) = (line_starts 0 ls, length (concat ls))"
  using scan_lines [of ls "[]" 0] by (simp add: scanLines_def)

lemma segmentName_head: "hd (segmentName n) = CHR ''s''" "last (segmentName n) = CHR ''l''"
  by (simp_all add: segmentName_def)

lemma segmentName_not_meta: "segmentName n \<noteq> ACTIVE_FILE" "segmentName n \<noteq> LANE_META_FILE"
  using segmentName_head [of n] by (auto simp: ACTIVE_FILE_def LANE_META_FILE_def)

lemma manifest_not_segmentName: "manifestName (segmentName n) \<noteq> segmentName m"
  using arg_cong [of "manifestName (segmentName n)" "segmentName m" last] segmentName_head(2) [of m]
  by (simp add: manifestName_def segmentName_def suffix_def)

lemma writeActive_fields [simp]:
  "lw_segment (writeActive w) = lw_segment w" "lw_segOrdinal (writeActive w) = lw_segOrdinal w"
  "lw_offset (writeActive w) = lw_offset w" "lw_hash (writeActive w) = lw_hash w"
  "lw_recordsInSegment (writeActive w) = lw_recordsInSegment w" "lw_segmentBytes (writeActive w) = lw_segmentBytes w"
  "lw_recordOrdinal (writeActive w) = lw_recordOrdinal w" "lw_laneOrdinal (writeActive w) = lw_laneOrdinal w"
  "lw_fh (writeActive w) = lw_fh w" "lw_closed (writeActive w) = lw_closed w"
  "n \<noteq> ACTIVE_FILE \<Longrightarrow> map_of (lw_files (writeActive w)) n = map_of (lw_files w) n"
  by (simp_all add: writeActive_def write_json_def)

lemma not_ACTIVE_segment: "\<not> isSegmentName ACTIVE_FILE" "\<not> isSegmentName LANE_META_FILE"
  using manifest_names(2,4) by auto

lemma startSegment_ok:
  assumes "startSegment n now w = (Inr u, w')" "\<forall>k d. isSegmentName k \<longrightarrow> map_of (lw_files w) k = Some d \<longrightarrow> bounded_segment (lw_segmentBytes w) d"
  shows "writer_ok w'" "lw_recordsInSegment w' = 0" "lw_offset w' = 0" "lw_segmentBytes w' = lw_segmentBytes w"
    "lw_recordOrdinal w' = lw_recordOrdinal w" "lw_laneOrdinal w' = lw_laneOrdinal w"
    "map_of (lw_files w) (segmentName n) = None" "lw_segment w' = segmentName n"
    "map_of (lw_files w') k = (if k = segmentName n then Some [] else map_of (lw_files w) k)"
proof -
  have n: "map_of (lw_files w) (segmentName n) = None" and w': "w' = w\<lparr>lw_segOrdinal := n, lw_segment := segmentName n,
      lw_files := lw_files w @ [(segmentName n, [])], lw_fh := True, lw_offset := 0, lw_openedMs := Some now,
      lw_recordsInSegment := 0, lw_firstCursor := None, lw_lastCursor := None, lw_hash := []\<rparr>"
    using assms(1) by (auto simp: startSegment_def Let_def split: if_splits)
  then show files: "map_of (lw_files w') k = (if k = segmentName n then Some [] else map_of (lw_files w) k)" for k
    by (auto simp: map_add_def split: option.splits)
  show "lw_recordsInSegment w' = 0" "lw_offset w' = 0" "lw_segmentBytes w' = lw_segmentBytes w"
    "lw_recordOrdinal w' = lw_recordOrdinal w" "lw_laneOrdinal w' = lw_laneOrdinal w"
    "map_of (lw_files w) (segmentName n) = None" "lw_segment w' = segmentName n"
    using n w' by simp_all
  show "writer_ok w'" unfolding writer_ok_def files
    using assms(2) w' by (auto simp: bounded_segment_def intro!: exI [of _ "[]"])
qed

lemma append_line_ok:
  assumes ok: "writer_ok w" and line: "complete_line line"
    and fits: "lw_recordsInSegment w = 0 \<or> lw_offset w + length line \<le> lw_segmentBytes w"
    and a: "append_line nc line w = (Inr la, w')"
  shows "writer_ok w'" "slice (file_at (lw_files w') (la_segment la)) (la_offset la) (la_offset la + la_length la) = line"
    "la_raw la = sha256hex nc line" "la_length la = length line" "la_cursor la = lane_cursor (lw_laneOrdinal w) (lw_recordOrdinal w)"
    "lw_recordOrdinal w' = lw_recordOrdinal w + 1" "lw_laneOrdinal w' = lw_laneOrdinal w" "lw_segmentBytes w' = lw_segmentBytes w"
    "map_of (lw_files w') k = (if k = lw_segment w then Some (file_at (lw_files w) k @ line) else map_of (lw_files w) k)"
proof -
  obtain ls where ls: "map_of (lw_files w) (lw_segment w) = Some (concat ls)" "\<forall>l\<in>set ls. complete_line l"
      "lw_hash w = concat ls" "lw_offset w = length (concat ls)" "lw_recordsInSegment w = length ls"
    and seg: "lw_segment w = segmentName (lw_segOrdinal w)"
    and bound: "\<forall>n d. isSegmentName n \<longrightarrow> map_of (lw_files w) n = Some d \<longrightarrow> bounded_segment (lw_segmentBytes w) d"
    using ok by (auto simp: writer_ok_def)
  have f: "file_at (lw_files w) (lw_segment w) = concat ls" by (simp add: file_at_def ls(1))
  show "slice (file_at (lw_files w') (la_segment la)) (la_offset la) (la_offset la + la_length la) = line"
    "la_raw la = sha256hex nc line" "la_length la = length line" "la_cursor la = lane_cursor (lw_laneOrdinal w) (lw_recordOrdinal w)"
    "lw_recordOrdinal w' = lw_recordOrdinal w + 1" "lw_laneOrdinal w' = lw_laneOrdinal w" "lw_segmentBytes w' = lw_segmentBytes w"
    using a f ls by (auto simp: append_line_def Let_def slice_def)
  show files: "map_of (lw_files w') k = (if k = lw_segment w then Some (file_at (lw_files w) k @ line) else map_of (lw_files w) k)" for k
    using a by (auto simp: append_line_def Let_def)
  have new: "bounded_segment (lw_segmentBytes w) (concat (ls @ [line]))"
    using fits ls line scan_complete_lines [of "[line]"] scan_complete_lines [of "ls @ [line]"] by (auto simp: bounded_segment_def)
  show "writer_ok w'" unfolding writer_ok_def files
    using a f ls seg bound line new by (auto simp: append_line_def Let_def intro!: exI [of _ "ls @ [line]"])
qed

lemma rotate_ok:
  assumes ok: "writer_ok w" and a: "rotate_segment nc t t' w = (Inr u, w')"
  shows "writer_ok w'" "lw_recordsInSegment w' = 0" "lw_segmentBytes w' = lw_segmentBytes w"
    "lw_recordOrdinal w' = lw_recordOrdinal w" "lw_laneOrdinal w' = lw_laneOrdinal w"
    "map_of (lw_files w) (segmentName k) = Some d \<Longrightarrow> map_of (lw_files w') (segmentName k) = Some d"
proof -
  define seal where "seal = seal_json (lw_segment w) (lw_firstCursor w) (lw_lastCursor w) (lw_recordsInSegment w) (lw_recordsInSegment w)
    (lw_offset w) (sha256hex nc (lw_hash w)) t"
  define w1 where "w1 = w\<lparr>lw_fh := False, lw_files := write_json (manifestName (lw_segment w)) seal (lw_files w)\<rparr>"
  obtain w2 where s: "startSegment (lw_segOrdinal w + 1) t' w1 = (Inr u, w2)" and w': "w' = writeActive w2"
    using a by (auto simp: rotate_segment_def Let_def seal_def [symmetric] w1_def [symmetric] split: prod.splits sum.splits)
  have seg: "lw_segment w = segmentName (lw_segOrdinal w)" using ok by (auto simp: writer_ok_def)
  have f1: "map_of (lw_files w1) n = map_of (lw_files w) n" if "n \<noteq> manifestName (lw_segment w)" for n
    using that by (simp add: w1_def write_json_def)
  have not_seg: "isSegmentName n \<Longrightarrow> n \<noteq> manifestName (lw_segment w)" for n
  proof
    assume n: "isSegmentName n" "n = manifestName (lw_segment w)"
    obtain x where "n = ''s'' @ x @ ''.jsonl''" using n(1) by (auto simp: isSegmentName_iff)
    then have "last (butlast n) = CHR ''n''" "n = (''s'' @ hex16 (lw_segOrdinal w)) @ ''.manifest.json''" "n \<noteq> []"
      using n(2) by (simp_all add: seg manifestName_def segmentName_def suffix_def butlast_append)
    then show False by (simp add: butlast_append)
  qed
  have "\<forall>k d. isSegmentName k \<longrightarrow> map_of (lw_files w1) k = Some d \<longrightarrow> bounded_segment (lw_segmentBytes w1) d"
    using ok f1 not_seg by (auto simp: writer_ok_def w1_def write_json_def)
  note st = startSegment_ok [OF s this]
  have act: "map_of (lw_files w') n = map_of (lw_files w2) n" if "n \<noteq> ACTIVE_FILE" for n using that by (simp add: w')
  show "writer_ok w'"
    using st(1) act segmentName_not_meta not_ACTIVE_segment unfolding writer_ok_def w' by (auto simp: st(8)) (metis writeActive_fields(11))+
  show "lw_recordsInSegment w' = 0" "lw_segmentBytes w' = lw_segmentBytes w" "lw_recordOrdinal w' = lw_recordOrdinal w" "lw_laneOrdinal w' = lw_laneOrdinal w"
    using st w' by (simp_all add: w1_def)
  have "map_of (lw_files w1) (segmentName k) = map_of (lw_files w) (segmentName k)"
    by (rule f1) (use manifest_not_segmentName [of "lw_segOrdinal w" k] seg in auto)
  then show "map_of (lw_files w) (segmentName k) = Some d \<Longrightarrow> map_of (lw_files w') (segmentName k) = Some d"
    using act [OF segmentName_not_meta(1)] st(7,9) by auto
qed

section \<open>Runs of the writer\<close>

text \<open>A lane created without segments and the records accepted since, each with its answer.\<close>

inductive lane_run :: "node_crypto \<Rightarrow> lane_writer \<Rightarrow> (string \<times> lane_append) list \<Rightarrow> bool" for nc where
  run_create: "segment_files fs = [] \<Longrightarrow> create_lane env fs p = Inr w \<Longrightarrow> lane_run nc w []"
| run_append: "lane_run nc w ras \<Longrightarrow> le_crypto env = nc \<Longrightarrow> lane_append_record env rec w = (Inr la, w') \<Longrightarrow>
    lane_run nc w' (ras @ [(rec, la)])"

text \<open>The answer's place holds the record and its line feed.\<close>

definition reads_back :: "node_crypto \<Rightarrow> files \<Rightarrow> string \<Rightarrow> lane_append \<Rightarrow> bool" where
  "reads_back nc fs rec la \<longleftrightarrow>
     (\<exists>k d. la_segment la = segmentName k \<and> map_of fs (segmentName k) = Some d \<and> la_offset la + la_length la \<le> length d) \<and>
     slice (file_at fs (la_segment la)) (la_offset la) (la_offset la + la_length la) = rec @ [LF] \<and>
     la_raw la = sha256hex nc (rec @ [LF])"

lemma slice_append: "b \<le> length d \<Longrightarrow> slice (d @ x) a b = slice d a b"
  by (simp add: slice_def)

lemma reads_back_grows:
  assumes "reads_back nc fs rec la"
    and "\<And>k d. map_of fs (segmentName k) = Some d \<Longrightarrow> \<exists>x. map_of gs (segmentName k) = Some (d @ x)"
  shows "reads_back nc gs rec la"
proof -
  obtain k d where k: "la_segment la = segmentName k" "map_of fs (segmentName k) = Some d" "la_offset la + la_length la \<le> length d"
    using assms(1) by (auto simp: reads_back_def)
  then obtain x where "map_of gs (segmentName k) = Some (d @ x)" using assms(2) by blast
  then show ?thesis using assms(1) k by (auto simp: reads_back_def file_at_def slice_append)
qed

lemma lane_append_cases:
  assumes "lane_append_record env rec w = (Inr la, w')" "writer_ok w"
  shows "complete_line (rec @ [LF])" "rec \<noteq> []"
    "\<exists>w1. append_line (le_crypto env) (rec @ [LF]) w1 = (Inr la, w') \<and> writer_ok w1 \<and>
      (lw_recordsInSegment w1 = 0 \<or> lw_offset w1 + length (rec @ [LF]) \<le> lw_segmentBytes w1) \<and>
      lw_recordOrdinal w1 = lw_recordOrdinal w \<and> lw_laneOrdinal w1 = lw_laneOrdinal w \<and> lw_segmentBytes w1 = lw_segmentBytes w \<and>
      (\<forall>k d. map_of (lw_files w) (segmentName k) = Some d \<longrightarrow> map_of (lw_files w1) (segmentName k) = Some d)"
proof -
  show "complete_line (rec @ [LF])" "rec \<noteq> []" using assms(1) by (auto simp: lane_append_record_def complete_line_def split: if_splits)
  show "\<exists>w1. append_line (le_crypto env) (rec @ [LF]) w1 = (Inr la, w') \<and> writer_ok w1 \<and>
      (lw_recordsInSegment w1 = 0 \<or> lw_offset w1 + length (rec @ [LF]) \<le> lw_segmentBytes w1) \<and>
      lw_recordOrdinal w1 = lw_recordOrdinal w \<and> lw_laneOrdinal w1 = lw_laneOrdinal w \<and> lw_segmentBytes w1 = lw_segmentBytes w \<and>
      (\<forall>k d. map_of (lw_files w) (segmentName k) = Some d \<longrightarrow> map_of (lw_files w1) (segmentName k) = Some d)"
  proof (cases "must_rotate (length (rec @ [LF])) (le_clock env 0) w")
    case True
    then obtain u w1 where r: "rotate_segment (le_crypto env) (le_clock env 1) (le_clock env 2) w = (Inr u, w1)"
      and a: "append_line (le_crypto env) (rec @ [LF]) w1 = (Inr la, w')"
      using assms(1) by (auto simp: lane_append_record_def Let_def split: if_splits prod.splits sum.splits)
    show ?thesis using rotate_ok [OF assms(2) r] a by (intro exI [of _ w1]) simp
  next
    case False
    then have "append_line (le_crypto env) (rec @ [LF]) w = (Inr la, w')"
      using assms(1) by (auto simp: lane_append_record_def Let_def split: if_splits)
    then show ?thesis using False assms(2) by (auto simp: must_rotate_def not_less)
  qed
qed

lemma create_ok:
  assumes "segment_files fs = []" "create_lane env fs p = Inr w"
  shows "writer_ok w" "lw_recordOrdinal w = 1"
proof -
  define w0 where "w0 = new_writer (write_json LANE_META_FILE (meta_json (lp_lane p) (lp_ordinal p) (le_clock env 0)) fs) p (lp_ordinal p)"
  obtain w1 where s: "startSegment 1 (le_clock env 1) w0 = (Inr (), w1)" and w: "w = writeActive w1"
    using assms(2) by (auto simp: create_lane_def w0_def [symmetric] split: if_splits prod.splits sum.splits)
  have "\<forall>k d. isSegmentName k \<longrightarrow> map_of (lw_files w0) k = Some d \<longrightarrow> bounded_segment (lw_segmentBytes w0) d"
  proof (intro allI impI)
    fix k d assume k: "isSegmentName k" "map_of (lw_files w0) k = Some d"
    then have "map_of fs k = Some d" using not_ACTIVE_segment by (auto simp: w0_def new_writer_def write_json_def split: if_splits)
    then have "k \<in> set (segment_files fs)" using k(1) by (force simp: segment_files_def dest: map_of_SomeD)
    then show "bounded_segment (lw_segmentBytes w0) d" using assms(1) by simp
  qed
  note st = startSegment_ok [OF s this]
  show "writer_ok w" using st(1) segmentName_not_meta not_ACTIVE_segment unfolding writer_ok_def w
    by (auto simp: st(8)) (metis writeActive_fields(11))+
  show "lw_recordOrdinal w = 1" using st(5) by (simp add: w w0_def new_writer_def)
qed

text \<open>What an accepted record does to the lane.\<close>

definition segments_grow :: "files \<Rightarrow> files \<Rightarrow> bool" where
  "segments_grow fs gs \<longleftrightarrow> (\<forall>k d. map_of fs (segmentName k) = Some d \<longrightarrow> (\<exists>x. map_of gs (segmentName k) = Some (d @ x)))"

lemma segments_grow_refl [simp]: "segments_grow fs fs"
  by (simp add: segments_grow_def)

lemma lane_append_effect:
  assumes "lane_append_record env rec w = (Inr la, w')" "writer_ok w"
  shows "writer_ok w'" "segments_grow (lw_files w) (lw_files w')" "reads_back (le_crypto env) (lw_files w') rec la"
    "la_cursor la = lane_cursor (lw_laneOrdinal w) (lw_recordOrdinal w)" "lw_recordOrdinal w' = lw_recordOrdinal w + 1"
    "lw_laneOrdinal w' = lw_laneOrdinal w"
proof -
  obtain w1 where a: "append_line (le_crypto env) (rec @ [LF]) w1 = (Inr la, w')" "writer_ok w1"
      "lw_recordsInSegment w1 = 0 \<or> lw_offset w1 + length (rec @ [LF]) \<le> lw_segmentBytes w1"
      "lw_recordOrdinal w1 = lw_recordOrdinal w" "lw_laneOrdinal w1 = lw_laneOrdinal w"
    and keep: "\<forall>k d. map_of (lw_files w) (segmentName k) = Some d \<longrightarrow> map_of (lw_files w1) (segmentName k) = Some d"
    using lane_append_cases(3) [OF assms] by auto
  note al = append_line_ok [OF a(2) lane_append_cases(1) [OF assms] a(3) a(1)]
  have "\<exists>x. map_of (lw_files w') (segmentName k) = Some (d @ x)" if "map_of (lw_files w) (segmentName k) = Some d" for k d
  proof -
    have "map_of (lw_files w1) (segmentName k) = Some d" using that keep by blast
    then show ?thesis using al(9) [of "segmentName k"] by (auto simp: file_at_def)
  qed
  then show "segments_grow (lw_files w) (lw_files w')" by (simp add: segments_grow_def)
  have seg: "la_segment la = lw_segment w1" "lw_segment w1 = segmentName (lw_segOrdinal w1)" "la_offset la = lw_offset w1"
      "\<exists>d. map_of (lw_files w1) (lw_segment w1) = Some d \<and> length d = lw_offset w1"
    using a(1,2) by (auto simp: append_line_def Let_def writer_ok_def)
  then show "reads_back (le_crypto env) (lw_files w') rec la"
    using al(2-4) al(9) [of "lw_segment w1"] unfolding reads_back_def
    by (auto simp: file_at_def intro!: exI [of _ "lw_segOrdinal w1"])
  show "writer_ok w'" "la_cursor la = lane_cursor (lw_laneOrdinal w) (lw_recordOrdinal w)" "lw_recordOrdinal w' = lw_recordOrdinal w + 1"
    "lw_laneOrdinal w' = lw_laneOrdinal w"
    using al a(4,5) by simp_all
qed

text \<open>C32.  In every run of a lane each accepted record reads back from the segment, offset and length of
  its answer with the digest of the answer, whatever was appended or rotated since; the cursors
  count the records from one; and a segment file exceeds the segment size only when it holds a
  single record.\<close>

theorem accepted_records_read_back:
  assumes "lane_run nc w ras"
  shows "(\<forall>(rec, la)\<in>set ras. reads_back nc (lw_files w) rec la) \<and>
    map (la_cursor \<circ> snd) ras = map (lane_cursor (lw_laneOrdinal w)) [1..<length ras + 1] \<and>
    (\<forall>n d. isSegmentName n \<longrightarrow> map_of (lw_files w) n = Some d \<longrightarrow> bounded_segment (lw_segmentBytes w) d)"
proof -
  have "writer_ok w \<and> lw_recordOrdinal w = length ras + 1 \<and> (\<forall>(rec, la)\<in>set ras. reads_back nc (lw_files w) rec la) \<and>
    map (la_cursor \<circ> snd) ras = map (lane_cursor (lw_laneOrdinal w)) [1..<length ras + 1]"
    using assms
  proof (induction rule: lane_run.induct)
    case (run_create fs env p w)
    then show ?case using create_ok by simp
  next
    case (run_append w ras env rec la w')
    note e = lane_append_effect [OF run_append.hyps(3), unfolded run_append.hyps(2)]
    have "reads_back nc (lw_files w') rec' la'" if "(rec', la') \<in> set ras" for rec' la'
      using run_append.IH that e(2) by (auto simp: segments_grow_def intro: reads_back_grows)
    then show ?case using e run_append.IH by auto
  qed
  then show ?thesis by (auto simp: writer_ok_def)
qed

lemma first_record_run:
  "\<exists>w la. lane_run journal_crypto w [(''{}'', la)] \<and> la_cursor la = lane_cursor 5 1"
proof -
  define p where "p = \<lparr>lp_lane = ''legacy'', lp_ordinal = 5, lp_segmentBytes = None, lp_maxAgeMs = None, lp_maxRecordBytes = None\<rparr>"
  define w0 where "w0 = new_writer (write_json LANE_META_FILE (meta_json (lp_lane p) (lp_ordinal p) (le_clock torn_env 0)) []) p (lp_ordinal p)"
  have "map_of (lw_files w0) (segmentName 1) = None"
    using segmentName_not_meta(2) [of 1] by (auto simp: w0_def new_writer_def write_json_def)
  then have s: "fst (startSegment 1 (le_clock torn_env 1) w0) = Inr ()"
    by (simp add: startSegment_def Let_def)
  obtain w1 where w1: "startSegment 1 (le_clock torn_env 1) w0 = (Inr (), w1)"
    using s by (cases "startSegment 1 (le_clock torn_env 1) w0") auto
  have c: "create_lane torn_env [] p = Inr (writeActive w1)" using w1 by (simp add: create_lane_def w0_def)
  have empty: "segment_files [] = []" by (simp add: segment_files_def)
  have run: "lane_run journal_crypto (writeActive w1) []" by (rule run_create [OF empty c])
  have f: "lw_fh (writeActive w1)" "\<not> lw_closed (writeActive w1)" "lw_recordsInSegment (writeActive w1) = 0"
      "lw_maxRecordBytes (writeActive w1) = DEFAULT_MAX_RECORD_BYTES" "lw_laneOrdinal (writeActive w1) = 5" "lw_recordOrdinal (writeActive w1) = 1"
    using w1 by (auto simp: startSegment_def Let_def w0_def new_writer_def p_def writeActive_def split: if_splits)
  obtain la w2 where al: "append_line (le_crypto torn_env) (''{}'' @ [LF]) (writeActive w1) = (Inr la, w2)" "la_cursor la = lane_cursor 5 1"
    using f by (auto simp: append_line_def Let_def)
  have "lane_append_record torn_env ''{}'' (writeActive w1) = (Inr la, w2)"
    using f al by (simp add: lane_append_record_def must_rotate_def DEFAULT_MAX_RECORD_BYTES_def BOM_def LF_def)
  from run_append [OF run _ this] show ?thesis using al(2) by (auto simp: torn_env_def)
qed

lemma accepted_records_read_back_witness:
  "\<exists>(w :: lane_writer) (la :: lane_append). reads_back journal_crypto (lw_files w) ''{}'' la \<and> la_cursor la = lane_cursor 5 1"
proof -
  obtain w la where run: "lane_run journal_crypto w [(''{}'', la)]" and c: "la_cursor la = lane_cursor 5 1" using first_record_run by blast
  have "reads_back journal_crypto (lw_files w) ''{}'' la" using accepted_records_read_back [OF run] by simp
  then show ?thesis using c by blast
qed

end
