(* ===== verification/Store_Objects.thy ===== *)
theory Store_Objects
  imports Store_Writer_Facts
begin

text \<open>
  Model of \<open>gateway-daemon/src/store/objects.ts\<close>: the content-addressed object store.  The files
  stand under their digests; the prefix directory of a path is determined by the digest.
\<close>

definition DEFAULT_MAX_OBJECT_BYTES :: nat where "DEFAULT_MAX_OBJECT_BYTES = 1048576"

record object_store =
  os_files :: files
  os_maxBytes :: nat
  os_verified :: "string list"

type_synonym 'a object_op = "(object_store, store_code, 'a) op"

definition open_objects :: "files \<Rightarrow> nat option \<Rightarrow> object_store" where
  "open_objects fs mx = \<lparr>os_files = fs, os_maxBytes = (case mx of None \<Rightarrow> DEFAULT_MAX_OBJECT_BYTES | Some b \<Rightarrow> b), os_verified = []\<rparr>"

definition add_verified :: "string \<Rightarrow> object_store \<Rightarrow> object_store" where
  "add_verified d s = s\<lparr>os_verified := List.insert d (os_verified s)\<rparr>"

definition verifyFile :: "node_crypto \<Rightarrow> string \<Rightarrow> nat \<Rightarrow> object_store \<Rightarrow> bool" where
  "verifyFile nc digest len s \<longleftrightarrow>
     (let data = file_at (os_files s) digest in length data = len \<and> sha256hex nc data = digest)"

text \<open>\<open>put\<close> answers the digest, the length and whether the object is new.\<close>

definition put_object :: "node_crypto \<Rightarrow> string \<Rightarrow> (string \<times> nat \<times> bool) object_op" where
  "put_object nc bytes s =
     (if os_maxBytes s < length bytes then (Inl STORE_OBJECT_LIMIT, s)
      else (let digest = sha256hex nc bytes in
            if \<not> isHex64 digest then (Inl BAD_DIGEST, s)
            else (let created = (map_of (os_files s) digest = None);
                      s1 = (if created then s\<lparr>os_files := os_files s @ [(digest, bytes)]\<rparr> else s) in
                  if verifyFile nc digest (length bytes) s1 then (Inr (digest, length bytes, created), add_verified digest s1)
                  else (Inl CORRUPT, s1))))"

definition get_object :: "node_crypto \<Rightarrow> string \<Rightarrow> string object_op" where
  "get_object nc digest s =
     (if \<not> isHex64 digest then (Inl BAD_DIGEST, s)
      else (case map_of (os_files s) digest of
              None \<Rightarrow> (Inl STORE_NOT_FOUND, s)
            | Some data \<Rightarrow>
                if digest \<in> set (os_verified s) then (Inr data, s)
                else if data = [] \<or> sha256hex nc data \<noteq> digest then (Inl CORRUPT, s)
                else (Inr data, add_verified digest s)))"

definition has_object :: "node_crypto \<Rightarrow> string \<Rightarrow> bool object_op" where
  "has_object nc digest s =
     (if \<not> isHex64 digest then (Inl BAD_DIGEST, s)
      else (case map_of (os_files s) digest of
              None \<Rightarrow> (Inr False, s)
            | Some data \<Rightarrow>
                if digest \<in> set (os_verified s) then (Inr True, s)
                else if sha256hex nc data \<noteq> digest then (Inr False, s)
                else (Inr True, add_verified digest s)))"

section \<open>What the object store promises\<close>

text \<open>Files stand under their digests, and what is marked verified is there.\<close>

definition objects_ok :: "node_crypto \<Rightarrow> object_store \<Rightarrow> bool" where
  "objects_ok nc s \<longleftrightarrow>
     (\<forall>d data. map_of (os_files s) d = Some data \<longrightarrow> sha256hex nc data = d) \<and> (\<forall>d\<in>set (os_verified s). map_of (os_files s) d \<noteq> None)"

lemma put_object_ok:
  assumes "objects_ok nc s" "put_object nc bytes s = (r, s')"
  shows "objects_ok nc s'" "map_of (os_files s) d = Some data \<Longrightarrow> map_of (os_files s') d = Some data"
  using assms
  by (auto simp: put_object_def objects_ok_def add_verified_def map_add_def Let_def split: if_splits option.splits)

lemma object_reads_ok:
  "objects_ok nc s \<Longrightarrow> objects_ok nc (snd (get_object nc d s)) \<and> os_files (snd (get_object nc d s)) = os_files s"
  "objects_ok nc s \<Longrightarrow> objects_ok nc (snd (has_object nc d s)) \<and> os_files (snd (has_object nc d s)) = os_files s"
  by (auto simp: get_object_def has_object_def add_verified_def objects_ok_def split: option.split)

text \<open>An object accepted by \<open>put\<close> is read back under its digest as long as no digest is forged, in the
  same process whatever its length, and in a later one unless it is empty.\<close>

lemma object_round_trip:
  assumes ok: "objects_ok nc s" and p: "put_object nc bytes s = (Inr (d, n, c), s')"
    and inj: "\<And>data. map_of (os_files s) d = Some data \<Longrightarrow> sha256hex nc data = sha256hex nc bytes \<Longrightarrow> data = bytes"
  shows "d = sha256hex nc bytes" "n = length bytes" "fst (get_object nc d s') = Inr bytes" "fst (has_object nc d s') = Inr True"
    "fst (get_object nc d (open_objects (os_files s') mx)) = (if bytes = [] then Inl CORRUPT else Inr bytes)"
    "fst (has_object nc d (open_objects (os_files s') mx)) = Inr True"
proof -
  have d: "d = sha256hex nc bytes" "isHex64 d" "n = length bytes" "d \<in> set (os_verified s')"
    using p by (auto simp: put_object_def add_verified_def Let_def split: if_splits)
  have f: "map_of (os_files s') d = Some bytes"
  proof (cases "map_of (os_files s) d")
    case None
    then show ?thesis using p d(1) by (auto simp: put_object_def add_verified_def map_add_def Let_def split: if_splits)
  next
    case (Some data)
    have "sha256hex nc data = d" using ok Some unfolding objects_ok_def by blast
    then have "data = bytes" using inj [OF Some] d(1) by simp
    then show ?thesis using Some put_object_ok(2) [OF ok p] by simp
  qed
  show "d = sha256hex nc bytes" "n = length bytes" using d by simp_all
  show "fst (get_object nc d s') = Inr bytes" "fst (has_object nc d s') = Inr True"
    "fst (get_object nc d (open_objects (os_files s') mx)) = (if bytes = [] then Inl CORRUPT else Inr bytes)"
    "fst (has_object nc d (open_objects (os_files s') mx)) = Inr True"
    using d f by (simp_all add: get_object_def has_object_def open_objects_def)
qed

text \<open>A file cut short by a crash during \<open>put\<close> is never mended: every later \<open>put\<close> of the object is refused.\<close>

lemma torn_object_stays_corrupt:
  assumes "map_of (os_files s) (sha256hex nc bytes) = Some torn" "length torn < length bytes" "length bytes \<le> os_maxBytes s"
    "isHex64 (sha256hex nc bytes)"
  shows "put_object nc bytes s = (Inl CORRUPT, s)"
  using assms by (simp add: put_object_def verifyFile_def file_at_def Let_def)

end
