(* ===== verification/Store_Registry.thy ===== *)
theory Store_Registry
  imports Store_Objects
begin

text \<open>
  Model of \<open>gateway-daemon/src/store/registry.ts\<close>: the derived index over SQLite tables and the
  reducer that applies the mutation of a commit marker.  A table is its rows in \<open>rowid\<close> order, a
  row its columns; \<open>INSERT OR REPLACE\<close> drops the row with the same primary key and appends.  An
  entry whose field lacks the declared type raises \<open>Thrown\<close>, where the source leaves the value to
  the type checker and to SQLite.
\<close>

section \<open>Tables\<close>

datatype sqlval = SNull | SInt int | SText string

type_synonym row = "(string \<times> sqlval) list"
type_synonym tables = "(string \<times> row list) list"

definition col :: "row \<Rightarrow> string \<Rightarrow> sqlval" where
  "col r c = (case map_of r c of None \<Rightarrow> SNull | Some v \<Rightarrow> v)"

definition rows :: "tables \<Rightarrow> string \<Rightarrow> row list" where
  "rows db t = (case map_of db t of None \<Rightarrow> [] | Some rs \<Rightarrow> rs)"

definition same_key :: "string list \<Rightarrow> row \<Rightarrow> row \<Rightarrow> bool" where
  "same_key pk r q \<longleftrightarrow> list_all (\<lambda>c. col r c = col q c) pk"

definition insert_or_replace :: "string \<Rightarrow> string list \<Rightarrow> row \<Rightarrow> tables \<Rightarrow> tables" where
  "insert_or_replace t pk r db = aput t (filter (\<lambda>q. \<not> same_key pk r q) (rows db t) @ [r]) db"

definition insert_or_ignore :: "string \<Rightarrow> string list \<Rightarrow> row \<Rightarrow> tables \<Rightarrow> tables" where
  "insert_or_ignore t pk r db =
     (if list_ex (same_key pk r) (rows db t) then db else aput t (rows db t @ [r]) db)"

definition update_rows :: "string \<Rightarrow> (row \<Rightarrow> bool) \<Rightarrow> (row \<Rightarrow> row) \<Rightarrow> tables \<Rightarrow> tables" where
  "update_rows t p f db = aput t (map (\<lambda>r. if p r then f r else r) (rows db t)) db"

definition delete_rows :: "string \<Rightarrow> (row \<Rightarrow> bool) \<Rightarrow> tables \<Rightarrow> tables" where
  "delete_rows t p db = aput t (filter (\<lambda>r. \<not> p r) (rows db t)) db"

definition DATA_TABLES :: "string list" where
  "DATA_TABLES = [''events'', ''native_objects'', ''transport_cursors'', ''runs'', ''runs_v2'', ''products'', ''operations'',
     ''operations_v2'', ''approvals'', ''grants'', ''outbox'', ''pairs'', ''subscriptions'', ''sources'', ''actions'', ''peers'',
     ''docs'', ''bootstraps'', ''lifecycle_generations'']"

text \<open>The tables of \<open>DATA_TABLES\<close>, and the two that a rebuild leaves: the meta values and the catalog row.\<close>

record registry =
  rg_kv :: "(string \<times> string) list"
  rg_data :: tables
  rg_catalog :: "(string option \<times> string option) option"

type_synonym 'a registry_op = "(registry, store_code, 'a) op"

definition empty_registry :: registry where
  "empty_registry = \<lparr>rg_kv = [], rg_data = [], rg_catalog = None\<rparr>"

definition kvGet :: "string \<Rightarrow> registry \<Rightarrow> string option" where
  "kvGet k s = map_of (rg_kv s) k"

definition kvSet :: "string \<Rightarrow> string \<Rightarrow> registry \<Rightarrow> registry" where
  "kvSet k v s = s\<lparr>rg_kv := filter (\<lambda>(q, _). q \<noteq> k) (rg_kv s) @ [(k, v)]\<rparr>"

definition kvDelete :: "string \<Rightarrow> registry \<Rightarrow> registry" where
  "kvDelete k s = s\<lparr>rg_kv := filter (\<lambda>(q, _). q \<noteq> k) (rg_kv s)\<rparr>"

definition kv_or :: "string \<Rightarrow> string \<Rightarrow> registry \<Rightarrow> string" where
  "kv_or k d s = (case kvGet k s of None \<Rightarrow> d | Some v \<Rightarrow> v)"

definition lastIndexedTx :: "registry \<Rightarrow> string option" where
  "lastIndexedTx s = kvGet ''last_indexed_tx'' s"

definition open_registry :: "string option \<Rightarrow> registry \<Rightarrow> store_code + registry" where
  "open_registry inst s =
     (case inst of
        None \<Rightarrow> Inr s
      | Some i \<Rightarrow>
          (case kvGet ''instance_id'' s of
             None \<Rightarrow> Inr (kvSet ''instance_id'' i s)
           | Some e \<Rightarrow> if e \<noteq> i then Inl IDENTITY_MISMATCH else Inr s))"

section \<open>Entries\<close>

text \<open>The fields of an entry: required text, text that may be absent or null, integers, and text of any JSON.\<close>

definition f_text :: "jobj \<Rightarrow> string \<Rightarrow> sqlval option" where
  "f_text e k = (case jget e k of Some (JStr s) \<Rightarrow> Some (SText s) | _ \<Rightarrow> None)"

definition f_text_null :: "jobj \<Rightarrow> string \<Rightarrow> sqlval option" where
  "f_text_null e k = (case jget e k of Some (JStr s) \<Rightarrow> Some (SText s) | Some JNull \<Rightarrow> Some SNull | _ \<Rightarrow> None)"

definition f_text_opt :: "jobj \<Rightarrow> string \<Rightarrow> sqlval \<Rightarrow> sqlval option" where
  "f_text_opt e k d = (case jget e k of None \<Rightarrow> Some d | Some JNull \<Rightarrow> Some d | Some (JStr s) \<Rightarrow> Some (SText s) | _ \<Rightarrow> None)"

definition f_int :: "jobj \<Rightarrow> string \<Rightarrow> sqlval option" where
  "f_int e k = (case jget e k of Some (JNum i) \<Rightarrow> Some (SInt i) | _ \<Rightarrow> None)"

definition f_int_null :: "jobj \<Rightarrow> string \<Rightarrow> sqlval option" where
  "f_int_null e k = (case jget e k of Some (JNum i) \<Rightarrow> Some (SInt i) | Some JNull \<Rightarrow> Some SNull | _ \<Rightarrow> None)"

definition f_int_opt :: "jobj \<Rightarrow> string \<Rightarrow> sqlval \<Rightarrow> sqlval option" where
  "f_int_opt e k d = (case jget e k of None \<Rightarrow> Some d | Some JNull \<Rightarrow> Some d | Some (JNum i) \<Rightarrow> Some (SInt i) | _ \<Rightarrow> None)"

text \<open>\<open>JSON.stringify(e.k)\<close>, which is not bindable when the field is absent, and \<open>JSON.stringify(e.k ?? null)\<close>.\<close>

definition f_json :: "jobj \<Rightarrow> string \<Rightarrow> sqlval option" where
  "f_json e k = map_option (\<lambda>v. SText (JSON_stringify v)) (jget e k)"

definition f_json_or_null :: "jobj \<Rightarrow> string \<Rightarrow> sqlval option" where
  "f_json_or_null e k = Some (SText (JSON_stringify (case jget e k of None \<Rightarrow> JNull | Some v \<Rightarrow> v)))"

definition flag :: "bool \<Rightarrow> sqlval" where "flag b = SInt (if b then 1 else 0)"

fun row_of :: "(string \<times> sqlval option) list \<Rightarrow> row option" where
  "row_of [] = Some []"
| "row_of ((c, v) # cs) = (case (v, row_of cs) of (Some x, Some r) \<Rightarrow> Some ((c, x) # r) | _ \<Rightarrow> None)"

definition to_tables :: "(tables \<Rightarrow> tables) \<Rightarrow> registry \<Rightarrow> registry" where
  "to_tables f s = s\<lparr>rg_data := f (rg_data s)\<rparr>"

definition put_row :: "string \<Rightarrow> string list \<Rightarrow> row option \<Rightarrow> unit registry_op" where
  "put_row t pk r s =
     (case r of None \<Rightarrow> (Inl Thrown, s) | Some q \<Rightarrow> (Inr (), to_tables (insert_or_replace t pk q) s))"

section \<open>Events\<close>

definition slot_of :: "jobj \<Rightarrow> (string \<times> sqlval option) list" where
  "slot_of e = [(''workspace'', f_text e ''workspace''), (''source'', f_text e ''source''), (''stream'', f_text e ''stream''),
     (''seq'', f_text e ''seq'')]"

definition SLOT :: "string list" where "SLOT = [''workspace'', ''source'', ''stream'', ''seq'']"
definition EVENT_KEY :: "string list" where "EVENT_KEY = SLOT @ [''hash'']"

definition set_col :: "string \<Rightarrow> sqlval \<Rightarrow> row \<Rightarrow> row" where "set_col c v r = aput c v r"

text \<open>The candidates of a slot, and the update of its conflict column.\<close>

definition slot_rows :: "row \<Rightarrow> tables \<Rightarrow> row list" where
  "slot_rows r db = filter (same_key SLOT r) (rows db ''events'')"

definition mark_conflict :: "row \<Rightarrow> bool \<Rightarrow> tables \<Rightarrow> tables" where
  "mark_conflict r b = update_rows ''events'' (same_key SLOT r) (set_col ''conflict'' (flag b))"

definition isEventEntryV2 :: "jobj \<Rightarrow> bool" where
  "isEventEntryV2 e \<longleftrightarrow> (case jget e ''raw_sha256'' of Some (JStr _) \<Rightarrow> True | _ \<Rightarrow> False)"

definition event_shape :: "jobj \<Rightarrow> bool" where
  "event_shape e \<longleftrightarrow> str_at e ''hash'' isHex64 \<noteq> None \<and> str_at e ''seq'' isDecimalString \<noteq> None"

definition upsertEvent :: "jobj \<Rightarrow> string \<Rightarrow> unit registry_op" where
  "upsertEvent e tx s =
     (if \<not> event_shape e then (Inl MUTATION_UNKNOWN, s)
      else (case row_of (slot_of e @
                [(''hash'', f_text e ''hash''), (''conflict'', Some (SInt 0)), (''lane'', f_text_opt e ''lane'' SNull),
                 (''segment'', f_text_opt e ''segment'' SNull), (''offset'', f_int_opt e ''offset'' SNull),
                 (''length'', f_int_opt e ''length'' SNull), (''tx'', Some (SText tx))]) of
              None \<Rightarrow> (Inl Thrown, s)
            | Some r \<Rightarrow>
                let db = insert_or_ignore ''events'' EVENT_KEY r (rg_data s) in
                (Inr (), s\<lparr>rg_data := mark_conflict r (1 < length (slot_rows r db)) db\<rparr>)))"

text \<open>The resolved position of a committed record: cursor, ordinal and global order.\<close>

type_synonym resolver = "locator \<Rightarrow> (string \<times> nat \<times> nat) option"

definition event_position :: "resolver \<Rightarrow> marker \<Rightarrow> jobj \<Rightarrow> (sqlval option \<times> sqlval option \<times> sqlval option)" where
  "event_position rs mk e =
     (let own = (f_text_opt e ''cursor'' SNull, f_int_opt e ''order'' (SInt 0), f_text_opt e ''lane'' SNull) in
      case jget e ''record'' of
        Some (JNum i) \<Rightarrow>
          if 0 \<le> i \<and> nat i < length (mk_records mk)
          then (case rs (mk_records mk ! nat i) of
                  Some (c, _, n) \<Rightarrow> (Some (SText c), Some (SInt (int n)), Some (SText (lo_lane (mk_records mk ! nat i))))
                | None \<Rightarrow> own)
          else own
      | _ \<Rightarrow> own)"

text \<open>\<open>COALESCE(raw_sha256, hash)\<close>\<close>

definition raw_or_hash :: "row \<Rightarrow> sqlval" where
  "raw_or_hash r = (if col r ''raw_sha256'' = SNull then col r ''hash'' else col r ''raw_sha256'')"

definition upsertEventV2 :: "resolver \<Rightarrow> marker \<Rightarrow> jobj \<Rightarrow> string \<Rightarrow> unit registry_op" where
  "upsertEventV2 rs mk e tx s =
     (if \<not> event_shape e then (Inl MUTATION_UNKNOWN, s)
      else (case event_position rs mk e of
              (cursor, order, lane) \<Rightarrow>
                (case row_of (slot_of e @
                   [(''hash'', f_text e ''hash''), (''conflict'', Some (SInt 0)), (''lane'', lane), (''segment'', Some SNull),
                    (''offset'', Some SNull), (''length'', Some SNull), (''raw_sha256'', f_text e ''raw_sha256''),
                    (''topic'', f_text e ''topic''), (''profile'', f_text e ''profile''), (''media'', f_text e ''media''),
                    (''record_bytes'', f_text e ''record_bytes''), (''cursor'', cursor), (''record_order'', order), (''tx'', Some (SText tx))]) of
                   None \<Rightarrow> (Inl Thrown, s)
                 | Some r \<Rightarrow>
                     let known = list_ex (\<lambda>q. same_key EVENT_KEY r q \<and> col q ''raw_sha256'' = col r ''raw_sha256'') (rows (rg_data s) ''events'');
                         db = (if known then rg_data s else insert_or_ignore ''events'' EVENT_KEY r (rg_data s));
                         db1 = mark_conflict r (1 < length (remdups (map raw_or_hash (slot_rows r db)))) db;
                         db2 = (if jget e ''conflict'' = Some (JBool True) then mark_conflict r True db1 else db1) in
                     (Inr (), s\<lparr>rg_data := db2\<rparr>))))"

section \<open>The other entries\<close>

definition native_object_row :: "jobj \<Rightarrow> string \<Rightarrow> row option" where
  "native_object_row e tx = row_of
     [(''profile'', f_text e ''profile''), (''namespace'', f_text e ''namespace''), (''type'', f_text e ''type''),
      (''object_id'', f_text e ''object_id''), (''commitment'', f_text_opt e ''commitment'' (SText [])),
      (''raw_sha256'', f_text_opt e ''raw_sha256'' SNull), (''bytes'', f_text_opt e ''bytes'' SNull), (''tx'', Some (SText tx))]"

definition cursor_row :: "jobj \<Rightarrow> string \<Rightarrow> row option" where
  "cursor_row e tx = row_of
     [(''instance'', f_text e ''instance''), (''cursor'', f_text e ''cursor''), (''lane'', f_text e ''lane''), (''segment'', f_text e ''segment''),
      (''offset'', f_int e ''offset''), (''length'', f_int e ''length''), (''raw_sha256'', f_text e ''raw_sha256''), (''tx'', Some (SText tx))]"

definition has_text :: "jobj \<Rightarrow> string \<Rightarrow> bool" where
  "has_text e k \<longleftrightarrow> str_at e k (\<lambda>_. True) \<noteq> None"

definition put_run :: "jobj \<Rightarrow> string \<Rightarrow> unit registry_op" where
  "put_run e tx =
     (if has_text e ''run_id''
      then put_row ''runs_v2'' [''run_id''] (row_of
        [(''run_id'', f_text e ''run_id''), (''owner'', f_text e ''owner''), (''kit'', f_text e ''kit''), (''state'', f_text e ''state''),
         (''spool_seq'', f_text e ''spool_seq''), (''exit_code'', f_int_null e ''exit_code''), (''signal'', f_text_null e ''signal''),
         (''pending_sync'', f_int e ''pending_sync''), (''tx'', Some (SText tx))])
      else put_row ''runs'' [''legacy_namespace'', ''ulid''] (row_of
        [(''legacy_namespace'', f_text e ''legacy_namespace''), (''ulid'', f_text e ''ulid''), (''owner'', f_text e ''owner''), (''tx'', Some (SText tx))]))"

definition put_product :: "jobj \<Rightarrow> string \<Rightarrow> unit registry_op" where
  "put_product e tx s =
     (let active = (jget e ''active'' = Some (JBool True));
          r = row_of [(''slug'', f_text e ''slug''), (''instance'', f_text e ''instance''), (''generation'', f_int e ''generation''),
                      (''state'', f_text e ''state''), (''active'', Some (flag active)), (''tx'', Some (SText tx))];
          s1 = (case r of
                  Some q \<Rightarrow> if active then to_tables (update_rows ''products'' (same_key [''slug'', ''instance''] q) (set_col ''active'' (SInt 0))) s else s
                | None \<Rightarrow> s) in
      put_row ''products'' [''slug'', ''instance'', ''generation''] r s1)"

definition put_operation :: "jobj \<Rightarrow> string \<Rightarrow> unit registry_op" where
  "put_operation e tx =
     (if has_text e ''slug''
      then put_row ''operations_v2'' [''id''] (row_of
        [(''id'', f_text e ''id''), (''principal'', f_text e ''principal''), (''kind'', f_text e ''kind''), (''state'', f_text e ''state''),
         (''slug'', f_text e ''slug''), (''from_v'', f_text_null e ''from''), (''to_v'', f_text_null e ''to''), (''cursor'', f_text_null e ''cursor''),
         (''error_json'', if jget e ''error'' = Some JNull then Some SNull else f_json e ''error''), (''tx'', Some (SText tx))])
      else put_row ''operations'' [''principal'', ''id''] (row_of
        [(''principal'', f_text e ''principal''), (''id'', f_text e ''id''), (''request_hash'', f_text e ''request_hash''),
         (''result_json'', f_text_opt e ''result_json'' SNull), (''state'', f_text e ''state''), (''tx'', Some (SText tx))]))"

definition approval_row :: "jobj \<Rightarrow> string \<Rightarrow> row option" where
  "approval_row e tx = row_of
     [(''home'', f_text e ''home''), (''request'', f_text e ''request''), (''revision'', f_text e ''revision''), (''state'', f_text e ''state''),
      (''tx'', Some (SText tx))]"

definition grant_row :: "jobj \<Rightarrow> string \<Rightarrow> row option" where
  "grant_row e tx = row_of
     [(''peer'', f_text e ''peer''), (''key'', f_text e ''key''), (''revision'', f_text e ''revision''), (''scopes_json'', f_json e ''scopes''),
      (''state'', f_text e ''state''), (''tx'', Some (SText tx))]"

definition outbox_row :: "jobj \<Rightarrow> string \<Rightarrow> row option" where
  "outbox_row e tx = row_of
     [(''id'', f_text e ''id''), (''destination'', f_text e ''destination''), (''cohort'', f_text e ''cohort''), (''stream'', f_text e ''stream''),
      (''batch_hash'', f_text_opt e ''batch_hash'' SNull), (''state'', f_text e ''state''), (''item_json'', f_json e ''item''), (''tx'', Some (SText tx))]"

definition pair_row :: "jobj \<Rightarrow> string \<Rightarrow> row option" where
  "pair_row e tx = row_of
     [(''peer'', f_text e ''peer''), (''key'', f_text e ''key''), (''meta_json'', f_json_or_null e ''meta''), (''state'', f_text e ''state''),
      (''tx'', Some (SText tx))]"

text \<open>The columns added by the migrations have their defaults in a legacy row.\<close>

definition subscription_row :: "jobj \<Rightarrow> string \<Rightarrow> row option" where
  "subscription_row e tx = row_of
     ([(''id'', f_text e ''id''), (''owner'', f_text e ''owner''), (''cursor'', f_text e ''cursor'')] @
      (case jget e ''topics'' of
         Some (JArr ts) \<Rightarrow>
           [(''filter_json'', Some (SText (JSON_stringify (JObj [(''topics'', JArr ts)])))), (''state'', f_text e ''state''),
            (''topics_json'', Some (SText (JSON_stringify (JArr ts)))), (''position'', f_int e ''position''),
            (''delivered'', f_int e ''delivered''), (''expires_ms'', f_int e ''expires_ms'')]
       | _ \<Rightarrow>
           [(''filter_json'', f_json_or_null e ''filter''), (''state'', f_text e ''state''), (''topics_json'', Some SNull),
            (''position'', Some (SInt 0)), (''delivered'', Some (SInt 0)), (''expires_ms'', Some SNull)]) @
      [(''tx'', Some (SText tx))])"

definition source_row :: "jobj \<Rightarrow> string \<Rightarrow> row option" where
  "source_row e tx = row_of
     [(''source'', f_text e ''source''), (''key_id'', f_text e ''key_id''), (''public'', f_text e ''public''), (''owner'', f_text e ''owner''),
      (''tx'', Some (SText tx))]"

text \<open>An action stands under the hash of the canonical text of its pointer.\<close>

definition action_row :: "node_crypto \<Rightarrow> jobj \<Rightarrow> string \<Rightarrow> row option" where
  "action_row nc e tx =
     (case (Option.bind (jget e ''pointer'') (\<lambda>p. case canonicalJson p of Inl _ \<Rightarrow> None | Inr t \<Rightarrow> Some (sha256hex nc (utf8 t))),
            jget e ''nativeRef'') of
        (Some key, Some nat_ref) \<Rightarrow>
          if nat_ref = JNull then None
          else row_of
            [(''key'', Some (SText key)),
             (''object_id'', Some (SText (case nat_ref of
                JObj u \<Rightarrow> (case str_at u ''object_id'' (\<lambda>_. True) of Some i \<Rightarrow> i | None \<Rightarrow> []) | _ \<Rightarrow> []))),
             (''pointer_json'', f_json e ''pointer''), (''native_json'', f_json e ''nativeRef''), (''previous_json'', f_json_or_null e ''previous''),
             (''principal'', f_text e ''principal''), (''method'', f_text e ''method''), (''tx'', Some (SText tx))]
      | _ \<Rightarrow> None)"

definition peer_row :: "jobj \<Rightarrow> string \<Rightarrow> row option" where
  "peer_row e tx = row_of [(''id'', f_text e ''id''), (''state'', f_text e ''state''), (''tx'', Some (SText tx))]"

definition put_kv :: "jobj \<Rightarrow> unit registry_op" where
  "put_kv e s =
     (case jget e ''key'' of
        Some (JStr k) \<Rightarrow>
          if k = ''last_indexed_tx'' then (Inr (), s)
          else (case jget e ''value'' of
                  Some JNull \<Rightarrow> (Inr (), kvDelete k s)
                | Some (JStr v) \<Rightarrow> (Inr (), kvSet k v s)
                | _ \<Rightarrow> (Inl Thrown, s))
      | _ \<Rightarrow> (Inl Thrown, s))"

definition put_doc :: "jobj \<Rightarrow> string \<Rightarrow> unit registry_op" where
  "put_doc e tx s =
     (let r = row_of [(''kind'', f_text e ''kind''), (''id'', f_text e ''id''), (''doc_json'', f_json e ''doc''), (''tx'', Some (SText tx))] in
      if jget e ''doc'' = Some JNull
      then (case r of None \<Rightarrow> (Inl Thrown, s) | Some q \<Rightarrow> (Inr (), to_tables (delete_rows ''docs'' (same_key [''kind'', ''id''] q)) s))
      else put_row ''docs'' [''kind'', ''id''] r s)"

definition bootstrap_row :: "jobj \<Rightarrow> string \<Rightarrow> row option" where
  "bootstrap_row e tx = row_of
     [(''hash'', f_text e ''hash''), (''role'', f_text e ''role''), (''expires_ms'', f_int e ''expires_ms''),
      (''consumed'', Some (flag (jget e ''consumed'' = Some (JBool True)))), (''epoch'', f_text_opt e ''epoch'' (SText [])), (''tx'', Some (SText tx))]"

text \<open>The one-use consume; whether a row changed is recorded under the transaction.\<close>

definition bootstrap_take :: "jobj \<Rightarrow> string \<Rightarrow> unit registry_op" where
  "bootstrap_take u tx s =
     (case (f_text u ''hash'', if jget u ''epoch'' = None then Some None else map_option Some (f_text u ''epoch'')) of
        (Some h, Some ep) \<Rightarrow>
          let p = (\<lambda>r. col r ''hash'' = h \<and> col r ''consumed'' = SInt 0 \<and> (case ep of None \<Rightarrow> True | Some e \<Rightarrow> col r ''epoch'' = e));
              took = list_ex p (rows (rg_data s) ''bootstraps'');
              s1 = to_tables (update_rows ''bootstraps'' p (\<lambda>r. set_col ''tx'' (SText tx) (set_col ''consumed'' (SInt 1) r))) s in
          (Inr (), kvSet (''bootstrap:took:'' @ tx) (if took then ''1'' else ''0'') s1)
      | _ \<Rightarrow> (Inl Thrown, s))"

section \<open>Lifecycle generations and the catalog\<close>

definition GENERATION_KEY :: "string list" where "GENERATION_KEY = [''slug'', ''generation'']"

definition row_active :: "json \<Rightarrow> bool" where
  "row_active v = (case v of JObj u \<Rightarrow> jget u ''active'' = Some (JBool True) \<or> jget u ''active'' = Some (JNum 1) | _ \<Rightarrow> False)"

definition put_generation :: "jobj \<Rightarrow> string \<Rightarrow> unit registry_op" where
  "put_generation e tx =
     put_row ''lifecycle_generations'' GENERATION_KEY
       (case jget e ''row'' of
          Some v \<Rightarrow>
            if v = JNull then None
            else row_of [(''slug'', f_text e ''slug''), (''generation'', f_text e ''generation''), (''active'', Some (flag (row_active v))),
                         (''row_json'', Some (SText (JSON_stringify v))), (''tx'', Some (SText tx))]
        | None \<Rightarrow> None)"

text \<open>\<open>row.active = b\<close> in the stored document of a row.\<close>

definition with_active :: "bool \<Rightarrow> row \<Rightarrow> sqlval option" where
  "with_active b r =
     (case col r ''row_json'' of
        SText t \<Rightarrow>
          (case JSON_parse t of Some (JObj u) \<Rightarrow> Some (SText (JSON_stringify (JObj (aput ''active'' (JBool b) u)))) | _ \<Rightarrow> None)
      | _ \<Rightarrow> None)"

definition set_active :: "bool \<Rightarrow> string \<Rightarrow> row \<Rightarrow> unit registry_op" where
  "set_active b tx r s =
     (case with_active b r of
        None \<Rightarrow> (Inl Thrown, s)
      | Some doc \<Rightarrow>
          (Inr (), to_tables (update_rows ''lifecycle_generations'' (same_key GENERATION_KEY r)
             (\<lambda>q. set_col ''tx'' (SText tx) (set_col ''row_json'' doc (set_col ''active'' (flag b) q)))) s))"

text \<open>The row of the active generation of a slug, if there is one, and the row of a generation.\<close>

definition active_generation :: "sqlval \<Rightarrow> registry \<Rightarrow> row option" where
  "active_generation slug s =
     find (\<lambda>r. col r ''slug'' = slug \<and> col r ''active'' = SInt 1) (rows (rg_data s) ''lifecycle_generations'')"

definition generation_row :: "sqlval \<Rightarrow> sqlval \<Rightarrow> registry \<Rightarrow> row option" where
  "generation_row slug g s =
     find (\<lambda>r. col r ''slug'' = slug \<and> col r ''generation'' = g) (rows (rg_data s) ''lifecycle_generations'')"

text \<open>The compare-and-set of the active pointer: \<open>expected\<close> and \<open>nxt\<close> are null or a generation.\<close>

definition cas_generation :: "sqlval \<Rightarrow> sqlval \<Rightarrow> sqlval \<Rightarrow> string \<Rightarrow> bool registry_op" where
  "cas_generation slug expected nxt tx s =
     (let cur = active_generation slug s; current = (case cur of None \<Rightarrow> SNull | Some r \<Rightarrow> col r ''generation'');
          target = (if nxt = SNull then None else generation_row slug nxt s) in
      if current \<noteq> expected \<or> nxt \<noteq> SNull \<and> target = None then (Inr False, s)
      else (case (case cur of None \<Rightarrow> (Inr (), s) | Some r \<Rightarrow> set_active False tx r s) of
              (Inl e, s1) \<Rightarrow> (Inl e, s1)
            | (Inr _, s1) \<Rightarrow>
                (case (case target of None \<Rightarrow> (Inr (), s1) | Some r \<Rightarrow> set_active True tx r s1) of
                   (Inl e, s2) \<Rightarrow> (Inl e, s2)
                 | (Inr _, s2) \<Rightarrow> (Inr True, s2))))"

definition bump_revision :: "unit registry_op" where
  "bump_revision s =
     (let v = kv_or ''lifecycle:revision'' ''0'' s in
      if rx_test RX_COUNT v then (Inr (), kvSet ''lifecycle:revision'' (dec_str (dec_val v + 1)) s) else (Inl Thrown, s))"

text \<open>The loop over the entries of a list field; an entry that is no object has no fields.\<close>

fun each_entry :: "(jobj \<Rightarrow> unit registry_op) \<Rightarrow> json list \<Rightarrow> unit registry_op" where
  "each_entry f [] s = (Inr (), s)"
| "each_entry f (v # vs) s =
     (case v of
        JObj e \<Rightarrow> (case f e s of (Inl err, s1) \<Rightarrow> (Inl err, s1) | (Inr _, s1) \<Rightarrow> each_entry f vs s1)
      | _ \<Rightarrow> (Inl Thrown, s))"

definition each_of :: "jobj \<Rightarrow> string \<Rightarrow> (jobj \<Rightarrow> unit registry_op) \<Rightarrow> unit registry_op" where
  "each_of u k f s = (case jget u k of Some (JArr vs) \<Rightarrow> each_entry f vs s | _ \<Rightarrow> (Inl Thrown, s))"

definition apply_cas :: "jobj \<Rightarrow> string \<Rightarrow> unit registry_op" where
  "apply_cas u tx s =
     (case jget u ''cas'' of
        None \<Rightarrow> (Inr (), s)
      | Some (JObj c) \<Rightarrow>
          (case (f_text c ''slug'', f_text_null c ''expected'', f_text_null c ''next'') of
             (Some slug, Some expected, Some nxt) \<Rightarrow>
               (case cas_generation slug expected nxt tx s of
                  (Inl e, s1) \<Rightarrow> (Inl e, s1)
                | (Inr ok, s1) \<Rightarrow> (Inr (), kvSet (''lifecycle:cas:'' @ tx) (if ok then ''1'' else ''0'') s1))
           | _ \<Rightarrow> (Inl Thrown, s))
      | Some _ \<Rightarrow> (Inl Thrown, s))"

definition apply_lifecycle :: "jobj \<Rightarrow> string \<Rightarrow> unit registry_op" where
  "apply_lifecycle u tx s =
     (let ups = (case jget u ''upserts'' of None \<Rightarrow> Some [] | Some JNull \<Rightarrow> Some [] | Some (JArr vs) \<Rightarrow> Some vs | _ \<Rightarrow> None) in
      case ups of
        None \<Rightarrow> (Inl Thrown, s)
      | Some vs \<Rightarrow>
          (case each_entry (\<lambda>e. put_generation e tx) vs s of
             (Inl e, s1) \<Rightarrow> (Inl e, s1)
           | (Inr _, s1) \<Rightarrow>
               (case apply_cas u tx s1 of
                  (Inl e, s2) \<Rightarrow> (Inl e, s2)
                | (Inr _, s2) \<Rightarrow> if vs \<noteq> [] \<or> jget u ''cas'' \<noteq> None then bump_revision s2 else (Inr (), s2))))"

definition catalogMeta :: "registry \<Rightarrow> string option \<times> string option" where
  "catalogMeta s = (case rg_catalog s of None \<Rightarrow> (None, None) | Some c \<Rightarrow> c)"

text \<open>A field of the catalog mutation: kept when absent, null or text.\<close>

definition catalog_field :: "jobj \<Rightarrow> string \<Rightarrow> string option \<Rightarrow> string option option" where
  "catalog_field u k cur =
     (case jget u k of None \<Rightarrow> Some cur | Some JNull \<Rightarrow> Some None | Some (JStr t) \<Rightarrow> Some (Some t) | _ \<Rightarrow> None)"

definition apply_catalog :: "jobj \<Rightarrow> unit registry_op" where
  "apply_catalog u s =
     (case (catalog_field u ''highest_revision'' (fst (catalogMeta s)), catalog_field u ''hash'' (snd (catalogMeta s))) of
        (Some a, Some b) \<Rightarrow> (Inr (), s\<lparr>rg_catalog := Some (a, b)\<rparr>)
      | _ \<Rightarrow> (Inl Thrown, s))"

section \<open>The reducer\<close>

definition apply_kind :: "node_crypto \<Rightarrow> resolver \<Rightarrow> marker \<Rightarrow> string \<Rightarrow> string \<Rightarrow> jobj \<Rightarrow> unit registry_op" where
  "apply_kind nc rs mk tx kind u =
     (if kind = ''noop'' then (\<lambda>s. (Inr (), s))
      else if kind = ''events'' then each_of u ''events'' (\<lambda>e. if isEventEntryV2 e then upsertEventV2 rs mk e tx else upsertEvent e tx)
      else if kind = ''native_objects'' then each_of u ''objects'' (\<lambda>e. put_row ''native_objects''
        [''profile'', ''namespace'', ''type'', ''object_id'', ''commitment''] (native_object_row e tx))
      else if kind = ''cursors'' then each_of u ''cursors'' (\<lambda>e. put_row ''transport_cursors'' [''instance'', ''cursor''] (cursor_row e tx))
      else if kind = ''runs'' then each_of u ''runs'' (\<lambda>e. put_run e tx)
      else if kind = ''products'' then each_of u ''products'' (\<lambda>e. put_product e tx)
      else if kind = ''operations'' then each_of u ''operations'' (\<lambda>e. put_operation e tx)
      else if kind = ''approvals'' then each_of u ''approvals'' (\<lambda>e. put_row ''approvals'' [''home'', ''request'', ''revision''] (approval_row e tx))
      else if kind = ''grants'' then each_of u ''grants'' (\<lambda>e. put_row ''grants'' [''peer'', ''key'', ''revision''] (grant_row e tx))
      else if kind = ''outbox'' then each_of u ''items'' (\<lambda>e. put_row ''outbox'' [''id''] (outbox_row e tx))
      else if kind = ''pairs'' then each_of u ''pairs'' (\<lambda>e. put_row ''pairs'' [''peer'', ''key''] (pair_row e tx))
      else if kind = ''subscriptions'' then each_of u ''subscriptions'' (\<lambda>e. put_row ''subscriptions'' [''id''] (subscription_row e tx))
      else if kind = ''sources'' then each_of u ''sources'' (\<lambda>e. put_row ''sources'' [''source''] (source_row e tx))
      else if kind = ''actions'' then each_of u ''actions'' (\<lambda>e. put_row ''actions'' [''key''] (action_row nc e tx))
      else if kind = ''peers'' then each_of u ''peers'' (\<lambda>e. put_row ''peers'' [''id''] (peer_row e tx))
      else if kind = ''kv'' then each_of u ''entries'' put_kv
      else if kind = ''docs'' then each_of u ''docs'' (\<lambda>e. put_doc e tx)
      else if kind = ''bootstraps'' then each_of u ''bootstraps'' (\<lambda>e. put_row ''bootstraps'' [''hash''] (bootstrap_row e tx))
      else if kind = ''bootstrap_take'' then bootstrap_take u tx
      else if kind = ''lifecycle'' then apply_lifecycle u tx
      else if kind = ''catalog'' then apply_catalog u
      else (\<lambda>s. (Inl MUTATION_UNKNOWN, s)))"

text \<open>The kind of a version 1 mutation.\<close>

definition mutation_kind :: "jobj \<Rightarrow> string option" where
  "mutation_kind u = (if jget u ''v'' = Some (JNum 1) then str_at u ''kind'' (\<lambda>_. True) else None)"

lemma jget_size: "jget u k = Some (JArr vs) \<Longrightarrow> size_list size vs < size (JObj u)"
  by (induction u) (auto simp: jget_def split: if_splits prod.splits)

function applyMutation :: "node_crypto \<Rightarrow> resolver \<Rightarrow> marker \<Rightarrow> string \<Rightarrow> json \<Rightarrow> unit registry_op"
and applyBatch :: "node_crypto \<Rightarrow> resolver \<Rightarrow> marker \<Rightarrow> string \<Rightarrow> json list \<Rightarrow> unit registry_op" where
  "applyMutation nc rs mk tx v s =
     (case v of
        JObj u \<Rightarrow>
          (case mutation_kind u of
             None \<Rightarrow> (Inl MUTATION_UNKNOWN, s)
           | Some kind \<Rightarrow>
               if kind = ''batch''
               then (case jget u ''mutations'' of Some (JArr vs) \<Rightarrow> applyBatch nc rs mk tx vs s | _ \<Rightarrow> (Inl Thrown, s))
               else apply_kind nc rs mk tx kind u s)
      | _ \<Rightarrow> (Inl MUTATION_UNKNOWN, s))"
| "applyBatch nc rs mk tx [] s = (Inr (), s)"
| "applyBatch nc rs mk tx (v # vs) s =
     (case applyMutation nc rs mk tx v s of
        (Inl e, s1) \<Rightarrow> (Inl e, s1)
      | (Inr _, s1) \<Rightarrow> applyBatch nc rs mk tx vs s1)"
  by pat_completeness auto
termination applyMutation
  by (relation "measure (\<lambda>x. case x of Inl (_, _, _, _, v, _) \<Rightarrow> 2 * size v | Inr (_, _, _, _, vs, _) \<Rightarrow> 2 * size_list size vs + 1)")
    (auto dest!: jget_size)

declare applyMutation.simps [simp del]

section \<open>Commits\<close>

text \<open>The cursors of the records of a marker, under the instance of the registry.\<close>

fun index_cursors :: "resolver \<Rightarrow> string \<Rightarrow> locator list \<Rightarrow> registry \<Rightarrow> registry" where
  "index_cursors rs tx [] s = s"
| "index_cursors rs tx (r # rest) s =
     index_cursors rs tx rest
       (case rs r of
          None \<Rightarrow> s
        | Some (c, _, _) \<Rightarrow>
            if c = [] then s
            else to_tables (insert_or_replace ''transport_cursors'' [''instance'', ''cursor'']
              [(''instance'', SText (kv_or ''instance_id'' [] s)), (''cursor'', SText c), (''lane'', SText (lo_lane r)),
               (''segment'', SText (lo_segment r)), (''offset'', SInt (int (lo_offset r))), (''length'', SInt (int (lo_length r))),
               (''raw_sha256'', SText (lo_raw r)), (''tx'', SText tx)]) s)"

definition apply_marker :: "node_crypto \<Rightarrow> resolver \<Rightarrow> marker \<Rightarrow> unit registry_op" where
  "apply_marker nc rs mk s =
     (case applyMutation nc rs mk (mk_tx mk) (mk_mutation mk) (index_cursors rs (mk_tx mk) (mk_records mk) s) of
        (Inl e, s1) \<Rightarrow> (Inl e, s1)
      | (Inr _, s1) \<Rightarrow> (Inr (), kvSet ''last_indexed_tx'' (mk_tx mk) s1))"

fun apply_markers :: "node_crypto \<Rightarrow> resolver \<Rightarrow> marker list \<Rightarrow> unit registry_op" where
  "apply_markers nc rs [] s = (Inr (), s)"
| "apply_markers nc rs (mk # mks) s =
     (case apply_marker nc rs mk s of
        (Inl e, s1) \<Rightarrow> (Inl e, s1)
      | (Inr _, s1) \<Rightarrow> apply_markers nc rs mks s1)"

text \<open>\<open>inTx\<close>: an exception rolls every change back.\<close>

definition inTx :: "unit registry_op \<Rightarrow> unit registry_op" where
  "inTx f s = (case f s of (Inl e, _) \<Rightarrow> (Inl e, s) | (Inr u, s1) \<Rightarrow> (Inr u, s1))"

definition applyCommit :: "node_crypto \<Rightarrow> resolver \<Rightarrow> marker \<Rightarrow> unit registry_op" where
  "applyCommit nc rs mk = inTx (apply_marker nc rs mk)"

definition rebuildFromJournal :: "node_crypto \<Rightarrow> resolver \<Rightarrow> marker list \<Rightarrow> unit registry_op" where
  "rebuildFromJournal nc rs mks =
     inTx (\<lambda>s. case apply_markers nc rs mks (s\<lparr>rg_data := []\<rparr>) of
       (Inl e, s1) \<Rightarrow> (Inl e, s1)
     | (Inr u, s1) \<Rightarrow> (Inr u, if mks = [] then kvSet ''last_indexed_tx'' ''0'' s1 else s1))"

section \<open>Queries\<close>

definition select_rows :: "string \<Rightarrow> (row \<Rightarrow> bool) \<Rightarrow> registry \<Rightarrow> row list" where
  "select_rows t p s = filter p (rows (rg_data s) t)"

definition select_one :: "string \<Rightarrow> (row \<Rightarrow> bool) \<Rightarrow> registry \<Rightarrow> row option" where
  "select_one t p s = find p (rows (rg_data s) t)"

definition where_text :: "(string \<times> string) list \<Rightarrow> row \<Rightarrow> bool" where
  "where_text cs r \<longleftrightarrow> list_all (\<lambda>(c, v). col r c = SText v) cs"

definition text_of :: "sqlval \<Rightarrow> string" where
  "text_of v = (case v of SText t \<Rightarrow> t | SInt i \<Rightarrow> int_str i | SNull \<Rightarrow> [])"

definition int_of_val :: "sqlval \<Rightarrow> int" where
  "int_of_val v = (case v of SInt i \<Rightarrow> i | _ \<Rightarrow> 0)"

text \<open>\<open>ORDER BY c\<close> on a text column compares characters, and so does \<open>DESC\<close>.\<close>

definition order_by :: "string \<Rightarrow> row list \<Rightarrow> row list" where
  "order_by c rs = sort_key (\<lambda>r. text_of (col r c)) rs"

definition order_by_desc :: "string \<Rightarrow> row list \<Rightarrow> row list" where
  "order_by_desc c rs = rev (sort_key (\<lambda>r. text_of (col r c)) (rev rs))"

text \<open>\<open>ORDER BY LENGTH(c), c\<close>\<close>

definition order_by_number :: "string \<Rightarrow> row list \<Rightarrow> row list" where
  "order_by_number c rs = sort_key (\<lambda>r. length (text_of (col r c))) (order_by c rs)"

definition eventSlotCandidates :: "string \<Rightarrow> string \<Rightarrow> string \<Rightarrow> string \<Rightarrow> registry \<Rightarrow> row list" where
  "eventSlotCandidates w src str sq s = order_by ''hash'' (select_rows ''events''
     (where_text [(''workspace'', w), (''source'', src), (''stream'', str), (''seq'', sq)]) s)"

definition nativeObjectCandidates :: "string \<Rightarrow> string \<Rightarrow> string \<Rightarrow> string \<Rightarrow> registry \<Rightarrow> row list" where
  "nativeObjectCandidates p ns ty oid s = order_by ''commitment'' (select_rows ''native_objects''
     (where_text [(''profile'', p), (''namespace'', ns), (''type'', ty), (''object_id'', oid)]) s)"

definition cursorLookup :: "string \<Rightarrow> string \<Rightarrow> registry \<Rightarrow> row option" where
  "cursorLookup i c = select_one ''transport_cursors'' (where_text [(''instance'', i), (''cursor'', c)])"

definition runLookup :: "string \<Rightarrow> string \<Rightarrow> registry \<Rightarrow> row option" where
  "runLookup ns u = select_one ''runs'' (where_text [(''legacy_namespace'', ns), (''ulid'', u)])"

definition operationLookup :: "string \<Rightarrow> string \<Rightarrow> registry \<Rightarrow> row option" where
  "operationLookup p i = select_one ''operations'' (where_text [(''principal'', p), (''id'', i)])"

definition head_row :: "row list \<Rightarrow> row option" where
  "head_row rs = (case rs of [] \<Rightarrow> None | r # _ \<Rightarrow> Some r)"

definition operationByRequestHash :: "string \<Rightarrow> registry \<Rightarrow> row option" where
  "operationByRequestHash h s = head_row (order_by_desc ''tx'' (select_rows ''operations'' (where_text [(''request_hash'', h)]) s))"

definition activeProduct :: "string \<Rightarrow> string \<Rightarrow> registry \<Rightarrow> row option" where
  "activeProduct slug i = select_one ''products'' (\<lambda>r. where_text [(''slug'', slug), (''instance'', i)] r \<and> col r ''active'' = SInt 1)"

definition approvalLookup :: "string \<Rightarrow> string \<Rightarrow> registry \<Rightarrow> row list" where
  "approvalLookup h r s = order_by_desc ''revision'' (select_rows ''approvals'' (where_text [(''home'', h), (''request'', r)]) s)"

definition grantLookup :: "string \<Rightarrow> string \<Rightarrow> registry \<Rightarrow> row list" where
  "grantLookup p k s = order_by_desc ''revision'' (select_rows ''grants'' (where_text [(''peer'', p), (''key'', k)]) s)"

definition outboxGet :: "string \<Rightarrow> registry \<Rightarrow> row option" where
  "outboxGet i = select_one ''outbox'' (where_text [(''id'', i)])"

definition outboxUpsert :: "row \<Rightarrow> registry \<Rightarrow> registry" where
  "outboxUpsert r = to_tables (insert_or_replace ''outbox'' [''id''] r)"

definition eventByCursor :: "string \<Rightarrow> registry \<Rightarrow> row option" where
  "eventByCursor c = select_one ''events'' (where_text [(''cursor'', c)])"

definition eventLane :: "string \<Rightarrow> string \<Rightarrow> string \<Rightarrow> registry \<Rightarrow> row list" where
  "eventLane w src str s = order_by_number ''seq'' (select_rows ''events'' (where_text [(''workspace'', w), (''source'', src), (''stream'', str)]) s)"

definition eventsAfter :: "int \<Rightarrow> nat \<Rightarrow> registry \<Rightarrow> row list" where
  "eventsAfter n limit s = take limit (sort_key (\<lambda>r. int_of_val (col r ''record_order''))
     (select_rows ''events'' (\<lambda>r. case col r ''record_order'' of SInt i \<Rightarrow> n < i | _ \<Rightarrow> False) s))"

definition eventsByTopic :: "string \<Rightarrow> registry \<Rightarrow> row list" where
  "eventsByTopic t s = sort_key (\<lambda>r. int_of_val (col r ''record_order'')) (select_rows ''events'' (where_text [(''topic'', t)]) s)"

definition row_by_id :: "string \<Rightarrow> string \<Rightarrow> string \<Rightarrow> registry \<Rightarrow> row option" where
  "row_by_id t c i = select_one t (where_text [(c, i)])"

definition subscriptionsV2ByOwner :: "string \<Rightarrow> registry \<Rightarrow> row list" where
  "subscriptionsV2ByOwner ow = select_rows ''subscriptions'' (where_text [(''owner'', ow)])"

definition actionByObjectId :: "string \<Rightarrow> registry \<Rightarrow> row option" where
  "actionByObjectId i s = head_row (order_by_desc ''tx'' (select_rows ''actions'' (where_text [(''object_id'', i)]) s))"

definition countProductsInstalled :: "registry \<Rightarrow> nat" where
  "countProductsInstalled s = length (remdups (map (\<lambda>r. col r ''slug'') (select_rows ''lifecycle_generations''
     (\<lambda>r. col r ''active'' = SInt 1 \<and>
        (case Option.bind (case col r ''row_json'' of SText t \<Rightarrow> JSON_parse t | _ \<Rightarrow> None) (\<lambda>v. case v of JObj u \<Rightarrow> jget u ''state'' | _ \<Rightarrow> None) of
           None \<Rightarrow> False | Some JNull \<Rightarrow> False | Some v \<Rightarrow> v \<noteq> JStr ''REMOVED'' \<and> v \<noteq> JStr ''FAILED'')) s)))"

definition docGet :: "string \<Rightarrow> string \<Rightarrow> registry \<Rightarrow> row option" where
  "docGet k i = select_one ''docs'' (where_text [(''kind'', k), (''id'', i)])"

definition docsList :: "string \<Rightarrow> registry \<Rightarrow> row list" where
  "docsList k = select_rows ''docs'' (where_text [(''kind'', k)])"

definition countPeers :: "registry \<Rightarrow> nat" where
  "countPeers s = length (docsList ''peer'' s)"

definition lifecycleGenerations :: "string \<Rightarrow> registry \<Rightarrow> row list" where
  "lifecycleGenerations slug s = order_by_number ''generation'' (select_rows ''lifecycle_generations'' (where_text [(''slug'', slug)]) s)"

definition lifecycleGenerationsAll :: "registry \<Rightarrow> row list" where
  "lifecycleGenerationsAll s = order_by ''slug'' (order_by_number ''generation'' (rows (rg_data s) ''lifecycle_generations''))"

definition lifecycleRevision :: "registry \<Rightarrow> string" where
  "lifecycleRevision s = kv_or ''lifecycle:revision'' ''0'' s"

definition bootstrapConsume :: "string \<Rightarrow> string \<Rightarrow> registry \<Rightarrow> row option \<times> registry" where
  "bootstrapConsume h tx s =
     (let p = (\<lambda>r. where_text [(''hash'', h)] r \<and> col r ''consumed'' = SInt 0);
          s1 = to_tables (update_rows ''bootstraps'' p (\<lambda>r. set_col ''tx'' (SText tx) (set_col ''consumed'' (SInt 1) r))) s in
      if list_ex p (rows (rg_data s) ''bootstraps'') then (row_by_id ''bootstraps'' ''hash'' h s1, s1) else (None, s))"

end
