(* ===== verification/Store_Recovery.thy ===== *)
theory Store_Recovery
  imports Store_Recover Store_Registry
begin

text \<open>
  Model of \<open>gateway-daemon/src/store/recovery.ts\<close>: the recovery of a whole state root.  The journal
  is verified, every lane is recovered against the extents its markers commit, the index of the
  committed records is derived from markers and segment geometry, and the registry is brought up
  to date.  The disk is a value; a registry file that SQLite cannot open is \<open>None\<close>.
\<close>

section \<open>The disk\<close>

record store_disk =
  sd_journal :: "string option"
  sd_tails :: "string list"
  sd_lanes :: "(string \<times> files) list"
  sd_quarantine :: files
  sd_objects :: files
  sd_registry :: "registry option"
  sd_evidence :: "registry option list"

definition LEGACY :: string where "LEGACY = ''legacy''"

text \<open>The directories that recovery relies on; the other directories of the layout hold no state of the store.\<close>

definition ensureLayout :: "store_disk \<Rightarrow> store_disk" where
  "ensureLayout d = (if map_of (sd_lanes d) LEGACY = None then d\<lparr>sd_lanes := sd_lanes d @ [(LEGACY, [])]\<rparr> else d)"

definition discoverLanes :: "store_disk \<Rightarrow> (string \<times> files) list" where
  "discoverLanes d = filter (\<lambda>(k, _). k = LEGACY) (sd_lanes d) @ sort_key fst (filter (\<lambda>(k, _). prefix ''proof/'' k) (sd_lanes d))"

definition readLaneOrdinal :: "files \<Rightarrow> nat option" where
  "readLaneOrdinal fs =
     (case read_obj fs LANE_META_FILE of
        None \<Rightarrow> None
      | Some u \<Rightarrow> map_option (radix_val 16) (str_at u ''ordinal'' (rx_test (RTimes 16 (RCls is_hex)))))"

section \<open>Committed extents\<close>

datatype store_reason = JournalReason jv_reason | LaneReason corrupt_reason | ConflictingLocators nat | OverlappingRecords nat
  | LaneDirectoryMissing | CommittedSegmentMissing | LaneWithoutIdentity string | SegmentMissingOnDisk string | NoLineBoundary nat

type_synonym corrupt = "(string \<times> store_reason) list"
type_synonym extents = "(string \<times> (string \<times> extent list) list) list"

definition segments_of :: "extents \<Rightarrow> string \<Rightarrow> (string \<times> extent list) list" where
  "segments_of ext lane = (case map_of ext lane of None \<Rightarrow> [] | Some segs \<Rightarrow> segs)"

definition extent_of :: "locator \<Rightarrow> extent" where
  "extent_of r = \<lparr>ex_offset = lo_offset r, ex_length = lo_length r, ex_raw = lo_raw r\<rparr>"

definition add_extent :: "locator \<Rightarrow> extents \<Rightarrow> extents" where
  "add_extent r ext =
     (let segs = segments_of ext (lo_lane r); ls = (case map_of segs (lo_segment r) of None \<Rightarrow> [] | Some ls \<Rightarrow> ls) in
      aput (lo_lane r) (aput (lo_segment r) (ls @ [extent_of r]) segs) ext)"

text \<open>The loop over the sorted locators of a segment: a repetition collapses, a contradiction is corruption.\<close>

fun dedup_extents :: "string \<Rightarrow> extent list \<Rightarrow> extent list \<Rightarrow> extent list \<times> corrupt" where
  "dedup_extents w acc [] = (acc, [])"
| "dedup_extents w acc (l # ls) =
     (if acc \<noteq> [] \<and> ex_offset (last acc) = ex_offset l then
        (case dedup_extents w acc ls of (ds, cs) \<Rightarrow>
           (ds, (if ex_length (last acc) \<noteq> ex_length l \<or> ex_raw (last acc) \<noteq> ex_raw l then [(w, ConflictingLocators (ex_offset l))] else []) @ cs))
      else if acc \<noteq> [] \<and> ex_offset l < ex_offset (last acc) + ex_length (last acc) then
        (case dedup_extents w acc ls of (ds, cs) \<Rightarrow> (ds, (w, OverlappingRecords (ex_offset l)) # cs))
      else dedup_extents w (acc @ [l]) ls)"

definition marker_records :: "marker list \<Rightarrow> locator list" where
  "marker_records ms = concat (map mk_records ms)"

definition raw_extents :: "marker list \<Rightarrow> extents" where
  "raw_extents ms = fold add_extent (marker_records ms) []"

definition seg_dedup :: "string \<Rightarrow> string \<times> extent list \<Rightarrow> extent list \<times> corrupt" where
  "seg_dedup lane s = dedup_extents (lane @ ''/'' @ fst s) [] (sort_key ex_offset (snd s))"

definition committedExtents :: "marker list \<Rightarrow> extents \<times> corrupt" where
  "committedExtents ms =
     (let ext = raw_extents ms in
      (map (\<lambda>(lane, segs). (lane, map (\<lambda>s. (fst s, fst (seg_dedup lane s))) segs)) ext,
       concat (map (\<lambda>(lane, segs). concat (map (\<lambda>s. snd (seg_dedup lane s)) segs)) ext)))"

section \<open>The index of the committed records\<close>

record indexed_locator =
  il_rec :: locator
  il_cursor :: string
  il_ordinal :: nat
  il_order :: nat

record index_segment =
  ls_segment :: string
  ls_ordinal :: nat
  ls_locators :: "indexed_locator list"
  ls_end :: nat

record lane_index =
  li_lane :: string
  li_ordinal :: nat
  li_segments :: "(string \<times> index_segment) list"
  li_total :: nat

type_synonym index = "(string \<times> lane_index) list"

definition new_segment :: "string \<Rightarrow> index_segment" where
  "new_segment name = \<lparr>ls_segment = name, ls_ordinal = (case segmentOrdinalOf name of None \<Rightarrow> 0 | Some n \<Rightarrow> n), ls_locators = [], ls_end = 0\<rparr>"

definition new_lane :: "string \<Rightarrow> nat \<Rightarrow> lane_index" where
  "new_lane lane n = \<lparr>li_lane = lane, li_ordinal = n, li_segments = [], li_total = 0\<rparr>"

definition lane_segment :: "lane_index \<Rightarrow> string \<Rightarrow> index_segment" where
  "lane_segment li name = (case map_of (li_segments li) name of None \<Rightarrow> new_segment name | Some s \<Rightarrow> s)"

text \<open>A locator enters its segment at the end.\<close>

definition push_locator :: "locator \<Rightarrow> string \<Rightarrow> nat \<Rightarrow> nat \<Rightarrow> lane_index \<Rightarrow> lane_index" where
  "push_locator r cursor ord n li =
     (let s = lane_segment li (lo_segment r) in
      li\<lparr>li_total := li_total li + 1,
         li_segments := aput (lo_segment r)
           (s\<lparr>ls_locators := ls_locators s @ [\<lparr>il_rec = r, il_cursor = cursor, il_ordinal = ord, il_order = n\<rparr>],
              ls_end := max (ls_end s) (lo_offset r + lo_length r)\<rparr>) (li_segments li)\<rparr>)"

text \<open>The ordinal that the recovered geometry gives a record, or why it has none.\<close>

definition derive_ordinal :: "(string \<times> lane_report) list \<Rightarrow> string \<Rightarrow> locator \<Rightarrow> store_reason + nat" where
  "derive_ordinal reps tx r =
     (case Option.bind (map_of reps (lo_lane r)) (\<lambda>rep. find (\<lambda>s. si_segment s = lo_segment r) (rv_segments rep)) of
        None \<Rightarrow> Inl (SegmentMissingOnDisk tx)
      | Some i \<Rightarrow>
          let k = lineIndexOf (si_line_offsets i) (lo_offset r) in
          if k < 0 then Inl (NoLineBoundary (lo_offset r)) else Inr (si_written_base i + nat k + 1))"

definition seen_locator :: "lane_index \<Rightarrow> locator \<Rightarrow> bool" where
  "seen_locator li r \<longleftrightarrow>
     list_ex (\<lambda>l. lo_offset (il_rec l) = lo_offset r \<and> lo_length (il_rec l) = lo_length r) (ls_locators (lane_segment li (lo_segment r)))"

record index_state =
  ix_index :: index
  ix_corrupt :: corrupt
  ix_count :: nat

definition index_in_lane :: "(string \<times> lane_report) list \<Rightarrow> string \<Rightarrow> locator \<Rightarrow> lane_index \<Rightarrow> index_state \<Rightarrow> index_state" where
  "index_in_lane reps tx r li s =
     (let w = lo_lane r @ ''/'' @ lo_segment r;
          (ord, cs) = (case derive_ordinal reps tx r of Inl why \<Rightarrow> (0, [(w, why)]) | Inr n \<Rightarrow> (n, [])) in
      if seen_locator li r then s\<lparr>ix_corrupt := ix_corrupt s @ cs\<rparr>
      else \<lparr>ix_index = aput (lo_lane r)
              (push_locator r (if 0 < ord then lane_cursor (li_ordinal li) ord else []) ord (ix_count s + 1) li) (ix_index s),
            ix_corrupt = ix_corrupt s @ cs, ix_count = ix_count s + 1\<rparr>)"

definition index_step :: "(string \<times> nat) list \<Rightarrow> (string \<times> lane_report) list \<Rightarrow> string \<times> locator \<Rightarrow> index_state \<Rightarrow> index_state" where
  "index_step ords reps tr s =
     (case tr of (tx, r) \<Rightarrow>
        (case map_of (ix_index s) (lo_lane r) of
           Some li \<Rightarrow> index_in_lane reps tx r li s
         | None \<Rightarrow>
             (case map_of ords (lo_lane r) of
                None \<Rightarrow> s\<lparr>ix_corrupt := ix_corrupt s @ [(lo_lane r, LaneWithoutIdentity tx)],
                         ix_index := aput (lo_lane r) (new_lane (lo_lane r) 0) (ix_index s)\<rparr>
              | Some n \<Rightarrow> index_in_lane reps tx r (new_lane (lo_lane r) n) s)))"

definition tx_records :: "marker list \<Rightarrow> (string \<times> locator) list" where
  "tx_records ms = concat (map (\<lambda>m. map (Pair (mk_tx m)) (mk_records m)) ms)"

definition sort_segment :: "index_segment \<Rightarrow> index_segment" where
  "sort_segment s = s\<lparr>ls_locators := sort_key (lo_offset \<circ> il_rec) (ls_locators s)\<rparr>"

definition sort_lane :: "lane_index \<Rightarrow> lane_index" where
  "sort_lane li = li\<lparr>li_segments := map (\<lambda>(n, s). (n, sort_segment s)) (li_segments li)\<rparr>"

definition sort_index :: "index \<Rightarrow> index" where
  "sort_index ix = map (\<lambda>(k, li). (k, sort_lane li)) ix"

definition buildLaneIndex ::
  "marker list \<Rightarrow> (string \<times> nat) list \<Rightarrow> (string \<times> lane_report) list \<Rightarrow> index \<times> corrupt" where
  "buildLaneIndex ms ords reps =
     (let s = fold (index_step ords reps) (tx_records ms) \<lparr>ix_index = [], ix_corrupt = [], ix_count = 0\<rparr> in
      (sort_index (ix_index s), ix_corrupt s))"

definition lookupIndexed :: "index \<Rightarrow> locator \<Rightarrow> indexed_locator option" where
  "lookupIndexed ix r =
     (case Option.bind (map_of ix (lo_lane r)) (\<lambda>li. map_of (li_segments li) (lo_segment r)) of
        None \<Rightarrow> None
      | Some s \<Rightarrow>
          (case find (\<lambda>l. lo_offset (il_rec l) = lo_offset r \<and> lo_length (il_rec l) = lo_length r) (ls_locators s) of
             None \<Rightarrow> None
           | Some l \<Rightarrow> if il_cursor l = [] then None else Some l))"

text \<open>The resolvers of the registry over an index.\<close>

definition resolve_in :: "index \<Rightarrow> resolver" where
  "resolve_in ix r = map_option (\<lambda>l. (il_cursor l, il_ordinal l, il_order l)) (lookupIndexed ix r)"

section \<open>The lanes\<close>

record lanes_state =
  rl_lanes :: "(string \<times> files) list"
  rl_quarantine :: files
  rl_reports :: "(string \<times> lane_report) list"
  rl_corrupt :: corrupt

text \<open>One lane: its directory is recovered and its committed segments must be there.\<close>

definition recover_one :: "lane_env \<Rightarrow> bool \<Rightarrow> extents \<Rightarrow> string \<Rightarrow> lanes_state \<Rightarrow> lanes_state" where
  "recover_one env dryRun committed lane s =
     (case map_of (rl_lanes s) lane of
        None \<Rightarrow> s\<lparr>rl_corrupt := rl_corrupt s @ [(lane, LaneDirectoryMissing)]\<rparr>
      | Some fs \<Rightarrow>
          (let segs = segments_of committed lane;
               rep = recoverLane env \<lparr>ro_quarantine = True, ro_committed = Some segs, ro_dryRun = dryRun\<rparr> fs (rl_quarantine s);
               missing = filter (\<lambda>n. \<not> list_ex (\<lambda>i. si_segment i = n) (rv_segments rep)) (map fst segs) in
           \<lparr>rl_lanes = aput lane (rv_files rep) (rl_lanes s), rl_quarantine = rv_quarantine rep,
            rl_reports = aput lane rep (rl_reports s),
            rl_corrupt = rl_corrupt s @ map (\<lambda>(n, why). (lane @ ''/'' @ n, LaneReason why)) (rv_corrupt rep) @
              map (\<lambda>n. (lane @ ''/'' @ n, CommittedSegmentMissing)) missing\<rparr>))"

text \<open>The lanes with a directory of the layout, then the other lanes of the markers.\<close>

definition all_lanes :: "store_disk \<Rightarrow> extents \<Rightarrow> string list" where
  "all_lanes d committed = (let dirs = map fst (discoverLanes d) in dirs @ filter (\<lambda>k. k \<notin> set dirs) (map fst committed))"

section \<open>The registry\<close>

fun apply_commits :: "node_crypto \<Rightarrow> resolver \<Rightarrow> marker list \<Rightarrow> unit registry_op" where
  "apply_commits nc rs [] s = (Inr (), s)"
| "apply_commits nc rs (m # ms) s =
     (case applyCommit nc rs m s of
        (Inl e, s1) \<Rightarrow> (Inl e, s1)
      | (Inr _, s1) \<Rightarrow> apply_commits nc rs ms s1)"

text \<open>The rebuild of a registry that knows none of the transactions, or the replay of those behind its
  last one; the answer is the number of markers applied.\<close>

definition catch_up :: "node_crypto \<Rightarrow> resolver \<Rightarrow> marker list \<Rightarrow> nat registry_op" where
  "catch_up nc rs ms s =
     (if ms = [] then
        (case lastIndexedTx s of
           Some _ \<Rightarrow> (Inr 0, s)
         | None \<Rightarrow> (case rebuildFromJournal nc rs [] s of (Inl e, s1) \<Rightarrow> (Inl e, s1) | (Inr _, s1) \<Rightarrow> (Inr 0, s1)))
      else (let full = (case rebuildFromJournal nc rs ms s of (Inl e, s1) \<Rightarrow> (Inl e, s1) | (Inr _, s1) \<Rightarrow> (Inr (length ms), s1)) in
            case lastIndexedTx s of
              None \<Rightarrow> full
            | Some t \<Rightarrow>
                if t = ''0'' \<or> t \<notin> set (map mk_tx ms) then full
                else (let rest = filter (\<lambda>m. dec_val t < dec_val (mk_tx m)) ms in
                      case apply_commits nc rs rest s of
                        (Inl e, s1) \<Rightarrow> (Inl e, s1)
                      | (Inr _, s1) \<Rightarrow> (Inr (length rest), s1))))"

text \<open>Any failure to open the registry counts as a corrupt file: it is kept as evidence and replaced.\<close>

definition open_or_replace :: "string option \<Rightarrow> store_disk \<Rightarrow> registry \<times> store_disk" where
  "open_or_replace inst d =
     (case (case sd_registry d of None \<Rightarrow> Inl Thrown | Some r \<Rightarrow> open_registry inst r) of
        Inr r \<Rightarrow> (r, d)
      | Inl _ \<Rightarrow>
          ((case open_registry inst empty_registry of Inr r \<Rightarrow> r | Inl _ \<Rightarrow> empty_registry),
           d\<lparr>sd_evidence := sd_evidence d @ [sd_registry d]\<rparr>))"

section \<open>The store\<close>

record recovery_report =
  rr_ready :: bool
  rr_markers :: nat
  rr_last_tx :: "string option"
  rr_replayed :: nat
  rr_last_indexed :: "string option"
  rr_orphans :: "orphan list"
  rr_torn :: nat
  rr_corrupt :: corrupt
  rr_at :: "(string \<times> store_reason) option"

record recovered_store =
  rc_report :: recovery_report
  rc_journal :: journal
  rc_markers :: "marker list"
  rc_laneIndex :: index
  rc_laneOrdinals :: "(string \<times> nat) list"
  rc_laneReports :: "(string \<times> lane_report) list"
  rc_laneCommitted :: extents
  rc_registry :: registry
  rc_nextLaneOrdinal :: nat

definition markers_of :: "journal_verify \<Rightarrow> marker list" where
  "markers_of v = (case v of JvOk ms _ _ _ \<Rightarrow> ms | JvReadOnly _ _ ms \<Rightarrow> ms)"

definition verdict :: "journal_verify \<Rightarrow> (string \<times> store_reason) option" where
  "verdict v = (case v of JvOk _ _ _ _ \<Rightarrow> None | JvReadOnly pos why _ \<Rightarrow> Some (pos, JournalReason why))"

definition lane_ordinals :: "store_disk \<Rightarrow> (string \<times> nat) list" where
  "lane_ordinals d = concat (map (\<lambda>(k, fs). case readLaneOrdinal fs of None \<Rightarrow> [] | Some n \<Rightarrow> [(k, n)]) (discoverLanes d))"

definition recoverStoreContext :: "lane_env \<Rightarrow> string option \<Rightarrow> store_disk \<Rightarrow> (store_code + recovered_store) \<times> store_disk" where
  "recoverStoreContext env inst d0 =
     (let d1 = ensureLayout d0; nc = le_crypto env;
          (v, j) = jo_verify nc ((open_journal (sd_journal d1))\<lparr>jo_quarantine := sd_tails d1\<rparr>);
          ro = verdict v; ms = markers_of v; ords = lane_ordinals d1;
          (committed, cs) = committedExtents ms;
          l = fold (recover_one env (ro \<noteq> None) committed) (all_lanes d1 committed)
                \<lparr>rl_lanes = sd_lanes d1, rl_quarantine = sd_quarantine d1, rl_reports = [], rl_corrupt = []\<rparr>;
          (ix, ics) = buildLaneIndex ms ords (rl_reports l);
          bad = cs @ rl_corrupt l @ ics;
          d2 = d1\<lparr>sd_journal := jo_file j, sd_tails := jo_quarantine j, sd_lanes := rl_lanes l, sd_quarantine := rl_quarantine l\<rparr>;
          (reg, d3) = open_or_replace inst d2 in
      case catch_up nc (resolve_in ix) ms reg of
        (Inl e, reg1) \<Rightarrow> (Inl e, d3\<lparr>sd_registry := Some reg1\<rparr>)
      | (Inr n, reg1) \<Rightarrow>
          (Inr \<lparr>rc_report = \<lparr>rr_ready = (ro = None \<and> bad = []), rr_markers = length ms, rr_last_tx = last_tx ms, rr_replayed = n,
                   rr_last_indexed = lastIndexedTx reg1, rr_orphans = concat (map (rv_orphans \<circ> snd) (rl_reports l)),
                   rr_torn = sum_list (map (rv_torn \<circ> snd) (rl_reports l)), rr_corrupt = bad,
                   rr_at = (if ro = None \<and> bad \<noteq> [] then Some (hd bad) else ro)\<rparr>,
                 rc_journal = j, rc_markers = ms, rc_laneIndex = ix, rc_laneOrdinals = ords, rc_laneReports = rl_reports l,
                 rc_laneCommitted = committed, rc_registry = reg1,
                 rc_nextLaneOrdinal = fold max (map snd ords) 0 + 1\<rparr>,
           d3\<lparr>sd_registry := Some reg1\<rparr>))"

text \<open>\<open>readOnly\<close> of the context is the position and reason of its report.\<close>

definition recoverStore :: "lane_env \<Rightarrow> string option \<Rightarrow> store_disk \<Rightarrow> (store_code + recovery_report) \<times> store_disk" where
  "recoverStore env inst d =
     (case recoverStoreContext env inst d of (Inl e, d1) \<Rightarrow> (Inl e, d1) | (Inr c, d1) \<Rightarrow> (Inr (rc_report c), d1))"

end
