(* ===== verification/Store_Facade.thy ===== *)
theory Store_Facade
  imports Store_Recovery
begin

text \<open>
  Model of \<open>gateway-daemon/src/store/store.ts\<close>: the facade that opens a state root, commits
  (objects, lane records, journal marker, registry) and reads committed records back.  The directory
  of a lane with a writer is the directory of the writer.  Each lane operation of a commit has
  its own environment, \<open>envs n\<close>.
\<close>

section \<open>State\<close>

record store_opts =
  so_segmentBytes :: nat
  so_maxSegmentAgeMs :: int
  so_maxRecordBytes :: nat
  so_maxObjectBytes :: nat

record gateway_store =
  gs_journal :: journal
  gs_objects :: object_store
  gs_registry :: registry
  gs_dirs :: "(string \<times> files) list"
  gs_quarantine :: files
  gs_laneIndex :: index
  gs_laneOrdinals :: "(string \<times> nat) list"
  gs_laneCommitted :: extents
  gs_writers :: "(string \<times> lane_writer) list"
  gs_nextLaneOrdinal :: nat
  gs_recordOrder :: nat
  gs_readOnly :: "(string \<times> store_reason) option"
  gs_opts :: store_opts
  gs_instance :: string
  gs_closed :: bool

type_synonym 'a store_op = "(gateway_store, store_code, 'a) op"

definition PROOF_LANE_CAP :: nat where "PROOF_LANE_CAP = 65536"
definition LEGACY_LANE_CAP :: nat where "LEGACY_LANE_CAP = 1048576"

definition PART :: rx where
  "PART = RSeq (RCls (\<lambda>c. is_alpha c \<or> is_digit c)) (RUpTo 63 (RCls (\<lambda>c. is_alpha c \<or> is_digit c \<or> c \<in> set ''_-'')))"

definition STORE_LANE_KEY :: "string \<Rightarrow> bool" where
  "STORE_LANE_KEY k \<longleftrightarrow> k = LEGACY \<or> prefix ''proof/'' k \<and> rx_test PART (drop 6 k)"

text \<open>Whether \<open>laneDirFor\<close> has a directory for the key.\<close>

definition laneDirFor :: "string \<Rightarrow> bool" where
  "laneDirFor k \<longleftrightarrow> (let parts = split_on CHR ''/'' k in length parts \<le> 2 \<and> list_all (rx_test PART) parts)"

definition capFor :: "store_opts \<Rightarrow> string \<Rightarrow> nat" where
  "capFor p lane =
     (if 0 < so_maxRecordBytes p then so_maxRecordBytes p
      else if prefix ''proof/'' lane then PROOF_LANE_CAP else LEGACY_LANE_CAP)"

definition writer_options :: "store_opts \<Rightarrow> string \<Rightarrow> nat \<Rightarrow> lane_options" where
  "writer_options p lane n =
     \<lparr>lp_lane = lane, lp_ordinal = n, lp_segmentBytes = Some (so_segmentBytes p), lp_maxAgeMs = Some (so_maxSegmentAgeMs p),
      lp_maxRecordBytes = Some (capFor p lane)\<rparr>"

definition lane_files :: "string \<Rightarrow> gateway_store \<Rightarrow> files" where
  "lane_files lane s =
     (case map_of (gs_writers s) lane of
        Some w \<Rightarrow> lw_files w
      | None \<Rightarrow> (case map_of (gs_dirs s) lane of None \<Rightarrow> [] | Some fs \<Rightarrow> fs))"

section \<open>Opening\<close>

definition locators_of :: "lane_index \<Rightarrow> indexed_locator list" where
  "locators_of li = concat (map (ls_locators \<circ> snd) (li_segments li))"

definition all_locators :: "index \<Rightarrow> indexed_locator list" where
  "all_locators ix = concat (map (locators_of \<circ> snd) ix)"

fun reopen_writers :: "(nat \<Rightarrow> lane_env) \<Rightarrow> nat \<Rightarrow> (string \<times> lane_report) list \<Rightarrow> unit store_op" where
  "reopen_writers envs i [] s = (Inr (), s)"
| "reopen_writers envs i ((lane, rep) # rest) s =
     (if rv_corrupt rep \<noteq> [] then reopen_writers envs (i + 1) rest s
      else if \<not> laneDirFor lane then (Inl BAD_LANE, s)
      else (let known = map_of (gs_laneOrdinals s) lane; n = (case known of None \<Rightarrow> gs_nextLaneOrdinal s | Some n \<Rightarrow> n);
                s1 = (if known = None then s\<lparr>gs_nextLaneOrdinal := n + 1, gs_laneOrdinals := gs_laneOrdinals s @ [(lane, n)]\<rparr> else s) in
            case open_lane (envs i) (writer_options (gs_opts s) lane n) rep of
              Inl e \<Rightarrow> (Inl e, s1)
            | Inr w \<Rightarrow> reopen_writers envs (i + 1) rest (s1\<lparr>gs_writers := aput lane w (gs_writers s1)\<rparr>)))"

definition new_store :: "recovered_store \<Rightarrow> store_disk \<Rightarrow> registry \<Rightarrow> store_opts \<Rightarrow> string \<Rightarrow> gateway_store" where
  "new_store c d reg p inst =
     \<lparr>gs_journal = rc_journal c, gs_objects = open_objects (sd_objects d) (Some (so_maxObjectBytes p)), gs_registry = reg,
      gs_dirs = sd_lanes d, gs_quarantine = sd_quarantine d, gs_laneIndex = rc_laneIndex c, gs_laneOrdinals = rc_laneOrdinals c,
      gs_laneCommitted = rc_laneCommitted c, gs_writers = [], gs_nextLaneOrdinal = rc_nextLaneOrdinal c,
      gs_recordOrder = fold max (map il_order (all_locators (rc_laneIndex c))) 0, gs_readOnly = rr_at (rc_report c),
      gs_opts = p, gs_instance = inst, gs_closed = False\<rparr>"

text \<open>The disk of a store, as its files stand.\<close>

definition disk_of :: "gateway_store \<Rightarrow> store_disk" where
  "disk_of s =
     \<lparr>sd_journal = jo_file (gs_journal s), sd_tails = jo_quarantine (gs_journal s),
      sd_lanes = fold (\<lambda>(k, w) ds. aput k (lw_files w) ds) (gs_writers s) (gs_dirs s), sd_quarantine = gs_quarantine s,
      sd_objects = os_files (gs_objects s), sd_registry = Some (gs_registry s), sd_evidence = []\<rparr>"

definition store_open :: "lane_env \<Rightarrow> (nat \<Rightarrow> lane_env) \<Rightarrow> string option \<Rightarrow> store_opts \<Rightarrow> store_disk \<Rightarrow> store_code + gateway_store" where
  "store_open env envs inst p d0 =
     (case recoverStoreContext env inst d0 of
        (Inl e, _) \<Rightarrow> Inl e
      | (Inr c, d) \<Rightarrow>
          (let i = (case inst of Some i \<Rightarrow> i | None \<Rightarrow> kv_or ''instance_id'' ''default'' (rc_registry c));
               reg = (if kvGet ''instance_id'' (rc_registry c) = None then kvSet ''instance_id'' i (rc_registry c) else rc_registry c);
               s = new_store c d reg p i in
           if gs_readOnly s \<noteq> None then Inr s
           else (case reopen_writers envs 0 (rc_laneReports c) s of (Inl e, _) \<Rightarrow> Inl e | (Inr _, s1) \<Rightarrow> Inr s1)))"

section \<open>Committing\<close>

record commit_record =
  cr_lane :: string
  cr_partition :: "string option"
  cr_data :: string

record commit_input =
  ci_records :: "commit_record list"
  ci_objects :: "string list"
  ci_mutation :: json
  ci_result :: string

record commit_result =
  co_tx :: string
  co_cursors :: "string list"
  co_records :: "locator list"
  co_objects :: "object_descriptor list"

text \<open>\<open>typeof mutation === "object" && mutation !== null\<close>\<close>

definition is_object :: "json \<Rightarrow> bool" where
  "is_object v \<longleftrightarrow> (case v of JObj _ \<Rightarrow> True | JArr _ \<Rightarrow> True | _ \<Rightarrow> False)"

definition commit_guard :: "json \<Rightarrow> string \<Rightarrow> gateway_store \<Rightarrow> store_code option" where
  "commit_guard mut result s =
     (if gs_closed s then Some CORRUPT
      else if gs_readOnly s \<noteq> None then Some STORE_READ_ONLY
      else if \<not> isHex64 result then Some BAD_RECORD
      else if \<not> is_object mut then Some MUTATION_UNKNOWN
      else None)"

fun put_objects :: "node_crypto \<Rightarrow> string list \<Rightarrow> object_descriptor list store_op" where
  "put_objects nc [] s = (Inr [], s)"
| "put_objects nc (b # bs) s =
     (case put_object nc b (gs_objects s) of
        (Inl e, os) \<Rightarrow> (Inl e, s\<lparr>gs_objects := os\<rparr>)
      | (Inr (digest, n, _), os) \<Rightarrow>
          (case put_objects nc bs (s\<lparr>gs_objects := os\<rparr>) of
             (Inl e, s1) \<Rightarrow> (Inl e, s1)
           | (Inr ds, s1) \<Rightarrow> (Inr (\<lparr>od_digest = digest, od_bytes = dec_str n\<rparr> # ds), s1)))"

text \<open>The writer of a lane, opened or created when there is none.\<close>

definition writerFor :: "lane_env \<Rightarrow> lane_env \<Rightarrow> string \<Rightarrow> lane_writer store_op" where
  "writerFor env env1 lane s =
     (case map_of (gs_writers s) lane of
        Some w \<Rightarrow> (Inr w, s)
      | None \<Rightarrow>
          if \<not> laneDirFor lane then (Inl BAD_LANE, s)
          else (let known = map_of (gs_laneOrdinals s) lane; n = (case known of None \<Rightarrow> gs_nextLaneOrdinal s | Some n \<Rightarrow> n);
                    fs = lane_files lane s; p = writer_options (gs_opts s) lane n;
                    has = (map_of fs LANE_META_FILE \<noteq> None \<or> list_ex (isSegmentName \<circ> fst) fs);
                    rep = recoverLane env \<lparr>ro_quarantine = True, ro_committed = map_of (gs_laneCommitted s) lane, ro_dryRun = False\<rparr> fs (gs_quarantine s);
                    s1 = (if has then s\<lparr>gs_dirs := aput lane (rv_files rep) (gs_dirs s), gs_quarantine := rv_quarantine rep\<rparr>
                          else s\<lparr>gs_dirs := aput lane fs (gs_dirs s)\<rparr>) in
                case (if has then open_lane env1 p rep else create_lane env1 fs p) of
                  Inl e \<Rightarrow> (Inl e, s1)
                | Inr w \<Rightarrow>
                    (Inr w, s1\<lparr>gs_laneOrdinals := (if known = None then gs_laneOrdinals s1 @ [(lane, lw_laneOrdinal w)] else gs_laneOrdinals s1),
                       gs_nextLaneOrdinal := max (gs_nextLaneOrdinal s1) (lw_laneOrdinal w + 1), gs_writers := aput lane w (gs_writers s1)\<rparr>)))"

definition lane_key :: "commit_record \<Rightarrow> string" where
  "lane_key r = (case cr_partition r of None \<Rightarrow> cr_lane r | Some p \<Rightarrow> cr_lane r @ ''/'' @ p)"

definition append_record :: "(nat \<Rightarrow> lane_env) \<Rightarrow> nat \<Rightarrow> commit_record \<Rightarrow> (locator \<times> string) store_op" where
  "append_record envs i r s =
     (let lane = lane_key r in
      if \<not> STORE_LANE_KEY lane then (Inl BAD_LANE, s)
      else (case writerFor (envs (3 * i)) (envs (3 * i + 1)) lane s of
              (Inl e, s1) \<Rightarrow> (Inl e, s1)
            | (Inr w, s1) \<Rightarrow>
                (case lane_append_record (envs (3 * i + 2)) (cr_data r) w of
                   (Inl e, w1) \<Rightarrow> (Inl e, s1\<lparr>gs_writers := aput lane w1 (gs_writers s1)\<rparr>)
                 | (Inr a, w1) \<Rightarrow>
                     (Inr (\<lparr>lo_lane = lane, lo_segment = la_segment a, lo_offset = la_offset a, lo_length = la_length a, lo_raw = la_raw a\<rparr>,
                           la_cursor a),
                      s1\<lparr>gs_writers := aput lane w1 (gs_writers s1)\<rparr>))))"

fun append_records :: "(nat \<Rightarrow> lane_env) \<Rightarrow> nat \<Rightarrow> commit_record list \<Rightarrow> (locator \<times> string) list store_op" where
  "append_records envs i [] s = (Inr [], s)"
| "append_records envs i (r # rs) s =
     (case append_record envs i r s of
        (Inl e, s1) \<Rightarrow> (Inl e, s1)
      | (Inr a, s1) \<Rightarrow>
          (case append_records envs (i + 1) rs s1 of (Inl e, s2) \<Rightarrow> (Inl e, s2) | (Inr as, s2) \<Rightarrow> (Inr (a # as), s2)))"

text \<open>The locator of a record enters the index with the ordinal of its cursor.\<close>

definition index_live :: "locator \<Rightarrow> string \<Rightarrow> nat \<Rightarrow> lane_index \<Rightarrow> lane_index" where
  "index_live r cursor n li =
     (let ord = (case parse_lane_cursor cursor of Some (_, k) \<Rightarrow> k | None \<Rightarrow> li_total li + 1);
          li1 = push_locator r cursor ord n li in
      li1\<lparr>li_segments := aput (lo_segment r) (sort_segment (lane_segment li1 (lo_segment r))) (li_segments li1)\<rparr>)"

definition add_committed :: "locator \<Rightarrow> extents \<Rightarrow> extents" where
  "add_committed r ext =
     (let segs = segments_of ext (lo_lane r); ls = (case map_of segs (lo_segment r) of None \<Rightarrow> [] | Some ls \<Rightarrow> ls) in
      aput (lo_lane r) (aput (lo_segment r) (sort_key ex_offset (ls @ [extent_of r])) segs) ext)"

definition indexRecord :: "locator \<times> string \<Rightarrow> gateway_store \<Rightarrow> gateway_store" where
  "indexRecord rc s =
     (let (r, cursor) = rc;
          li = (case map_of (gs_laneIndex s) (lo_lane r) of
                  Some li \<Rightarrow> li
                | None \<Rightarrow> new_lane (lo_lane r) (case map_of (gs_laneOrdinals s) (lo_lane r) of None \<Rightarrow> 0 | Some n \<Rightarrow> n)) in
      s\<lparr>gs_recordOrder := gs_recordOrder s + 1,
        gs_laneIndex := aput (lo_lane r) (index_live r cursor (gs_recordOrder s + 1) li) (gs_laneIndex s),
        gs_laneCommitted := add_committed r (gs_laneCommitted s)\<rparr>)"

text \<open>The marker goes to the journal before the registry sees the mutation.\<close>

definition journal_then_apply ::
  "node_crypto \<Rightarrow> (locator \<times> string) list \<Rightarrow> object_descriptor list \<Rightarrow> json \<Rightarrow> string \<Rightarrow> string store_op" where
  "journal_then_apply nc rcs ods mut result s =
     (case nextMarker (map fst rcs) ods mut result (gs_journal s) of
        Inl e \<Rightarrow> (Inl e, s)
      | Inr m \<Rightarrow>
          (case append_marker nc m (gs_journal s) of
             (Inl e, j) \<Rightarrow> (Inl e, s\<lparr>gs_journal := j\<rparr>)
           | (Inr _, j) \<Rightarrow>
               let s1 = fold indexRecord rcs (s\<lparr>gs_journal := j\<rparr>) in
               (case applyCommit nc (resolve_in (gs_laneIndex s1)) m (gs_registry s1) of
                  (Inl e, reg) \<Rightarrow> (Inl e, s1\<lparr>gs_registry := reg\<rparr>)
                | (Inr _, reg) \<Rightarrow> (Inr (mk_tx m), s1\<lparr>gs_registry := reg\<rparr>))))"

definition store_commit :: "node_crypto \<Rightarrow> (nat \<Rightarrow> lane_env) \<Rightarrow> commit_input \<Rightarrow> commit_result store_op" where
  "store_commit nc envs inp s =
     (case commit_guard (ci_mutation inp) (ci_result inp) s of
        Some e \<Rightarrow> (Inl e, s)
      | None \<Rightarrow>
          (case put_objects nc (ci_objects inp) s of
             (Inl e, s1) \<Rightarrow> (Inl e, s1)
           | (Inr ods, s1) \<Rightarrow>
               (case append_records envs 0 (ci_records inp) s1 of
                  (Inl e, s2) \<Rightarrow> (Inl e, s2)
                | (Inr rcs, s2) \<Rightarrow>
                    (case journal_then_apply nc rcs ods (ci_mutation inp) (ci_result inp) s2 of
                       (Inl e, s3) \<Rightarrow> (Inl e, s3)
                     | (Inr tx, s3) \<Rightarrow>
                         (Inr \<lparr>co_tx = tx, co_cursors = map snd rcs, co_records = map fst rcs, co_objects = ods\<rparr>, s3)))))"

definition commitSync :: "node_crypto \<Rightarrow> json \<Rightarrow> string \<Rightarrow> string store_op" where
  "commitSync nc mut result s =
     (case commit_guard mut result s of
        Some e \<Rightarrow> (Inl e, s)
      | None \<Rightarrow>
          (case nextMarker [] [] mut result (gs_journal s) of
             Inl e \<Rightarrow> (Inl e, s)
           | Inr m \<Rightarrow>
               (case appendSync nc m (gs_journal s) of
                  (Inl e, j) \<Rightarrow> (Inl e, s\<lparr>gs_journal := j\<rparr>)
                | (Inr _, j) \<Rightarrow>
                    (case applyCommit nc (resolve_in (gs_laneIndex s)) m (gs_registry s) of
                       (Inl e, reg) \<Rightarrow> (Inl e, s\<lparr>gs_journal := j, gs_registry := reg\<rparr>)
                     | (Inr _, reg) \<Rightarrow> (Inr (mk_tx m), s\<lparr>gs_journal := j, gs_registry := reg\<rparr>)))))"

section \<open>Reading\<close>

record scanned_record =
  sr_cursor :: string
  sr_data :: string
  sr_locator :: indexed_locator
  sr_order :: nat

definition readSegmentSlice :: "files \<Rightarrow> string \<Rightarrow> nat \<Rightarrow> nat \<Rightarrow> store_code + string" where
  "readSegmentSlice fs seg off len =
     (case map_of fs seg of
        None \<Rightarrow> Inl Thrown
      | Some data \<Rightarrow> let b = slice data off (off + len) in if length b \<noteq> len then Inl CORRUPT else Inr b)"

text \<open>The bytes of a committed record, hashed again against its locator.\<close>

definition read_record :: "node_crypto \<Rightarrow> files \<Rightarrow> indexed_locator \<Rightarrow> store_code + scanned_record" where
  "read_record nc fs l =
     (let r = il_rec l in
      case readSegmentSlice fs (lo_segment r) (lo_offset r) (lo_length r) of
        Inl e \<Rightarrow> Inl e
      | Inr raw \<Rightarrow>
          if sha256hex nc raw \<noteq> lo_raw r then Inl CORRUPT
          else Inr \<lparr>sr_cursor = il_cursor l, sr_data = take (length raw - 1) raw, sr_locator = l, sr_order = il_order l\<rparr>)"

text \<open>The records that a scan yields, and the error that ends it early, if any.\<close>

fun scan_records :: "node_crypto \<Rightarrow> files \<Rightarrow> nat option \<Rightarrow> indexed_locator list \<Rightarrow> scanned_record list \<times> store_code option" where
  "scan_records nc fs limit [] = ([], None)"
| "scan_records nc fs limit (l # ls) =
     (if limit = Some 0 then ([], None)
      else (case read_record nc fs l of
              Inl e \<Rightarrow> ([], Some e)
            | Inr r \<Rightarrow>
                (case scan_records nc fs (map_option (\<lambda>n. n - 1) limit) ls of (rs, e) \<Rightarrow> (r # rs, e))))"

definition laneScan :: "node_crypto \<Rightarrow> string \<Rightarrow> string option \<Rightarrow> nat option \<Rightarrow> gateway_store \<Rightarrow> scanned_record list \<times> store_code option" where
  "laneScan nc lane from_cursor limit s =
     (case map_of (gs_laneIndex s) lane of
        None \<Rightarrow> ([], None)
      | Some li \<Rightarrow>
          let start = (case from_cursor of
                 None \<Rightarrow> Some 0
               | Some c \<Rightarrow> (case parse_lane_cursor c of Some (n, k) \<Rightarrow> if n = li_ordinal li then Some k else None | None \<Rightarrow> None));
              segs = sort_key ls_ordinal (map snd (li_segments li)) in
          (case start of
             None \<Rightarrow> ([], Some BAD_CURSOR)
           | Some k \<Rightarrow>
               if \<not> laneDirFor lane then ([], Some BAD_LANE)
               else scan_records nc (lane_files lane s) limit (filter (\<lambda>l. k < il_ordinal l) (concat (map ls_locators segs)))))"

text \<open>The locator with the highest ordinal, the first of several.\<close>

definition head_locator :: "indexed_locator list \<Rightarrow> indexed_locator option" where
  "head_locator ls = fold (\<lambda>l h. case h of None \<Rightarrow> Some l | Some b \<Rightarrow> if il_ordinal b < il_ordinal l then Some l else h) ls None"

record lane_head =
  lh_laneOrdinal :: string
  lh_nextRecordOrdinal :: nat
  lh_headOrder :: nat
  lh_headCursor :: "string option"
  lh_floorOrdinal :: nat

text \<open>The floor starts at one and is lowered by the positive minima of the segments.\<close>

definition laneHead :: "string \<Rightarrow> gateway_store \<Rightarrow> lane_head" where
  "laneHead lane s =
     (let li = map_of (gs_laneIndex s) lane;
          n = (case li of Some x \<Rightarrow> li_ordinal x | None \<Rightarrow> (case map_of (gs_laneOrdinals s) lane of None \<Rightarrow> 0 | Some k \<Rightarrow> k));
          segs = (case li of None \<Rightarrow> [] | Some x \<Rightarrow> map snd (li_segments x));
          head = head_locator (concat (map ls_locators segs));
          mins = map (\<lambda>g. Min (il_ordinal ` set (ls_locators g))) (filter (\<lambda>g. ls_locators g \<noteq> []) segs);
          floor = fold (\<lambda>m f. if 0 < m then min f m else f) mins 1 in
      \<lparr>lh_laneOrdinal = hex16 n, lh_nextRecordOrdinal = (case head of None \<Rightarrow> floor | Some l \<Rightarrow> il_ordinal l + 1),
       lh_headOrder = (case head of None \<Rightarrow> 0 | Some l \<Rightarrow> il_order l),
       lh_headCursor = (case head of None \<Rightarrow> None | Some l \<Rightarrow> if il_cursor l = [] then None else Some (il_cursor l)),
       lh_floorOrdinal = floor\<rparr>)"

text \<open>The first lane of the index with an ordinal.\<close>

definition lane_numbered :: "nat \<Rightarrow> gateway_store \<Rightarrow> (string \<times> lane_index) option" where
  "lane_numbered n s = find (\<lambda>(_, li). li_ordinal li = n) (gs_laneIndex s)"

record cursor_resolution =
  cu_lane :: string
  cu_ordinal :: nat
  cu_order :: int
  cu_retained :: bool

definition store_resolveCursor :: "string \<Rightarrow> gateway_store \<Rightarrow> cursor_resolution option" where
  "store_resolveCursor cursor s =
     (case parse_lane_cursor cursor of
        None \<Rightarrow> None
      | Some (n, k) \<Rightarrow>
          (case lane_numbered n s of
             None \<Rightarrow> None
           | Some (_, li) \<Rightarrow>
               let ls = locators_of li; head = head_locator ls;
                   pos = filter (\<lambda>x. 0 < x) (map il_ordinal ls); floor = (if pos = [] then 1 else Min (set pos)) in
               if k = 0 then Some \<lparr>cu_lane = li_lane li, cu_ordinal = 0, cu_order = 0, cu_retained = True\<rparr>
               else (case find (\<lambda>l. il_ordinal l = k) ls of
                       Some l \<Rightarrow> Some \<lparr>cu_lane = li_lane li, cu_ordinal = k, cu_order = int (il_order l), cu_retained = True\<rparr>
                     | None \<Rightarrow>
                         if (case head of None \<Rightarrow> False | Some h \<Rightarrow> il_ordinal h < k) then None
                         else if k < floor \<or> head \<noteq> None
                         then Some \<lparr>cu_lane = li_lane li, cu_ordinal = k, cu_order = -1, cu_retained = False\<rparr>
                         else None)))"

definition peekNextCursor :: "string \<Rightarrow> gateway_store \<Rightarrow> string option" where
  "peekNextCursor lane s =
     map_option (\<lambda>li. lane_cursor (li_ordinal li) (lh_nextRecordOrdinal (laneHead lane s))) (map_of (gs_laneIndex s) lane)"

definition globalHead :: "gateway_store \<Rightarrow> nat \<times> string option" where
  "globalHead s =
     (case fold (\<lambda>l h. if il_cursor l \<noteq> [] \<and> (case h of None \<Rightarrow> True | Some b \<Rightarrow> il_order b < il_order l) then Some l else h)
             (all_locators (gs_laneIndex s)) None of
        None \<Rightarrow> (0, None)
      | Some l \<Rightarrow> (il_order l, Some (il_cursor l)))"

definition readCursor :: "node_crypto \<Rightarrow> string \<Rightarrow> gateway_store \<Rightarrow> store_code + scanned_record option" where
  "readCursor nc cursor s =
     (case parse_lane_cursor cursor of
        None \<Rightarrow> Inl BAD_CURSOR
      | Some (n, k) \<Rightarrow>
          (case lane_numbered n s of
             None \<Rightarrow> Inr None
           | Some (_, li) \<Rightarrow>
               (case find (\<lambda>l. il_ordinal l = k) (locators_of li) of
                  None \<Rightarrow> Inr None
                | Some l \<Rightarrow>
                    if \<not> laneDirFor (li_lane li) then Inl BAD_LANE
                    else (case read_record nc (lane_files (li_lane li) s) l of Inl e \<Rightarrow> Inl e | Inr r \<Rightarrow> Inr (Some r)))))"

definition getRecord :: "node_crypto \<Rightarrow> string \<Rightarrow> gateway_store \<Rightarrow> store_code + string option" where
  "getRecord nc cursor s = (case readCursor nc cursor s of Inl e \<Rightarrow> Inl e | Inr r \<Rightarrow> Inr (map_option sr_data r))"

text \<open>\<open>kv.set\<close> keeps the internal key from the callers.\<close>

definition kv_put :: "string \<Rightarrow> string \<Rightarrow> unit store_op" where
  "kv_put k v s = (if k = ''last_indexed_tx'' then (Inl BAD_RECORD, s) else (Inr (), s\<lparr>gs_registry := kvSet k v (gs_registry s)\<rparr>))"

definition store_close :: "gateway_store \<Rightarrow> gateway_store" where
  "store_close s =
     (if gs_closed s then s
      else s\<lparr>gs_closed := True, gs_writers := map (\<lambda>(k, w). (k, close_lane w)) (gs_writers s)\<rparr>)"

end
