(* ===== verification/Store_Registry_Facts.thy ===== *)
theory Store_Registry_Facts
  imports Store_Registry
begin

text \<open>
  What the registry promises: it is derived from the journal and can be rebuilt from it, the
  active pointer of a product moves by compare-and-set, a slot with rival events is marked.
\<close>

section \<open>Reducers that depend on the projection only\<close>

lemma kvGet_kvSet [simp]: "kvGet q (kvSet k v s) = (if q = k then Some v else kvGet q s)"
proof -
  have "map_of (filter (\<lambda>(q, _). q \<noteq> k) xs) q = (if q = k then None else map_of xs q)" for xs :: "(string \<times> string) list"
    by (induction xs) auto
  then show ?thesis by (simp add: kvGet_def kvSet_def map_add_def split: option.split)
qed

lemma kvGet_kvDelete [simp]: "kvGet q (kvDelete k s) = (if q = k then None else kvGet q s)"
proof -
  have "map_of (filter (\<lambda>(q, _). q \<noteq> k) xs) q = (if q = k then None else map_of xs q)" for xs :: "(string \<times> string) list"
    by (induction xs) auto
  then show ?thesis by (simp add: kvGet_def kvDelete_def)
qed

lemma kv_simps [simp]:
  "rg_data (kvSet k v s) = rg_data s" "rg_data (kvDelete k s) = rg_data s" "kvGet q (to_tables f s) = kvGet q s"
  "rg_data (to_tables f s) = f (rg_data s)" "rg_catalog (to_tables f s) = rg_catalog s" "rg_catalog (kvSet k v s) = rg_catalog s"
  "kvGet q (s\<lparr>rg_data := d\<rparr>) = kvGet q s" "kvGet q (s\<lparr>rg_catalog := c\<rparr>) = kvGet q s"
  by (simp_all add: kvSet_def kvDelete_def to_tables_def kvGet_def)

text \<open>The stored lifecycle revision is a number.\<close>

definition rev_ok :: "registry \<Rightarrow> bool" where
  "rev_ok s \<longleftrightarrow> rx_test RX_COUNT (kv_or ''lifecycle:revision'' ''0'' s)"

definition agrees :: "registry \<Rightarrow> registry \<Rightarrow> bool" where
  "agrees s t \<longleftrightarrow> rg_data s = rg_data t \<and> kv_or ''instance_id'' [] s = kv_or ''instance_id'' [] t \<and> rev_ok s = rev_ok t"

definition parallel :: "'a registry_op \<Rightarrow> bool" where
  "parallel f \<longleftrightarrow> (\<forall>s t. agrees s t \<longrightarrow> fst (f s) = fst (f t) \<and> agrees (snd (f s)) (snd (f t)))"

lemma parallelD: "parallel f \<Longrightarrow> agrees s t \<Longrightarrow> fst (f s) = fst (f t) \<and> agrees (snd (f s)) (snd (f t))"
  by (auto simp: parallel_def)

lemma agrees_tables [simp]: "agrees s t \<Longrightarrow> agrees (to_tables f s) (to_tables f t)"
  by (simp add: agrees_def kv_or_def rev_ok_def)

lemma agrees_data: "agrees s t \<Longrightarrow> agrees (s\<lparr>rg_data := d\<rparr>) (t\<lparr>rg_data := d\<rparr>)"
  by (simp add: agrees_def kv_or_def rev_ok_def)

lemma agrees_kv [simp]: "agrees s t \<Longrightarrow> agrees (kvSet k v s) (kvSet k v t)" "agrees s t \<Longrightarrow> agrees (kvDelete k s) (kvDelete k t)"
  by (auto simp: agrees_def kv_or_def rev_ok_def)

lemma parallel_done: "parallel (\<lambda>s. (Inr u, s))" "parallel (\<lambda>s. (Inl e, s))"
  by (simp_all add: parallel_def)

lemma parallel_put_row [simp]: "parallel (put_row t pk r)"
  by (auto simp: parallel_def put_row_def split: option.split)

lemma parallel_event: "parallel (upsertEvent e tx)"
  by (auto simp: parallel_def upsertEvent_def agrees_data Let_def split: option.split) (auto simp: agrees_def kv_or_def rev_ok_def)

lemma parallel_event_v2: "parallel (upsertEventV2 rs mk e tx)"
  by (auto simp: parallel_def upsertEventV2_def Let_def split: option.split prod.split) (auto simp: agrees_def kv_or_def rev_ok_def)

lemma parallel_product: "parallel (put_product e tx)"
  unfolding parallel_def put_product_def Let_def by (auto simp: put_row_def split: option.split)

lemma parallel_run: "parallel (put_run e tx)" and parallel_operation: "parallel (put_operation e tx)"
  by (simp_all add: put_run_def put_operation_def)

lemma parallel_kv: "parallel (put_kv e)"
  by (auto simp: parallel_def put_kv_def split: option.split json.split)

lemma parallel_doc: "parallel (put_doc e tx)"
  unfolding parallel_def put_doc_def Let_def by (auto simp: put_row_def split: option.split)

lemma parallel_take: "parallel (bootstrap_take u tx)"
  unfolding parallel_def bootstrap_take_def by (auto simp: Let_def agrees_def split: option.split) (auto simp: kv_or_def rev_ok_def)

lemma parallel_generation: "parallel (put_generation e tx)"
  by (simp add: put_generation_def)

lemma parallel_set_active: "parallel (set_active b tx r)"
  by (auto simp: parallel_def set_active_def split: option.split)

lemma parallel_bind:
  assumes "parallel f" "\<And>x. parallel (g x)"
  shows "parallel (\<lambda>s. case f s of (Inl e, s1) \<Rightarrow> (Inl e, s1) | (Inr x, s1) \<Rightarrow> g x s1)"
  unfolding parallel_def
proof (intro allI impI)
  fix s t assume a: "agrees s t"
  obtain r s1 where s: "f s = (r, s1)" by (cases "f s")
  obtain t1 where t: "f t = (r, t1)" "agrees s1 t1" using parallelD [OF assms(1) a] s by (cases "f t") auto
  show "fst (case f s of (Inl e, s1) \<Rightarrow> (Inl e, s1) | (Inr x, s1) \<Rightarrow> g x s1) = fst (case f t of (Inl e, s1) \<Rightarrow> (Inl e, s1) | (Inr x, s1) \<Rightarrow> g x s1) \<and>
      agrees (snd (case f s of (Inl e, s1) \<Rightarrow> (Inl e, s1) | (Inr x, s1) \<Rightarrow> g x s1)) (snd (case f t of (Inl e, s1) \<Rightarrow> (Inl e, s1) | (Inr x, s1) \<Rightarrow> g x s1))"
    using s t parallelD [OF assms(2)] by (cases r) auto
qed

lemma parallel_cas: "parallel (cas_generation slug expected nxt tx)"
  unfolding parallel_def
proof (intro allI impI)
  fix s t assume a: "agrees s t"
  define cur where "cur = active_generation slug t"
  define target where "target = (if nxt = SNull then None else generation_row slug nxt t)"
  have e: "active_generation slug s = cur" "(if nxt = SNull then None else generation_row slug nxt s) = target"
    using a by (simp_all add: cur_def target_def active_generation_def generation_row_def agrees_def)
  have off: "parallel (\<lambda>s. case cur of None \<Rightarrow> (Inr (), s) | Some r \<Rightarrow> set_active False tx r s)"
    by (cases cur) (simp_all add: parallel_done parallel_set_active)
  have on: "parallel (\<lambda>s. case target of None \<Rightarrow> (Inr (), s) | Some r \<Rightarrow> set_active True tx r s)"
    by (cases target) (simp_all add: parallel_done parallel_set_active)
  have "parallel (\<lambda>s1. case (case target of None \<Rightarrow> (Inr (), s1) | Some r \<Rightarrow> set_active True tx r s1) of
      (Inl e, s2) \<Rightarrow> (Inl e, s2) | (Inr _, s2) \<Rightarrow> (Inr True, s2))" for u :: unit
    by (rule parallel_bind [OF on]) (rule parallel_done)
  note p = parallelD [OF parallel_bind [OF off, of "\<lambda>_ s1. case (case target of None \<Rightarrow> (Inr (), s1) | Some r \<Rightarrow> set_active True tx r s1) of
      (Inl e, s2) \<Rightarrow> (Inl e, s2) | (Inr _, s2) \<Rightarrow> (Inr True, s2)", OF this] a]
  show "fst (cas_generation slug expected nxt tx s) = fst (cas_generation slug expected nxt tx t) \<and>
      agrees (snd (cas_generation slug expected nxt tx s)) (snd (cas_generation slug expected nxt tx t))"
    unfolding cas_generation_def Let_def e cur_def [symmetric] target_def [symmetric] using p a by simp
qed

lemma parallel_each: "(\<And>e. parallel (f e)) \<Longrightarrow> parallel (each_entry f vs)"
proof (induction vs)
  case Nil
  then show ?case by (simp add: parallel_def)
next
  case (Cons v vs)
  show ?case
  proof (cases v)
    case (JObj e)
    have "parallel (\<lambda>s. case f e s of (Inl err, s1) \<Rightarrow> (Inl err, s1) | (Inr _, s1) \<Rightarrow> each_entry f vs s1)"
      by (rule parallel_bind) (use Cons in simp_all)
    then show ?thesis using JObj by (simp add: parallel_def)
  qed (simp_all add: parallel_def)
qed

lemma parallel_each_of: "(\<And>e. parallel (f e)) \<Longrightarrow> parallel (each_of u k f)"
  using parallel_each [of f] by (auto simp: parallel_def each_of_def split: option.split json.split)

lemma parallel_bump: "parallel bump_revision"
  by (auto simp: parallel_def bump_revision_def agrees_def rev_ok_def Let_def) (auto simp: kv_or_def rx_count dec_str_count)

lemma parallel_apply_cas: "parallel (apply_cas u tx)"
proof -
  have "parallel (\<lambda>s. case cas_generation slug expected nxt tx s of
      (Inl e, s1) \<Rightarrow> (Inl e, s1) | (Inr ok, s1) \<Rightarrow> (Inr (), kvSet (''lifecycle:cas:'' @ tx) (if ok then ''1'' else ''0'') s1))"
    for slug expected nxt
    by (rule parallel_bind [OF parallel_cas]) (simp add: parallel_def)
  then show ?thesis by (auto simp: parallel_def apply_cas_def split: option.split json.split)
qed

lemma parallel_if: "parallel f \<Longrightarrow> parallel g \<Longrightarrow> parallel (\<lambda>s. if b then f s else g s)"
  by (simp add: parallel_def)

lemma parallel_option:
  "(\<And>y. parallel (f y)) \<Longrightarrow> parallel (\<lambda>s. case x of None \<Rightarrow> (Inl e, s) | Some y \<Rightarrow> f y s)"
  by (cases x) (simp_all add: parallel_done)

lemma parallel_lifecycle: "parallel (apply_lifecycle u tx)"
proof -
  have "parallel (\<lambda>s. case each_entry (\<lambda>e. put_generation e tx) vs s of
             (Inl e, s1) \<Rightarrow> (Inl e, s1)
           | (Inr _, s1) \<Rightarrow>
               (case apply_cas u tx s1 of
                  (Inl e, s2) \<Rightarrow> (Inl e, s2)
                | (Inr _, s2) \<Rightarrow> if vs \<noteq> [] \<or> jget u ''cas'' \<noteq> None then bump_revision s2 else (Inr (), s2)))" for vs
    by (intro parallel_bind parallel_each parallel_generation parallel_apply_cas parallel_if parallel_bump parallel_done)
  then show ?thesis unfolding apply_lifecycle_def [abs_def] Let_def by (rule parallel_option)
qed

lemma parallel_catalog: "parallel (apply_catalog u)"
proof -
  have none: "catalog_field u k c = None \<longleftrightarrow> catalog_field u k None = None" for k c
    by (auto simp: catalog_field_def split: option.splits json.splits)
  have cat: "agrees s t \<Longrightarrow> agrees (s\<lparr>rg_catalog := c\<rparr>) (t\<lparr>rg_catalog := d\<rparr>)" for s t c d
    by (simp add: agrees_def kv_or_def rev_ok_def)
  define ok where "ok \<longleftrightarrow> catalog_field u ''highest_revision'' None \<noteq> None \<and> catalog_field u ''hash'' None \<noteq> None"
  have c: "if ok then \<exists>c. apply_catalog u s = (Inr (), s\<lparr>rg_catalog := c\<rparr>) else apply_catalog u s = (Inl Thrown, s)" for s
    using none [of "''highest_revision''" "fst (catalogMeta s)"] none [of "''hash''" "snd (catalogMeta s)"]
    by (cases "catalog_field u ''highest_revision'' (fst (catalogMeta s))"; cases "catalog_field u ''hash'' (snd (catalogMeta s))")
      (auto simp: ok_def apply_catalog_def)
  show ?thesis unfolding parallel_def
  proof (intro allI impI)
    fix s t assume "agrees s t"
    then show "fst (apply_catalog u s) = fst (apply_catalog u t) \<and> agrees (snd (apply_catalog u s)) (snd (apply_catalog u t))"
      using c [of s] c [of t] cat by (cases ok) auto
  qed
qed

lemma parallel_kind: "parallel (apply_kind nc rs mk tx kind u)"
proof -
  have ev: "parallel (if isEventEntryV2 e then upsertEventV2 rs mk e tx else upsertEvent e tx)" for e
    by (simp add: parallel_event parallel_event_v2)
  note each = parallel_each_of [OF ev] parallel_each_of [OF parallel_put_row] parallel_each_of [OF parallel_run]
    parallel_each_of [OF parallel_product] parallel_each_of [OF parallel_operation] parallel_each_of [OF parallel_kv]
    parallel_each_of [OF parallel_doc]
  show ?thesis
    unfolding apply_kind_def
    by (simp add: each parallel_done parallel_take parallel_lifecycle parallel_catalog)
qed

lemma parallel_mutation:
  "parallel (applyMutation nc rs mk tx v)" "parallel (applyBatch nc rs mk tx vs)"
proof -
  have "(\<forall>s t. agrees s t \<longrightarrow> fst (applyMutation nc rs mk tx v s) = fst (applyMutation nc rs mk tx v t) \<and>
      agrees (snd (applyMutation nc rs mk tx v s)) (snd (applyMutation nc rs mk tx v t)))" if "size v < n" for n v
    using that
  proof (induction n arbitrary: v)
    case (Suc n)
    have batch: "parallel (applyBatch nc rs mk tx vs)" if "size_list size vs \<le> n" for vs
      using that
    proof (induction vs)
      case Nil
      then show ?case by (simp add: parallel_def)
    next
      case (Cons w ws)
      have "parallel (applyMutation nc rs mk tx w)" using Suc.IH [of w] Cons.prems by (simp add: parallel_def)
      then have "parallel (\<lambda>s. case applyMutation nc rs mk tx w s of (Inl e, s1) \<Rightarrow> (Inl e, s1) | (Inr _, s1) \<Rightarrow> applyBatch nc rs mk tx ws s1)"
        by (rule parallel_bind) (use Cons in simp)
      then show ?case by (simp add: parallel_def)
    qed
    show ?case
    proof (cases v)
      case (JObj u)
      have "parallel (applyBatch nc rs mk tx vs)" if "jget u ''mutations'' = Some (JArr vs)" for vs
        by (rule batch) (use jget_size [OF that] Suc.prems JObj in simp)
      then show ?thesis using JObj parallel_kind [of nc rs mk tx _ u]
        by (auto simp: applyMutation.simps parallel_def split: option.split json.split)
    qed (simp_all add: applyMutation.simps)
  qed simp
  then show m: "parallel (applyMutation nc rs mk tx v)" for v unfolding parallel_def by blast
  show "parallel (applyBatch nc rs mk tx vs)"
  proof (induction vs)
    case Nil
    then show ?case by (simp add: parallel_def)
  next
    case (Cons w ws)
    have "parallel (\<lambda>s. case applyMutation nc rs mk tx w s of (Inl e, s1) \<Rightarrow> (Inl e, s1) | (Inr _, s1) \<Rightarrow> applyBatch nc rs mk tx ws s1)"
      by (rule parallel_bind [OF m Cons])
    then show ?case by (simp add: parallel_def)
  qed
qed

lemma agrees_cursors: "agrees s t \<Longrightarrow> agrees (index_cursors rs tx ls s) (index_cursors rs tx ls t)"
proof (induction ls arbitrary: s t)
  case (Cons l ls)
  have "kv_or ''instance_id'' [] s = kv_or ''instance_id'' [] t" using Cons.prems by (simp add: agrees_def)
  then show ?case using Cons by (auto split: option.split)
qed simp

lemma parallel_markers: "parallel (apply_markers nc rs mks)"
proof (induction mks)
  case Nil
  then show ?case by (simp add: parallel_def)
next
  case (Cons mk mks)
  have m: "parallel (\<lambda>s. applyMutation nc rs mk (mk_tx mk) (mk_mutation mk) (index_cursors rs (mk_tx mk) (mk_records mk) s))"
    using parallelD [OF parallel_mutation(1) agrees_cursors] by (simp add: parallel_def)
  have "parallel (apply_marker nc rs mk)" unfolding apply_marker_def
    by (rule parallel_bind [OF m]) (simp add: parallel_def)
  then have "parallel (\<lambda>s. case apply_marker nc rs mk s of (Inl e, s1) \<Rightarrow> (Inl e, s1) | (Inr _, s1) \<Rightarrow> apply_markers nc rs mks s1)"
    by (rule parallel_bind [OF _ Cons])
  then show ?case by (simp add: parallel_def)
qed

section \<open>Rebuilding\<close>

definition fresh_registry :: "string \<Rightarrow> registry" where
  "fresh_registry i = kvSet ''instance_id'' i empty_registry"

lemma markers_last:
  "apply_markers nc rs mks s = (Inr u, t) \<Longrightarrow> mks \<noteq> [] \<Longrightarrow> lastIndexedTx t = Some (mk_tx (last mks))"
proof (induction mks arbitrary: s)
  case (Cons mk mks)
  obtain s1 where s1: "apply_marker nc rs mk s = (Inr (), s1)" "apply_markers nc rs mks s1 = (Inr u, t)"
    using Cons.prems(1) by (auto split: prod.splits sum.splits)
  then show ?case using Cons.IH by (cases "mks = []") (auto simp: lastIndexedTx_def apply_marker_def split: prod.splits sum.splits)
qed simp

lemma markers_append:
  "apply_markers nc rs (a @ b) s = (case apply_markers nc rs a s of (Inl e, s1) \<Rightarrow> (Inl e, s1) | (Inr _, s1) \<Rightarrow> apply_markers nc rs b s1)"
  by (induction a arbitrary: s) (auto split: prod.split sum.split)

lemma fresh_rev_ok: "rev_ok (fresh_registry i)"
  unfolding rev_ok_def rx_count by (simp add: kv_or_def fresh_registry_def is_count_def is_digit_def) (simp add: kvGet_def empty_registry_def is_digit_def)

lemma fresh_instance [simp]: "kvGet ''instance_id'' (fresh_registry i) = Some i"
  by (simp add: fresh_registry_def)

lemma rebuild_from_journal:
  assumes "kvGet ''instance_id'' s = Some i" and "rev_ok s"
  shows "case apply_markers nc rs mks (fresh_registry i) of
      (Inl e, _) \<Rightarrow> rebuildFromJournal nc rs mks s = (Inl e, s)
    | (Inr _, t) \<Rightarrow> \<exists>s'. rebuildFromJournal nc rs mks s = (Inr (), s') \<and> rg_data s' = rg_data t \<and>
        lastIndexedTx s' = Some (if mks = [] then ''0'' else mk_tx (last mks))"
proof -
  have a: "agrees (s\<lparr>rg_data := []\<rparr>) (fresh_registry i)"
    using assms fresh_rev_ok [of i] by (simp add: agrees_def rev_ok_def kv_or_def) (simp add: fresh_registry_def empty_registry_def)
  obtain r t where t: "apply_markers nc rs mks (fresh_registry i) = (r, t)" by (cases "apply_markers nc rs mks (fresh_registry i)")
  obtain s1 where s1: "apply_markers nc rs mks (s\<lparr>rg_data := []\<rparr>) = (r, s1)" "agrees s1 t"
    using parallelD [OF parallel_markers a, of nc rs mks] t by (cases "apply_markers nc rs mks (s\<lparr>rg_data := []\<rparr>)") auto
  show ?thesis
  proof (cases r)
    case (Inl e)
    then show ?thesis using t s1 by (simp add: rebuildFromJournal_def inTx_def)
  next
    case (Inr u)
    then show ?thesis using t s1 markers_last [of nc rs mks "s\<lparr>rg_data := []\<rparr>" u s1]
      by (auto simp: rebuildFromJournal_def inTx_def agrees_def lastIndexedTx_def)
  qed
qed

text \<open>C17.  The registry is a derived index: rebuilding it from the journal, whatever its tables hold,
  gives the tables that applying the same markers one after the other to a new database of the
  instance gives, and the last indexed transaction is the last marker's; when a marker cannot be
  applied, both refuse it with the same error and the rebuild changes nothing.\<close>

theorem rebuild_equals_application:
  assumes "kvGet ''instance_id'' s = Some i" and "rev_ok s"
  shows "case apply_markers nc rs mks (fresh_registry i) of
      (Inl e, _) \<Rightarrow> rebuildFromJournal nc rs mks s = (Inl e, s)
    | (Inr _, t) \<Rightarrow> \<exists>s'. rebuildFromJournal nc rs mks s = (Inr (), s') \<and> rg_data s' = rg_data t \<and>
        lastIndexedTx s' = Some (if mks = [] then ''0'' else mk_tx (last mks))"
  by (rule rebuild_from_journal [OF assms])

section \<open>The active pointer\<close>

definition generations :: "registry \<Rightarrow> row list" where
  "generations s = rows (rg_data s) ''lifecycle_generations''"

definition key_of :: "row \<Rightarrow> sqlval \<times> sqlval" where
  "key_of r = (col r ''slug'', col r ''generation'')"

definition active_set :: "registry \<Rightarrow> (sqlval \<times> sqlval) set" where
  "active_set s = key_of ` {r\<in>set (generations s). col r ''active'' = SInt 1}"

text \<open>Generations are distinct, and a product has one active generation at most.\<close>

definition one_active :: "registry \<Rightarrow> bool" where
  "one_active s \<longleftrightarrow> distinct (map key_of (generations s)) \<and> single_valued (active_set s) \<and>
     (\<forall>r\<in>set (generations s). col r ''generation'' \<noteq> SNull)"

definition active_pointer :: "sqlval \<Rightarrow> registry \<Rightarrow> sqlval" where
  "active_pointer slug s = (case active_generation slug s of None \<Rightarrow> SNull | Some r \<Rightarrow> col r ''generation'')"

lemma col_set [simp]: "col (set_col c v r) k = (if k = c then v else col r k)"
  by (simp add: col_def set_col_def)

lemma rows_aput [simp]: "rows (aput t rs db) q = (if q = t then rs else rows db q)"
  by (simp add: rows_def)

lemma same_generation: "same_key GENERATION_KEY r q \<longleftrightarrow> key_of r = key_of q"
  by (simp add: same_key_def GENERATION_KEY_def key_of_def)

lemma active_generation_Some:
  "active_generation slug s = Some r \<Longrightarrow> r \<in> set (generations s) \<and> col r ''slug'' = slug \<and> col r ''active'' = SInt 1"
  unfolding active_generation_def generations_def by (auto simp: find_Some_iff)

lemma active_pointer_Some:
  assumes "one_active s" "active_pointer slug s = g"
  shows "g \<noteq> SNull \<Longrightarrow> (slug, g) \<in> active_set s" "g = SNull \<Longrightarrow> slug \<notin> Domain (active_set s)"
proof -
  show "(slug, g) \<in> active_set s" if "g \<noteq> SNull"
    using assms(2) that active_generation_Some [of slug s]
    by (force simp: active_pointer_def active_set_def key_of_def split: option.splits)
  show "slug \<notin> Domain (active_set s)" if n: "g = SNull"
  proof (cases "active_generation slug s")
    case None
    then show ?thesis unfolding active_generation_def generations_def [symmetric] find_None_iff
      by (auto simp: active_set_def key_of_def)
  next
    case (Some r)
    then show ?thesis using active_generation_Some [OF Some] assms n by (auto simp: active_pointer_def one_active_def)
  qed
qed

lemma active_pointer_iff:
  assumes "one_active s"
  shows "active_pointer slug s = g \<longleftrightarrow> (if g = SNull then slug \<notin> Domain (active_set s) else (slug, g) \<in> active_set s)"
proof -
  have sv: "single_valued (active_set s)" using assms by (simp add: one_active_def)
  obtain h where h: "active_pointer slug s = h" by blast
  have null: "(slug, SNull) \<notin> active_set s" using assms by (auto simp: one_active_def active_set_def key_of_def)
  note p = active_pointer_Some [OF assms h]
  show ?thesis
  proof (cases "h = SNull")
    case True
    then show ?thesis using h p(2) by auto
  next
    case False
    then show ?thesis using h p(1) null single_valuedD [OF sv, of slug h g] by auto
  qed
qed

text \<open>Switching a row on or off changes the activity of that generation alone.\<close>

lemma set_active_effect:
  assumes "set_active b tx r s = (Inr u, s')" and "key_of r \<in> set (map key_of (generations s))"
  shows "map key_of (generations s') = map key_of (generations s)"
    and "active_set s' = (if b then insert (key_of r) (active_set s) else active_set s - {key_of r})"
proof -
  obtain doc where d: "s' = to_tables (update_rows ''lifecycle_generations'' (same_key GENERATION_KEY r)
             (\<lambda>q. set_col ''tx'' (SText tx) (set_col ''row_json'' doc (set_col ''active'' (flag b) q)))) s"
    using assms(1) by (auto simp: set_active_def split: option.splits)
  define g where "g q = set_col ''tx'' (SText tx) (set_col ''row_json'' doc (set_col ''active'' (flag b) q))" for q
  have g: "key_of (g q) = key_of q" "col (g q) ''active'' = flag b" for q by (simp_all add: g_def key_of_def)
  have s': "generations s' = map (\<lambda>q. if key_of r = key_of q then g q else q) (generations s)"
    by (simp add: d generations_def update_rows_def g_def same_generation)
  show "map key_of (generations s') = map key_of (generations s)" by (simp add: s' g)
  have one: "flag b = SInt 1 \<longleftrightarrow> b" by (simp add: flag_def)
  have img: "key_of ` {r\<in>set (map F xs). col r ''active'' = SInt 1} = {k. \<exists>q\<in>set xs. k = key_of (F q) \<and> col (F q) ''active'' = SInt 1}"
    for F :: "row \<Rightarrow> row" and xs by auto
  have new: "active_set s' = {k. \<exists>q\<in>set (generations s). k = key_of q \<and> (if key_of r = key_of q then b else col q ''active'' = SInt 1)}"
    unfolding active_set_def s' img by (intro Collect_cong bex_cong refl) (simp add: g one)
  have old: "active_set s = {k. \<exists>q\<in>set (generations s). k = key_of q \<and> col q ''active'' = SInt 1}"
    by (auto simp: active_set_def)
  show "active_set s' = (if b then insert (key_of r) (active_set s) else active_set s - {key_of r})"
  proof (rule set_eqI)
    fix k
    show "k \<in> active_set s' \<longleftrightarrow> k \<in> (if b then insert (key_of r) (active_set s) else active_set s - {key_of r})"
    proof (cases "k = key_of r")
      case True
      have "k \<in> active_set s' \<longleftrightarrow> b" using assms(2) True unfolding new by force
      then show ?thesis using True by simp
    next
      case False
      then have "k \<in> active_set s' \<longleftrightarrow> k \<in> active_set s" unfolding new old mem_Collect_eq by metis
      then show ?thesis using False by simp
    qed
  qed
qed

lemma set_active_one:
  assumes "set_active b tx r s = (Inr u, s')" and "key_of r \<in> set (map key_of (generations s))" and "one_active s"
    and "b \<longrightarrow> col r ''slug'' \<notin> Domain (active_set s)"
  shows "one_active s'"
proof -
  note e = set_active_effect [OF assms(1,2)]
  have keys: "col q ''generation'' \<noteq> SNull" if "q \<in> set (generations s')" for q
  proof -
    have "key_of q \<in> set (map key_of (generations s))" unfolding e(1) [symmetric] using that by simp
    then show ?thesis using assms(3) by (auto simp: one_active_def key_of_def)
  qed
  have "single_valued (active_set s')"
    using assms(3,4) by (cases b) (auto simp: e(2) one_active_def single_valued_def key_of_def)
  then show ?thesis using assms(3) keys by (simp add: one_active_def e(1))
qed

text \<open>C29.  The active pointer of a product moves by compare-and-set: whatever else happens, one generation
  at most is active; the move succeeds exactly when the pointer is the expected one and the next
  generation is null or stored; then the pointer is the next one, otherwise nothing changes, and the
  pointers of the other products never move.\<close>

theorem active_pointer_cas:
  assumes "one_active s" and "cas_generation slug expected nxt tx s = (Inr ok, s')"
  shows "one_active s' \<and>
    (ok \<longleftrightarrow> active_pointer slug s = expected \<and> (nxt = SNull \<or> generation_row slug nxt s \<noteq> None)) \<and>
    (ok \<longrightarrow> active_pointer slug s' = nxt) \<and> (\<not> ok \<longrightarrow> s' = s) \<and>
    (\<forall>q. q \<noteq> slug \<longrightarrow> active_pointer q s' = active_pointer q s)"
proof -
  define cur where "cur = active_generation slug s"
  define target where "target = (if nxt = SNull then None else generation_row slug nxt s)"
  have cur: "r \<in> set (generations s)" "col r ''slug'' = slug" "col r ''generation'' = active_pointer slug s" "active_pointer slug s \<noteq> SNull"
    if "cur = Some r" for r
    using that active_generation_Some [of slug s r] assms(1) by (auto simp: cur_def active_pointer_def one_active_def)
  have target: "key_of r = (slug, nxt)" "r \<in> set (generations s)" "nxt \<noteq> SNull" if "target = Some r" for r
    using that by (auto simp: target_def generation_row_def find_Some_iff key_of_def generations_def split: if_splits)
  have no: "(case cur of None \<Rightarrow> SNull | Some r \<Rightarrow> col r ''generation'') = active_pointer slug s"
    by (simp add: cur_def active_pointer_def)
  note unf = assms(2) [unfolded cas_generation_def Let_def cur_def [symmetric] target_def [symmetric] no]
  show ?thesis
  proof (cases "active_pointer slug s \<noteq> expected \<or> nxt \<noteq> SNull \<and> target = None")
    case True
    then show ?thesis using unf assms(1) by (auto simp: target_def split: if_splits)
  next
    case False
    obtain s1 where s1: "(case cur of None \<Rightarrow> (Inr (), s) | Some r \<Rightarrow> set_active False tx r s) = (Inr (), s1)"
        "(case target of None \<Rightarrow> (Inr (), s1) | Some r \<Rightarrow> set_active True tx r s1) = (Inr (), s')" and ok: "ok"
      using unf False by (auto split: prod.splits sum.splits)
    have off: "one_active s1" "map key_of (generations s1) = map key_of (generations s)"
        "active_set s1 = {k\<in>active_set s. fst k \<noteq> slug}"
    proof -
      have "one_active s1 \<and> map key_of (generations s1) = map key_of (generations s) \<and> active_set s1 = {k\<in>active_set s. fst k \<noteq> slug}"
      proof (cases cur)
        case None
        then have "slug \<notin> Domain (active_set s)" using active_pointer_Some(2) [OF assms(1) refl, of slug] by (simp add: cur_def active_pointer_def)
        then have "active_set s = {k\<in>active_set s. fst k \<noteq> slug}" by (auto simp: Domain_iff)
        then show ?thesis using None s1(1) assms(1) by simp
      next
        case (Some r)
        note r = cur [OF Some]
        have k: "key_of r \<in> set (map key_of (generations s))" using r(1) by simp
        have kr: "key_of r = (slug, active_pointer slug s)" using r by (simp add: key_of_def)
        have e: "set_active False tx r s = (Inr (), s1)" using s1(1) Some by simp
        have u: "q = active_pointer slug s" if "(slug, q) \<in> active_set s" for q
          using that active_pointer_Some(1) [OF assms(1) refl r(4)] assms(1) unfolding one_active_def single_valued_def by blast
        have "active_set s - {key_of r} = {k\<in>active_set s. fst k \<noteq> slug}"
          unfolding kr by (auto dest: u)
        then show ?thesis using set_active_effect [OF e k] set_active_one [OF e k assms(1)] by simp
      qed
      then show "one_active s1" "map key_of (generations s1) = map key_of (generations s)"
        "active_set s1 = {k\<in>active_set s. fst k \<noteq> slug}" by blast+
    qed
    have on: "one_active s'" "active_set s' = (if nxt = SNull then active_set s1 else insert (slug, nxt) (active_set s1))"
    proof -
      have "one_active s' \<and> active_set s' = (if nxt = SNull then active_set s1 else insert (slug, nxt) (active_set s1))"
      proof (cases target)
        case None
        then show ?thesis using s1(2) off(1) False by (auto simp: target_def split: if_splits)
      next
        case (Some r)
        note r = target [OF Some]
        have k: "key_of r \<in> set (map key_of (generations s1))" using r(2) by (simp add: off(2))
        have e: "set_active True tx r s1 = (Inr (), s')" using s1(2) Some by simp
        have "col r ''slug'' \<notin> Domain (active_set s1)" using r(1) by (auto simp: off(3) key_of_def)
        then show ?thesis using set_active_effect [OF e k] set_active_one [OF e k off(1)] r by simp
      qed
      then show "one_active s'" "active_set s' = (if nxt = SNull then active_set s1 else insert (slug, nxt) (active_set s1))" by blast+
    qed
    have p: "active_pointer slug s' = nxt" unfolding active_pointer_iff [OF on(1)] by (auto simp: on(2) off(3))
    have q: "active_pointer q s' = active_pointer q s" if "q \<noteq> slug" for q
      unfolding active_pointer_iff [OF on(1)] using that active_pointer_iff [OF assms(1), of q "active_pointer q s"]
      by (auto simp: on(2) off(3) Domain_iff split: if_splits)
    show ?thesis using on(1) p q ok False by (auto simp: target_def)
  qed
qed

section \<open>Rival events\<close>

definition events :: "registry \<Rightarrow> row list" where
  "events s = rows (rg_data s) ''events''"

definition slot :: "row \<Rightarrow> sqlval list" where "slot r = map (col r) SLOT"
definition event_key :: "row \<Rightarrow> sqlval list" where "event_key r = map (col r) EVENT_KEY"

text \<open>The slot an entry names.\<close>

definition event_slot :: "jobj \<Rightarrow> sqlval option list" where "event_slot e = map snd (slot_of e)"

lemma event_key_slot: "event_key r = slot r @ [col r ''hash'']"
  by (simp add: event_key_def slot_def EVENT_KEY_def)

lemma same_slot: "same_key SLOT r q \<longleftrightarrow> slot r = slot q"
  by (simp add: same_key_def slot_def SLOT_def)

lemma same_event: "same_key EVENT_KEY r q \<longleftrightarrow> event_key r = event_key q"
  by (simp add: same_key_def event_key_def EVENT_KEY_def SLOT_def)

lemma slot_set_conflict [simp]: "slot (set_col ''conflict'' v r) = slot r" "event_key (set_col ''conflict'' v r) = event_key r"
  by (simp_all add: slot_def event_key_def SLOT_def EVENT_KEY_def)

lemma length_two_distinct:
  assumes "distinct (map f xs)"
  shows "1 < length xs \<longleftrightarrow> (\<exists>x\<in>set xs. \<exists>y\<in>set xs. f x \<noteq> f y)"
proof (cases xs)
  case (Cons x ys)
  then show ?thesis using assms by (cases ys) auto
qed simp

lemma row_of_Some: "row_of cs = Some r \<Longrightarrow> map Some (map snd r) = map snd cs \<and> map fst r = map fst cs"
  by (induction cs arbitrary: r) (auto split: option.splits)

text \<open>An event written by a legacy producer is stored once, under its slot and hash, and the rows
  of its slot are marked as being in conflict exactly when the slot holds an event with another hash;
  the events of the other slots stay as they are.\<close>

theorem event_conflict_marks_rivals:
  assumes "upsertEvent e tx s = (Inr (), s')" and "distinct (map event_key (events s))"
  shows "distinct (map event_key (events s')) \<and>
    (\<exists>r\<in>set (events s'). map Some (slot r) = event_slot e \<and> Some (col r ''hash'') = f_text e ''hash'') \<and>
    (\<forall>r\<in>set (events s'). map Some (slot r) = event_slot e \<longrightarrow>
       col r ''conflict'' = flag (\<exists>q\<in>set (events s'). slot q = slot r \<and> col q ''hash'' \<noteq> col r ''hash'')) \<and>
    filter (\<lambda>r. map Some (slot r) \<noteq> event_slot e) (events s') = filter (\<lambda>r. map Some (slot r) \<noteq> event_slot e) (events s)"
proof -
  obtain n where n: "row_of (slot_of e @
                [(''hash'', f_text e ''hash''), (''conflict'', Some (SInt 0)), (''lane'', f_text_opt e ''lane'' SNull),
                 (''segment'', f_text_opt e ''segment'' SNull), (''offset'', f_int_opt e ''offset'' SNull),
                 (''length'', f_int_opt e ''length'' SNull), (''tx'', Some (SText tx))]) = Some n"
    and s': "s' = s\<lparr>rg_data := mark_conflict n (1 < length (slot_rows n (insert_or_ignore ''events'' EVENT_KEY n (rg_data s))))
        (insert_or_ignore ''events'' EVENT_KEY n (rg_data s))\<rparr>"
    using assms(1) by (auto simp: upsertEvent_def Let_def split: if_splits option.splits)
  have e: "map Some (slot n) = event_slot e" "Some (col n ''hash'') = f_text e ''hash''"
    using n by (auto simp: slot_of_def event_slot_def slot_def SLOT_def col_def split: option.splits)
  define db where "db = (if list_ex (\<lambda>q. event_key n = event_key q) (events s) then events s else events s @ [n])"
  have db: "rows (insert_or_ignore ''events'' EVENT_KEY n (rg_data s)) ''events'' = db"
    by (simp add: insert_or_ignore_def same_event [abs_def] events_def db_def)
  have d: "distinct (map event_key db)" using assms(2) by (auto simp: db_def list_ex_iff)
  define b where "b \<longleftrightarrow> 1 < length (filter (\<lambda>q. slot n = slot q) db)"
  have ev: "events s' = map (\<lambda>r. if slot n = slot r then set_col ''conflict'' (flag b) r else r) db"
    by (simp add: s' events_def mark_conflict_def update_rows_def slot_rows_def db same_slot [abs_def] b_def)
  have k: "event_key x \<noteq> event_key y \<longleftrightarrow> col x ''hash'' \<noteq> col y ''hash''" if "slot n = slot x" "slot n = slot y" for x y
    unfolding event_key_slot that [symmetric] by simp
  have b: "b \<longleftrightarrow> (\<exists>x\<in>set db. \<exists>y\<in>set db. slot n = slot x \<and> slot n = slot y \<and> col x ''hash'' \<noteq> col y ''hash'')"
    unfolding b_def length_two_distinct [OF distinct_map_filter [OF d, of "\<lambda>q. slot n = slot q"]] set_filter
    using k by blast
  define m where "m r = (if slot n = slot r then set_col ''conflict'' (flag b) r else r)" for r
  have m: "slot (m r) = slot r" "event_key (m r) = event_key r" "col (m r) ''hash'' = col r ''hash''" for r by (simp_all add: m_def)
  have ev: "events s' = map m db" by (simp add: ev m_def)
  have one: "distinct (map event_key (events s'))" using d by (simp add: ev m comp_def)
  have "\<exists>q\<in>set db. event_key q = event_key n" by (auto simp: db_def list_ex_iff)
  then have two: "\<exists>r\<in>set (events s'). map Some (slot r) = event_slot e \<and> Some (col r ''hash'') = f_text e ''hash''"
    unfolding e [symmetric] by (auto simp: ev m event_key_slot)
  have eq: "map Some (slot r) = event_slot e \<longleftrightarrow> slot n = slot r" for r
    unfolding e(1) [symmetric] by (auto simp: inj_map_eq_map)
  have three: "col r ''conflict'' = flag (\<exists>q\<in>set (events s'). slot q = slot r \<and> col q ''hash'' \<noteq> col r ''hash'')"
    if r: "r \<in> set (events s')" "slot n = slot r" for r
  proof -
    have "b \<longleftrightarrow> (\<exists>q\<in>set db. slot q = slot r \<and> col q ''hash'' \<noteq> col r ''hash'')"
    proof -
      obtain r0 where r0: "r0 \<in> set db" "r = m r0" using r(1) by (auto simp: ev)
      have s0: "slot r0 = slot n" "col r ''hash'' = col r0 ''hash''" using r(2) r0 by (simp_all add: m)
      show ?thesis unfolding b s0 r(2) [symmetric] using r0(1) s0(1) by metis
    qed
    moreover have "(\<exists>q\<in>set (events s'). slot q = slot r \<and> col q ''hash'' \<noteq> col r ''hash'') \<longleftrightarrow>
        (\<exists>q\<in>set db. slot q = slot r \<and> col q ''hash'' \<noteq> col r ''hash'')" by (simp add: ev m)
    moreover have "col r ''conflict'' = flag b" using r by (auto simp: ev m_def)
    ultimately show ?thesis by simp
  qed
  have "filter (\<lambda>r. slot n \<noteq> slot r) (map m xs) = filter (\<lambda>r. slot n \<noteq> slot r) xs" for xs
    by (induction xs) (auto simp: m_def)
  then have four: "filter (\<lambda>r. slot n \<noteq> slot r) (events s') = filter (\<lambda>r. slot n \<noteq> slot r) (events s)"
    by (simp add: ev db_def)
  show ?thesis using one two three four by (simp add: eq)
qed

text \<open>The primary key has no \<open>raw_sha256\<close>: a second candidate with the hash of a stored event and other raw
  bytes is not kept, whatever the comment on \<open>upsertEventV2\<close> says.\<close>

lemma rival_raw_ignored:
  assumes "upsertEventV2 rs mk e tx s = (Inr (), s')" and "q \<in> set (events s)"
    and "map Some (slot q) = event_slot e" and "Some (col q ''hash'') = f_text e ''hash''"
  shows "map (\<lambda>r. (event_key r, col r ''raw_sha256'')) (events s') = map (\<lambda>r. (event_key r, col r ''raw_sha256'')) (events s)"
proof -
  obtain cu od la where p: "event_position rs mk e = (cu, od, la)" by (metis prod_cases3)
  define cs where "cs = slot_of e @
                   [(''hash'', f_text e ''hash''), (''conflict'', Some (SInt 0)), (''lane'', la), (''segment'', Some SNull),
                    (''offset'', Some SNull), (''length'', Some SNull), (''raw_sha256'', f_text e ''raw_sha256''),
                    (''topic'', f_text e ''topic''), (''profile'', f_text e ''profile''), (''media'', f_text e ''media''),
                    (''record_bytes'', f_text e ''record_bytes''), (''cursor'', cu), (''record_order'', od), (''tx'', Some (SText tx))]"
  define db where "db n = (if list_ex (\<lambda>q. same_key EVENT_KEY n q \<and> col q ''raw_sha256'' = col n ''raw_sha256'') (rows (rg_data s) ''events'')
      then rg_data s else insert_or_ignore ''events'' EVENT_KEY n (rg_data s))" for n
  define db1 where "db1 n = mark_conflict n (1 < length (remdups (map raw_or_hash (slot_rows n (db n))))) (db n)" for n
  obtain n where n: "row_of cs = Some n"
    and s': "s' = s\<lparr>rg_data := if jget e ''conflict'' = Some (JBool True) then mark_conflict n True (db1 n) else db1 n\<rparr>"
    using assms(1) unfolding upsertEventV2_def p prod.case cs_def [symmetric] Let_def db_def [symmetric] db1_def [symmetric]
    by (cases "row_of cs") (auto split: if_splits)
  have "map Some (slot n) = event_slot e" "Some (col n ''hash'') = f_text e ''hash''"
    using n by (auto simp: cs_def slot_of_def event_slot_def slot_def SLOT_def col_def split: option.splits)
  then have "map Some (slot n) = map Some (slot q)" "Some (col n ''hash'') = Some (col q ''hash'')" by (simp_all only: assms(3,4))
  then have "same_key EVENT_KEY n q" by (simp add: same_event event_key_slot inj_map_eq_map)
  then have "list_ex (same_key EVENT_KEY n) (rows (rg_data s) ''events'')" using assms(2) by (auto simp: list_ex_iff events_def)
  then have d: "db n = rg_data s" unfolding db_def insert_or_ignore_def by simp
  have m: "map (\<lambda>r. (event_key r, col r ''raw_sha256'')) (rows (mark_conflict n b d) ''events'') =
      map (\<lambda>r. (event_key r, col r ''raw_sha256'')) (rows d ''events'')" for b d
    by (simp add: mark_conflict_def update_rows_def)
  show ?thesis by (simp add: s' events_def m db1_def d)
qed

text \<open>Revisions are compared as text: revision 9 is listed before revision 10.\<close>

definition two_revisions :: registry where
  "two_revisions = empty_registry\<lparr>rg_data := [(''approvals'',
     [[(''home'', SText ''h''), (''request'', SText ''r''), (''revision'', SText ''9''), (''state'', SText ''PENDING''), (''tx'', SText ''1'')],
      [(''home'', SText ''h''), (''request'', SText ''r''), (''revision'', SText ''10''), (''state'', SText ''APPROVED''), (''tx'', SText ''2'')]])]\<rparr>"

lemma latest_revision_is_textual:
  "map (\<lambda>r. col r ''revision'') (approvalLookup ''h'' ''r'' two_revisions) = [SText ''9'', SText ''10'']"
  by code_simp

section \<open>Witnesses\<close>

definition peer_marker :: marker where
  "peer_marker = first_marker\<lparr>mk_mutation := JObj [(''v'', JNum 1), (''kind'', JStr ''peers''),
     (''peers'', JArr [JObj [(''id'', JStr ''p''), (''state'', JStr ''ACTIVE'')]])]\<rparr>"

lemma rebuild_equals_application_witness:
  "fst (apply_markers journal_crypto (\<lambda>_. None) [peer_marker] (fresh_registry ''i1'')) = Inr () \<and>
    (case apply_markers journal_crypto (\<lambda>_. None) [peer_marker] (fresh_registry ''i1'') of
      (Inl e, _) \<Rightarrow> rebuildFromJournal journal_crypto (\<lambda>_. None) [peer_marker] (fresh_registry ''i1'') = (Inl e, fresh_registry ''i1'')
    | (Inr _, t) \<Rightarrow> \<exists>s'. rebuildFromJournal journal_crypto (\<lambda>_. None) [peer_marker] (fresh_registry ''i1'') = (Inr (), s') \<and> rg_data s' = rg_data t \<and>
        lastIndexedTx s' = Some (if [peer_marker] = [] then ''0'' else mk_tx (last [peer_marker])))"
  by (intro conjI rebuild_equals_application fresh_instance fresh_rev_ok) code_simp

definition two_generations :: registry where
  "two_generations = empty_registry\<lparr>rg_data := [(''lifecycle_generations'',
     [[(''slug'', SText ''kit''), (''generation'', SText ''1''), (''active'', SInt 1), (''row_json'', SText ''{}''), (''tx'', SText ''1'')],
      [(''slug'', SText ''kit''), (''generation'', SText ''2''), (''active'', SInt 0), (''row_json'', SText ''{}''), (''tx'', SText ''2'')]])]\<rparr>"

lemma cas_example: "fst (cas_generation (SText ''kit'') (SText ''1'') (SText ''2'') ''3'' two_generations) = Inr True"
  by code_simp

lemma two_generations_ok: "one_active two_generations"
proof -
  have "active_set two_generations = {(SText ''kit'', SText ''1'')}"
  proof -
    have "active_set two_generations = set (map key_of (filter (\<lambda>r. col r ''active'' = SInt 1) (generations two_generations)))"
      by (auto simp: active_set_def)
    also have "\<dots> = {(SText ''kit'', SText ''1'')}" by (simp add: two_generations_def generations_def rows_def key_of_def col_def)
    finally show ?thesis .
  qed
  then show ?thesis unfolding one_active_def
    by (simp add: single_valued_def) (simp add: two_generations_def generations_def rows_def key_of_def col_def)
qed

lemma active_pointer_cas_witness:
  "\<exists>s'. cas_generation (SText ''kit'') (SText ''1'') (SText ''2'') ''3'' two_generations = (Inr True, s') \<and>
     one_active s' \<and> active_pointer (SText ''kit'') two_generations = SText ''1'' \<and> active_pointer (SText ''kit'') s' = SText ''2''"
proof -
  obtain s' where s': "cas_generation (SText ''kit'') (SText ''1'') (SText ''2'') ''3'' two_generations = (Inr True, s')"
    using surjective_pairing by (metis cas_example)
  show ?thesis using active_pointer_cas [OF two_generations_ok s'] s' by blast
qed

definition legacy_event :: jobj where
  "legacy_event = [(''workspace'', JStr ''w''), (''source'', JStr ''s''), (''stream'', JStr ''t''), (''seq'', JStr ''1''),
     (''hash'', JStr (replicate 64 CHR ''a''))]"

lemma legacy_event_shape: "event_shape legacy_event"
proof -
  have "isDecimalString ''1''" unfolding isDecimalString_def rx_count by (simp add: is_count_def is_digit_def radix_val_def char_digit_def)
  moreover have "isHex64 (replicate 64 CHR ''a'')" by code_simp
  ultimately show ?thesis by (simp add: event_shape_def legacy_event_def str_at_def jget_def)
qed

lemma event_conflict_marks_rivals_witness:
  "\<exists>s'. upsertEvent legacy_event ''7'' empty_registry = (Inr (), s') \<and> (\<exists>r\<in>set (events s'). map Some (slot r) = event_slot legacy_event)"
proof -
  have "row_of (slot_of legacy_event @
                [(''hash'', f_text legacy_event ''hash''), (''conflict'', Some (SInt 0)), (''lane'', f_text_opt legacy_event ''lane'' SNull),
                 (''segment'', f_text_opt legacy_event ''segment'' SNull), (''offset'', f_int_opt legacy_event ''offset'' SNull),
                 (''length'', f_int_opt legacy_event ''length'' SNull), (''tx'', Some (SText ''7''))]) \<noteq> None"
    by (simp add: legacy_event_def slot_of_def f_text_def f_text_opt_def f_int_opt_def jget_def)
  then have "upsertEvent legacy_event ''7'' empty_registry = (Inr (), snd (upsertEvent legacy_event ''7'' empty_registry))"
    using legacy_event_shape by (auto simp: upsertEvent_def Let_def split: option.split)
  from event_conflict_marks_rivals [OF this] this show ?thesis by (auto simp: events_def empty_registry_def rows_def)
qed

end
