(* ===== verification/Store_Recovery_Facts.thy ===== *)
theory Store_Recovery_Facts
  imports Store_Recovery Store_Registry_Facts
begin

text \<open>
  What the recovery of a state root promises: the registry ends with every marker applied once,
  wherever it stopped, and a lost registry is rebuilt.
\<close>

section \<open>Replay\<close>

lemma apply_commits_markers:
  "apply_markers nc rs ms s = (Inr (), t) \<Longrightarrow> apply_commits nc rs ms s = (Inr (), t)"
proof (induction ms arbitrary: s)
  case (Cons m ms)
  obtain s1 where "apply_marker nc rs m s = (Inr (), s1)" "apply_markers nc rs ms s1 = (Inr (), t)"
    using Cons.prems by (auto split: prod.splits sum.splits)
  then show ?case using Cons.IH by (simp add: applyCommit_def inTx_def)
qed simp

lemma chained_txs:
  assumes "chained nc ls (ms @ rest)" "ms \<noteq> []"
  shows "filter (\<lambda>m. tx_val (last ms) < tx_val m) (ms @ rest) = rest" "1 \<le> tx_val (last ms)"
proof -
  have s: "sorted_wrt (<) (map tx_val (ms @ rest))" and h: "tx_val (hd ms) = 1"
    using assms by (auto simp: chained_def hd_append)
  have le: "tx_val m \<le> tx_val (last ms)" if "m \<in> set ms" for m
    using s that by (cases ms rule: rev_cases) (auto simp: sorted_wrt_append less_imp_le)
  have "tx_val (last ms) < tx_val m" if "m \<in> set rest" for m
    using s that assms(2) by (auto simp: sorted_wrt_append)
  then show "filter (\<lambda>m. tx_val (last ms) < tx_val m) (ms @ rest) = rest" using le by (auto simp: not_less [symmetric] intro: filter_False)
  show "1 \<le> tx_val (last ms)" using le [of "hd ms"] h assms(2) by simp
qed

lemma catch_up_behind:
  assumes "chained nc ls (ms @ rest)" "ms \<noteq> []" "lastIndexedTx s = Some (mk_tx (last ms))"
    and "apply_markers nc rs rest s = (Inr (), t)"
  shows "catch_up nc rs (ms @ rest) s = (Inr (length rest), t)"
proof -
  have "mk_tx (last ms) \<noteq> ''0''" using chained_txs(2) [OF assms(1,2)] by (auto simp: radix_val_def char_digit_def)
  moreover have "mk_tx (last ms) \<in> set (map mk_tx (ms @ rest))" using assms(2) by simp
  ultimately show ?thesis
    using assms(2,3) apply_commits_markers [OF assms(4)] chained_txs(1) [OF assms(1,2)]
    by (simp add: catch_up_def Let_def del: filter_append)
qed

lemma catch_up_unknown:
  assumes k: "kvGet ''instance_id'' s = Some i" "rev_ok s" and ms: "ms \<noteq> []"
    and lost: "\<forall>x. lastIndexedTx s = Some x \<longrightarrow> x = ''0'' \<or> x \<notin> set (map mk_tx ms)"
    and t: "apply_markers nc rs ms (fresh_registry i) = (Inr (), t)"
  shows "\<exists>s'. catch_up nc rs ms s = (Inr (length ms), s') \<and> rg_data s' = rg_data t \<and> lastIndexedTx s' = Some (mk_tx (last ms))"
proof -
  obtain s' where s': "rebuildFromJournal nc rs ms s = (Inr (), s')" "rg_data s' = rg_data t" "lastIndexedTx s' = Some (mk_tx (last ms))"
    using rebuild_from_journal [OF k, of nc rs ms] t ms by auto
  have "catch_up nc rs ms s = (Inr (length ms), s')"
  proof (cases "lastIndexedTx s")
    case None
    then show ?thesis using ms s'(1) by (simp add: catch_up_def Let_def)
  next
    case (Some x)
    then have "x = ''0'' \<or> x \<notin> set (map mk_tx ms)" using lost by blast
    then show ?thesis using ms s'(1) Some by (auto simp: catch_up_def Let_def)
  qed
  then show ?thesis using s' by blast
qed

text \<open>C10.  Recovery brings the registry to the end of the journal, each marker applied once: a registry
  that holds the first markers of the chain replays the others and no more, one that knows none of
  the transactions is rebuilt from all of them, both end with the tables that the whole journal
  gives, and a second recovery applies nothing.\<close>

theorem catch_up_exactly_once:
  assumes c: "chained nc ls (ms @ rest)" and ne: "ms @ rest \<noteq> []"
    and s: "apply_markers nc rs ms (fresh_registry i) = (Inr (), s)"
    and t: "apply_markers nc rs (ms @ rest) (fresh_registry i) = (Inr (), t)"
    and u: "kvGet ''instance_id'' u = Some i" "rev_ok u"
    and lost: "\<forall>x. lastIndexedTx u = Some x \<longrightarrow> x = ''0'' \<or> x \<notin> set (map mk_tx (ms @ rest))"
  shows "(\<exists>s'. catch_up nc rs (ms @ rest) s = (Inr (length rest), s') \<and> rg_data s' = rg_data t \<and> catch_up nc rs (ms @ rest) s' = (Inr 0, s')) \<and>
    (\<exists>u'. catch_up nc rs (ms @ rest) u = (Inr (length (ms @ rest)), u') \<and> rg_data u' = rg_data t \<and> catch_up nc rs (ms @ rest) u' = (Inr 0, u'))"
proof -
  have again: "catch_up nc rs (ms @ rest) v = (Inr 0, v)" if "lastIndexedTx v = Some (mk_tx (last (ms @ rest)))" for v
    using catch_up_behind [of nc ls "ms @ rest" "[]"] c ne that by simp
  have last: "lastIndexedTx t = Some (mk_tx (last (ms @ rest)))" by (rule markers_last [OF t ne])
  have "\<exists>s'. catch_up nc rs (ms @ rest) s = (Inr (length rest), s') \<and> rg_data s' = rg_data t \<and> lastIndexedTx s' = Some (mk_tx (last (ms @ rest)))"
  proof (cases "ms = []")
    case True
    then have e: "s = fresh_registry i" using s by simp
    have "lastIndexedTx (fresh_registry i) = None" by (simp add: lastIndexedTx_def fresh_registry_def) (simp add: kvGet_def empty_registry_def)
    then show ?thesis using catch_up_unknown [OF fresh_instance fresh_rev_ok ne _ t] True by (simp add: e)
  next
    case False
    have "apply_markers nc rs rest s = (Inr (), t)" using t s by (simp add: markers_append)
    from catch_up_behind [OF c False markers_last [OF s False] this] show ?thesis using last by blast
  qed
  then show ?thesis using catch_up_unknown [OF u ne lost t] again by blast
qed

section \<open>What recovery does not repair\<close>

text \<open>A state root opened under another instance: the identity mismatch counts as a corrupt file, and the
  registry of the root is put aside.\<close>

lemma wrong_instance_replaces_registry:
  assumes "sd_registry d = Some r" "kvGet ''instance_id'' r = Some i" "j \<noteq> i"
  shows "open_or_replace (Some j) d = (kvSet ''instance_id'' j empty_registry, d\<lparr>sd_evidence := sd_evidence d @ [Some r]\<rparr>)"
  using assms by (simp add: open_or_replace_def open_registry_def) (simp add: kvGet_def empty_registry_def)

text \<open>A marker that the registry refuses stays in the journal, and every later recovery ends on it.\<close>

lemma refused_marker_blocks_recovery:
  assumes c: "chained nc ls (ms @ m # rest)" and ms: "ms \<noteq> []" "lastIndexedTx s = Some (mk_tx (last ms))"
    and refused: "applyCommit nc rs m s = (Inl e, s)"
  shows "catch_up nc rs (ms @ m # rest) s = (Inl e, s)"
proof -
  have "mk_tx (last ms) \<noteq> ''0''" using chained_txs(2) [OF c ms(1)] by (auto simp: radix_val_def char_digit_def)
  moreover have "mk_tx (last ms) \<in> set (map mk_tx (ms @ m # rest))" using ms(1) by simp
  ultimately show ?thesis
    using ms refused chained_txs(1) [OF c ms(1)] by (simp add: catch_up_def Let_def del: filter_append)
qed

section \<open>Two markers\<close>

definition noop_marker :: "string \<Rightarrow> string \<Rightarrow> marker" where
  "noop_marker tx prev = \<lparr>mk_tx = tx, mk_previous = prev, mk_records = [], mk_objects = [],
     mk_mutation = JObj [(''v'', JNum 1), (''kind'', JStr ''noop'')], mk_result = GENESIS_HASH\<rparr>"

lemma noop_line:
  assumes "isDecimalString tx" "isHex64 prev"
  shows "line_marker (marker_line (noop_marker tx prev)) = Some (noop_marker tx prev)"
proof -
  have "parseMarker (marker_json (noop_marker tx prev)) \<noteq> None"
    using assms by (simp add: parseMarker_def marker_json_def noop_marker_def str_at_def nat_at_def jget_def keysExactly_same MARKER_KEYS_def)
  moreover have "printable (mk_mutation (noop_marker tx prev))" by (simp add: noop_marker_def printable_def is_safe_def MAX_SAFE_def)
  ultimately show ?thesis using read_marker_line by (simp add: line_marker_def)
qed

lemma noop_applies: "apply_marker nc rs (noop_marker tx prev) s = (Inr (), kvSet ''last_indexed_tx'' tx s)"
  by (simp add: apply_marker_def noop_marker_def applyMutation.simps mutation_kind_def jget_def str_at_def apply_kind_def)

lemma catch_up_exactly_once_witness:
  "\<exists>m1 m2 s s'. apply_markers journal_crypto (\<lambda>_. None) [m1] (fresh_registry ''gw'') = (Inr (), s) \<and>
     catch_up journal_crypto (\<lambda>_. None) [m1, m2] s = (Inr 1, s') \<and> catch_up journal_crypto (\<lambda>_. None) [m1, m2] s' = (Inr 0, s')"
proof -
  define m1 where "m1 = noop_marker ''1'' GENESIS_HASH"
  define h where "h = sha256hex journal_crypto (marker_line m1)"
  define m2 where "m2 = noop_marker ''2'' h"
  have dec: "isDecimalString ''1''" "isDecimalString ''2''"
    unfolding isDecimalString_def rx_count by (simp_all add: is_count_def is_digit_def radix_val_def char_digit_def)
  have hex: "isHex64 h" by (simp add: h_def isHex64_iff sha256hex_def journal_crypto_def) code_simp
  have lm: "line_marker (marker_line m1) = Some m1" "line_marker (marker_line m2) = Some m2"
    using noop_line dec hex zeros_hex by (simp_all add: m1_def m2_def)
  have "chained journal_crypto [marker_line m1, marker_line m2] ([m1] @ [m2])"
    using lm by (simp add: chained_def h_def [symmetric]) (simp add: m1_def m2_def noop_marker_def radix_val_def char_digit_def)
  moreover have "apply_markers journal_crypto (\<lambda>_. None) [m1] (fresh_registry ''gw'') = (Inr (), kvSet ''last_indexed_tx'' ''1'' (fresh_registry ''gw''))"
    "apply_markers journal_crypto (\<lambda>_. None) ([m1] @ [m2]) (fresh_registry ''gw'') =
      (Inr (), kvSet ''last_indexed_tx'' ''2'' (kvSet ''last_indexed_tx'' ''1'' (fresh_registry ''gw'')))"
    by (simp_all add: m1_def m2_def noop_applies)
  moreover have "\<forall>x. lastIndexedTx (fresh_registry ''gw'') = Some x \<longrightarrow> x = ''0'' \<or> x \<notin> set (map mk_tx ([m1] @ [m2]))"
    by (simp add: lastIndexedTx_def fresh_registry_def) (simp add: kvGet_def empty_registry_def)
  ultimately show ?thesis using catch_up_exactly_once [OF _ _ _ _ fresh_instance fresh_rev_ok, of journal_crypto _ "[m1]" "[m2]" "\<lambda>_. None" "''gw''"] by force
qed

end
