(* ===== verification/Store_Facade_Facts.thy ===== *)
theory Store_Facade_Facts
  imports Store_Facade Store_Recovery_Facts "HOL-Library.Multiset"
begin

text \<open>
  What the store promises: a commit leaves one marker in the journal or none, its records can be
  read back by the cursors it answers, and the index it keeps in memory is the one that recovery
  derives from the journal.
\<close>

section \<open>Cursors\<close>

lemma hex_digit_chars: "d < 16 \<Longrightarrow> is_hex (digit_char d)"
proof -
  have "\<forall>d\<in>set [0..<16]. is_hex (digit_char d)" by code_simp
  then show "d < 16 \<Longrightarrow> is_hex (digit_char d)" by simp
qed

lemma hex_str_digits: "c \<in> set (radix_str 16 n) \<Longrightarrow> is_hex c"
proof (induction n rule: less_induct)
  case (less n)
  show ?case
  proof (cases "n < 16")
    case True
    then show ?thesis using less.prems by (simp add: radix_str.simps [of 16 n] hex_digit_chars)
  next
    case False
    then have "n div 16 < n" by (intro div_less_dividend) auto
    then show ?thesis using less.prems less.IH [of "n div 16"] False
      by (auto simp: radix_str.simps [of 16 n] hex_digit_chars)
  qed
qed

lemma hex_str_length: "n < 16 ^ k \<Longrightarrow> 0 < k \<Longrightarrow> length (radix_str 16 n) \<le> k"
proof (induction k arbitrary: n)
  case (Suc k)
  show ?case
  proof (cases "n < 16")
    case True
    then show ?thesis by (simp add: radix_str.simps [of 16 n])
  next
    case False
    have k: "0 < k" using False Suc.prems(1) by (cases k) auto
    have "n div 16 < 16 ^ k" using Suc.prems(1) by (simp add: less_mult_imp_div_less mult.commute)
    then show ?thesis using Suc.IH [of "n div 16"] k False by (simp add: radix_str.simps [of 16 n])
  qed
qed simp

lemma radix_val_zeros: "radix_val 16 (replicate k CHR ''0'' @ s) = radix_val 16 s"
proof -
  have z: "foldl (\<lambda>a c. a * 16 + char_digit c) 0 (replicate k CHR ''0'') = 0"
    by (induction k) (simp_all add: char_digit_def)
  show ?thesis by (simp add: radix_val_def z)
qed

lemma hex16_props:
  assumes "n < 2 ^ 64"
  shows "length (hex16 n) = 16" "\<forall>c\<in>set (hex16 n). is_hex c" "radix_val 16 (hex16 n) = n"
proof -
  have "length (radix_str 16 n) \<le> 16" by (rule hex_str_length) (use assms in simp_all)
  then show "length (hex16 n) = 16" by (simp add: hex16_def Let_def)
  have "is_hex CHR ''0''" by (simp add: is_hex_def)
  then show "\<forall>c\<in>set (hex16 n). is_hex c" using hex_str_digits by (auto simp: hex16_def Let_def)
  show "radix_val 16 (hex16 n) = n" by (simp add: hex16_def Let_def radix_val_zeros radix_val_str)
qed

lemma cursor_lang:
  assumes "x \<in> rx_lang A" "y \<in> rx_lang B"
  shows "''c'' @ x @ '':'' @ y \<in> rx_lang (RCat [RChr CHR ''c'', A, RChr CHR '':'', B])"
proof -
  have seq: "u \<in> rx_lang r \<Longrightarrow> v \<in> rx_lang q \<Longrightarrow> u @ v \<in> rx_lang (RSeq r q)" for u v r q by auto
  have "y @ [] \<in> rx_lang (RCat [B])" unfolding RCat.simps by (rule seq) (use assms in simp_all)
  then have "'':'' @ y \<in> rx_lang (RCat [RChr CHR '':'', B])" unfolding RCat.simps by (intro seq) simp_all
  then have x: "x @ ('':'' @ y) \<in> rx_lang (RCat [A, RChr CHR '':'', B])" unfolding RCat.simps by (rule seq [OF assms(1)])
  have "''c'' \<in> rx_lang (RChr CHR ''c'')" by simp
  from seq [OF this x] show ?thesis unfolding RCat.simps .
qed

lemma parse_formatted_cursor:
  assumes "n < 2 ^ 64"
  shows "parse_lane_cursor (lane_cursor n k) = Some (n, k)"
proof -
  note h = hex16_props [OF assms]
  have d: "dec_str k \<noteq> []" by (simp add: radix_str.simps [of 10 k])
  have "rx_test (RCat [RChr CHR ''c'', RTimes 16 (RCls is_hex), RChr CHR '':'', RPlus (RCls is_digit)]) (lane_cursor n k)"
    unfolding rx_test_correct lane_cursor_def
  proof (rule cursor_lang)
    show "hex16 n \<in> rx_lang (RTimes 16 (RCls is_hex))" unfolding rx_lang_times_cls using h by blast
    show "dec_str k \<in> rx_lang (RPlus (RCls is_digit))" unfolding rx_lang_plus_cls using d dec_str_digits by auto
  qed
  moreover have "take 16 (tl (lane_cursor n k)) = hex16 n" "drop 18 (lane_cursor n k) = dec_str k"
    using h(1) by (simp_all add: lane_cursor_def)
  ultimately show ?thesis unfolding parse_lane_cursor_def using h(3) by (simp only: if_True dec_val_str)
qed

section \<open>Commits and the journal\<close>

lemma put_objects_frame:
  "put_objects nc bs s = (r, s') \<Longrightarrow> \<exists>os. s' = s\<lparr>gs_objects := os\<rparr>"
proof (induction bs arbitrary: s r s')
  case Nil
  then show ?case by (intro exI [of _ "gs_objects s"]) simp
next
  case (Cons b bs)
  obtain x os where x: "put_object nc b (gs_objects s) = (x, os)" by (cases "put_object nc b (gs_objects s)")
  show ?case
  proof (cases x)
    case (Inl e)
    then show ?thesis using Cons.prems x by auto
  next
    case (Inr d)
    obtain r1 s1 where r1: "put_objects nc bs (s\<lparr>gs_objects := os\<rparr>) = (r1, s1)" by (cases "put_objects nc bs (s\<lparr>gs_objects := os\<rparr>)")
    have "s' = s1" using Cons.prems x Inr r1 by (cases d) (auto split: sum.splits)
    then show ?thesis using Cons.IH [OF r1] by auto
  qed
qed

text \<open>What the lane steps of a commit leave alone.\<close>

definition same_ledger :: "gateway_store \<Rightarrow> gateway_store \<Rightarrow> bool" where
  "same_ledger s t \<longleftrightarrow> gs_journal t = gs_journal s \<and> gs_registry t = gs_registry s \<and> gs_laneIndex t = gs_laneIndex s \<and>
     gs_laneCommitted t = gs_laneCommitted s \<and> gs_recordOrder t = gs_recordOrder s"

lemma same_ledger_refl [simp]: "same_ledger s s"
  by (simp add: same_ledger_def)

lemma same_ledger_trans: "same_ledger s t \<Longrightarrow> same_ledger t u \<Longrightarrow> same_ledger s u"
  by (simp add: same_ledger_def)

lemma writerFor_ledger: "writerFor env env1 lane s = (r, s') \<Longrightarrow> same_ledger s s'"
  by (auto simp: writerFor_def Let_def same_ledger_def split: option.splits if_splits sum.splits)

lemma append_record_ledger: "append_record envs i rec s = (r, s') \<Longrightarrow> same_ledger s s'"
proof -
  assume a: "append_record envs i rec s = (r, s')"
  obtain x s1 where w: "writerFor (envs (3 * i)) (envs (3 * i + 1)) (lane_key rec) s = (x, s1)"
    by (cases "writerFor (envs (3 * i)) (envs (3 * i + 1)) (lane_key rec) s")
  have "same_ledger s1 s' \<or> s' = s"
    using a w by (auto simp: append_record_def Let_def same_ledger_def split: if_splits sum.splits prod.splits)
  then show ?thesis using same_ledger_trans [OF writerFor_ledger [OF w]] by auto
qed

lemma append_records_ledger: "append_records envs i rs s = (r, s') \<Longrightarrow> same_ledger s s'"
proof (induction rs arbitrary: i s r s')
  case (Cons rec rs)
  obtain x s1 where a: "append_record envs i rec s = (x, s1)" by (cases "append_record envs i rec s")
  obtain y s2 where b: "append_records envs (i + 1) rs s1 = (y, s2)" by (cases "append_records envs (i + 1) rs s1")
  have "same_ledger s1 s2" by (rule Cons.IH [OF b])
  moreover have "s' = s1 \<or> s' = s2" using Cons.prems a b by (auto split: sum.splits)
  ultimately show ?case using append_record_ledger [OF a] same_ledger_trans by blast
qed simp

lemma indexRecord_frame [simp]:
  "gs_journal (indexRecord rc s) = gs_journal s" "gs_registry (indexRecord rc s) = gs_registry s"
  "gs_writers (indexRecord rc s) = gs_writers s" "gs_dirs (indexRecord rc s) = gs_dirs s"
  "gs_laneOrdinals (indexRecord rc s) = gs_laneOrdinals s" "gs_nextLaneOrdinal (indexRecord rc s) = gs_nextLaneOrdinal s"
  by (simp_all add: indexRecord_def Let_def split: prod.split)

lemma indexRecord_files [simp]: "lane_files q (indexRecord rc s) = lane_files q s"
  by (simp add: lane_files_def cong: option.case_cong)

lemma fold_indexRecord_frame [simp]:
  "gs_journal (fold indexRecord rcs s) = gs_journal s" "gs_registry (fold indexRecord rcs s) = gs_registry s"
  "gs_writers (fold indexRecord rcs s) = gs_writers s" "gs_dirs (fold indexRecord rcs s) = gs_dirs s"
  "gs_laneOrdinals (fold indexRecord rcs s) = gs_laneOrdinals s" "gs_nextLaneOrdinal (fold indexRecord rcs s) = gs_nextLaneOrdinal s"
  by (induction rcs arbitrary: s) simp_all

lemma applyCommit_refused: "applyCommit nc rs m reg = (Inl e, reg') \<Longrightarrow> reg' = reg"
  by (auto simp: applyCommit_def inTx_def split: prod.splits sum.splits)

text \<open>The marker of a commit.\<close>

definition commits :: "marker \<Rightarrow> locator list \<Rightarrow> object_descriptor list \<Rightarrow> json \<Rightarrow> string \<Rightarrow> bool" where
  "commits m rs ods mut result \<longleftrightarrow> mk_records m = rs \<and> mk_objects m = ods \<and> mk_mutation m = mut \<and> mk_result m = result"

lemma journal_then_apply_cases:
  assumes h: "journal_holds nc (gs_journal s) ms" and mut: "printable mut"
    and a: "journal_then_apply nc rcs ods mut result s = (r, s')"
  shows "(\<exists>e. r = Inl e \<and> s' = s) \<or>
    (\<exists>m j. commits m (map fst rcs) ods mut result \<and> journal_holds nc j (ms @ [m]) \<and>
       (let s1 = fold indexRecord rcs (s\<lparr>gs_journal := j\<rparr>) in
        case applyCommit nc (resolve_in (gs_laneIndex s1)) m (gs_registry s) of
          (Inl e, _) \<Rightarrow> r = Inl e \<and> s' = s1
        | (Inr _, reg) \<Rightarrow> r = Inr (mk_tx m) \<and> s' = s1\<lparr>gs_registry := reg\<rparr>))"
proof -
  define m where "m = \<lparr>mk_tx = next_tx (jo_headTx (gs_journal s)), mk_previous = jo_headHash (gs_journal s), mk_records = map fst rcs,
    mk_objects = ods, mk_mutation = mut, mk_result = result\<rparr>"
  have n: "nextMarker (map fst rcs) ods mut result (gs_journal s) = Inr m"
    using h by (simp add: nextMarker_def journal_holds_def m_def)
  have c: "commits m (map fst rcs) ods mut result" "printable (mk_mutation m)" using mut by (simp_all add: commits_def m_def)
  obtain x j where x: "append_marker nc m (gs_journal s) = (x, j)" by (cases "append_marker nc m (gs_journal s)")
  show ?thesis
  proof (cases x)
    case (Inl e)
    then have "j = gs_journal s" using append_marker_refused [OF h] x by blast
    then show ?thesis using a n x Inl by (intro disjI1) (auto simp: journal_then_apply_def)
  next
    case (Inr y)
    have j: "journal_holds nc j (ms @ [m])" using append_marker_holds(1) [OF h c(2)] x Inr by blast
    define s1 where "s1 = fold indexRecord rcs (s\<lparr>gs_journal := j\<rparr>)"
    have "case applyCommit nc (resolve_in (gs_laneIndex s1)) m (gs_registry s) of
          (Inl e, _) \<Rightarrow> r = Inl e \<and> s' = s1
        | (Inr _, reg) \<Rightarrow> r = Inr (mk_tx m) \<and> s' = s1\<lparr>gs_registry := reg\<rparr>"
    proof -
      have reg: "gs_registry s1 = gs_registry s" by (simp add: s1_def)
      obtain y1 reg1 where y1: "applyCommit nc (resolve_in (gs_laneIndex s1)) m (gs_registry s) = (y1, reg1)"
        by (cases "applyCommit nc (resolve_in (gs_laneIndex s1)) m (gs_registry s)")
      have e: "journal_then_apply nc rcs ods mut result s =
          (case y1 of Inl e \<Rightarrow> (Inl e, s1\<lparr>gs_registry := reg1\<rparr>) | Inr _ \<Rightarrow> (Inr (mk_tx m), s1\<lparr>gs_registry := reg1\<rparr>))"
        unfolding journal_then_apply_def n by (simp add: x Inr Let_def s1_def [symmetric] reg y1 split: sum.split)
      show ?thesis using a e y1 reg applyCommit_refused [of nc _ m "gs_registry s" _ reg1] by (cases y1) auto
    qed
    then show ?thesis using c(1) j unfolding s1_def Let_def by (intro disjI2 exI [of _ m] exI [of _ j] conjI)
  qed
qed

text \<open>C11.  A commit leaves one marker or none.  On a store whose journal holds a list of markers, an
  accepted commit extends it by one marker with the mutation, the records and the objects of its
  answer, and the registry is the one that this marker gives; a refused commit leaves the registry
  as it was and either journal and index too, or the marker is in the journal and it is the
  registry that refused it.\<close>

theorem commit_leaves_one_marker:
  assumes h: "journal_holds nc (gs_journal s) ms" and mut: "printable (ci_mutation inp)"
    and a: "store_commit nc envs inp s = (r, s')"
  shows "case r of
      Inr c \<Rightarrow> \<exists>m. commits m (co_records c) (co_objects c) (ci_mutation inp) (ci_result inp) \<and> mk_tx m = co_tx c \<and>
        journal_holds nc (gs_journal s') (ms @ [m]) \<and>
        applyCommit nc (resolve_in (gs_laneIndex s')) m (gs_registry s) = (Inr (), gs_registry s')
    | Inl e \<Rightarrow> gs_registry s' = gs_registry s \<and>
        (gs_journal s' = gs_journal s \<and> gs_laneIndex s' = gs_laneIndex s \<or>
         (\<exists>m. mk_mutation m = ci_mutation inp \<and> journal_holds nc (gs_journal s') (ms @ [m]) \<and>
           fst (applyCommit nc (resolve_in (gs_laneIndex s')) m (gs_registry s)) = Inl e))"
proof (cases "commit_guard (ci_mutation inp) (ci_result inp) s")
  case (Some e)
  then show ?thesis using a by (auto simp: store_commit_def)
next
  case None
  obtain r1 s1 where o: "put_objects nc (ci_objects inp) s = (r1, s1)" by (cases "put_objects nc (ci_objects inp) s")
  obtain r2 s2 where l: "append_records envs 0 (ci_records inp) s1 = (r2, s2)" by (cases "append_records envs 0 (ci_records inp) s1")
  have s1: "same_ledger s s1" using put_objects_frame [OF o] by (auto simp: same_ledger_def)
  have s2: "same_ledger s s2" by (rule same_ledger_trans [OF s1 append_records_ledger [OF l]])
  show ?thesis
  proof (cases "isl r1 \<or> isl r2")
    case True
    then have "isl r \<and> same_ledger s s'"
      using a None o l s1 s2 by (cases r1; cases r2) (auto simp: store_commit_def)
    then show ?thesis by (cases r) (auto simp: same_ledger_def)
  next
    case False
    then obtain ods rcs where d: "r1 = Inr ods" "r2 = Inr rcs" by (cases r1; cases r2) auto
    obtain r3 s3 where j: "journal_then_apply nc rcs ods (ci_mutation inp) (ci_result inp) s2 = (r3, s3)"
      by (cases "journal_then_apply nc rcs ods (ci_mutation inp) (ci_result inp) s2")
    have e: "s' = s3" "r = (case r3 of Inl e \<Rightarrow> Inl e | Inr tx \<Rightarrow>
        Inr \<lparr>co_tx = tx, co_cursors = map snd rcs, co_records = map fst rcs, co_objects = ods\<rparr>)"
      using a None o l d j by (auto simp: store_commit_def split: sum.splits)
    have h2: "journal_holds nc (gs_journal s2) ms" using h s2 by (simp add: same_ledger_def)
    from journal_then_apply_cases [OF h2 mut j] show ?thesis
    proof
      assume "\<exists>e. r3 = Inl e \<and> s3 = s2"
      then show ?thesis using e s2 by (auto simp: same_ledger_def)
    next
      assume "\<exists>m j. commits m (map fst rcs) ods (ci_mutation inp) (ci_result inp) \<and> journal_holds nc j (ms @ [m]) \<and>
       (let s1 = fold indexRecord rcs (s2\<lparr>gs_journal := j\<rparr>) in
        case applyCommit nc (resolve_in (gs_laneIndex s1)) m (gs_registry s2) of
          (Inl e, _) \<Rightarrow> r3 = Inl e \<and> s3 = s1
        | (Inr _, reg) \<Rightarrow> r3 = Inr (mk_tx m) \<and> s3 = s1\<lparr>gs_registry := reg\<rparr>)"
      then obtain m j where m: "commits m (map fst rcs) ods (ci_mutation inp) (ci_result inp)" "journal_holds nc j (ms @ [m])"
        and k: "(let s1 = fold indexRecord rcs (s2\<lparr>gs_journal := j\<rparr>) in
        case applyCommit nc (resolve_in (gs_laneIndex s1)) m (gs_registry s2) of
          (Inl e, _) \<Rightarrow> r3 = Inl e \<and> s3 = s1
        | (Inr _, reg) \<Rightarrow> r3 = Inr (mk_tx m) \<and> s3 = s1\<lparr>gs_registry := reg\<rparr>)" by blast
      define t where "t = fold indexRecord rcs (s2\<lparr>gs_journal := j\<rparr>)"
      have t: "gs_journal t = j" "gs_registry t = gs_registry s" "gs_registry s2 = gs_registry s" using s2 by (simp_all add: t_def same_ledger_def)
      obtain x reg where x: "applyCommit nc (resolve_in (gs_laneIndex t)) m (gs_registry s) = (x, reg)"
        by (cases "applyCommit nc (resolve_in (gs_laneIndex t)) m (gs_registry s)")
      have k: "case x of Inl e \<Rightarrow> r3 = Inl e \<and> s3 = t | Inr _ \<Rightarrow> r3 = Inr (mk_tx m) \<and> s3 = t\<lparr>gs_registry := reg\<rparr>"
        using k unfolding t_def [symmetric] Let_def t(3) x by (cases x) simp_all
      show ?thesis
      proof (cases x)
        case (Inl err)
        then show ?thesis using k e t x m by (auto simp: commits_def)
      next
        case (Inr u)
        then show ?thesis using k e t x m by auto
      qed
    qed
  qed
qed

section \<open>Lanes of a store\<close>

text \<open>The place of a locator holds the record and its line feed.\<close>

definition holds_record :: "node_crypto \<Rightarrow> files \<Rightarrow> locator \<Rightarrow> string \<Rightarrow> bool" where
  "holds_record nc fs r rec \<longleftrightarrow>
     (\<exists>k d. lo_segment r = segmentName k \<and> map_of fs (segmentName k) = Some d \<and> lo_offset r + lo_length r \<le> length d \<and>
       slice d (lo_offset r) (lo_offset r + lo_length r) = rec @ [LF]) \<and> lo_raw r = sha256hex nc (rec @ [LF])"

lemma holds_record_grows: "holds_record nc fs r rec \<Longrightarrow> segments_grow fs gs \<Longrightarrow> holds_record nc gs r rec"
proof -
  assume h: "holds_record nc fs r rec" "segments_grow fs gs"
  then obtain k d where k: "lo_segment r = segmentName k" "map_of fs (segmentName k) = Some d" "lo_offset r + lo_length r \<le> length d"
      "slice d (lo_offset r) (lo_offset r + lo_length r) = rec @ [LF]" by (auto simp: holds_record_def)
  obtain x where "map_of gs (segmentName k) = Some (d @ x)" using h(2) k(2) by (auto simp: segments_grow_def)
  then show ?thesis using h(1) k by (auto simp: holds_record_def slice_append)
qed

lemma segments_grow_trans: "segments_grow fs gs \<Longrightarrow> segments_grow gs hs \<Longrightarrow> segments_grow fs hs"
  unfolding segments_grow_def by (metis append.assoc)

text \<open>The next ordinal of a lane, zero without a writer.\<close>

definition record_ordinal :: "gateway_store \<Rightarrow> string \<Rightarrow> nat" where
  "record_ordinal s lane = (case map_of (gs_writers s) lane of None \<Rightarrow> 0 | Some w \<Rightarrow> lw_recordOrdinal w)"

definition lanes_ok :: "gateway_store \<Rightarrow> bool" where
  "lanes_ok s \<longleftrightarrow>
     (\<forall>lane w. map_of (gs_writers s) lane = Some w \<longrightarrow> (lw_fh w \<longrightarrow> writer_ok w) \<and> map_of (gs_laneOrdinals s) lane = Some (lw_laneOrdinal w)) \<and>
     (\<forall>lane. map_of (gs_writers s) lane = None \<longrightarrow> lane_files lane s = [] \<and> map_of (gs_laneOrdinals s) lane = None) \<and>
     (\<forall>a b n. map_of (gs_laneOrdinals s) a = Some n \<longrightarrow> map_of (gs_laneOrdinals s) b = Some n \<longrightarrow> a = b) \<and>
     (\<forall>a n. map_of (gs_laneOrdinals s) a = Some n \<longrightarrow> n < gs_nextLaneOrdinal s)"

text \<open>How lanes evolve: ordinals stay, counters and segments grow.\<close>

definition lanes_le :: "gateway_store \<Rightarrow> gateway_store \<Rightarrow> bool" where
  "lanes_le s t \<longleftrightarrow>
     (\<forall>lane n. map_of (gs_laneOrdinals s) lane = Some n \<longrightarrow> map_of (gs_laneOrdinals t) lane = Some n) \<and>
     (\<forall>lane. record_ordinal s lane \<le> record_ordinal t lane) \<and>
     (\<forall>lane. segments_grow (lane_files lane s) (lane_files lane t)) \<and> gs_nextLaneOrdinal s \<le> gs_nextLaneOrdinal t"

lemma lanes_le_refl [simp]: "lanes_le s s"
  by (simp add: lanes_le_def)

lemma lanes_le_trans: "lanes_le s t \<Longrightarrow> lanes_le t u \<Longrightarrow> lanes_le s u"
  unfolding lanes_le_def by (meson le_trans segments_grow_trans)

text \<open>A locator that stands for a record of its lane under an ordinal.\<close>

definition entry_ok :: "node_crypto \<Rightarrow> gateway_store \<Rightarrow> nat \<Rightarrow> nat \<Rightarrow> locator \<Rightarrow> string \<Rightarrow> bool" where
  "entry_ok nc s n k r rec \<longleftrightarrow> map_of (gs_laneOrdinals s) (lo_lane r) = Some n \<and> k < record_ordinal s (lo_lane r) \<and>
     laneDirFor (lo_lane r) \<and> holds_record nc (lane_files (lo_lane r) s) r rec"

lemma entry_ok_mono: "entry_ok nc s n k r rec \<Longrightarrow> lanes_le s t \<Longrightarrow> entry_ok nc t n k r rec"
  unfolding entry_ok_def lanes_le_def by (metis holds_record_grows order_less_le_trans)

section \<open>Appending to the lanes of a store\<close>

lemma set_writer:
  assumes ok: "lanes_ok s" and w: "map_of (gs_writers s) lane = Some w" and n: "lw_laneOrdinal w' = lw_laneOrdinal w"
    and o: "lw_recordOrdinal w \<le> lw_recordOrdinal w'" and f: "segments_grow (lw_files w) (lw_files w')" and h: "lw_fh w' \<longrightarrow> writer_ok w'"
    and s': "s' = s\<lparr>gs_writers := aput lane w' (gs_writers s)\<rparr>"
  shows "lanes_ok s'" "lanes_le s s'"
proof -
  have files: "lane_files l s' = (if l = lane then lw_files w' else lane_files l s)" for l
    by (simp add: s' lane_files_def split: option.split)
  have files': "lane_files lane s = lw_files w" using w by (simp add: lane_files_def)
  have "segments_grow (lane_files l s) (lane_files l s')" for l using f files' by (simp add: files)
  then show "lanes_le s s'"
    unfolding lanes_le_def using o w by (auto simp: record_ordinal_def s')
  show "lanes_ok s'" unfolding lanes_ok_def
  proof (intro conjI)
    show "\<forall>l v. map_of (gs_writers s') l = Some v \<longrightarrow> (lw_fh v \<longrightarrow> writer_ok v) \<and> map_of (gs_laneOrdinals s') l = Some (lw_laneOrdinal v)"
      using ok w n h by (auto simp: s' lanes_ok_def)
    show "\<forall>l. map_of (gs_writers s') l = None \<longrightarrow> lane_files l s' = [] \<and> map_of (gs_laneOrdinals s') l = None"
      using ok by (auto simp: s' lanes_ok_def lane_files_def)
  qed (use ok in \<open>auto simp: s' lanes_ok_def\<close>)
qed

text \<open>A refused record leaves the segments alone; after a failed rotation the writer is dead.\<close>

lemma lane_append_refused:
  assumes "lane_append_record env rec w = (Inl e, w')"
  shows "lw_laneOrdinal w' = lw_laneOrdinal w" "lw_recordOrdinal w' = lw_recordOrdinal w" "w' = w \<or> \<not> lw_fh w'"
    "writer_ok w \<Longrightarrow> segments_grow (lw_files w) (lw_files w')" "\<not> lw_fh w \<Longrightarrow> w' = w"
proof -
  define c where "c = (\<lambda>w1. append_line (le_crypto env) (rec @ [LF]) w1)"
  have line: "fst (append_line nc l v) \<noteq> Inl x" for nc l v x by (simp add: append_line_def Let_def)
  have cases: "w' = w \<or> rotate_segment (le_crypto env) (le_clock env 1) (le_clock env 2) w = (Inl e, w') \<and> lw_fh w"
    using assms line
    by (auto simp: lane_append_record_def Let_def split: if_splits prod.splits sum.splits) (metis fst_conv)+
  have rot: "lw_laneOrdinal w' = lw_laneOrdinal w \<and> lw_recordOrdinal w' = lw_recordOrdinal w \<and> \<not> lw_fh w' \<and>
      (\<exists>seal. lw_files w' = write_json (manifestName (lw_segment w)) seal (lw_files w))"
    if "rotate_segment (le_crypto env) (le_clock env 1) (le_clock env 2) w = (Inl e, w')"
    using that by (auto simp: rotate_segment_def startSegment_def Let_def split: if_splits)
  show "lw_laneOrdinal w' = lw_laneOrdinal w" "lw_recordOrdinal w' = lw_recordOrdinal w" "w' = w \<or> \<not> lw_fh w'" "\<not> lw_fh w \<Longrightarrow> w' = w"
    using cases rot by auto
  show "segments_grow (lw_files w) (lw_files w')" if ok: "writer_ok w"
  proof (cases "w' = w")
    case False
    then obtain seal where s: "lw_files w' = write_json (manifestName (lw_segment w)) seal (lw_files w)" using cases rot by auto
    have seg: "lw_segment w = segmentName (lw_segOrdinal w)" using ok by (simp add: writer_ok_def)
    have "manifestName (lw_segment w) \<noteq> segmentName k" for k unfolding seg by (rule manifest_not_segmentName)
    then have "map_of (lw_files w') (segmentName k) = map_of (lw_files w) (segmentName k)" for k
      unfolding s write_json_def by (metis aget_aput)
    then show ?thesis by (auto simp: segments_grow_def)
  qed simp
qed

lemma append_to_writer:
  assumes ok: "lanes_ok s" and w: "map_of (gs_writers s) lane = Some w" and a: "lane_append_record env rec w = (r, w')"
    and s': "s' = s\<lparr>gs_writers := aput lane w' (gs_writers s)\<rparr>"
  shows "lanes_ok s'" "lanes_le s s'"
    "r = Inr la \<Longrightarrow> la_cursor la = lane_cursor (lw_laneOrdinal w) (lw_recordOrdinal w) \<and> reads_back (le_crypto env) (lane_files lane s') rec la \<and>
       lw_recordOrdinal w < record_ordinal s' lane \<and> record_ordinal s lane = lw_recordOrdinal w"
proof -
  have fh: "lw_fh w" "writer_ok w" if "r = Inr la" for la
    using a that ok w by (auto simp: lane_append_record_def lanes_ok_def split: if_splits)
  have step: "lw_laneOrdinal w' = lw_laneOrdinal w \<and> lw_recordOrdinal w \<le> lw_recordOrdinal w' \<and> segments_grow (lw_files w) (lw_files w') \<and>
      (lw_fh w' \<longrightarrow> writer_ok w')"
  proof (cases r)
    case (Inl e)
    note r = lane_append_refused [OF a [unfolded Inl]]
    have "lw_fh w \<longrightarrow> writer_ok w" using ok w by (simp add: lanes_ok_def)
    then show ?thesis using r by (cases "lw_fh w") auto
  next
    case (Inr la)
    note e = lane_append_effect [OF a [unfolded Inr] fh(2) [OF Inr]]
    then show ?thesis by simp
  qed
  show "lanes_ok s'" "lanes_le s s'" using set_writer [OF ok w _ _ _ _ s'] step by blast+
  assume r: "r = Inr la"
  note e = lane_append_effect [OF a [unfolded r] fh(2) [OF r]]
  have "lane_files lane s' = lw_files w'" by (simp add: s' lane_files_def)
  then show "la_cursor la = lane_cursor (lw_laneOrdinal w) (lw_recordOrdinal w) \<and> reads_back (le_crypto env) (lane_files lane s') rec la \<and>
       lw_recordOrdinal w < record_ordinal s' lane \<and> record_ordinal s lane = lw_recordOrdinal w"
    using e w by (simp add: record_ordinal_def s')
qed

lemma writerFor_ok:
  assumes ok: "lanes_ok s" and a: "writerFor env env1 lane s = (r, s')" and l: "laneDirFor lane"
  shows "lanes_ok s'" "lanes_le s s'" "r = Inr w \<Longrightarrow> map_of (gs_writers s') lane = Some w"
proof -
  have "lanes_ok s' \<and> lanes_le s s' \<and> (\<forall>w. r = Inr w \<longrightarrow> map_of (gs_writers s') lane = Some w)"
  proof (cases "map_of (gs_writers s) lane")
    case (Some w)
    then show ?thesis using a ok by (auto simp: writerFor_def)
  next
    case None
    have fs: "lane_files lane s = []" and known: "map_of (gs_laneOrdinals s) lane = None" using ok None by (auto simp: lanes_ok_def)
    define p where "p = writer_options (gs_opts s) lane (gs_nextLaneOrdinal s)"
    define s1 where "s1 = s\<lparr>gs_dirs := aput lane [] (gs_dirs s)\<rparr>"
    have files1: "lane_files q s1 = lane_files q s" for q using fs None by (auto simp: s1_def lane_files_def split: option.split)
    have s1: "lanes_ok s1" "lanes_le s s1"
      using ok by (auto simp: lanes_ok_def lanes_le_def files1 record_ordinal_def) (auto simp: s1_def)
    have r: "(r, s') = (case create_lane env1 [] p of
                  Inl e \<Rightarrow> (Inl e, s1)
                | Inr w \<Rightarrow>
                    (Inr w, s1\<lparr>gs_laneOrdinals := gs_laneOrdinals s @ [(lane, lw_laneOrdinal w)],
                       gs_nextLaneOrdinal := max (gs_nextLaneOrdinal s) (lw_laneOrdinal w + 1), gs_writers := aput lane w (gs_writers s)\<rparr>))"
      using a None l known fs by (auto simp: writerFor_def Let_def s1_def p_def split: sum.splits)
    show ?thesis
    proof (cases "create_lane env1 [] p")
      case (Inl e)
      then show ?thesis using r s1 by simp
    next
      case (Inr w)
      have w: "writer_ok w" using create_ok [of "[]" env1 p w] Inr by (simp add: segment_files_def)
      have n: "lw_laneOrdinal w = gs_nextLaneOrdinal s"
        using Inr by (auto simp: create_lane_def p_def writer_options_def new_writer_def startSegment_def Let_def split: if_splits sum.splits prod.splits)
      have e: "r = Inr w" "s' = s1\<lparr>gs_laneOrdinals := gs_laneOrdinals s @ [(lane, gs_nextLaneOrdinal s)],
          gs_nextLaneOrdinal := gs_nextLaneOrdinal s + 1, gs_writers := aput lane w (gs_writers s)\<rparr>"
        using r Inr n by simp_all
      have ords: "map_of (gs_laneOrdinals s') q = (if q = lane then Some (gs_nextLaneOrdinal s) else map_of (gs_laneOrdinals s) q)" for q
        using known by (auto simp: e(2) map_add_def split: option.split)
      have wr: "map_of (gs_writers s') q = (if q = lane then Some w else map_of (gs_writers s) q)" for q by (simp add: e(2))
      have files: "q \<noteq> lane \<Longrightarrow> lane_files q s' = lane_files q s" for q by (simp add: lane_files_def wr) (simp add: e(2) s1_def split: option.split)
      have next1: "gs_nextLaneOrdinal s' = gs_nextLaneOrdinal s + 1" by (simp add: e(2))
      have old: "map_of (gs_laneOrdinals s) q = Some k \<Longrightarrow> k < gs_nextLaneOrdinal s" for q k using ok by (simp add: lanes_ok_def)
      have "lanes_ok s'" unfolding lanes_ok_def
      proof (intro conjI)
        show "\<forall>q v. map_of (gs_writers s') q = Some v \<longrightarrow> (lw_fh v \<longrightarrow> writer_ok v) \<and> map_of (gs_laneOrdinals s') q = Some (lw_laneOrdinal v)"
          using ok w n by (simp add: wr ords lanes_ok_def)
        show "\<forall>q. map_of (gs_writers s') q = None \<longrightarrow> lane_files q s' = [] \<and> map_of (gs_laneOrdinals s') q = None"
          using ok files by (simp add: wr ords lanes_ok_def)
        show "\<forall>a b k. map_of (gs_laneOrdinals s') a = Some k \<longrightarrow> map_of (gs_laneOrdinals s') b = Some k \<longrightarrow> a = b"
          using ok old by (auto simp: ords lanes_ok_def)
        show "\<forall>a k. map_of (gs_laneOrdinals s') a = Some k \<longrightarrow> k < gs_nextLaneOrdinal s'"
          using old by (auto simp: ords next1 less_Suc_eq)
      qed
      moreover have "segments_grow (lane_files q s) (lane_files q s')" for q
        using fs files [of q] by (cases "q = lane") (simp_all add: segments_grow_def)
      then have "lanes_le s s'"
        using None known by (auto simp: lanes_le_def ords wr record_ordinal_def next1)
      ultimately show ?thesis using e(1) by (simp add: wr)
    qed
  qed
  then show "lanes_ok s'" "lanes_le s s'" "r = Inr w \<Longrightarrow> map_of (gs_writers s') lane = Some w" by blast+
qed

text \<open>The environments of a commit share the hash of the store.\<close>

definition hashes :: "(nat \<Rightarrow> lane_env) \<Rightarrow> node_crypto \<Rightarrow> bool" where
  "hashes envs nc \<longleftrightarrow> (\<forall>i. le_crypto (envs i) = nc)"

lemma part_iff:
  "rx_test PART x \<longleftrightarrow> x \<noteq> [] \<and> (is_alpha (hd x) \<or> is_digit (hd x)) \<and> length x \<le> 64 \<and>
     (\<forall>c\<in>set (tl x). is_alpha c \<or> is_digit c \<or> c \<in> set ''_-'')"
  unfolding rx_test_correct PART_def rx_lang_seq_cls rx_lang_upto_cls by auto

lemma part_no_slash: "rx_test PART x \<Longrightarrow> CHR ''/'' \<notin> set x"
proof -
  assume "rx_test PART x"
  then obtain c cs where x: "x = c # cs" "is_alpha c \<or> is_digit c" "\<forall>d\<in>set cs. is_alpha d \<or> is_digit d \<or> d \<in> set ''_-''"
    unfolding part_iff by (cases x) auto
  have "\<not> is_alpha CHR ''/''" "\<not> is_digit CHR ''/''" "CHR ''/'' \<notin> set ''_-''" by (simp_all add: is_alpha_def is_digit_def)
  then show ?thesis using x by auto
qed

lemma store_lane_dir: "STORE_LANE_KEY k \<Longrightarrow> laneDirFor k"
proof -
  assume "STORE_LANE_KEY k"
  then consider "k = LEGACY" | "prefix ''proof/'' k" "rx_test PART (drop 6 k)" by (auto simp: STORE_LANE_KEY_def)
  then show ?thesis
  proof cases
    case 1
    have "rx_test PART ''legacy''" unfolding part_iff by (simp add: is_alpha_def is_digit_def)
    moreover have "split_on CHR ''/'' ''legacy'' = [''legacy'']" by (rule split_on_no_sep) simp
    ultimately show ?thesis by (simp add: laneDirFor_def 1 LEGACY_def del: rx_test.simps split_on.simps)
  next
    case 2
    have p: "rx_test PART ''proof''" unfolding part_iff by (simp add: is_alpha_def is_digit_def)
    obtain x where x: "k = ''proof'' @ CHR ''/'' # x" "drop 6 k = x" using 2(1) by (auto simp: prefix_def)
    have "split_on CHR ''/'' k = [''proof'', x]"
      unfolding x(1) using split_on_append [of "CHR ''/''" "''proof''" x] split_on_no_sep [OF part_no_slash [of x]] 2(2) x(2) by simp
    then show ?thesis using p 2(2) x(2) by (simp add: laneDirFor_def del: rx_test.simps)
  qed
qed

lemma append_record_ok:
  assumes ok: "lanes_ok s" and e: "hashes envs nc" and a: "append_record envs i rec s = (r, s')"
  shows "lanes_ok s'" "lanes_le s s'"
    "r = Inr (l, c) \<Longrightarrow> \<exists>n k. c = lane_cursor n k \<and> entry_ok nc s' n k l (cr_data rec) \<and> record_ordinal s (lo_lane l) \<le> k"
proof -
  obtain x s1 where w: "writerFor (envs (3 * i)) (envs (3 * i + 1)) (lane_key rec) s = (x, s1)"
    by (cases "writerFor (envs (3 * i)) (envs (3 * i + 1)) (lane_key rec) s")
  have "lanes_ok s' \<and> lanes_le s s' \<and> (\<forall>l c. r = Inr (l, c) \<longrightarrow> (\<exists>n k. c = lane_cursor n k \<and>
      entry_ok nc s' n k l (cr_data rec) \<and> record_ordinal s (lo_lane l) \<le> k))"
  proof (cases "STORE_LANE_KEY (lane_key rec)")
    case False
    then show ?thesis using a ok by (auto simp: append_record_def Let_def)
  next
    case True
    note dir = store_lane_dir [OF True]
    show ?thesis
    proof -
      note wf = writerFor_ok [OF ok w dir]
      show ?thesis
      proof (cases x)
        case (Inl err)
        then show ?thesis using a w True wf by (auto simp: append_record_def Let_def)
      next
        case (Inr wr)
        obtain y w1 where y: "lane_append_record (envs (3 * i + 2)) (cr_data rec) wr = (y, w1)"
          by (cases "lane_append_record (envs (3 * i + 2)) (cr_data rec) wr")
        define t where "t = s1\<lparr>gs_writers := aput (lane_key rec) w1 (gs_writers s1)\<rparr>"
        note ap = append_to_writer [OF wf(1) wf(3) [OF Inr] y t_def]
        have t: "s' = t" using a w True Inr y by (cases y) (auto simp: append_record_def Let_def t_def)
        have le: "lanes_le s t" by (rule lanes_le_trans [OF wf(2) ap(2)])
        show ?thesis
        proof (intro conjI allI impI)
          show "lanes_ok s'" "lanes_le s s'" using ap(1) le t by simp_all
          fix l c assume r: "r = Inr (l, c)"
          then obtain la where la: "y = Inr la" using a w True Inr y by (cases y) (auto simp: append_record_def Let_def)
          have l: "l = \<lparr>lo_lane = lane_key rec, lo_segment = la_segment la, lo_offset = la_offset la, lo_length = la_length la, lo_raw = la_raw la\<rparr>"
            "c = la_cursor la" using a w True Inr y la r by (auto simp: append_record_def Let_def)
          note ap3 = ap(3) [OF la]
          have "map_of (gs_laneOrdinals s1) (lane_key rec) = Some (lw_laneOrdinal wr)" using wf(1) wf(3) [OF Inr] by (simp add: lanes_ok_def)
          then have o: "map_of (gs_laneOrdinals t) (lane_key rec) = Some (lw_laneOrdinal wr)" by (simp add: t_def)
          have "holds_record nc (lane_files (lane_key rec) t) l (cr_data rec)"
            using ap3 e unfolding holds_record_def reads_back_def l by (auto simp: file_at_def hashes_def)
          then have "entry_ok nc t (lw_laneOrdinal wr) (lw_recordOrdinal wr) l (cr_data rec)"
            using o ap3 dir by (simp add: entry_ok_def l)
          moreover have "record_ordinal s (lane_key rec) \<le> lw_recordOrdinal wr" using wf(2) ap3 unfolding lanes_le_def by metis
          ultimately show "\<exists>n k. c = lane_cursor n k \<and> entry_ok nc s' n k l (cr_data rec) \<and> record_ordinal s (lo_lane l) \<le> k"
            using ap3 l t by auto
        qed
      qed
    qed
  qed
  then show "lanes_ok s'" "lanes_le s s'"
    "r = Inr (l, c) \<Longrightarrow> \<exists>n k. c = lane_cursor n k \<and> entry_ok nc s' n k l (cr_data rec) \<and> record_ordinal s (lo_lane l) \<le> k" by blast+
qed

section \<open>The index in memory\<close>

lemma mset_aput:
  "mset (concat (map (f \<circ> snd) (aput k v xs))) =
     mset (concat (map (f \<circ> snd) xs)) - mset (case map_of xs k of None \<Rightarrow> [] | Some u \<Rightarrow> f u) + mset (f v)"
proof (induction xs)
  case (Cons x xs)
  show ?case
  proof (cases "fst x = k")
    case True
    then show ?thesis by (cases x) simp
  next
    case False
    have "mset (case map_of xs k of None \<Rightarrow> [] | Some u \<Rightarrow> f u) \<subseteq># mset (concat (map (f \<circ> snd) xs))"
      by (induction xs) (auto split: option.splits intro: subset_mset.order_trans)
    then obtain C where "mset (concat (map (f \<circ> snd) xs)) = mset (case map_of xs k of None \<Rightarrow> [] | Some u \<Rightarrow> f u) + C"
      by (auto simp: subset_mset.le_iff_add)
    then show ?thesis using False Cons by (cases x) (simp add: comp_def)
  qed
qed simp

lemma locators_mset: "mset (locators_of li) = mset (concat (map (ls_locators \<circ> snd) (li_segments li)))"
  by (simp add: locators_of_def)

lemma lane_segment_locators:
  "ls_locators (lane_segment li name) = (case map_of (li_segments li) name of None \<Rightarrow> [] | Some s \<Rightarrow> ls_locators s)"
  by (simp add: lane_segment_def new_segment_def split: option.split)

lemma segment_subset: "mset (ls_locators (lane_segment li name)) \<subseteq># mset (locators_of li)"
proof -
  have "mset (case map_of xs name of None \<Rightarrow> [] | Some s \<Rightarrow> ls_locators s) \<subseteq># mset (concat (map (ls_locators \<circ> snd) xs))" for xs
    by (induction xs) (auto split: option.splits intro: subset_mset.order_trans)
  then show ?thesis by (simp add: lane_segment_locators locators_mset)
qed

lemma push_locator_mset:
  "mset (locators_of (push_locator r c k n li)) = add_mset \<lparr>il_rec = r, il_cursor = c, il_ordinal = k, il_order = n\<rparr> (mset (locators_of li))"
  using segment_subset [of li "lo_segment r"]
  by (simp add: push_locator_def Let_def locators_mset mset_aput lane_segment_locators [symmetric])

lemma index_live_mset:
  "mset (locators_of (index_live r c n li)) =
     add_mset \<lparr>il_rec = r, il_cursor = c, il_ordinal = (case parse_lane_cursor c of Some (_, k) \<Rightarrow> k | None \<Rightarrow> li_total li + 1), il_order = n\<rparr>
       (mset (locators_of li))"
proof -
  define k where "k = (case parse_lane_cursor c of Some (_, k) \<Rightarrow> k | None \<Rightarrow> li_total li + 1)"
  define p where "p = push_locator r c k n li"
  have "mset (locators_of (p\<lparr>li_segments := aput q (sort_segment (lane_segment p q)) (li_segments p)\<rparr>)) = mset (locators_of p)" for q
    using segment_subset [of p q] by (simp add: locators_mset mset_aput lane_segment_locators [symmetric] sort_segment_def)
  then show ?thesis
    unfolding index_live_def Let_def k_def [symmetric] p_def [symmetric] by (simp add: p_def push_locator_mset)
qed

lemma index_live_fields [simp]: "li_lane (index_live r c n li) = li_lane li" "li_ordinal (index_live r c n li) = li_ordinal li"
  by (simp_all add: index_live_def push_locator_def Let_def)

definition lane_ok :: "node_crypto \<Rightarrow> gateway_store \<Rightarrow> string \<Rightarrow> lane_index \<Rightarrow> bool" where
  "lane_ok nc s lane li \<longleftrightarrow> li_lane li = lane \<and> map_of (gs_laneOrdinals s) lane = Some (li_ordinal li) \<and>
     distinct (map il_ordinal (locators_of li)) \<and>
     (\<forall>l\<in>set (locators_of li). lo_lane (il_rec l) = lane \<and> il_cursor l = lane_cursor (li_ordinal li) (il_ordinal l) \<and>
        (\<exists>rec. entry_ok nc s (li_ordinal li) (il_ordinal l) (il_rec l) rec))"

definition index_ok :: "node_crypto \<Rightarrow> gateway_store \<Rightarrow> bool" where
  "index_ok nc s \<longleftrightarrow> distinct (map fst (gs_laneIndex s)) \<and> (\<forall>(lane, li)\<in>set (gs_laneIndex s). lane_ok nc s lane li)"

text \<open>A record that stands in the index under a cursor, and an ordinal that is taken.\<close>

definition indexed :: "node_crypto \<Rightarrow> gateway_store \<Rightarrow> string \<Rightarrow> string \<Rightarrow> bool" where
  "indexed nc s c rec \<longleftrightarrow> (\<exists>lane li l. (lane, li) \<in> set (gs_laneIndex s) \<and> l \<in> set (locators_of li) \<and> il_cursor l = c \<and>
     holds_record nc (lane_files lane s) (il_rec l) rec)"

definition taken :: "gateway_store \<Rightarrow> string \<Rightarrow> nat \<Rightarrow> bool" where
  "taken s lane k \<longleftrightarrow> (\<exists>li l. (lane, li) \<in> set (gs_laneIndex s) \<and> l \<in> set (locators_of li) \<and> il_ordinal l = k)"

definition pending :: "node_crypto \<Rightarrow> gateway_store \<Rightarrow> (locator \<times> string \<times> string) list \<Rightarrow> bool" where
  "pending nc s ps \<longleftrightarrow> distinct (map (\<lambda>(_, c, _). c) ps) \<and>
     (\<forall>(r, c, rec)\<in>set ps. \<exists>n k. c = lane_cursor n k \<and> entry_ok nc s n k r rec \<and> \<not> taken s (lo_lane r) k)"

lemma lane_ok_mono: "lane_ok nc s lane li \<Longrightarrow> lanes_le s t \<Longrightarrow> lane_ok nc t lane li"
  unfolding lane_ok_def using entry_ok_mono by (metis lanes_le_def)

lemma index_ok_mono: "index_ok nc s \<Longrightarrow> lanes_le s t \<Longrightarrow> gs_laneIndex t = gs_laneIndex s \<Longrightarrow> index_ok nc t"
  using lane_ok_mono by (fastforce simp: index_ok_def)

lemma indexed_mono: "indexed nc s c rec \<Longrightarrow> lanes_le s t \<Longrightarrow> gs_laneIndex t = gs_laneIndex s \<Longrightarrow> indexed nc t c rec"
  unfolding indexed_def lanes_le_def using holds_record_grows by metis

lemma pending_mono: "pending nc s ps \<Longrightarrow> lanes_le s t \<Longrightarrow> gs_laneIndex t = gs_laneIndex s \<Longrightarrow> pending nc t ps"
  unfolding pending_def taken_def using entry_ok_mono by fastforce

lemma taken_below: "index_ok nc s \<Longrightarrow> taken s lane k \<Longrightarrow> k < record_ordinal s lane"
  by (fastforce simp: index_ok_def taken_def lane_ok_def entry_ok_def)

lemma lane_cursor_inject: "n < 2 ^ 64 \<Longrightarrow> lane_cursor n k = lane_cursor m j \<Longrightarrow> m < 2 ^ 64 \<Longrightarrow> n = m \<and> k = j"
  using parse_formatted_cursor by (metis option.inject prod.inject)

lemma lane_ordinal_small:
  "lanes_ok s \<Longrightarrow> gs_nextLaneOrdinal s \<le> 2 ^ 64 \<Longrightarrow> map_of (gs_laneOrdinals s) lane = Some n \<Longrightarrow> n < 2 ^ 64"
  unfolding lanes_ok_def by (meson order_less_le_trans)

text \<open>One record enters the index.\<close>

lemma indexRecord_step:
  assumes ok: "lanes_ok s" "gs_nextLaneOrdinal s \<le> 2 ^ 64" and ix: "index_ok nc s" and p: "pending nc s ((r, c, rec) # ps)"
  shows "index_ok nc (indexRecord (r, c) s)" "pending nc (indexRecord (r, c) s) ps" "indexed nc (indexRecord (r, c) s) c rec"
    "indexed nc s c' rec' \<Longrightarrow> indexed nc (indexRecord (r, c) s) c' rec'"
proof -
  define lane where "lane = lo_lane r"
  define s' where "s' = indexRecord (r, c) s"
  obtain n k where c: "c = lane_cursor n k" and e: "entry_ok nc s n k r rec" and fresh: "\<not> taken s lane k"
    using p by (auto simp: pending_def lane_def)
  have n: "map_of (gs_laneOrdinals s) lane = Some n" using e by (simp add: entry_ok_def lane_def)
  have n64: "n < 2 ^ 64" by (rule lane_ordinal_small [OF ok n])
  define li where "li = (case map_of (gs_laneIndex s) lane of Some li \<Rightarrow> li | None \<Rightarrow> new_lane lane n)"
  define li' where "li' = index_live r c (gs_recordOrder s + 1) li"
  have le: "lanes_le s s'" "lane_files q s' = lane_files q s" for q
    by (simp_all add: s'_def lanes_le_def record_ordinal_def)
  have index: "gs_laneIndex s' = aput lane li' (gs_laneIndex s)"
    unfolding s'_def indexRecord_def Let_def li'_def li_def lane_def using n by (auto simp: lane_def split: option.split)
  define l where "l = \<lparr>il_rec = r, il_cursor = c, il_ordinal = k, il_order = gs_recordOrder s + 1\<rparr>"
  have parse: "parse_lane_cursor c = Some (n, k)" unfolding c by (rule parse_formatted_cursor [OF n64])
  have ms: "mset (locators_of li') = add_mset l (mset (locators_of li))"
    unfolding li'_def index_live_mset l_def parse by simp
  then have set: "set (locators_of li') = insert l (set (locators_of li))" by (metis set_mset_add_mset_insert set_mset_mset)
  have in_index: "(lane, li) \<in> set (gs_laneIndex s)" if "locators_of li \<noteq> []"
    using that by (auto simp: li_def new_lane_def locators_of_def dest: map_of_SomeD split: option.splits)
  have lok: "lane_ok nc s lane li"
  proof (cases "map_of (gs_laneIndex s) lane")
    case None
    then show ?thesis using n by (simp add: li_def lane_ok_def new_lane_def locators_of_def)
  next
    case (Some x)
    then show ?thesis using ix map_of_SomeD [OF Some] by (auto simp: li_def index_ok_def)
  qed
  have ord: "li_ordinal li = n" using lok n by (simp add: lane_ok_def)
  have lok': "lane_ok nc s lane li'"
  proof -
    have "distinct (map il_ordinal (locators_of li'))"
    proof -
      have "mset (map il_ordinal (locators_of li')) = mset (map il_ordinal (l # locators_of li))" using ms by simp
      moreover have "il_ordinal l \<notin> il_ordinal ` set (locators_of li)"
        using fresh in_index by (fastforce simp: taken_def l_def)
      ultimately show ?thesis using lok mset_eq_imp_distinct_iff by (metis distinct.simps(2) lane_ok_def list.simps(9) set_map)
    qed
    moreover have "li_lane li' = lane" "li_ordinal li' = n" using lok ord by (simp_all add: li'_def lane_ok_def)
    ultimately show ?thesis using lok e n ord unfolding lane_ok_def set by (auto simp: l_def lane_def c)
  qed
  have aput_mem: "x \<in> set (aput lane li' xs) \<Longrightarrow> x = (lane, li') \<or> x \<in> set xs" for x xs using aput_set by fastforce
  have aput_other: "q \<noteq> lane \<Longrightarrow> (q, y) \<in> set xs \<Longrightarrow> (q, y) \<in> set (aput lane li' xs)" for q y and xs :: index
    by (induction xs) auto
  have here: "(lane, li') \<in> set (gs_laneIndex s')" unfolding index by (metis aget_aput map_of_SomeD)
  show "index_ok nc (indexRecord (r, c) s)"
    unfolding s'_def [symmetric] index_ok_def index
  proof (intro conjI ballI, goal_cases)
    case 1
    then show ?case using ix by (simp add: index_ok_def distinct_update)
  next
    case (2 x)
    then have "lane_ok nc s (fst x) (snd x)" using aput_mem [of x] ix lok' by (fastforce simp: index_ok_def)
    then show ?case using lane_ok_mono [OF _ le(1)] by (auto split: prod.split)
  qed
  have taken: "taken s' q j \<Longrightarrow> taken s q j \<or> q = lane \<and> j = k" for q j
  proof -
    assume "taken s' q j"
    then obtain y v where y: "(q, y) \<in> set (aput lane li' (gs_laneIndex s))" "v \<in> set (locators_of y)" "il_ordinal v = j"
      by (auto simp: taken_def index)
    show "taken s q j \<or> q = lane \<and> j = k"
    proof (cases "(q, y) = (lane, li') \<and> v \<noteq> l")
      case True
      then have v: "v \<in> set (locators_of li)" using y(2) set by simp
      then have "(lane, li) \<in> set (gs_laneIndex s)" by (intro in_index) auto
      then show ?thesis using True v y(3) by (auto simp: taken_def)
    next
      case False
      then show ?thesis using aput_mem [OF y(1)] y by (auto simp: taken_def l_def)
    qed
  qed
  show "pending nc (indexRecord (r, c) s) ps"
    unfolding s'_def [symmetric] pending_def
  proof (intro conjI ballI, goal_cases)
    case 1
    then show ?case using p by (simp add: pending_def)
  next
    case (2 x)
    obtain r1 c1 rec1 where x: "x = (r1, c1, rec1)" by (cases x)
    obtain m j where m: "c1 = lane_cursor m j" "entry_ok nc s m j r1 rec1" "\<not> taken s (lo_lane r1) j"
      using p 2 x by (fastforce simp: pending_def)
    have "c1 \<in> set (map (\<lambda>(_, c, _). c) ps)" using 2 x by force
    moreover have "c \<notin> set (map (\<lambda>(_, c, _). c) ps)" using p by (simp add: pending_def)
    ultimately have ne: "c1 \<noteq> c" by metis
    have "\<not> (lo_lane r1 = lane \<and> j = k)" using m(1,2) ne c n by (auto simp: entry_ok_def)
    then have "\<not> taken s' (lo_lane r1) j" using taken m(3) by blast
    then show ?case using m entry_ok_mono [OF m(2) le(1)] x by auto
  qed
  have "holds_record nc (lane_files lane s') (il_rec l) rec" using e le(2) by (simp add: entry_ok_def l_def lane_def)
  then show "indexed nc (indexRecord (r, c) s) c rec"
    unfolding s'_def [symmetric] indexed_def using here set by (intro exI [of _ lane] exI [of _ li'] exI [of _ l]) (simp add: l_def)
  show "indexed nc (indexRecord (r, c) s) c' rec'" if "indexed nc s c' rec'"
  proof -
    obtain q y j where q: "(q, y) \<in> set (gs_laneIndex s)" "j \<in> set (locators_of y)" "il_cursor j = c'" "holds_record nc (lane_files q s) (il_rec j) rec'"
      using \<open>indexed nc s c' rec'\<close> by (auto simp: indexed_def)
    show ?thesis
    proof (cases "q = lane")
      case True
      then have "y = li" using q(1) ix by (simp add: li_def index_ok_def)
      then show ?thesis using here set q True le(2) unfolding s'_def [symmetric] indexed_def by fastforce
    next
      case False
      then show ?thesis using aput_other [OF False q(1)] q le(2) unfolding s'_def [symmetric] indexed_def index by fastforce
    qed
  qed
qed

text \<open>All records of a commit: appended to the lanes, then entered into the index.\<close>

lemma append_records_ok:
  assumes "hashes envs nc"
  shows "append_records envs i rs s = (r, s') \<Longrightarrow> lanes_ok s \<Longrightarrow> index_ok nc s \<Longrightarrow>
    lanes_ok s' \<and> lanes_le s s' \<and>
    (\<forall>rcs. r = Inr rcs \<longrightarrow> gs_nextLaneOrdinal s' \<le> 2 ^ 64 \<longrightarrow> length rcs = length rs \<and>
       pending nc s' (map (\<lambda>((l, c), rec). (l, c, cr_data rec)) (zip rcs rs)) \<and>
       (\<forall>(l, c)\<in>set rcs. \<forall>n k. c = lane_cursor n k \<longrightarrow> n < 2 ^ 64 \<longrightarrow> map_of (gs_laneOrdinals s') (lo_lane l) = Some n \<longrightarrow> record_ordinal s (lo_lane l) \<le> k))"
proof (induction rs arbitrary: i s r s')
  case Nil
  then show ?case by (auto simp: pending_def)
next
  case (Cons rec rs)
  obtain x s1 where a: "append_record envs i rec s = (x, s1)" by (cases "append_record envs i rec s")
  note ar = append_record_ok [OF Cons.prems(2) assms a]
  have ix1: "index_ok nc s1" using index_ok_mono [OF Cons.prems(3) ar(2)] append_record_ledger [OF a] by (simp add: same_ledger_def)
  show ?case
  proof (cases x)
    case (Inl e)
    then show ?thesis using Cons.prems(1) a ar by auto
  next
    case (Inr lc)
    obtain l c where lc: "lc = (l, c)" by (cases lc)
    obtain y s2 where b: "append_records envs (i + 1) rs s1 = (y, s2)" by (cases "append_records envs (i + 1) rs s1")
    note ih = Cons.IH [OF b ar(1) ix1]
    have s': "s' = s2" using Cons.prems(1) a Inr b by (auto split: sum.splits)
    have le: "lanes_le s s'" using ih ar(2) lanes_le_trans s' by blast
    have "length rcs = length (rec # rs) \<and> pending nc s' (map (\<lambda>((l, c), rec). (l, c, cr_data rec)) (zip rcs (rec # rs))) \<and>
        (\<forall>(l, c)\<in>set rcs. \<forall>n k. c = lane_cursor n k \<longrightarrow> n < 2 ^ 64 \<longrightarrow> map_of (gs_laneOrdinals s') (lo_lane l) = Some n \<longrightarrow> record_ordinal s (lo_lane l) \<le> k)"
      if r: "r = Inr rcs" and small: "gs_nextLaneOrdinal s' \<le> 2 ^ 64" for rcs
    proof -
      obtain rcs1 where y: "y = Inr rcs1" "rcs = (l, c) # rcs1" using Cons.prems(1) a Inr b r lc by (auto split: sum.splits)
      obtain n k where c: "c = lane_cursor n k" "entry_ok nc s1 n k l (cr_data rec)" "record_ordinal s (lo_lane l) \<le> k"
        using ar(3) Inr lc by blast
      have p: "length rcs1 = length rs" "pending nc s' (map (\<lambda>((l, c), rec). (l, c, cr_data rec)) (zip rcs1 rs))"
        and later: "\<forall>(l, c)\<in>set rcs1. \<forall>n k. c = lane_cursor n k \<longrightarrow> n < 2 ^ 64 \<longrightarrow> map_of (gs_laneOrdinals s') (lo_lane l) = Some n \<longrightarrow> record_ordinal s1 (lo_lane l) \<le> k"
        using ih y(1) small s' by blast+
      have le2: "lanes_le s1 s'" using ih s' by blast
      have e: "entry_ok nc s' n k l (cr_data rec)" by (rule entry_ok_mono [OF c(2) le2])
      have ok': "lanes_ok s'" using ih s' by blast
      have n64: "n < 2 ^ 64" using lane_ordinal_small [OF ok' small, of "lo_lane l" n] e by (simp add: entry_ok_def)
      have "\<not> taken s (lo_lane l) k" using taken_below [OF Cons.prems(3)] c(3) by (meson not_less)
      then have fresh: "\<not> taken s' (lo_lane l) k"
        using append_records_ledger [OF b] append_record_ledger [OF a] s' by (simp add: taken_def same_ledger_def)
      have new: "c \<noteq> c1" if mem: "(l1, c1) \<in> set rcs1" and zipped: "(l1, c1, d) \<in> set (map (\<lambda>((l, c), rec). (l, c, cr_data rec)) (zip rcs1 rs))" for l1 c1 d
      proof
        assume eq: "c = c1"
        obtain m j where m: "c1 = lane_cursor m j" "entry_ok nc s' m j l1 d" using p(2) zipped by (fastforce simp: pending_def)
        have m64: "m < 2 ^ 64" using lane_ordinal_small [OF ok' small, of "lo_lane l1" m] m(2) by (simp add: entry_ok_def)
        have same: "n = m" "k = j" using lane_cursor_inject [OF n64 _ m64] eq c(1) m(1) by metis+
        have lanes: "lo_lane l1 = lo_lane l" using ok' e m(2) same unfolding entry_ok_def lanes_ok_def by blast
        have "record_ordinal s1 (lo_lane l) \<le> k"
          using later mem m(1) m64 m(2) same lanes by (fastforce simp: entry_ok_def)
        then show False using c(2) by (simp add: entry_ok_def)
      qed
      have "c \<notin> set (map (\<lambda>(_, c, _). c) (map (\<lambda>((l, c), rec). (l, c, cr_data rec)) (zip rcs1 rs)))"
      proof
        assume "c \<in> set (map (\<lambda>(_, c, _). c) (map (\<lambda>((l, c), rec). (l, c, cr_data rec)) (zip rcs1 rs)))"
        then obtain l1 rec1 where z: "((l1, c), rec1) \<in> set (zip rcs1 rs)" by auto
        then have "(l1, c, cr_data rec1) \<in> set (map (\<lambda>((l, c), rec). (l, c, cr_data rec)) (zip rcs1 rs))" by force
        then show False using new [of l1 c] set_zip_leftD [OF z] by blast
      qed
      then have "pending nc s' (map (\<lambda>((l, c), rec). (l, c, cr_data rec)) (zip rcs (rec # rs)))"
        using p(2) e fresh c(1) by (auto simp: pending_def y(2))
      moreover have "\<forall>n k. c = lane_cursor n k \<longrightarrow> n < 2 ^ 64 \<longrightarrow> map_of (gs_laneOrdinals s') (lo_lane l) = Some n \<longrightarrow> record_ordinal s (lo_lane l) \<le> k"
        using c(1,3) lane_cursor_inject [OF n64] by metis
      moreover have "record_ordinal s q \<le> record_ordinal s1 q" for q using ar(2) by (simp add: lanes_le_def)
      ultimately show ?thesis using p(1) later y(2) by (fastforce intro: order_trans)
    qed
    then show ?thesis using le ih s' by blast
  qed
qed

definition entry_of :: "locator \<times> string \<times> string \<Rightarrow> locator \<times> string" where
  "entry_of p = (fst p, fst (snd p))"

lemma entry_of_simp [simp]: "entry_of (r, c, rec) = (r, c)"
  by (simp add: entry_of_def)

lemma indexRecords_step:
  assumes "lanes_ok s" "gs_nextLaneOrdinal s \<le> 2 ^ 64" "index_ok nc s" "pending nc s ps"
  shows "index_ok nc (fold indexRecord (map entry_of ps) s) \<and>
    (\<forall>p\<in>set ps. indexed nc (fold indexRecord (map entry_of ps) s) (fst (snd p)) (snd (snd p))) \<and>
    (\<forall>c rec. indexed nc s c rec \<longrightarrow> indexed nc (fold indexRecord (map entry_of ps) s) c rec)"
  using assms
proof (induction ps arbitrary: s)
  case (Cons p ps)
  obtain r c rec where p: "p = (r, c, rec)" by (cases p)
  note st = indexRecord_step [OF Cons.prems(1-3) Cons.prems(4) [unfolded p]]
  have ok: "lanes_ok (indexRecord (r, c) s)" using Cons.prems(1) by (simp add: lanes_ok_def)
  have small: "gs_nextLaneOrdinal (indexRecord (r, c) s) \<le> 2 ^ 64" using Cons.prems(2) by simp
  have ih: "index_ok nc (fold indexRecord (map entry_of ps) (indexRecord (r, c) s)) \<and>
    (\<forall>p\<in>set ps. indexed nc (fold indexRecord (map entry_of ps) (indexRecord (r, c) s)) (fst (snd p)) (snd (snd p))) \<and>
    (\<forall>c' rec. indexed nc (indexRecord (r, c) s) c' rec \<longrightarrow>
       indexed nc (fold indexRecord (map entry_of ps) (indexRecord (r, c) s)) c' rec)"
    using Cons.IH [OF ok small st(1,2)] by blast
  show ?case using ih st(3,4) by (auto simp: p)
qed simp

section \<open>Runs of a store\<close>

text \<open>The part of the state that reading depends on.\<close>

definition lanes_view :: "gateway_store \<Rightarrow> (string \<times> lane_writer) list \<times> (string \<times> files) list \<times> (string \<times> nat) list \<times> nat \<times> index" where
  "lanes_view s = (gs_writers s, gs_dirs s, gs_laneOrdinals s, gs_nextLaneOrdinal s, gs_laneIndex s)"

lemma view_cong:
  assumes "lanes_view s = lanes_view t"
  shows "lanes_ok s = lanes_ok t" "index_ok nc s = index_ok nc t" "indexed nc s c rec = indexed nc t c rec"
    "gs_nextLaneOrdinal s = gs_nextLaneOrdinal t"
proof -
  have f: "lane_files q s = lane_files q t" "record_ordinal s q = record_ordinal t q" for q
    using assms by (auto simp: lanes_view_def lane_files_def record_ordinal_def split: option.split)
  show "lanes_ok s = lanes_ok t" "gs_nextLaneOrdinal s = gs_nextLaneOrdinal t" using assms f by (simp_all add: lanes_ok_def lanes_view_def)
  have "entry_ok nc s n k r d = entry_ok nc t n k r d" for n k r d using assms f by (simp add: entry_ok_def lanes_view_def)
  then show "index_ok nc s = index_ok nc t" "indexed nc s c rec = indexed nc t c rec"
    using assms f by (simp_all add: index_ok_def lane_ok_def indexed_def lanes_view_def)
qed

lemma indexRecord_journal: "indexRecord rc (s\<lparr>gs_journal := j\<rparr>) = (indexRecord rc s)\<lparr>gs_journal := j\<rparr>"
  by (cases rc) (simp add: indexRecord_def Let_def cong: option.case_cong)

lemma fold_indexRecord_journal:
  "fold indexRecord rcs (s\<lparr>gs_journal := j\<rparr>) = (fold indexRecord rcs s)\<lparr>gs_journal := j\<rparr>"
  by (induction rcs arbitrary: s) (simp_all add: indexRecord_journal)

lemma journal_then_apply_view:
  assumes "journal_then_apply nc rcs ods mut result s = (r, s')"
  shows "lanes_view s' = lanes_view s \<and> isl r \<or> lanes_view s' = lanes_view (fold indexRecord rcs s)"
  using assms
  by (auto simp: journal_then_apply_def Let_def lanes_view_def fold_indexRecord_journal split: sum.splits prod.splits)

lemma commitSync_view: "commitSync nc mut result s = (r, s') \<Longrightarrow> lanes_view s' = lanes_view s"
  by (auto simp: commitSync_def lanes_view_def split: option.splits sum.splits prod.splits)

definition run_ok :: "node_crypto \<Rightarrow> gateway_store \<Rightarrow> (string \<times> string) list \<Rightarrow> bool" where
  "run_ok nc s cs \<longleftrightarrow> lanes_ok s \<and> index_ok nc s \<and> gs_nextLaneOrdinal s \<le> 2 ^ 64 \<and> (\<forall>(c, rec)\<in>set cs. indexed nc s c rec)"

lemma run_ok_view: "lanes_view s = lanes_view t \<Longrightarrow> run_ok nc s cs = run_ok nc t cs"
  using view_cong [of s t] by (simp add: run_ok_def)

text \<open>A commit stops before the journal, or reaches it with its records pending.\<close>

definition commit_answer :: "(locator \<times> string) list \<Rightarrow> object_descriptor list \<Rightarrow> store_code + string \<Rightarrow> store_code + commit_result" where
  "commit_answer rcs ods x = (case x of Inl e \<Rightarrow> Inl e | Inr tx \<Rightarrow>
     Inr \<lparr>co_tx = tx, co_cursors = map snd rcs, co_records = map fst rcs, co_objects = ods\<rparr>)"

definition cursor_data :: "locator \<times> string \<times> string \<Rightarrow> string \<times> string" where
  "cursor_data p = (fst (snd p), snd (snd p))"

lemma commit_shape:
  assumes ok: "lanes_ok s" "index_ok nc s" and e: "hashes envs nc" and small: "gs_nextLaneOrdinal s' \<le> 2 ^ 64"
    and a: "store_commit nc envs inp s = (r, s')"
  shows "(isl r \<and> lanes_ok s' \<and> lanes_le s s' \<and> same_ledger s s') \<or>
    (\<exists>s2 ods ps x. lanes_ok s2 \<and> lanes_le s s2 \<and> same_ledger s s2 \<and> gs_nextLaneOrdinal s2 \<le> 2 ^ 64 \<and> pending nc s2 ps \<and>
       map cursor_data ps = zip (map (snd \<circ> entry_of) ps) (map cr_data (ci_records inp)) \<and>
       journal_then_apply nc (map entry_of ps) ods (ci_mutation inp) (ci_result inp) s2 = (x, s') \<and> r = commit_answer (map entry_of ps) ods x)"
proof (cases "commit_guard (ci_mutation inp) (ci_result inp) s")
  case (Some err)
  then have "isl r \<and> s' = s" using a by (auto simp: store_commit_def)
  then show ?thesis using ok by simp
next
  case None
  obtain r1 s1 where o: "put_objects nc (ci_objects inp) s = (r1, s1)" by (cases "put_objects nc (ci_objects inp) s")
  obtain r2 s2 where l: "append_records envs 0 (ci_records inp) s1 = (r2, s2)" by (cases "append_records envs 0 (ci_records inp) s1")
  have v1: "lanes_view s1 = lanes_view s" "same_ledger s s1" using put_objects_frame [OF o] by (auto simp: lanes_view_def same_ledger_def)
  have le1: "lanes_le s s1" using v1(1) by (auto simp: lanes_le_def lanes_view_def lane_files_def record_ordinal_def cong: option.case_cong)
  have ok1: "lanes_ok s1" "index_ok nc s1" using ok view_cong [OF v1(1)] by blast+
  note ar = append_records_ok [OF e l ok1]
  have le: "lanes_le s s2" "same_ledger s s2"
    using ar le1 lanes_le_trans same_ledger_trans [OF v1(2) append_records_ledger [OF l]] by blast+
  show ?thesis
  proof (cases "isl r1 \<or> isl r2")
    case True
    then have "isl r \<and> (s' = s1 \<or> s' = s2)"
      using a None o l by (cases r1; cases r2) (auto simp: store_commit_def)
    then show ?thesis using ok1 ar le le1 v1 by blast
  next
    case False
    then obtain ods rcs where d: "r1 = Inr ods" "r2 = Inr rcs" by (cases r1; cases r2) auto
    obtain x s3 where j: "journal_then_apply nc rcs ods (ci_mutation inp) (ci_result inp) s2 = (x, s3)"
      by (cases "journal_then_apply nc rcs ods (ci_mutation inp) (ci_result inp) s2")
    have r: "s' = s3" "r = commit_answer rcs ods x"
      using a None o l d j by (auto simp: store_commit_def commit_answer_def split: sum.splits)
    have small2: "gs_nextLaneOrdinal s2 \<le> 2 ^ 64"
      using journal_then_apply_view [OF j] small r(1) by (auto simp: lanes_view_def)
    define ps where "ps = map (\<lambda>((l, c), rec). (l, c, cr_data rec)) (zip rcs (ci_records inp))"
    have p: "pending nc s2 ps" "length rcs = length (ci_records inp)" using ar d(2) small2 by (auto simp: ps_def)
    have rcs: "map entry_of ps = rcs"
    proof -
      have "map entry_of ps = map fst (zip rcs (ci_records inp))" by (auto simp: ps_def entry_of_def)
      then show ?thesis using p(2) by simp
    qed
    have "map cursor_data ps = zip (map snd rcs) (map cr_data (ci_records inp))"
      by (auto simp: ps_def cursor_data_def zip_map1 zip_map2 intro: nth_equalityI)
    then have "map cursor_data ps = zip (map (snd \<circ> entry_of) ps) (map cr_data (ci_records inp))"
      using rcs by (metis map_map)
    then show ?thesis using ar le small2 p(1) rcs j r by blast
  qed
qed

lemma commit_run_ok:
  assumes ok: "run_ok nc s cs" and e: "hashes envs nc" and small: "gs_nextLaneOrdinal s' \<le> 2 ^ 64"
    and a: "store_commit nc envs inp s = (r, s')"
  shows "case r of Inl _ \<Rightarrow> run_ok nc s' cs | Inr c \<Rightarrow> run_ok nc s' (cs @ zip (co_cursors c) (map cr_data (ci_records inp)))"
proof -
  have keep: "run_ok nc t cs" if "lanes_ok t" "lanes_le s t" "same_ledger s t" "gs_nextLaneOrdinal t \<le> 2 ^ 64" for t
    using ok that index_ok_mono [of nc s t] indexed_mono [of nc s _ _ t] unfolding run_ok_def same_ledger_def by blast
  have ok': "lanes_ok s" "index_ok nc s" using ok by (simp_all add: run_ok_def)
  from commit_shape [OF ok' e small a] show ?thesis
  proof
    assume "isl r \<and> lanes_ok s' \<and> lanes_le s s' \<and> same_ledger s s'"
    then show ?thesis using keep small by (cases r) auto
  next
    assume "\<exists>s2 ods ps x. lanes_ok s2 \<and> lanes_le s s2 \<and> same_ledger s s2 \<and> gs_nextLaneOrdinal s2 \<le> 2 ^ 64 \<and> pending nc s2 ps \<and>
       map cursor_data ps = zip (map (snd \<circ> entry_of) ps) (map cr_data (ci_records inp)) \<and>
       journal_then_apply nc (map entry_of ps) ods (ci_mutation inp) (ci_result inp) s2 = (x, s') \<and> r = commit_answer (map entry_of ps) ods x"
    then obtain s2 ods ps x where s2: "lanes_ok s2" "lanes_le s s2" "same_ledger s s2" "gs_nextLaneOrdinal s2 \<le> 2 ^ 64"
      and p: "pending nc s2 ps" "map cursor_data ps = zip (map (snd \<circ> entry_of) ps) (map cr_data (ci_records inp))"
      and j: "journal_then_apply nc (map entry_of ps) ods (ci_mutation inp) (ci_result inp) s2 = (x, s')" and r: "r = commit_answer (map entry_of ps) ods x"
      by blast
    have ok2: "run_ok nc s2 cs" by (rule keep [OF s2])
    define t where "t = fold indexRecord (map entry_of ps) s2"
    have ix2: "index_ok nc s2" using ok2 by (simp add: run_ok_def)
    note st = indexRecords_step [OF s2(1,4) ix2 p(1), folded t_def]
    have "lane_files q t = lane_files q s2" for q by (simp add: t_def lane_files_def cong: option.case_cong)
    then have tl: "lanes_ok t" "gs_nextLaneOrdinal t \<le> 2 ^ 64" using s2(1,4) by (simp_all add: lanes_ok_def t_def)
    have tok: "run_ok nc t cs" using st tl ok2 unfolding run_ok_def by blast
    have "\<forall>(c, rec)\<in>set (map cursor_data ps). indexed nc t c rec" using st unfolding set_map by (fastforce simp: cursor_data_def)
    then have new: "\<forall>(c, rec)\<in>set (zip (map (snd \<circ> entry_of) ps) (map cr_data (ci_records inp))). indexed nc t c rec" unfolding p(2) .
    show ?thesis
    proof (cases x)
      case (Inl err)
      have "run_ok nc s' cs"
        using journal_then_apply_view [OF j] ok2 tok run_ok_view [of s' s2] run_ok_view [of s' t] unfolding t_def by blast
      then show ?thesis using r Inl by (simp add: commit_answer_def)
    next
      case (Inr tx)
      then have v: "lanes_view s' = lanes_view t" using journal_then_apply_view [OF j] by (simp add: t_def)
      have "run_ok nc t (cs @ zip (map (snd \<circ> entry_of) ps) (map cr_data (ci_records inp)))" using tok new unfolding run_ok_def by auto
      then show ?thesis using r Inr run_ok_view [OF v] by (simp add: commit_answer_def)
    qed
  qed
qed

end
