(* ===== verification/Store_Runs.thy ===== *)
theory Store_Runs
  imports Store_Facade_Facts
begin

text \<open>
  Runs of a store from an empty state root: what was committed can be read back by its cursors, and
  the index in memory is the one that recovery derives from the journal.
\<close>

section \<open>Reading by cursor\<close>

lemma read_record_holds:
  assumes "holds_record nc fs (il_rec l) rec"
  shows "read_record nc fs l = Inr \<lparr>sr_cursor = il_cursor l, sr_data = rec, sr_locator = l, sr_order = il_order l\<rparr>"
proof -
  obtain k d where k: "lo_segment (il_rec l) = segmentName k" "map_of fs (segmentName k) = Some d"
      "lo_offset (il_rec l) + lo_length (il_rec l) \<le> length d"
      "slice d (lo_offset (il_rec l)) (lo_offset (il_rec l) + lo_length (il_rec l)) = rec @ [LF]"
    and raw: "lo_raw (il_rec l) = sha256hex nc (rec @ [LF])"
    using assms by (auto simp: holds_record_def)
  have "length (slice d (lo_offset (il_rec l)) (lo_offset (il_rec l) + lo_length (il_rec l))) = lo_length (il_rec l)"
    using k(3) by (simp add: slice_def)
  then show ?thesis using k raw by (simp add: read_record_def readSegmentSlice_def Let_def)
qed

lemma readCursor_indexed:
  assumes ok: "lanes_ok s" "gs_nextLaneOrdinal s \<le> 2 ^ 64" "index_ok nc s" and c: "indexed nc s c rec"
  shows "\<exists>r. readCursor nc c s = Inr (Some r) \<and> sr_cursor r = c \<and> sr_data r = rec"
proof -
  obtain lane li l where l: "(lane, li) \<in> set (gs_laneIndex s)" "l \<in> set (locators_of li)" "il_cursor l = c"
      "holds_record nc (lane_files lane s) (il_rec l) rec"
    using c by (auto simp: indexed_def)
  have li: "lane_ok nc s lane li" using ok(3) l(1) by (auto simp: index_ok_def)
  obtain rec' where e: "entry_ok nc s (li_ordinal li) (il_ordinal l) (il_rec l) rec'" and lane: "lo_lane (il_rec l) = lane"
    and cur: "c = lane_cursor (li_ordinal li) (il_ordinal l)" using li l(2,3) by (auto simp: lane_ok_def)
  have n: "map_of (gs_laneOrdinals s) lane = Some (li_ordinal li)" using li by (simp add: lane_ok_def)
  have parse: "parse_lane_cursor c = Some (li_ordinal li, il_ordinal l)"
    unfolding cur by (rule parse_formatted_cursor [OF lane_ordinal_small [OF ok(1,2) n]])
  have found: "lane_numbered (li_ordinal li) s = Some (lane, li)"
  proof (cases "lane_numbered (li_ordinal li) s")
    case None
    then show ?thesis using l(1) by (auto simp: lane_numbered_def find_None_iff)
  next
    case (Some x)
    obtain q y where x: "x = (q, y)" by (cases x)
    have y: "(q, y) \<in> set (gs_laneIndex s)" "li_ordinal y = li_ordinal li"
      using Some by (auto simp: lane_numbered_def find_Some_iff x in_set_conv_nth)
    have "map_of (gs_laneOrdinals s) q = Some (li_ordinal li)" using ok(3) y by (auto simp: index_ok_def lane_ok_def)
    then have "q = lane" using ok(1) n unfolding lanes_ok_def by blast
    then show ?thesis using Some x y(1) l(1) ok(3) by (auto simp: index_ok_def dest: eq_key_imp_eq_value)
  qed
  have hit: "find (\<lambda>v. il_ordinal v = il_ordinal l) (locators_of li) = Some l"
  proof (cases "find (\<lambda>v. il_ordinal v = il_ordinal l) (locators_of li)")
    case None
    then show ?thesis using l(2) by (auto simp: find_None_iff)
  next
    case (Some v)
    then have "v \<in> set (locators_of li)" "il_ordinal v = il_ordinal l" by (auto simp: find_Some_iff)
    then have "v = l" using li l(2) by (auto simp: lane_ok_def distinct_map dest: inj_onD)
    then show ?thesis using Some by simp
  qed
  have dir: "laneDirFor (li_lane li)" "li_lane li = lane" using e lane li by (auto simp: entry_ok_def lane_ok_def)
  show ?thesis using parse found hit dir l(3) read_record_holds [OF l(4)] by (simp add: readCursor_def)
qed

section \<open>An empty state root\<close>

definition fresh_disk :: store_disk where
  "fresh_disk = \<lparr>sd_journal = None, sd_tails = [], sd_lanes = [], sd_quarantine = [], sd_objects = [],
     sd_registry = Some empty_registry, sd_evidence = []\<rparr>"

definition empty_report :: "lane_env \<Rightarrow> lane_report" where
  "empty_report env = \<lparr>rv_files = [], rv_quarantine = [], rv_lane_ordinal = None, rv_segments = [], rv_active = None,
     rv_opened = Some (le_clock env 0), rv_torn = 0, rv_orphans = [], rv_corrupt = [], rv_base = 0\<rparr>"

lemma recover_empty_lane: "recoverLane env opts [] [] = empty_report env"
  by (simp add: recoverLane_def segment_files_def readLaneMeta_def read_obj_def empty_report_def)

lemma writeActive_ok:
  assumes "writer_ok w"
  shows "writer_ok (writeActive w)"
proof -
  have seg: "lw_segment w = segmentName (lw_segOrdinal w)" using assms by (simp add: writer_ok_def)
  have f: "n \<noteq> ACTIVE_FILE \<Longrightarrow> map_of (lw_files (writeActive w)) n = map_of (lw_files w) n" for n by simp
  have "map_of (lw_files (writeActive w)) (lw_segment w) = map_of (lw_files w) (lw_segment w)"
    unfolding seg by (rule f [OF segmentName_not_meta(1)])
  moreover have "isSegmentName n \<Longrightarrow> map_of (lw_files (writeActive w)) n = map_of (lw_files w) n" for n
    using f [of n] not_ACTIVE_segment(1) by blast
  ultimately show ?thesis using assms by (auto simp: writer_ok_def)
qed

lemma open_empty_lane:
  assumes "open_lane env p (empty_report env0) = Inr w"
  shows "writer_ok w" "lw_laneOrdinal w = lp_ordinal p"
proof -
  define w0 where "w0 = new_writer (write_json LANE_META_FILE (meta_json (lp_lane p) (lp_ordinal p) (le_clock env 0)) []) p (lp_ordinal p)"
  obtain w1 where s: "startSegment 1 (le_clock env 1) w0 = (Inr (), w1)" and w: "w = writeActive (w1\<lparr>lw_recordOrdinal := 1\<rparr>)"
    using assms
    by (auto simp: open_lane_def empty_report_def readLaneMeta_def read_obj_def w0_def Let_def next_record_ordinal_def split: prod.splits sum.splits)
  have b: "\<forall>k d. isSegmentName k \<longrightarrow> map_of (lw_files w0) k = Some d \<longrightarrow> bounded_segment (lw_segmentBytes w0) d"
    using not_ACTIVE_segment(2) by (auto simp: w0_def new_writer_def write_json_def)
  note st = startSegment_ok [OF s b]
  have w1: "writer_ok (w1\<lparr>lw_recordOrdinal := 1\<rparr>)" using st(1) by (auto simp: writer_ok_def)
  show "writer_ok w" unfolding w by (rule writeActive_ok [OF w1])
  show "lw_laneOrdinal w = lp_ordinal p" using st(6) by (simp add: w w0_def new_writer_def)
qed

definition fresh_context :: "lane_env \<Rightarrow> recovered_store \<Rightarrow> store_disk \<Rightarrow> bool" where
  "fresh_context env c d \<longleftrightarrow> rc_journal c = snd (jo_verify (le_crypto env) ((open_journal None)\<lparr>jo_quarantine := []\<rparr>)) \<and>
     rc_laneIndex c = [] \<and> rc_laneOrdinals c = [] \<and> rc_laneReports c = [(LEGACY, empty_report env)] \<and> rc_nextLaneOrdinal c = 1 \<and>
     rr_at (rc_report c) = None \<and> sd_lanes d = [(LEGACY, [])]"

lemma catch_up_nothing: "\<exists>reg'. catch_up nc rs [] reg = (Inr 0, reg')"
  by (auto simp: catch_up_def rebuildFromJournal_def inTx_def split: option.split)

lemma recover_fresh: "\<exists>c d. recoverStoreContext env inst fresh_disk = (Inr c, d) \<and> fresh_context env c d"
proof -
  define d1 where "d1 = ensureLayout fresh_disk"
  have d1: "sd_lanes d1 = [(LEGACY, [])]" "sd_journal d1 = None" "sd_tails d1 = []" "sd_quarantine d1 = []" "sd_registry d1 = Some empty_registry"
    by (simp_all add: d1_def ensureLayout_def fresh_disk_def)
  have dl: "discoverLanes d1 = [(LEGACY, [])]" by (simp add: discoverLanes_def d1 LEGACY_def)
  define j where "j = snd (jo_verify (le_crypto env) ((open_journal None)\<lparr>jo_quarantine := []\<rparr>))"
  have v: "jo_verify (le_crypto env) ((open_journal None)\<lparr>jo_quarantine := []\<rparr>) = (JvOk [] None GENESIS_HASH None, j)"
    by (simp add: j_def jo_verify_def open_journal_def)
  define rep where "rep = empty_report env"
  have l: "recover_one env False [] LEGACY \<lparr>rl_lanes = [(LEGACY, [])], rl_quarantine = [], rl_reports = [], rl_corrupt = []\<rparr> =
      \<lparr>rl_lanes = [(LEGACY, [])], rl_quarantine = [], rl_reports = [(LEGACY, rep)], rl_corrupt = []\<rparr>"
    by (simp add: recover_one_def segments_of_def recover_empty_lane rep_def Let_def) (simp add: empty_report_def)
  have parts: "verdict (JvOk [] None GENESIS_HASH None) = None" "markers_of (JvOk [] None GENESIS_HASH None) = []"
    "committedExtents [] = ([], [])" "all_lanes d1 [] = [LEGACY]" "lane_ordinals d1 = []" "buildLaneIndex [] [] reps = ([], [])" for reps
    by (simp_all add: verdict_def markers_of_def committedExtents_def raw_extents_def marker_records_def all_lanes_def dl
      lane_ordinals_def readLaneOrdinal_def read_obj_def buildLaneIndex_def tx_records_def sort_index_def Let_def)
  define d2 where "d2 = d1\<lparr>sd_journal := jo_file j, sd_tails := jo_quarantine j, sd_lanes := [(LEGACY, [])], sd_quarantine := []\<rparr>"
  obtain reg d3 where reg: "open_or_replace inst d2 = (reg, d3)" by (cases "open_or_replace inst d2")
  have d3: "sd_lanes d3 = [(LEGACY, [])]"
    using reg by (auto simp: open_or_replace_def d2_def split: sum.splits)
  have le: "fold (recover_one env (None \<noteq> (None :: (string \<times> store_reason) option)) []) [LEGACY] \<lparr>rl_lanes = [(LEGACY, [])], rl_quarantine = [], rl_reports = [], rl_corrupt = []\<rparr> =
      \<lparr>rl_lanes = [(LEGACY, [])], rl_quarantine = [], rl_reports = [(LEGACY, rep)], rl_corrupt = []\<rparr>" by (simp add: l)
  obtain reg1 where x: "catch_up (le_crypto env) (resolve_in []) [] reg = (Inr 0, reg1)" using catch_up_nothing by blast
  have "recoverStoreContext env inst fresh_disk =
      (Inr \<lparr>rc_report = \<lparr>rr_ready = True, rr_markers = 0, rr_last_tx = last_tx [], rr_replayed = 0,
               rr_last_indexed = lastIndexedTx reg1, rr_orphans = rv_orphans rep,
               rr_torn = rv_torn rep, rr_corrupt = [], rr_at = None\<rparr>,
             rc_journal = j, rc_markers = [], rc_laneIndex = [], rc_laneOrdinals = [], rc_laneReports = [(LEGACY, rep)],
             rc_laneCommitted = [], rc_registry = reg1, rc_nextLaneOrdinal = 1\<rparr>, d3\<lparr>sd_registry := Some reg1\<rparr>)"
    unfolding recoverStoreContext_def d1_def [symmetric] d1 v Let_def prod.case parts le
    using reg x by (simp add: d2_def)
  then show ?thesis using d3 by (simp add: fresh_context_def j_def rep_def)
qed

lemma open_fresh_state:
  assumes "recoverStoreContext env inst fresh_disk = (Inr c, d)" "fresh_context env c d"
  shows "store_open env envs inst p fresh_disk =
    (case open_lane (envs 0) (writer_options p LEGACY 1) (empty_report env) of
       Inl e \<Rightarrow> Inl e
     | Inr w \<Rightarrow>
         (let i = (case inst of Some i \<Rightarrow> i | None \<Rightarrow> kv_or ''instance_id'' ''default'' (rc_registry c));
              reg = (if kvGet ''instance_id'' (rc_registry c) = None then kvSet ''instance_id'' i (rc_registry c) else rc_registry c) in
          Inr ((new_store c d reg p i)\<lparr>gs_nextLaneOrdinal := 2, gs_laneOrdinals := [(LEGACY, 1)], gs_writers := [(LEGACY, w)]\<rparr>)))"
proof -
  have dir: "laneDirFor LEGACY" by (rule store_lane_dir) (simp add: STORE_LANE_KEY_def)
  have e: "rv_corrupt (empty_report env) = []" by (simp add: empty_report_def)
  show ?thesis using assms dir e
    by (simp add: store_open_def fresh_context_def new_store_def Let_def numeral_2_eq_2 split: sum.split)
qed

lemma open_fresh:
  assumes "store_open env envs inst p fresh_disk = Inr s"
  shows "lanes_ok s" "gs_laneIndex s = []" "gs_nextLaneOrdinal s = 2" "journal_holds nc (gs_journal s) []" "gs_recordOrder s = 0"
proof -
  obtain c d where c: "recoverStoreContext env inst fresh_disk = (Inr c, d)" and cf: "fresh_context env c d" using recover_fresh by blast
  obtain reg i w where w: "open_lane (envs 0) (writer_options p LEGACY 1) (empty_report env) = Inr w"
    and s: "s = (new_store c d reg p i)\<lparr>gs_nextLaneOrdinal := 2, gs_laneOrdinals := [(LEGACY, 1)], gs_writers := [(LEGACY, w)]\<rparr>"
    using assms by (auto simp: open_fresh_state [OF c cf] Let_def split: sum.splits)
  note ow = open_empty_lane [OF w] and f = cf [unfolded fresh_context_def]
  show "gs_laneIndex s = []" "gs_nextLaneOrdinal s = 2" "gs_recordOrder s = 0" using f by (simp_all add: s new_store_def all_locators_def)
  show "journal_holds nc (gs_journal s) []"
    using f by (simp add: s new_store_def journal_holds_def jo_verify_def open_journal_def file_bytes_def last_tx_def last_hash_def)
  show "lanes_ok s" using ow f by (auto simp: lanes_ok_def lane_files_def writer_options_def s new_store_def)
qed

section \<open>The index of the journal\<close>

lemma aput_map: "map (\<lambda>(q, x). (q, f x)) (aput k v xs) = aput k (f v) (map (\<lambda>(q, x). (q, f x)) xs)"
  by (induction xs) auto

lemma aput_twice: "aput k v (aput k u xs) = aput k v xs"
  by (induction xs) auto

lemma map_of_map_snd: "map_of (map (\<lambda>(q, x). (q, f x)) xs) k = map_option f (map_of xs k)"
  by (induction xs) auto

lemma sort_key_snoc: "sort_key f (sort_key f xs @ [x]) = sort_key f (xs @ [x])"
proof (rule properties_for_sort_key [symmetric])
  show "mset (sort_key f (sort_key f xs @ [x])) = mset (xs @ [x])" by simp
  show "filter (\<lambda>y. f k = f y) (sort_key f (sort_key f xs @ [x])) = filter (\<lambda>y. f k = f y) (xs @ [x])" for k
    using sort_key_stable [of f "f k"] by (simp add: eq_commute)
  show "sorted (map f (sort_key f (sort_key f xs @ [x])))" by simp
qed

lemma sort_lane_fields [simp]: "li_ordinal (sort_lane li) = li_ordinal li" "li_total (sort_lane li) = li_total li" "li_lane (sort_lane li) = li_lane li"
  by (simp_all add: sort_lane_def)

lemma lane_segment_sort: "lane_segment (sort_lane li) name = sort_segment (lane_segment li name)"
  by (simp add: lane_segment_def sort_lane_def map_of_map_snd new_segment_def sort_segment_def split: option.split)

text \<open>One record more: sorted at the end, or kept sorted.\<close>

lemma push_sorted:
  assumes "parse_lane_cursor c = Some (m, k)"
  shows "sort_lane (push_locator r c k n li) = index_live r c n (sort_lane li)"
proof -
  define l where "l = \<lparr>il_rec = r, il_cursor = c, il_ordinal = k, il_order = n\<rparr>"
  define sg where "sg = lane_segment li (lo_segment r)"
  have p: "push_locator r c k n li = li\<lparr>li_total := li_total li + 1, li_segments := aput (lo_segment r)
      (sg\<lparr>ls_locators := ls_locators sg @ [l], ls_end := max (ls_end sg) (lo_offset r + lo_length r)\<rparr>) (li_segments li)\<rparr>"
    by (simp add: push_locator_def Let_def sg_def l_def)
  have q: "push_locator r c k n (sort_lane li) = (sort_lane li)\<lparr>li_total := li_total li + 1, li_segments := aput (lo_segment r)
      (sg\<lparr>ls_locators := ls_locators (sort_segment sg) @ [l], ls_end := max (ls_end sg) (lo_offset r + lo_length r)\<rparr>) (li_segments (sort_lane li))\<rparr>"
    by (simp add: push_locator_def Let_def sg_def l_def lane_segment_sort) (simp add: sort_segment_def)
  have "sort_segment (sg\<lparr>ls_locators := ls_locators (sort_segment sg) @ [l], ls_end := e\<rparr>) =
      sort_segment (sg\<lparr>ls_locators := ls_locators sg @ [l], ls_end := e\<rparr>)" for e
    by (simp add: sort_segment_def sort_key_snoc)
  then show ?thesis
    unfolding index_live_def Let_def assms option.case prod.case q p
    by (simp add: aput_twice lane_segment_def) (simp add: sort_lane_def aput_map)
qed

text \<open>Recovered geometry that gives every record of an index its ordinal.\<close>

definition geometry :: "(string \<times> lane_report) list \<Rightarrow> index \<Rightarrow> bool" where
  "geometry reps ix \<longleftrightarrow> (\<forall>l\<in>set (all_locators ix). \<forall>tx. derive_ordinal reps tx (il_rec l) = Inr (il_ordinal l))"

text \<open>Every locator stands in the segment it names.\<close>

definition lane_place :: "string \<Rightarrow> lane_index \<Rightarrow> bool" where
  "lane_place lane li \<longleftrightarrow>
     (\<forall>(n, sg)\<in>set (li_segments li). \<forall>l\<in>set (ls_locators sg). lo_lane (il_rec l) = lane \<and> lo_segment (il_rec l) = n)"

definition in_place :: "index \<Rightarrow> bool" where
  "in_place ix \<longleftrightarrow> (\<forall>(lane, li)\<in>set ix. lane_place lane li)"

definition index_trace :: "(string \<times> nat) list \<Rightarrow> (string \<times> lane_report) list \<Rightarrow> (string \<times> locator) list \<Rightarrow> index_state" where
  "index_trace ords reps trs = fold (index_step ords reps) trs \<lparr>ix_index = [], ix_corrupt = [], ix_count = 0\<rparr>"

text \<open>The index is the one that recovery derives from a list of records, on any such geometry.\<close>

definition rebuilds :: "gateway_store \<Rightarrow> (string \<times> locator) list \<Rightarrow> bool" where
  "rebuilds s trs \<longleftrightarrow> in_place (gs_laneIndex s) \<and>
     (\<forall>ords reps. (\<forall>q n. map_of (gs_laneOrdinals s) q = Some n \<longrightarrow> map_of ords q = Some n) \<longrightarrow> geometry reps (gs_laneIndex s) \<longrightarrow>
       sort_index (ix_index (index_trace ords reps trs)) = gs_laneIndex s \<and> ix_corrupt (index_trace ords reps trs) = [] \<and>
       ix_count (index_trace ords reps trs) = gs_recordOrder s)"

lemma all_locators_set: "set (all_locators ix) = (\<Union>(lane, li)\<in>set ix. set (locators_of li))"
  by (auto simp: all_locators_def)

lemma locators_of_set: "set (locators_of li) = (\<Union>(n, sg)\<in>set (li_segments li). set (ls_locators sg))"
  by (auto simp: locators_of_def)

lemma segment_place:
  "lane_place lane li \<Longrightarrow> l \<in> set (ls_locators (lane_segment li name)) \<Longrightarrow> lo_lane (il_rec l) = lane \<and> lo_segment (il_rec l) = name"
  by (auto simp: lane_place_def lane_segment_def new_segment_def dest: map_of_SomeD split: option.splits)

lemma aput_place:
  assumes "lane_place lane li" "\<forall>l\<in>set (ls_locators sg). lo_lane (il_rec l) = lane \<and> lo_segment (il_rec l) = name"
  shows "lane_place lane (li\<lparr>li_segments := aput name sg (li_segments li)\<rparr>)"
  unfolding lane_place_def
proof (intro ballI)
  fix x assume "x \<in> set (li_segments (li\<lparr>li_segments := aput name sg (li_segments li)\<rparr>))"
  then have "x = (name, sg) \<or> x \<in> set (li_segments li)" using aput_set [of name sg "li_segments li"] by auto
  then show "case x of (n, sg) \<Rightarrow> \<forall>l\<in>set (ls_locators sg). lo_lane (il_rec l) = lane \<and> lo_segment (il_rec l) = n"
    using assms by (auto simp: lane_place_def)
qed

lemma index_live_place: "lane_place (lo_lane r) li \<Longrightarrow> lane_place (lo_lane r) (index_live r c n li)"
proof -
  assume p: "lane_place (lo_lane r) li"
  define k where "k = (case parse_lane_cursor c of Some (_, k) \<Rightarrow> k | None \<Rightarrow> li_total li + 1)"
  have seg: "\<forall>l\<in>set (ls_locators (lane_segment li (lo_segment r)) @ [\<lparr>il_rec = r, il_cursor = c, il_ordinal = k, il_order = n\<rparr>]).
      lo_lane (il_rec l) = lo_lane r \<and> lo_segment (il_rec l) = lo_segment r"
    using segment_place [OF p] by auto
  have total: "lane_place lane (y\<lparr>li_total := t\<rparr>) = lane_place lane y" for lane y t by (simp add: lane_place_def)
  have p1: "lane_place (lo_lane r) (push_locator r c k n li)"
    unfolding push_locator_def Let_def using aput_place [of "lo_lane r" "li\<lparr>li_total := li_total li + 1\<rparr>"] p seg by (simp add: total)
  show ?thesis unfolding index_live_def Let_def k_def [symmetric]
    by (rule aput_place [OF p1]) (use segment_place [OF p1] in \<open>simp add: sort_segment_def\<close>)
qed

lemma derive_place: "lo_lane a = lo_lane b \<Longrightarrow> lo_segment a = lo_segment b \<Longrightarrow> lo_offset a = lo_offset b \<Longrightarrow>
    derive_ordinal reps tx a = Inr k \<Longrightarrow> derive_ordinal reps tx' b = Inr k"
  by (auto simp: derive_ordinal_def Let_def split: option.splits if_splits)

lemma derive_positive: "derive_ordinal reps tx r = Inr k \<Longrightarrow> 0 < k"
  by (auto simp: derive_ordinal_def Let_def split: option.splits if_splits)

lemma index_in_lane_fresh:
  assumes "derive_ordinal reps tx r = Inr k" "\<not> seen_locator li r"
  shows "index_in_lane reps tx r li st = \<lparr>ix_index = aput (lo_lane r) (push_locator r (lane_cursor (li_ordinal li) k) k (ix_count st + 1) li) (ix_index st),
    ix_corrupt = ix_corrupt st, ix_count = ix_count st + 1\<rparr>"
  using assms derive_positive [OF assms(1)] by (simp add: index_in_lane_def Let_def)

lemma sort_new_lane [simp]: "sort_lane (new_lane lane n) = new_lane lane n"
  by (simp add: sort_lane_def new_lane_def)

lemma sort_index_lookup: "map_of (sort_index ix) lane = map_option sort_lane (map_of ix lane)"
  by (simp add: sort_index_def map_of_map_snd)

lemma sort_index_aput: "sort_index (aput lane li ix) = aput lane (sort_lane li) (sort_index ix)"
  by (simp add: sort_index_def aput_map)

text \<open>The lane that a record enters.\<close>

definition lane_for :: "locator \<Rightarrow> gateway_store \<Rightarrow> lane_index" where
  "lane_for r s = (case map_of (gs_laneIndex s) (lo_lane r) of
     Some li \<Rightarrow> li
   | None \<Rightarrow> new_lane (lo_lane r) (case map_of (gs_laneOrdinals s) (lo_lane r) of None \<Rightarrow> 0 | Some n \<Rightarrow> n))"

lemma indexRecord_index:
  "gs_laneIndex (indexRecord (r, c) s) = aput (lo_lane r) (index_live r c (gs_recordOrder s + 1) (lane_for r s)) (gs_laneIndex s)"
  "gs_recordOrder (indexRecord (r, c) s) = gs_recordOrder s + 1"
  by (simp_all add: indexRecord_def Let_def lane_for_def)

lemma all_locators_grow: "set (all_locators (gs_laneIndex s)) \<subseteq> set (all_locators (gs_laneIndex (indexRecord (r, c) s)))"
  and all_locators_new: "\<exists>l\<in>set (all_locators (gs_laneIndex (indexRecord (r, c) s))). il_rec l = r \<and>
      il_ordinal l = (case parse_lane_cursor c of Some (_, k) \<Rightarrow> k | None \<Rightarrow> li_total (lane_for r s) + 1)"
proof -
  define li' where "li' = index_live r c (gs_recordOrder s + 1) (lane_for r s)"
  have ms: "mset (locators_of li') = add_mset \<lparr>il_rec = r, il_cursor = c,
      il_ordinal = (case parse_lane_cursor c of Some (_, k) \<Rightarrow> k | None \<Rightarrow> li_total (lane_for r s) + 1), il_order = gs_recordOrder s + 1\<rparr> (mset (locators_of (lane_for r s)))"
    by (simp add: li'_def index_live_mset)
  have all: "mset (all_locators (gs_laneIndex (indexRecord (r, c) s))) =
      mset (all_locators (gs_laneIndex s)) - mset (case map_of (gs_laneIndex s) (lo_lane r) of None \<Rightarrow> [] | Some li \<Rightarrow> locators_of li) + mset (locators_of li')"
    unfolding all_locators_def indexRecord_index li'_def [symmetric] by (rule mset_aput)
  have old: "(case map_of (gs_laneIndex s) (lo_lane r) of None \<Rightarrow> [] | Some li \<Rightarrow> locators_of li) = locators_of (lane_for r s)"
    by (simp add: lane_for_def new_lane_def locators_of_def split: option.split)
  have e: "mset (all_locators (gs_laneIndex (indexRecord (r, c) s))) =
      mset (all_locators (gs_laneIndex s)) - mset (locators_of (lane_for r s)) + mset (locators_of li')" using all unfolding old .
  have "A \<subseteq># A - B + B" for A B :: "indexed_locator multiset" by (simp add: subset_eq_diff_conv [symmetric])
  then have "set_mset (mset (all_locators (gs_laneIndex s))) \<subseteq> set_mset (mset (all_locators (gs_laneIndex s)) - mset (locators_of (lane_for r s)) + mset (locators_of li'))"
    unfolding ms by (metis add_mset_add_single mset_subset_eqD subsetI union_assoc union_iff)
  then show "set (all_locators (gs_laneIndex s)) \<subseteq> set (all_locators (gs_laneIndex (indexRecord (r, c) s)))"
    unfolding e [symmetric] by simp
  have "\<lparr>il_rec = r, il_cursor = c, il_ordinal = (case parse_lane_cursor c of Some (_, k) \<Rightarrow> k | None \<Rightarrow> li_total (lane_for r s) + 1),
      il_order = gs_recordOrder s + 1\<rparr> \<in># mset (all_locators (gs_laneIndex (indexRecord (r, c) s)))"
    unfolding e ms by simp
  then show "\<exists>l\<in>set (all_locators (gs_laneIndex (indexRecord (r, c) s))). il_rec l = r \<and>
      il_ordinal l = (case parse_lane_cursor c of Some (_, k) \<Rightarrow> k | None \<Rightarrow> li_total (lane_for r s) + 1)"
    by (intro bexI) auto
qed

lemma rebuilds_step:
  assumes ok: "lanes_ok s" "gs_nextLaneOrdinal s \<le> 2 ^ 64" "index_ok nc s" and p: "pending nc s ((r, c, rec) # ps)" and b: "rebuilds s trs"
  shows "rebuilds (indexRecord (r, c) s) (trs @ [(tx, r)])"
proof -
  obtain n k where c: "c = lane_cursor n k" and e: "entry_ok nc s n k r rec" and fresh: "\<not> taken s (lo_lane r) k"
    using p by (auto simp: pending_def)
  have n: "map_of (gs_laneOrdinals s) (lo_lane r) = Some n" using e by (simp add: entry_ok_def)
  have parse: "parse_lane_cursor c = Some (n, k)" unfolding c by (rule parse_formatted_cursor [OF lane_ordinal_small [OF ok(1,2) n]])
  define li where "li = lane_for r s"
  have place: "in_place (gs_laneIndex s)" using b by (simp add: rebuilds_def)
  have li: "lane_place (lo_lane r) li"
  proof (cases "map_of (gs_laneIndex s) (lo_lane r)")
    case None
    then show ?thesis by (simp add: li_def lane_for_def new_lane_def lane_place_def)
  next
    case (Some x)
    then show ?thesis using place map_of_SomeD [OF Some] by (auto simp: li_def lane_for_def in_place_def)
  qed
  have ord: "li_ordinal li = n"
    using n ok(3) by (auto simp: li_def lane_for_def new_lane_def index_ok_def lane_ok_def dest: map_of_SomeD split: option.splits)
  have "in_place (gs_laneIndex (indexRecord (r, c) s))"
    using place aput_set index_live_place [OF li] unfolding indexRecord_index in_place_def li_def [symmetric] by fastforce
  moreover have "sort_index (ix_index (index_trace ords reps (trs @ [(tx, r)]))) = gs_laneIndex (indexRecord (r, c) s) \<and>
      ix_corrupt (index_trace ords reps (trs @ [(tx, r)])) = [] \<and> ix_count (index_trace ords reps (trs @ [(tx, r)])) = gs_recordOrder (indexRecord (r, c) s)"
    if ords: "\<forall>q n. map_of (gs_laneOrdinals (indexRecord (r, c) s)) q = Some n \<longrightarrow> map_of ords q = Some n"
      and geo: "geometry reps (gs_laneIndex (indexRecord (r, c) s))" for ords reps
  proof -
    have geo0: "geometry reps (gs_laneIndex s)" using geo all_locators_grow unfolding geometry_def by blast
    define st where "st = index_trace ords reps trs"
    have st: "sort_index (ix_index st) = gs_laneIndex s" "ix_corrupt st = []" "ix_count st = gs_recordOrder s"
      using b ords geo0 by (simp_all add: rebuilds_def st_def)
    have on: "map_of ords (lo_lane r) = Some n" using ords n by simp
    define li0 where "li0 = (case map_of (ix_index st) (lo_lane r) of Some x \<Rightarrow> x | None \<Rightarrow> new_lane (lo_lane r) n)"
    have s0: "sort_lane li0 = li"
      using sort_index_lookup [of "ix_index st" "lo_lane r"] n unfolding st(1) by (auto simp: li0_def li_def lane_for_def split: option.splits)
    have d: "derive_ordinal reps tx r = Inr k"
      using all_locators_new [of r c s] geo parse unfolding geometry_def by fastforce
    have "\<not> seen_locator li0 r"
    proof
      assume "seen_locator li0 r"
      then obtain v where v: "v \<in> set (ls_locators (lane_segment li0 (lo_segment r)))" "lo_offset (il_rec v) = lo_offset r"
        by (auto simp: seen_locator_def list_ex_iff)
      then have vs: "v \<in> set (ls_locators (lane_segment li (lo_segment r)))"
        unfolding s0 [symmetric] lane_segment_sort by (simp add: sort_segment_def)
      then have vl: "v \<in> set (locators_of li)" by (metis mset_subset_eqD segment_subset set_mset_mset)
      then have m: "(lo_lane r, li) \<in> set (gs_laneIndex s)"
        by (auto simp: li_def lane_for_def new_lane_def locators_of_def dest: map_of_SomeD split: option.splits)
      have "derive_ordinal reps tx (il_rec v) = Inr (il_ordinal v)"
        using geo0 m vl unfolding geometry_def all_locators_set by blast
      from derive_place [OF _ _ v(2) this, of tx] have "derive_ordinal reps tx r = Inr (il_ordinal v)" using segment_place [OF li vs] by simp
      then show False using d fresh m vl by (auto simp: taken_def)
    qed
    note step = index_in_lane_fresh [OF d this, of st]
    have "index_trace ords reps (trs @ [(tx, r)]) = index_in_lane reps tx r li0 st"
      using on by (simp add: index_trace_def st_def [unfolded index_trace_def, symmetric] index_step_def li0_def split: option.split)
    moreover have "li_ordinal li0 = n" using ord unfolding s0 [symmetric] by simp
    ultimately have f: "index_trace ords reps (trs @ [(tx, r)]) = \<lparr>ix_index = aput (lo_lane r) (push_locator r c k (gs_recordOrder s + 1) li0) (ix_index st),
        ix_corrupt = [], ix_count = gs_recordOrder s + 1\<rparr>" using step st c by simp
    show ?thesis unfolding f by (simp add: sort_index_aput st(1) push_sorted [OF parse] s0 indexRecord_index li_def)
  qed
  ultimately show ?thesis by (simp add: rebuilds_def)
qed

text \<open>All records of a commit.\<close>

lemma rebuilds_records:
  assumes "lanes_ok s" "gs_nextLaneOrdinal s \<le> 2 ^ 64" "index_ok nc s" "pending nc s ps" "rebuilds s trs"
  shows "rebuilds (fold indexRecord (map entry_of ps) s) (trs @ map (\<lambda>p. (tx, fst p)) ps)"
  using assms
proof (induction ps arbitrary: s trs)
  case (Cons p ps)
  obtain r c rec where p: "p = (r, c, rec)" by (cases p)
  note pd = Cons.prems(4) [unfolded p]
  note st = indexRecord_step [OF Cons.prems(1-3) pd]
  have ok: "lanes_ok (indexRecord (r, c) s)" using Cons.prems(1) by (simp add: lanes_ok_def)
  have small: "gs_nextLaneOrdinal (indexRecord (r, c) s) \<le> 2 ^ 64" using Cons.prems(2) by simp
  have "rebuilds (indexRecord (r, c) s) (trs @ [(tx, r)])" by (rule rebuilds_step [OF Cons.prems(1-3) pd Cons.prems(5)])
  then show ?case using Cons.IH [OF ok small st(1,2), of "trs @ [(tx, r)]"] by (simp add: p)
qed simp

lemma rebuilds_mono:
  assumes "rebuilds s trs" "lanes_le s t" "gs_laneIndex t = gs_laneIndex s" "gs_recordOrder t = gs_recordOrder s"
  shows "rebuilds t trs"
proof -
  have "\<forall>q n. map_of (gs_laneOrdinals s) q = Some n \<longrightarrow> map_of ords q = Some n"
    if "\<forall>q n. map_of (gs_laneOrdinals t) q = Some n \<longrightarrow> map_of ords q = Some n" for ords
    using that assms(2) unfolding lanes_le_def by blast
  then show ?thesis using assms(1) unfolding rebuilds_def assms(3,4) by blast
qed

lemma rebuilds_view:
  "rebuilds s trs \<Longrightarrow> gs_laneOrdinals t = gs_laneOrdinals s \<Longrightarrow> gs_laneIndex t = gs_laneIndex s \<Longrightarrow> gs_recordOrder t = gs_recordOrder s \<Longrightarrow>
    rebuilds t trs"
  by (simp add: rebuilds_def)

lemma tx_records_snoc: "tx_records (ms @ [m]) = tx_records ms @ map (Pair (mk_tx m)) (mk_records m)"
  by (simp add: tx_records_def)

text \<open>The journal of a store and the index that its markers give.\<close>

definition journaled :: "node_crypto \<Rightarrow> gateway_store \<Rightarrow> bool" where
  "journaled nc s \<longleftrightarrow> (\<exists>ms. journal_holds nc (gs_journal s) ms \<and> rebuilds s (tx_records ms))"

lemma commit_journaled:
  assumes ok: "run_ok nc s cs" and j: "journaled nc s" and e: "hashes envs nc" and small: "gs_nextLaneOrdinal s' \<le> 2 ^ 64"
    and mut: "printable (ci_mutation inp)" and a: "store_commit nc envs inp s = (r, s')"
  shows "journaled nc s'"
proof -
  have ok': "lanes_ok s" "index_ok nc s" using ok by (simp_all add: run_ok_def)
  obtain ms where ms: "journal_holds nc (gs_journal s) ms" "rebuilds s (tx_records ms)" using j by (auto simp: journaled_def)
  have keep: "rebuilds t (tx_records ms)" "journal_holds nc (gs_journal t) ms" if "lanes_le s t" "same_ledger s t" for t
    using ms that rebuilds_mono [OF ms(2) that(1)] by (simp_all add: same_ledger_def)
  from commit_shape [OF ok' e small a] show ?thesis
  proof
    assume "isl r \<and> lanes_ok s' \<and> lanes_le s s' \<and> same_ledger s s'"
    then show ?thesis using keep by (auto simp: journaled_def)
  next
    assume "\<exists>s2 ods ps x. lanes_ok s2 \<and> lanes_le s s2 \<and> same_ledger s s2 \<and> gs_nextLaneOrdinal s2 \<le> 2 ^ 64 \<and> pending nc s2 ps \<and>
       map cursor_data ps = zip (map (snd \<circ> entry_of) ps) (map cr_data (ci_records inp)) \<and>
       journal_then_apply nc (map entry_of ps) ods (ci_mutation inp) (ci_result inp) s2 = (x, s') \<and> r = commit_answer (map entry_of ps) ods x"
    then obtain s2 ods ps x where s2: "lanes_ok s2" "lanes_le s s2" "same_ledger s s2" "gs_nextLaneOrdinal s2 \<le> 2 ^ 64"
      and p: "pending nc s2 ps" and jt: "journal_then_apply nc (map entry_of ps) ods (ci_mutation inp) (ci_result inp) s2 = (x, s')"
      by blast
    note k = keep [OF s2(2,3)]
    have ix: "index_ok nc s2" using index_ok_mono [OF ok'(2) s2(2)] s2(3) by (simp add: same_ledger_def)
    from journal_then_apply_cases [OF k(2) mut jt] show ?thesis
    proof
      assume "\<exists>e. x = Inl e \<and> s' = s2"
      then show ?thesis using k by (auto simp: journaled_def)
    next
      assume "\<exists>m j. commits m (map fst (map entry_of ps)) ods (ci_mutation inp) (ci_result inp) \<and> journal_holds nc j (ms @ [m]) \<and>
       (let s1 = fold indexRecord (map entry_of ps) (s2\<lparr>gs_journal := j\<rparr>) in
        case applyCommit nc (resolve_in (gs_laneIndex s1)) m (gs_registry s2) of
          (Inl e, _) \<Rightarrow> x = Inl e \<and> s' = s1
        | (Inr _, reg) \<Rightarrow> x = Inr (mk_tx m) \<and> s' = s1\<lparr>gs_registry := reg\<rparr>)"
      then obtain m j where m: "commits m (map fst (map entry_of ps)) ods (ci_mutation inp) (ci_result inp)" "journal_holds nc j (ms @ [m])"
        and s': "let s1 = fold indexRecord (map entry_of ps) (s2\<lparr>gs_journal := j\<rparr>) in
        case applyCommit nc (resolve_in (gs_laneIndex s1)) m (gs_registry s2) of
          (Inl e, _) \<Rightarrow> x = Inl e \<and> s' = s1
        | (Inr _, reg) \<Rightarrow> x = Inr (mk_tx m) \<and> s' = s1\<lparr>gs_registry := reg\<rparr>" by blast
      define t where "t = fold indexRecord (map entry_of ps) s2"
      have recs: "tx_records (ms @ [m]) = tx_records ms @ map (\<lambda>p. (mk_tx m, fst p)) ps"
        using m(1) by (simp add: tx_records_snoc commits_def o_def entry_of_def)
      have t: "rebuilds t (tx_records (ms @ [m]))" unfolding t_def recs by (rule rebuilds_records [OF s2(1,4) ix p k(1)])
      have "\<exists>reg. s' = t\<lparr>gs_journal := j\<rparr> \<or> s' = t\<lparr>gs_journal := j, gs_registry := reg\<rparr>"
        using s' unfolding fold_indexRecord_journal t_def [symmetric] by (auto simp: Let_def split: prod.splits sum.splits)
      then have "rebuilds s' (tx_records (ms @ [m]))" "gs_journal s' = j" using rebuilds_view [OF t] by auto
      then show ?thesis using m(2) by (auto simp: journaled_def)
    qed
  qed
qed

lemma commitSync_journaled:
  assumes j: "journaled nc s" and mut: "printable mut" and a: "commitSync nc mut result s = (r, s')"
  shows "journaled nc s'"
proof -
  obtain ms where ms: "journal_holds nc (gs_journal s) ms" "rebuilds s (tx_records ms)" using j by (auto simp: journaled_def)
  have e: "appendSync nc m (gs_journal s) = append_marker nc m (gs_journal s)" for m
    using ms(1) by (simp add: append_marker_def journal_holds_def)
  have same: "gs_laneOrdinals s' = gs_laneOrdinals s" "gs_laneIndex s' = gs_laneIndex s" "gs_recordOrder s' = gs_recordOrder s"
    using a by (auto simp: commitSync_def split: option.splits sum.splits prod.splits)
  show ?thesis
  proof (cases "gs_journal s' = gs_journal s")
    case True
    then show ?thesis using ms rebuilds_view [OF ms(2) same] by (auto simp: journaled_def)
  next
    case False
    obtain m where m: "nextMarker [] [] mut result (gs_journal s) = Inr m" "mk_records m = []" "mk_mutation m = mut"
      using a False by (auto simp: commitSync_def nextMarker_def split: option.splits sum.splits if_splits)
    obtain y j1 where y: "append_marker nc m (gs_journal s) = (y, j1)" by (cases "append_marker nc m (gs_journal s)")
    have s': "gs_journal s' = j1" using a False m(1) y e by (auto simp: commitSync_def split: option.splits sum.splits prod.splits)
    then obtain z where "y = Inr z" using append_marker_refused [OF ms(1)] y False by (cases y) auto
    then have "journal_holds nc j1 (ms @ [m])" using append_marker_holds(1) [OF ms(1)] mut m(3) y by blast
    moreover have "tx_records (ms @ [m]) = tx_records ms" by (simp add: tx_records_snoc m(2))
    ultimately show ?thesis using s' rebuilds_view [OF ms(2) same] by (metis journaled_def)
  qed
qed

lemma rebuilds_empty: "gs_laneIndex s = [] \<Longrightarrow> gs_recordOrder s = 0 \<Longrightarrow> rebuilds s []"
  by (simp add: rebuilds_def in_place_def index_trace_def sort_index_def)

section \<open>Runs\<close>

text \<open>A store opened on an empty root, and every operation since that changed it: the pairs are the
  cursors that commits answered with the records they stand for.  There are less than \<open>2 ^ 64\<close> lanes.\<close>

inductive store_run :: "node_crypto \<Rightarrow> gateway_store \<Rightarrow> (string \<times> string) list \<Rightarrow> bool" for nc where
  run_open: "store_open env envs inst p fresh_disk = Inr s \<Longrightarrow> store_run nc s []"
| run_commit: "store_run nc s cs \<Longrightarrow> hashes envs nc \<Longrightarrow> printable (ci_mutation inp) \<Longrightarrow> store_commit nc envs inp s = (Inr c, s') \<Longrightarrow> gs_nextLaneOrdinal s' \<le> 2 ^ 64 \<Longrightarrow>
    store_run nc s' (cs @ zip (co_cursors c) (map cr_data (ci_records inp)))"
| run_refused: "store_run nc s cs \<Longrightarrow> hashes envs nc \<Longrightarrow> printable (ci_mutation inp) \<Longrightarrow> store_commit nc envs inp s = (Inl e, s') \<Longrightarrow> gs_nextLaneOrdinal s' \<le> 2 ^ 64 \<Longrightarrow>
    store_run nc s' cs"
| run_sync: "store_run nc s cs \<Longrightarrow> printable mut \<Longrightarrow> commitSync nc mut result s = (r, s') \<Longrightarrow> store_run nc s' cs"
| run_kv: "store_run nc s cs \<Longrightarrow> kv_put k v s = (r, s') \<Longrightarrow> store_run nc s' cs"

lemma store_run_ok: "store_run nc s cs \<Longrightarrow> run_ok nc s cs"
proof (induction rule: store_run.induct)
  case (run_open env envs inst p s)
  then show ?case using open_fresh(1-3) [OF run_open] by (simp add: run_ok_def index_ok_def)
next
  case (run_commit s cs envs inp c s')
  then show ?case using commit_run_ok [OF run_commit.IH run_commit.hyps(2,5,4)] by simp
next
  case (run_refused s cs envs inp e s')
  then show ?case using commit_run_ok [OF run_refused.IH run_refused.hyps(2,5,4)] by simp
next
  case (run_sync s cs mut result r s')
  then show ?case using run_ok_view [OF commitSync_view] by blast
next
  case (run_kv s cs k v r s')
  have "lanes_view s' = lanes_view s" using run_kv.hyps(2) by (auto simp: kv_put_def lanes_view_def split: if_splits)
  then show ?case using run_kv.IH run_ok_view by blast
qed

lemma store_run_journaled: "store_run nc s cs \<Longrightarrow> journaled nc s"
proof (induction rule: store_run.induct)
  case (run_open env envs inst p s)
  note o = open_fresh [OF run_open]
  have "rebuilds s (tx_records [])" using rebuilds_empty [OF o(2,5)] by (simp add: tx_records_def)
  then show ?case using o(4) unfolding journaled_def by blast
next
  case (run_commit s cs envs inp c s')
  then show ?case using commit_journaled [OF store_run_ok [OF run_commit.hyps(1)] run_commit.IH run_commit.hyps(2,5,3,4)] by blast
next
  case (run_refused s cs envs inp e s')
  then show ?case using commit_journaled [OF store_run_ok [OF run_refused.hyps(1)] run_refused.IH run_refused.hyps(2,5,3,4)] by blast
next
  case (run_sync s cs mut result r s')
  then show ?case using commitSync_journaled by blast
next
  case (run_kv s cs k v r s')
  obtain ms where ms: "journal_holds nc (gs_journal s) ms" "rebuilds s (tx_records ms)" using run_kv.IH by (auto simp: journaled_def)
  have "gs_journal s' = gs_journal s" "gs_laneOrdinals s' = gs_laneOrdinals s" "gs_laneIndex s' = gs_laneIndex s" "gs_recordOrder s' = gs_recordOrder s"
    using run_kv.hyps(2) by (auto simp: kv_put_def split: if_splits)
  then show ?case using ms rebuilds_view [OF ms(2)] by (metis journaled_def)
qed

text \<open>C1.  Whatever a store commits can be read back: in every run from an empty state root, each cursor
  that a commit answered reads the record it stands for, whatever was committed, refused, rotated or
  indexed since.\<close>

theorem committed_records_read_back:
  assumes "store_run nc s cs" and "(c, data) \<in> set cs"
  shows "\<exists>r. readCursor nc c s = Inr (Some r) \<and> sr_cursor r = c \<and> sr_data r = data"
  using store_run_ok [OF assms(1)] assms(2) readCursor_indexed unfolding run_ok_def by blast

lemma journal_holds_unique:
  assumes "journal_holds nc j ms" "journal_holds nc j ms'"
  shows "ms = ms'"
proof -
  obtain ls where ls: "file_bytes j = concat ls" "\<forall>l\<in>set ls. complete_line l" "chained nc ls ms" using assms(1) by (auto simp: journal_holds_def)
  obtain ks where ks: "file_bytes j = concat ks" "\<forall>l\<in>set ks. complete_line l" "chained nc ks ms'" using assms(2) by (auto simp: journal_holds_def)
  show ?thesis using jo_verify_chain [OF ls(2) _ ls(3), of "[]"] jo_verify_chain [OF ks(2) _ ks(3), of "[]"] ls(1) ks(1) by auto
qed

text \<open>C5.  The index that a store keeps while it runs is the one that recovery derives from its journal:
  in every run from an empty state root, the rebuild over the markers of the journal, with the lane
  ordinals of the store and line offsets that give each record the ordinal of its cursor, returns
  the live index, locator by locator and order by order, and reports nothing corrupt.\<close>

theorem live_index_rebuilds:
  assumes "store_run nc s cs" and "journal_holds nc (gs_journal s) ms" and "geometry reps (gs_laneIndex s)"
  shows "buildLaneIndex ms (gs_laneOrdinals s) reps = (gs_laneIndex s, [])"
proof -
  obtain ms' where ms': "journal_holds nc (gs_journal s) ms'" "rebuilds s (tx_records ms')"
    using store_run_journaled [OF assms(1)] by (auto simp: journaled_def)
  have "ms' = ms" by (rule journal_holds_unique [OF ms'(1) assms(2)])
  then show ?thesis using ms'(2) assms(3) by (simp add: rebuilds_def buildLaneIndex_def index_trace_def Let_def)
qed

section \<open>A first commit\<close>

definition first_opts :: store_opts where
  "first_opts = \<lparr>so_segmentBytes = 1000, so_maxSegmentAgeMs = 1000, so_maxRecordBytes = 0, so_maxObjectBytes = 100\<rparr>"

definition first_input :: commit_input where
  "first_input = \<lparr>ci_records = [\<lparr>cr_lane = ''legacy'', cr_partition = None, cr_data = ''{}''\<rparr>], ci_objects = [],
     ci_mutation = JObj [(''v'', JNum 1), (''kind'', JStr ''noop'')], ci_result = GENESIS_HASH\<rparr>"

definition first_locator :: locator where
  "first_locator = \<lparr>lo_lane = ''legacy'', lo_segment = segmentName 1, lo_offset = 0, lo_length = 3, lo_raw = sha256hex journal_crypto (''{}'' @ [LF])\<rparr>"

lemma first_segment: "isSegmentName (segmentName 1)"
  unfolding isSegmentName_iff by (intro exI [of _ "''0000000000000001''"]) (simp add: is_hex_def, code_simp)

lemma first_open:
  "\<exists>s w. store_open torn_env (\<lambda>_. torn_env) None first_opts fresh_disk = Inr s \<and> gs_writers s = [(LEGACY, w)] \<and>
     \<not> gs_closed s \<and> gs_readOnly s = None \<and> lw_fh w \<and> \<not> lw_closed w \<and> lw_recordsInSegment w = 0 \<and> lw_maxRecordBytes w = LEGACY_LANE_CAP \<and>
     lw_laneOrdinal w = 1 \<and> lw_recordOrdinal w = 1 \<and> lw_segment w = segmentName 1 \<and> lw_offset w = 0"
proof -
  obtain c d where c: "recoverStoreContext torn_env None fresh_disk = (Inr c, d)" and cf: "fresh_context torn_env c d" using recover_fresh by blast
  define p where "p = writer_options first_opts LEGACY 1"
  define w0 where "w0 = new_writer (write_json LANE_META_FILE (meta_json (lp_lane p) (lp_ordinal p) (le_clock torn_env 0)) []) p (lp_ordinal p)"
  have "map_of (lw_files w0) (segmentName 1) = None"
    using segmentName_not_meta(2) [of 1] by (auto simp: w0_def new_writer_def write_json_def)
  then obtain w1 where w1: "startSegment 1 (le_clock torn_env 1) w0 = (Inr (), w1)"
    and f: "lw_fh w1" "\<not> lw_closed w1" "lw_recordsInSegment w1 = 0" "lw_maxRecordBytes w1 = LEGACY_LANE_CAP" "lw_laneOrdinal w1 = 1"
      "lw_segment w1 = segmentName 1" "lw_offset w1 = 0"
    by (auto simp: startSegment_def Let_def w0_def new_writer_def p_def writer_options_def capFor_def first_opts_def LEGACY_def prefix_def)
  have o: "open_lane torn_env p (empty_report torn_env) = Inr (writeActive (w1\<lparr>lw_recordOrdinal := 1\<rparr>))"
    using w1 by (simp add: open_lane_def empty_report_def readLaneMeta_def read_obj_def w0_def Let_def next_record_ordinal_def)
  define i where "i = kv_or ''instance_id'' ''default'' (rc_registry c)"
  define s where "s = (new_store c d (if kvGet ''instance_id'' (rc_registry c) = None then kvSet ''instance_id'' i (rc_registry c) else rc_registry c) first_opts i)
      \<lparr>gs_nextLaneOrdinal := 2, gs_laneOrdinals := [(LEGACY, 1)], gs_writers := [(LEGACY, writeActive (w1\<lparr>lw_recordOrdinal := 1\<rparr>))]\<rparr>"
  have "store_open torn_env (\<lambda>_. torn_env) None first_opts fresh_disk = Inr s"
    unfolding open_fresh_state [OF c cf] p_def [symmetric] o by (simp add: s_def i_def Let_def)
  moreover have "gs_readOnly s = None" using cf by (simp add: s_def new_store_def fresh_context_def)
  ultimately show ?thesis using f by (intro exI [of _ s] exI [of _ "writeActive (w1\<lparr>lw_recordOrdinal := 1\<rparr>)"]) (simp add: s_def new_store_def writeActive_def)
qed

lemma first_parses:
  assumes "mk_records m = [first_locator]" "mk_objects m = []" "mk_mutation m = ci_mutation first_input" "mk_result m = GENESIS_HASH"
    "mk_tx m = ''1''" "mk_previous m = GENESIS_HASH"
  shows "parseMarker (marker_json m) \<noteq> None"
proof -
  have "isLaneKey ''legacy''" by (simp add: isLaneKey_iff is_alpha_def is_digit_def) code_simp
  moreover have "isHex64 (sha256hex journal_crypto s)" for s
    by (simp add: isHex64_iff sha256hex_def journal_crypto_def) code_simp
  moreover have "isDecimalString ''1''"
    unfolding isDecimalString_def rx_count by (simp_all add: is_count_def is_digit_def radix_val_def char_digit_def)
  ultimately show ?thesis using assms first_segment
    by (simp add: parseMarker_def marker_json_def first_locator_def first_input_def parse_locator_def locator_json_def
        str_at_def nat_at_def jget_def keysExactly_same MARKER_KEYS_def LOCATOR_KEYS_def is_safe_def MAX_SAFE_def)
qed

lemma first_printable: "printable (ci_mutation first_input)"
  by (simp add: first_input_def printable_def is_safe_def MAX_SAFE_def)

lemma first_commit:
  "\<exists>s c s'. store_open torn_env (\<lambda>_. torn_env) None first_opts fresh_disk = Inr s \<and>
     store_commit journal_crypto (\<lambda>_. torn_env) first_input s = (Inr c, s') \<and> co_cursors c = [lane_cursor 1 1] \<and> co_tx c = ''1'' \<and>
     gs_nextLaneOrdinal s' = 2 \<and> all_locators (gs_laneIndex s') = [\<lparr>il_rec = first_locator, il_cursor = lane_cursor 1 1, il_ordinal = 1, il_order = 1\<rparr>]"
proof -
  obtain s w where s: "store_open torn_env (\<lambda>_. torn_env) None first_opts fresh_disk = Inr s" "gs_writers s = [(LEGACY, w)]"
      "\<not> gs_closed s" "gs_readOnly s = None" and w: "lw_fh w" "\<not> lw_closed w" "lw_recordsInSegment w = 0" "lw_maxRecordBytes w = LEGACY_LANE_CAP"
      "lw_laneOrdinal w = 1" "lw_recordOrdinal w = 1" "lw_segment w = segmentName 1" "lw_offset w = 0"
    using first_open by blast
  note o = open_fresh [OF s(1)]
  have crypto: "le_crypto torn_env = journal_crypto" by (simp add: torn_env_def)
  have e: "lane_append_record torn_env ''{}'' w = append_line journal_crypto (''{}'' @ [LF]) w"
    using w crypto by (simp add: lane_append_record_def must_rotate_def LEGACY_LANE_CAP_def BOM_def LF_def Let_def)
  define la where "la = \<lparr>la_cursor = lane_cursor 1 1, la_segment = segmentName 1, la_offset = 0, la_length = 3,
    la_raw = sha256hex journal_crypto (''{}'' @ [LF])\<rparr>"
  obtain w2 where al: "lane_append_record torn_env ''{}'' w = (Inr la, w2)"
    unfolding e append_line_def Let_def w la_def by simp
  have la: "la_cursor la = lane_cursor 1 1" "la_segment la = segmentName 1" "la_offset la = 0" "la_length la = 3"
      "la_raw la = sha256hex journal_crypto (''{}'' @ [LF])" by (simp_all add: la_def)
  define s1 where "s1 = s\<lparr>gs_writers := [(LEGACY, w2)]\<rparr>"
  have key: "STORE_LANE_KEY ''legacy''" by (simp add: STORE_LANE_KEY_def LEGACY_def)
  have a: "append_records (\<lambda>_. torn_env) 0 (ci_records first_input) s = (Inr [(first_locator, lane_cursor 1 1)], s1)"
    using s(2) al la key by (simp add: first_input_def append_record_def lane_key_def writerFor_def LEGACY_def Let_def first_locator_def s1_def)
  have j: "gs_journal s1 = gs_journal s" by (simp add: s1_def)
  have h: "journal_holds journal_crypto (gs_journal s1) []" using o(4) by (simp add: j)
  define m where "m = \<lparr>mk_tx = ''1'', mk_previous = GENESIS_HASH, mk_records = [first_locator], mk_objects = [],
    mk_mutation = ci_mutation first_input, mk_result = GENESIS_HASH\<rparr>"
  have head: "jo_headKnown (gs_journal s1)" "jo_readOnly (gs_journal s1) = None" "jo_headTx (gs_journal s1) = None" "jo_headHash (gs_journal s1) = GENESIS_HASH"
    using h by (auto simp: journal_holds_def chained_def last_tx_def last_hash_def)
  have n: "nextMarker [first_locator] [] (ci_mutation first_input) GENESIS_HASH (gs_journal s1) = Inr m"
    using head by (simp add: nextMarker_def m_def next_tx_def)
  have parse: "parseMarker (marker_json m) \<noteq> None" by (rule first_parses) (simp_all add: m_def)
  obtain x j2 where app: "append_marker journal_crypto m (gs_journal s1) = (Inr x, j2)"
    using head parse by (auto simp: append_marker_def appendSync_def m_def next_tx_def Let_def)
  have kind: "mutation_kind [(''v'', JNum 1), (''kind'', JStr ''noop'')] = Some ''noop''"
    by (simp add: mutation_kind_def jget_def str_at_def)
  have reg: "\<exists>reg'. applyCommit nc rs m reg = (Inr (), reg')" for nc rs reg
    by (simp add: applyCommit_def inTx_def apply_marker_def applyMutation.simps m_def first_input_def kind apply_kind_def)
  define s2 where "s2 = indexRecord (first_locator, lane_cursor 1 1) (s1\<lparr>gs_journal := j2\<rparr>)"
  obtain reg' where reg': "applyCommit journal_crypto (resolve_in (gs_laneIndex s2)) m (gs_registry s2) = (Inr (), reg')" using reg by blast
  have sr: "gs_registry s2 = gs_registry s1" by (simp add: s2_def)
  have mt: "mk_tx m = ''1''" by (simp add: m_def)
  have jt: "journal_then_apply journal_crypto [(first_locator, lane_cursor 1 1)] [] (ci_mutation first_input) GENESIS_HASH s1 = (Inr ''1'', s2\<lparr>gs_registry := reg'\<rparr>)"
    using n app reg' [unfolded sr] mt by (simp del: One_nat_def add: journal_then_apply_def s2_def [symmetric] Let_def)
  have g: "commit_guard (ci_mutation first_input) (ci_result first_input) s = None"
    using s by (simp add: commit_guard_def first_input_def is_object_def)
  have r: "ci_objects first_input = []" "ci_result first_input = GENESIS_HASH" by (simp_all add: first_input_def)
  have "store_commit journal_crypto (\<lambda>_. torn_env) first_input s =
      (Inr \<lparr>co_tx = ''1'', co_cursors = [lane_cursor 1 1], co_records = [first_locator], co_objects = []\<rparr>, s2\<lparr>gs_registry := reg'\<rparr>)"
    using g a jt by (simp add: store_commit_def r)
  moreover have "gs_nextLaneOrdinal (s2\<lparr>gs_registry := reg'\<rparr>) = 2" using o(3) by (simp add: s2_def s1_def)
  moreover have "all_locators (gs_laneIndex (s2\<lparr>gs_registry := reg'\<rparr>)) = [\<lparr>il_rec = first_locator, il_cursor = lane_cursor 1 1, il_ordinal = 1, il_order = 1\<rparr>]"
  proof -
    have "parse_lane_cursor (lane_cursor 1 1) = Some (1, 1)" by (rule parse_formatted_cursor) simp
    moreover have "gs_laneIndex s1 = []" "gs_recordOrder s1 = 0" using o by (simp_all add: s1_def)
    ultimately show ?thesis
      by (simp del: One_nat_def add: s2_def indexRecord_def Let_def index_live_def push_locator_def lane_segment_def new_lane_def new_segment_def
          all_locators_def locators_of_def sort_segment_def)
  qed
  ultimately show ?thesis using s(1) by auto
qed

lemma first_run:
  "\<exists>s c s'. store_run journal_crypto s [] \<and> journal_holds journal_crypto (gs_journal s) [] \<and>
     store_commit journal_crypto (\<lambda>_. torn_env) first_input s = (Inr c, s') \<and> co_tx c = ''1'' \<and>
     store_run journal_crypto s' [(lane_cursor 1 1, ''{}'')] \<and>
     all_locators (gs_laneIndex s') = [\<lparr>il_rec = first_locator, il_cursor = lane_cursor 1 1, il_ordinal = 1, il_order = 1\<rparr>]"
proof -
  obtain s c s' where s: "store_open torn_env (\<lambda>_. torn_env) None first_opts fresh_disk = Inr s"
    and c: "store_commit journal_crypto (\<lambda>_. torn_env) first_input s = (Inr c, s')" "co_cursors c = [lane_cursor 1 1]" "co_tx c = ''1''"
      "gs_nextLaneOrdinal s' = 2"
      "all_locators (gs_laneIndex s') = [\<lparr>il_rec = first_locator, il_cursor = lane_cursor 1 1, il_ordinal = 1, il_order = 1\<rparr>]"
    using first_commit by blast
  have "hashes (\<lambda>_. torn_env) journal_crypto" by (simp add: hashes_def torn_env_def)
  from run_commit [OF run_open [OF s] this first_printable c(1)]
  have "store_run journal_crypto s' [(lane_cursor 1 1, ''{}'')]" using c(2,4) by (simp add: first_input_def)
  then show ?thesis using run_open [OF s] open_fresh(4) [OF s] c by blast
qed

lemma committed_records_read_back_witness:
  "\<exists>s r. store_run journal_crypto s [(lane_cursor 1 1, ''{}'')] \<and> readCursor journal_crypto (lane_cursor 1 1) s = Inr (Some r) \<and> sr_data r = ''{}''"
proof -
  obtain s where run: "store_run journal_crypto s [(lane_cursor 1 1, ''{}'')]" using first_run by blast
  show ?thesis using committed_records_read_back [OF run, of "lane_cursor 1 1" "''{}''"] run by auto
qed

lemma commit_leaves_one_marker_witness:
  "\<exists>s c s' m. store_commit journal_crypto (\<lambda>_. torn_env) first_input s = (Inr c, s') \<and> mk_tx m = ''1'' \<and>
     journal_holds journal_crypto (gs_journal s') [m]"
proof -
  obtain s c s' where j: "journal_holds journal_crypto (gs_journal s) []"
    and c: "store_commit journal_crypto (\<lambda>_. torn_env) first_input s = (Inr c, s')" "co_tx c = ''1''" using first_run by blast
  show ?thesis using commit_leaves_one_marker [OF j first_printable c(1)] c by (intro exI [of _ s]) auto
qed

definition first_report :: lane_report where
  "first_report = (empty_report torn_env)\<lparr>rv_segments := [\<lparr>si_segment = segmentName 1, si_ordinal = 1, si_sealed = False, si_length = 3, si_records = 1,
     si_consumed = 1, si_written_base = 0, si_line_offsets = [0], si_first = None, si_last = None, si_raw = None\<rparr>]\<rparr>"

lemma live_index_rebuilds_witness:
  "\<exists>(s :: gateway_store) ms. journal_holds journal_crypto (gs_journal s) ms \<and> length (all_locators (gs_laneIndex s)) = 1 \<and>
     buildLaneIndex ms (gs_laneOrdinals s) [(''legacy'', first_report)] = (gs_laneIndex s, [])"
proof -
  obtain s where run: "store_run journal_crypto s [(lane_cursor 1 1, ''{}'')]"
    and ix: "all_locators (gs_laneIndex s) = [\<lparr>il_rec = first_locator, il_cursor = lane_cursor 1 1, il_ordinal = 1, il_order = 1\<rparr>]"
    using first_run by blast
  obtain ms where ms: "journal_holds journal_crypto (gs_journal s) ms" using store_run_journaled [OF run] by (auto simp: journaled_def)
  have "lineIndexOf [0] 0 = 0" by code_simp
  then have "geometry [(''legacy'', first_report)] (gs_laneIndex s)"
    by (simp add: geometry_def ix derive_ordinal_def first_locator_def first_report_def)
  moreover have "length (all_locators (gs_laneIndex s)) = 1" by (simp add: ix)
  ultimately show ?thesis using live_index_rebuilds [OF run ms] ms by blast
qed

end
