(* ===== verification/Store_Outbox_Rows.thy ===== *)
theory Store_Outbox_Rows
  imports Store_Registry_Facts
begin

text \<open>
  Model of \<open>gateway-daemon/src/store/outbox.ts\<close>: the outbox rows of the registry and their
  transition graph.  An item is the JSON object that its row stores; a row whose text is no object
  raises \<open>Thrown\<close>.
\<close>

section \<open>Items\<close>

definition OUTBOX_ROW_STATES :: "string list" where
  "OUTBOX_ROW_STATES = [''PENDING'', ''IN_FLIGHT'', ''RETRY'', ''BLOCKED'', ''ACKED'']"

definition TRANSITIONS :: "string \<Rightarrow> string list option" where
  "TRANSITIONS st =
     (if st = ''PENDING'' then Some [''IN_FLIGHT'', ''BLOCKED'']
      else if st = ''IN_FLIGHT'' then Some [''ACKED'', ''RETRY'', ''BLOCKED'']
      else if st = ''RETRY'' then Some [''IN_FLIGHT'', ''BLOCKED'']
      else if st = ''BLOCKED'' then Some [''PENDING'']
      else if st = ''ACKED'' then Some []
      else None)"

text \<open>The backoff for a random number of the unit interval.\<close>

definition backoff_cap :: "int \<Rightarrow> int" where
  "backoff_cap attempt = min 300000 (1000 * 2 ^ nat attempt)"

definition backoffMs :: "int \<Rightarrow> rat \<Rightarrow> int" where
  "backoffMs attempt rand = \<lfloor>rand * of_int (backoff_cap attempt)\<rfloor>"

definition rowToItem :: "row \<Rightarrow> jobj option" where
  "rowToItem r =
     (case col r ''item_json'' of
        SText t \<Rightarrow> (case JSON_parse t of Some (JObj u) \<Rightarrow> Some u | _ \<Rightarrow> None)
      | _ \<Rightarrow> None)"

text \<open>The columns that \<open>outboxUpsert\<close> binds.\<close>

definition item_row :: "jobj \<Rightarrow> sqlval \<Rightarrow> string \<Rightarrow> jobj \<Rightarrow> string \<Rightarrow> row option" where
  "item_row item batch st doc tx = row_of
     [(''id'', f_text item ''id''), (''destination'', f_text item ''destination''), (''cohort'', f_text item ''cohort''),
      (''stream'', f_text item ''stream''), (''batch_hash'', Some batch), (''state'', Some (SText st)),
      (''item_json'', Some (SText (JSON_stringify (JObj doc)))), (''tx'', Some (SText tx))]"

definition indexed_tx :: "registry \<Rightarrow> string" where
  "indexed_tx s = (case lastIndexedTx s of None \<Rightarrow> ''0'' | Some t \<Rightarrow> t)"

definition put_outbox_item :: "jobj \<Rightarrow> sqlval \<Rightarrow> string \<Rightarrow> jobj \<Rightarrow> unit registry_op" where
  "put_outbox_item item batch st doc s =
     (case item_row item batch st doc (indexed_tx s) of None \<Rightarrow> (Inl Thrown, s) | Some r \<Rightarrow> (Inr (), outboxUpsert r s))"

section \<open>Operations\<close>

definition outbox_enqueue :: "jobj \<Rightarrow> (bool \<times> jobj) registry_op" where
  "outbox_enqueue item s =
     (if jget item ''v'' \<noteq> Some (JNum 1) \<or> jget item ''state'' \<noteq> Some (JStr ''PENDING'') then (Inl INVALID_TRANSITION, s)
      else (case jget item ''id'' of
              Some (JStr i) \<Rightarrow>
                (case outboxGet i s of
                   Some r \<Rightarrow> (case rowToItem r of None \<Rightarrow> (Inl Thrown, s) | Some it \<Rightarrow> (Inr (False, it), s))
                 | None \<Rightarrow> (case put_outbox_item item SNull ''PENDING'' item s of (Inl e, s1) \<Rightarrow> (Inl e, s1) | (Inr _, s1) \<Rightarrow> (Inr (True, item), s1)))
            | _ \<Rightarrow> (Inl Thrown, s)))"

definition outbox_get :: "string \<Rightarrow> registry \<Rightarrow> store_code + jobj option" where
  "outbox_get i s =
     (case outboxGet i s of
        None \<Rightarrow> Inr None
      | Some r \<Rightarrow> (case rowToItem r of None \<Rightarrow> Inl Thrown | Some it \<Rightarrow> Inr (Some it)))"

text \<open>A patch: an absent field keeps its value; a present batch hash or remote stage may be null.\<close>

record outbox_patch =
  op_batch_hash :: "sqlval option"
  op_next_attempt_ms :: "int option"
  op_attempts :: "int option"
  op_remote_stage :: "json option"
  op_through :: "string option"

definition no_patch :: outbox_patch where
  "no_patch = \<lparr>op_batch_hash = None, op_next_attempt_ms = None, op_attempts = None, op_remote_stage = None, op_through = None\<rparr>"

text \<open>A key written with the value it has stays, with an absent value it is no part of the JSON text.\<close>

definition patch_field :: "string \<Rightarrow> json option \<Rightarrow> jobj \<Rightarrow> jobj" where
  "patch_field k v u = (case v of None \<Rightarrow> u | Some x \<Rightarrow> aput k x u)"

definition patched :: "jobj \<Rightarrow> string \<Rightarrow> outbox_patch \<Rightarrow> jobj" where
  "patched item to_st p =
     patch_field ''through'' (map_option JStr (op_through p))
      (patch_field ''remote_stage'' (op_remote_stage p)
        (patch_field ''next_attempt_ms'' (map_option JNum (op_next_attempt_ms p))
          (patch_field ''attempts'' (map_option JNum (op_attempts p))
            (aput ''state'' (JStr to_st) item))))"

definition item_transition :: "string \<Rightarrow> string \<Rightarrow> outbox_patch \<Rightarrow> jobj registry_op" where
  "item_transition i to_st p s =
     (case outboxGet i s of
        None \<Rightarrow> (Inl STORE_NOT_FOUND, s)
      | Some r \<Rightarrow>
          (case rowToItem r of
             None \<Rightarrow> (Inl Thrown, s)
           | Some item \<Rightarrow>
               if jget item ''state'' = Some (JStr to_st) \<and> to_st \<noteq> ''IN_FLIGHT'' then (Inr item, s)
               else (case (case jget item ''state'' of Some (JStr st) \<Rightarrow> TRANSITIONS st | _ \<Rightarrow> None) of
                       None \<Rightarrow> (Inl Thrown, s)
                     | Some allowed \<Rightarrow>
                         if to_st \<notin> set allowed then (Inl INVALID_TRANSITION, s)
                         else (let batch = (case op_batch_hash p of None \<Rightarrow> col r ''batch_hash'' | Some b \<Rightarrow> b) in
                               case put_outbox_item item batch to_st (patched item to_st p) s of
                                 (Inl e, s1) \<Rightarrow> (Inl e, s1)
                               | (Inr _, s1) \<Rightarrow> (Inr (patched item to_st p), s1)))))"

definition markAcked :: "string \<Rightarrow> outbox_patch \<Rightarrow> jobj registry_op" where
  "markAcked i p = item_transition i ''ACKED'' p"

definition outboxWhere :: "(row \<Rightarrow> bool) \<Rightarrow> registry \<Rightarrow> row list" where
  "outboxWhere p = select_rows ''outbox'' p"

definition items_of :: "row list \<Rightarrow> store_code + jobj list" where
  "items_of rs = (if list_all (\<lambda>r. rowToItem r \<noteq> None) rs then Inr (map (the \<circ> rowToItem) rs) else Inl Thrown)"

definition opt_col :: "string \<Rightarrow> string option \<Rightarrow> row \<Rightarrow> bool" where
  "opt_col c v r \<longleftrightarrow> (case v of None \<Rightarrow> True | Some t \<Rightarrow> col r c = SText t)"

text \<open>An item whose next attempt is no number is not due; null compares as zero.\<close>

definition listPending :: "string option \<Rightarrow> string option \<Rightarrow> string option \<Rightarrow> int option \<Rightarrow> registry \<Rightarrow> store_code + jobj list" where
  "listPending dest cohort stream due s =
     (case items_of (outboxWhere (\<lambda>r. col r ''state'' \<in> {SText ''PENDING'', SText ''RETRY''} \<and> opt_col ''destination'' dest r \<and>
              opt_col ''cohort'' cohort r \<and> opt_col ''stream'' stream r) s) of
        Inl e \<Rightarrow> Inl e
      | Inr is \<Rightarrow>
          Inr (filter (\<lambda>i. case due of None \<Rightarrow> True | Some d \<Rightarrow> (case jget i ''next_attempt_ms'' of Some (JNum n) \<Rightarrow> n \<le> d | Some JNull \<Rightarrow> 0 \<le> d | _ \<Rightarrow> False)) is))"

definition listByState :: "string \<Rightarrow> registry \<Rightarrow> store_code + jobj list" where
  "listByState st s = items_of (outboxWhere (\<lambda>r. col r ''state'' = SText st) s)"

definition outbox_count :: "string option \<Rightarrow> registry \<Rightarrow> nat" where
  "outbox_count st s = length (outboxWhere (\<lambda>r. case st of None \<Rightarrow> True | Some t \<Rightarrow> col r ''state'' = SText t) s)"

section \<open>Facts\<close>

lemma backoff_bounds:
  assumes "0 \<le> rand" "rand < 1"
  shows "0 \<le> backoffMs attempt rand" "backoffMs attempt rand < backoff_cap attempt" "backoff_cap attempt \<le> 300000"
proof -
  have cap: "0 < backoff_cap attempt" by (simp add: backoff_cap_def)
  show "0 \<le> backoffMs attempt rand" using assms cap by (simp add: backoffMs_def)
  have "rand * of_int (backoff_cap attempt) < of_int (backoff_cap attempt)" using assms(2) cap by simp
  then show "backoffMs attempt rand < backoff_cap attempt" unfolding backoffMs_def by linarith
  show "backoff_cap attempt \<le> 300000" by (simp add: backoff_cap_def)
qed

text \<open>An acknowledged item never changes again.\<close>

lemma acked_row_is_final:
  assumes "outboxGet i s = Some r" "rowToItem r = Some item" "jget item ''state'' = Some (JStr ''ACKED'')"
  shows "snd (item_transition i to_st p s) = s"
  using assms by (auto simp: item_transition_def TRANSITIONS_def)

text \<open>A second send of an item in flight is refused, although the comment lets a re-send through.\<close>

lemma resend_is_refused:
  assumes "outboxGet i s = Some r" "rowToItem r = Some item" "jget item ''state'' = Some (JStr ''IN_FLIGHT'')"
  shows "item_transition i ''IN_FLIGHT'' p s = (Inl INVALID_TRANSITION, s)"
  using assms by (simp add: item_transition_def TRANSITIONS_def)

text \<open>Enqueueing an item writes the table without a marker: a rebuild from the same journal loses the item.\<close>

lemma enqueue_is_not_journaled:
  assumes "outbox_enqueue item s = (Inr (True, item), s')"
  shows "outbox_count None (snd (rebuildFromJournal nc rs [] s')) = 0"
  by (simp add: rebuildFromJournal_def inTx_def outbox_count_def outboxWhere_def select_rows_def rows_def)

end
