(* ===== verification/Package_Archive.thy ===== *)
theory Package_Archive
  imports Strict_Json_Facts Record_Table Protocol
begin

text \<open>
  Model of \<open>packages/core/src/v2/lifecycle/extract.ts\<close>: the scan of a release archive that runs before the
  first byte of a package is written.  Bytes are numbers below 256, names are UTF-16 code units.  Every refusal of
  the source is \<open>POLICY_DENIED\<close>.  \<open>String.prototype.toLowerCase\<close>, a table of the Unicode standard, is the
  argument \<open>lower\<close>; no property depends on the table.  Of the second pass the entries and the bytes written for
  them are modelled, not the calls of the file system (\<open>mkdir\<close>, \<open>lstat\<close>, \<open>chmod\<close>) that place them.
\<close>

unbundle bit_operations_syntax

definition BLOCK :: nat where "BLOCK = 512"
definition ARCHIVE_COMPRESSED_BYTES :: nat where "ARCHIVE_COMPRESSED_BYTES = 256 * 1024 * 1024"
definition ARCHIVE_EXPANDED_BYTES :: nat where "ARCHIVE_EXPANDED_BYTES = 1024 * 1024 * 1024"
definition ARCHIVE_MAX_FILES :: nat where "ARCHIVE_MAX_FILES = 10000"

section \<open>Fields of a header\<close>

text \<open>The field of \<open>n\<close> bytes at \<open>off\<close>.\<close>

definition field :: "nat \<Rightarrow> nat \<Rightarrow> nat list \<Rightarrow> nat list" where
  "field off n buf = take n (drop off buf)"

fun octal_digits :: "nat \<Rightarrow> nat list \<Rightarrow> error_code + nat" where
  "octal_digits v [] = Inr v"
| "octal_digits v (c # cs) =
     (if c = 0 \<or> c = 0x20 then Inr v
      else if c < 0x30 \<or> 0x37 < c then Inl POLICY_DENIED
      else if MAX_SAFE < int (v * 8 + (c - 0x30)) then Inl POLICY_DENIED
      else octal_digits (v * 8 + (c - 0x30)) cs)"

definition parseOctalField :: "nat list \<Rightarrow> error_code + nat" where
  "parseOctalField f = octal_digits 0 (dropWhile (\<lambda>c. c = 0 \<or> c = 0x20) f)"

text \<open>The bytes before the first NUL; an invalid sequence decodes to the replacement character, which is refused.\<close>

definition readName :: "nat list \<Rightarrow> error_code + text16" where
  "readName f =
     (case utf8_decode (takeWhile (\<lambda>c. c \<noteq> 0) f) of
        None \<Rightarrow> Inl POLICY_DENIED
      | Some ps \<Rightarrow> if 0xFFFD \<in> set ps then Inl POLICY_DENIED else Inr (concat (map utf16_of ps)))"

definition isZeroBlock :: "nat list \<Rightarrow> bool" where
  "isZeroBlock buf = list_all (\<lambda>b. b = 0) (take BLOCK buf)"

text \<open>The checksum field itself counts as eight spaces.\<close>

definition checksumOk :: "nat list \<Rightarrow> error_code + unit" where
  "checksumOk buf =
     andThen (parseOctalField (field 148 8 buf))
       (\<lambda>stored. check (sum_list (take 148 buf) + 8 * 0x20 + sum_list (drop 156 (take BLOCK buf)) = stored) POLICY_DENIED)"

section \<open>Names\<close>

abbreviation SLASH :: nat where "SLASH \<equiv> 0x2F"
abbreviation DOT :: "text16" where "DOT \<equiv> [0x2E]"
abbreviation DOTDOT :: "text16" where "DOTDOT \<equiv> [0x2E, 0x2E]"

definition is_letter16 :: "nat \<Rightarrow> bool" where
  "is_letter16 c \<longleftrightarrow> 0x41 \<le> c \<and> c \<le> 0x5A \<or> 0x61 \<le> c \<and> c \<le> 0x7A"

text \<open>The UTF-8 length of well-formed UTF-16 text: half of a surrogate pair takes two of its four bytes.\<close>

definition byteLength :: "text16 \<Rightarrow> nat" where
  "byteLength s = sum_list (map (\<lambda>c. if c < 0x80 then 1 else if c < 0x800 \<or> 0xD800 \<le> c \<and> c \<le> 0xDFFF then 2 else 3) s)"

definition validSegment :: "text16 \<Rightarrow> error_code + unit" where
  "validSegment seg = check (seg \<noteq> [] \<and> seg \<noteq> DOT \<and> seg \<noteq> DOTDOT \<and> byteLength seg \<le> 255) POLICY_DENIED"

definition validatePath :: "text16 \<Rightarrow> error_code + unit" where
  "validatePath name =
     andThen (check (name \<noteq> [] \<and> length name \<le> 1024) POLICY_DENIED)
       (\<lambda>_. andThen (check (take 1 name \<noteq> [SLASH]) POLICY_DENIED)
       (\<lambda>_. andThen (check (\<not> (2 \<le> length name \<and> is_letter16 (name ! 0) \<and> name ! 1 = 0x3A)) POLICY_DENIED)
       (\<lambda>_. andThen (check (list_all (\<lambda>c. c \<noteq> 0x5C \<and> \<not> c \<le> 0x1F \<and> c \<noteq> 0x7F) name) POLICY_DENIED)
       (\<lambda>_. first_error validSegment (split_on SLASH name)))))"

text \<open>The path and its ancestors, as the loops over the segments build them up.\<close>

fun path_prefixes :: "text16 \<Rightarrow> text16 list \<Rightarrow> text16 list" where
  "path_prefixes acc [] = []"
| "path_prefixes acc (s # ss) = (let a = if acc = [] then s else acc @ [SLASH] @ s in a # path_prefixes a ss)"

definition ancestors :: "text16 \<Rightarrow> text16 list" where
  "ancestors path = path_prefixes [] (butlast (split_on SLASH path))"

definition path_and_ancestors :: "text16 \<Rightarrow> text16 list" where
  "path_and_ancestors path = path_prefixes [] (split_on SLASH path)"

section \<open>The scan\<close>

datatype entry_kind = FileEntry | DirEntry

record parsed_entry =
  pe_path :: text16
  pe_kind :: entry_kind
  pe_mode :: nat
  pe_size :: nat
  pe_dataOffset :: nat

record scan_state =
  sc_entries :: "parsed_entry list"
  sc_seen :: "(text16 \<times> text16) list"
  sc_claimed :: "text16 list"
  sc_expanded :: nat

record tar_header =
  th_name :: text16
  th_mode :: nat
  th_size :: nat
  th_typeflag :: nat
  th_linkname :: text16
  th_prefix :: text16

definition MAGICS :: "text16 list" where
  "MAGICS = [units ''ustar'', units ''ustar  '', [], units ''ustar '']"

definition readHeader :: "nat list \<Rightarrow> error_code + tar_header" where
  "readHeader buf =
     andThen (checksumOk buf) (\<lambda>_.
     andThen (readName (field 0 100 buf)) (\<lambda>nm.
     andThen (parseOctalField (field 100 8 buf)) (\<lambda>md.
     andThen (parseOctalField (field 124 12 buf)) (\<lambda>sz.
     andThen (readName (field 157 100 buf)) (\<lambda>ln.
     andThen (readName (field 345 155 buf)) (\<lambda>pf.
     andThen (readName (field 257 8 buf)) (\<lambda>magic.
     andThen (check (magic \<in> set MAGICS) POLICY_DENIED) (\<lambda>_.
       Inr \<lparr>th_name = nm, th_mode = md, th_size = sz, th_typeflag = buf ! 156, th_linkname = ln, th_prefix = pf\<rparr>))))))))"

definition header_path :: "tar_header \<Rightarrow> text16" where
  "header_path h =
     (let full = if th_prefix h \<noteq> [] then th_prefix h @ [SLASH] @ th_name h else th_name h in
      if th_typeflag h = 0x35 \<and> full \<noteq> [] \<and> last full = SLASH then butlast full else full)"

definition header_kind :: "tar_header \<Rightarrow> entry_kind" where
  "header_kind h = (if th_typeflag h = 0x35 then DirEntry else FileEntry)"

definition modeAllowed :: "nat \<Rightarrow> bool" where
  "modeAllowed md \<longleftrightarrow> int md AND 0xC00 = 0 \<and> int md AND 0x12 = 0 \<and> int md AND (NOT 0x1FF) = 0"

text \<open>No two different spellings of a path, or of an ancestor of a path, that a case-folding file system merges.\<close>

fun claimSpellings :: "(text16 \<Rightarrow> text16) \<Rightarrow> text16 list \<Rightarrow> (text16 \<times> text16) list \<Rightarrow> error_code + (text16 \<times> text16) list" where
  "claimSpellings lower [] seen = Inr seen"
| "claimSpellings lower (p # ps) seen =
     (case map_of seen (lower p) of
        Some prior \<Rightarrow> if prior \<noteq> p then Inl POLICY_DENIED else claimSpellings lower ps (aput (lower p) p seen)
      | None \<Rightarrow> claimSpellings lower ps (aput (lower p) p seen))"

definition ancestorIsFile :: "parsed_entry list \<Rightarrow> text16 list \<Rightarrow> text16 \<Rightarrow> bool" where
  "ancestorIsFile es claimed p \<longleftrightarrow>
     p \<in> set claimed \<and> (case find (\<lambda>e. pe_path e = p) es of None \<Rightarrow> False | Some e \<Rightarrow> pe_kind e \<noteq> DirEntry)"

definition scanEntry :: "(text16 \<Rightarrow> text16) \<Rightarrow> nat \<Rightarrow> nat list \<Rightarrow> scan_state \<Rightarrow> error_code + (tar_header \<times> scan_state)" where
  "scanEntry lower off buf st =
     andThen (readHeader buf) (\<lambda>h.
     let path = header_path h in
     andThen (validatePath path) (\<lambda>_.
     andThen (check (th_linkname h = []) POLICY_DENIED) (\<lambda>_.
     andThen (check (th_typeflag h \<in> {0x30, 0x00, 0x35}) POLICY_DENIED) (\<lambda>_.
     andThen (check (modeAllowed (th_mode h)) POLICY_DENIED) (\<lambda>_.
     andThen (claimSpellings lower (path_and_ancestors path) (sc_seen st)) (\<lambda>seen.
     andThen (check (path \<notin> set (sc_claimed st)) POLICY_DENIED) (\<lambda>_.
     andThen (check (\<not> list_ex (ancestorIsFile (sc_entries st) (path # sc_claimed st)) (ancestors path)) POLICY_DENIED) (\<lambda>_.
     let expanded = sc_expanded st + (if header_kind h = FileEntry then th_size h else 0) in
     andThen (check (expanded \<le> ARCHIVE_EXPANDED_BYTES) POLICY_DENIED) (\<lambda>_.
     let es = sc_entries st @ [\<lparr>pe_path = path, pe_kind = header_kind h, pe_mode = th_mode h, pe_size = th_size h,
                                pe_dataOffset = off + BLOCK\<rparr>] in
     andThen (check (length es \<le> ARCHIVE_MAX_FILES) POLICY_DENIED) (\<lambda>_.
       Inr (h, \<lparr>sc_entries = es, sc_seen = seen, sc_claimed = path # sc_claimed st, sc_expanded = expanded\<rparr>)))))))))))"

text \<open>The end marker: two zero blocks, and then only zero blocks.\<close>

function zeroBlocks :: "nat list \<Rightarrow> bool" where
  "zeroBlocks buf = (if length buf < BLOCK then True else isZeroBlock buf \<and> zeroBlocks (drop BLOCK buf))"
  by pat_completeness auto
termination by (relation "measure length") (auto simp: BLOCK_def)

declare zeroBlocks.simps [simp del]

definition endMarkerOk :: "nat list \<Rightarrow> bool" where
  "endMarkerOk buf \<longleftrightarrow> 2 * BLOCK \<le> length buf \<and> isZeroBlock (drop BLOCK buf) \<and> zeroBlocks (drop (2 * BLOCK) buf)"

text \<open>\<open>buf\<close> is the archive from \<open>off\<close> on.\<close>

function scan_headers :: "(text16 \<Rightarrow> text16) \<Rightarrow> nat \<Rightarrow> nat list \<Rightarrow> scan_state \<Rightarrow> error_code + parsed_entry list" where
  "scan_headers lower off buf st =
     (if length buf < BLOCK then Inl POLICY_DENIED
      else if isZeroBlock buf then (if endMarkerOk buf then Inr (sc_entries st) else Inl POLICY_DENIED)
      else (case scanEntry lower off buf st of
              Inl e \<Rightarrow> Inl e
            | Inr (h, st1) \<Rightarrow>
                (let n = BLOCK + ((th_size h + (BLOCK - 1)) div BLOCK) * BLOCK in scan_headers lower (off + n) (drop n buf) st1)))"
  by pat_completeness auto
termination by (relation "measure (\<lambda>(lower, off, buf, st). length buf)") (auto simp: BLOCK_def)

declare scan_headers.simps [simp del]

definition scanArchive :: "(text16 \<Rightarrow> text16) \<Rightarrow> nat list \<Rightarrow> error_code + parsed_entry list" where
  "scanArchive lower archive =
     andThen (check (length archive \<le> ARCHIVE_COMPRESSED_BYTES) POLICY_DENIED) (\<lambda>_.
     andThen (check (length archive mod BLOCK = 0) POLICY_DENIED) (\<lambda>_.
       scan_headers lower 0 archive \<lparr>sc_entries = [], sc_seen = [], sc_claimed = [], sc_expanded = 0\<rparr>))"

section \<open>The entries of a package\<close>

record extracted_entry =
  xe_path :: text16
  xe_kind :: entry_kind
  xe_bytes :: nat
  xe_mode :: nat
  xe_digest :: string

text \<open>The entry that the extraction reports, with the bytes it writes for a file.\<close>

definition extractEntry :: "(nat list \<Rightarrow> string) \<Rightarrow> nat list \<Rightarrow> parsed_entry \<Rightarrow> error_code + (extracted_entry \<times> nat list)" where
  "extractEntry sha archive e =
     (case pe_kind e of
        DirEntry \<Rightarrow> Inr (\<lparr>xe_path = pe_path e, xe_kind = DirEntry, xe_bytes = 0, xe_mode = 0x1ED, xe_digest = []\<rparr>, [])
      | FileEntry \<Rightarrow>
          (let data = take (pe_size e) (drop (pe_dataOffset e) archive) in
           if length data \<noteq> pe_size e then Inl POLICY_DENIED
           else Inr (\<lparr>xe_path = pe_path e, xe_kind = FileEntry, xe_bytes = pe_size e, xe_mode = nat (int (pe_mode e) AND 0x1FF),
                      xe_digest = sha data\<rparr>, data)))"

fun extractEntries :: "(nat list \<Rightarrow> string) \<Rightarrow> nat list \<Rightarrow> parsed_entry list \<Rightarrow> error_code + (extracted_entry \<times> nat list) list" where
  "extractEntries sha archive [] = Inr []"
| "extractEntries sha archive (e # es) =
     andThen (extractEntry sha archive e) (\<lambda>x. andThen (extractEntries sha archive es) (\<lambda>xs. Inr (x # xs)))"

definition extractArchive :: "(text16 \<Rightarrow> text16) \<Rightarrow> (nat list \<Rightarrow> string) \<Rightarrow> nat list \<Rightarrow> error_code + (extracted_entry \<times> nat list) list" where
  "extractArchive lower sha archive = andThen (scanArchive lower archive) (extractEntries sha archive)"

end
