(* ===== verification/Package_Archive_Facts.thy ===== *)
theory Package_Archive_Facts
  imports Package_Archive
begin

text \<open>
  What an accepted release archive is: its paths stay beneath the directory they are joined to, its modes grant
  nothing special, no two names fall together on a case-folding file system, no entry lies beneath an earlier
  file, and the data of its entries are disjoint ranges of the archive, within the limits.
\<close>

section \<open>Paths\<close>

text \<open>\<open>path.resolve\<close> of a directory and the segments of a relative path.\<close>

fun resolve_segments :: "text16 list \<Rightarrow> text16 list \<Rightarrow> text16 list" where
  "resolve_segments dir [] = dir"
| "resolve_segments dir (s # ss) =
     (if s = [] \<or> s = DOT then resolve_segments dir ss
      else if s = DOTDOT then resolve_segments (butlast dir) ss
      else resolve_segments (dir @ [s]) ss)"

definition stays_beneath :: "text16 \<Rightarrow> bool" where
  "stays_beneath p \<longleftrightarrow> (\<forall>dir. resolve_segments dir (split_on SLASH p) = dir @ split_on SLASH p)"

definition plain_name :: "text16 \<Rightarrow> bool" where
  "plain_name p \<longleftrightarrow> p \<noteq> [] \<and> length p \<le> 1024 \<and> hd p \<noteq> SLASH \<and> (\<forall>c\<in>set p. c \<noteq> 0x5C \<and> 0x20 \<le> c \<and> c \<noteq> 0x7F)
     \<and> \<not> (2 \<le> length p \<and> is_letter16 (p ! 0) \<and> p ! 1 = 0x3A)"

lemma resolve_plain:
  "\<forall>s\<in>set ss. s \<noteq> [] \<and> s \<noteq> DOT \<and> s \<noteq> DOTDOT \<Longrightarrow> resolve_segments dir ss = dir @ ss"
  by (induction ss arbitrary: dir) auto

lemma validatePath_safe: assumes "validatePath p = Inr ()" shows "stays_beneath p" "plain_name p"
proof -
  have seg: "\<forall>s\<in>set (split_on SLASH p). s \<noteq> [] \<and> s \<noteq> DOT \<and> s \<noteq> DOTDOT"
    using assms unfolding validatePath_def validSegment_def by simp
  then show "stays_beneath p" unfolding stays_beneath_def by (blast intro: resolve_plain)
  have "p \<noteq> []" "length p \<le> 1024" "take 1 p \<noteq> [SLASH]" "\<not> (2 \<le> length p \<and> is_letter16 (p ! 0) \<and> p ! 1 = 0x3A)"
    "list_all (\<lambda>c. c \<noteq> 0x5C \<and> \<not> c \<le> 0x1F \<and> c \<noteq> 0x7F) p"
    using assms unfolding validatePath_def by simp_all
  then show "plain_name p" unfolding plain_name_def list_all_iff by (cases p) fastforce+
qed

text \<open>No set-id or sticky bit, nothing writable by group or others, no bit outside the permissions.\<close>

definition safe_mode :: "nat \<Rightarrow> bool" where
  "safe_mode md \<longleftrightarrow> md < 512 \<and> \<not> bit md 1 \<and> \<not> bit md 4"

lemma modeAllowed_safe: assumes "modeAllowed md" shows "safe_mode md"
proof -
  have perm: "(0x1FF :: int) = mask 9" by (simp add: mask_eq_exp_minus_1)
  have low: "\<not> bit (int md AND 0x12) i" and high: "\<not> bit (int md AND NOT 0x1FF) i" for i
    using assms by (simp_all add: modeAllowed_def)
  have "\<not> bit md 1" "\<not> bit md 4" using low [of 1] low [of 4] by (simp_all add: bit_simps bit_numeral_rec)
  moreover have "\<not> bit md i" if "9 \<le> i" for i
    using high [of i] that by (simp add: perm bit_simps)
  then have "take_bit 9 md = md" by (intro bit_eqI) (metis bit_take_bit_iff not_le)
  then have "md < 2 ^ 9" by (simp only: take_bit_nat_eq_self_iff)
  ultimately show ?thesis by (simp add: safe_mode_def)
qed

section \<open>The invariant of the scan\<close>

definition expanded_bytes :: "parsed_entry list \<Rightarrow> nat" where
  "expanded_bytes es = sum_list (map (\<lambda>e. if pe_kind e = FileEntry then pe_size e else 0) es)"

text \<open>\<open>p\<close> is an ancestor of \<open>q\<close>.\<close>

definition spellings_agree :: "(text16 \<Rightarrow> text16) \<Rightarrow> parsed_entry list \<Rightarrow> bool" where
  "spellings_agree lower es \<longleftrightarrow>
     (\<forall>d\<in>set es. \<forall>e\<in>set es. \<forall>p\<in>set (path_and_ancestors (pe_path d)). \<forall>q\<in>set (path_and_ancestors (pe_path e)).
        lower p = lower q \<longrightarrow> p = q)"

definition beneath_file :: "parsed_entry \<Rightarrow> parsed_entry \<Rightarrow> bool" where
  "beneath_file d e \<longleftrightarrow> pe_kind d = FileEntry \<and> pe_path d \<in> set (ancestors (pe_path e))"

definition entries_safe :: "parsed_entry list \<Rightarrow> bool" where
  "entries_safe es \<longleftrightarrow>
     (\<forall>e\<in>set es. stays_beneath (pe_path e) \<and> plain_name (pe_path e) \<and> safe_mode (pe_mode e))
     \<and> distinct (map pe_path es)
     \<and> sorted_wrt (\<lambda>d e. \<not> beneath_file d e) es
     \<and> length es \<le> ARCHIVE_MAX_FILES \<and> expanded_bytes es \<le> ARCHIVE_EXPANDED_BYTES"

definition ranges_disjoint :: "nat \<Rightarrow> parsed_entry list \<Rightarrow> bool" where
  "ranges_disjoint end_off es \<longleftrightarrow>
     sorted_wrt (\<lambda>d e. pe_dataOffset d + pe_size d + BLOCK \<le> pe_dataOffset e) es
     \<and> (\<forall>e\<in>set es. BLOCK \<le> pe_dataOffset e \<and> pe_dataOffset e + pe_size e \<le> end_off)"

definition scan_inv :: "(text16 \<Rightarrow> text16) \<Rightarrow> nat \<Rightarrow> scan_state \<Rightarrow> bool" where
  "scan_inv lower off st \<longleftrightarrow>
     entries_safe (sc_entries st) \<and> ranges_disjoint off (sc_entries st)
     \<and> sc_claimed st = rev (map pe_path (sc_entries st)) \<and> sc_expanded st = expanded_bytes (sc_entries st)
     \<and> (\<forall>e\<in>set (sc_entries st). \<forall>p\<in>set (path_and_ancestors (pe_path e)). map_of (sc_seen st) (lower p) = Some p)"

lemma claimSpellings_grows:
  "claimSpellings lower ps seen = Inr seen' \<Longrightarrow> map_of seen k = Some p \<Longrightarrow> lower p = k \<Longrightarrow> map_of seen' k = Some p"
proof (induction ps arbitrary: seen)
  case (Cons q ps)
  from Cons.prems(1) have "claimSpellings lower ps (aput (lower q) q seen) = Inr seen'"
    by (auto split: option.splits if_splits)
  moreover have "map_of (aput (lower q) q seen) k = Some p"
    using Cons.prems by (auto split: if_splits)
  ultimately show ?case using Cons.IH Cons.prems(3) by blast
qed simp

lemma claimSpellings_claims:
  "claimSpellings lower ps seen = Inr seen' \<Longrightarrow> p \<in> set ps \<Longrightarrow> map_of seen' (lower p) = Some p"
proof (induction ps arbitrary: seen)
  case (Cons q ps)
  from Cons.prems(1) have rest: "claimSpellings lower ps (aput (lower q) q seen) = Inr seen'"
    by (auto split: option.splits if_splits)
  show ?case
  proof (cases "p = q")
    case True
    then show ?thesis using claimSpellings_grows [OF rest, of "lower q" q] by simp
  next
    case False
    then show ?thesis using Cons.IH [OF rest] Cons.prems(2) by simp
  qed
qed simp

lemma ancestor_kind:
  assumes "distinct (map pe_path es)" "d \<in> set es" "pe_kind d = FileEntry"
  shows "ancestorIsFile es (q # rev (map pe_path es)) (pe_path d)"
proof -
  have "find (\<lambda>e. pe_path e = pe_path d) es = Some d"
    using assms(1,2) by (induction es) (auto simp: image_iff)
  then show ?thesis using assms(2,3) by (auto simp: ancestorIsFile_def)
qed

text \<open>One header.\<close>

lemma scanEntry_inv:
  assumes s: "scanEntry lower off buf st = Inr (h, st1)" and I: "scan_inv lower off st"
  shows "scan_inv lower (off + BLOCK + th_size h) st1"
proof -
  obtain path e seen where
    path: "path = header_path h" and
    e: "e = \<lparr>pe_path = path, pe_kind = header_kind h, pe_mode = th_mode h, pe_size = th_size h, pe_dataOffset = off + BLOCK\<rparr>" and
    valid: "validatePath path = Inr ()" and mode: "modeAllowed (th_mode h)" and
    seen: "claimSpellings lower (path_and_ancestors path) (sc_seen st) = Inr seen" and
    new: "path \<notin> set (sc_claimed st)" and
    anc: "\<not> list_ex (ancestorIsFile (sc_entries st) (path # sc_claimed st)) (ancestors path)" and
    bytes: "sc_expanded st + (if header_kind h = FileEntry then th_size h else 0) \<le> ARCHIVE_EXPANDED_BYTES" and
    number: "length (sc_entries st @ [e]) \<le> ARCHIVE_MAX_FILES" and
    st1: "st1 = \<lparr>sc_entries = sc_entries st @ [e], sc_seen = seen, sc_claimed = path # sc_claimed st,
                 sc_expanded = sc_expanded st + (if header_kind h = FileEntry then th_size h else 0)\<rparr>"
    using s unfolding scanEntry_def Let_def by simp blast
  let ?es = "sc_entries st"
  have old: "entries_safe ?es" "ranges_disjoint off ?es" "sc_claimed st = rev (map pe_path ?es)"
    "sc_expanded st = expanded_bytes ?es"
    and old_seen: "\<forall>e\<in>set ?es. \<forall>p\<in>set (path_and_ancestors (pe_path e)). map_of (sc_seen st) (lower p) = Some p"
    using I by (simp_all add: scan_inv_def)
  have "\<not> beneath_file d e" if "d \<in> set ?es" for d
    using ancestor_kind [of ?es d path] old anc that by (auto simp: beneath_file_def entries_safe_def e list_ex_iff)
  then have "entries_safe (?es @ [e])"
    using old validatePath_safe [OF valid] modeAllowed_safe [OF mode] new bytes number
    by (auto simp: entries_safe_def sorted_wrt_append e expanded_bytes_def)
  moreover have "ranges_disjoint (off + BLOCK + th_size h) (?es @ [e])"
    using old(2) by (fastforce simp: ranges_disjoint_def sorted_wrt_append e)
  moreover have "map_of seen (lower p) = Some p"
    if "d \<in> set (?es @ [e])" "p \<in> set (path_and_ancestors (pe_path d))" for d p
    using that old_seen claimSpellings_claims [OF seen] claimSpellings_grows [OF seen] by (auto simp: e)
  ultimately show ?thesis using old by (simp add: scan_inv_def st1 e expanded_bytes_def)
qed

lemma scan_inv_later: "scan_inv lower off st \<Longrightarrow> off \<le> off' \<Longrightarrow> scan_inv lower off' st"
  by (fastforce simp: scan_inv_def ranges_disjoint_def)

lemma ceil_blocks: "(n::nat) \<le> ((n + (BLOCK - 1)) div BLOCK) * BLOCK"
  unfolding BLOCK_def by simp

lemma scan_headers_safe:
  "scan_headers lower off buf st = Inr es \<Longrightarrow> scan_inv lower off st \<Longrightarrow>
   \<exists>st' off'. es = sc_entries st' \<and> scan_inv lower off' st' \<and> off' + 2 * BLOCK \<le> off + length buf"
proof (induction lower off buf st rule: scan_headers.induct)
  case (1 lower off buf st)
  show ?case
  proof (cases "isZeroBlock buf")
    case True
    then have "es = sc_entries st" "2 * BLOCK \<le> length buf"
      using "1.prems"(1) by (auto simp: scan_headers.simps [of _ _ buf] endMarkerOk_def split: if_splits)
    then show ?thesis using "1.prems"(2) by (auto intro!: exI [of _ st] exI [of _ off])
  next
    case False
    then obtain h st1 where h: "scanEntry lower off buf st = Inr (h, st1)" and long: "\<not> length buf < BLOCK"
      using "1.prems"(1) by (auto simp: scan_headers.simps [of _ _ buf] split: if_splits sum.splits)
    define n where "n = BLOCK + ((th_size h + (BLOCK - 1)) div BLOCK) * BLOCK"
    have rest: "scan_headers lower (off + n) (drop n buf) st1 = Inr es"
      using "1.prems"(1) False h long by (simp add: scan_headers.simps [of _ _ buf] n_def Let_def)
    then have short: "n < length buf" by (cases "n < length buf") (simp_all add: scan_headers.simps [of _ _ "[]"] BLOCK_def)
    have "scan_inv lower (off + n) st1"
      using scanEntry_inv [OF h "1.prems"(2)] ceil_blocks [of "th_size h"] by (auto simp: n_def intro: scan_inv_later)
    with "1.IH" [OF long False h refl n_def] rest obtain st' off' where
      r: "es = sc_entries st'" "scan_inv lower off' st'" "off' + 2 * BLOCK \<le> off + n + length (drop n buf)" by blast
    with short show ?thesis by auto
  qed
qed

section \<open>What the scan admits\<close>

lemma scan_accepts:
  assumes "scanArchive lower archive = Inr es"
  shows "\<exists>st off. es = sc_entries st \<and> scan_inv lower off st \<and> off + 2 * BLOCK \<le> length archive"
proof -
  have "scan_inv lower 0 \<lparr>sc_entries = [], sc_seen = [], sc_claimed = [], sc_expanded = 0\<rparr>"
    by (simp add: scan_inv_def entries_safe_def ranges_disjoint_def expanded_bytes_def)
  moreover have "scan_headers lower 0 archive \<lparr>sc_entries = [], sc_seen = [], sc_claimed = [], sc_expanded = 0\<rparr> = Inr es"
    using assms by (simp add: scanArchive_def)
  ultimately show ?thesis using scan_headers_safe by fastforce
qed

text \<open>
  C23. An accepted release archive is safe to unpack: joining a path of it to a directory and resolving the result
  appends the segments of the path and nothing else, so it stays beneath the directory; names hold no backslash,
  control character or drive letter; modes carry no set-id, sticky or foreign write bit; paths are distinct, also
  after case folding, with all their ancestors; no entry lies beneath an earlier file; there are at most 10000
  entries of at most 1 GiB in all; and the data of the entries are disjoint ranges that lie inside the archive,
  before its end marker, so none is truncated.
\<close>

theorem archive_scan_safe:
  assumes "scanArchive lower archive = Inr es"
  shows "(\<forall>e\<in>set es. stays_beneath (pe_path e) \<and> plain_name (pe_path e) \<and> safe_mode (pe_mode e))
    \<and> distinct (map pe_path es) \<and> spellings_agree lower es \<and> sorted_wrt (\<lambda>d e. \<not> beneath_file d e) es
    \<and> length es \<le> 10000 \<and> expanded_bytes es \<le> 1024 ^ 3 \<and> ranges_disjoint (length archive - 1024) es"
proof -
  obtain st off where st: "es = sc_entries st" "scan_inv lower off st" "off + 2 * BLOCK \<le> length archive"
    using scan_accepts [OF assms] by blast
  then have "off \<le> length archive - 1024" by (simp add: BLOCK_def)
  with st(2) have inv: "scan_inv lower (length archive - 1024) st" by (rule scan_inv_later)
  then have "spellings_agree lower es"
    unfolding spellings_agree_def using st(1) by (metis option.inject scan_inv_def)
  with inv show ?thesis
    by (simp add: entries_safe_def scan_inv_def st(1) ARCHIVE_MAX_FILES_def ARCHIVE_EXPANDED_BYTES_def)
qed

text \<open>The second pass refuses nothing that the first admitted: the check for truncated data never fails.\<close>

lemma extractEntries_whole:
  "\<forall>e\<in>set es. pe_dataOffset e + pe_size e \<le> length archive \<Longrightarrow>
   \<exists>xs. extractEntries sha archive es = Inr xs \<and> map (xe_path \<circ> fst) xs = map pe_path es"
  by (induction es) (auto simp: extractEntry_def Let_def split: entry_kind.split)

lemma accepted_archive_extracts:
  assumes "scanArchive lower archive = Inr es"
  shows "\<exists>xs. extractArchive lower sha archive = Inr xs \<and> map (xe_path \<circ> fst) xs = map pe_path es"
proof -
  obtain st off where "es = sc_entries st" "scan_inv lower off st" "off + 2 * BLOCK \<le> length archive"
    using scan_accepts [OF assms] by blast
  then have "\<forall>e\<in>set es. pe_dataOffset e + pe_size e \<le> length archive"
    by (fastforce simp: scan_inv_def ranges_disjoint_def)
  then show ?thesis using extractEntries_whole [of es archive sha] assms by (simp add: extractArchive_def andThen_def)
qed

section \<open>Concrete archives\<close>

text \<open>A header without prefix: name, mode, size and checksum in octal digits, type flag.\<close>

definition zero_padded :: "nat \<Rightarrow> nat list \<Rightarrow> nat list" where
  "zero_padded n xs = xs @ replicate (n - length xs) 0"

definition sample_header :: "nat list \<Rightarrow> nat list \<Rightarrow> nat list \<Rightarrow> nat list \<Rightarrow> nat \<Rightarrow> nat list" where
  "sample_header nm md sz cks flag =
     zero_padded 100 nm @ zero_padded 8 md @ replicate 16 0 @ zero_padded 12 sz @ replicate 12 0 @ zero_padded 8 cks
     @ [flag] @ replicate 355 0"

lemma zero_padded_length: "length xs \<le> n \<Longrightarrow> length (zero_padded n xs) = n"
  by (simp add: zero_padded_def)

lemma sample_header_length:
  "length nm \<le> 100 \<Longrightarrow> length md \<le> 8 \<Longrightarrow> length sz \<le> 12 \<Longrightarrow> length cks \<le> 8 \<Longrightarrow>
   length (sample_header nm md sz cks flag) = 512"
  by (simp add: sample_header_def zero_padded_length)

lemma octal_digits_zeros [simp]: "octal_digits v (replicate n 0) = Inr v"
  by (cases n) simp_all

lemma header_fields:
  assumes "length nm = 100" "length md = 8" "length g = 16" "length sz = 12" "length k = 12" "length cks = 8" "length z = 355"
    and h: "h = nm @ md @ g @ sz @ k @ cks @ [flag] @ z"
  shows "field 0 100 (h @ r) = nm" "field 100 8 (h @ r) = md" "field 124 12 (h @ r) = sz" "field 148 8 (h @ r) = cks"
    "field 157 100 (h @ r) = take 100 z" "field 345 155 (h @ r) = take 155 (drop 188 z)" "field 257 8 (h @ r) = take 8 (drop 100 z)"
    "(h @ r) ! 156 = flag" "take 148 (h @ r) = nm @ md @ g @ sz @ k" "drop 156 (take BLOCK (h @ r)) = flag # z"
  unfolding h using assms(1-7) by (simp_all add: field_def nth_append BLOCK_def)

lemma sample_fields:
  assumes "length nm \<le> 100" "length md \<le> 8" "length sz \<le> 12" "length cks \<le> 8"
  shows "field 0 100 (sample_header nm md sz cks flag @ r) = zero_padded 100 nm"
    "field 100 8 (sample_header nm md sz cks flag @ r) = zero_padded 8 md"
    "field 124 12 (sample_header nm md sz cks flag @ r) = zero_padded 12 sz"
    "field 148 8 (sample_header nm md sz cks flag @ r) = zero_padded 8 cks"
    "field 157 100 (sample_header nm md sz cks flag @ r) = replicate 100 0"
    "field 345 155 (sample_header nm md sz cks flag @ r) = replicate 155 0"
    "field 257 8 (sample_header nm md sz cks flag @ r) = replicate 8 0"
    "(sample_header nm md sz cks flag @ r) ! 156 = flag"
    "sum_list (take 148 (sample_header nm md sz cks flag @ r)) = sum_list nm + sum_list md + sum_list sz"
    "sum_list (drop 156 (take BLOCK (sample_header nm md sz cks flag @ r))) = flag"
  using assms
  by (simp_all only: header_fields [OF zero_padded_length zero_padded_length length_replicate zero_padded_length
        length_replicate zero_padded_length length_replicate sample_header_def])
    (simp_all add: zero_padded_def sum_list_replicate)

text \<open>A directory \<open>d\<close> and a file \<open>d/f\<close> of three bytes.\<close>

definition sample_archive :: "nat list" where
  "sample_archive =
     sample_header [0x64, 0x2F] [0x37, 0x35, 0x35] [] [0x31, 0x31, 0x35, 0x31] 0x35
     @ sample_header [0x64, 0x2F, 0x66] [0x36, 0x34, 0x34] [0x33] [0x31, 0x33, 0x37, 0x32] 0x30
     @ [1, 2, 3] @ replicate 509 0 @ replicate 1024 0"

lemma sample_first_header:
  "readHeader (sample_header [0x64, 0x2F] [0x37, 0x35, 0x35] [] [0x31, 0x31, 0x35, 0x31] 0x35 @ r) =
     Inr \<lparr>th_name = [0x64, 0x2F], th_mode = 493, th_size = 0, th_typeflag = 0x35, th_linkname = [], th_prefix = []\<rparr>"
  by (simp add: readHeader_def checksumOk_def sample_fields zero_padded_def parseOctalField_def readName_def MAGICS_def MAX_SAFE_def andThen_def check_def utf16_of_def
      del: take_append drop_append)

lemma sample_second_header:
  "readHeader (sample_header [0x64, 0x2F, 0x66] [0x36, 0x34, 0x34] [0x33] [0x31, 0x33, 0x37, 0x32] 0x30 @ r) =
     Inr \<lparr>th_name = [0x64, 0x2F, 0x66], th_mode = 420, th_size = 3, th_typeflag = 0x30, th_linkname = [], th_prefix = []\<rparr>"
  by (simp add: readHeader_def checksumOk_def sample_fields zero_padded_def parseOctalField_def readName_def MAGICS_def MAX_SAFE_def
      andThen_def check_def utf16_of_def del: take_append drop_append)

lemmas scan_steps = scanEntry_def header_path_def header_kind_def validatePath_def validSegment_def byteLength_def
  first_error.simps path_and_ancestors_def ancestors_def ancestorIsFile_def ARCHIVE_EXPANDED_BYTES_def ARCHIVE_MAX_FILES_def
  BLOCK_def andThen_def check_def Let_def

lemma modes_allowed: "modeAllowed 493" "modeAllowed 420"
  by (simp_all add: modeAllowed_def)

lemma scan_end: "scan_headers lower off (replicate 1024 0) st = Inr (sc_entries st)"
  by (simp add: scan_headers.simps [of _ _ "replicate 1024 0"] isZeroBlock_def endMarkerOk_def zeroBlocks.simps BLOCK_def list_all_iff)

definition sample_entries :: "parsed_entry list" where
  "sample_entries =
     [\<lparr>pe_path = [0x64], pe_kind = DirEntry, pe_mode = 493, pe_size = 0, pe_dataOffset = 512\<rparr>,
      \<lparr>pe_path = [0x64, 0x2F, 0x66], pe_kind = FileEntry, pe_mode = 420, pe_size = 3, pe_dataOffset = 1024\<rparr>]"

lemma scan_step:
  assumes "length h = 512" "x \<in> set h" "x \<noteq> 0" "scanEntry lower off (h @ d @ r) st = Inr (th, st1)"
    "length d = ((th_size th + 511) div 512) * 512"
  shows "scan_headers lower off (h @ d @ r) st = scan_headers lower (off + 512 + length d) r st1"
proof -
  have "\<not> isZeroBlock (h @ d @ r)" using assms(1-3) by (auto simp: isZeroBlock_def BLOCK_def list_all_iff)
  moreover have "drop (512 + length d) (h @ d @ r) = r" using assms(1) by simp
  ultimately show ?thesis
    using assms(1,4,5) by (simp add: scan_headers.simps [of _ _ "h @ d @ r"] BLOCK_def add.assoc Let_def del: drop_append)
qed

lemma sample_scanned: "scanArchive (\<lambda>s. s) sample_archive = Inr sample_entries"
proof -
  let ?d = "[1, 2, 3] @ replicate 509 (0::nat)" and ?z = "replicate 1024 (0::nat)" and ?st = "\<lparr>sc_entries = [], sc_seen = [], sc_claimed = [], sc_expanded = 0\<rparr>"
  let ?h = "sample_header [0x64, 0x2F] [0x37, 0x35, 0x35] [] [0x31, 0x31, 0x35, 0x31] 0x35"
  let ?k = "sample_header [0x64, 0x2F, 0x66] [0x36, 0x34, 0x34] [0x33] [0x31, 0x33, 0x37, 0x32] 0x30"
  let ?st1 = "\<lparr>sc_entries = [sample_entries ! 0], sc_seen = [([0x64], [0x64])], sc_claimed = [[0x64]], sc_expanded = 0\<rparr>"
  let ?st2 = "\<lparr>sc_entries = sample_entries, sc_seen = [([0x64], [0x64]), ([0x64, 0x2F, 0x66], [0x64, 0x2F, 0x66])],
                sc_claimed = [[0x64, 0x2F, 0x66], [0x64]], sc_expanded = 3\<rparr>"
  have e1: "scanEntry (\<lambda>s. s) 0 (?h @ [] @ ?k @ ?d @ ?z) ?st =
        Inr (\<lparr>th_name = [0x64, 0x2F], th_mode = 493, th_size = 0, th_typeflag = 0x35, th_linkname = [], th_prefix = []\<rparr>, ?st1)"
    by (simp add: scan_steps sample_first_header modes_allowed sample_entries_def is_letter16_def)
  have e2: "scanEntry (\<lambda>s. s) 512 (?k @ ?d @ ?z) ?st1 =
        Inr (\<lparr>th_name = [0x64, 0x2F, 0x66], th_mode = 420, th_size = 3, th_typeflag = 0x30, th_linkname = [], th_prefix = []\<rparr>, ?st2)"
    by (simp add: scan_steps sample_second_header modes_allowed sample_entries_def is_letter16_def)
  have "scan_headers (\<lambda>s. s) 0 (?h @ [] @ ?k @ ?d @ ?z) ?st = scan_headers (\<lambda>s. s) (0 + 512 + length ([] :: nat list)) (?k @ ?d @ ?z) ?st1"
    by (rule scan_step [where x = "0x64", OF _ _ _ e1]) (simp_all add: sample_header_length, simp add: sample_header_def zero_padded_def)
  also have "\<dots> = scan_headers (\<lambda>s. s) 512 (?k @ ?d @ ?z) ?st1" by simp
  also have "\<dots> = scan_headers (\<lambda>s. s) (512 + 512 + length ?d) ?z ?st2"
    by (rule scan_step [where x = "0x64", OF _ _ _ e2]) (simp_all add: sample_header_length, simp add: sample_header_def zero_padded_def)
  finally have "scan_headers (\<lambda>s. s) 0 sample_archive ?st = Inr sample_entries"
    by (simp add: sample_archive_def scan_end)
  moreover have "length sample_archive = 2560" by (simp add: sample_archive_def sample_header_length)
  ultimately show ?thesis by (simp add: scanArchive_def ARCHIVE_COMPRESSED_BYTES_def BLOCK_def andThen_def check_def)
qed

theorem archive_scan_safe_witness:
  "scanArchive (\<lambda>s. s) sample_archive = Inr sample_entries
     \<and> stays_beneath [0x64, 0x2F, 0x66] \<and> \<not> beneath_file (sample_entries ! 0) (sample_entries ! 1)
     \<and> ranges_disjoint (length sample_archive - 1024) sample_entries"
  using archive_scan_safe [OF sample_scanned] sample_scanned by (simp add: sample_entries_def)

text \<open>The check of the ancestors looks backwards only: a file \<open>a/b\<close> and then a file \<open>a\<close> are accepted, though no
  directory holds both.\<close>

definition clashing_archive :: "nat list" where
  "clashing_archive =
     sample_header [0x61, 0x2F, 0x62] [0x36, 0x34, 0x34] [] [0x31, 0x33, 0x30, 0x30] 0x30
     @ sample_header [0x61] [0x36, 0x34, 0x34] [] [0x31, 0x30, 0x35, 0x37] 0x30 @ replicate 1024 0"

definition clashing_entries :: "parsed_entry list" where
  "clashing_entries =
     [\<lparr>pe_path = [0x61, 0x2F, 0x62], pe_kind = FileEntry, pe_mode = 420, pe_size = 0, pe_dataOffset = 512\<rparr>,
      \<lparr>pe_path = [0x61], pe_kind = FileEntry, pe_mode = 420, pe_size = 0, pe_dataOffset = 1024\<rparr>]"

lemma clashing_headers:
  "readHeader (sample_header [0x61, 0x2F, 0x62] [0x36, 0x34, 0x34] [] [0x31, 0x33, 0x30, 0x30] 0x30 @ r) =
     Inr \<lparr>th_name = [0x61, 0x2F, 0x62], th_mode = 420, th_size = 0, th_typeflag = 0x30, th_linkname = [], th_prefix = []\<rparr>"
  "readHeader (sample_header [0x61] [0x36, 0x34, 0x34] [] [0x31, 0x30, 0x35, 0x37] 0x30 @ r) =
     Inr \<lparr>th_name = [0x61], th_mode = 420, th_size = 0, th_typeflag = 0x30, th_linkname = [], th_prefix = []\<rparr>"
  by (simp_all add: readHeader_def checksumOk_def sample_fields zero_padded_def parseOctalField_def readName_def MAGICS_def
      MAX_SAFE_def andThen_def check_def utf16_of_def del: take_append drop_append)

lemma file_over_directory_accepted:
  "scanArchive (\<lambda>s. s) clashing_archive = Inr clashing_entries \<and> beneath_file (clashing_entries ! 1) (clashing_entries ! 0)"
proof -
  let ?z = "replicate 1024 (0::nat)" and ?st = "\<lparr>sc_entries = [], sc_seen = [], sc_claimed = [], sc_expanded = 0\<rparr>"
  let ?h = "sample_header [0x61, 0x2F, 0x62] [0x36, 0x34, 0x34] [] [0x31, 0x33, 0x30, 0x30] 0x30"
  let ?k = "sample_header [0x61] [0x36, 0x34, 0x34] [] [0x31, 0x30, 0x35, 0x37] 0x30"
  let ?st1 = "\<lparr>sc_entries = [clashing_entries ! 0], sc_seen = [([0x61], [0x61]), ([0x61, 0x2F, 0x62], [0x61, 0x2F, 0x62])],
                sc_claimed = [[0x61, 0x2F, 0x62]], sc_expanded = 0\<rparr>"
  let ?st2 = "\<lparr>sc_entries = clashing_entries, sc_seen = [([0x61], [0x61]), ([0x61, 0x2F, 0x62], [0x61, 0x2F, 0x62])],
                sc_claimed = [[0x61], [0x61, 0x2F, 0x62]], sc_expanded = 0\<rparr>"
  have e1: "scanEntry (\<lambda>s. s) 0 (?h @ [] @ ?k @ [] @ ?z) ?st =
        Inr (\<lparr>th_name = [0x61, 0x2F, 0x62], th_mode = 420, th_size = 0, th_typeflag = 0x30, th_linkname = [], th_prefix = []\<rparr>, ?st1)"
    by (simp add: scan_steps clashing_headers modes_allowed clashing_entries_def is_letter16_def)
  have e2: "scanEntry (\<lambda>s. s) 512 (?k @ [] @ ?z) ?st1 =
        Inr (\<lparr>th_name = [0x61], th_mode = 420, th_size = 0, th_typeflag = 0x30, th_linkname = [], th_prefix = []\<rparr>, ?st2)"
    by (simp add: scan_steps clashing_headers modes_allowed clashing_entries_def is_letter16_def)
  have "scan_headers (\<lambda>s. s) 0 (?h @ [] @ ?k @ [] @ ?z) ?st = scan_headers (\<lambda>s. s) (0 + 512 + length ([] :: nat list)) (?k @ [] @ ?z) ?st1"
    by (rule scan_step [where x = "0x61", OF _ _ _ e1]) (simp_all add: sample_header_length, simp add: sample_header_def zero_padded_def)
  also have "\<dots> = scan_headers (\<lambda>s. s) 512 (?k @ [] @ ?z) ?st1" by simp
  also have "\<dots> = scan_headers (\<lambda>s. s) (512 + 512 + length ([] :: nat list)) ?z ?st2"
    by (rule scan_step [where x = "0x61", OF _ _ _ e2]) (simp_all add: sample_header_length, simp add: sample_header_def zero_padded_def)
  finally have "scan_headers (\<lambda>s. s) 0 clashing_archive ?st = Inr clashing_entries"
    by (simp add: clashing_archive_def scan_end)
  moreover have "length clashing_archive = 2048" by (simp add: clashing_archive_def sample_header_length)
  ultimately show ?thesis
    by (simp add: scanArchive_def ARCHIVE_COMPRESSED_BYTES_def BLOCK_def andThen_def check_def beneath_file_def clashing_entries_def
        ancestors_def)
qed

end
