(* ===== verification/Lifecycle_States.thy ===== *)
theory Lifecycle_States
  imports Protocol Record_Table
begin

text \<open>
  Model of \<open>packages/core/src/v2/protocol/lifecycle.ts\<close> and \<open>lifecycle/health.ts\<close>: the states of a product
  generation with the complete transition relation, the constants of the restart budget, the health
  gate before activation, and the live probes behind it.
\<close>

section \<open>States and transitions\<close>

datatype product_state = PsAbsent | PsPlanned | PsFetching | PsVerified | PsStaged | PsStarting | PsHealthchecking
  | PsReady | PsDegraded | PsDraining | PsStoppedRetained | PsUninstalling | PsRemoved | PsRejected | PsCancelled
  | PsCrashed | PsQuarantined

datatype transition_event = ProductPlanCreated | ProductFetchStarted | ProductVerified | ProductRejected | ProductStaged
  | ProductStartRequested | ProductStarted | ProductActivated | ProductCandidateAbortRequested | ProductDegraded
  | ProductRecoveryStarted | ProductCrashed | ProductRestartRequested | ProductQuarantined | ProductDrainRequested
  | ProductStopped | ProductContainmentConfirmed | ProductUninstallStarted | ProductUninstalled
  | ProductOperationCancelled | ProductRollbackPlanned | ProductRecoveryPlanned

definition PRODUCT_TRANSITIONS :: "((product_state \<times> product_state) \<times> transition_event) list" where
  "PRODUCT_TRANSITIONS = [
     ((PsAbsent, PsPlanned), ProductPlanCreated),
     ((PsPlanned, PsFetching), ProductFetchStarted),
     ((PsFetching, PsVerified), ProductVerified),
     ((PsPlanned, PsRejected), ProductRejected),
     ((PsFetching, PsRejected), ProductRejected),
     ((PsVerified, PsStaged), ProductStaged),
     ((PsVerified, PsRejected), ProductRejected),
     ((PsStaged, PsRejected), ProductRejected),
     ((PsStaged, PsStarting), ProductStartRequested),
     ((PsStarting, PsHealthchecking), ProductStarted),
     ((PsHealthchecking, PsReady), ProductActivated),
     ((PsStarting, PsDraining), ProductCandidateAbortRequested),
     ((PsHealthchecking, PsDraining), ProductCandidateAbortRequested),
     ((PsReady, PsDegraded), ProductDegraded),
     ((PsDegraded, PsHealthchecking), ProductRecoveryStarted),
     ((PsReady, PsCrashed), ProductCrashed),
     ((PsDegraded, PsCrashed), ProductCrashed),
     ((PsHealthchecking, PsCrashed), ProductCrashed),
     ((PsStarting, PsCrashed), ProductCrashed),
     ((PsCrashed, PsStarting), ProductRestartRequested),
     ((PsCrashed, PsQuarantined), ProductQuarantined),
     ((PsReady, PsDraining), ProductDrainRequested),
     ((PsDegraded, PsDraining), ProductDrainRequested),
     ((PsDraining, PsStoppedRetained), ProductStopped),
     ((PsDraining, PsQuarantined), ProductQuarantined),
     ((PsCrashed, PsStoppedRetained), ProductContainmentConfirmed),
     ((PsQuarantined, PsStoppedRetained), ProductContainmentConfirmed),
     ((PsStoppedRetained, PsUninstalling), ProductUninstallStarted),
     ((PsUninstalling, PsRemoved), ProductUninstalled),
     ((PsUninstalling, PsQuarantined), ProductQuarantined),
     ((PsPlanned, PsCancelled), ProductOperationCancelled),
     ((PsFetching, PsCancelled), ProductOperationCancelled),
     ((PsVerified, PsCancelled), ProductOperationCancelled),
     ((PsStaged, PsCancelled), ProductOperationCancelled),
     ((PsStoppedRetained, PsPlanned), ProductRollbackPlanned),
     ((PsRemoved, PsPlanned), ProductRollbackPlanned),
     ((PsQuarantined, PsPlanned), ProductRecoveryPlanned)]"

text \<open>\<open>None\<close> is \<open>STATE_TRANSITION\<close>.\<close>

definition transitionFor :: "product_state \<Rightarrow> product_state \<Rightarrow> transition_event option" where
  "transitionFor from_st to_st = map_of PRODUCT_TRANSITIONS (from_st, to_st)"

definition product_succs :: "product_state \<Rightarrow> product_state list" where
  "product_succs st = map (snd \<circ> fst) (filter (\<lambda>((a, _), _). a = st) PRODUCT_TRANSITIONS)"

interpretation product_graph: lifecycle product_succs "\<lambda>st. st = PsRejected \<or> st = PsCancelled"
proof unfold_locales
  show "(st = PsRejected \<or> st = PsCancelled) = (product_succs st = [])" for st
    by (cases st) (simp_all add: product_succs_def PRODUCT_TRANSITIONS_def)
qed

lemma transitionFor_succs: "transitionFor a b \<noteq> None \<longleftrightarrow> b \<in> set (product_succs a)"
  by (cases a; cases b) (simp_all add: transitionFor_def product_succs_def PRODUCT_TRANSITIONS_def)

definition RESTART_MAX_STARTS :: nat where "RESTART_MAX_STARTS = 5"
definition RESTART_WINDOW_MS :: int where "RESTART_WINDOW_MS = 60000"
definition RESTART_DELAYS_MS :: "int list" where "RESTART_DELAYS_MS = [1000, 2000, 4000, 8000, 16000]"

section \<open>The health gate\<close>

record probe_outcome =
  pb_liveness :: bool
  pb_readiness :: bool

record gate_options =
  go_successes :: "nat option"
  go_intervalMs :: "int option"
  go_startupTimeoutMs :: "int option"
  go_failureLimit :: "nat option"

record readiness_result =
  rd_checks :: nat
  rd_elapsedMs :: int

definition gate_need :: "gate_options \<Rightarrow> nat" where
  "gate_need g = (case go_successes g of None \<Rightarrow> 3 | Some n \<Rightarrow> n)"

definition gate_interval :: "gate_options \<Rightarrow> int" where
  "gate_interval g = (case go_intervalMs g of None \<Rightarrow> 1000 | Some n \<Rightarrow> n)"

definition gate_timeout :: "gate_options \<Rightarrow> int" where
  "gate_timeout g = min (case go_startupTimeoutMs g of None \<Rightarrow> 30000 | Some n \<Rightarrow> n) 120000"

definition gate_limit :: "gate_options \<Rightarrow> nat" where
  "gate_limit g = (case go_failureLimit g of None \<Rightarrow> 3 | Some n \<Rightarrow> n)"

text \<open>The \<open>i\<close>-th check answers \<open>probe i\<close>, a probe that throws counts as not ready; \<open>now i\<close> is the clock
  after it and \<open>now 0\<close> the start.  \<open>None\<close> stands for a gate that never decides.\<close>

definition ready_at :: "(nat \<Rightarrow> probe_outcome option) \<Rightarrow> nat \<Rightarrow> bool" where
  "ready_at probe i = (case probe i of None \<Rightarrow> False | Some o1 \<Rightarrow> pb_readiness o1)"

partial_function (option) readiness_loop ::
  "gate_options \<Rightarrow> (nat \<Rightarrow> probe_outcome option) \<Rightarrow> (nat \<Rightarrow> int) \<Rightarrow> nat \<Rightarrow> nat \<Rightarrow> nat \<Rightarrow> (error_code + readiness_result) option" where
  "readiness_loop g probe now checks ok fails =
     (let c = checks + 1 in
      if ready_at probe c then
        (if gate_need g \<le> ok + 1 then Some (Inr \<lparr>rd_checks = c, rd_elapsedMs = now c - now 0\<rparr>)
         else if gate_timeout g \<le> now c - now 0 then Some (Inl HEALTH_FAILED)
         else readiness_loop g probe now c (ok + 1) 0)
      else if gate_limit g \<le> fails + 1 then Some (Inl HEALTH_FAILED)
      else if gate_timeout g \<le> now c - now 0 then Some (Inl HEALTH_FAILED)
      else readiness_loop g probe now c 0 (fails + 1))"

definition awaitReadiness ::
  "gate_options \<Rightarrow> (nat \<Rightarrow> probe_outcome option) \<Rightarrow> (nat \<Rightarrow> int) \<Rightarrow> (error_code + readiness_result) option" where
  "awaitReadiness g probe now = readiness_loop g probe now 0 0 0"

text \<open>The live probes: the number of failures in a row, and whether the loop has degraded the instance.\<close>

definition probe_failed :: "probe_outcome option \<Rightarrow> bool" where
  "probe_failed p \<longleftrightarrow> (case p of None \<Rightarrow> True | Some o1 \<Rightarrow> \<not> (pb_liveness o1 \<and> pb_readiness o1))"

fun live_probes :: "nat \<Rightarrow> nat \<Rightarrow> probe_outcome option list \<Rightarrow> nat \<times> bool" where
  "live_probes limit fails [] = (fails, False)"
| "live_probes limit fails (p # ps) =
     (if \<not> probe_failed p then live_probes limit 0 ps
      else if limit \<le> fails + 1 then (fails + 1, True)
      else live_probes limit (fails + 1) ps)"

section \<open>What the gate admits\<close>

text \<open>The checks in a row that satisfy \<open>p\<close>, the last of them the \<open>c\<close>-th; a window of \<open>n\<close> of them ends there
  exactly when the run is that long.\<close>

primrec run_length :: "(nat \<Rightarrow> bool) \<Rightarrow> nat \<Rightarrow> nat" where
  "run_length p 0 = 0"
| "run_length p (Suc c) = (if p (Suc c) then Suc (run_length p c) else 0)"

definition streak :: "(nat \<Rightarrow> bool) \<Rightarrow> nat \<Rightarrow> nat \<Rightarrow> bool" where
  "streak p n c \<longleftrightarrow> n \<le> c \<and> (\<forall>i. c - n < i \<and> i \<le> c \<longrightarrow> p i)"

lemma streak_run: "streak p n c \<longleftrightarrow> n \<le> run_length p c"
proof (induction c arbitrary: n)
  case 0
  then show ?case by (auto simp: streak_def)
next
  case (Suc c)
  show ?case
  proof (cases n)
    case 0
    then show ?thesis by (auto simp: streak_def)
  next
    case (Suc m)
    have "streak p (Suc m) (Suc c) \<longleftrightarrow> p (Suc c) \<and> streak p m c"
      by (auto simp: streak_def le_Suc_eq)
    then show ?thesis using Suc Suc.IH by simp
  qed
qed

text \<open>The gate decides at the \<open>c\<close>-th check: enough successes or enough failures in a row, or the time is up.\<close>

definition gate_decides :: "gate_options \<Rightarrow> (nat \<Rightarrow> probe_outcome option) \<Rightarrow> (nat \<Rightarrow> int) \<Rightarrow> nat \<Rightarrow> bool" where
  "gate_decides g probe now c \<longleftrightarrow>
     streak (ready_at probe) (max 1 (gate_need g)) c
     \<or> streak (\<lambda>i. \<not> ready_at probe i) (max 1 (gate_limit g)) c
     \<or> gate_timeout g \<le> now c - now 0"

definition gate_answer ::
  "gate_options \<Rightarrow> (nat \<Rightarrow> probe_outcome option) \<Rightarrow> (nat \<Rightarrow> int) \<Rightarrow> nat \<Rightarrow> error_code + readiness_result" where
  "gate_answer g probe now c =
     (if streak (ready_at probe) (max 1 (gate_need g)) c then Inr \<lparr>rd_checks = c, rd_elapsedMs = now c - now 0\<rparr>
      else Inl HEALTH_FAILED)"

lemma readiness_step:
  "readiness_loop g probe now c (run_length (ready_at probe) c) (run_length (\<lambda>i. \<not> ready_at probe i) c) =
     (if gate_decides g probe now (Suc c) then Some (gate_answer g probe now (Suc c))
      else readiness_loop g probe now (Suc c) (run_length (ready_at probe) (Suc c))
             (run_length (\<lambda>i. \<not> ready_at probe i) (Suc c)))"
  by (subst readiness_loop.simps) (simp add: gate_decides_def gate_answer_def streak_run Let_def le_max_iff_disj)

lemma readiness_from:
  assumes "gate_decides g probe now (Suc c + n)" "\<forall>i. c < i \<and> i < Suc c + n \<longrightarrow> \<not> gate_decides g probe now i"
  shows "readiness_loop g probe now c (run_length (ready_at probe) c) (run_length (\<lambda>i. \<not> ready_at probe i) c) =
           Some (gate_answer g probe now (Suc c + n))"
  using assms
proof (induction n arbitrary: c)
  case 0
  then show ?case by (simp add: readiness_step)
next
  case (Suc n)
  have "\<not> gate_decides g probe now (Suc c)" using Suc.prems(2) by auto
  then show ?case using Suc.IH [of "Suc c"] Suc.prems by (subst readiness_step) auto
qed

lemma clock_runs_out:
  fixes now :: "nat \<Rightarrow> int"
  assumes d: "0 < d" and first: "now 0 \<le> now 1" and later: "\<And>i. 1 \<le> i \<Longrightarrow> now i + d \<le> now (Suc i)"
  shows "t \<le> now (Suc (nat ((t + d - 1) div d))) - now 0"
proof -
  have adv: "int n * d \<le> now (Suc n) - now 0" for n
  proof (induction n)
    case 0
    then show ?case using first by simp
  next
    case (Suc n)
    have "now (Suc n) + d \<le> now (Suc (Suc n))" by (rule later) simp
    then show ?case using Suc by (simp add: algebra_simps)
  qed
  have "t + d - 1 < ((t + d - 1) div d + 1) * d"
    using d by (metis mult.commute distrib_left mult.right_neutral div_mult_mod_eq pos_mod_bound add_strict_left_mono)
  then have "t \<le> (t + d - 1) div d * d" by (simp add: algebra_simps)
  also have "\<dots> \<le> int (nat ((t + d - 1) div d)) * d" using d by (intro mult_right_mono) auto
  also have "\<dots> \<le> now (Suc (nat ((t + d - 1) div d))) - now 0" by (rule adv)
  finally show ?thesis .
qed



end
