(* ===== verification/Lifecycle_Engine.thy ===== *)
theory Lifecycle_Engine
  imports Lifecycle_States Package_Archive Crypto_Text
begin

text \<open>
  Model of \<open>packages/core/src/v2/lifecycle/engine.ts\<close>: the operations that move a generation of a product along
  the transition relation, over ports.  The registry of generations is the one of the daemon
  (\<open>adapters/store-ports.ts\<close>): a query answers a new copy of the stored row, so the engine holds row objects of its
  own (\<open>en_objs\<close>, addressed by their number) beside the stored rows (\<open>en_rows\<close>), and every step writes both.

  The ports are a record of functions of the tick, the number of port calls made before, so that they may answer
  differently each time; a port call that throws answers an error.  At every \<open>await\<close> the rest of the program runs:
  \<open>po_other\<close> is any change of the engine by it.  \<open>EngPending\<close> is a call that never returns; no handler sees it.
  The code of a release (\<open>verifyRelease\<close>) answers through \<open>po_verify\<close>, the adapter process through the calls of its
  client.
\<close>

section \<open>Data\<close>

type_synonym gkey = "string \<times> nat"

datatype dependency_kind = DependencyRequired | DependencyOptional | DependencyEvidence

record dependency =
  dp_slug :: string
  dp_kind :: dependency_kind

record gen_row =
  gn_slug :: string
  gn_version :: string
  gn_generation :: nat
  gn_state :: product_state
  gn_active :: bool
  gn_manifest_digest :: string
  gn_archive_digest :: string
  gn_staged_dir :: "string option"
  gn_data_dir :: "string option"
  gn_pid :: "int option"
  gn_dependencies :: "dependency list"
  gn_activation_indexed :: bool
  gn_projected :: bool
  gn_snapshot_verified :: bool
  gn_irreversible_data :: bool
  gn_capabilities_withdrawn :: bool
  gn_starts :: "int list"

definition gn_key :: "gen_row \<Rightarrow> gkey" where
  "gn_key g = (gn_slug g, gn_generation g)"

record product_manifest =
  pm_slug :: string
  pm_entry :: string
  pm_config_digest :: string
  pm_startup_timeout :: int
  pm_sandbox :: string
  pm_dependencies :: "dependency list"

record verified_release =
  vr_manifest :: product_manifest
  vr_manifestDigest :: string
  vr_archiveDigest :: string

record plan_summary =
  pl_slug :: string
  pl_from :: "string option"
  pl_to :: "string option"
  pl_manifest :: string
  pl_archive :: string
  pl_keep_data :: bool
  pl_cascade :: bool

record run_context =
  rc_plan :: plan_summary
  rc_sref :: "(string \<times> string) option"
  rc_pinned :: bool
  rc_purgeConfirmed :: bool

datatype operation_kind = OpInstall | OpUpdate | OpUninstall | OpRollback | OpRestart | OpRecover

datatype operation_state = Queued | AtState product_state | FailedWith error_code

text \<open>The free-form detail of a receipt.\<close>

datatype receipt_detail = NoDetail | PlanDetail plan_summary | CodeDetail error_code | DigestsDetail string string
  | StagedDetail string | DigestDetail string | ReasonDetail string | ExitDetail "int option" "string option"
  | RestartDetail int | KeepDetail bool | RecoveredDetail

record transition_receipt =
  tr_event :: transition_event
  tr_operation :: nat
  tr_slug :: string
  tr_generation :: nat
  tr_from :: product_state
  tr_to :: product_state
  tr_at_ms :: int
  tr_detail :: receipt_detail

datatype mutation_body = TransitionOf product_state product_state transition_event | StartIntent string
  | ActivePointer "nat option" nat | Projection bool | Tombstone

record journal_mutation =
  jm_operation :: nat
  jm_slug :: string
  jm_generation :: nat
  jm_body :: mutation_body

record operation_record =
  or_kind :: operation_kind
  or_state :: operation_state
  or_slug :: string
  or_from :: "string option"
  or_to :: "string option"
  or_cursor :: string
  or_error :: "(error_code \<times> bool \<times> string option) option"
  or_events :: "transition_receipt list"
  or_cancelRequested :: bool

text \<open>A port, or the engine, throws an \<open>RpcError\<close> with code, retryable flag and field, the injected crash of the
  tests, or another error.\<close>

datatype eng_error = EngRpc error_code bool "string option" | EngCrash | EngOther | EngPending

abbreviation rpc :: "error_code \<Rightarrow> string option \<Rightarrow> eng_error" where
  "rpc c f \<equiv> EngRpc c (default_retryable c) f"

fun err_code :: "eng_error \<Rightarrow> error_code" where
  "err_code (EngRpc c _ _) = c"
| "err_code _ = OUTCOME_UNKNOWN"

fun err_triple :: "eng_error \<Rightarrow> error_code \<times> bool \<times> string option" where
  "err_triple (EngRpc c rt f) = (c, rt, f)"
| "err_triple _ = (OUTCOME_UNKNOWN, False, None)"

section \<open>State and ports\<close>

text \<open>
  The operation with index \<open>i\<close> has the id \<open>op(i+1)\<close>; \<open>opSeq\<close> is the number of operations.  A client is the number of
  its child process; \<open>en_watch\<close> is the row object its exit listener was registered with, \<open>en_closed\<close> the clients that
  were closed or whose child has exited.
\<close>

record engine =
  en_rows :: "(gkey \<times> gen_row) list"
  en_objs :: "gen_row list"
  en_ops :: "operation_record list"
  en_clients :: "(gkey \<times> nat) list"
  en_spawned :: nat
  en_watch :: "(nat \<times> nat) list"
  en_closed :: "nat list"
  en_probes :: "(gkey \<times> nat) list"
  en_manifests :: "(gkey \<times> product_manifest) list"
  en_draining :: "gkey list"
  en_shut :: bool
  en_journal :: "journal_mutation list"
  en_receipts :: "transition_receipt list"
  en_tick :: nat

record describe_result =
  ds_contract :: string
  ds_product :: string
  ds_config_digest :: string

record engine_ports =
  po_other :: "nat \<Rightarrow> engine \<Rightarrow> engine"
  po_write :: "nat \<Rightarrow> eng_error option"
  po_journal :: "nat \<Rightarrow> journal_mutation \<Rightarrow> eng_error option"
  po_sink :: "nat \<Rightarrow> transition_receipt \<Rightarrow> eng_error option"
  po_now :: "nat \<Rightarrow> int"
  po_fetch :: "nat \<Rightarrow> string \<times> string \<Rightarrow> eng_error + (json \<times> nat list)"
  po_index :: "nat \<Rightarrow> eng_error + int option"
  po_verify :: "nat \<Rightarrow> json \<times> nat list \<Rightarrow> int \<Rightarrow> int option \<Rightarrow> bool \<Rightarrow> eng_error + verified_release"
  po_revocations :: "nat \<Rightarrow> string list"
  po_sandboxes :: "nat \<Rightarrow> string list"
  po_files :: "nat \<Rightarrow> eng_error option"
  po_stageDir :: "string \<Rightarrow> nat \<Rightarrow> string"
  po_dataDir :: "string \<Rightarrow> nat \<Rightarrow> string"
  po_lower :: "text16 \<Rightarrow> text16"
  po_sha :: "nat list \<Rightarrow> string"
  po_readJson :: "nat list \<Rightarrow> json option"
  po_spawn :: "nat \<Rightarrow> eng_error + (int option \<times> bool)"
  po_describe :: "nat \<Rightarrow> eng_error + describe_result"
  po_configure :: "nat \<Rightarrow> eng_error + bool"
  po_start :: "nat \<Rightarrow> eng_error + bool"
  po_health :: "nat \<Rightarrow> nat \<Rightarrow> probe_outcome option"
  po_clock :: "nat \<Rightarrow> nat \<Rightarrow> int"
  po_drain :: "nat \<Rightarrow> eng_error + nat"
  po_stop :: "nat \<Rightarrow> eng_error + unit"
  po_probe :: "(nat \<Rightarrow> eng_error + bool) option"
  po_gate :: gate_options
  po_liveProbes :: bool
  po_autoRestart :: bool

type_synonym 'a eng = "(engine, eng_error, 'a) op"

definition tick :: "engine \<Rightarrow> engine" where
  "tick s = s\<lparr>en_tick := Suc (en_tick s)\<rparr>"

definition others :: "engine_ports \<Rightarrow> engine \<Rightarrow> engine" where
  "others P s = po_other P (en_tick s) s"

text \<open>An awaited call of a port, and a synchronous one.\<close>

definition await_port :: "engine_ports \<Rightarrow> (nat \<Rightarrow> eng_error + 'a) \<Rightarrow> 'a eng" where
  "await_port P f = (\<lambda>s. (f (en_tick s), others P (tick s)))"

definition sync_port :: "(nat \<Rightarrow> eng_error + 'a) \<Rightarrow> 'a eng" where
  "sync_port f = (\<lambda>s. (f (en_tick s), tick s))"

definition now_ms :: "engine_ports \<Rightarrow> int eng" where
  "now_ms P = getsE (\<lambda>s. po_now P (en_tick s))"

definition unless_refused :: "eng_error option \<Rightarrow> eng_error + unit" where
  "unless_refused r = (case r of None \<Rightarrow> Inr () | Some e \<Rightarrow> Inl e)"

text \<open>\<open>try { m } catch (e) { h(e) }\<close> and \<open>try { m } finally { f }\<close>; a call that never returns reaches neither.\<close>

definition tryE :: "'a eng \<Rightarrow> (eng_error \<Rightarrow> 'a eng) \<Rightarrow> 'a eng" where
  "tryE m h = (\<lambda>s. case m s of
      (Inl e, t) \<Rightarrow> if e = EngPending then (Inl e, t) else h e t
    | (Inr x, t) \<Rightarrow> (Inr x, t))"

definition finallyE :: "'a eng \<Rightarrow> unit eng \<Rightarrow> 'a eng" where
  "finallyE m f = (\<lambda>s. case m s of
      (r, t) \<Rightarrow> if r = Inl EngPending then (r, t) else (case f t of (Inl e, u) \<Rightarrow> (Inl e, u) | (Inr _, u) \<Rightarrow> (r, u)))"

section \<open>The registry of generations\<close>

definition product_generations :: "string \<Rightarrow> engine \<Rightarrow> gen_row list" where
  "product_generations slug s = sort_key gn_generation (filter (\<lambda>g. gn_slug g = slug) (arows (en_rows s)))"

definition all_rows :: "engine \<Rightarrow> gen_row list" where
  "all_rows s = sort_key gn_key (arows (en_rows s))"

definition active_row :: "string \<Rightarrow> engine \<Rightarrow> gen_row option" where
  "active_row slug s = find gn_active (product_generations slug s)"

definition nextGeneration :: "string \<Rightarrow> engine \<Rightarrow> nat" where
  "nextGeneration slug s = fold max (map gn_generation (product_generations slug s)) 0 + 1"

definition write_rows :: "engine_ports \<Rightarrow> (engine \<Rightarrow> engine) \<Rightarrow> unit eng" where
  "write_rows P f = (\<lambda>s. case po_write P (en_tick s) of Some e \<Rightarrow> (Inl e, tick s) | None \<Rightarrow> (Inr (), tick (f s)))"

text \<open>\<open>create\<close> answers the row object it was given; \<open>update\<close> patches the stored row, when there is one.\<close>

definition create_row :: "engine_ports \<Rightarrow> gen_row \<Rightarrow> nat eng" where
  "create_row P g =
     thenE (write_rows P (\<lambda>s. s\<lparr>en_rows := aput (gn_key g) g (en_rows s)\<rparr>))
       (\<lambda>s. (Inr (length (en_objs s)), s\<lparr>en_objs := en_objs s @ [g]\<rparr>))"

definition patch_row :: "engine_ports \<Rightarrow> gkey \<Rightarrow> (gen_row \<Rightarrow> gen_row) \<Rightarrow> unit eng" where
  "patch_row P k f = (\<lambda>s. case map_of (en_rows s) k of
      None \<Rightarrow> (Inr (), s)
    | Some g \<Rightarrow> write_rows P (\<lambda>s. s\<lparr>en_rows := aput k (f g) (en_rows s)\<rparr>) s)"

definition point_active :: "gen_row option \<Rightarrow> gen_row option \<Rightarrow> (gkey \<times> gen_row) list \<Rightarrow> (gkey \<times> gen_row) list" where
  "point_active cur target rows =
     (let rows1 = (case cur of None \<Rightarrow> rows | Some g \<Rightarrow> aput (gn_key g) (g\<lparr>gn_active := False\<rparr>) rows) in
      case target of None \<Rightarrow> rows1 | Some g \<Rightarrow> aput (gn_key g) (g\<lparr>gn_active := True\<rparr>) rows1)"

definition casActive :: "engine_ports \<Rightarrow> string \<Rightarrow> nat option \<Rightarrow> nat option \<Rightarrow> bool eng" where
  "casActive P slug expected nxt = (\<lambda>s.
     let cur = find (\<lambda>g. gn_slug g = slug \<and> gn_active g) (arows (en_rows s));
         target = (case nxt of None \<Rightarrow> None | Some n \<Rightarrow> map_of (en_rows s) (slug, n));
         ok = (map_option gn_generation cur = expected \<and> (nxt = None \<or> target \<noteq> None)) in
     bindE (write_rows P (\<lambda>s. if ok then s\<lparr>en_rows := point_active cur target (en_rows s)\<rparr> else s)) (\<lambda>_. returnE ok) s)"

text \<open>A row that a query answers becomes a row object of the engine.\<close>

definition load_row :: "(engine \<Rightarrow> gen_row option) \<Rightarrow> nat option eng" where
  "load_row q = (\<lambda>s. case q s of
      None \<Rightarrow> (Inr None, s)
    | Some g \<Rightarrow> (Inr (Some (length (en_objs s))), s\<lparr>en_objs := en_objs s @ [g]\<rparr>))"

definition row_object :: "nat \<Rightarrow> gen_row eng" where
  "row_object r = getsE (\<lambda>s. en_objs s ! r)"

definition set_object :: "nat \<Rightarrow> (gen_row \<Rightarrow> gen_row) \<Rightarrow> unit eng" where
  "set_object r f = modifyE (\<lambda>s. s\<lparr>en_objs := (en_objs s)[r := f (en_objs s ! r)]\<rparr>)"

text \<open>\<open>registry.update(slug, generation, patch)\<close> and the same assignment to the row object.\<close>

definition patch_both :: "engine_ports \<Rightarrow> nat \<Rightarrow> (gen_row \<Rightarrow> gen_row) \<Rightarrow> unit eng" where
  "patch_both P r f = bindE (row_object r) (\<lambda>g. thenE (patch_row P (gn_key g) f) (set_object r f))"

section \<open>Operations and transitions\<close>

definition CANCELABLE :: "product_state list" where
  "CANCELABLE = [PsPlanned, PsFetching, PsVerified, PsStaged]"

definition LIVE :: "product_state list" where
  "LIVE = [PsReady, PsDegraded, PsHealthchecking, PsStarting]"

text \<open>The cursor of an operation: its number and the number of its events.\<close>

definition op_cursor :: "nat \<Rightarrow> nat \<Rightarrow> string" where
  "op_cursor i n = ''c'' @ pad_start 16 (dec_str (i + 1)) @ '':'' @ dec_str n"

definition newOperation :: "operation_kind \<Rightarrow> string \<Rightarrow> string option \<Rightarrow> string option \<Rightarrow> nat eng" where
  "newOperation k slug fr to_v = (\<lambda>s.
     (Inr (length (en_ops s)),
      s\<lparr>en_ops := en_ops s @ [\<lparr>or_kind = k, or_state = Queued, or_slug = slug, or_from = fr, or_to = to_v,
           or_cursor = op_cursor (length (en_ops s)) 0, or_error = None, or_events = [], or_cancelRequested = False\<rparr>]\<rparr>))"

definition set_op :: "nat \<Rightarrow> (operation_record \<Rightarrow> operation_record) \<Rightarrow> unit eng" where
  "set_op i f = modifyE (\<lambda>s. s\<lparr>en_ops := (en_ops s)[i := f (en_ops s ! i)]\<rparr>)"

definition cancel_requested :: "nat \<Rightarrow> bool eng" where
  "cancel_requested i = getsE (\<lambda>s. or_cancelRequested (en_ops s ! i))"

definition journalMutation :: "engine_ports \<Rightarrow> journal_mutation \<Rightarrow> unit eng" where
  "journalMutation P m = (\<lambda>s. case po_journal P (en_tick s) m of
      Some e \<Rightarrow> (Inl e, others P (tick s))
    | None \<Rightarrow> (Inr (), others P (tick (s\<lparr>en_journal := en_journal s @ [m]\<rparr>))))"

definition journal_row :: "engine_ports \<Rightarrow> nat \<Rightarrow> nat \<Rightarrow> mutation_body \<Rightarrow> unit eng" where
  "journal_row P i r b = bindE (row_object r) (\<lambda>g.
     journalMutation P \<lparr>jm_operation = i, jm_slug = gn_slug g, jm_generation = gn_generation g, jm_body = b\<rparr>)"

definition receiptSink :: "engine_ports \<Rightarrow> transition_receipt \<Rightarrow> unit eng" where
  "receiptSink P t = (\<lambda>s. case po_sink P (en_tick s) t of
      Some e \<Rightarrow> (Inl e, others P (tick s))
    | None \<Rightarrow> (Inr (), others P (tick (s\<lparr>en_receipts := en_receipts s @ [t]\<rparr>))))"

definition push_event :: "nat \<Rightarrow> transition_receipt \<Rightarrow> operation_record \<Rightarrow> operation_record" where
  "push_event i t o1 = o1\<lparr>or_events := or_events o1 @ [t], or_cursor := op_cursor i (length (or_events o1) + 1)\<rparr>"

definition transition :: "engine_ports \<Rightarrow> nat \<Rightarrow> product_state \<Rightarrow> nat \<Rightarrow> receipt_detail \<Rightarrow> transition_event eng" where
  "transition P r to_st i d =
     bindE (row_object r) (\<lambda>g.
     case transitionFor (gn_state g) to_st of
       None \<Rightarrow> throwE (rpc STATE_TRANSITION None)
     | Some ev \<Rightarrow>
         thenE (journalMutation P \<lparr>jm_operation = i, jm_slug = gn_slug g, jm_generation = gn_generation g,
                           jm_body = TransitionOf (gn_state g) to_st ev\<rparr>)
         (thenE (patch_both P r (\<lambda>g. g\<lparr>gn_state := to_st\<rparr>))
         (bindE (now_ms P) (\<lambda>t.
            let rc = \<lparr>tr_event = ev, tr_operation = i, tr_slug = gn_slug g, tr_generation = gn_generation g,
                      tr_from = gn_state g, tr_to = to_st, tr_at_ms = t, tr_detail = d\<rparr> in
            thenE (set_op i (push_event i rc)) (thenE (receiptSink P rc) (returnE ev))))))"

definition checkCancel :: "nat \<Rightarrow> nat \<Rightarrow> unit eng" where
  "checkCancel i r = bindE (cancel_requested i) (\<lambda>c. bindE (row_object r) (\<lambda>g.
     assertE (\<not> (c \<and> gn_state g \<in> set CANCELABLE)) (rpc STATE_TRANSITION (Some ''operation''))))"

section \<open>The adapter process\<close>

definition close_client :: "nat \<Rightarrow> engine \<Rightarrow> engine" where
  "close_client c s = s\<lparr>en_closed := c # en_closed s\<rparr>"

text \<open>A request to a client: one that is closed refuses it.\<close>

definition client_call :: "engine_ports \<Rightarrow> nat \<Rightarrow> (nat \<Rightarrow> eng_error + 'a) \<Rightarrow> 'a eng" where
  "client_call P c f = (\<lambda>s. if c \<in> set (en_closed s) then (Inl (rpc OUTCOME_UNKNOWN None), others P (tick s)) else await_port P f s)"

definition describeChecked :: "engine_ports \<Rightarrow> nat \<Rightarrow> product_manifest \<Rightarrow> unit eng" where
  "describeChecked P c m =
     bindE (client_call P c (po_describe P)) (\<lambda>d.
     thenE (assertE (ds_contract d = ''gateway-adapter/1'') (rpc ARTIFACT_MISMATCH (Some ''adapter.contract'')))
     (thenE (assertE (ds_product d = pm_slug m) (rpc ARTIFACT_MISMATCH (Some ''slug'')))
       (assertE (ds_config_digest d = pm_config_digest m) (rpc ARTIFACT_MISMATCH (Some ''adapter.config_schema'')))))"

definition handshake :: "engine_ports \<Rightarrow> nat \<Rightarrow> product_manifest \<Rightarrow> unit eng" where
  "handshake P c m =
     thenE (describeChecked P c m)
     (bindE (client_call P c (po_configure P)) (\<lambda>accepted.
      thenE (assertE accepted (rpc SCHEMA_INVALID (Some ''config'')))
     (bindE (client_call P c (po_start P)) (\<lambda>running. assertE running (rpc HEALTH_FAILED None)))))"

text \<open>A child without pipes is refused by the constructor of the client.\<close>

definition spawnClient :: "engine_ports \<Rightarrow> nat \<Rightarrow> product_manifest \<Rightarrow> nat eng" where
  "spawnClient P r m =
     bindE (now_ms P) (\<lambda>t.
     thenE (set_object r (\<lambda>g. g\<lparr>gn_starts := gn_starts g @ [t]\<rparr>))
     (bindE (row_object r) (\<lambda>g.
      thenE (patch_row P (gn_key g) (\<lambda>q. q\<lparr>gn_starts := gn_starts g\<rparr>))
     (bindE (await_port P (po_spawn P)) (\<lambda>(pid, pipes).
      thenE (patch_both P r (\<lambda>g. g\<lparr>gn_pid := pid\<rparr>))
     (thenE (assertE pipes (rpc SANDBOX_UNAVAILABLE None))
     (bindE (getsE en_spawned) (\<lambda>c.
      thenE (modifyE (\<lambda>s. s\<lparr>en_spawned := c + 1, en_clients := aput (gn_key g) c (en_clients s), en_watch := en_watch s @ [(c, r)]\<rparr>))
        (tryE (thenE (handshake P c m) (returnE c))
          (\<lambda>e. thenE (modifyE (\<lambda>s. close_client c (s\<lparr>en_clients := AList.delete (gn_key g) (en_clients s)\<rparr>))) (throwE e)))))))))))"

text \<open>Stop the probes, drain and stop the child; whatever happens, the client is closed and the pid cleared.\<close>

definition stopChild :: "engine_ports \<Rightarrow> nat \<Rightarrow> unit eng" where
  "stopChild P r =
     bindE (row_object r) (\<lambda>g.
     let k = gn_key g in
     thenE (modifyE (\<lambda>s. s\<lparr>en_probes := AList.delete k (en_probes s)\<rparr>))
     (bindE (getsE (\<lambda>s. map_of (en_clients s) k)) (\<lambda>client.
      thenE (modifyE (\<lambda>s. s\<lparr>en_clients := AList.delete k (en_clients s)\<rparr>))
        (case client of
           None \<Rightarrow> returnE ()
         | Some c \<Rightarrow>
             thenE (modifyE (\<lambda>s. s\<lparr>en_draining := k # en_draining s\<rparr>))
             (finallyE
               (bindE (client_call P c (po_drain P)) (\<lambda>uncertain.
                thenE (assertE (uncertain = 0) (rpc OUTCOME_UNKNOWN None)) (client_call P c (po_stop P))))
               (thenE (modifyE (\<lambda>s. (close_client c s)\<lparr>en_draining := removeAll k (en_draining s)\<rparr>))
                 (patch_both P r (\<lambda>g. g\<lparr>gn_pid := None\<rparr>))))))))"

section \<open>Failure of an operation\<close>

definition abortCandidate :: "engine_ports \<Rightarrow> nat \<Rightarrow> nat \<Rightarrow> error_code \<Rightarrow> unit eng" where
  "abortCandidate P i r code =
     bindE (cancel_requested i) (\<lambda>c. bindE (row_object r) (\<lambda>g.
     if c \<and> gn_state g \<in> set CANCELABLE then
       thenE (transition P r PsCancelled i NoDetail) (set_op i (\<lambda>o1. o1\<lparr>or_state := AtState PsCancelled\<rparr>))
     else if gn_state g \<in> set CANCELABLE then
       thenE (transition P r PsRejected i (CodeDetail code)) (returnE ())
     else if gn_state g = PsStarting \<or> gn_state g = PsHealthchecking then
       thenE (transition P r PsDraining i (CodeDetail code))
         (tryE (thenE (stopChild P r) (thenE (transition P r PsStoppedRetained i (CodeDetail code)) (returnE ())))
           (\<lambda>_. thenE (transition P r PsQuarantined i (CodeDetail OUTCOME_UNKNOWN)) (returnE ())))
     else returnE ()))"

definition failOperation :: "engine_ports \<Rightarrow> nat \<Rightarrow> nat \<Rightarrow> eng_error \<Rightarrow> 'a eng" where
  "failOperation P i r e =
     (if e = EngCrash then throwE e
      else thenE (set_op i (\<lambda>o1. o1\<lparr>or_error := Some (err_triple e), or_state := FailedWith (err_code e)\<rparr>))
             (thenE (abortCandidate P i r (err_code e)) (throwE e)))"

definition drainGeneration :: "engine_ports \<Rightarrow> nat \<Rightarrow> nat \<Rightarrow> string \<Rightarrow> unit eng" where
  "drainGeneration P r i reason =
     thenE (transition P r PsDraining i (ReasonDetail reason))
     (thenE (tryE (stopChild P r) (\<lambda>e. thenE (transition P r PsQuarantined i (CodeDetail (err_code e))) (throwE e)))
       (thenE (transition P r PsStoppedRetained i NoDetail) (returnE ())))"

section \<open>The stages of a candidate\<close>

definition fetchStage :: "engine_ports \<Rightarrow> nat \<Rightarrow> nat \<Rightarrow> string \<times> string \<Rightarrow> (json \<times> nat list) eng" where
  "fetchStage P r i sref =
     thenE (checkCancel i r) (thenE (transition P r PsFetching i NoDetail) (await_port P (\<lambda>t. po_fetch P t sref)))"

definition verifyStage :: "engine_ports \<Rightarrow> nat \<Rightarrow> nat \<Rightarrow> json \<times> nat list \<Rightarrow> bool \<Rightarrow> product_manifest eng" where
  "verifyStage P r i fetched pinned =
     thenE (checkCancel i r)
     (bindE (await_port P (po_index P)) (\<lambda>expires.
      bindE (now_ms P) (\<lambda>t.
      bindE (sync_port (\<lambda>n. po_verify P n fetched t expires pinned)) (\<lambda>v.
      thenE (patch_both P r (\<lambda>g. g\<lparr>gn_manifest_digest := vr_manifestDigest v, gn_archive_digest := vr_archiveDigest v,
                                   gn_dependencies := pm_dependencies (vr_manifest v)\<rparr>))
     (bindE (row_object r) (\<lambda>g.
      thenE (modifyE (\<lambda>s. s\<lparr>en_manifests := aput (gn_key g) (vr_manifest v) (en_manifests s)\<rparr>))
     (thenE (transition P r PsVerified i (DigestsDetail (vr_manifestDigest v) (vr_archiveDigest v)))
       (returnE (vr_manifest v)))))))))"

text \<open>\<open>package/gateway-adapter.json\<close> must bind the signed entry and the signed digest of the configuration schema.\<close>

definition package_file :: "(extracted_entry \<times> nat list) list \<Rightarrow> string \<Rightarrow> (extracted_entry \<times> nat list) option" where
  "package_file xs name = find (\<lambda>(e, _). xe_kind e = FileEntry \<and> xe_path e = units (''package/'' @ name)) xs"

definition bindStagedPackage :: "engine_ports \<Rightarrow> (extracted_entry \<times> nat list) list \<Rightarrow> product_manifest \<Rightarrow> eng_error + unit" where
  "bindStagedPackage P xs m =
     (let mismatch = (\<lambda>f. Inl (rpc ARTIFACT_MISMATCH (Some f))) in
      case package_file xs ''gateway-adapter.json'' of
        None \<Rightarrow> mismatch ''adapter''
      | Some (_, content) \<Rightarrow>
          (case po_readJson P content of
             None \<Rightarrow> mismatch ''adapter''
           | Some JNull \<Rightarrow> Inl EngOther
           | Some (JObj b) \<Rightarrow>
               (case (jget b ''contract'', jget b ''entry'', jget b ''config_schema'') of
                  (Some (JStr c), Some (JStr e), Some (JStr sch)) \<Rightarrow>
                    if c \<noteq> ''gateway-adapter/1'' \<or> e \<noteq> pm_entry m then mismatch ''adapter''
                    else if (case package_file xs sch of None \<Rightarrow> True | Some (x, _) \<Rightarrow> xe_digest x \<noteq> pm_config_digest m)
                    then mismatch ''adapter.config_schema''
                    else if package_file xs (pm_entry m) = None then mismatch ''adapter.entry''
                    else Inr ()
                | _ \<Rightarrow> mismatch ''adapter'')
           | Some _ \<Rightarrow> mismatch ''adapter''))"

text \<open>A file system call that fails (\<open>po_files\<close>) is an error of the host.\<close>

definition rpc_sum :: "error_code + 'a \<Rightarrow> eng_error + 'a" where
  "rpc_sum x = (case x of Inl c \<Rightarrow> Inl (rpc c None) | Inr y \<Rightarrow> Inr y)"

definition stageGeneration :: "engine_ports \<Rightarrow> nat \<Rightarrow> nat \<Rightarrow> product_manifest \<Rightarrow> nat list \<Rightarrow> unit eng" where
  "stageGeneration P r i m archive =
     thenE (checkCancel i r)
     (bindE (liftE (rpc_sum (extractArchive (po_lower P) (po_sha P) archive))) (\<lambda>xs.
      thenE (sync_port (\<lambda>t. unless_refused (po_files P t)))
     (thenE (liftE (bindStagedPackage P xs m))
     (bindE (row_object r) (\<lambda>g.
      let stage = po_stageDir P (gn_slug g) (gn_generation g); data = po_dataDir P (gn_slug g) (gn_generation g) in
      thenE (sync_port (\<lambda>t. unless_refused (po_files P t)))
     (thenE (patch_both P r (\<lambda>g. g\<lparr>gn_staged_dir := Some stage, gn_data_dir := Some data\<rparr>))
     (thenE (transition P r PsStaged i (StagedDetail stage)) (returnE ()))))))))"

definition spawnAndStart :: "engine_ports \<Rightarrow> nat \<Rightarrow> nat \<Rightarrow> product_manifest \<Rightarrow> nat eng" where
  "spawnAndStart P r i m =
     thenE (checkCancel i r)
     (bindE (sync_port (\<lambda>t. Inr (po_sandboxes P t))) (\<lambda>boxes.
      thenE (assertE (pm_sandbox m \<in> set boxes) (rpc SANDBOX_UNAVAILABLE (Some ''runtime.sandbox'')))
     (bindE (row_object r) (\<lambda>g.
      thenE (assertE (gn_staged_dir g \<noteq> None) (rpc STATE_TRANSITION None))
     (thenE (journal_row P i r (StartIntent (pm_entry m)))
     (thenE (transition P r PsStarting i NoDetail)
     (bindE (spawnClient P r m) (\<lambda>c.
      thenE (transition P r PsHealthchecking i NoDetail) (returnE c)))))))))"

section \<open>Activation\<close>

definition startProbes :: "engine_ports \<Rightarrow> nat \<Rightarrow> unit eng" where
  "startProbes P r = bindE (row_object r) (\<lambda>g.
     modifyE (\<lambda>s. if po_liveProbes P then s\<lparr>en_probes := aput (gn_key g) r (en_probes s)\<rparr> else s))"

definition health_gate :: "engine_ports \<Rightarrow> nat \<Rightarrow> product_manifest \<Rightarrow> unit eng" where
  "health_gate P c m = (\<lambda>s.
     case awaitReadiness ((po_gate P)\<lparr>go_startupTimeoutMs := Some (pm_startup_timeout m)\<rparr>)
            (\<lambda>n. if c \<in> set (en_closed s) then None else po_health P (en_tick s) n) (po_clock P (en_tick s)) of
       None \<Rightarrow> (Inl EngPending, s)
     | Some (Inl code) \<Rightarrow> (Inl (rpc code None), others P (tick s))
     | Some (Inr _) \<Rightarrow> (Inr (), others P (tick s)))"

text \<open>After the pointer has moved: the marker, the activation index once per generation, the projection.\<close>

definition commitActivation :: "engine_ports \<Rightarrow> nat \<Rightarrow> nat \<Rightarrow> nat option \<Rightarrow> unit eng" where
  "commitActivation P r i expected =
     bindE (row_object r) (\<lambda>g.
     thenE (set_object r (\<lambda>g. g\<lparr>gn_active := True\<rparr>))
     (thenE (journal_row P i r (ActivePointer expected (gn_generation g)))
     (bindE (row_object r) (\<lambda>g.
      thenE (if gn_activation_indexed g then returnE ()
             else thenE (patch_both P r (\<lambda>g. g\<lparr>gn_activation_indexed := True\<rparr>)) (journal_row P i r (Projection False)))
     (thenE (patch_both P r (\<lambda>g. g\<lparr>gn_projected := True\<rparr>))
     (thenE (transition P r PsReady i (DigestDetail (gn_manifest_digest g)))
       (startProbes P r)))))))"

definition activate :: "engine_ports \<Rightarrow> nat \<Rightarrow> nat \<Rightarrow> product_manifest \<Rightarrow> nat \<Rightarrow> nat option \<Rightarrow> unit eng" where
  "activate P r i m c expected =
     thenE (health_gate P c m)
     (bindE (row_object r) (\<lambda>g.
      bindE (casActive P (gn_slug g) expected (Some (gn_generation g))) (\<lambda>moved.
      thenE (assertE moved (rpc REVISION_CONFLICT (Some ''registry''))) (commitActivation P r i expected))))"

definition degrade :: "engine_ports \<Rightarrow> nat \<Rightarrow> unit eng" where
  "degrade P r =
     bindE (row_object r) (\<lambda>g.
     if gn_state g \<noteq> PsReady then returnE ()
     else bindE (newOperation OpRecover (gn_slug g) (Some (gn_version g)) (Some (gn_version g))) (\<lambda>i.
          thenE (patch_both P r (\<lambda>g. g\<lparr>gn_capabilities_withdrawn := True\<rparr>))
          (thenE (transition P r PsDegraded i NoDetail) (returnE ()))))"

section \<open>A child that exits\<close>

definition recent_starts :: "int \<Rightarrow> int list \<Rightarrow> int list" where
  "recent_starts t starts = filter (\<lambda>x. t - RESTART_WINDOW_MS \<le> x) starts"

definition restart_delay :: "nat \<Rightarrow> int" where
  "restart_delay n = (if n - 1 < length RESTART_DELAYS_MS then RESTART_DELAYS_MS ! (n - 1) else 16000)"

definition restart :: "engine_ports \<Rightarrow> nat \<Rightarrow> nat \<Rightarrow> gkey \<Rightarrow> int \<Rightarrow> unit eng" where
  "restart P r i k delay =
     bindE (getsE (\<lambda>s. map_of (en_manifests s) k)) (\<lambda>mo.
     case mo of
       None \<Rightarrow> throwE (rpc STORAGE_UNAVAILABLE (Some ''manifest''))
     | Some m \<Rightarrow>
         thenE (transition P r PsStarting i (RestartDetail delay))
         (bindE (row_object r) (\<lambda>g.
          thenE (assertE (gn_staged_dir g \<noteq> None) EngOther)
         (bindE (spawnClient P r m) (\<lambda>c.
          thenE (transition P r PsHealthchecking i NoDetail)
         (thenE (activate P r i m c (Some (snd k)))
           (set_op i (\<lambda>o1. o1\<lparr>or_state := AtState PsReady\<rparr>))))))))"

definition childCrashed :: "engine_ports \<Rightarrow> nat \<Rightarrow> gen_row \<Rightarrow> int option \<Rightarrow> string option \<Rightarrow> unit eng" where
  "childCrashed P r g code signal =
     bindE (newOperation OpRestart (gn_slug g) (Some (gn_version g)) (Some (gn_version g))) (\<lambda>i.
     thenE (transition P r PsCrashed i (ExitDetail code signal))
     (if \<not> po_autoRestart P then returnE ()
      else bindE (now_ms P) (\<lambda>t. bindE (row_object r) (\<lambda>h.
        let n = length (recent_starts t (gn_starts h)) in
        if RESTART_MAX_STARTS \<le> n then
          thenE (transition P r PsQuarantined i (ReasonDetail ''restart_budget_exhausted'')) (returnE ())
        else
          thenE (await_port P (\<lambda>_. Inr ()))
          (bindE (getsE en_shut) (\<lambda>shut.
           if shut then returnE ()
           else tryE (restart P r i (gn_key g) (restart_delay n))
                  (\<lambda>e. if e = EngCrash then throwE e
                       else thenE (transition P r PsQuarantined i (CodeDetail (err_code e))) (returnE ()))))))))"

definition onChildExit :: "engine_ports \<Rightarrow> nat \<Rightarrow> int option \<Rightarrow> string option \<Rightarrow> unit eng" where
  "onChildExit P r code signal = (\<lambda>s.
     let g = en_objs s ! r in
     if en_shut s \<or> gn_key g \<in> set (en_draining s) \<or> gn_state g \<notin> set LIVE then (Inr (), s)
     else childCrashed P r g code signal s)"

text \<open>The exit event of a child: the client is closed and its listener called.\<close>

definition child_exit :: "engine_ports \<Rightarrow> nat \<Rightarrow> int option \<Rightarrow> string option \<Rightarrow> unit eng" where
  "child_exit P c code signal =
     thenE (modifyE (close_client c))
       (bindE (getsE (\<lambda>s. map_of (en_watch s) c)) (\<lambda>w.
        case w of None \<Rightarrow> returnE () | Some r \<Rightarrow> onChildExit P r code signal))"

section \<open>Install, update, rollback, uninstall\<close>

text \<open>The generation before the candidate drains when the pointer has moved away from it.\<close>

definition drain_superseded :: "engine_ports \<Rightarrow> nat \<Rightarrow> nat \<Rightarrow> nat option \<Rightarrow> unit eng" where
  "drain_superseded P i r prev = bindE (getsE en_objs) (\<lambda>os.
     case prev of
       None \<Rightarrow> returnE ()
     | Some p \<Rightarrow>
         if gn_generation (os ! p) \<noteq> gn_generation (os ! r) \<and> gn_state (os ! p) \<in> {PsReady, PsDegraded}
         then drainGeneration P p i ''activated_replacement'' else returnE ())"

definition runCandidate :: "engine_ports \<Rightarrow> nat \<Rightarrow> nat \<Rightarrow> run_context \<Rightarrow> nat option \<Rightarrow> unit eng" where
  "runCandidate P i r ctx prev =
     tryE
       (bindE (row_object r) (\<lambda>g.
        bindE (fetchStage P r i (case rc_sref ctx of None \<Rightarrow> (gn_slug g, gn_version g) | Some sref \<Rightarrow> sref)) (\<lambda>fetched.
        bindE (verifyStage P r i fetched (rc_pinned ctx)) (\<lambda>m.
        thenE (stageGeneration P r i m (snd fetched))
       (bindE (spawnAndStart P r i m) (\<lambda>c.
        bindE (getsE (\<lambda>s. map_option (\<lambda>p. gn_generation (en_objs s ! p)) prev)) (\<lambda>expected.
        thenE (activate P r i m c expected)
       (thenE (drain_superseded P i r prev)
         (set_op i (\<lambda>o1. o1\<lparr>or_state := AtState PsReady\<rparr>))))))))))
       (\<lambda>e. failOperation P i r e)"

definition planGen :: "engine_ports \<Rightarrow> plan_summary \<Rightarrow> string \<Rightarrow> nat eng" where
  "planGen P pl version =
     bindE (getsE (nextGeneration (pl_slug pl))) (\<lambda>n.
       create_row P \<lparr>gn_slug = pl_slug pl, gn_version = version, gn_generation = n, gn_state = PsAbsent, gn_active = False,
         gn_manifest_digest = pl_manifest pl, gn_archive_digest = pl_archive pl, gn_staged_dir = None, gn_data_dir = None,
         gn_pid = None, gn_dependencies = [], gn_activation_indexed = False, gn_projected = False, gn_snapshot_verified = False,
         gn_irreversible_data = False, gn_capabilities_withdrawn = False, gn_starts = []\<rparr>)"

text \<open>An operation passed by the service, or a new one.\<close>

definition the_operation :: "nat option \<Rightarrow> operation_kind \<Rightarrow> plan_summary \<Rightarrow> nat eng" where
  "the_operation existing k pl =
     (case existing of Some i \<Rightarrow> returnE i | None \<Rightarrow> newOperation k (pl_slug pl) (pl_from pl) (pl_to pl))"

definition refuse_operation :: "nat \<Rightarrow> error_code \<Rightarrow> string option \<Rightarrow> string option \<Rightarrow> 'a eng" where
  "refuse_operation i code f thrown_field =
     thenE (set_op i (\<lambda>o1. o1\<lparr>or_state := FailedWith code, or_error := Some (code, False, f)\<rparr>)) (throwE (rpc code thrown_field))"

text \<open>\<open>plan.to!\<close>: a plan to install or update names its version.\<close>

definition install :: "engine_ports \<Rightarrow> run_context \<Rightarrow> nat option \<Rightarrow> nat eng" where
  "install P ctx existing =
     (let pl = rc_plan ctx in
      bindE (the_operation existing OpInstall pl) (\<lambda>i.
      bindE (planGen P pl (the (pl_to pl))) (\<lambda>r.
      thenE (transition P r PsPlanned i (PlanDetail pl))
      (thenE (runCandidate P i r ctx None) (returnE i)))))"

definition update_product :: "engine_ports \<Rightarrow> run_context \<Rightarrow> nat option \<Rightarrow> nat eng" where
  "update_product P ctx existing =
     (let pl = rc_plan ctx in
      bindE (the_operation existing OpUpdate pl) (\<lambda>i.
      bindE (load_row (active_row (pl_slug pl))) (\<lambda>prev.
      bindE (getsE en_objs) (\<lambda>os.
      thenE (if prev = None \<or> Some (gn_version (os ! the prev)) \<noteq> pl_from pl
             then refuse_operation i PLAN_STALE (Some ''from'') None else returnE ())
      (bindE (planGen P pl (the (pl_to pl))) (\<lambda>r.
       thenE (transition P r PsPlanned i (PlanDetail pl))
      (thenE (runCandidate P i r ctx prev) (returnE i))))))))"

definition isRevoked :: "string list \<Rightarrow> string \<Rightarrow> bool" where
  "isRevoked revs digest \<longleftrightarrow>
     (let bare = (if take 7 digest = ''sha256:'' then drop 7 digest else digest) in
      digest \<in> set revs \<or> bare \<in> set revs \<or> ''sha256:'' @ bare \<in> set revs)"

definition retained_row :: "string \<Rightarrow> string option \<Rightarrow> engine \<Rightarrow> gen_row option" where
  "retained_row slug version s = find (\<lambda>g. Some (gn_version g) = version \<and> gn_state g = PsStoppedRetained) (product_generations slug s)"

definition rollback :: "engine_ports \<Rightarrow> run_context \<Rightarrow> nat option \<Rightarrow> nat eng" where
  "rollback P ctx existing =
     (let pl = rc_plan ctx in
      bindE (the_operation existing OpRollback pl) (\<lambda>i.
      bindE (load_row (active_row (pl_slug pl))) (\<lambda>current.
      bindE (load_row (retained_row (pl_slug pl) (pl_to pl))) (\<lambda>target.
      case (current, target) of
        (Some c, Some r) \<Rightarrow>
          bindE (getsE en_objs) (\<lambda>os.
          if gn_irreversible_data (os ! c) \<and> \<not> gn_snapshot_verified (os ! r)
          then refuse_operation i UNSUPPORTED_COMPOSITION (Some ''version'') None
          else
            tryE
              (thenE (transition P r PsPlanned i (PlanDetail pl))
              (bindE (sync_port (\<lambda>t. Inr (po_revocations P t))) (\<lambda>revs.
               bindE (row_object r) (\<lambda>g.
               thenE (assertE (\<not> isRevoked revs (gn_archive_digest g)) (rpc POLICY_DENIED (Some ''revocations'')))
              (thenE (runCandidate P i r ctx (Some c)) (returnE i))))))
              (\<lambda>e. failOperation P i r e))
      | _ \<Rightarrow> refuse_operation i NOT_FOUND (Some ''version'') None))))"

text \<open>Products that still require \<open>slug\<close>, from the rows that are not removed.\<close>

definition dependentsPresent :: "gen_row list \<Rightarrow> string \<Rightarrow> string list" where
  "dependentsPresent rows slug =
     map gn_slug (filter (\<lambda>g. gn_slug g \<noteq> slug \<and> gn_state g \<notin> {PsRemoved, PsRejected, PsCancelled}
       \<and> list_ex (\<lambda>d. dp_kind d = DependencyRequired \<and> dp_slug d = slug) (gn_dependencies g)) rows)"

definition installedView :: "engine \<Rightarrow> gen_row list" where
  "installedView s = filter (\<lambda>g. gn_state g \<noteq> PsRemoved) (all_rows s)"

definition uninstall_target :: "string \<Rightarrow> engine \<Rightarrow> gen_row option" where
  "uninstall_target slug s =
     (case active_row slug s of
        Some g \<Rightarrow> Some g
      | None \<Rightarrow> find (\<lambda>g. gn_state g = PsStoppedRetained) (product_generations slug s))"

definition removeGeneration :: "engine_ports \<Rightarrow> run_context \<Rightarrow> nat \<Rightarrow> nat \<Rightarrow> unit eng" where
  "removeGeneration P ctx i r =
     (let pl = rc_plan ctx in
      bindE (row_object r) (\<lambda>g.
      thenE (if gn_state g \<in> {PsReady, PsDegraded} then drainGeneration P r i ''operator_uninstall'' else returnE ())
     (thenE (transition P r PsUninstalling i (KeepDetail (pl_keep_data pl)))
     (bindE (row_object r) (\<lambda>g.
      thenE (if gn_active g
             then bindE (casActive P (pl_slug pl) (Some (gn_generation g)) None) (\<lambda>_. set_object r (\<lambda>g. g\<lparr>gn_active := False\<rparr>))
             else returnE ())
     (thenE (sync_port (\<lambda>t. unless_refused (po_files P t)))
     (thenE (journalMutation P \<lparr>jm_operation = i, jm_slug = pl_slug pl, jm_generation = gn_generation g, jm_body = Tombstone\<rparr>)
     (thenE (transition P r PsRemoved i NoDetail)
       (set_op i (\<lambda>o1. o1\<lparr>or_state := AtState PsRemoved\<rparr>))))))))))"

definition uninstall :: "engine_ports \<Rightarrow> run_context \<Rightarrow> nat option \<Rightarrow> nat eng" where
  "uninstall P ctx existing =
     (let pl = rc_plan ctx in
      bindE (the_operation existing OpUninstall pl) (\<lambda>i.
      bindE (getsE (\<lambda>s. dependentsPresent (installedView s) (pl_slug pl))) (\<lambda>deps.
      thenE (if deps \<noteq> [] \<and> \<not> pl_cascade pl then refuse_operation i DEPENDENTS_PRESENT (Some ''dependencies'') None else returnE ())
     (thenE (if \<not> pl_keep_data pl \<and> \<not> rc_purgeConfirmed ctx
             then refuse_operation i POLICY_DENIED (Some ''keep_data'') None else returnE ())
     (bindE (load_row (uninstall_target (pl_slug pl))) (\<lambda>target.
      case target of
        None \<Rightarrow> refuse_operation i NOT_FOUND (Some ''slug'') None
      | Some r \<Rightarrow> thenE (tryE (removeGeneration P ctx i r) (\<lambda>e. failOperation P i r e)) (returnE i)))))))"

section \<open>Recovery, cancellation and shutdown\<close>

definition recoverOne :: "engine_ports \<Rightarrow> gen_row \<Rightarrow> unit eng" where
  "recoverOne P row =
     bindE (load_row (\<lambda>_. Some row)) (\<lambda>ro.
     let r = the ro; recover_op = newOperation OpRecover (gn_slug row) (Some (gn_version row)) (Some (gn_version row));
         conclude = (\<lambda>i. bindE (row_object r) (\<lambda>g. set_op i (\<lambda>o1. o1\<lparr>or_state := AtState (gn_state g)\<rparr>))) in
     if gn_state row = PsHealthchecking \<and> gn_active row \<and> \<not> gn_projected row then
       bindE recover_op (\<lambda>i.
       thenE (if gn_activation_indexed row then returnE ()
              else thenE (patch_both P r (\<lambda>g. g\<lparr>gn_activation_indexed := True\<rparr>)) (journal_row P i r (Projection True)))
      (thenE (patch_both P r (\<lambda>g. g\<lparr>gn_projected := True\<rparr>))
      (bindE (case po_probe P of None \<Rightarrow> returnE True | Some f \<Rightarrow> await_port P f) (\<lambda>alive.
       thenE (if alive then thenE (transition P r PsReady i RecoveredDetail) (returnE ()) else returnE ())
         (conclude i)))))
     else if gn_state row \<in> {PsStarting, PsHealthchecking} \<and> \<not> gn_active row then
       bindE recover_op (\<lambda>i.
       thenE (transition P r PsDraining i RecoveredDetail)
      (thenE (stopChild P r)
      (thenE (transition P r PsStoppedRetained i NoDetail)
         (conclude i))))
     else if gn_state row \<in> set CANCELABLE then
       bindE recover_op (\<lambda>i. thenE (transition P r PsRejected i RecoveredDetail) (conclude i))
     else returnE ())"

definition recoverAfterCrash :: "engine_ports \<Rightarrow> unit eng" where
  "recoverAfterCrash P = bindE (getsE all_rows) (\<lambda>rows. mapE (recoverOne P) rows)"

definition cancel_target :: "operation_record \<Rightarrow> engine \<Rightarrow> gen_row option" where
  "cancel_target o1 s =
     (let v = (case or_to o1 of Some v \<Rightarrow> v | None \<Rightarrow> (case or_from o1 of Some v \<Rightarrow> v | None \<Rightarrow> [])) in
      find (\<lambda>g. gn_version g = v) (product_generations (or_slug o1) s))"

definition cancelRow :: "engine_ports \<Rightarrow> nat \<Rightarrow> operation_record \<Rightarrow> unit eng" where
  "cancelRow P i o1 =
     thenE (set_op i (\<lambda>o1. o1\<lparr>or_cancelRequested := True\<rparr>))
     (bindE (load_row (cancel_target o1)) (\<lambda>target.
      case target of
        None \<Rightarrow> returnE ()
      | Some r \<Rightarrow>
          bindE (row_object r) (\<lambda>g.
          thenE (assertE (gn_state g \<notin> {PsReady, PsRemoved, PsDraining}) (rpc CANCEL_UNSAFE (Some ''operation'')))
            (if gn_state g \<in> set CANCELABLE
             then thenE (transition P r PsCancelled i NoDetail) (set_op i (\<lambda>o1. o1\<lparr>or_state := AtState PsCancelled\<rparr>))
             else returnE ()))))"

definition cancelOperation :: "engine_ports \<Rightarrow> nat \<Rightarrow> unit eng" where
  "cancelOperation P i = (\<lambda>s. if length (en_ops s) \<le> i then (Inl (rpc NOT_FOUND None), s) else cancelRow P i (en_ops s ! i) s)"

definition close_engine :: "unit eng" where
  "close_engine = modifyE (\<lambda>s. s\<lparr>en_shut := True, en_probes := [], en_closed := map snd (en_clients s) @ en_closed s, en_clients := []\<rparr>)"

section \<open>The calls of the engine\<close>

datatype engine_call = CallCreate operation_kind string "string option" "string option"
  | CallInstall run_context "nat option" | CallUpdate run_context "nat option" | CallRollback run_context "nat option"
  | CallUninstall run_context "nat option" | CallRecover | CallCancel nat | CallExit nat "int option" "string option"
  | CallDegrade nat | CallClose

fun run_call :: "engine_ports \<Rightarrow> engine_call \<Rightarrow> unit eng" where
  "run_call P (CallCreate k slug fr to_v) = thenE (newOperation k slug fr to_v) (returnE ())"
| "run_call P (CallInstall ctx i) = thenE (install P ctx i) (returnE ())"
| "run_call P (CallUpdate ctx i) = thenE (update_product P ctx i) (returnE ())"
| "run_call P (CallRollback ctx i) = thenE (rollback P ctx i) (returnE ())"
| "run_call P (CallUninstall ctx i) = thenE (uninstall P ctx i) (returnE ())"
| "run_call P CallRecover = recoverAfterCrash P"
| "run_call P (CallCancel i) = cancelOperation P i"
| "run_call P (CallExit c code signal) = child_exit P c code signal"
| "run_call P (CallDegrade r) = degrade P r"
| "run_call P CallClose = close_engine"

definition empty_engine :: engine where
  "empty_engine = \<lparr>en_rows = [], en_objs = [], en_ops = [], en_clients = [], en_spawned = 0, en_watch = [], en_closed = [],
     en_probes = [], en_manifests = [], en_draining = [], en_shut = False, en_journal = [], en_receipts = [], en_tick = 0\<rparr>"

end
