(* ===== verification/Lifecycle_History.thy ===== *)
theory Lifecycle_History
  imports Lifecycle_Engine
begin

text \<open>
  What every call of the engine keeps, whatever its ports answer and whatever the rest of the program does while
  it waits, as long as that keeps it too: the stored rows stand under their own keys with one active generation at
  most per product, the history only grows, and every receipt is a listed transition that was journaled before.
\<close>

section \<open>Steps\<close>

text \<open>A call moves along \<open>R\<close> when its state afterwards, after an error as well, is related to the one before.\<close>

definition moves :: "('s \<Rightarrow> 's \<Rightarrow> bool) \<Rightarrow> ('s, 'e, 'a) op \<Rightarrow> bool" where
  "moves R m \<longleftrightarrow> (\<forall>s. R s (snd (m s)))"

lemma moves_if: "moves R a \<Longrightarrow> moves R b \<Longrightarrow> moves R (if c then a else b)"
  by simp

locale step_relation =
  fixes R :: "engine \<Rightarrow> engine \<Rightarrow> bool"
  assumes stays: "R s s" and goes_on: "R s t \<Longrightarrow> R t u \<Longrightarrow> R s u"
begin

lemma no_move: "(\<And>s. snd (m s) = s) \<Longrightarrow> moves R m"
  by (simp add: moves_def stays)

lemma moves_return: "moves R (returnE x)"
  by (rule no_move) (simp add: op_simps)

lemma moves_throw: "moves R (throwE x)"
  by (rule no_move) (simp add: op_simps)

lemma moves_gets: "moves R (getsE f)"
  by (rule no_move) (simp add: op_simps)

lemma moves_assert: "moves R (assertE b e)"
  by (rule no_move) (simp add: op_simps)

lemma moves_lift: "moves R (liftE x)"
  by (rule no_move) (simp add: op_simps)

lemma moves_bind: "moves R m \<Longrightarrow> (\<And>x. moves R (k x)) \<Longrightarrow> moves R (bindE m k)"
  unfolding moves_def bind_apply by (auto split: prod.split sum.split intro: goes_on) (metis goes_on snd_conv)+

lemma moves_then: "moves R m \<Longrightarrow> moves R k \<Longrightarrow> moves R (thenE m k)"
  unfolding thenE_def by (rule moves_bind)

lemma moves_try: "moves R m \<Longrightarrow> (\<And>e. moves R (h e)) \<Longrightarrow> moves R (tryE m h)"
  unfolding moves_def tryE_def by (auto split: prod.split sum.split) (metis goes_on snd_conv)+

lemma moves_finally: "moves R m \<Longrightarrow> moves R f \<Longrightarrow> moves R (finallyE m f)"
  unfolding moves_def finallyE_def by (auto split: prod.split sum.split) (metis goes_on snd_conv)+

lemma moves_mapE: "(\<And>x. moves R (f x)) \<Longrightarrow> moves R (mapE f xs)"
  by (induction xs) (simp_all add: moves_return moves_then)

lemmas moves_intros = moves_return moves_throw moves_gets moves_assert moves_lift moves_bind moves_then moves_try
  moves_finally moves_mapE moves_if

end

section \<open>The history\<close>

definition transition_mutation :: "transition_receipt \<Rightarrow> journal_mutation" where
  "transition_mutation t = \<lparr>jm_operation = tr_operation t, jm_slug = tr_slug t, jm_generation = tr_generation t,
     jm_body = TransitionOf (tr_from t) (tr_to t) (tr_event t)\<rparr>"

definition backed :: "engine \<Rightarrow> transition_receipt \<Rightarrow> bool" where
  "backed s t \<longleftrightarrow> transitionFor (tr_from t) (tr_to t) = Some (tr_event t) \<and> transition_mutation t \<in> set (en_journal s)"

definition single_active :: "(gkey \<times> gen_row) list \<Rightarrow> bool" where
  "single_active rows \<longleftrightarrow>
     (\<forall>g\<in>set (arows rows). \<forall>h\<in>set (arows rows). gn_slug g = gn_slug h \<and> gn_active g \<and> gn_active h \<longrightarrow> g = h)"

definition lawful :: "engine \<Rightarrow> bool" where
  "lawful s \<longleftrightarrow>
     keyed gn_key (en_rows s) \<and> single_active (en_rows s)
     \<and> (\<forall>t\<in>set (en_receipts s). backed s t)
     \<and> (\<forall>i<length (en_ops s). let o1 = en_ops s ! i in
          or_cursor o1 = op_cursor i (length (or_events o1)) \<and> (\<forall>t\<in>set (or_events o1). tr_operation t = i \<and> backed s t))"

definition history_grows :: "engine \<Rightarrow> engine \<Rightarrow> bool" where
  "history_grows s t \<longleftrightarrow>
     prefix (en_journal s) (en_journal t) \<and> prefix (en_receipts s) (en_receipts t)
     \<and> length (en_ops s) \<le> length (en_ops t)
     \<and> (\<forall>i<length (en_ops s). prefix (or_events (en_ops s ! i)) (or_events (en_ops t ! i)))"

definition lawful_step :: "engine \<Rightarrow> engine \<Rightarrow> bool" where
  "lawful_step s t \<longleftrightarrow> history_grows s t \<and> (lawful s \<longrightarrow> lawful t)"

lemma history_grows_refl: "history_grows s s"
  by (simp add: history_grows_def)

lemma history_grows_trans: "history_grows s t \<Longrightarrow> history_grows t u \<Longrightarrow> history_grows s u"
  unfolding history_grows_def by (meson le_trans less_le_trans prefix_order.trans)

interpretation lawful_steps: step_relation lawful_step
  by unfold_locales (auto simp: lawful_step_def history_grows_refl intro: history_grows_trans)

lemma backed_grows: "backed s t \<Longrightarrow> history_grows s u \<Longrightarrow> backed u t"
  by (meson backed_def history_grows_def set_mono_prefix subsetD)

text \<open>A step that touches neither history nor rows.\<close>

lemma quiet_step:
  "en_rows t = en_rows s \<Longrightarrow> en_ops t = en_ops s \<Longrightarrow> en_journal t = en_journal s \<Longrightarrow> en_receipts t = en_receipts s \<Longrightarrow> lawful_step s t"
  by (simp add: lawful_step_def lawful_def history_grows_def backed_def Let_def)

lemma rows_step:
  assumes "en_ops t = en_ops s" "en_journal t = en_journal s" "en_receipts t = en_receipts s"
    "keyed gn_key (en_rows s) \<Longrightarrow> single_active (en_rows s) \<Longrightarrow> keyed gn_key (en_rows t) \<and> single_active (en_rows t)"
  shows "lawful_step s t"
  using assms by (simp add: lawful_step_def lawful_def history_grows_def backed_def Let_def)

section \<open>Rows\<close>

text \<open>A row that replaces one of its key and is active only when that was, or when no other of its product is.\<close>

lemma rows_put:
  assumes "keyed gn_key rows"
  shows "set (arows (aput (gn_key g) g rows)) = insert g {h \<in> set (arows rows). gn_key h \<noteq> gn_key g}"
proof -
  have k2: "keyed gn_key (aput (gn_key g) g rows)" using assms by (rule keyed_aput)
  have "h \<in> set (arows (aput (gn_key g) g rows)) \<longleftrightarrow> h = g \<or> h \<in> set (arows rows) \<and> gn_key h \<noteq> gn_key g" for h
    using keyed_rows [OF k2, of h] keyed_rows [OF assms, of h] by auto
  then show ?thesis by blast
qed

lemma single_activeD:
  "single_active rows \<Longrightarrow> g \<in> set (arows rows) \<Longrightarrow> h \<in> set (arows rows) \<Longrightarrow> gn_slug g = gn_slug h \<Longrightarrow> gn_active g \<Longrightarrow> gn_active h \<Longrightarrow> g = h"
  by (simp add: single_active_def)

lemma single_active_put:
  assumes k: "keyed gn_key rows" and one: "single_active rows"
    and a: "\<And>h. gn_active g \<Longrightarrow> h \<in> set (arows rows) \<Longrightarrow> gn_slug h = gn_slug g \<Longrightarrow> gn_active h \<Longrightarrow> gn_key h = gn_key g"
  shows "single_active (aput (gn_key g) g rows)"
  unfolding single_active_def rows_put [OF k] using a single_activeD [OF one] by fastforce

lemma patch_keeps:
  assumes "keyed gn_key rows" "single_active rows" "map_of rows k = Some g" "gn_key (f g) = gn_key g" "gn_active (f g) = gn_active g"
  shows "keyed gn_key (aput k (f g) rows)" "single_active (aput k (f g) rows)"
proof -
  have k: "gn_key g = k" using assms(1,3) by (rule keyed_get)
  have g: "g \<in> set (arows rows)" using assms(1,3) k by (simp add: keyed_rows)
  have slug: "gn_slug (f g) = gn_slug g" using assms(4) by (simp add: gn_key_def)
  show "keyed gn_key (aput k (f g) rows)" using keyed_aput [OF assms(1), of "f g"] assms(4) k by simp
  have "gn_key h = gn_key (f g)" if "gn_active (f g)" "h \<in> set (arows rows)" "gn_slug h = gn_slug (f g)" "gn_active h" for h
    using single_activeD [OF assms(2) that(2) g] that assms(4,5) slug by simp
  then have "single_active (aput (gn_key (f g)) (f g) rows)"
    using assms(1,2) by (intro single_active_put)
  then show "single_active (aput k (f g) rows)" using assms(4) k by simp
qed

lemma clear_keeps:
  fixes g :: gen_row
  assumes "keyed gn_key rows" "single_active rows" "g \<in> set (arows rows)" "gn_active g"
  defines "rows1 \<equiv> aput (gn_key g) (g\<lparr>gn_active := False\<rparr>) rows"
  shows "keyed gn_key rows1" "single_active rows1" "\<forall>h\<in>set (arows rows1). gn_slug h = gn_slug g \<longrightarrow> \<not> gn_active h"
proof -
  let ?g = "g\<lparr>gn_active := False\<rparr>"
  have k: "gn_key ?g = gn_key g" by (simp add: gn_key_def)
  have r: "rows1 = aput (gn_key ?g) ?g rows" by (simp only: rows1_def k)
  show "keyed gn_key rows1" unfolding r using assms(1) by (rule keyed_aput)
  show "single_active rows1" unfolding r using assms(1,2) by (rule single_active_put) simp
  show "\<forall>h\<in>set (arows rows1). gn_slug h = gn_slug g \<longrightarrow> \<not> gn_active h"
    unfolding r rows_put [OF assms(1)] using single_activeD [OF assms(2) _ assms(3)] assms(4) k by auto
qed

lemma point_active_keeps:
  assumes k: "keyed gn_key rows" and one: "single_active rows"
    and cur: "cur = find (\<lambda>g. gn_slug g = slug \<and> gn_active g) (arows rows)"
    and target: "\<And>g. target = Some g \<Longrightarrow> map_of rows (gn_key g) = Some g \<and> gn_slug g = slug"
  shows "keyed gn_key (point_active cur target rows)" "single_active (point_active cur target rows)"
proof -
  define rows1 where "rows1 = (case cur of None \<Rightarrow> rows | Some g \<Rightarrow> aput (gn_key g) (g\<lparr>gn_active := False\<rparr>) rows)"
  have r1: "keyed gn_key rows1" "single_active rows1" "\<forall>h\<in>set (arows rows1). gn_slug h = slug \<longrightarrow> \<not> gn_active h"
  proof (atomize (full), cases cur)
    case None
    with cur have "find (\<lambda>g. gn_slug g = slug \<and> gn_active g) (arows rows) = None" by simp
    then have "\<forall>h\<in>set (arows rows). gn_slug h = slug \<longrightarrow> \<not> gn_active h" by (auto simp: find_None_iff)
    then show "keyed gn_key rows1 \<and> single_active rows1 \<and> (\<forall>h\<in>set (arows rows1). gn_slug h = slug \<longrightarrow> \<not> gn_active h)"
      using None k one by (simp add: rows1_def)
  next
    case (Some g)
    then have "g \<in> set (arows rows)" "gn_active g" "gn_slug g = slug" using cur by (auto simp: find_Some_iff eq_commute [of "Some g"])
    then show "keyed gn_key rows1 \<and> single_active rows1 \<and> (\<forall>h\<in>set (arows rows1). gn_slug h = slug \<longrightarrow> \<not> gn_active h)"
      using Some clear_keeps [OF k one, of g] by (simp add: rows1_def)
  qed
  have p: "point_active cur target rows = (case target of None \<Rightarrow> rows1 | Some g \<Rightarrow> aput (gn_key g) (g\<lparr>gn_active := True\<rparr>) rows1)"
    unfolding point_active_def Let_def rows1_def ..
  show "keyed gn_key (point_active cur target rows)"
    unfolding p using r1(1) keyed_aput [OF r1(1), of "_\<lparr>gn_active := True\<rparr>"] by (auto simp: gn_key_def split: option.split)
  show "single_active (point_active cur target rows)"
  proof (cases target)
    case (Some g)
    let ?g = "g\<lparr>gn_active := True\<rparr>"
    have "single_active (aput (gn_key ?g) ?g rows1)"
      using r1(1,2) by (rule single_active_put) (use r1(3) target [OF Some] in auto)
    then show ?thesis using p Some by (simp add: gn_key_def)
  qed (use p r1 in simp)
qed

section \<open>The operations\<close>

text \<open>What runs while the engine waits keeps the law.\<close>

definition calm :: "engine_ports \<Rightarrow> bool" where
  "calm P \<longleftrightarrow> (\<forall>n s. lawful_step s (po_other P n s))"

named_theorems lawful_moves \<open>operations that keep the law under calm ports\<close>

lemma tick_step: "lawful_step s (tick s)"
  by (rule quiet_step) (simp_all add: tick_def)

lemma others_step: "calm P \<Longrightarrow> lawful_step s (others P (tick s))"
  by (metis calm_def lawful_steps.goes_on others_def tick_step)

lemma modify_moves: "(\<And>s. lawful_step s (f s)) \<Longrightarrow> moves lawful_step (modifyE f)"
  by (simp add: moves_def op_simps)

lemma await_moves [lawful_moves]: "calm P \<Longrightarrow> moves lawful_step (await_port P f)"
  by (simp add: moves_def await_port_def others_step)

lemma sync_moves [lawful_moves]: "moves lawful_step (sync_port f)"
  by (simp add: moves_def sync_port_def tick_step)

lemma client_moves [lawful_moves]: "calm P \<Longrightarrow> moves lawful_step (client_call P c f)"
  by (auto simp: moves_def client_call_def await_port_def others_step)

lemma now_moves [lawful_moves]: "moves lawful_step (now_ms P)"
  by (simp add: now_ms_def lawful_steps.moves_gets)

lemma row_object_moves [lawful_moves]: "moves lawful_step (row_object r)"
  by (simp add: row_object_def lawful_steps.moves_gets)

lemma cancel_moves [lawful_moves]: "moves lawful_step (cancel_requested i)"
  by (simp add: cancel_requested_def lawful_steps.moves_gets)

lemma set_object_moves [lawful_moves]: "moves lawful_step (set_object r f)"
  unfolding set_object_def by (rule modify_moves, rule quiet_step) simp_all

lemma load_row_moves [lawful_moves]: "moves lawful_step (load_row q)"
  unfolding moves_def load_row_def by (auto split: option.split intro: quiet_step lawful_steps.stays)

lemma write_rows_moves:
  "(\<And>s. lawful_step s (f s)) \<Longrightarrow> moves lawful_step (write_rows P f)"
  unfolding moves_def write_rows_def by (auto split: option.split intro: tick_step lawful_steps.goes_on)

lemma create_row_moves:
  assumes "\<not> gn_active g"
  shows "moves lawful_step (create_row P g)"
  unfolding create_row_def
proof (rule lawful_steps.moves_then)
  show "moves lawful_step (write_rows P (\<lambda>s. s\<lparr>en_rows := aput (gn_key g) g (en_rows s)\<rparr>))"
    by (rule write_rows_moves, rule rows_step) (use assms in \<open>auto intro: keyed_aput single_active_put\<close>)
  show "moves lawful_step (\<lambda>s. (Inr (length (en_objs s)), s\<lparr>en_objs := en_objs s @ [g]\<rparr>))"
    by (simp add: moves_def quiet_step)
qed

lemma patch_row_moves:
  assumes "\<And>g. gn_key (f g) = gn_key g" "\<And>g. gn_active (f g) = gn_active g"
  shows "moves lawful_step (patch_row P k f)"
  unfolding moves_def
proof
  fix s :: engine
  have "lawful_step s (s\<lparr>en_rows := aput k (f g) (en_rows s)\<rparr>)" if "map_of (en_rows s) k = Some g" for g
    by (rule rows_step) (use patch_keeps [of "en_rows s" k g f] assms that in auto)
  then show "lawful_step s (snd (patch_row P k f s))"
    by (auto simp: patch_row_def write_rows_def lawful_steps.stays tick_step split: option.split intro: lawful_steps.goes_on tick_step)
qed

lemma patch_both_moves:
  assumes "\<And>g. gn_key (f g) = gn_key g" "\<And>g. gn_active (f g) = gn_active g"
  shows "moves lawful_step (patch_both P r f)"
  unfolding patch_both_def using assms
  by (intro lawful_steps.moves_intros lawful_moves patch_row_moves) auto

lemma casActive_moves [lawful_moves]: "moves lawful_step (casActive P slug expected nxt)"
  unfolding moves_def
proof
  fix s :: engine
  let ?cur = "find (\<lambda>g. gn_slug g = slug \<and> gn_active g) (arows (en_rows s))"
  let ?target = "case nxt of None \<Rightarrow> None | Some n \<Rightarrow> map_of (en_rows s) (slug, n)"
  have "lawful_step s (s\<lparr>en_rows := point_active ?cur ?target (en_rows s)\<rparr>)"
  proof (rule rows_step)
    assume k: "keyed gn_key (en_rows s)" and one: "single_active (en_rows s)"
    have t: "map_of (en_rows s) (gn_key g) = Some g \<and> gn_slug g = slug" if "?target = Some g" for g
      using that keyed_get [OF k] by (auto simp: gn_key_def split: option.splits)
    show "keyed gn_key (en_rows (s\<lparr>en_rows := point_active ?cur ?target (en_rows s)\<rparr>)) \<and>
          single_active (en_rows (s\<lparr>en_rows := point_active ?cur ?target (en_rows s)\<rparr>))"
      using point_active_keeps [OF k one refl t] by simp
  qed simp_all
  then show "lawful_step s (snd (casActive P slug expected nxt s))"
    by (auto simp: casActive_def Let_def op_simps write_rows_def lawful_steps.stays tick_step
        split: option.splits intro: lawful_steps.goes_on tick_step)
qed

subsection \<open>Journal, operations, transitions\<close>

lemma journal_step: "lawful_step s (s\<lparr>en_journal := en_journal s @ [m]\<rparr>)"
  by (auto simp: lawful_step_def lawful_def history_grows_def backed_def Let_def)

lemma journal_moves [lawful_moves]: "calm P \<Longrightarrow> moves lawful_step (journalMutation P m)"
  unfolding moves_def journalMutation_def
  by (auto split: option.split intro: others_step lawful_steps.goes_on journal_step)

lemma journal_row_moves [lawful_moves]: "calm P \<Longrightarrow> moves lawful_step (journal_row P i r b)"
  unfolding journal_row_def by (intro lawful_steps.moves_intros lawful_moves)

lemma nth_update_if: "k < length xs \<Longrightarrow> xs[i := x] ! k = (if k = i then x else xs ! k)"
  by (auto simp: nth_list_update)

lemma ops_step:
  assumes "\<And>o1. or_events (f o1) = or_events o1" "\<And>o1. or_cursor (f o1) = or_cursor o1"
  shows "lawful_step s (s\<lparr>en_ops := (en_ops s)[i := f (en_ops s ! i)]\<rparr>)"
  using assms
  by (auto simp: lawful_step_def lawful_def history_grows_def backed_def Let_def nth_update_if)

lemma set_op_moves:
  "(\<And>o1. or_events (f o1) = or_events o1) \<Longrightarrow> (\<And>o1. or_cursor (f o1) = or_cursor o1) \<Longrightarrow> moves lawful_step (set_op i f)"
  unfolding set_op_def by (rule modify_moves) (rule ops_step)

lemma newOperation_moves [lawful_moves]: "moves lawful_step (newOperation k slug fr to_v)"
  unfolding moves_def newOperation_def
  by (auto simp: lawful_step_def lawful_def history_grows_def backed_def Let_def nth_append less_Suc_eq)

lemma push_step:
  assumes "backed s t" "tr_operation t = i"
  shows "lawful_step s (s\<lparr>en_ops := (en_ops s)[i := push_event i t (en_ops s ! i)]\<rparr>)"
  using assms
  by (auto simp: lawful_step_def lawful_def history_grows_def backed_def Let_def nth_update_if push_event_def)

lemma receipt_step: "backed s t \<Longrightarrow> lawful_step s (s\<lparr>en_receipts := en_receipts s @ [t]\<rparr>)"
  by (auto simp: lawful_step_def lawful_def history_grows_def backed_def Let_def)

lemma sink_step: "calm P \<Longrightarrow> backed s t \<Longrightarrow> lawful_step s (snd (receiptSink P t s))"
  unfolding receiptSink_def by (auto split: option.split intro: others_step lawful_steps.goes_on receipt_step)

text \<open>A transition journals itself before its receipt exists.\<close>

lemma journal_first:
  assumes "calm P" "journalMutation P m s = (Inr x, t)"
  shows "lawful_step s t \<and> m \<in> set (en_journal t)"
proof -
  from assms(2) have t: "t = others P (tick (s\<lparr>en_journal := en_journal s @ [m]\<rparr>))"
    by (auto simp: journalMutation_def split: option.splits)
  have "lawful_step (s\<lparr>en_journal := en_journal s @ [m]\<rparr>) t" unfolding t using assms(1) by (rule others_step)
  then have "prefix (en_journal s @ [m]) (en_journal t)" by (simp add: lawful_step_def history_grows_def)
  then have "m \<in> set (en_journal t)" by (auto dest: set_mono_prefix)
  then show ?thesis using assms journal_moves [OF assms(1), of m] unfolding moves_def by (metis snd_conv)
qed

lemma transition_moves [lawful_moves]:
  assumes "calm P"
  shows "moves lawful_step (transition P r to_st i d)"
  unfolding moves_def
proof
  fix s :: engine
  let ?g = "en_objs s ! r"
  show "lawful_step s (snd (transition P r to_st i d s))"
  proof (cases "transitionFor (gn_state ?g) to_st")
    case None
    then show ?thesis by (simp add: transition_def row_object_def op_simps lawful_steps.stays)
  next
    case (Some ev)
    define m where "m = \<lparr>jm_operation = i, jm_slug = gn_slug ?g, jm_generation = gn_generation ?g, jm_body = TransitionOf (gn_state ?g) to_st ev\<rparr>"
    obtain jr s1 where j: "journalMutation P m s = (jr, s1)" by (cases "journalMutation P m s")
    have j1: "lawful_step s s1" using journal_moves [OF assms, of m] j by (metis moves_def snd_conv)
    obtain pr s2 where p: "patch_both P r (\<lambda>g. g\<lparr>gn_state := to_st\<rparr>) s1 = (pr, s2)"
      by (cases "patch_both P r (\<lambda>g. g\<lparr>gn_state := to_st\<rparr>) s1")
    have "moves lawful_step (patch_both P r (\<lambda>g. g\<lparr>gn_state := to_st\<rparr>))" by (rule patch_both_moves) (simp_all add: gn_key_def)
    then have p1: "lawful_step s1 s2" using p by (metis moves_def snd_conv)
    define rc where "rc = \<lparr>tr_event = ev, tr_operation = i, tr_slug = gn_slug ?g, tr_generation = gn_generation ?g,
        tr_from = gn_state ?g, tr_to = to_st, tr_at_ms = po_now P (en_tick s2), tr_detail = d\<rparr>"
    define s3 where "s3 = s2\<lparr>en_ops := (en_ops s2)[i := push_event i rc (en_ops s2 ! i)]\<rparr>"
    show ?thesis
    proof (cases jr)
      case (Inl e)
      then have "snd (transition P r to_st i d s) = s1"
        using Some j by (simp add: transition_def row_object_def op_simps m_def)
      with j1 show ?thesis by simp
    next
      case (Inr u)
      have tr: "transition P r to_st i d s = (case pr of Inl e \<Rightarrow> (Inl e, s2) | Inr _ \<Rightarrow> thenE (receiptSink P rc) (returnE ev) s3)"
        using Some j p Inr
        by (simp add: transition_def row_object_def op_simps m_def now_ms_def Let_def set_op_def s3_def rc_def split: sum.split)
      show ?thesis
      proof (cases pr)
        case (Inl e)
        with tr j1 p1 show ?thesis by (auto intro: lawful_steps.goes_on)
      next
        case (Inr u2)
        have "m \<in> set (en_journal s1)" using journal_first [OF assms] j \<open>jr = Inr u\<close> by blast
        then have "m \<in> set (en_journal s2)" using p1 by (meson history_grows_def lawful_step_def set_mono_prefix subsetD)
        then have b: "backed s2 rc" using Some by (simp add: backed_def transition_mutation_def rc_def m_def)
        then have s3: "lawful_step s2 s3" unfolding s3_def by (rule push_step) (simp add: rc_def)
        then have "backed s3 rc" using b backed_grows lawful_step_def by blast
        then have "lawful_step s3 (snd (receiptSink P rc s3))" using assms by (rule sink_step [rotated])
        moreover have "snd (transition P r to_st i d s) = snd (receiptSink P rc s3)"
          using tr Inr by (auto simp: op_simps split: prod.split sum.split)
        ultimately show ?thesis using j1 p1 s3 by (metis lawful_steps.goes_on)
      qed
    qed
  qed
qed

subsection \<open>The calls\<close>

lemma moves_option: "moves R a \<Longrightarrow> (\<And>x. moves R (b x)) \<Longrightarrow> moves R (case m of None \<Rightarrow> a | Some x \<Rightarrow> b x)"
  by (cases m) simp_all

lemma moves_prod: "(\<And>x y. moves R (b x y)) \<Longrightarrow> moves R (case m of (x, y) \<Rightarrow> b x y)"
  by (cases m) simp

lemma moves_let: "(\<And>x. moves R (b x)) \<Longrightarrow> moves R (let x = m in b x)"
  by simp

lemma moves_at: "moves R m \<Longrightarrow> R s (snd (m s))"
  by (simp add: moves_def)

lemma pure_moves: "(\<And>s. en_rows (f s) = en_rows s \<and> en_ops (f s) = en_ops s \<and> en_journal (f s) = en_journal s \<and> en_receipts (f s) = en_receipts s) \<Longrightarrow>
   moves lawful_step (modifyE f)"
  by (intro modify_moves quiet_step) auto

lemmas call_intros = lawful_steps.moves_intros moves_option moves_prod moves_let

lemma checkCancel_moves [lawful_moves]: "moves lawful_step (checkCancel i r)"
  unfolding checkCancel_def by (intro call_intros lawful_moves)

lemma handshake_moves [lawful_moves]: "calm P \<Longrightarrow> moves lawful_step (handshake P c m)"
  unfolding handshake_def describeChecked_def by (intro call_intros lawful_moves)

lemma spawnClient_moves [lawful_moves]: "calm P \<Longrightarrow> moves lawful_step (spawnClient P r m)"
  unfolding spawnClient_def
  by (intro call_intros lawful_moves patch_row_moves patch_both_moves pure_moves) (simp_all add: gn_key_def close_client_def)

lemma stopChild_moves [lawful_moves]: "calm P \<Longrightarrow> moves lawful_step (stopChild P r)"
  unfolding stopChild_def
  by (intro call_intros lawful_moves patch_both_moves pure_moves) (simp_all add: gn_key_def close_client_def)

lemma abortCandidate_moves [lawful_moves]: "calm P \<Longrightarrow> moves lawful_step (abortCandidate P i r code)"
  unfolding abortCandidate_def by (intro call_intros lawful_moves set_op_moves) simp_all

lemma failOperation_moves [lawful_moves]: "calm P \<Longrightarrow> moves lawful_step (failOperation P i r e)"
  unfolding failOperation_def by (intro call_intros lawful_moves set_op_moves) simp_all

lemma drainGeneration_moves [lawful_moves]: "calm P \<Longrightarrow> moves lawful_step (drainGeneration P r i reason)"
  unfolding drainGeneration_def by (intro call_intros lawful_moves)

lemma fetchStage_moves [lawful_moves]: "calm P \<Longrightarrow> moves lawful_step (fetchStage P r i sref)"
  unfolding fetchStage_def by (intro call_intros lawful_moves)

lemma verifyStage_moves [lawful_moves]: "calm P \<Longrightarrow> moves lawful_step (verifyStage P r i fetched pinned)"
  unfolding verifyStage_def by (intro call_intros lawful_moves patch_both_moves pure_moves) (simp_all add: gn_key_def)

lemma stageGeneration_moves [lawful_moves]: "calm P \<Longrightarrow> moves lawful_step (stageGeneration P r i m archive)"
  unfolding stageGeneration_def by (intro call_intros lawful_moves patch_both_moves) (simp_all add: gn_key_def)

lemma spawnAndStart_moves [lawful_moves]: "calm P \<Longrightarrow> moves lawful_step (spawnAndStart P r i m)"
  unfolding spawnAndStart_def by (intro call_intros lawful_moves)

lemma startProbes_moves [lawful_moves]: "moves lawful_step (startProbes P r)"
  unfolding startProbes_def by (intro call_intros lawful_moves pure_moves) auto

lemma health_gate_moves [lawful_moves]: "calm P \<Longrightarrow> moves lawful_step (health_gate P c m)"
  unfolding moves_def health_gate_def by (auto simp: others_step lawful_steps.stays split: option.split sum.split)

lemma activate_moves [lawful_moves]: "calm P \<Longrightarrow> moves lawful_step (activate P r i m c expected)"
  unfolding activate_def commitActivation_def by (intro call_intros lawful_moves patch_both_moves) (simp_all add: gn_key_def)

lemma degrade_moves [lawful_moves]: "calm P \<Longrightarrow> moves lawful_step (degrade P r)"
  unfolding degrade_def by (intro call_intros lawful_moves patch_both_moves) (simp_all add: gn_key_def)

lemma restart_moves [lawful_moves]: "calm P \<Longrightarrow> moves lawful_step (restart P r i k delay)"
  unfolding restart_def by (intro call_intros lawful_moves set_op_moves) simp_all

lemma childCrashed_moves [lawful_moves]: "calm P \<Longrightarrow> moves lawful_step (childCrashed P r g code signal)"
  unfolding childCrashed_def by (intro call_intros lawful_moves)

lemma onChildExit_moves [lawful_moves]: "calm P \<Longrightarrow> moves lawful_step (onChildExit P r code signal)"
  using childCrashed_moves [of P] by (simp add: moves_def onChildExit_def Let_def lawful_steps.stays)

lemma child_exit_moves [lawful_moves]: "calm P \<Longrightarrow> moves lawful_step (child_exit P c code signal)"
  unfolding child_exit_def by (intro call_intros lawful_moves pure_moves) (simp_all add: close_client_def)

lemma runCandidate_moves [lawful_moves]: "calm P \<Longrightarrow> moves lawful_step (runCandidate P i r ctx prev)"
  unfolding runCandidate_def drain_superseded_def by (intro call_intros lawful_moves set_op_moves) simp_all

lemma planGen_moves [lawful_moves]: "moves lawful_step (planGen P pl v)"
  unfolding planGen_def by (intro call_intros lawful_moves create_row_moves) simp

lemma the_operation_moves [lawful_moves]: "moves lawful_step (the_operation existing k pl)"
  unfolding the_operation_def by (intro call_intros lawful_moves)

lemma refuse_moves [lawful_moves]: "moves lawful_step (refuse_operation i code f g)"
  unfolding refuse_operation_def by (intro call_intros lawful_moves set_op_moves) simp_all

lemma install_moves [lawful_moves]: "calm P \<Longrightarrow> moves lawful_step (install P ctx existing)"
  unfolding install_def by (intro call_intros lawful_moves)

lemma update_moves [lawful_moves]: "calm P \<Longrightarrow> moves lawful_step (update_product P ctx existing)"
  unfolding update_product_def by (intro call_intros lawful_moves)

lemma rollback_moves [lawful_moves]: "calm P \<Longrightarrow> moves lawful_step (rollback P ctx existing)"
  unfolding rollback_def by (intro call_intros lawful_moves)

lemma removeGeneration_moves [lawful_moves]: "calm P \<Longrightarrow> moves lawful_step (removeGeneration P ctx i r)"
  unfolding removeGeneration_def by (intro call_intros lawful_moves set_op_moves) simp_all

lemma uninstall_moves [lawful_moves]: "calm P \<Longrightarrow> moves lawful_step (uninstall P ctx existing)"
  unfolding uninstall_def by (intro call_intros lawful_moves)

lemma recoverOne_moves [lawful_moves]: "calm P \<Longrightarrow> moves lawful_step (recoverOne P row)"
  unfolding recoverOne_def Let_def by (intro call_intros lawful_moves patch_both_moves set_op_moves) (simp_all add: gn_key_def)

lemma recover_moves [lawful_moves]: "calm P \<Longrightarrow> moves lawful_step (recoverAfterCrash P)"
  unfolding recoverAfterCrash_def by (intro call_intros lawful_moves)

lemma cancelRow_moves [lawful_moves]: "calm P \<Longrightarrow> moves lawful_step (cancelRow P i o1)"
  unfolding cancelRow_def by (intro call_intros lawful_moves set_op_moves) simp_all

lemma cancelOperation_moves [lawful_moves]: "calm P \<Longrightarrow> moves lawful_step (cancelOperation P i)"
  using cancelRow_moves [of P] by (simp add: moves_def cancelOperation_def lawful_steps.stays)

lemma close_moves [lawful_moves]: "moves lawful_step close_engine"
  unfolding close_engine_def by (intro pure_moves) simp

lemma run_call_moves: "calm P \<Longrightarrow> moves lawful_step (run_call P c)"
  by (cases c) (auto intro!: call_intros lawful_moves)

section \<open>Runs\<close>

text \<open>Calls one after the other, each with its own ports; what runs inside a call is part of its \<open>po_other\<close>.\<close>

definition engine_run :: "(engine_ports \<times> engine_call) list \<Rightarrow> engine \<Rightarrow> engine" where
  "engine_run cs s = fold (\<lambda>(P, c) t. snd (run_call P c t)) cs s"

lemma engine_run_step: "\<forall>(P, c)\<in>set cs. calm P \<Longrightarrow> lawful_step s (engine_run cs s)"
proof (induction cs arbitrary: s)
  case (Cons x cs)
  obtain P c where x: "x = (P, c)" by (cases x)
  have "lawful_step s (snd (run_call P c s))" using run_call_moves [of P c] Cons.prems x by (auto simp: moves_def)
  moreover have "lawful_step (snd (run_call P c s)) (engine_run cs (snd (run_call P c s)))" using Cons by simp
  ultimately show ?case using x lawful_steps.goes_on by (simp add: engine_run_def)
qed (simp add: engine_run_def lawful_steps.stays)

text \<open>
  Ports under which other calls of the engine run whenever a call waits: any number of them, with answers of their own
  and interrupted in the same way themselves, to the end or to a port that never answers.  Their calls keep the law,
  so they are calm: nothing has to be assumed about what runs meanwhile.
\<close>

inductive serving :: "engine_ports \<Rightarrow> bool" where
  serving: "(\<And>n s. \<exists>es. (\<forall>x\<in>set es. serving (fst x)) \<and> po_other P n s = engine_run es s) \<Longrightarrow> serving P"

lemma serving_calm: "serving P \<Longrightarrow> calm P"
proof (induction rule: serving.induct)
  case (serving P)
  have "lawful_step s (po_other P n s)" for n s
  proof -
    obtain es where "\<forall>x\<in>set es. calm (fst x)" "po_other P n s = engine_run es s" using serving [of n s] by blast
    then show ?thesis using engine_run_step [of es s] by (auto simp: split_beta)
  qed
  then show ?case by (simp add: calm_def)
qed

lemma empty_engine_lawful: "lawful empty_engine"
  by (simp add: lawful_def empty_engine_def single_active_def arows_def)

text \<open>
  C6. In every run of the engine from the empty one, whatever the ports answer or refuse: a product has one active
  generation at most; every transition receipt, of the sink and of an operation, is a listed transition that was
  journaled before, under its operation and generation; the cursor of an operation counts its events; and journal,
  receipts and events only grow.  While a call waits other calls of the engine may run, to any depth (\<open>serving\<close>);
  or anything else may, provided that it keeps the same law itself (\<open>calm\<close>), as the rest of a call that has begun
  before.
\<close>

theorem lifecycle_history_is_lawful:
  assumes "\<forall>(P, c)\<in>set (cs @ ds). serving P \<or> calm P"
  shows "single_active (en_rows (engine_run cs empty_engine))
    \<and> (\<forall>t\<in>set (en_receipts (engine_run cs empty_engine)). transitionFor (tr_from t) (tr_to t) = Some (tr_event t)
         \<and> transition_mutation t \<in> set (en_journal (engine_run cs empty_engine)))
    \<and> (\<forall>i<length (en_ops (engine_run cs empty_engine)). let o1 = en_ops (engine_run cs empty_engine) ! i in
         or_cursor o1 = op_cursor i (length (or_events o1))
         \<and> (\<forall>t\<in>set (or_events o1). tr_operation t = i \<and> transitionFor (tr_from t) (tr_to t) = Some (tr_event t)
              \<and> transition_mutation t \<in> set (en_journal (engine_run cs empty_engine))))
    \<and> history_grows (engine_run cs empty_engine) (engine_run (cs @ ds) empty_engine)"
proof -
  have calm: "\<forall>(P, c)\<in>set (cs @ ds). calm P" using assms serving_calm by blast
  have "lawful (engine_run cs empty_engine)"
    using engine_run_step [of cs empty_engine] calm empty_engine_lawful by (auto simp: lawful_step_def)
  moreover have "engine_run (cs @ ds) empty_engine = engine_run ds (engine_run cs empty_engine)"
    by (simp add: engine_run_def)
  then have "history_grows (engine_run cs empty_engine) (engine_run (cs @ ds) empty_engine)"
    using engine_run_step [of ds "engine_run cs empty_engine"] calm by (auto simp: lawful_step_def)
  ultimately show ?thesis by (simp add: lawful_def backed_def Let_def)
qed

text \<open>Ports that accept everything, with nothing else running, over a package that never verifies.\<close>

definition still_ports :: engine_ports where
  "still_ports = \<lparr>po_other = \<lambda>_ s. s, po_write = \<lambda>_. None, po_journal = \<lambda>_ _. None, po_sink = \<lambda>_ _. None, po_now = \<lambda>n. 1000 * int n,
     po_fetch = \<lambda>_ _. Inr (JNull, []), po_index = \<lambda>_. Inr None, po_verify = \<lambda>_ _ _ _ _. Inl (rpc SIGNATURE_INVALID None),
     po_revocations = \<lambda>_. [], po_sandboxes = \<lambda>_. [], po_files = \<lambda>_. None, po_stageDir = \<lambda>_ _. [], po_dataDir = \<lambda>_ _. [],
     po_lower = \<lambda>t. t, po_sha = \<lambda>_. [], po_readJson = \<lambda>_. None, po_spawn = \<lambda>_. Inl EngOther, po_describe = \<lambda>_. Inl EngOther,
     po_configure = \<lambda>_. Inl EngOther, po_start = \<lambda>_. Inl EngOther, po_health = \<lambda>_ _. None, po_clock = \<lambda>_ n. 1000 * int n,
     po_drain = \<lambda>_. Inl EngOther, po_stop = \<lambda>_. Inl EngOther, po_probe = None,
     po_gate = \<lparr>go_successes = None, go_intervalMs = None, go_startupTimeoutMs = None, go_failureLimit = None\<rparr>,
     po_liveProbes = True, po_autoRestart = True\<rparr>"

lemma still_ports_calm: "calm still_ports"
  by (simp add: calm_def still_ports_def lawful_steps.stays)

definition sample_plan :: plan_summary where
  "sample_plan = \<lparr>pl_slug = ''p'', pl_from = None, pl_to = Some ''1.0.0'', pl_manifest = ''m'', pl_archive = ''a'', pl_keep_data = True,
     pl_cascade = False\<rparr>"

definition sample_context :: run_context where
  "sample_context = \<lparr>rc_plan = sample_plan, rc_sref = None, rc_pinned = False, rc_purgeConfirmed = False\<rparr>"

text \<open>Whenever a call waits at an even tick another product is installed, and the first operation cancelled.\<close>

definition other_context :: run_context where
  "other_context = sample_context\<lparr>rc_plan := sample_plan\<lparr>pl_slug := ''q''\<rparr>\<rparr>"

definition busy_ports :: engine_ports where
  "busy_ports = still_ports\<lparr>po_other := \<lambda>n. engine_run
     (if even n then [(still_ports, CallInstall other_context None), (still_ports, CallCancel 0)] else [])\<rparr>"

lemma busy_ports_serving: "serving busy_ports"
proof -
  have still: "serving still_ports"
    by (rule serving.intros, rule exI [of _ "[]"]) (simp add: still_ports_def engine_run_def)
  show ?thesis
  proof (rule serving.intros)
    fix n :: nat and s :: engine
    let ?es = "if even n then [(still_ports, CallInstall other_context None), (still_ports, CallCancel 0)] else []"
    show "\<exists>es. (\<forall>x\<in>set es. serving (fst x)) \<and> po_other busy_ports n s = engine_run es s"
      by (intro exI [of _ ?es]) (auto simp: busy_ports_def still)
  qed
qed

theorem lifecycle_history_is_lawful_witness:
  "single_active (en_rows (engine_run [(busy_ports, CallInstall sample_context None)] empty_engine))
   \<and> history_grows (engine_run [(busy_ports, CallInstall sample_context None)] empty_engine)
       (engine_run ([(busy_ports, CallInstall sample_context None)] @ [(still_ports, CallCancel 0)]) empty_engine)"
  using lifecycle_history_is_lawful [of "[(busy_ports, CallInstall sample_context None)]" "[(still_ports, CallCancel 0)]"]
    still_ports_calm busy_ports_serving by simp

end
