(* ===== verification/Lifecycle_Candidate.thy ===== *)
theory Lifecycle_Candidate
  imports Lifecycle_History Package_Archive_Facts
begin

text \<open>
  A candidate under ports that accept every write, with nothing running in between: an install or update that
  fails leaves the active pointer where it was and its generation closed; one that succeeds has moved the pointer
  to a generation that passed the health gate.
\<close>

section \<open>Triples\<close>

text \<open>From a state with \<open>pre\<close> the operation throws into \<open>err\<close> or answers into \<open>ok\<close>.\<close>

definition triple :: "(engine \<Rightarrow> bool) \<Rightarrow> 'a eng \<Rightarrow> (eng_error \<Rightarrow> engine \<Rightarrow> bool) \<Rightarrow> ('a \<Rightarrow> engine \<Rightarrow> bool) \<Rightarrow> bool" where
  "triple pre m err ok \<longleftrightarrow> (\<forall>s. pre s \<longrightarrow> (case m s of (Inl e, t) \<Rightarrow> err e t | (Inr x, t) \<Rightarrow> ok x t))"

lemma triple_bind: "triple pre m err mid \<Longrightarrow> (\<And>x. triple (mid x) (k x) err ok) \<Longrightarrow> triple pre (bindE m k) err ok"
  unfolding triple_def bind_apply by (fastforce split: prod.splits sum.splits)

lemma triple_then: "triple pre m err (\<lambda>_. mid) \<Longrightarrow> triple mid k err ok \<Longrightarrow> triple pre (thenE m k) err ok"
  unfolding thenE_def by (rule triple_bind)

lemma triple_weaken:
  "triple pre m err ok \<Longrightarrow> (\<And>s. pre' s \<Longrightarrow> pre s) \<Longrightarrow> (\<And>e s. err e s \<Longrightarrow> err' e s) \<Longrightarrow> (\<And>x s. ok x s \<Longrightarrow> ok' x s) \<Longrightarrow> triple pre' m err' ok'"
  unfolding triple_def by (fastforce split: prod.splits sum.splits)

lemma tripleD:
  "triple pre m err ok \<Longrightarrow> pre s \<Longrightarrow> m s = (Inl e, t) \<Longrightarrow> err e t"
  "triple pre m err ok \<Longrightarrow> pre s \<Longrightarrow> m s = (Inr x, t) \<Longrightarrow> ok x t"
  by (auto simp: triple_def)

lemma triple_try:
  "triple pre m mid ok \<Longrightarrow> (\<And>e. e \<noteq> EngPending \<Longrightarrow> triple (mid e) (h e) err ok) \<Longrightarrow> (\<And>s. mid EngPending s \<Longrightarrow> err EngPending s) \<Longrightarrow>
   triple pre (tryE m h) err ok"
  by (subst triple_def) (auto simp: tryE_def split: prod.split sum.split dest: tripleD(1) [of pre m] tripleD(2) [of pre m]
      tripleD [of "mid _" "h _"])

lemma triple_return: "(\<And>s. pre s \<Longrightarrow> ok x s) \<Longrightarrow> triple pre (returnE x) err ok"
  by (simp add: triple_def op_simps)

lemma triple_throw: "(\<And>s. pre s \<Longrightarrow> err e s) \<Longrightarrow> triple pre (throwE e) err ok"
  by (simp add: triple_def op_simps)

lemma triple_if: "(c \<Longrightarrow> triple pre a err ok) \<Longrightarrow> (\<not> c \<Longrightarrow> triple pre b err ok) \<Longrightarrow> triple pre (if c then a else b) err ok"
  by simp

section \<open>The tracked candidate\<close>

definition active_keys :: "engine \<Rightarrow> gkey set" where
  "active_keys s = {gn_key g | g. g \<in> set (arows (en_rows s)) \<and> gn_active g}"

text \<open>The row object \<open>r\<close> and the stored row \<open>k\<close> agree on the state.\<close>

definition tracks :: "engine \<Rightarrow> nat \<Rightarrow> gkey \<Rightarrow> product_state \<Rightarrow> bool" where
  "tracks s r k st \<longleftrightarrow> r < length (en_objs s) \<and> gn_key (en_objs s ! r) = k \<and> gn_state (en_objs s ! r) = st
     \<and> (\<exists>row. map_of (en_rows s) k = Some row \<and> gn_state row = st)"

definition candidate ::
  "gkey set \<Rightarrow> nat \<Rightarrow> gkey \<Rightarrow> (nat \<times> gkey \<times> product_state) option \<Rightarrow> product_state \<Rightarrow> engine \<Rightarrow> bool" where
  "candidate A r k other st s \<longleftrightarrow>
     keyed gn_key (en_rows s) \<and> active_keys s = A \<and> tracks s r k st
     \<and> (case other of None \<Rightarrow> True | Some (p, kp, sp) \<Rightarrow> p \<noteq> r \<and> kp \<noteq> k \<and> tracks s p kp sp)"

definition accepting :: "engine_ports \<Rightarrow> bool" where
  "accepting P \<longleftrightarrow> (\<forall>n s. po_other P n s = s) \<and> (\<forall>n. po_write P n = None) \<and> (\<forall>n m. po_journal P n m = None)
     \<and> (\<forall>n t. po_sink P n t = None)"

lemma active_keys_iff: "keyed gn_key (en_rows s) \<Longrightarrow> k \<in> active_keys s \<longleftrightarrow> (\<exists>g. map_of (en_rows s) k = Some g \<and> gn_active g)"
  unfolding active_keys_def by (auto simp: keyed_rows dest: keyed_get)

lemma others_still [simp]: "accepting P \<Longrightarrow> others P s = s"
  by (simp add: accepting_def others_def)

lemma candidate_swap:
  "candidate A r k (Some (p, kp, sp)) st s \<longleftrightarrow> candidate A p kp (Some (r, k, st)) sp s"
  by (auto simp: candidate_def)

text \<open>What touches neither rows nor row objects.\<close>

definition same_rows :: "engine \<Rightarrow> engine \<Rightarrow> bool" where
  "same_rows s t \<longleftrightarrow> en_rows t = en_rows s \<and> en_objs t = en_objs s"

interpretation same_rows: step_relation same_rows
  by unfold_locales (simp_all add: same_rows_def)

abbreviation untouched :: "'a eng \<Rightarrow> bool" where
  "untouched \<equiv> moves same_rows"

lemma candidate_cong: "en_rows t = en_rows s \<Longrightarrow> en_objs t = en_objs s \<Longrightarrow> candidate A r k q st t = candidate A r k q st s"
  by (simp add: candidate_def tracks_def active_keys_def split: option.split)

lemma tick_fields [simp]: "en_rows (tick s) = en_rows s" "en_objs (tick s) = en_objs s" "active_keys (tick s) = active_keys s"
  by (simp_all add: tick_def active_keys_def)

lemma candidate_simps [simp]:
  "candidate A r k q st (tick s) = candidate A r k q st s"
  "candidate A r k q st (s\<lparr>en_journal := j\<rparr>) = candidate A r k q st s"
  "candidate A r k q st (s\<lparr>en_receipts := rs\<rparr>) = candidate A r k q st s"
  "candidate A r k q st (s\<lparr>en_ops := os\<rparr>) = candidate A r k q st s"
  by (auto intro!: candidate_cong)

lemma triple_untouched:
  "untouched m \<Longrightarrow> triple (candidate A r k q st) m (\<lambda>_. candidate A r k q st) (\<lambda>_. candidate A r k q st)"
  unfolding triple_def moves_def same_rows_def by (auto split: prod.split sum.split) (metis candidate_cong snd_conv)+

text \<open>A stored row whose state, key and activity stay.\<close>

lemma patch_active_keys:
  assumes "keyed gn_key (en_rows s)" "map_of (en_rows s) k = Some g" "gn_key (f g) = gn_key g" "gn_active (f g) = gn_active g"
  shows "active_keys (s\<lparr>en_rows := aput k (f g) (en_rows s)\<rparr>) = active_keys s" "keyed gn_key (aput k (f g) (en_rows s))"
proof -
  have k: "gn_key g = k" using assms(1,2) by (rule keyed_get)
  show k2: "keyed gn_key (aput k (f g) (en_rows s))" using keyed_aput [OF assms(1), of "f g"] assms(3) k by simp
  show "active_keys (s\<lparr>en_rows := aput k (f g) (en_rows s)\<rparr>) = active_keys s"
    by (rule set_eqI) (use assms k2 in \<open>auto simp: active_keys_iff\<close>)
qed

lemma patch_row_accepted:
  assumes "accepting P" "map_of (en_rows s) k = Some g"
  shows "patch_row P k f s = (Inr (), tick (s\<lparr>en_rows := aput k (f g) (en_rows s)\<rparr>))"
  using assms by (simp add: patch_row_def write_rows_def accepting_def)

lemma triple_patch_row:
  assumes "accepting P" "\<And>g. gn_key (f g) = gn_key g" "\<And>g. gn_active (f g) = gn_active g" "\<And>g. gn_state (f g) = gn_state g"
  shows "triple (candidate A r k q st) (patch_row P k f) (\<lambda>_ _. False) (\<lambda>_. candidate A r k q st)"
  unfolding triple_def
proof (intro allI impI)
  fix s assume c: "candidate A r k q st s"
  then obtain g where g: "map_of (en_rows s) k = Some g" by (auto simp: candidate_def tracks_def)
  from c have "keyed gn_key (en_rows s)" by (simp add: candidate_def)
  note p = patch_active_keys [OF this g, of f] assms(2,3)
  have "candidate A r k q st (tick (s\<lparr>en_rows := aput k (f g) (en_rows s)\<rparr>))"
    using c g p assms(4) by (auto simp: candidate_def tracks_def split: option.splits)
  then show "case patch_row P k f s of (Inl e, t) \<Rightarrow> False | (Inr x, t) \<Rightarrow> candidate A r k q st t"
    using patch_row_accepted [OF assms(1) g] by simp
qed

lemma triple_set_object:
  assumes "\<And>g. gn_key (f g) = gn_key g" "\<And>g. gn_state (f g) = gn_state g"
  shows "triple (candidate A r k q st) (set_object r f) (\<lambda>_ _. False) (\<lambda>_. candidate A r k q st)"
  unfolding triple_def set_object_def
  using assms by (auto simp: op_simps candidate_def tracks_def active_keys_def nth_list_update split: option.splits)

lemma triple_row_object:
  assumes "\<And>g. gn_key g = k \<Longrightarrow> gn_state g = st \<Longrightarrow> triple (candidate A r k q st) (f g) err ok"
  shows "triple (candidate A r k q st) (bindE (row_object r) f) err ok"
  using assms unfolding triple_def row_object_def
  by (auto simp: op_simps candidate_def tracks_def)

lemma triple_patch_both:
  assumes "accepting P" "\<And>g. gn_key (f g) = gn_key g" "\<And>g. gn_active (f g) = gn_active g" "\<And>g. gn_state (f g) = gn_state g"
  shows "triple (candidate A r k q st) (patch_both P r f) (\<lambda>_ _. False) (\<lambda>_. candidate A r k q st)"
  unfolding patch_both_def
  by (rule triple_row_object) (use assms in \<open>auto intro!: triple_then [OF triple_patch_row triple_set_object]\<close>)

named_theorems untouched_ops \<open>operations that touch neither rows nor row objects\<close>

lemma untouched_modify: "(\<And>s. en_rows (f s) = en_rows s \<and> en_objs (f s) = en_objs s) \<Longrightarrow> untouched (modifyE f)"
  by (simp add: moves_def same_rows_def op_simps)

lemma untouched_set_op [untouched_ops]: "untouched (set_op i f)"
  unfolding set_op_def by (rule untouched_modify) simp

lemma untouched_new [untouched_ops]: "untouched (newOperation k slug fr to_v)"
  by (simp add: moves_def same_rows_def newOperation_def)

lemma untouched_await [untouched_ops]: "accepting P \<Longrightarrow> untouched (await_port P f)"
  by (simp add: moves_def same_rows_def await_port_def)

lemma untouched_sync [untouched_ops]: "untouched (sync_port f)"
  by (simp add: moves_def same_rows_def sync_port_def)

lemma untouched_client [untouched_ops]: "accepting P \<Longrightarrow> untouched (client_call P c f)"
  by (simp add: moves_def same_rows_def client_call_def await_port_def)

lemma untouched_reads [untouched_ops]: "untouched (now_ms P)" "untouched (row_object r)" "untouched (cancel_requested i)"
  by (simp_all add: now_ms_def row_object_def cancel_requested_def same_rows.moves_gets)

lemma untouched_journal [untouched_ops]: "accepting P \<Longrightarrow> untouched (journalMutation P m)"
  by (simp add: moves_def same_rows_def journalMutation_def accepting_def others_def split: option.split)

lemma untouched_gate [untouched_ops]: "accepting P \<Longrightarrow> untouched (health_gate P c m)"
  by (simp add: moves_def same_rows_def health_gate_def split: option.split sum.split)

lemma untouched_checkCancel [untouched_ops]: "untouched (checkCancel i r)"
  unfolding checkCancel_def by (intro same_rows.moves_intros untouched_ops)

lemma untouched_handshake [untouched_ops]: "accepting P \<Longrightarrow> untouched (handshake P c m)"
  unfolding handshake_def describeChecked_def by (intro same_rows.moves_intros untouched_ops)

lemma untouched_journal_row [untouched_ops]: "accepting P \<Longrightarrow> untouched (journal_row P i r b)"
  unfolding journal_row_def by (intro same_rows.moves_intros untouched_ops)

lemma untouched_startProbes [untouched_ops]: "untouched (startProbes P r)"
  unfolding startProbes_def by (intro same_rows.moves_intros untouched_ops untouched_modify) simp

subsection \<open>A transition of the candidate\<close>

lemma accepted_journal: "accepting P \<Longrightarrow> journalMutation P m s = (Inr (), tick (s\<lparr>en_journal := en_journal s @ [m]\<rparr>))"
  by (simp add: journalMutation_def accepting_def others_def)

lemma accepted_sink: "accepting P \<Longrightarrow> receiptSink P t s = (Inr (), tick (s\<lparr>en_receipts := en_receipts s @ [t]\<rparr>))"
  by (simp add: receiptSink_def accepting_def others_def)

lemma triple_journal:
  "accepting P \<Longrightarrow> triple (candidate A r k q st) (journalMutation P m) (\<lambda>_ _. False) (\<lambda>_. candidate A r k q st)"
  by (simp add: triple_def accepted_journal)

lemma triple_state:
  assumes "accepting P"
  shows "triple (candidate A r k q st) (patch_both P r (\<lambda>g. g\<lparr>gn_state := to_st\<rparr>)) (\<lambda>_ _. False) (\<lambda>_. candidate A r k q to_st)"
  unfolding triple_def
proof (intro allI impI)
  fix s assume c: "candidate A r k q st s"
  let ?f = "\<lambda>g. g\<lparr>gn_state := to_st\<rparr>"
  from c obtain g where g: "map_of (en_rows s) k = Some g" and r: "r < length (en_objs s)" "gn_key (en_objs s ! r) = k"
    by (auto simp: candidate_def tracks_def)
  define t where "t = tick (s\<lparr>en_rows := aput k (?f g) (en_rows s)\<rparr>)"
  have run: "patch_both P r ?f s = (Inr (), t\<lparr>en_objs := (en_objs t)[r := ?f (en_objs t ! r)]\<rparr>)"
    using r g by (simp add: patch_both_def row_object_def op_simps patch_row_accepted [OF assms] t_def set_object_def)
  from c have "keyed gn_key (en_rows s)" by (simp add: candidate_def)
  note p = patch_active_keys [OF this g, of ?f]
  have key: "gn_key (?f h) = gn_key h" for h :: gen_row by (simp add: gn_key_def)
  let ?u = "t\<lparr>en_objs := (en_objs t)[r := ?f (en_objs t ! r)]\<rparr>"
  have rows: "en_rows ?u = aput k (?f g) (en_rows s)" and objs: "en_objs ?u = (en_objs s)[r := ?f (en_objs s ! r)]"
    by (simp_all add: t_def)
  have "active_keys ?u = active_keys (s\<lparr>en_rows := aput k (?f g) (en_rows s)\<rparr>)"
    unfolding active_keys_def rows by simp
  then have "active_keys ?u = A" using p(1) key c by (simp add: candidate_def)
  moreover have "keyed gn_key (en_rows ?u)" unfolding rows using p(2) key by simp
  moreover have "tracks ?u r k to_st" unfolding tracks_def rows objs using r key by simp
  moreover have "tracks ?u n l sp" if "tracks s n l sp" "n \<noteq> r" "l \<noteq> k" for n l sp
    using that unfolding tracks_def rows objs by simp
  ultimately have "candidate A r k q to_st ?u"
    using c unfolding candidate_def by (auto split: option.splits)
  then show "case patch_both P r ?f s of (Inl e, t) \<Rightarrow> False | (Inr x, t) \<Rightarrow> candidate A r k q to_st t"
    by (simp add: run)
qed

lemma triple_transition:
  assumes P: "accepting P" and ev: "transitionFor st to_st = Some ev"
  shows "triple (candidate A r k q st) (transition P r to_st i d) (\<lambda>_ _. False) (\<lambda>_. candidate A r k q to_st)"
proof -
  have push: "triple (candidate A r k q to_st) (set_op i f) (\<lambda>_ _. False) (\<lambda>_. candidate A r k q to_st)" for f
    by (simp add: triple_def set_op_def op_simps)
  have sink: "triple (candidate A r k q to_st) (receiptSink P t) (\<lambda>_ _. False) (\<lambda>_. candidate A r k q to_st)" for t
    using P by (simp add: triple_def accepted_sink)
  have now: "triple (candidate A r k q to_st) (now_ms P) (\<lambda>_ _. False) (\<lambda>_. candidate A r k q to_st)"
    by (simp add: triple_def now_ms_def op_simps)
  show ?thesis
    unfolding transition_def
  proof (rule triple_row_object)
    fix g assume "gn_state g = st"
    then show "triple (candidate A r k q st)
        (case transitionFor (gn_state g) to_st of None \<Rightarrow> throwE (rpc STATE_TRANSITION None)
         | Some ev \<Rightarrow> thenE (journalMutation P \<lparr>jm_operation = i, jm_slug = gn_slug g, jm_generation = gn_generation g,
                           jm_body = TransitionOf (gn_state g) to_st ev\<rparr>)
         (thenE (patch_both P r (\<lambda>g. g\<lparr>gn_state := to_st\<rparr>))
         (bindE (now_ms P) (\<lambda>t.
            let rc = \<lparr>tr_event = ev, tr_operation = i, tr_slug = gn_slug g, tr_generation = gn_generation g,
                      tr_from = gn_state g, tr_to = to_st, tr_at_ms = t, tr_detail = d\<rparr> in
            thenE (set_op i (push_event i rc)) (thenE (receiptSink P rc) (returnE ev))))))
        (\<lambda>_ _. False) (\<lambda>_. candidate A r k q to_st)"
      unfolding Let_def
      by (simp only: ev option.case)
        (intro triple_then [OF triple_journal [OF P]] triple_then [OF triple_state [OF P]] triple_bind [OF now]
          triple_then [OF push] triple_then [OF sink] triple_return)
  qed
qed

section \<open>The stages\<close>

text \<open>States in which a candidate may fail, and those in which it is closed afterwards.\<close>

definition OPEN_STATES :: "product_state set" where
  "OPEN_STATES = {PsPlanned, PsFetching, PsVerified, PsStaged, PsStarting, PsHealthchecking}"

definition CLOSED_STATES :: "product_state set" where
  "CLOSED_STATES = {PsCancelled, PsRejected, PsStoppedRetained, PsQuarantined}"

definition still_open :: "gkey set \<Rightarrow> nat \<Rightarrow> gkey \<Rightarrow> (nat \<times> gkey \<times> product_state) option \<Rightarrow> eng_error \<Rightarrow> engine \<Rightarrow> bool" where
  "still_open A r k q e s \<longleftrightarrow> (\<exists>st\<in>OPEN_STATES. candidate A r k q st s)"

lemma still_openI: "candidate A r k q st s \<Longrightarrow> st \<in> OPEN_STATES \<Longrightarrow> still_open A r k q e s"
  by (auto simp: still_open_def)

lemma bind_untouched:
  assumes "untouched m" "st \<in> OPEN_STATES" "\<And>x. triple (candidate A r k q st) (f x) (still_open A r k q) ok"
  shows "triple (candidate A r k q st) (bindE m f) (still_open A r k q) ok"
proof (rule triple_bind [where mid = "\<lambda>_. candidate A r k q st"])
  show "triple (candidate A r k q st) m (still_open A r k q) (\<lambda>_. candidate A r k q st)"
    by (rule triple_weaken [OF triple_untouched [OF assms(1)]]) (use assms(2) in \<open>auto intro: still_openI\<close>)
qed (rule assms(3))

lemma bind_safe:
  assumes "triple pre m (\<lambda>_ _. False) (\<lambda>_. mid)" "\<And>x. triple mid (f x) err ok"
  shows "triple pre (bindE m f) err ok"
  by (rule triple_bind [OF triple_weaken [OF assms(1)] assms(2)]) auto

lemma bind_patch:
  assumes "accepting P" "\<And>g. gn_key (u g) = gn_key g" "\<And>g. gn_active (u g) = gn_active g" "\<And>g. gn_state (u g) = gn_state g"
    "\<And>x. triple (candidate A r k q st) (f x) err ok"
  shows "triple (candidate A r k q st) (bindE (patch_both P r u) f) err ok"
  using assms by (intro bind_safe [OF triple_patch_both]) auto

lemma bind_set_object:
  assumes "\<And>g. gn_key (u g) = gn_key g" "\<And>g. gn_state (u g) = gn_state g" "\<And>x. triple (candidate A r k q st) (f x) err ok"
  shows "triple (candidate A r k q st) (bindE (set_object r u) f) err ok"
  using assms by (intro bind_safe [OF triple_set_object]) auto

lemma bind_patch_row:
  assumes "accepting P" "l = k" "\<And>g. gn_key (u g) = gn_key g" "\<And>g. gn_active (u g) = gn_active g" "\<And>g. gn_state (u g) = gn_state g"
    "\<And>x. triple (candidate A r k q st) (f x) err ok"
  shows "triple (candidate A r k q st) (bindE (patch_row P l u) f) err ok"
  using assms by (auto intro: bind_safe [OF triple_patch_row])

lemma bind_transition:
  assumes "accepting P" "transitionFor st to_st = Some ev" "\<And>x. triple (candidate A r k q to_st) (f x) err ok"
  shows "triple (candidate A r k q st) (bindE (transition P r to_st i d) f) err ok"
  using assms by (intro bind_safe [OF triple_transition]) auto

lemma listed:
  "transitionFor PsPlanned PsFetching = Some ProductFetchStarted" "transitionFor PsFetching PsVerified = Some ProductVerified"
  "transitionFor PsVerified PsStaged = Some ProductStaged" "transitionFor PsStaged PsStarting = Some ProductStartRequested"
  "transitionFor PsStarting PsHealthchecking = Some ProductStarted" "transitionFor PsHealthchecking PsReady = Some ProductActivated"
  "transitionFor PsStarting PsDraining = Some ProductCandidateAbortRequested"
  "transitionFor PsHealthchecking PsDraining = Some ProductCandidateAbortRequested"
  "transitionFor PsReady PsDraining = Some ProductDrainRequested" "transitionFor PsDegraded PsDraining = Some ProductDrainRequested"
  "transitionFor PsDraining PsStoppedRetained = Some ProductStopped" "transitionFor PsDraining PsQuarantined = Some ProductQuarantined"
  "transitionFor PsAbsent PsPlanned = Some ProductPlanCreated"
  by (simp_all add: transitionFor_def PRODUCT_TRANSITIONS_def)

lemma listed_cancelable:
  "st \<in> set CANCELABLE \<Longrightarrow> transitionFor st PsRejected = Some ProductRejected"
  "st \<in> set CANCELABLE \<Longrightarrow> transitionFor st PsCancelled = Some ProductOperationCancelled"
  by (auto simp: CANCELABLE_def transitionFor_def PRODUCT_TRANSITIONS_def)

lemma open_states [simp]: "PsPlanned \<in> OPEN_STATES" "PsFetching \<in> OPEN_STATES" "PsVerified \<in> OPEN_STATES" "PsStaged \<in> OPEN_STATES"
  "PsStarting \<in> OPEN_STATES" "PsHealthchecking \<in> OPEN_STATES"
  by (simp_all add: OPEN_STATES_def)

lemma return_candidate: "triple (candidate A r k q st) (returnE x) err (\<lambda>_. candidate A r k q st)"
  by (simp add: triple_return)

lemma end_untouched:
  assumes "untouched m" "st \<in> OPEN_STATES"
  shows "triple (candidate A r k q st) m (still_open A r k q) (\<lambda>_. candidate A r k q st)"
  by (rule triple_weaken [OF triple_untouched [OF assms(1)]]) (use assms(2) in \<open>auto intro: still_openI\<close>)

lemmas stage_steps = bind_transition bind_patch bind_set_object bind_patch_row triple_row_object bind_untouched

lemma fetch_triple:
  "accepting P \<Longrightarrow> triple (candidate A r k q PsPlanned) (fetchStage P r i sref) (still_open A r k q) (\<lambda>_. candidate A r k q PsFetching)"
  unfolding fetchStage_def thenE_def
  by (rule bind_untouched bind_transition end_untouched untouched_ops listed open_states | assumption)+

lemma verify_triple:
  "accepting P \<Longrightarrow> triple (candidate A r k q PsFetching) (verifyStage P r i fetched pinned) (still_open A r k q) (\<lambda>_. candidate A r k q PsVerified)"
  unfolding verifyStage_def thenE_def
  by (rule bind_transition bind_patch triple_row_object bind_untouched return_candidate untouched_ops listed open_states untouched_modify
      | assumption | simp add: gn_key_def)+

lemma stage_triple:
  "accepting P \<Longrightarrow> triple (candidate A r k q PsVerified) (stageGeneration P r i m archive) (still_open A r k q) (\<lambda>_. candidate A r k q PsStaged)"
  unfolding stageGeneration_def thenE_def Let_def
  by (rule bind_transition bind_patch triple_row_object bind_untouched return_candidate untouched_ops listed open_states
      same_rows.moves_lift | assumption | simp add: gn_key_def)+

lemma spawn_triple:
  assumes P: "accepting P" and st: "st \<in> OPEN_STATES"
  shows "triple (candidate A r k q st) (spawnClient P r m) (still_open A r k q) (\<lambda>_. candidate A r k q st)"
proof -
  have handshake: "triple (candidate A r k q st)
      (tryE (thenE (handshake P c m) (returnE c)) (\<lambda>e. thenE (modifyE (\<lambda>s. close_client c (s\<lparr>en_clients := f s\<rparr>))) (throwE e)))
      (still_open A r k q) (\<lambda>_. candidate A r k q st)" for c f
  proof (rule triple_try [where mid = "\<lambda>_. candidate A r k q st"])
    show "triple (candidate A r k q st) (thenE (handshake P c m) (returnE c)) (\<lambda>_. candidate A r k q st) (\<lambda>_. candidate A r k q st)"
      by (rule triple_untouched) (intro same_rows.moves_intros untouched_ops P)
    show "triple (candidate A r k q st) (thenE (modifyE (\<lambda>s. close_client c (s\<lparr>en_clients := f s\<rparr>))) (throwE e)) (still_open A r k q)
        (\<lambda>_. candidate A r k q st)" for e
      by (rule end_untouched [OF _ st]) (intro same_rows.moves_intros untouched_modify, simp add: close_client_def)
    show "still_open A r k q EngPending s" if "candidate A r k q st s" for s using that st by (rule still_openI)
  qed
  show ?thesis
    unfolding spawnClient_def thenE_def case_prod_beta
    by (rule bind_patch bind_set_object bind_patch_row triple_row_object bind_untouched untouched_ops st P untouched_modify
        same_rows.moves_assert same_rows.moves_gets handshake [unfolded thenE_def] | assumption | (simp add: gn_key_def; fail))+
qed

lemma start_triple:
  assumes P: "accepting P"
  shows "triple (candidate A r k q PsStaged) (spawnAndStart P r i m) (still_open A r k q) (\<lambda>_. candidate A r k q PsHealthchecking)"
proof -
  have spawn: "triple (candidate A r k q PsStarting) (bindE (spawnClient P r m) f) (still_open A r k q) ok"
    if "\<And>x. triple (candidate A r k q PsStarting) (f x) (still_open A r k q) ok" for f and ok :: "nat \<Rightarrow> engine \<Rightarrow> bool"
    by (rule triple_bind [where mid = "\<lambda>_. candidate A r k q PsStarting", OF spawn_triple [OF P] that]) simp
  show ?thesis
    unfolding spawnAndStart_def thenE_def
    by (rule spawn bind_transition triple_row_object bind_untouched return_candidate untouched_ops listed open_states P
        same_rows.moves_assert | assumption)+
qed

section \<open>The pointer\<close>

definition pointer_expected :: "gkey set \<Rightarrow> gkey \<Rightarrow> nat option \<Rightarrow> bool" where
  "pointer_expected A k expected \<longleftrightarrow>
     (case expected of None \<Rightarrow> \<forall>a\<in>A. fst a \<noteq> fst k | Some n \<Rightarrow> (fst k, n) \<in> A)"

definition pointer_moved :: "gkey set \<Rightarrow> gkey \<Rightarrow> nat option \<Rightarrow> gkey set" where
  "pointer_moved A k expected = insert k (A - (case expected of None \<Rightarrow> {} | Some n \<Rightarrow> {(fst k, n)}))"

lemma point_active_rows:
  assumes "\<And>c. cur = Some c \<Longrightarrow> map_of rows (gn_key c) = Some c \<and> gn_key c \<noteq> gn_key g"
  shows "map_of (point_active cur (Some g) rows) x =
    (if x = gn_key g then Some (g\<lparr>gn_active := True\<rparr>)
     else if \<exists>c. cur = Some c \<and> gn_key c = x then map_option (\<lambda>c. c\<lparr>gn_active := False\<rparr>) cur else map_of rows x)"
  using assms by (cases cur) (auto simp: point_active_def)

lemma cas_triple:
  assumes P: "accepting P" and k: "k \<notin> A" "k = (slug, n)"
  shows "triple (candidate A r k q st) (casActive P slug expected (Some n)) (\<lambda>_ _. False)
    (\<lambda>moved. if moved then (\<lambda>s. pointer_expected A k expected \<and> candidate (pointer_moved A k expected) r k q st s)
             else candidate A r k q st)"
  unfolding triple_def
proof (intro allI impI)
  fix s assume c: "candidate A r k q st s"
  let ?rows = "en_rows s"
  define cur where "cur = find (\<lambda>g. gn_slug g = slug \<and> gn_active g) (arows ?rows)"
  obtain row where row: "map_of ?rows k = Some row" "gn_state row = st" using c by (auto simp: candidate_def tracks_def)
  have keyed: "keyed gn_key ?rows" and A: "active_keys s = A" using c by (simp_all add: candidate_def)
  have rk: "gn_key row = k" using keyed row(1) by (rule keyed_get)
  have cur_row: "map_of ?rows (gn_key h) = Some h \<and> gn_key h \<noteq> gn_key row \<and> gn_key h \<in> A \<and> fst (gn_key h) = slug"
    if "cur = Some h" for h
  proof -
    from that have h: "h \<in> set (arows ?rows)" "gn_active h" "gn_slug h = slug"
      by (auto simp: cur_def find_Some_iff eq_commute [of "Some h"])
    then have "map_of ?rows (gn_key h) = Some h" using keyed by (simp add: keyed_rows)
    moreover from this have "gn_key h \<in> A" using A active_keys_iff [OF keyed] h(2) by blast
    ultimately show ?thesis using k rk h(3) by (auto simp: gn_key_def)
  qed
  have no_cur: "\<forall>a\<in>A. fst a \<noteq> slug" if "cur = None"
  proof -
    from that have "\<forall>g\<in>set (arows ?rows). \<not> (gn_slug g = slug \<and> gn_active g)" by (auto simp: cur_def find_None_iff)
    then show ?thesis using A unfolding active_keys_def by (auto simp: gn_key_def)
  qed
  have run: "casActive P slug expected (Some n) s =
      (Inr (map_option gn_generation cur = expected),
       tick (if map_option gn_generation cur = expected then s\<lparr>en_rows := point_active cur (Some row) ?rows\<rparr> else s))"
    using P row(1) k by (simp add: casActive_def cur_def Let_def op_simps write_rows_def accepting_def)
  show "case casActive P slug expected (Some n) s of (Inl e, t) \<Rightarrow> False
      | (Inr moved, t) \<Rightarrow> (if moved then (\<lambda>s. pointer_expected A k expected \<and> candidate (pointer_moved A k expected) r k q st s)
             else candidate A r k q st) t"
  proof (cases "map_option gn_generation cur = expected")
    case False
    then show ?thesis using run c by simp
  next
    case True
    define t where "t = s\<lparr>en_rows := point_active cur (Some row) ?rows\<rparr>"
    have rows: "map_of (en_rows t) x = (if x = gn_key row then Some (row\<lparr>gn_active := True\<rparr>)
       else if \<exists>c. cur = Some c \<and> gn_key c = x then map_option (\<lambda>c. c\<lparr>gn_active := False\<rparr>) cur else map_of ?rows x)" for x
      unfolding t_def using point_active_rows [of cur ?rows row x] cur_row by simp
    have keyed_t: "keyed gn_key (en_rows t)"
    proof -
      define rows1 where "rows1 = (case cur of None \<Rightarrow> ?rows | Some g \<Rightarrow> aput (gn_key g) (g\<lparr>gn_active := False\<rparr>) ?rows)"
      have "keyed gn_key rows1"
        using keyed keyed_aput [OF keyed, of "_\<lparr>gn_active := False\<rparr>"] by (auto simp: rows1_def gn_key_def split: option.split)
      then have "keyed gn_key (aput (gn_key (row\<lparr>gn_active := True\<rparr>)) (row\<lparr>gn_active := True\<rparr>) rows1)" by (rule keyed_aput)
      then show ?thesis by (simp add: t_def point_active_def rows1_def gn_key_def)
    qed
    have exp: "pointer_expected A k expected"
    proof (cases cur)
      case None
      then show ?thesis using True no_cur k by (auto simp: pointer_expected_def)
    next
      case (Some h)
      then have "(slug, gn_generation h) = gn_key h" using cur_row by (auto simp: gn_key_def)
      then show ?thesis using True Some cur_row [OF Some] k by (auto simp: pointer_expected_def)
    qed
    have cleared: "(\<exists>c. cur = Some c \<and> gn_key c = x) \<longleftrightarrow> x \<in> (case expected of None \<Rightarrow> {} | Some n \<Rightarrow> {(fst k, n)})" for x
    proof (cases cur)
      case (Some h)
      then have "(slug, gn_generation h) = gn_key h" using cur_row by (auto simp: gn_key_def)
      then show ?thesis using True Some k by auto
    qed (use True in auto)
    have "x \<in> active_keys t \<longleftrightarrow> x \<in> pointer_moved A k expected" for x
      unfolding active_keys_iff [OF keyed_t] rows pointer_moved_def
      using cleared [of x] active_keys_iff [OF keyed, of x] A rk by auto
    then have "active_keys t = pointer_moved A k expected" by blast
    moreover have "tracks t p l sp" if "tracks s p l sp" for p l sp
      using that cur_row rk row unfolding tracks_def rows by (fastforce simp: t_def)
    ultimately have "candidate (pointer_moved A k expected) r k q st t"
      using c keyed_t unfolding candidate_def by (auto split: option.splits)
    then show ?thesis using run True exp by (simp add: t_def)
  qed
qed

section \<open>Activation\<close>

lemma triple_pure: "(Q \<Longrightarrow> triple pre m err ok) \<Longrightarrow> triple (\<lambda>s. Q \<and> pre s) m err ok"
  by (auto simp: triple_def)

lemma safe_journal_row:
  "accepting P \<Longrightarrow> triple (candidate A r k q st) (journal_row P i r b) (\<lambda>_ _. False) (\<lambda>_. candidate A r k q st)"
  by (simp add: triple_def journal_row_def row_object_def op_simps accepted_journal)

lemma safe_startProbes:
  "triple (candidate A r k q st) (startProbes P r) (\<lambda>_ _. False) (\<lambda>_. candidate A r k q st)"
  by (simp add: triple_def startProbes_def row_object_def op_simps) (auto intro: candidate_cong [THEN iffD2])

lemma safe_projection:
  assumes "accepting P"
  shows "triple (candidate A r k q st)
    (if b then returnE () else thenE (patch_both P r (\<lambda>g. g\<lparr>gn_activation_indexed := True\<rparr>)) (journal_row P i r (Projection False)))
    (\<lambda>_ _. False) (\<lambda>_. candidate A r k q st)"
  unfolding thenE_def
  by (cases b) (auto simp: gn_key_def intro!: return_candidate bind_patch [OF assms] safe_journal_row [OF assms])

lemma commit_triple:
  assumes P: "accepting P"
  shows "triple (candidate A r k q PsHealthchecking) (commitActivation P r i expected) (\<lambda>_ _. False) (\<lambda>_. candidate A r k q PsReady)"
  unfolding commitActivation_def thenE_def
  by (rule bind_set_object bind_safe [OF safe_journal_row [OF P]] triple_row_object bind_safe [OF safe_projection [OF P, unfolded thenE_def]]
      bind_patch [OF P] bind_transition [OF P listed(6)] safe_startProbes | (simp add: gn_key_def; fail))+

lemma activate_triple:
  assumes P: "accepting P" and k: "k \<notin> A"
  shows "triple (candidate A r k q PsHealthchecking) (activate P r i m c expected) (still_open A r k q)
    (\<lambda>_ s. pointer_expected A k expected \<and> candidate (pointer_moved A k expected) r k q PsReady s)"
  unfolding activate_def
proof (subst (1) thenE_def, rule bind_untouched [OF untouched_gate [OF P] open_states(6)], rule triple_row_object)
  fix g assume g: "gn_key g = k"
  let ?ok = "\<lambda>s. pointer_expected A k expected \<and> candidate (pointer_moved A k expected) r k q PsReady s"
  from g have "k = (gn_slug g, gn_generation g)" by (simp add: gn_key_def)
  note cas = cas_triple [OF P k this, of r q PsHealthchecking expected]
  show "triple (candidate A r k q PsHealthchecking)
    (bindE (casActive P (gn_slug g) expected (Some (gn_generation g))) (\<lambda>moved.
       thenE (assertE moved (rpc REVISION_CONFLICT (Some ''registry''))) (commitActivation P r i expected)))
    (still_open A r k q) (\<lambda>_. ?ok)"
  proof (rule triple_bind)
    show "triple (candidate A r k q PsHealthchecking) (casActive P (gn_slug g) expected (Some (gn_generation g))) (still_open A r k q)
      (\<lambda>moved. if moved then (\<lambda>s. pointer_expected A k expected \<and> candidate (pointer_moved A k expected) r k q PsHealthchecking s)
             else candidate A r k q PsHealthchecking)"
      using cas by (rule triple_weaken) auto
    show "triple (if moved then (\<lambda>s. pointer_expected A k expected \<and> candidate (pointer_moved A k expected) r k q PsHealthchecking s)
             else candidate A r k q PsHealthchecking)
        (thenE (assertE moved (rpc REVISION_CONFLICT (Some ''registry''))) (commitActivation P r i expected)) (still_open A r k q) (\<lambda>_. ?ok)" for moved
      using commit_triple [OF P, of "pointer_moved A k expected" r k q i expected] unfolding triple_def
      by (cases moved) (fastforce simp: op_simps split: prod.splits sum.splits intro: still_openI)+
  qed
qed

section \<open>Failure\<close>

lemma triple_finally:
  "triple pre m (\<lambda>_. mid) (\<lambda>_. mid) \<Longrightarrow> triple mid f (\<lambda>_ _. False) (\<lambda>_. post) \<Longrightarrow>
   triple pre (finallyE m f) (\<lambda>e s. e = EngPending \<or> post s) (\<lambda>_. post)"
proof (subst triple_def, intro allI impI)
  assume m: "triple pre m (\<lambda>_. mid) (\<lambda>_. mid)" and f: "triple mid f (\<lambda>_ _. False) (\<lambda>_. post)"
  fix s assume s: "pre s"
  obtain x t where x: "m s = (x, t)" by (cases "m s")
  have "mid t" using m s x by (cases x) (auto dest: tripleD)
  obtain y u where y: "f t = (y, u)" by (cases "f t")
  obtain z where "y = Inr z" "post u" using f \<open>mid t\<close> y by (cases y) (auto dest: tripleD)
  then show "case finallyE m f s of (Inl e, t) \<Rightarrow> e = EngPending \<or> post t | (Inr x, t) \<Rightarrow> post t"
    using x y by (cases x) (simp_all add: finallyE_def)
qed

lemma stop_triple:
  assumes P: "accepting P"
  shows "triple (candidate A r k q st) (stopChild P r) (\<lambda>e s. e = EngPending \<or> candidate A r k q st s) (\<lambda>_. candidate A r k q st)"
proof -
  have untouched: "triple (candidate A r k q st) (bindE (modifyE f) h) err ok"
    if "\<And>s. en_rows (f s) = en_rows s \<and> en_objs (f s) = en_objs s" "\<And>x. triple (candidate A r k q st) (h x) err ok"
    for f and h :: "unit \<Rightarrow> unit eng" and err ok
    using that by (intro bind_safe [of _ _ "candidate A r k q st"]) (auto simp: triple_def op_simps intro: candidate_cong [THEN iffD2])
  have gets: "triple (candidate A r k q st) (bindE (getsE f) h) err ok"
    if "\<And>x. triple (candidate A r k q st) (h x) err ok" for f and h :: "'x \<Rightarrow> unit eng" and err ok
    using that by (auto simp: triple_def op_simps)
  have body: "triple (candidate A r k q st)
     (finallyE (bindE (client_call P c (po_drain P)) (\<lambda>uncertain.
                thenE (assertE (uncertain = 0) (rpc OUTCOME_UNKNOWN None)) (client_call P c (po_stop P))))
               (thenE (modifyE (\<lambda>s. (close_client c s)\<lparr>en_draining := removeAll k' (en_draining s)\<rparr>))
                 (patch_both P r (\<lambda>g. g\<lparr>gn_pid := None\<rparr>))))
     (\<lambda>e s. e = EngPending \<or> candidate A r k q st s) (\<lambda>_. candidate A r k q st)" for c k'
    by (rule triple_finally [OF triple_untouched])
      (auto simp: thenE_def close_client_def gn_key_def intro!: same_rows.moves_intros untouched_ops P untouched triple_patch_both [OF P])
  have with_client: "triple (candidate A r k q st)
     (case client of None \<Rightarrow> returnE ()
      | Some c \<Rightarrow>
          thenE (modifyE (\<lambda>s. s\<lparr>en_draining := k' # en_draining s\<rparr>))
            (finallyE (bindE (client_call P c (po_drain P)) (\<lambda>uncertain.
                thenE (assertE (uncertain = 0) (rpc OUTCOME_UNKNOWN None)) (client_call P c (po_stop P))))
               (thenE (modifyE (\<lambda>s. (close_client c s)\<lparr>en_draining := removeAll k' (en_draining s)\<rparr>))
                 (patch_both P r (\<lambda>g. g\<lparr>gn_pid := None\<rparr>)))))
     (\<lambda>e s. e = EngPending \<or> candidate A r k q st s) (\<lambda>_. candidate A r k q st)" for client k'
    by (cases client) (simp_all add: return_candidate, subst thenE_def, rule untouched [OF _ body], simp)
  show ?thesis
    unfolding stopChild_def Let_def
    by (rule triple_row_object, subst thenE_def, rule untouched, simp, rule gets, subst thenE_def, rule untouched, simp, rule with_client)
qed

definition closed_candidate :: "gkey set \<Rightarrow> nat \<Rightarrow> gkey \<Rightarrow> (nat \<times> gkey \<times> product_state) option \<Rightarrow> engine \<Rightarrow> bool" where
  "closed_candidate A r k q s \<longleftrightarrow> (\<exists>st\<in>CLOSED_STATES. candidate A r k q st s)"

lemma closedI: "candidate A r k q st s \<Longrightarrow> st \<in> CLOSED_STATES \<Longrightarrow> closed_candidate A r k q s"
  by (auto simp: closed_candidate_def)

lemma closed_states [simp]: "PsCancelled \<in> CLOSED_STATES" "PsRejected \<in> CLOSED_STATES" "PsStoppedRetained \<in> CLOSED_STATES"
  "PsQuarantined \<in> CLOSED_STATES"
  by (simp_all add: CLOSED_STATES_def)

lemma end_transition:
  assumes "accepting P" "transitionFor st to_st = Some ev" "to_st \<in> CLOSED_STATES"
  shows "triple (candidate A r k q st) (thenE (transition P r to_st i d) (returnE ())) err (\<lambda>_. closed_candidate A r k q)"
  unfolding thenE_def
  by (rule bind_transition [OF assms(1,2)]) (rule triple_return, erule closedI [OF _ assms(3)])

lemma abort_stop_triple:
  assumes P: "accepting P"
  shows "triple (candidate A r k q PsDraining)
    (tryE (thenE (stopChild P r) (thenE (transition P r PsStoppedRetained i (CodeDetail code)) (returnE ())))
       (\<lambda>_. thenE (transition P r PsQuarantined i (CodeDetail OUTCOME_UNKNOWN)) (returnE ())))
    (\<lambda>e _. e = EngPending) (\<lambda>_. closed_candidate A r k q)"
proof (rule triple_try)
  show "triple (candidate A r k q PsDraining) (thenE (stopChild P r) (thenE (transition P r PsStoppedRetained i (CodeDetail code)) (returnE ())))
      (\<lambda>e s. e = EngPending \<or> candidate A r k q PsDraining s) (\<lambda>_. closed_candidate A r k q)"
    by (rule triple_then [OF stop_triple [OF P]]) (rule end_transition [OF P listed(11)], simp)
  fix e :: eng_error assume "e \<noteq> EngPending"
  then show "triple (\<lambda>s. e = EngPending \<or> candidate A r k q PsDraining s)
      (thenE (transition P r PsQuarantined i (CodeDetail OUTCOME_UNKNOWN)) (returnE ()))
      (\<lambda>e _. e = EngPending) (\<lambda>_. closed_candidate A r k q)"
    using end_transition [OF P listed(12), of A r k q i "CodeDetail OUTCOME_UNKNOWN"] by simp
qed simp

lemma abort_triple:
  assumes P: "accepting P" and st: "st \<in> OPEN_STATES"
  shows "triple (candidate A r k q st) (abortCandidate P i r code) (\<lambda>e _. e = EngPending) (\<lambda>_. closed_candidate A r k q)"
proof -
  have states: "st \<in> set CANCELABLE \<or> st = PsStarting \<or> st = PsHealthchecking" using st by (auto simp: OPEN_STATES_def CANCELABLE_def)
  have drain: "transitionFor st PsDraining = Some ProductCandidateAbortRequested" if "st = PsStarting \<or> st = PsHealthchecking"
    using that listed(7,8) by auto
  have cancel: "triple (candidate A r k q st) (thenE (transition P r PsCancelled i NoDetail) (set_op i (\<lambda>o1. o1\<lparr>or_state := AtState PsCancelled\<rparr>)))
      (\<lambda>e _. e = EngPending) (\<lambda>_. closed_candidate A r k q)" if "st \<in> set CANCELABLE"
    unfolding thenE_def
    by (rule bind_transition [OF P listed_cancelable(2) [OF that]])
      (auto simp: triple_def set_op_def op_simps intro: closedI)
  have reject: "triple (candidate A r k q st) (thenE (transition P r PsRejected i (CodeDetail code)) (returnE ()))
      (\<lambda>e _. e = EngPending) (\<lambda>_. closed_candidate A r k q)" if "st \<in> set CANCELABLE"
    by (rule end_transition [OF P listed_cancelable(1) [OF that]]) simp
  have abort: "triple (candidate A r k q st)
     (thenE (transition P r PsDraining i (CodeDetail code))
       (tryE (thenE (stopChild P r) (thenE (transition P r PsStoppedRetained i (CodeDetail code)) (returnE ())))
          (\<lambda>_. thenE (transition P r PsQuarantined i (CodeDetail OUTCOME_UNKNOWN)) (returnE ()))))
     (\<lambda>e _. e = EngPending) (\<lambda>_. closed_candidate A r k q)" if "st = PsStarting \<or> st = PsHealthchecking"
    by (subst thenE_def, rule bind_transition [OF P drain [OF that]], rule abort_stop_triple [OF P])
  have cancel_bind: "triple (candidate A r k q st) (bindE (cancel_requested i) f) err ok"
    if "\<And>c. triple (candidate A r k q st) (f c) err ok" for f and err and ok :: "unit \<Rightarrow> engine \<Rightarrow> bool"
    using that by (auto simp: triple_def cancel_requested_def op_simps)
  show ?thesis
    unfolding abortCandidate_def
    by (rule cancel_bind, rule triple_row_object) (use states cancel reject abort in \<open>auto intro!: triple_if\<close>)
qed

lemma fail_triple:
  assumes P: "accepting P"
  shows "triple (still_open A r k q e) (failOperation P i r e) (\<lambda>e' s. e' \<in> {EngPending, EngCrash} \<or> closed_candidate A r k q s) ok"
proof (cases "e = EngCrash")
  case True
  then show ?thesis by (simp add: failOperation_def triple_throw)
next
  case False
  have open_state: "triple (candidate A r k q st) (failOperation P i r e) (\<lambda>e' s. e' \<in> {EngPending, EngCrash} \<or> closed_candidate A r k q s) ok"
    if st: "st \<in> OPEN_STATES" for st
  proof -
    have op: "triple (candidate A r k q st) (set_op i f) (\<lambda>_ _. False) (\<lambda>_. candidate A r k q st)" for f
      by (simp add: triple_def set_op_def op_simps)
    have "triple (candidate A r k q st) (thenE (set_op i (\<lambda>o1. o1\<lparr>or_error := Some (err_triple e), or_state := FailedWith (err_code e)\<rparr>))
             (thenE (abortCandidate P i r (err_code e)) (throwE e))) (\<lambda>e' s. e' \<in> {EngPending, EngCrash} \<or> closed_candidate A r k q s) ok"
      unfolding thenE_def
      by (rule bind_safe [OF op], rule triple_bind [where mid = "\<lambda>_. closed_candidate A r k q", OF triple_weaken [OF abort_triple [OF P st]]])
        (auto intro: triple_throw)
    then show ?thesis using False by (simp add: failOperation_def)
  qed
  show ?thesis
  proof (subst triple_def, intro allI impI)
    fix s assume "still_open A r k q e s"
    then obtain st where st: "st \<in> OPEN_STATES" "candidate A r k q st s" by (auto simp: still_open_def)
    show "case failOperation P i r e s of (Inl e', t) \<Rightarrow> e' \<in> {EngPending, EngCrash} \<or> closed_candidate A r k q t | (Inr x, t) \<Rightarrow> ok x t"
      using open_state [OF st(1)] st(2) unfolding triple_def by (elim allE impE) assumption+
  qed
qed

section \<open>The superseded generation\<close>

lemma drain_triple:
  assumes P: "accepting P" and st: "st \<in> {PsReady, PsDegraded}"
  shows "triple (candidate A r k q st) (drainGeneration P r i reason)
    (\<lambda>e s. e = EngPending \<or> candidate A r k q PsQuarantined s) (\<lambda>_. candidate A r k q PsStoppedRetained)"
proof -
  have listed_drain: "transitionFor st PsDraining = Some ProductDrainRequested" using st listed(9,10) by auto
  have stop: "triple (candidate A r k q PsDraining)
      (tryE (stopChild P r) (\<lambda>e. thenE (transition P r PsQuarantined i (CodeDetail (err_code e))) (throwE e)))
      (\<lambda>e s. e = EngPending \<or> candidate A r k q PsQuarantined s) (\<lambda>_. candidate A r k q PsDraining)"
  proof (rule triple_try [OF stop_triple [OF P]])
    fix e :: eng_error assume "e \<noteq> EngPending"
    moreover have "triple (candidate A r k q PsDraining) (thenE (transition P r PsQuarantined i (CodeDetail (err_code e))) (throwE e))
        (\<lambda>e s. e = EngPending \<or> candidate A r k q PsQuarantined s) (\<lambda>_. candidate A r k q PsDraining)"
      unfolding thenE_def by (rule bind_transition [OF P listed(12)]) (simp add: triple_throw)
    ultimately show "triple (\<lambda>s. e = EngPending \<or> candidate A r k q PsDraining s)
        (thenE (transition P r PsQuarantined i (CodeDetail (err_code e))) (throwE e))
        (\<lambda>e s. e = EngPending \<or> candidate A r k q PsQuarantined s) (\<lambda>_. candidate A r k q PsDraining)" by simp
  qed simp
  show ?thesis
    unfolding drainGeneration_def
    by (subst thenE_def, rule bind_transition [OF P listed_drain], rule triple_then [OF stop], subst thenE_def,
        rule bind_transition [OF P listed(11)], rule return_candidate)
qed

text \<open>The pointer has moved to the candidate and the generation before it has stopped, or is quarantined.\<close>

definition switched :: "gkey set \<Rightarrow> nat \<Rightarrow> gkey \<Rightarrow> (nat \<times> gkey \<times> product_state) option \<Rightarrow> nat option \<Rightarrow> product_state \<Rightarrow> engine \<Rightarrow> bool" where
  "switched A r k q expected stopped s \<longleftrightarrow>
     pointer_expected A k expected
     \<and> candidate (pointer_moved A k expected) r k
         (map_option (\<lambda>(p, kp, sp). (p, kp, if sp \<in> {PsReady, PsDegraded} then stopped else sp)) q) PsReady s"

definition superseded_live :: "(nat \<times> gkey \<times> product_state) option \<Rightarrow> bool" where
  "superseded_live q \<longleftrightarrow> (\<exists>p kp sp. q = Some (p, kp, sp) \<and> sp \<in> {PsReady, PsDegraded})"

lemma superseded_triple:
  assumes P: "accepting P" and q: "prev = map_option fst q" "\<And>p kp sp. q = Some (p, kp, sp) \<Longrightarrow> fst kp = fst k"
  shows "triple (candidate A r k q PsReady) (drain_superseded P i r prev)
    (\<lambda>e s. e = EngPending \<or> superseded_live q
       \<and> candidate A r k (map_option (\<lambda>(p, kp, sp). (p, kp, if sp \<in> {PsReady, PsDegraded} then PsQuarantined else sp)) q) PsReady s)
    (\<lambda>_. candidate A r k (map_option (\<lambda>(p, kp, sp). (p, kp, if sp \<in> {PsReady, PsDegraded} then PsStoppedRetained else sp)) q) PsReady)"
proof (cases q)
  case None
  then show ?thesis using q(1) by (simp add: drain_superseded_def triple_def op_simps)
next
  case (Some x)
  obtain p kp sp where x: "x = (p, kp, sp)" by (cases x)
  have q_after: "map_option (\<lambda>(p, kp, sp). (p, kp, if sp \<in> {PsReady, PsDegraded} then stopped else sp)) q =
      Some (p, kp, if sp \<in> {PsReady, PsDegraded} then stopped else sp)" for stopped
    using Some x by simp
  have gen: "gn_generation (en_objs s ! p) \<noteq> gn_generation (en_objs s ! r) \<and> gn_state (en_objs s ! p) = sp"
    if "candidate A r k (Some (p, kp, sp)) PsReady s" for s
    using that q(2) [of p kp sp] Some x by (auto simp: candidate_def tracks_def gn_key_def)
  show ?thesis
  proof (cases "sp \<in> {PsReady, PsDegraded}")
    case True
    have d: "triple (candidate A r k (Some (p, kp, sp)) PsReady) (drainGeneration P p i ''activated_replacement'')
       (\<lambda>e s. e = EngPending \<or> candidate A r k (Some (p, kp, PsQuarantined)) PsReady s)
       (\<lambda>_. candidate A r k (Some (p, kp, PsStoppedRetained)) PsReady)"
      by (rule triple_weaken [OF drain_triple [OF P True, of A p kp "Some (r, k, PsReady)"]]) (simp_all add: candidate_swap [of A p kp r k])
    have "drain_superseded P i r prev s = drainGeneration P p i ''activated_replacement'' s"
      if "candidate A r k (Some (p, kp, sp)) PsReady s" for s
      using gen [OF that] True q(1) Some x by (simp add: drain_superseded_def op_simps)
    moreover have "sp \<in> {PsReady, PsDegraded} \<longleftrightarrow> True" "superseded_live (Some (p, kp, sp)) \<longleftrightarrow> True"
      using True by (auto simp: superseded_live_def)
    ultimately show ?thesis using d unfolding q_after unfolding Some x triple_def by (simp only: if_True simp_thms) simp
  next
    case False
    have "drain_superseded P i r prev s = (Inr (), s)" if "candidate A r k (Some (p, kp, sp)) PsReady s" for s
      using gen [OF that] False q(1) Some x by (simp add: drain_superseded_def op_simps)
    moreover have "sp \<in> {PsReady, PsDegraded} \<longleftrightarrow> False" using False by simp
    ultimately show ?thesis unfolding q_after unfolding Some x triple_def by (simp only: if_False) simp
  qed
qed

section \<open>The candidate as a whole\<close>

lemma triple_disj: "triple p m err ok \<Longrightarrow> triple p' m err ok \<Longrightarrow> triple (\<lambda>s. p s \<or> p' s) m err ok"
  by (auto simp: triple_def)

lemma fail_ready:
  "triple (candidate A r k q PsReady) (failOperation P i r e) (\<lambda>_. candidate A r k q PsReady) ok"
proof -
  have "triple (candidate A r k q PsReady) (abortCandidate P i r code) (\<lambda>_ _. False) (\<lambda>_. candidate A r k q PsReady)" for code
    by (auto simp: triple_def abortCandidate_def cancel_requested_def row_object_def op_simps candidate_def tracks_def CANCELABLE_def)
  moreover have "triple (candidate A r k q PsReady) (set_op i f) (\<lambda>_ _. False) (\<lambda>_. candidate A r k q PsReady)" for f
    by (simp add: triple_def set_op_def op_simps)
  ultimately show ?thesis
    unfolding failOperation_def thenE_def by (auto intro!: triple_if triple_throw bind_safe [of _ _ "candidate A r k q PsReady"])
qed

lemma run_triple:
  fixes q :: "(nat \<times> gkey \<times> product_state) option"
  assumes P: "accepting P" and k: "k \<notin> A" and q: "prev = map_option fst q" "\<And>p kp sp. q = Some (p, kp, sp) \<Longrightarrow> fst kp = fst k"
  defines "expected \<equiv> map_option (\<lambda>(p, kp, sp). snd kp) q"
  shows "triple (candidate A r k q PsPlanned) (runCandidate P i r ctx prev)
    (\<lambda>e s. e \<in> {EngPending, EngCrash} \<or> closed_candidate A r k q s \<or> (superseded_live q \<and> switched A r k q expected PsQuarantined s))
    (\<lambda>_. switched A r k q expected PsStoppedRetained)"
proof -
  let ?mid = "\<lambda>e s. still_open A r k q e s \<or> e = EngPending \<or> (superseded_live q \<and> switched A r k q expected PsQuarantined s)"
  have lift: "triple (candidate A r k q st) (bindE m f) ?mid ok"
    if "triple (candidate A r k q st) m (still_open A r k q) (\<lambda>_. candidate A r k q st')" "\<And>x. triple (candidate A r k q st') (f x) ?mid ok"
    for m :: "'x eng" and f and ok :: "unit \<Rightarrow> engine \<Rightarrow> bool" and st st'
    by (rule triple_bind [where mid = "\<lambda>_. candidate A r k q st'", OF triple_weaken [OF that(1)] that(2)]) auto
  have row: "triple (candidate A r k q PsPlanned) (bindE (row_object r) f) ?mid ok"
    if "\<And>g. triple (candidate A r k q PsPlanned) (f g) ?mid ok" for f and ok :: "unit \<Rightarrow> engine \<Rightarrow> bool"
    using that by (rule triple_row_object)
  have expected: "triple (candidate A r k q PsHealthchecking) (bindE (getsE (\<lambda>s. map_option (\<lambda>p. gn_generation (en_objs s ! p)) prev)) f) ?mid ok"
    if "triple (candidate A r k q PsHealthchecking) (f expected) ?mid ok" for f and ok :: "unit \<Rightarrow> engine \<Rightarrow> bool"
  proof -
    have "map_option (\<lambda>p. gn_generation (en_objs s ! p)) prev = expected" if "candidate A r k q PsHealthchecking s" for s
      using that by (cases q) (auto simp: q(1) expected_def candidate_def tracks_def gn_key_def)
    then show ?thesis using that unfolding triple_def by (simp add: op_simps)
  qed
  have last: "triple (\<lambda>s. pointer_expected A k expected \<and> candidate (pointer_moved A k expected) r k q PsReady s)
      (thenE (drain_superseded P i r prev) (set_op i (\<lambda>o1. o1\<lparr>or_state := AtState PsReady\<rparr>))) ?mid
      (\<lambda>_. switched A r k q expected PsStoppedRetained)"
  proof (rule triple_pure, rule triple_then)
    assume e: "pointer_expected A k expected"
    show "triple (candidate (pointer_moved A k expected) r k q PsReady) (drain_superseded P i r prev) ?mid
        (\<lambda>_. switched A r k q expected PsStoppedRetained)"
      by (rule triple_weaken [OF superseded_triple [OF P q]]) (auto simp: switched_def e)
    show "triple (switched A r k q expected PsStoppedRetained) (set_op i (\<lambda>o1. o1\<lparr>or_state := AtState PsReady\<rparr>)) ?mid
        (\<lambda>_. switched A r k q expected PsStoppedRetained)"
      by (simp add: triple_def set_op_def op_simps switched_def)
  qed
  have activate: "triple (candidate A r k q PsHealthchecking)
      (thenE (activate P r i m c expected)
        (thenE (drain_superseded P i r prev) (set_op i (\<lambda>o1. o1\<lparr>or_state := AtState PsReady\<rparr>)))) ?mid
      (\<lambda>_. switched A r k q expected PsStoppedRetained)" for m c
    by (rule triple_then [OF triple_weaken [OF activate_triple [OF P k, where expected = expected]] last]) auto
  show ?thesis
    unfolding runCandidate_def
  proof (rule triple_try [where mid = ?mid])
    show "triple (candidate A r k q PsPlanned)
      (bindE (row_object r) (\<lambda>g.
        bindE (fetchStage P r i (case rc_sref ctx of None \<Rightarrow> (gn_slug g, gn_version g) | Some sref \<Rightarrow> sref)) (\<lambda>fetched.
        bindE (verifyStage P r i fetched (rc_pinned ctx)) (\<lambda>m.
        thenE (stageGeneration P r i m (snd fetched))
       (bindE (spawnAndStart P r i m) (\<lambda>c.
        bindE (getsE (\<lambda>s. map_option (\<lambda>p. gn_generation (en_objs s ! p)) prev)) (\<lambda>expected.
        thenE (activate P r i m c expected)
       (thenE (drain_superseded P i r prev)
         (set_op i (\<lambda>o1. o1\<lparr>or_state := AtState PsReady\<rparr>)))))))))) ?mid (\<lambda>_. switched A r k q expected PsStoppedRetained)"
      by (rule row, rule lift [OF fetch_triple [OF P]], rule lift [OF verify_triple [OF P]], subst (1) thenE_def,
          rule lift [OF stage_triple [OF P]], rule lift [OF start_triple [OF P]], rule expected, rule activate)
    fix e :: eng_error assume e: "e \<noteq> EngPending"
    have "triple (still_open A r k q e) (failOperation P i r e)
       (\<lambda>e s. e \<in> {EngPending, EngCrash} \<or> closed_candidate A r k q s \<or> (superseded_live q \<and> switched A r k q expected PsQuarantined s))
       (\<lambda>_. switched A r k q expected PsStoppedRetained)"
      by (rule triple_weaken [OF fail_triple [OF P]]) auto
    moreover have "triple (\<lambda>s. superseded_live q \<and> switched A r k q expected PsQuarantined s) (failOperation P i r e)
       (\<lambda>e s. e \<in> {EngPending, EngCrash} \<or> closed_candidate A r k q s \<or> (superseded_live q \<and> switched A r k q expected PsQuarantined s))
       (\<lambda>_. switched A r k q expected PsStoppedRetained)"
      unfolding switched_def by (rule triple_pure, rule triple_pure, rule triple_weaken [OF fail_ready]) auto
    ultimately show "triple (?mid e) (failOperation P i r e)
       (\<lambda>e s. e \<in> {EngPending, EngCrash} \<or> closed_candidate A r k q s \<or> (superseded_live q \<and> switched A r k q expected PsQuarantined s))
       (\<lambda>_. switched A r k q expected PsStoppedRetained)"
      using triple_disj e by simp
  qed simp
qed

section \<open>Install and update\<close>

definition row_state :: "engine \<Rightarrow> gkey \<Rightarrow> product_state option" where
  "row_state s k = map_option gn_state (map_of (en_rows s) k)"

definition new_key :: "string \<Rightarrow> engine \<Rightarrow> gkey" where
  "new_key slug s = (slug, nextGeneration slug s)"

lemma fold_max_base: "b \<le> c \<Longrightarrow> b \<le> fold max xs (c :: nat)"
  by (induction xs arbitrary: c) (simp_all add: le_max_iff_disj)

lemma fold_max: "x \<in> set xs \<Longrightarrow> x \<le> fold max xs (b :: nat)"
proof (induction xs arbitrary: b)
  case (Cons y ys)
  then show ?case by (cases "x = y") (simp_all add: fold_max_base)
qed simp

lemma new_key_fresh:
  assumes "keyed gn_key (en_rows s)"
  shows "map_of (en_rows s) (new_key slug s) = None" "new_key slug s \<notin> active_keys s"
proof -
  have top: "gn_generation g \<le> fold max (map gn_generation (product_generations slug s)) 0"
    if "g \<in> set (arows (en_rows s))" "gn_slug g = slug" for g
    by (rule fold_max) (use that in \<open>auto simp: product_generations_def\<close>)
  have fresh: "gn_key g \<noteq> new_key slug s" if "g \<in> set (arows (en_rows s))" for g
  proof
    assume "gn_key g = new_key slug s"
    then have "gn_slug g = slug" "gn_generation g = fold max (map gn_generation (product_generations slug s)) 0 + 1"
      by (simp_all add: gn_key_def new_key_def nextGeneration_def)
    then show False using top [OF that] by simp
  qed
  show none: "map_of (en_rows s) (new_key slug s) = None"
  proof (rule ccontr)
    assume "map_of (en_rows s) (new_key slug s) \<noteq> None"
    then obtain g where g: "map_of (en_rows s) (new_key slug s) = Some g" by auto
    have key: "gn_key g = new_key slug s" using assms g by (rule keyed_get)
    have "g \<in> set (arows (en_rows s))" unfolding keyed_rows [OF assms] key by (rule g)
    with fresh key show False by blast
  qed
  then show "new_key slug s \<notin> active_keys s" by (simp add: active_keys_iff [OF assms])
qed

text \<open>The new generation is created beside the tracked one.\<close>

lemma plan_run:
  assumes P: "accepting P" and keyed: "keyed gn_key (en_rows s)"
    and q: "\<And>p kp sp. q = Some (p, kp, sp) \<Longrightarrow> tracks s p kp sp"
  shows "\<exists>t. planGen P pl v s = (Inr (length (en_objs s)), t)
     \<and> candidate (active_keys s) (length (en_objs s)) (new_key (pl_slug pl) s) q PsAbsent t"
proof -
  let ?n = "nextGeneration (pl_slug pl) s"
  define g where "g = \<lparr>gn_slug = pl_slug pl, gn_version = v, gn_generation = ?n, gn_state = PsAbsent, gn_active = False,
         gn_manifest_digest = pl_manifest pl, gn_archive_digest = pl_archive pl, gn_staged_dir = None, gn_data_dir = None,
         gn_pid = None, gn_dependencies = [], gn_activation_indexed = False, gn_projected = False, gn_snapshot_verified = False,
         gn_irreversible_data = False, gn_capabilities_withdrawn = False, gn_starts = []\<rparr>"
  have key: "gn_key g = new_key (pl_slug pl) s" and g: "gn_state g = PsAbsent" "\<not> gn_active g"
    by (simp_all add: g_def gn_key_def new_key_def)
  define t where "t = (tick (s\<lparr>en_rows := aput (gn_key g) g (en_rows s)\<rparr>))\<lparr>en_objs := en_objs s @ [g]\<rparr>"
  have run: "planGen P pl v s = (Inr (length (en_objs s)), t)"
    using P by (simp add: planGen_def create_row_def op_simps write_rows_def accepting_def t_def g_def [symmetric])
  have rows: "en_rows t = aput (gn_key g) g (en_rows s)" and objs: "en_objs t = en_objs s @ [g]" by (simp_all add: t_def)
  have keyed_t: "keyed gn_key (en_rows t)" unfolding rows using keyed by (rule keyed_aput)
  note fresh = new_key_fresh [OF keyed, of "pl_slug pl"]
  have "x \<in> active_keys t \<longleftrightarrow> x \<in> active_keys s" for x
    unfolding active_keys_iff [OF keyed_t] active_keys_iff [OF keyed] rows using fresh g(2) key by auto
  then have "active_keys t = active_keys s" by blast
  moreover have "tracks t (length (en_objs s)) (new_key (pl_slug pl) s) PsAbsent"
    unfolding tracks_def rows objs using key g by simp
  moreover have "p \<noteq> length (en_objs s) \<and> kp \<noteq> new_key (pl_slug pl) s \<and> tracks t p kp sp" if "q = Some (p, kp, sp)" for p kp sp
    using q [OF that] fresh key unfolding tracks_def rows objs by (auto simp: nth_append)
  ultimately show ?thesis using run keyed_t unfolding candidate_def by (auto split: option.split)
qed

lemma planned_run:
  assumes P: "accepting P" and keyed: "keyed gn_key (en_rows s)"
    and q: "\<And>p kp sp. q = Some (p, kp, sp) \<Longrightarrow> tracks s p kp sp \<and> fst kp = pl_slug pl" "prev = map_option fst q"
    and run: "bindE (planGen P pl v) (\<lambda>r. thenE (transition P r PsPlanned i d) (thenE (runCandidate P i r ctx prev) (returnE i))) s = (res, t)"
  shows "res \<in> {Inl EngPending, Inl EngCrash}
    \<or> (\<exists>e r. res = Inl e \<and> (closed_candidate (active_keys s) r (new_key (pl_slug pl) s) q t
         \<or> superseded_live q \<and> switched (active_keys s) r (new_key (pl_slug pl) s) q (map_option (\<lambda>(p, kp, sp). snd kp) q) PsQuarantined t))
    \<or> (\<exists>r. res = Inr i \<and> switched (active_keys s) r (new_key (pl_slug pl) s) q (map_option (\<lambda>(p, kp, sp). snd kp) q) PsStoppedRetained t)"
proof -
  let ?A = "active_keys s" and ?k = "new_key (pl_slug pl) s" and ?r = "length (en_objs s)"
  obtain u where u: "planGen P pl v s = (Inr ?r, u)" "candidate ?A ?r ?k q PsAbsent u"
    using plan_run [OF P keyed] q(1) by blast
  have k: "?k \<notin> ?A" by (rule new_key_fresh(2) [OF keyed])
  have slug: "fst kp = fst ?k" if "q = Some (p, kp, sp)" for p kp sp using q(1) [OF that] by (simp add: new_key_def)
  have "triple (candidate ?A ?r ?k q PsAbsent)
     (thenE (transition P ?r PsPlanned i d) (thenE (runCandidate P i ?r ctx prev) (returnE i)))
     (\<lambda>e s. e \<in> {EngPending, EngCrash} \<or> closed_candidate ?A ?r ?k q s
        \<or> superseded_live q \<and> switched ?A ?r ?k q (map_option (\<lambda>(p, kp, sp). snd kp) q) PsQuarantined s)
     (\<lambda>x s. x = i \<and> switched ?A ?r ?k q (map_option (\<lambda>(p, kp, sp). snd kp) q) PsStoppedRetained s)"
    by (subst thenE_def, rule bind_transition [OF P listed(13)], rule triple_then [OF run_triple [OF P k q(2) slug]])
      (auto intro: triple_return)
  moreover have "thenE (transition P ?r PsPlanned i d) (thenE (runCandidate P i ?r ctx prev) (returnE i)) u = (res, t)"
    using run u(1) by (simp add: op_simps(1))
  ultimately show ?thesis using u(2) by (cases res) (auto dest: tripleD)
qed

lemma candidate_row: "candidate A r k q st s \<Longrightarrow> row_state s k = Some st"
  by (auto simp: candidate_def tracks_def row_state_def)

lemma candidate_other: "candidate A r k (Some (p, kp, sp)) st s \<Longrightarrow> row_state s kp = Some sp"
  by (auto simp: candidate_def tracks_def row_state_def)

lemma candidate_active: "candidate A r k q st s \<Longrightarrow> active_keys s = A"
  by (simp add: candidate_def)

lemma closed_facts:
  assumes "closed_candidate A r k q t"
  shows "active_keys t = A" "\<exists>st\<in>CLOSED_STATES. row_state t k = Some st"
proof -
  obtain st where "st \<in> CLOSED_STATES" "candidate A r k q st t" using assms by (auto simp: closed_candidate_def)
  then show "active_keys t = A" "\<exists>st\<in>CLOSED_STATES. row_state t k = Some st" by (auto dest: candidate_row candidate_active)
qed

lemma switched_facts:
  assumes "switched A r k q expected st t"
  shows "pointer_expected A k expected" "active_keys t = pointer_moved A k expected" "row_state t k = Some PsReady"
    "q = Some (p, kp, sp) \<Longrightarrow> row_state t kp = Some (if sp \<in> {PsReady, PsDegraded} then st else sp)"
proof -
  have c: "candidate (pointer_moved A k expected) r k
         (map_option (\<lambda>(p, kp, sp). (p, kp, if sp \<in> {PsReady, PsDegraded} then st else sp)) q) PsReady t"
    using assms by (simp add: switched_def)
  show "pointer_expected A k expected" using assms by (simp add: switched_def)
  show "active_keys t = pointer_moved A k expected" using c by (rule candidate_active)
  show "row_state t k = Some PsReady" using c by (rule candidate_row)
  assume "q = Some (p, kp, sp)"
  with c have "candidate (pointer_moved A k expected) r k (Some (p, kp, if sp \<in> {PsReady, PsDegraded} then st else sp)) PsReady t"
    by (simp only: option.map prod.case)
  then show "row_state t kp = Some (if sp \<in> {PsReady, PsDegraded} then st else sp)" by (rule candidate_other)
qed

lemma the_operation_run: "\<exists>i u. the_operation existing kd pl s = (Inr i, u) \<and> en_rows u = en_rows s \<and> en_objs u = en_objs s"
  by (cases existing) (simp_all add: the_operation_def newOperation_def op_simps)

lemma same_rows_facts:
  assumes "en_rows u = en_rows s"
  shows "active_keys u = active_keys s" "new_key slug u = new_key slug s" "active_row slug u = active_row slug s"
  using assms by (simp_all add: active_keys_def new_key_def nextGeneration_def active_row_def product_generations_def)

lemma active_row_found:
  assumes "active_row slug s = Some g"
  shows "g \<in> set (arows (en_rows s))" "gn_slug g = slug"
proof -
  have "g \<in> set (product_generations slug s)" using assms unfolding active_row_def by (auto simp: find_Some_iff)
  then show "g \<in> set (arows (en_rows s))" "gn_slug g = slug" by (auto simp: product_generations_def)
qed

text \<open>
  C16. An install is all or nothing, with ports that accept every write and nothing running in between.  If it fails,
  no active pointer has changed and its generation, a new one, is cancelled, rejected, stopped or quarantined.  If it
  succeeds, the product had no active generation, and the new one is active and READY.  (A port that never answers
  leaves the call pending; the injected crash of the tests is not handled by design.)
\<close>

theorem install_all_or_nothing:
  assumes P: "accepting P" and keyed: "keyed gn_key (en_rows s)" and run: "install P ctx existing s = (res, t)"
  defines "slug \<equiv> pl_slug (rc_plan ctx)"
  defines "k \<equiv> new_key slug s"
  shows "row_state s k = None \<and>
    (case res of
       Inl e \<Rightarrow> e \<in> {EngPending, EngCrash} \<or>
         active_keys t = active_keys s \<and> (\<exists>st\<in>{PsCancelled, PsRejected, PsStoppedRetained, PsQuarantined}. row_state t k = Some st)
     | Inr _ \<Rightarrow> (\<forall>a\<in>active_keys s. fst a \<noteq> slug) \<and> active_keys t = insert k (active_keys s) \<and> row_state t k = Some PsReady)"
proof -
  obtain i u where u: "the_operation existing OpInstall (rc_plan ctx) s = (Inr i, u)" "en_rows u = en_rows s" "en_objs u = en_objs s"
    using the_operation_run by blast
  have "bindE (planGen P (rc_plan ctx) (the (pl_to (rc_plan ctx)))) (\<lambda>r. thenE (transition P r PsPlanned i (PlanDetail (rc_plan ctx)))
      (thenE (runCandidate P i r ctx None) (returnE i))) u = (res, t)"
    using run u(1) by (simp add: install_def Let_def op_simps(1))
  from planned_run [OF P _ _ _ this, of None] keyed u(2)
  consider (unhandled) "res \<in> {Inl EngPending, Inl EngCrash}"
    | (failed) e r where "res = Inl e" "closed_candidate (active_keys s) r k None t"
    | (success) r where "res = Inr i" "switched (active_keys s) r k None None PsStoppedRetained t"
    by (auto simp: same_rows_facts [OF u(2)] k_def slug_def superseded_live_def)
  then have "case res of
       Inl e \<Rightarrow> e \<in> {EngPending, EngCrash} \<or>
         active_keys t = active_keys s \<and> (\<exists>st\<in>{PsCancelled, PsRejected, PsStoppedRetained, PsQuarantined}. row_state t k = Some st)
     | Inr _ \<Rightarrow> (\<forall>a\<in>active_keys s. fst a \<noteq> slug) \<and> active_keys t = insert k (active_keys s) \<and> row_state t k = Some PsReady"
  proof cases
    case failed
    with closed_facts [OF failed(2)] show ?thesis by (simp add: CLOSED_STATES_def)
  next
    case success
    with switched_facts(1-3) [OF success(2)] show ?thesis by (simp add: pointer_expected_def pointer_moved_def k_def new_key_def)
  qed auto
  then show ?thesis using new_key_fresh(1) [OF keyed] by (simp add: row_state_def k_def)
qed

text \<open>
  C3. An update never leaves the product without its version.  It is refused without a change unless the active
  version is the one the plan starts from.  Otherwise, with ports that accept every write and nothing running in
  between, either it fails before the pointer moves: the old generation is as it was, still active, and the new one
  is closed; or the pointer moves from the old generation to the new one, which is READY, and the old one is
  stopped, or quarantined when it could not be drained (then the call reports the error although the update took
  effect).
\<close>

theorem update_all_or_nothing:
  assumes P: "accepting P" and keyed: "keyed gn_key (en_rows s)" and run: "update_product P ctx existing s = (res, t)"
    and old: "active_row (pl_slug (rc_plan ctx)) s = Some old"
  defines "k \<equiv> new_key (pl_slug (rc_plan ctx)) s"
  shows "if pl_from (rc_plan ctx) \<noteq> Some (gn_version old) then res = Inl (rpc PLAN_STALE None) \<and> en_rows t = en_rows s
    else row_state s k = None
      \<and> (res \<in> {Inl EngPending, Inl EngCrash}
         \<or> (\<exists>e. res = Inl e) \<and> active_keys t = active_keys s \<and> row_state t (gn_key old) = Some (gn_state old)
             \<and> (\<exists>st\<in>{PsCancelled, PsRejected, PsStoppedRetained, PsQuarantined}. row_state t k = Some st)
         \<or> active_keys t = insert k (active_keys s - {gn_key old}) \<and> row_state t k = Some PsReady
             \<and> row_state t (gn_key old) = Some (if gn_state old \<notin> {PsReady, PsDegraded} then gn_state old
                 else case res of Inr _ \<Rightarrow> PsStoppedRetained | Inl _ \<Rightarrow> PsQuarantined))"
proof -
  let ?pl = "rc_plan ctx"
  obtain i u where u: "the_operation existing OpUpdate ?pl s = (Inr i, u)" "en_rows u = en_rows s" "en_objs u = en_objs s"
    using the_operation_run by blast
  define p where "p = length (en_objs u)"
  define v where "v = u\<lparr>en_objs := en_objs u @ [old]\<rparr>"
  have rows: "en_rows v = en_rows s" using u(2) by (simp add: v_def)
  have load: "load_row (active_row (pl_slug ?pl)) u = (Inr (Some p), v)"
    using old by (simp add: load_row_def same_rows_facts(3) [OF u(2)] p_def v_def)
  have at_p: "en_objs v ! p = old" "p < length (en_objs v)" by (simp_all add: p_def v_def)
  have plan: "update_product P ctx existing s = thenE (if pl_from ?pl \<noteq> Some (gn_version old) then refuse_operation i PLAN_STALE (Some ''from'') None else returnE ())
      (bindE (planGen P ?pl (the (pl_to ?pl))) (\<lambda>r. thenE (transition P r PsPlanned i (PlanDetail ?pl))
        (thenE (runCandidate P i r ctx (Some p)) (returnE i)))) v"
    using u(1) load at_p by (simp add: update_product_def Let_def op_simps(1) gets_apply eq_commute [of "pl_from ?pl"])
  show ?thesis
  proof (cases "pl_from ?pl = Some (gn_version old)")
    case False
    then have "update_product P ctx existing s = (Inl (rpc PLAN_STALE None), snd (set_op i (\<lambda>o1. o1\<lparr>or_state := FailedWith PLAN_STALE,
        or_error := Some (PLAN_STALE, False, Some ''from'')\<rparr>) v))"
      unfolding plan by (simp add: op_simps refuse_operation_def set_op_def)
    then show ?thesis using False run rows by (simp add: set_op_def op_simps)
  next
    case True
    have stored: "old \<in> set (arows (en_rows s))" and slug: "gn_slug old = pl_slug ?pl" using active_row_found [OF old] by simp_all
    then have "map_of (en_rows s) (gn_key old) = Some old" using keyed by (simp add: keyed_rows)
    then have track: "tracks v p (gn_key old) (gn_state old)" unfolding tracks_def rows using at_p by simp
    let ?q = "Some (p, gn_key old, gn_state old)" and ?A = "active_keys s"
    have run_v: "bindE (planGen P ?pl (the (pl_to ?pl))) (\<lambda>r. thenE (transition P r PsPlanned i (PlanDetail ?pl))
        (thenE (runCandidate P i r ctx (Some p)) (returnE i))) v = (res, t)"
      using run True unfolding plan by (simp add: op_simps(2) return_apply)
    have kv: "keyed gn_key (en_rows v)" and tv: "tracks v p (gn_key old) (gn_state old) \<and> fst (gn_key old) = pl_slug ?pl"
      using keyed track slug by (simp_all add: rows gn_key_def)
    have fresh: "row_state s k = None" using new_key_fresh(1) [OF keyed] by (simp add: row_state_def k_def)
    have moved: "pointer_moved ?A k (Some (snd (gn_key old))) = insert k (?A - {gn_key old})"
      using slug by (simp add: pointer_moved_def k_def new_key_def gn_key_def)
    have after: "active_keys t = insert k (?A - {gn_key old}) \<and> row_state t k = Some PsReady
        \<and> row_state t (gn_key old) = Some (if gn_state old \<in> {PsReady, PsDegraded} then stopped else gn_state old)"
      if "switched ?A r k ?q (Some (snd (gn_key old))) stopped t" for r stopped
      using switched_facts(2,3) [OF that] switched_facts(4) [OF that refl] moved by simp
    from planned_run [OF P kv _ _ run_v, of ?q] tv
    consider (unhandled) "res \<in> {Inl EngPending, Inl EngCrash}"
      | (failed) e r where "res = Inl e" "closed_candidate ?A r k ?q t"
      | (half) e r where "res = Inl e" "superseded_live ?q" "switched ?A r k ?q (Some (snd (gn_key old))) PsQuarantined t"
      | (success) r where "res = Inr i" "switched ?A r k ?q (Some (snd (gn_key old))) PsStoppedRetained t"
      by (auto simp: same_rows_facts [OF rows] k_def)
    then have "res \<in> {Inl EngPending, Inl EngCrash}
         \<or> (\<exists>e. res = Inl e) \<and> active_keys t = ?A \<and> row_state t (gn_key old) = Some (gn_state old)
             \<and> (\<exists>st\<in>{PsCancelled, PsRejected, PsStoppedRetained, PsQuarantined}. row_state t k = Some st)
         \<or> active_keys t = insert k (?A - {gn_key old}) \<and> row_state t k = Some PsReady
             \<and> row_state t (gn_key old) = Some (if gn_state old \<notin> {PsReady, PsDegraded} then gn_state old
                 else case res of Inr _ \<Rightarrow> PsStoppedRetained | Inl _ \<Rightarrow> PsQuarantined)"
    proof cases
      case failed
      then obtain st where "candidate ?A r k ?q st t" by (auto simp: closed_candidate_def)
      then have "row_state t (gn_key old) = Some (gn_state old)" by (rule candidate_other)
      with closed_facts [OF failed(2)] failed(1) show ?thesis by (simp add: CLOSED_STATES_def)
    next
      case half
      with after [OF half(3)] show ?thesis by auto
    next
      case success
      with after [OF success(2)] show ?thesis by auto
    qed simp
    with True fresh show ?thesis by simp
  qed
qed

lemmas run_defs = install_def update_product_def the_operation_def newOperation_def planGen_def create_row_def write_rows_def transition_def
  row_object_def journalMutation_def patch_both_def patch_row_def set_object_def now_ms_def set_op_def push_event_def receiptSink_def
  runCandidate_def fetchStage_def verifyStage_def checkCancel_def cancel_requested_def await_port_def sync_port_def tryE_def
  failOperation_def abortCandidate_def others_def tick_def nextGeneration_def product_generations_def arows_def gn_key_def
  transitionFor_def PRODUCT_TRANSITIONS_def CANCELABLE_def load_row_def active_row_def

lemma still_ports_accept: "accepting still_ports"
  by (simp add: accepting_def still_ports_def)

lemma sample_install: "\<exists>t. install still_ports sample_context None empty_engine = (Inl (rpc SIGNATURE_INVALID None), t)"
  by (simp add: run_defs op_simps still_ports_def sample_context_def sample_plan_def empty_engine_def Let_def)

theorem install_all_or_nothing_witness:
  "\<exists>t. install still_ports sample_context None empty_engine = (Inl (rpc SIGNATURE_INVALID None), t) \<and> active_keys t = {}
     \<and> (\<exists>st\<in>{PsCancelled, PsRejected, PsStoppedRetained, PsQuarantined}. row_state t (''p'', 1) = Some st)"
proof -
  obtain t where t: "install still_ports sample_context None empty_engine = (Inl (rpc SIGNATURE_INVALID None), t)"
    using sample_install by blast
  have "new_key ''p'' empty_engine = (''p'', 1)"
    by (simp add: new_key_def nextGeneration_def product_generations_def empty_engine_def arows_def)
  then show ?thesis
    using install_all_or_nothing [OF still_ports_accept _ t] t
    by (simp add: sample_context_def sample_plan_def empty_engine_def active_keys_def arows_def)
qed

definition sample_generation :: gen_row where
  "sample_generation = \<lparr>gn_slug = ''p'', gn_version = ''0.9.0'', gn_generation = 1, gn_state = PsReady, gn_active = True, gn_manifest_digest = ''m'',
     gn_archive_digest = ''a'', gn_staged_dir = Some ''d'', gn_data_dir = Some ''e'', gn_pid = Some 7, gn_dependencies = [],
     gn_activation_indexed = True, gn_projected = True, gn_snapshot_verified = False, gn_irreversible_data = False,
     gn_capabilities_withdrawn = False, gn_starts = [0]\<rparr>"

definition sample_engine :: engine where
  "sample_engine = empty_engine\<lparr>en_rows := [((''p'', 1), sample_generation)]\<rparr>"

definition update_context :: run_context where
  "update_context = sample_context\<lparr>rc_plan := sample_plan\<lparr>pl_from := Some ''0.9.0''\<rparr>\<rparr>"

text \<open>A package whose only file is its adapter, the entry and the schema at once, and ports with a healthy child.\<close>

definition adapter_path :: text16 where
  "adapter_path = [0x70, 0x61, 0x63, 0x6B, 0x61, 0x67, 0x65, 0x2F, 0x67, 0x61, 0x74, 0x65, 0x77, 0x61, 0x79, 0x2D, 0x61, 0x64, 0x61, 0x70, 0x74, 0x65, 0x72, 0x2E, 0x6A, 0x73, 0x6F, 0x6E]"

definition adapter_archive :: "nat list" where
  "adapter_archive = sample_header adapter_path [0x36, 0x34, 0x34] [] [0x36, 0x32, 0x36, 0x31] 0x30 @ replicate 1024 0"

lemma adapter_header:
  "readHeader (sample_header adapter_path [0x36, 0x34, 0x34] [] [0x36, 0x32, 0x36, 0x31] 0x30 @ r) =
     Inr \<lparr>th_name = adapter_path, th_mode = 420, th_size = 0, th_typeflag = 0x30, th_linkname = [], th_prefix = []\<rparr>"
  by (simp add: adapter_path_def readHeader_def checksumOk_def sample_fields zero_padded_def parseOctalField_def readName_def MAGICS_def MAX_SAFE_def
      andThen_def check_def utf16_of_def del: take_append drop_append)

definition adapter_entry :: parsed_entry where
  "adapter_entry = \<lparr>pe_path = adapter_path, pe_kind = FileEntry, pe_mode = 420, pe_size = 0, pe_dataOffset = 512\<rparr>"

lemma adapter_scanned: "scanArchive (\<lambda>s. s) adapter_archive = Inr [adapter_entry]"
proof -
  let ?z = "replicate 1024 (0::nat)" and ?st = "\<lparr>sc_entries = [], sc_seen = [], sc_claimed = [], sc_expanded = 0\<rparr>"
  let ?h = "sample_header adapter_path [0x36, 0x34, 0x34] [] [0x36, 0x32, 0x36, 0x31] 0x30"
  let ?st1 = "\<lparr>sc_entries = [adapter_entry], sc_seen = [([0x70, 0x61, 0x63, 0x6B, 0x61, 0x67, 0x65], [0x70, 0x61, 0x63, 0x6B, 0x61, 0x67, 0x65]), (adapter_path, adapter_path)],
                sc_claimed = [adapter_path], sc_expanded = 0\<rparr>"
  have e1: "scanEntry (\<lambda>s. s) 0 (?h @ [] @ ?z) ?st =
        Inr (\<lparr>th_name = adapter_path, th_mode = 420, th_size = 0, th_typeflag = 0x30, th_linkname = [], th_prefix = []\<rparr>, ?st1)"
    by (simp add: scanEntry_def adapter_header) (simp add: scan_steps modes_allowed adapter_entry_def adapter_path_def is_letter16_def)
  have "scan_headers (\<lambda>s. s) 0 (?h @ [] @ ?z) ?st = scan_headers (\<lambda>s. s) (0 + 512 + length ([] :: nat list)) ?z ?st1"
    by (rule scan_step [where x = "0x70", OF _ _ _ e1]) (simp_all add: sample_header_length adapter_path_def, simp add: sample_header_def zero_padded_def)
  then have "scan_headers (\<lambda>s. s) 0 adapter_archive ?st = Inr [adapter_entry]"
    by (simp add: adapter_archive_def scan_end)
  moreover have "length adapter_archive = 1536" by (simp add: adapter_archive_def adapter_path_def sample_header_length)
  ultimately show ?thesis by (simp add: scanArchive_def ARCHIVE_COMPRESSED_BYTES_def BLOCK_def andThen_def check_def)
qed


definition sample_manifest :: product_manifest where
  "sample_manifest = \<lparr>pm_slug = ''p'', pm_entry = ''gateway-adapter.json'', pm_config_digest = ''c'', pm_startup_timeout = 30000,
     pm_sandbox = ''b'', pm_dependencies = []\<rparr>"

definition working_ports :: engine_ports where
  "working_ports = still_ports\<lparr>po_fetch := \<lambda>_ _. Inr (JNull, adapter_archive),
     po_verify := \<lambda>_ _ _ _ _. Inr \<lparr>vr_manifest = sample_manifest, vr_manifestDigest = ''m'', vr_archiveDigest = ''a''\<rparr>,
     po_sandboxes := \<lambda>_. [''b''], po_sha := \<lambda>_. ''c'',
     po_readJson := \<lambda>_. Some (JObj [(''contract'', JStr ''gateway-adapter/1''), (''entry'', JStr ''gateway-adapter.json''),
       (''config_schema'', JStr ''gateway-adapter.json'')]),
     po_spawn := \<lambda>_. Inr (Some 8, True),
     po_describe := \<lambda>_. Inr \<lparr>ds_contract = ''gateway-adapter/1'', ds_product = ''p'', ds_config_digest = ''c''\<rparr>,
     po_configure := \<lambda>_. Inr True, po_start := \<lambda>_. Inr True, po_drain := \<lambda>_. Inr 0, po_stop := \<lambda>_. Inr (),
     po_health := \<lambda>_ _. Some \<lparr>pb_liveness = True, pb_readiness = True\<rparr>\<rparr>"

lemma adapter_extracted:
  "extractArchive (\<lambda>s. s) (\<lambda>_. ''c'') adapter_archive =
     Inr [(\<lparr>xe_path = adapter_path, xe_kind = FileEntry, xe_bytes = 0, xe_mode = 420, xe_digest = ''c''\<rparr>, [])]"
  by (simp add: extractArchive_def adapter_scanned andThen_def extractEntry_def adapter_entry_def)

lemma working_gate:
  "awaitReadiness \<lparr>go_successes = None, go_intervalMs = None, go_startupTimeoutMs = Some 30000, go_failureLimit = None\<rparr>
     (\<lambda>n. Some \<lparr>pb_liveness = True, pb_readiness = True\<rparr>) (\<lambda>n. 1000 * int n) = Some (Inr \<lparr>rd_checks = 3, rd_elapsedMs = 3000\<rparr>)"
  by (simp add: awaitReadiness_def readiness_loop.simps ready_at_def gate_need_def gate_timeout_def)


lemmas success_defs = activate_def commitActivation_def health_gate_def casActive_def startProbes_def drain_superseded_def drainGeneration_def
  stopChild_def spawnAndStart_def spawnClient_def stageGeneration_def bindStagedPackage_def rpc_sum_def journal_row_def handshake_def
  describeChecked_def client_call_def package_file_def point_active_def finallyE_def unless_refused_def

lemma working_ports_accept: "accepting working_ports"
  by (simp add: accepting_def working_ports_def still_ports_def)

lemma sample_update: "\<exists>i t. update_product working_ports update_context None sample_engine = (Inr i, t)"
  by (simp add: run_defs success_defs op_simps working_ports_def still_ports_def update_context_def sample_context_def sample_plan_def
      empty_engine_def sample_engine_def sample_generation_def sample_manifest_def Let_def adapter_extracted working_gate adapter_path_def
      utf16_of_def jget_def)

text \<open>An update that succeeds: the new generation is active and the old one stopped.\<close>

theorem update_all_or_nothing_witness:
  "\<exists>i t. update_product working_ports update_context None sample_engine = (Inr i, t) \<and> active_keys t = {(''p'', 2)}
     \<and> row_state t (''p'', 2) = Some PsReady \<and> row_state t (''p'', 1) = Some PsStoppedRetained"
proof -
  obtain i t where t: "update_product working_ports update_context None sample_engine = (Inr i, t)"
    using sample_update by blast
  have keyed: "keyed gn_key (en_rows sample_engine)" by (simp add: keyed_def sample_engine_def sample_generation_def gn_key_def)
  have old: "active_row (pl_slug (rc_plan update_context)) sample_engine = Some sample_generation"
    by (simp add: active_row_def product_generations_def sample_engine_def update_context_def sample_context_def sample_plan_def
        arows_def sample_generation_def)
  have "new_key ''p'' sample_engine = (''p'', 2)"
    by (simp add: new_key_def nextGeneration_def product_generations_def sample_engine_def arows_def sample_generation_def)
  moreover have "active_keys sample_engine = {(''p'', 1)}"
    by (auto simp: active_keys_def sample_engine_def arows_def sample_generation_def gn_key_def)
  ultimately show ?thesis
    using update_all_or_nothing [OF working_ports_accept keyed t old] t
    by (auto simp: update_context_def sample_context_def sample_plan_def sample_generation_def gn_key_def)
qed

lemmas uninstall_defs = uninstall_def removeGeneration_def uninstall_target_def dependentsPresent_def installedView_def all_rows_def refuse_operation_def

lemmas exit_defs = child_exit_def onChildExit_def childCrashed_def restart_def close_client_def recent_starts_def restart_delay_def
  RESTART_MAX_STARTS_def RESTART_WINDOW_MS_def RESTART_DELAYS_MS_def LIVE_def

definition uninstall_context :: run_context where
  "uninstall_context = sample_context\<lparr>rc_plan := sample_plan\<lparr>pl_from := Some ''1.0.0'', pl_to := None\<rparr>\<rparr>"

definition installed_engine :: engine where
  "installed_engine = sample_engine\<lparr>en_objs := [sample_generation], en_clients := [((''p'', 1), 0)], en_spawned := 1, en_watch := [(0, 0)],
     en_manifests := [((''p'', 1), sample_manifest)]\<rparr>"

text \<open>
  The exit of a child that an uninstall has stopped revives the removed product: the listener watches the row object
  of the start, which the uninstall, with an object of its own, left at READY.  The restart then ends with its new
  child running and the row, removed before, at HEALTHCHECKING, which cannot become QUARANTINED.
\<close>

lemma stopped_child_revives_a_removed_product:
  "\<exists>t u. uninstall working_ports uninstall_context None installed_engine = (Inr 0, t) \<and> row_state t (''p'', 1) = Some PsRemoved
     \<and> child_exit working_ports 0 None (Some ''SIGTERM'') t = (Inl (rpc STATE_TRANSITION None), u)
     \<and> row_state u (''p'', 1) = Some PsHealthchecking \<and> map_of (en_clients u) (''p'', 1) = Some 1"
  by (simp add: run_defs success_defs uninstall_defs exit_defs row_state_def op_simps working_ports_def still_ports_def uninstall_context_def
      sample_context_def sample_plan_def empty_engine_def sample_manifest_def Let_def sample_engine_def installed_engine_def sample_generation_def working_gate)

end
