(* ===== verification/Product_Resolve.thy ===== *)
theory Product_Resolve
  imports Semver_Grammar Crypto_Text Protocol Lifecycle_States "HOL-Library.Multiset"
begin

text \<open>
  Model of \<open>packages/core/src/v2/lifecycle/resolve.ts\<close>: the dependency resolver of a plan.  A \<open>Map\<close> from slugs to
  manifests is an association list.  The depth-first walk over the required and optional dependencies runs on fuel,
  the depth of the call stack; \<open>resolution_decides\<close> in \<open>Product_Resolve_Facts\<close> shows that two more than the number
  of slugs is always enough.  SHA-256 is the one of \<open>node_crypto\<close>.  \<open>Unfinished\<close>, a walk out of fuel, is no outcome of the program.
\<close>

section \<open>The dispositions of the edges\<close>

record edge_disposition =
  ed_edge :: string
  ed_producer :: string
  ed_consumer :: string
  ed_code :: "error_code option"
  ed_blocksRequired :: bool

abbreviation edge :: "string \<Rightarrow> string \<Rightarrow> string \<Rightarrow> error_code option \<Rightarrow> bool \<Rightarrow> edge_disposition" where
  "edge e p c code b \<equiv> \<lparr>ed_edge = e, ed_producer = p, ed_consumer = c, ed_code = code, ed_blocksRequired = b\<rparr>"

definition EDGE_DISPOSITIONS :: "edge_disposition list" where
  "EDGE_DISPOSITIONS = [
     edge ''E01'' ''LexTier'' ''VekQuorum'' None False,
     edge ''E02'' ''LexScope'' ''LexTier'' (Some UNSUPPORTED_COMPOSITION) True,
     edge ''E03'' ''LexTier'' ''LexSieve'' None False,
     edge ''E04'' ''LexScope'' ''LexSieve'' None False,
     edge ''E05'' ''LexShield'' ''LexTier'' (Some CAP_ADAPTER_UNAVAILABLE) False,
     edge ''E06'' ''LexShield'' ''LexSieve'' None False,
     edge ''E07'' ''VekInbox'' ''LexTier'' None False,
     edge ''E08'' ''Herald'' ''LexScope'' None False,
     edge ''E09'' ''Herald'' ''World'' None False,
     edge ''E10'' ''Herald'' ''Mint'' None False,
     edge ''E11'' ''Herald'' ''Treaty'' None False,
     edge ''E12'' ''VekQuorum'' ''Charter'' None False,
     edge ''E13'' ''VekQuorum'' ''Bedrock'' None False,
     edge ''E14'' ''Bedrock'' ''Charter'' None False,
     edge ''E15'' ''Bedrock'' ''World'' None False,
     edge ''E16'' ''Charter'' ''World'' None False,
     edge ''E17'' ''Charter'' ''Mint'' (Some UNSUPPORTED_COMPOSITION) True,
     edge ''E18'' ''World'' ''Proof'' None False,
     edge ''E19'' ''Mint'' ''World'' None False,
     edge ''E20'' ''Mint'' ''Treaty'' None False,
     edge ''E21'' ''Treaty'' ''Covenant'' (Some UNSUPPORTED_COMPOSITION) True,
     edge ''E22'' ''VekQuorum'' ''Commit'' None False,
     edge ''E23'' ''Commit'' ''Proof'' None False,
     edge ''E24'' ''Seatbelt'' ''Proof'' None False,
     edge ''E25'' ''Watch'' ''Proof'' None False,
     edge ''E26'' ''Charter'' ''Proof'' (Some OBJECT_LIMIT) False,
     edge ''E27'' ''VisLineage'' ''Proof'' None False,
     edge ''E28'' ''LexWatt'' ''Trellis'' (Some CAP_ADAPTER_UNAVAILABLE) True,
     edge ''E29'' ''Trellis'' ''Weather'' None False,
     edge ''E30'' ''VisLineage'' ''Weather'' None False,
     edge ''E31'' ''Weather'' ''Watch'' None False,
     edge ''E32'' ''Watch'' ''Weather'' None False,
     edge ''E33'' ''Watch'' ''Seatbelt'' None False,
     edge ''E34'' ''ForgeVerity'' ''Sunlight'' None False,
     edge ''E35'' ''VisLineage'' ''Sunlight'' (Some PROVENANCE_INVALID) False,
     edge ''E36'' ''EvalSeal'' ''Weather'' None False,
     edge ''E37'' ''Weather'' ''EvalSeal'' None False,
     edge ''E38'' ''Mint'' ''Bond'' (Some MINT_EXCLUSIVE_HOLD_UNAVAILABLE) True,
     edge ''E39'' ''Bedrock'' ''Bond'' None False,
     edge ''E40'' ''Trellis'' ''Bond'' None False,
     edge ''E41'' ''VekRevert'' ''Bond'' (Some CAP_ADAPTER_UNAVAILABLE) False,
     edge ''E42'' ''GhostSession'' ''Proof'' None False,
     edge ''E43'' ''PolyCite'' ''Proof'' None False,
     edge ''E44'' ''EvalSeal'' ''Proof'' None False,
     edge ''E45'' ''LexWatt'' ''Proof'' None False,
     edge ''E46'' ''ForgeVerity'' ''Proof'' None False,
     edge ''E47'' ''Sunlight'' ''Proof'' None False,
     edge ''E48'' ''CIS Guardian'' ''Proof'' None False,
     edge ''E49'' ''LexTier'' ''GhostSession'' (Some UNSUPPORTED_COMPOSITION) True,
     edge ''E50'' ''PolyCite'' ''PolyBrain/VisBoard'' None False,
     edge ''E51'' ''ForgeDistill'' ''ForgeVerity'' None False,
     edge ''E52'' ''EvalHarness'' ''EvalSeal'' (Some ENTITLEMENT_REQUIRED) False,
     edge ''E53'' ''World'' ''Seatbelt'' (Some UNSUPPORTED_COMPOSITION) False]"

definition edgeDisposition :: "string \<Rightarrow> edge_disposition option" where
  "edgeDisposition e = find (\<lambda>d. ed_edge d = e) (rev EDGE_DISPOSITIONS)"

section \<open>Manifests, installed products and plans\<close>

datatype requirement = RequiredDep | OptionalDep | EvidenceDep

record package_dep =
  pd_slug :: string
  pd_range :: string
  pd_kind :: requirement
  pd_edge :: "string option"
  pd_capability :: "string option"
  pd_pin :: "string option"

record package_manifest =
  mf_slug :: string
  mf_version :: string
  mf_archive :: string
  mf_dependencies :: "package_dep list"
  mf_capabilities :: json

record installed_product =
  ip_slug :: string
  ip_version :: string
  ip_state :: product_state
  ip_active :: bool
  ip_dependencies :: "package_dep list"

text \<open>What an error of the resolver carries: the thrown error, or the path of a cycle.\<close>

datatype resolve_error = Refuse thrown | DependencyCycle "string list" | Unfinished

abbreviation conflict :: resolve_error where
  "conflict \<equiv> Refuse (RpcError DEPENDENCY_CONFLICT (Some ''dependencies''))"

record resolve_view =
  vw_manifests :: "(string \<times> package_manifest list) list"
  vw_installed :: "installed_product list"

definition manifestsOf :: "resolve_view \<Rightarrow> string \<Rightarrow> package_manifest list" where
  "manifestsOf V slug = (case map_of (vw_manifests V) slug of None \<Rightarrow> [] | Some ms \<Rightarrow> ms)"

section \<open>Selection\<close>

fun select_best :: "string \<Rightarrow> (package_manifest \<times> semver) option \<Rightarrow> package_manifest list \<Rightarrow> (package_manifest \<times> semver) option" where
  "select_best rng best [] = best"
| "select_best rng best (c # cs) =
     (case parseSemver (mf_version c) of
        None \<Rightarrow> select_best rng best cs
      | Some v \<Rightarrow>
          if \<not> satisfiesSemver (Inr v) rng False then select_best rng best cs
          else (case best of
                  None \<Rightarrow> select_best rng (Some (c, v)) cs
                | Some (b, w) \<Rightarrow> select_best rng (if 0 < compareSemver v w then Some (c, v) else best) cs))"

definition selectVersion :: "package_manifest list \<Rightarrow> string \<Rightarrow> package_manifest option" where
  "selectVersion candidates rng = map_option fst (select_best rng None candidates)"

definition present_dependents :: "installed_product list \<Rightarrow> string \<Rightarrow> string list" where
  "present_dependents installed slug =
     map ip_slug (filter (\<lambda>p. ip_slug p \<noteq> slug \<and> ip_state p \<notin> {PsRemoved, PsRejected, PsCancelled}
       \<and> list_ex (\<lambda>d. pd_kind d = RequiredDep \<and> pd_slug d = slug) (ip_dependencies p)) installed)"

text \<open>The row that \<open>installedSlugs\<close> has for a slug is the last one.\<close>

definition installed_hit :: "resolve_view \<Rightarrow> package_dep \<Rightarrow> bool" where
  "installed_hit V d = (case find (\<lambda>p. ip_slug p = pd_slug d) (rev (vw_installed V)) of
     None \<Rightarrow> False | Some p \<Rightarrow> satisfiesSemver (Inl (ip_version p)) (pd_range d) False)"

section \<open>The walk\<close>

text \<open>What the loop of \<open>visit\<close> does with a dependency: note the evidence, go on, or visit a manifest.\<close>

datatype dependency_step = Note | Skip | Follow bool package_manifest

definition blocked_by :: "package_dep \<Rightarrow> error_code option" where
  "blocked_by d = (case pd_edge d of
      None \<Rightarrow> None
    | Some e \<Rightarrow> (case edgeDisposition e of
        None \<Rightarrow> None
      | Some disp \<Rightarrow> if pd_kind d = RequiredDep \<and> ed_blocksRequired disp
                     then Some (case ed_code disp of Some c \<Rightarrow> c | None \<Rightarrow> UNSUPPORTED_COMPOSITION) else None))"

definition dependencyStep :: "resolve_view \<Rightarrow> package_dep \<Rightarrow> resolve_error + dependency_step" where
  "dependencyStep V d =
     (if pd_kind d = EvidenceDep then Inr Note
      else case blocked_by d of
        Some c \<Rightarrow> Inl (Refuse (RpcError c (Some ''dependencies'')))
      | None \<Rightarrow>
          (case (pd_kind d, selectVersion (manifestsOf V (pd_slug d)) (pd_range d)) of
             (RequiredDep, None) \<Rightarrow> if installed_hit V d then Inr Skip else Inl conflict
           | (RequiredDep, Some m) \<Rightarrow> Inr (Follow False m)
           | (_, sel) \<Rightarrow> if installed_hit V d then Inr Skip
                         else (case sel of None \<Rightarrow> Inr Skip | Some m \<Rightarrow> Inr (Follow True m))))"

datatype visit_mark = Visiting | Visited

record walk =
  wk_marks :: "string \<Rightarrow> visit_mark option"
  wk_stack :: "string list"
  wk_order :: "(string \<times> package_manifest) list"
  wk_evidence :: "package_dep list"
  wk_optional :: "(string \<times> package_manifest) list"

definition enter :: "string \<Rightarrow> walk \<Rightarrow> walk" where
  "enter slug w = w\<lparr>wk_marks := (wk_marks w)(slug \<mapsto> Visiting), wk_stack := wk_stack w @ [slug]\<rparr>"

definition leave :: "string \<Rightarrow> package_manifest \<Rightarrow> walk \<Rightarrow> walk" where
  "leave slug m w = w\<lparr>wk_stack := butlast (wk_stack w), wk_marks := (wk_marks w)(slug \<mapsto> Visited),
     wk_order := wk_order w @ [(slug, m)]\<rparr>"

definition cycle_path :: "string list \<Rightarrow> string \<Rightarrow> string list" where
  "cycle_path stack slug = dropWhile (\<lambda>s. s \<noteq> slug) stack @ [slug]"

function visit :: "resolve_view \<Rightarrow> nat \<Rightarrow> string \<Rightarrow> package_manifest \<Rightarrow> walk \<Rightarrow> resolve_error + walk"
and visit_deps :: "resolve_view \<Rightarrow> nat \<Rightarrow> package_dep list \<Rightarrow> walk \<Rightarrow> resolve_error + walk" where
  "visit V 0 slug m w = Inl Unfinished"
| "visit V (Suc n) slug m w =
     (case wk_marks w slug of
        Some Visited \<Rightarrow> Inr w
      | Some Visiting \<Rightarrow> Inl (DependencyCycle (cycle_path (wk_stack w) slug))
      | None \<Rightarrow> andThen (visit_deps V n (mf_dependencies m) (enter slug w)) (\<lambda>u. Inr (leave slug m u)))"
| "visit_deps V n [] w = Inr w"
| "visit_deps V n (d # ds) w =
     (case dependencyStep V d of
        Inl e \<Rightarrow> Inl e
      | Inr Note \<Rightarrow> visit_deps V n ds (w\<lparr>wk_evidence := wk_evidence w @ [d]\<rparr>)
      | Inr Skip \<Rightarrow> visit_deps V n ds w
      | Inr (Follow opt s) \<Rightarrow>
          (case visit V n (pd_slug d) s (if opt then w\<lparr>wk_optional := wk_optional w @ [(pd_slug d, s)]\<rparr> else w) of
             Inl e \<Rightarrow> Inl e
           | Inr u \<Rightarrow> visit_deps V n ds u))"
  by pat_completeness auto
termination
  by (relation "inv_image (less_than <*lex*> less_than)
        (\<lambda>x. case x of Inl (V, n, slug, m, w) \<Rightarrow> (n, 0) | Inr (V, n, ds, w) \<Rightarrow> (n, Suc (length ds)))") auto

definition empty_walk :: walk where
  "empty_walk = \<lparr>wk_marks = (\<lambda>_. None), wk_stack = [], wk_order = [], wk_evidence = [], wk_optional = []\<rparr>"

record resolution =
  rs_order :: "(string \<times> package_manifest) list"
  rs_evidence :: "package_dep list"
  rs_optional :: "(string \<times> package_manifest) list"

definition resolveGraph :: "resolve_view \<Rightarrow> package_manifest \<Rightarrow> resolve_error + resolution" where
  "resolveGraph V target =
     andThen (visit V (length (vw_manifests V) + 2) (mf_slug target) target empty_walk)
       (\<lambda>w. Inr \<lparr>rs_order = wk_order w, rs_evidence = wk_evidence w, rs_optional = wk_optional w\<rparr>)"

section \<open>Plans\<close>

datatype plan_kind = PlanInstall | PlanUpdate | PlanUninstall | PlanRollback

datatype planned_as = AsRequired | AsOptional | AsEvidence

record plan_dependency =
  pn_slug :: string
  pn_version :: string
  pn_kind :: planned_as
  pn_edge :: "string option"
  pn_capability :: "string option"
  pn_pin :: "string option"
  pn_manifest :: "string option"
  pn_archive :: "string option"

record plan_details =
  ps_kind :: plan_kind
  ps_slug :: string
  ps_from :: "string option"
  ps_to :: "string option"
  ps_manifest :: string
  ps_archive :: string
  ps_dependencies :: "plan_dependency list"
  ps_grants :: json
  ps_revisions :: "string \<times> string \<times> string"
  ps_trust :: string
  ps_keep_data :: bool
  ps_cascade :: bool

record resolve_options =
  rp_now :: "int option"
  rp_pinned :: bool
  rp_strict :: bool
  rp_allowlist :: "string list"
  rp_cascade :: bool
  rp_keep_data :: "bool option"
  rp_revisions :: "(string \<times> string \<times> string) option"
  rp_trustMaterials :: "json list"

text \<open>The catalog index: the slugs and versions of its entries, and when it expires.\<close>

record resolve_input =
  ri_kind :: plan_kind
  ri_source :: string
  ri_version :: "string option"
  ri_target :: "(package_manifest \<times> string) option"
  ri_view :: resolve_view
  ri_index :: "((string \<times> string) list \<times> int) option"
  ri_opts :: resolve_options

definition SEMVER_RE :: rx where
  "SEMVER_RE = FULL_VERSION_RE"

abbreviation refuse_plan :: "error_code \<Rightarrow> string \<Rightarrow> resolve_error" where
  "refuse_plan c f \<equiv> Refuse (RpcError c (Some f))"

definition plan_slug :: "resolve_input \<Rightarrow> string" where
  "plan_slug inp = (case ri_target inp of Some (m, _) \<Rightarrow> mf_slug m | None \<Rightarrow> hd (js_split ''@'' (ri_source inp)))"

definition plan_version :: "resolve_input \<Rightarrow> string option" where
  "plan_version inp = (case ri_version inp of Some v \<Rightarrow> Some v | None \<Rightarrow> map_option (mf_version \<circ> fst) (ri_target inp))"

definition check_source :: "resolve_input \<Rightarrow> resolve_error + unit" where
  "check_source inp =
     andThen (check (rx_test SLUG_RE (plan_slug inp)) (refuse_plan SCHEMA_INVALID ''source'')) (\<lambda>_.
     andThen (check (ri_kind inp = PlanUninstall \<or> (case plan_version inp of None \<Rightarrow> False | Some v \<Rightarrow> rx_test SEMVER_RE v))
       (refuse_plan SCHEMA_INVALID ''version'')) (\<lambda>_.
     check (rp_strict (ri_opts inp) \<longrightarrow> plan_slug inp \<in> set (rp_allowlist (ri_opts inp))) (refuse_plan POLICY_DENIED ''source'')))"

definition check_index :: "resolve_input \<Rightarrow> resolve_error + unit" where
  "check_index inp =
     (case ri_index inp of
        None \<Rightarrow> Inr ()
      | Some (entries, expires) \<Rightarrow>
          if ri_kind inp \<in> {PlanUninstall, PlanRollback} then Inr ()
          else andThen (check (\<exists>e\<in>set entries. fst e = plan_slug inp \<and> Some (snd e) = plan_version inp) (refuse_plan NOT_FOUND ''source'')) (\<lambda>_.
            check (case rp_now (ri_opts inp) of None \<Rightarrow> True | Some now \<Rightarrow> rp_pinned (ri_opts inp) \<or> now < expires)
              (refuse_plan TRUST_EXPIRED ''index'')))"

definition active_product :: "resolve_input \<Rightarrow> installed_product option" where
  "active_product inp = find (\<lambda>p. ip_slug p = plan_slug inp \<and> ip_active p) (vw_installed (ri_view inp))"

text \<open>The versions the plan moves from and to.\<close>

definition plan_move :: "resolve_input \<Rightarrow> resolve_error + (string option \<times> string option)" where
  "plan_move inp =
     (let rows = vw_installed (ri_view inp); active = active_product inp; slug = plan_slug inp in
      case ri_kind inp of
        PlanInstall \<Rightarrow> if active \<noteq> None then Inl conflict else Inr (None, plan_version inp)
      | PlanUpdate \<Rightarrow> (case active of None \<Rightarrow> Inl (refuse_plan NOT_FOUND ''source'') | Some a \<Rightarrow> Inr (Some (ip_version a), plan_version inp))
      | PlanRollback \<Rightarrow>
          (case active of
             None \<Rightarrow> Inl (refuse_plan NOT_FOUND ''source'')
           | Some a \<Rightarrow>
               if list_ex (\<lambda>p. ip_slug p = slug \<and> Some (ip_version p) = plan_version inp \<and> ip_state p = PsStoppedRetained) rows
               then Inr (Some (ip_version a), plan_version inp) else Inl (refuse_plan NOT_FOUND ''version''))
      | PlanUninstall \<Rightarrow>
          if active = None \<and> \<not> list_ex (\<lambda>p. ip_slug p = slug \<and> ip_state p = PsStoppedRetained) rows
          then Inl (refuse_plan NOT_FOUND ''source'')
          else Inr (case active of Some a \<Rightarrow> Some (ip_version a) | None \<Rightarrow> map_option ip_version (find (\<lambda>p. ip_slug p = slug) rows), None))"

text \<open>An update looks at the first row of a dependent and at its first dependency on the product.\<close>

definition dependent_allows :: "installed_product list \<Rightarrow> string \<Rightarrow> string \<Rightarrow> string \<Rightarrow> resolve_error + unit" where
  "dependent_allows rows slug v other =
     (case find (\<lambda>p. ip_slug p = other) rows of
        None \<Rightarrow> Inl (Refuse JsTypeError)
      | Some p \<Rightarrow> (case find (\<lambda>d. pd_slug d = slug) (ip_dependencies p) of
          None \<Rightarrow> Inl (Refuse JsTypeError)
        | Some d \<Rightarrow> check (satisfiesSemver (Inl v) (pd_range d) False) (refuse_plan DEPENDENTS_PRESENT ''dependencies'')))"

definition check_dependents :: "resolve_input \<Rightarrow> resolve_error + unit" where
  "check_dependents inp =
     (let rows = vw_installed (ri_view inp); dependents = present_dependents rows (plan_slug inp) in
      case ri_kind inp of
        PlanUninstall \<Rightarrow> check (dependents = [] \<or> rp_cascade (ri_opts inp)) (refuse_plan DEPENDENTS_PRESENT ''dependencies'')
      | PlanUpdate \<Rightarrow> first_error (dependent_allows rows (plan_slug inp) (the (plan_version inp))) dependents
      | _ \<Rightarrow> Inr ())"

section \<open>The dependencies of a plan\<close>

fun findDep :: "package_manifest list \<Rightarrow> string \<Rightarrow> package_dep option" where
  "findDep [] slug = None"
| "findDep (m # ms) slug = (case find (\<lambda>d. pd_slug d = slug) (mf_dependencies m) of None \<Rightarrow> findDep ms slug | Some d \<Rightarrow> Some d)"

definition manifest_dependency :: "package_manifest \<Rightarrow> string \<Rightarrow> string \<Rightarrow> package_manifest \<Rightarrow> package_dep option \<Rightarrow> plan_dependency" where
  "manifest_dependency target digest slug m d =
     \<lparr>pn_slug = slug, pn_version = mf_version m,
      pn_kind = (case d of Some e \<Rightarrow> if pd_kind e = OptionalDep then AsOptional else AsRequired | None \<Rightarrow> AsRequired),
      pn_edge = Option.bind d pd_edge, pn_capability = Option.bind d pd_capability, pn_pin = Option.bind d pd_pin,
      pn_manifest = (if mf_slug m @ ''@'' @ mf_version m = mf_slug target @ ''@'' @ mf_version target then Some digest else None),
      pn_archive = Some (mf_archive m)\<rparr>"

definition evidence_dependency :: "package_dep \<Rightarrow> plan_dependency" where
  "evidence_dependency d =
     \<lparr>pn_slug = pd_slug d, pn_version = pd_range d, pn_kind = AsEvidence, pn_edge = pd_edge d, pn_capability = pd_capability d,
      pn_pin = pd_pin d, pn_manifest = None, pn_archive = None\<rparr>"

definition plan_dependencies :: "resolve_input \<Rightarrow> resolve_error + plan_dependency list" where
  "plan_dependencies inp =
     (case ri_target inp of
        None \<Rightarrow> Inr []
      | Some (target, digest) \<Rightarrow>
          andThen (resolveGraph (ri_view inp) target) (\<lambda>r.
            Inr (map (\<lambda>(slug, m). manifest_dependency target digest slug m (findDep (target # map snd (rs_order r)) slug))
                   (filter (\<lambda>(slug, m). \<not> (slug = plan_slug inp \<and> Some (mf_version m) = plan_version inp)) (rs_order r))
                 @ map evidence_dependency (rs_evidence r))))"

section \<open>The hash of a plan\<close>

definition json_opt :: "string option \<Rightarrow> json" where
  "json_opt x = (case x of None \<Rightarrow> JNull | Some s \<Rightarrow> JStr s)"

definition dependency_json :: "plan_dependency \<Rightarrow> json" where
  "dependency_json d = JObj [(''slug'', JStr (pn_slug d)), (''version'', JStr (pn_version d)),
     (''kind'', JStr (case pn_kind d of AsRequired \<Rightarrow> ''required'' | AsOptional \<Rightarrow> ''optional'' | AsEvidence \<Rightarrow> ''evidence'')),
     (''edge'', json_opt (pn_edge d)), (''capability'', json_opt (pn_capability d)), (''pin'', json_opt (pn_pin d)),
     (''manifest'', json_opt (pn_manifest d)), (''archive'', json_opt (pn_archive d))]"

definition plan_json :: "plan_details \<Rightarrow> json" where
  "plan_json s = JObj
     [(''kind'', JStr (case ps_kind s of PlanInstall \<Rightarrow> ''install'' | PlanUpdate \<Rightarrow> ''update'' | PlanUninstall \<Rightarrow> ''uninstall''
         | PlanRollback \<Rightarrow> ''rollback'')),
      (''slug'', JStr (ps_slug s)), (''from'', json_opt (ps_from s)), (''to'', json_opt (ps_to s)), (''manifest'', JStr (ps_manifest s)),
      (''archive'', JStr (ps_archive s)), (''dependencies'', JArr (map dependency_json (ps_dependencies s))), (''grants'', ps_grants s),
      (''revisions'', case ps_revisions s of (cf, ct, rg) \<Rightarrow> JObj [(''config'', JStr cf), (''catalog'', JStr ct), (''registry'', JStr rg)]),
      (''trust'', JStr (ps_trust s)), (''keep_data'', JBool (ps_keep_data s)), (''cascade'', JBool (ps_cascade s))]"

definition hash_json :: "node_crypto \<Rightarrow> json \<Rightarrow> resolve_error + string" where
  "hash_json nc v = (case canonicalJson v of Inl _ \<Rightarrow> Inl (Refuse JsCryptoError) | Inr t \<Rightarrow> Inr (sha256Hex nc t))"

definition planHashOf :: "node_crypto \<Rightarrow> plan_details \<Rightarrow> resolve_error + string" where
  "planHashOf nc s = hash_json nc (plan_json s)"

definition plan_summary_of :: "resolve_input \<Rightarrow> string option \<times> string option \<Rightarrow> plan_dependency list \<Rightarrow> string \<Rightarrow> plan_details" where
  "plan_summary_of inp move deps trust =
     \<lparr>ps_kind = ri_kind inp, ps_slug = plan_slug inp, ps_from = fst move, ps_to = snd move,
      ps_manifest = (case ri_target inp of Some (_, digest) \<Rightarrow> digest | None \<Rightarrow> replicate 64 CHR ''0''),
      ps_archive = (case ri_target inp of Some (m, _) \<Rightarrow> mf_archive m | None \<Rightarrow> []), ps_dependencies = deps,
      ps_grants = (case ri_target inp of Some (m, _) \<Rightarrow> mf_capabilities m | None \<Rightarrow> JNull),
      ps_revisions = (case rp_revisions (ri_opts inp) of Some r \<Rightarrow> r | None \<Rightarrow> (''1'', ''1'', ''1'')), ps_trust = trust,
      ps_keep_data = (case rp_keep_data (ri_opts inp) of Some b \<Rightarrow> b | None \<Rightarrow> True), ps_cascade = rp_cascade (ri_opts inp)\<rparr>"

definition resolvePlan :: "node_crypto \<Rightarrow> resolve_input \<Rightarrow> resolve_error + (string \<times> plan_details)" where
  "resolvePlan nc inp =
     andThen (check_source inp) (\<lambda>_.
     andThen (check_index inp) (\<lambda>_.
     andThen (plan_move inp) (\<lambda>move.
     andThen (check_dependents inp) (\<lambda>_.
     andThen (plan_dependencies inp) (\<lambda>deps.
     andThen (hash_json nc (JArr (rp_trustMaterials (ri_opts inp)))) (\<lambda>trust.
       let s = plan_summary_of inp move deps trust in
       andThen (planHashOf nc s) (\<lambda>h. Inr (h, s))))))))"

end
