(* ===== verification/Product_Resolve_Facts.thy ===== *)
theory Product_Resolve_Facts
  imports Product_Resolve
begin

text \<open>
  The walk of the resolver: it always decides, a cycle it reports is one of the graph, and the order it answers has
  every dependency before its dependent.
\<close>

section \<open>The graph\<close>

text \<open>The manifests that the walk may visit, each under the slug it was followed by.\<close>

inductive reached :: "resolve_view \<Rightarrow> package_manifest \<Rightarrow> string \<Rightarrow> package_manifest \<Rightarrow> bool" for V target where
  reached_target: "reached V target (mf_slug target) target"
| reached_follow: "reached V target a m \<Longrightarrow> d \<in> set (mf_dependencies m) \<Longrightarrow> dependencyStep V d = Inr (Follow opt s) \<Longrightarrow>
    reached V target (pd_slug d) s"

definition depends_on :: "resolve_view \<Rightarrow> package_manifest \<Rightarrow> string \<Rightarrow> string \<Rightarrow> bool" where
  "depends_on V target a b \<longleftrightarrow> (\<exists>m d opt s. reached V target a m \<and> d \<in> set (mf_dependencies m) \<and> pd_slug d = b
     \<and> dependencyStep V d = Inr (Follow opt s))"

definition known_slugs :: "resolve_view \<Rightarrow> package_manifest \<Rightarrow> string set" where
  "known_slugs V target = insert (mf_slug target) (fst ` set (vw_manifests V))"

lemma select_best_sound:
  assumes "select_best rng best cs = Some (m, v)"
  shows "best = Some (m, v) \<or> m \<in> set cs \<and> parseSemver (mf_version m) = Some v \<and> satisfiesSemver (Inr v) rng False"
  using assms
proof (induction cs arbitrary: best)
  case (Cons c cs)
  have "\<exists>b1. select_best rng best (c # cs) = select_best rng b1 cs
      \<and> (b1 = best \<or> (\<exists>w. b1 = Some (c, w) \<and> parseSemver (mf_version c) = Some w \<and> satisfiesSemver (Inr w) rng False))"
    by (cases "parseSemver (mf_version c)") (auto split: option.split)
  with Cons show ?case by fastforce
qed simp

lemma selected_satisfies:
  assumes "selectVersion cs rng = Some m"
  shows "m \<in> set cs" "\<exists>v. parseSemver (mf_version m) = Some v \<and> satisfiesSemver (Inr v) rng False"
  using assms select_best_sound [of rng None cs m] by (auto simp: selectVersion_def)

lemma follow_selects:
  assumes "dependencyStep V d = Inr (Follow opt s)"
  shows "selectVersion (manifestsOf V (pd_slug d)) (pd_range d) = Some s" "pd_kind d \<noteq> EvidenceDep" "blocked_by d = None"
  using assms by (auto simp: dependencyStep_def split: if_splits option.splits requirement.splits)

lemma follow_known: "dependencyStep V d = Inr (Follow opt s) \<Longrightarrow> pd_slug d \<in> known_slugs V target"
  using follow_selects(1) [THEN selected_satisfies(1), of V d opt s]
  by (cases "map_of (vw_manifests V) (pd_slug d)") (auto simp: known_slugs_def manifestsOf_def dest!: map_of_SomeD, force)

lemma reached_known: "reached V target a m \<Longrightarrow> a \<in> known_slugs V target"
  by (induction rule: reached.induct) (simp add: known_slugs_def, rule follow_known)

section \<open>The order\<close>

definition settled :: "resolve_view \<Rightarrow> (string \<times> package_manifest) list \<Rightarrow> package_dep \<Rightarrow> bool" where
  "settled V xs d \<longleftrightarrow> (\<exists>st. dependencyStep V d = Inr st \<and> (case st of Follow _ _ \<Rightarrow> pd_slug d \<in> fst ` set xs | _ \<Rightarrow> True))"

definition ordered :: "resolve_view \<Rightarrow> (string \<times> package_manifest) list \<Rightarrow> bool" where
  "ordered V xs \<longleftrightarrow> (\<forall>ys x zs. xs = ys @ x # zs \<longrightarrow> (\<forall>d\<in>set (mf_dependencies (snd x)). settled V ys d))"

lemma ordered_Nil: "ordered V []"
  by (simp add: ordered_def)

lemma ordered_snoc:
  assumes "ordered V xs" "\<forall>d\<in>set (mf_dependencies m). settled V xs d"
  shows "ordered V (xs @ [(s, m)])"
  unfolding ordered_def
proof (intro allI impI)
  fix ys x zs
  assume eq: "xs @ [(s, m)] = ys @ x # zs"
  show "\<forall>d\<in>set (mf_dependencies (snd x)). settled V ys d"
  proof (cases zs rule: rev_cases)
    case Nil
    then have "ys = xs" "x = (s, m)" using eq by simp_all
    then show ?thesis using assms(2) by simp
  next
    case (snoc us u)
    then have "xs = ys @ x # us" using eq by simp
    then show ?thesis using assms(1) unfolding ordered_def by blast
  qed
qed

lemma settled_mono: "settled V xs d \<Longrightarrow> settled V (xs @ ys) d"
  unfolding settled_def by (auto split: dependency_step.splits)


section \<open>A walk that succeeds\<close>

definition noted :: "(string \<times> package_manifest) list \<Rightarrow> package_dep multiset" where
  "noted xs = mset (filter (\<lambda>d. pd_kind d = EvidenceDep) (concat (map (mf_dependencies \<circ> snd) xs)))"

definition walk_ok :: "resolve_view \<Rightarrow> package_manifest \<Rightarrow> walk \<Rightarrow> bool" where
  "walk_ok V target w \<longleftrightarrow> (\<forall>s. wk_marks w s = Some Visiting \<longleftrightarrow> s \<in> set (wk_stack w))
     \<and> (\<forall>s. wk_marks w s = Some Visited \<longleftrightarrow> s \<in> fst ` set (wk_order w)) \<and> distinct (wk_stack w) \<and> distinct (map fst (wk_order w))
     \<and> ordered V (wk_order w) \<and> (\<forall>(s, m)\<in>set (wk_order w). reached V target s m)"

text \<open>A step of the walk leaves the stack as it was and adds nodes and their evidence.\<close>

definition adds :: "walk \<Rightarrow> package_dep multiset \<Rightarrow> walk \<Rightarrow> bool" where
  "adds w extra u \<longleftrightarrow> wk_stack u = wk_stack w
     \<and> (\<exists>new. wk_order u = wk_order w @ new \<and> mset (wk_evidence u) = mset (wk_evidence w) + extra + noted new)"

lemma adds_refl: "adds w {#} w"
  by (simp add: adds_def noted_def)

lemma adds_trans: "adds w a u \<Longrightarrow> adds u b v \<Longrightarrow> adds w (a + b) v"
  by (auto simp: adds_def noted_def)

lemma dependency_step_note: "dependencyStep V d = Inr st \<Longrightarrow> st = Note \<longleftrightarrow> pd_kind d = EvidenceDep"
  by (auto simp: dependencyStep_def split: if_splits option.splits requirement.splits)

lemma unmarked: "walk_ok V target w \<Longrightarrow> wk_marks w slug = None \<Longrightarrow> slug \<notin> set (wk_stack w) \<and> slug \<notin> fst ` set (wk_order w)"
  unfolding walk_ok_def by (metis option.distinct(1))

lemma enter_ok: "walk_ok V target w \<Longrightarrow> wk_marks w slug = None \<Longrightarrow> walk_ok V target (enter slug w)"
  using unmarked [of V target w slug] by (simp add: walk_ok_def enter_def)

lemma leave_ok:
  assumes ok: "walk_ok V target u" and stack: "wk_stack u = st @ [slug]" and m: "reached V target slug m"
    and deps: "\<forall>d\<in>set (mf_dependencies m). settled V (wk_order u) d"
  shows "walk_ok V target (leave slug m u)"
proof -
  have *: "slug \<notin> set st" "wk_marks u slug = Some Visiting" using ok stack by (auto simp: walk_ok_def)
  have "wk_marks u slug \<noteq> Some Visited" using * by simp
  then have "slug \<notin> fst ` set (wk_order u)" using ok unfolding walk_ok_def by blast
  with * show ?thesis using assms by (simp add: walk_ok_def leave_def ordered_snoc)
qed

lemma walk_succeeds:
  "visit V n slug m w = Inr u \<Longrightarrow> walk_ok V target w \<Longrightarrow> reached V target slug m \<Longrightarrow>
   walk_ok V target u \<and> adds w {#} u \<and> slug \<in> fst ` set (wk_order u)"
  "visit_deps V n ds w = Inr u \<Longrightarrow> walk_ok V target w \<Longrightarrow> reached V target a m1 \<Longrightarrow> set ds \<subseteq> set (mf_dependencies m1) \<Longrightarrow>
   walk_ok V target u \<and> adds w (mset (filter (\<lambda>d. pd_kind d = EvidenceDep) ds)) u \<and> (\<forall>d\<in>set ds. settled V (wk_order u) d)"
proof (induction V n slug m w and V n ds w arbitrary: u and u a m1 rule: visit_visit_deps.induct)
  case (2 V n slug m w)
  show ?case
  proof (cases "wk_marks w slug")
    case None
    then obtain t where t: "visit_deps V n (mf_dependencies m) (enter slug w) = Inr t" and u: "u = leave slug m t"
      using 2(2) by auto
    from 2(1) [OF None t enter_ok [OF 2(3) None] 2(4) subset_refl]
    have t1: "walk_ok V target t" "adds (enter slug w) (mset (filter (\<lambda>d. pd_kind d = EvidenceDep) (mf_dependencies m))) t"
      "\<forall>d\<in>set (mf_dependencies m). settled V (wk_order t) d" by auto
    then have "walk_ok V target u" unfolding u using 2(4) by (intro leave_ok [of _ _ _ "wk_stack w"]) (auto simp: adds_def enter_def)
    moreover have "adds w {#} u" using t1(2) unfolding u by (auto simp: adds_def noted_def enter_def leave_def)
    ultimately show ?thesis by (simp add: u leave_def)
  next
    case (Some mk)
    then show ?thesis using 2 by (cases mk) (auto simp: adds_refl walk_ok_def)
  qed
next
  case (4 V n d ds w)
  then obtain st where st: "dependencyStep V d = Inr st" by (auto split: sum.splits)
  have rest: "reached V target a m1" "set ds \<subseteq> set (mf_dependencies m1)" using 4(7,8) by auto
  show ?case
  proof (cases st)
    case Note
    then have "visit_deps V n ds (w\<lparr>wk_evidence := wk_evidence w @ [d]\<rparr>) = Inr u" using 4(5) st by simp
    from 4(1) [OF st Note this _ rest] 4(6) have "walk_ok V target u \<and> (\<forall>d\<in>set ds. settled V (wk_order u) d)
        \<and> adds (w\<lparr>wk_evidence := wk_evidence w @ [d]\<rparr>) (mset (filter (\<lambda>d. pd_kind d = EvidenceDep) ds)) u"
      by (simp add: walk_ok_def)
    then show ?thesis using dependency_step_note [OF st] st Note by (auto simp: adds_def settled_def)
  next
    case Skip
    then have "visit_deps V n ds w = Inr u" using 4(5) st by simp
    from 4(2) [OF st Skip this 4(6) rest]
    show ?thesis using dependency_step_note [OF st] st Skip by (auto simp: adds_def settled_def)
  next
    case (Follow opt s)
    let ?w = "if opt then w\<lparr>wk_optional := wk_optional w @ [(pd_slug d, s)]\<rparr> else w"
    obtain t where t: "visit V n (pd_slug d) s ?w = Inr t" and u: "visit_deps V n ds t = Inr u"
      using 4(5) st Follow by (auto split: sum.splits)
    have "walk_ok V target ?w" using 4(6) by (simp add: walk_ok_def)
    moreover have "reached V target (pd_slug d) s" using reached_follow [OF 4(7) _ st [unfolded Follow]] 4(8) by simp
    ultimately have t1: "walk_ok V target t" "adds ?w {#} t" "pd_slug d \<in> fst ` set (wk_order t)"
      using 4(3) [OF st Follow t] by auto
    then have w: "adds w {#} t" by (auto simp: adds_def split: if_splits)
    from 4(4) [OF st Follow t u t1(1) rest] have u1: "walk_ok V target u" "\<forall>d\<in>set ds. settled V (wk_order u) d"
      "adds t (mset (filter (\<lambda>d. pd_kind d = EvidenceDep) ds)) u" by auto
    then show ?thesis using adds_trans [OF w u1(3)] t1(3) dependency_step_note [OF st] st Follow
      by (auto simp: adds_def settled_def)
  qed
qed (auto simp: adds_refl)

section \<open>A walk that fails\<close>

definition genuine :: "resolve_view \<Rightarrow> package_manifest \<Rightarrow> resolve_error \<Rightarrow> bool" where
  "genuine V target e = (case e of
     Unfinished \<Rightarrow> False
   | DependencyCycle c \<Rightarrow> 2 \<le> length c \<and> hd c = last c \<and> distinct (tl c) \<and> successively (depends_on V target) c
   | Refuse t \<Rightarrow> \<exists>a m. \<exists>d\<in>set (mf_dependencies m). reached V target a m \<and> dependencyStep V d = Inl e)"

lemma step_error: "dependencyStep V d = Inl e \<Longrightarrow> \<exists>t. e = Refuse t"
  by (auto simp: dependencyStep_def split: if_splits option.splits requirement.splits)

lemma stack_bounded:
  assumes "distinct st" "set st \<subseteq> known_slugs V target"
  shows "length st \<le> length (vw_manifests V) + 1"
proof -
  have "length st = card (set st)" using assms(1) by (simp add: distinct_card)
  also have "\<dots> \<le> card (known_slugs V target)" using assms(2) by (rule card_mono [rotated]) (simp add: known_slugs_def)
  also have "\<dots> \<le> Suc (card (fst ` set (vw_manifests V)))" by (simp add: known_slugs_def card_insert_if)
  also have "\<dots> \<le> length (vw_manifests V) + 1" using card_length [of "map fst (vw_manifests V)"] by simp
  finally show ?thesis .
qed

lemma cycle_genuine:
  assumes "slug \<in> set st" "distinct st" "successively (depends_on V target) (st @ [slug])"
  shows "genuine V target (DependencyCycle (cycle_path st slug))"
proof -
  obtain r where r: "dropWhile (\<lambda>s. s \<noteq> slug) st = slug # r"
    using assms(1) by (cases "dropWhile (\<lambda>s. s \<noteq> slug) st") (auto simp: dropWhile_eq_Cons_conv)
  define l where "l = takeWhile (\<lambda>s. s \<noteq> slug) st"
  have st: "st = l @ slug # r" using takeWhile_dropWhile_id [of "\<lambda>s. s \<noteq> slug" st] by (simp add: r l_def)
  have "successively (depends_on V target) (l @ (slug # r @ [slug]))" using assms(3) by (simp add: st)
  then have "successively (depends_on V target) (slug # r @ [slug])" by (simp only: successively_append_iff)
  moreover have "cycle_path st slug = slug # r @ [slug]" by (simp add: cycle_path_def r)
  moreover have "distinct (r @ [slug])" using assms(2) by (auto simp: st)
  ultimately show ?thesis by (simp add: genuine_def)
qed

lemma walk_fails:
  "visit V n slug m w = Inl e \<Longrightarrow> walk_ok V target w \<Longrightarrow> reached V target slug m \<Longrightarrow> set (wk_stack w) \<subseteq> known_slugs V target \<Longrightarrow>
   successively (depends_on V target) (wk_stack w @ [slug]) \<Longrightarrow> length (vw_manifests V) + 2 \<le> n + length (wk_stack w) \<Longrightarrow> genuine V target e"
  "visit_deps V n ds w = Inl e \<Longrightarrow> walk_ok V target w \<Longrightarrow> reached V target a m1 \<Longrightarrow> set ds \<subseteq> set (mf_dependencies m1) \<Longrightarrow>
   set (wk_stack w) \<subseteq> known_slugs V target \<Longrightarrow> wk_stack w = st @ [a] \<Longrightarrow> successively (depends_on V target) (wk_stack w) \<Longrightarrow>
   length (vw_manifests V) + 2 \<le> n + length (wk_stack w) \<Longrightarrow> genuine V target e"
proof (induction V n slug m w and V n ds w arbitrary: and a m1 st rule: visit_visit_deps.induct)
  case (1 V slug m w)
  then show ?case using stack_bounded [of "wk_stack w" V target] by (simp add: walk_ok_def)
next
  case (2 V n slug m w)
  show ?case
  proof (cases "wk_marks w slug")
    case None
    then have "visit_deps V n (mf_dependencies m) (enter slug w) = Inl e" using 2(2) by (simp add: andThen_def split: sum.splits)
    from 2(1) [OF None this enter_ok [OF 2(3) None] 2(4) subset_refl, of "wk_stack w"] 2(4-7) reached_known [OF 2(4)]
    show ?thesis by (simp add: enter_def)
  next
    case (Some mk)
    then show ?thesis using 2(2,3,6) cycle_genuine [of slug "wk_stack w" V target] by (cases mk) (auto simp: walk_ok_def)
  qed
next
  case (4 V n d ds w)
  have rest: "set ds \<subseteq> set (mf_dependencies m1)" "d \<in> set (mf_dependencies m1)" using 4(8) by simp_all
  show ?case
  proof (cases "dependencyStep V d")
    case (Inl f)
    then have "e = f" using 4(5) by simp
    then show ?thesis using 4(7) Inl step_error [OF Inl] rest(2) by (auto simp: genuine_def) blast
  next
    case (Inr st1)
    show ?thesis
    proof (cases st1)
      case Note
      let ?w = "w\<lparr>wk_evidence := wk_evidence w @ [d]\<rparr>"
      have "visit_deps V n ds ?w = Inl e" "walk_ok V target ?w" using 4(5,6) Inr Note by (simp_all add: walk_ok_def)
      from 4(1) [OF Inr Note this 4(7) rest(1), of st] 4(9-12) show ?thesis by simp
    next
      case Skip
      then have "visit_deps V n ds w = Inl e" using 4(5) Inr by simp
      from 4(2) [OF Inr Skip this 4(6,7) rest(1) 4(9-12)] show ?thesis .
    next
      case (Follow opt s)
      let ?w = "if opt then w\<lparr>wk_optional := wk_optional w @ [(pd_slug d, s)]\<rparr> else w"
      have w: "walk_ok V target ?w" "wk_stack ?w = wk_stack w" using 4(6) by (simp_all add: walk_ok_def)
      have s: "reached V target (pd_slug d) s" using reached_follow [OF 4(7) rest(2) Inr [unfolded Follow]] .
      have "depends_on V target a (pd_slug d)" using 4(7) rest(2) Inr Follow by (auto simp: depends_on_def)
      then have path: "successively (depends_on V target) (wk_stack ?w @ [pd_slug d])"
        using 4(10,11) by (simp add: w(2) successively_append_iff)
      show ?thesis
      proof (cases "visit V n (pd_slug d) s ?w")
        case (Inl f)
        then have "visit V n (pd_slug d) s ?w = Inl e" using 4(5) Inr Follow by simp
        from 4(3) [OF Inr Follow this w(1) s _ path] 4(9,12) show ?thesis by (simp add: w(2))
      next
        case t: (Inr t)
        from walk_succeeds(1) [OF t w(1) s] have "walk_ok V target t" "wk_stack t = wk_stack w" by (simp_all add: adds_def w(2))
        moreover have "visit_deps V n ds t = Inl e" using 4(5) Inr Follow t by simp
        ultimately show ?thesis using 4(4) [OF Inr Follow t _ _ 4(7) rest(1), of st] 4(9-12) by simp
      qed
    qed
  qed
qed simp_all

section \<open>The resolution\<close>

lemma empty_walk_ok: "walk_ok V target empty_walk"
  by (simp add: walk_ok_def empty_walk_def ordered_Nil)

lemma settled_cases:
  assumes "settled V xs d"
  shows "pd_kind d = EvidenceDep \<or> blocked_by d = None \<and> (pd_slug d \<in> fst ` set xs \<or> installed_hit V d
    \<or> pd_kind d = OptionalDep \<and> selectVersion (manifestsOf V (pd_slug d)) (pd_range d) = None)"
  using assms by (auto simp: settled_def dependencyStep_def split: if_splits option.splits requirement.splits)

lemma ordered_nth: "ordered V xs \<Longrightarrow> i < length xs \<Longrightarrow> d \<in> set (mf_dependencies (snd (xs ! i))) \<Longrightarrow> settled V (take i xs) d"
  unfolding ordered_def using id_take_nth_drop [of i xs] by blast

lemma target_last: "visit V (Suc n) (mf_slug target) target empty_walk = Inr w \<Longrightarrow>
  wk_order w \<noteq> [] \<and> last (wk_order w) = (mf_slug target, target)"
  by (auto simp: empty_walk_def leave_def)

text \<open>
  C24. The resolution always decides.  When it succeeds, its order holds each slug once, the target last, every other
  node chosen as the best candidate for some dependency that was followed; each required dependency of a node stands
  before the node or is satisfied by an installed product, none is over a blocked edge; an optional one stands before
  it or is left out; and the evidence is exactly that of the nodes.  When it fails, either it names a cycle of the
  dependencies it followed, or a dependency of a node it reached is blocked or has no satisfying version.
\<close>

theorem resolution_decides:
  "case resolveGraph V target of
     Inl e \<Rightarrow> genuine V target e
   | Inr r \<Rightarrow> distinct (map fst (rs_order r)) \<and> rs_order r \<noteq> [] \<and> last (rs_order r) = (mf_slug target, target)
       \<and> (\<forall>i<length (rs_order r). reached V target (fst (rs_order r ! i)) (snd (rs_order r ! i))
            \<and> (\<forall>d\<in>set (mf_dependencies (snd (rs_order r ! i))). pd_kind d = EvidenceDep
                 \<or> blocked_by d = None \<and> (pd_slug d \<in> fst ` set (take i (rs_order r)) \<or> installed_hit V d
                      \<or> pd_kind d = OptionalDep \<and> selectVersion (manifestsOf V (pd_slug d)) (pd_range d) = None)))
       \<and> mset (rs_evidence r) = noted (rs_order r)"
proof (cases "resolveGraph V target")
  case (Inl e)
  then have "visit V (length (vw_manifests V) + 2) (mf_slug target) target empty_walk = Inl e"
    by (simp add: resolveGraph_def andThen_def split: sum.splits)
  from walk_fails(1) [OF this empty_walk_ok reached_target] Inl show ?thesis by (simp add: empty_walk_def)
next
  case (Inr r)
  then obtain w where w: "visit V (length (vw_manifests V) + 2) (mf_slug target) target empty_walk = Inr w"
    and r: "rs_order r = wk_order w" "rs_evidence r = wk_evidence w" by (auto simp: resolveGraph_def)
  have ok: "walk_ok V target w" "adds empty_walk {#} w"
    using walk_succeeds(1) [OF w empty_walk_ok reached_target] by simp_all
  then have order: "distinct (map fst (wk_order w))" "ordered V (wk_order w)" "\<forall>(s, m)\<in>set (wk_order w). reached V target s m"
    by (simp_all add: walk_ok_def)
  have "mset (wk_evidence w) = noted (wk_order w)" using ok(2) by (auto simp: adds_def empty_walk_def)
  moreover have "reached V target (fst (wk_order w ! i)) (snd (wk_order w ! i))" if "i < length (wk_order w)" for i
    using order(3) nth_mem [OF that] by (auto simp: split_beta)
  moreover have "pd_kind d = EvidenceDep \<or> blocked_by d = None \<and> (pd_slug d \<in> fst ` set (take i (wk_order w)) \<or> installed_hit V d
      \<or> pd_kind d = OptionalDep \<and> selectVersion (manifestsOf V (pd_slug d)) (pd_range d) = None)"
    if "i < length (wk_order w)" "d \<in> set (mf_dependencies (snd (wk_order w ! i)))" for i d
    using settled_cases [OF ordered_nth [OF order(2) that]] .
  ultimately show ?thesis
    using Inr target_last [of V "length (vw_manifests V) + 1" target w] w order(1) by (simp add: r)
qed

section \<open>The plan\<close>

text \<open>What a plan that was resolved stands for.\<close>

lemma plan_is_admissible:
  assumes "resolvePlan nc inp = Inr (h, s)"
  defines "slug \<equiv> plan_slug inp" and "rows \<equiv> vw_installed (ri_view inp)"
  shows "rx_test SLUG_RE slug" "ps_slug s = slug" "planHashOf nc s = Inr h"
    "rp_strict (ri_opts inp) \<Longrightarrow> slug \<in> set (rp_allowlist (ri_opts inp))"
    "ri_kind inp \<noteq> PlanUninstall \<Longrightarrow> \<exists>v. ps_to s = Some v \<and> plan_version inp = Some v \<and> rx_test SEMVER_RE v"
    "ri_kind inp \<in> {PlanInstall, PlanUpdate} \<Longrightarrow> ri_index inp = Some (es, expires) \<Longrightarrow>
       (\<exists>e\<in>set es. fst e = slug \<and> Some (snd e) = ps_to s) \<and> (\<forall>now. rp_now (ri_opts inp) = Some now \<and> \<not> rp_pinned (ri_opts inp) \<longrightarrow> now < expires)"
    "ri_kind inp = PlanInstall \<Longrightarrow> \<forall>p\<in>set rows. ip_slug p = slug \<longrightarrow> \<not> ip_active p"
    "ri_kind inp = PlanUninstall \<Longrightarrow> present_dependents rows slug = [] \<or> ps_cascade s"
proof -
  obtain move where parts: "check_source inp = Inr ()" "check_index inp = Inr ()" "plan_move inp = Inr move" "check_dependents inp = Inr ()"
    "ps_slug s = slug" "ps_to s = snd move" "planHashOf nc s = Inr h" "ps_cascade s = rp_cascade (ri_opts inp)"
    using assms by (auto simp: resolvePlan_def Let_def plan_summary_of_def)
  have to_v: "ps_to s = plan_version inp" if "ri_kind inp \<noteq> PlanUninstall"
    using parts(3,6) that by (auto simp: plan_move_def Let_def split: plan_kind.splits option.splits if_splits)
  show "rx_test SLUG_RE slug" "ps_slug s = slug" "planHashOf nc s = Inr h"
    "rp_strict (ri_opts inp) \<Longrightarrow> slug \<in> set (rp_allowlist (ri_opts inp))"
    using parts by (auto simp: check_source_def slug_def)
  show "ri_kind inp \<noteq> PlanUninstall \<Longrightarrow> \<exists>v. ps_to s = Some v \<and> plan_version inp = Some v \<and> rx_test SEMVER_RE v"
    using parts(1) to_v by (auto simp: check_source_def split: option.splits)
  show "ri_kind inp \<in> {PlanInstall, PlanUpdate} \<Longrightarrow> ri_index inp = Some (es, expires) \<Longrightarrow>
       (\<exists>e\<in>set es. fst e = slug \<and> Some (snd e) = ps_to s) \<and> (\<forall>now. rp_now (ri_opts inp) = Some now \<and> \<not> rp_pinned (ri_opts inp) \<longrightarrow> now < expires)"
    using parts(2) to_v by (auto simp: check_index_def slug_def split: option.splits)
  show "ri_kind inp = PlanInstall \<Longrightarrow> \<forall>p\<in>set rows. ip_slug p = slug \<longrightarrow> \<not> ip_active p"
    using parts(3) by (auto simp: plan_move_def Let_def active_product_def slug_def rows_def find_None_iff split: if_splits)
  show "ri_kind inp = PlanUninstall \<Longrightarrow> present_dependents rows slug = [] \<or> ps_cascade s"
    using parts(4,8) by (simp add: check_dependents_def Let_def rows_def slug_def)
qed

section \<open>Examples\<close>

abbreviation needs :: "string \<Rightarrow> string \<Rightarrow> requirement \<Rightarrow> package_dep" where
  "needs slug rng k \<equiv> \<lparr>pd_slug = slug, pd_range = rng, pd_kind = k, pd_edge = None, pd_capability = None, pd_pin = None\<rparr>"

abbreviation package :: "string \<Rightarrow> string \<Rightarrow> package_dep list \<Rightarrow> package_manifest" where
  "package slug v deps \<equiv> \<lparr>mf_slug = slug, mf_version = v, mf_archive = [], mf_dependencies = deps, mf_capabilities = JNull\<rparr>"

definition two_ranges :: package_manifest where
  "two_ranges = package ''a'' ''1.0.0'' [needs ''c'' ''^1.0.0'' RequiredDep, needs ''b'' ''^1.0.0'' RequiredDep]"

definition two_ranges_view :: resolve_view where
  "two_ranges_view = \<lparr>vw_manifests =
      [(''b'', [package ''b'' ''1.0.0'' [needs ''c'' ''^2.0.0'' RequiredDep]]), (''c'', [package ''c'' ''1.0.0'' [], package ''c'' ''2.0.0'' []])],
     vw_installed = []\<rparr>"

lemma two_ranges_resolved:
  "resolveGraph two_ranges_view two_ranges = Inr \<lparr>rs_order = [(''c'', package ''c'' ''1.0.0'' []),
     (''b'', package ''b'' ''1.0.0'' [needs ''c'' ''^2.0.0'' RequiredDep]), (''a'', two_ranges)], rs_evidence = [], rs_optional = []\<rparr>"
  by code_simp

text \<open>The walk knows a slug, not a range: the first range that asks for a product decides, and a second one that the
  chosen version does not satisfy goes unnoticed.\<close>

lemma second_range_is_ignored:
  "(\<exists>r. resolveGraph two_ranges_view two_ranges = Inr r \<and> rs_order r ! 0 = (''c'', package ''c'' ''1.0.0'' [])
      \<and> rs_order r ! 1 = (''b'', package ''b'' ''1.0.0'' [needs ''c'' ''^2.0.0'' RequiredDep]))
   \<and> \<not> satisfiesSemver (Inl ''1.0.0'') ''^2.0.0'' False"
proof
  show "\<not> satisfiesSemver (Inl ''1.0.0'') ''^2.0.0'' False" by code_simp
qed (simp add: two_ranges_resolved)

theorem resolution_decides_witness:
  "\<exists>r. resolveGraph two_ranges_view two_ranges = Inr r \<and> last (rs_order r) = (''a'', two_ranges)
     \<and> (\<forall>i<length (rs_order r). \<forall>d\<in>set (mf_dependencies (snd (rs_order r ! i))).
          pd_kind d = RequiredDep \<longrightarrow> pd_slug d \<in> fst ` set (take i (rs_order r)) \<or> installed_hit two_ranges_view d)"
proof -
  obtain r where r: "resolveGraph two_ranges_view two_ranges = Inr r" using two_ranges_resolved by blast
  have "mf_slug two_ranges = ''a''" by (simp add: two_ranges_def)
  then have d: "last (rs_order r) = (''a'', two_ranges)" "\<And>i d. i < length (rs_order r) \<Longrightarrow> d \<in> set (mf_dependencies (snd (rs_order r ! i))) \<Longrightarrow>
      pd_kind d = EvidenceDep \<or> pd_slug d \<in> fst ` set (take i (rs_order r)) \<or> installed_hit two_ranges_view d \<or> pd_kind d = OptionalDep"
    using resolution_decides [of two_ranges_view two_ranges] by (auto simp: r)
  show ?thesis by (intro exI [of _ r] conjI r d(1) allI ballI impI) (use d(2) in force)
qed

text \<open>An optional dependency that nothing has installed is resolved and planned, and one that points back is a cycle.\<close>

lemma optional_is_planned:
  "resolveGraph \<lparr>vw_manifests = [(''c'', [package ''c'' ''1.0.0'' []])], vw_installed = []\<rparr> (package ''a'' ''1.0.0'' [needs ''c'' ''^1.0.0'' OptionalDep]) =
     Inr \<lparr>rs_order = [(''c'', package ''c'' ''1.0.0'' []), (''a'', package ''a'' ''1.0.0'' [needs ''c'' ''^1.0.0'' OptionalDep])],
       rs_evidence = [], rs_optional = [(''c'', package ''c'' ''1.0.0'' [])]\<rparr>"
  "resolveGraph \<lparr>vw_manifests = [(''a'', [package ''a'' ''1.0.0'' []]), (''c'', [package ''c'' ''1.0.0'' [needs ''a'' ''^1.0.0'' OptionalDep]])],
       vw_installed = []\<rparr> (package ''a'' ''1.0.0'' [needs ''c'' ''^1.0.0'' RequiredDep]) =
     Inl (DependencyCycle [''a'', ''c'', ''a''])"
  by code_simp+

text \<open>A required dependency counts as installed by a row in any state.\<close>

lemma rejected_row_satisfies:
  "resolveGraph \<lparr>vw_manifests = [], vw_installed = [\<lparr>ip_slug = ''c'', ip_version = ''1.0.0'', ip_state = PsRejected, ip_active = False,
       ip_dependencies = []\<rparr>]\<rparr> (package ''a'' ''1.0.0'' [needs ''c'' ''^1.0.0'' RequiredDep]) =
     Inr \<lparr>rs_order = [(''a'', package ''a'' ''1.0.0'' [needs ''c'' ''^1.0.0'' RequiredDep])], rs_evidence = [], rs_optional = []\<rparr>"
  by code_simp

text \<open>An update asks the first row of a dependent, a rejected generation, and not the one that runs.\<close>

lemma update_asks_another_row:
  "let old = \<lparr>ip_slug = ''d'', ip_version = ''1.0.0'', ip_state = PsRejected, ip_active = False, ip_dependencies = [needs ''a'' ''^2.0.0'' RequiredDep]\<rparr>;
       live = \<lparr>ip_slug = ''d'', ip_version = ''1.1.0'', ip_state = PsReady, ip_active = True, ip_dependencies = [needs ''a'' ''^1.0.0'' RequiredDep]\<rparr> in
   present_dependents [old, live] ''a'' = [''d''] \<and> dependent_allows [old, live] ''a'' ''2.0.0'' ''d'' = Inr ()
     \<and> \<not> satisfiesSemver (Inl ''2.0.0'') ''^1.0.0'' False"
  by code_simp

end
