(* ===== verification/Spec2Isabelle.thy ===== *)
theory Spec2Isabelle
  imports Semver_Facts Peer_Service Approvals Sync_Outbox_Facts Store_Objects Store_Runs Store_Outbox_Rows Package_Archive_Facts
    Lifecycle_Candidate Product_Resolve_Facts
begin

text \<open>
  \<^bold>\<open>The gateway: a model and its theorems\<close>

  The program is a local gateway between agents and the products of its operator.  Its core
  (\<open>packages/core/src/v2\<close>) holds the protocol, the pairing of peers with their scopes and tokens,
  the approvals, the disclosure rules and the outbox of the synchronisation; its daemon
  (\<open>packages/gateway-daemon/src\<close>) reads requests with a strict JSON parser and keeps every state
  in a store of its own: a hash-chained journal, lanes of records, content-addressed objects, and
  a registry derived from them.  The theories below translate that logic from the TypeScript
  source and prove what makes it correct.

  \<^bold>\<open>Foundations\<close>

  \<^item> \<open>Gateway_Prelude\<close>: results as sums (\<open>Inl\<close> the error, \<open>Inr\<close> the answer), the type \<open>op\<close> of an
    operation on a state with its combinators, JSON values, and the operations of the ECMAScript
    library that the source calls.
  \<^item> \<open>Gateway_Text\<close>: regular expressions decided by derivatives, proved equal to their languages, so that
    each pattern of the source is a term; numerals in a radix.
  \<^item> \<open>Record_Table\<close>: the keyed tables of the in-memory stores as a locale, interpreted on every table of the
    peer store, the approvals and the outbox.
  \<^item> \<open>Crypto_Text\<close> (\<open>crypto/canonical.ts\<close>, \<open>hash.ts\<close>, \<open>ids.ts\<close>, \<open>ed25519.ts\<close>, \<open>pairing.ts\<close>): base64url,
    canonical JSON, cursors and the three signed bodies.  SHA-256 and Ed25519 belong to
    \<open>node:crypto\<close>; they are the functions of the record \<open>node_crypto\<close>, an argument everywhere.

  \<^bold>\<open>Core\<close>

  \<^item> \<open>Semver\<close>, \<open>Semver_Grammar\<close>, \<open>Semver_Facts\<close> (\<open>lifecycle/semver.ts\<close>): parsing proved equal to the
    patterns of the source; precedence proved to be a linear order; ranges.
  \<^item> \<open>Protocol\<close> (\<open>protocol/errors.ts\<close>, \<open>topics.ts\<close>, \<open>rpc-registry.ts\<close>, \<open>peers.ts\<close>) and \<open>Peer_Scopes\<close>
    (\<open>peers/scopes.ts\<close>): the tables, the validation of scopes over arbitrary JSON, the intersection of
    grants and the admission of every method.  A grant never widens what was approved.
  \<^item> \<open>Peer_Ports\<close>, \<open>Peer_Registry\<close>, \<open>Peer_Tokens\<close>, \<open>Peer_Pairing\<close>, \<open>Peer_Service\<close> (\<open>peers/*.ts\<close>): the store
    of peers, invitations, challenges, grants and sessions as one record, each operation as a state
    transformer, and the relation \<open>reachable\<close> of the states that calls of the service reach.  The
    invariants of reachable states, the life of an invitation, registration by the approved key
    only, rotation of refresh tokens with the revocation of a reused family, and the lock-out of a
    revoked peer are theorems over every sequence of calls.
  \<^item> \<open>Approvals\<close> (\<open>approvals/*.ts\<close>): requests bound to an action, decided once, expired lazily.
  \<^item> \<open>Sync_Disclosure\<close> (\<open>sync/disclosure.ts\<close>, \<open>bus/src/redact.ts\<close>): what an event exports under a profile and a
    consent; everything exported is redacted.
  \<^item> \<open>Sync_Outbox\<close>, \<open>Sync_Outbox_Facts\<close> (\<open>sync/outbox.ts\<close>, \<open>sinks.ts\<close>, \<open>ports.ts\<close>): the outbox engine; an asynchronous
    send is cut where the source awaits, so that other calls interleave.  One send per stream, acknowledged
    items stay acknowledged, the pump ends.
  \<^item> \<open>Lifecycle_States\<close> (\<open>protocol/lifecycle.ts\<close>, \<open>lifecycle/health.ts\<close>): the table of the product states and
    the health gate, which decides whenever the clock advances.
  \<^item> \<open>Product_Resolve\<close>, \<open>Product_Resolve_Facts\<close> (\<open>lifecycle/resolve.ts\<close>): the dependency resolver of a plan.  The walk
    always decides: an order with every dependency before its dependent, or a cycle, a blocked or a missing one.
  \<^item> \<open>Package_Archive\<close>, \<open>Package_Archive_Facts\<close> (\<open>lifecycle/archive.ts\<close>): the scan of a release archive over its
    bytes.  What it accepts stays beneath its directory, with safe modes and distinct names.
  \<^item> \<open>Lifecycle_Engine\<close> (\<open>lifecycle/engine.ts\<close>, the product registry of \<open>store-ports.ts\<close>): every operation of
    the engine over the stored rows and, apart from them, the row objects that a call holds.
    \<open>Lifecycle_History\<close> is the law of its runs: one active generation, every receipt journaled.
    \<open>Lifecycle_Candidate\<close> follows one candidate: an install or update is all or nothing.

  \<^bold>\<open>Daemon\<close>

  \<^item> \<open>Strict_Json\<close>, \<open>Strict_Json_Grammar\<close>, \<open>Strict_Json_Facts\<close> (\<open>net/strict-json.ts\<close>): the parser of the
    requests, proved to accept exactly the texts of a grammar; \<open>Json_Std\<close> is the \<open>JSON\<close> object of the
    language, which the store uses on its own files.
  \<^item> \<open>Store_Journal\<close>, \<open>Store_Journal_Facts\<close> (\<open>store/journal.ts\<close>, \<open>util.ts\<close>): the journal over the bytes of its
    file.  Verification accepts exactly the chains; an append refines the append to a list; a crash
    in an append loses that append at most; the head hash commits to every line.
  \<^item> \<open>Store_Lanes\<close>, \<open>Store_Recover\<close>, \<open>Store_Recover_Facts\<close>, \<open>Store_Writer_Facts\<close> (\<open>store/lanes.ts\<close>): the writer of
    a lane with rotation, and the recovery of its directory.  Accepted records read back;
    recovery loses no byte and vouches for what was committed; a dry run announces it.
  \<^item> \<open>Store_Objects\<close> (\<open>store/objects.ts\<close>): objects under their digests.
  \<^item> \<open>Store_Registry\<close>, \<open>Store_Registry_Facts\<close> (\<open>store/registry.ts\<close>): the tables, the reducer of every mutation kind and
    the queries.  The reducers depend on the tables only, so a rebuild from the journal equals the
    application of its markers; the active generation of a product moves by compare-and-set.
  \<^item> \<open>Store_Recovery\<close>, \<open>Store_Recovery_Facts\<close> (\<open>store/recovery.ts\<close>): recovery of a state root from journal,
    lanes and registry; every marker reaches the registry once.
  \<^item> \<open>Store_Facade\<close>, \<open>Store_Facade_Facts\<close>, \<open>Store_Runs\<close> (\<open>store/store.ts\<close>): opening, committing and reading.  The
    relation \<open>store_run\<close> is every sequence of operations from an empty root: the records of a commit read back
    by the cursors it answered, and the index in memory is the one recovery derives.
  \<^item> \<open>Store_Outbox_Rows\<close> (\<open>store/outbox.ts\<close>): the outbox rows of the registry.

  How they meet: the services of the core reach the store through ports, each of whose operations is
  one synchronous commit or one query; a commit writes objects, then lane records, then
  one marker, and applies the marker to the registry; recovery reads the same files in the other
  direction.  \<open>commit_leaves_one_marker\<close>, \<open>catch_up_exactly_once\<close> and \<open>live_index_rebuilds\<close> are the
  theorems that span these components.

  \<^bold>\<open>Conventions\<close>

  A definition has the name of the function it translates where Isabelle allows it; a prefix names the
  component where names clash (\<open>jo_\<close> journal, \<open>store_\<close> facade, \<open>ap_\<close> approvals, \<open>ob_\<close> outbox).
  A \<open>Map\<close> that is iterated is an association list in insertion order.  A string stands for a text
  of code units below 256, except in the strict parser, which works on UTF-16 code units.  Numbers are
  unbounded where the source has \<open>BigInt\<close> or checks \<open>Number.isSafeInteger\<close>, and the checks are part
  of the model.  Clocks, random numbers and names drawn from them are arguments or fields of the
  state.  Loops are structural recursions except the scanners, the regular expression
  derivatives, the nested mutations, the pump and the walk of the resolver, whose termination is proved; no
  definition needs fuel but the pump and that walk, for which enough fuel is a theorem.  A run of the store assumes fewer than \<open>2 ^ 64\<close>
  lanes, the width of a lane ordinal.
  What the lifecycle engine calls is the record \<open>engine_ports\<close> of functions of the tick at the call:
  the verified release, the answers of the adapter process, the clock, the failures of each write.  Where the
  source awaits, \<open>po_other\<close> is whatever the rest of the program does to the engine meanwhile: in
  \<open>Lifecycle_History\<close> other calls of the engine, to any depth, or any change that keeps the law itself (the rest
  of a call that had begun before falls under this condition); in \<open>Lifecycle_Candidate\<close> nothing.

  \<^bold>\<open>Not modelled\<close>

  The text of error messages; file modes, directory creation and \<open>fsync\<close> (a write is durable when it
  returns, a crash is modelled where the source plans for one); SQLite below its statements.
  The services that are calls of operating system, network or external products: sockets,
  HTTP, processes and locks of the daemon, the placing of extracted files, the pipe to an adapter, command
  line, web console.  Of the core, release manifests with their verification, the product service,
  the platform services, the catalog and cloud clients and the transparency proofs are not translated.  Tests,
  generated schemas and examples carry no logic of the program.
\<close>

end
